(* ===== verification/Prelude.thy ===== *)
theory Prelude
  imports Main "HOL-Library.Word" "HOL-Library.AList" "HOL-Library.Monad_Syntax"
begin

text \<open>
  Shared material of the development: the theorem collections the component proofs
  use, Rust's integer operations, the decimal rendering behind the format macros, the
  hash-map operations on association lists, and the source of randomness.

  Conventions used by every theory:
  \<^item> a call that may panic (or loop for ever) returns an \<open>option\<close>, and \<open>None\<close> is
    the call that does not come back; the build sets \<^verbatim>\<open>panic = "abort"\<close>, so nothing
    runs after it;
  \<^item> a \<open>Result<T, E>\<close> is \<open>E + T\<close>, \<open>Inl\<close> the error;
  \<^item> a \<open>&mut self\<close> method returns its result together with the new state;
  \<^item> a \<open>HashMap\<close> is an association list with distinct keys; code that walks a map
    takes the iteration order as an argument.
\<close>

section \<open>Theorem collections\<close>

named_theorems sat_defs \<open>definitions of the saturating operations\<close>
named_theorems map_simps \<open>lookups after the map operations\<close>
named_theorems op_defs \<open>definitions of the component operations\<close>

section \<open>Rust integers\<close>

text \<open>
  Unsigned integers of width \<open>w\<close> as natural numbers below \<open>2 ^ w\<close>, for the components
  whose arithmetic saturates. \<open>saturating_sub\<close> is subtraction on \<^typ>\<open>nat\<close>.
\<close>

definition umax :: "nat \<Rightarrow> nat" where
  "umax w = 2 ^ w - 1"

definition saturating_add :: "nat \<Rightarrow> nat \<Rightarrow> nat \<Rightarrow> nat" where
  [sat_defs]: "saturating_add w a b = min (a + b) (umax w)"

definition saturating_mul :: "nat \<Rightarrow> nat \<Rightarrow> nat \<Rightarrow> nat" where
  [sat_defs]: "saturating_mul w a b = min (a * b) (umax w)"

definition wrapping_add :: "nat \<Rightarrow> nat \<Rightarrow> nat \<Rightarrow> nat" where
  "wrapping_add w a b = (a + b) mod 2 ^ w"

definition checked_sub :: "nat \<Rightarrow> nat \<Rightarrow> nat option" where
  "checked_sub a b = (if b \<le> a then Some (a - b) else None)"

definition fits :: "nat \<Rightarrow> nat \<Rightarrow> bool" where
  "fits w a \<longleftrightarrow> a < 2 ^ w"

lemma fits_umax: "fits w a \<longleftrightarrow> a \<le> umax w"
proof -
  have "(0::nat) < 2 ^ w" by simp
  then show ?thesis unfolding fits_def umax_def by linarith
qed

lemma saturating_add_le_umax [simp]: "saturating_add w a b \<le> umax w"
  by (simp add: saturating_add_def)

lemma saturating_mul_le_umax [simp]: "saturating_mul w a b \<le> umax w"
  by (simp add: saturating_mul_def)

lemma saturating_add_fits [simp]: "fits w (saturating_add w a b)"
  by (simp add: fits_umax)

lemma saturating_mul_fits [simp]: "fits w (saturating_mul w a b)"
  by (simp add: fits_umax)

lemma saturating_add_exact: "a + b \<le> umax w \<Longrightarrow> saturating_add w a b = a + b"
  by (simp add: saturating_add_def)

lemma saturating_add_ge: "a \<le> umax w \<Longrightarrow> a \<le> saturating_add w a b"
  by (simp add: saturating_add_def)

lemma saturating_add_le: "saturating_add w a b \<le> a + b"
  by (simp add: saturating_add_def)

lemma saturating_add_Suc: "a < umax w \<Longrightarrow> saturating_add w a 1 = Suc a"
  by (simp add: saturating_add_def)

lemma saturating_add_mono:
  "a \<le> a' \<Longrightarrow> b \<le> b' \<Longrightarrow> saturating_add w a b \<le> saturating_add w a' b'"
  by (auto simp: saturating_add_def min_def)

lemma saturating_mul_mono:
  assumes "a \<le> a'" "b \<le> b'"
  shows "saturating_mul w a b \<le> saturating_mul w a' b'"
  using mult_le_mono [OF assms] by (simp add: saturating_mul_def min_le_iff_disj)

lemma saturating_mul_one [simp]: "fits w b \<Longrightarrow> saturating_mul w 1 b = b"
  by (simp add: saturating_mul_def fits_umax)

lemma checked_sub_Some_iff: "checked_sub a b = Some c \<longleftrightarrow> b \<le> a \<and> c = a - b"
  by (auto simp: checked_sub_def)

lemma checked_sub_None_iff: "checked_sub a b = None \<longleftrightarrow> a < b"
  by (auto simp: checked_sub_def)

lemma umax_64: "umax 64 = 18446744073709551615"
  by (simp add: umax_def)

lemma umax_8: "umax 8 = 255"
  by (simp add: umax_def)

section \<open>Association lists\<close>

lemma map_of_filter_distinct:
  "distinct (map fst al) \<Longrightarrow>
   map_of (filter Q al) k = (if \<exists>v. map_of al k = Some v \<and> Q (k, v) then map_of al k else None)"
proof (induction al)
  case (Cons a al)
  then show ?case by (cases a) (auto simp: map_of_eq_None_iff)
qed simp

lemma map_of_map_snd: "map_of (map (\<lambda>(k, v). (k, g v)) xs) k = map_option g (map_of xs k)"
  by (induction xs) auto

lemma distinct_fst_filter: "distinct (map fst xs) \<Longrightarrow> distinct (map fst (filter P xs))"
  by (induction xs) auto

section \<open>Decimal rendering\<close>

text \<open>The \<^verbatim>\<open>{}\<close> placeholder on an unsigned integer.\<close>

definition digit_char :: "nat \<Rightarrow> char" where
  "digit_char d = char_of (48 + d)"

fun show_nat :: "nat \<Rightarrow> string" where
  "show_nat n = (if n < 10 then [digit_char n] else show_nat (n div 10) @ [digit_char (n mod 10)])"

declare show_nat.simps [simp del]

text \<open>The inverse, \<^verbatim>\<open>str::parse\<close> on a string of digits without a sign.\<close>

definition is_digit :: "char \<Rightarrow> bool" where
  "is_digit c \<longleftrightarrow> 48 \<le> (of_char c :: nat) \<and> (of_char c :: nat) \<le> 57"

definition digit_val :: "char \<Rightarrow> nat" where
  "digit_val c = of_char c - 48"

definition digits_val :: "nat \<Rightarrow> string \<Rightarrow> nat" where
  "digits_val acc s = foldl (\<lambda>n c. 10 * n + digit_val c) acc s"

lemma digit_char_of: "d < 10 \<Longrightarrow> (of_char (digit_char d) :: nat) = 48 + d"
  by (simp add: digit_char_def)

lemma digit_char_is_digit [simp]: "d < 10 \<Longrightarrow> is_digit (digit_char d)"
  by (simp add: is_digit_def digit_char_of)

lemma digit_val_char [simp]: "d < 10 \<Longrightarrow> digit_val (digit_char d) = d"
  by (simp add: digit_val_def digit_char_of)

lemma show_nat_nonempty [simp]: "show_nat n \<noteq> []"
  by (subst show_nat.simps) simp

lemma show_nat_digits: "list_all is_digit (show_nat n)"
proof (induction n rule: show_nat.induct)
  case (1 n)
  then show ?case by (subst show_nat.simps) (auto simp: list_all_append)
qed

lemma digits_val_show_nat: "digits_val 0 (show_nat n) = n"
proof (induction n rule: show_nat.induct)
  case (1 n)
  show ?case
  proof (cases "n < 10")
    case True
    then show ?thesis by (subst show_nat.simps) (simp add: digits_val_def)
  next
    case False
    with "1.IH" have "digits_val 0 (show_nat (n div 10)) = n div 10" by simp
    with False show ?thesis by (subst show_nat.simps) (simp add: digits_val_def)
  qed
qed

lemma show_nat_inject [simp]: "show_nat m = show_nat n \<longleftrightarrow> m = n"
  by (metis digits_val_show_nat)

section \<open>Randomness\<close>

text \<open>
  The \<open>rand\<close> crate is not part of the repository: a generator is an argument of the
  definitions that draw from it. \<open>gen_range lo hi\<close> is \<^verbatim>\<open>rng.gen_range(lo..hi)\<close>, which panics
  on an empty range (the callers here test for that), and \<open>gen_bits w\<close> is \<^verbatim>\<open>rng.gen()\<close> at
  an unsigned type of width \<open>w\<close>, and \<open>gen_alphanumeric\<close> samples the \<open>Alphanumeric\<close>
  distribution. The documented behaviour is \<open>rng_ok\<close>.
\<close>

definition is_alphanumeric :: "char \<Rightarrow> bool" where
  "is_alphanumeric c \<longleftrightarrow> is_digit c \<or>
     65 \<le> (of_char c :: nat) \<and> (of_char c :: nat) \<le> 90 \<or>
     97 \<le> (of_char c :: nat) \<and> (of_char c :: nat) \<le> 122"

record 'r rng =
  gen_range :: "nat \<Rightarrow> nat \<Rightarrow> 'r \<Rightarrow> nat \<times> 'r"
  gen_bits :: "nat \<Rightarrow> 'r \<Rightarrow> nat \<times> 'r"
  gen_alphanumeric :: "'r \<Rightarrow> char \<times> 'r"

definition rng_ok :: "'r rng \<Rightarrow> bool" where
  "rng_ok R \<longleftrightarrow>
     (\<forall>lo hi s. lo < hi \<longrightarrow> lo \<le> fst (gen_range R lo hi s) \<and> fst (gen_range R lo hi s) < hi) \<and>
     (\<forall>w s. fst (gen_bits R w s) < 2 ^ w) \<and>
     (\<forall>s. is_alphanumeric (fst (gen_alphanumeric R s)))"

text \<open>A concrete generator, a counter, for evaluating the model.\<close>

definition counter_rng :: "nat rng" where
  "counter_rng =
     \<lparr>gen_range = (\<lambda>lo hi s. (lo + s mod (hi - lo), Suc s)), gen_bits = (\<lambda>w s. (s mod 2 ^ w, Suc s)),
      gen_alphanumeric = (\<lambda>s. (char_of (97 + s mod 26), Suc s))\<rparr>"

lemma gen_range_bounds:
  "rng_ok R \<Longrightarrow> lo < hi \<Longrightarrow> gen_range R lo hi s = (x, s') \<Longrightarrow> lo \<le> x \<and> x < hi"
  unfolding rng_ok_def by (metis fst_conv)

lemma gen_bits_bound: "rng_ok R \<Longrightarrow> gen_bits R w s = (x, s') \<Longrightarrow> x < 2 ^ w"
  unfolding rng_ok_def by (metis fst_conv)

lemma counter_rng_ok [simp]: "rng_ok counter_rng"
proof -
  have "lo + s mod (hi - lo) < hi" if "lo < hi" for lo hi s :: nat
    using that mod_less_divisor [of "hi - lo" s] by linarith
  moreover have "97 + s mod 26 < 256 \<and> 97 + s mod 26 \<le> 122" for s :: nat
    using mod_less_divisor [of 26 s] by linarith
  ultimately show ?thesis by (simp add: rng_ok_def counter_rng_def is_alphanumeric_def)
qed

text \<open>A uniformly chosen element of a slice, \<^verbatim>\<open>SliceRandom::choose\<close>: \<open>None\<close> on an empty one.\<close>

definition slice_choose :: "'r rng \<Rightarrow> 'a list \<Rightarrow> 'r \<Rightarrow> 'a option \<times> 'r" where
  "slice_choose R xs s =
     (if xs = [] then (None, s)
      else let (i, s) = gen_range R 0 (length xs) s in (Some (xs ! i), s))"

lemma slice_choose_in: "rng_ok R \<Longrightarrow> slice_choose R xs s = (Some x, s') \<Longrightarrow> x \<in> set xs"
  by (cases "gen_range R 0 (length xs) s")
    (auto simp: slice_choose_def dest: gen_range_bounds split: if_splits)

lemma slice_choose_Some: "xs \<noteq> [] \<Longrightarrow> \<exists>x s'. slice_choose R xs s = (Some x, s')"
  by (simp add: slice_choose_def split_beta)

section \<open>Loops\<close>

text \<open>
  A \<open>loop\<close> or \<open>while\<close> whose body is a function of the loop variables: each pass panics
  (\<open>None\<close>), goes round again with new values, or leaves the loop with a result. \<open>loop\<close>
  is \<open>None\<close> when a pass panics and when the passes never end.
\<close>

datatype ('s, 'a) pass = Again 's | Break 'a

partial_function (option) loop :: "('s \<Rightarrow> ('s, 'a) pass option) \<Rightarrow> 's \<Rightarrow> 'a option" where
  "loop body s =
     (case body s of
        None \<Rightarrow> None
      | Some (Break r) \<Rightarrow> Some r
      | Some (Again s') \<Rightarrow> loop body s')"

lemma loop_Break [simp]: "body s = Some (Break r) \<Longrightarrow> loop body s = Some r"
  by (subst loop.simps) simp

lemma loop_Again: "body s = Some (Again s') \<Longrightarrow> loop body s = loop body s'"
  by (subst loop.simps) simp

lemma loop_panic: "body s = None \<Longrightarrow> loop body s = None"
  by (subst loop.simps) simp

text \<open>Partial correctness: what an invariant gives for the result.\<close>

lemma loop_invariant:
  assumes ret: "loop body s = Some r" and init: "I s"
    and again: "\<And>s s'. I s \<Longrightarrow> body s = Some (Again s') \<Longrightarrow> I s'"
    and break: "\<And>s r. I s \<Longrightarrow> body s = Some (Break r) \<Longrightarrow> Q r"
  shows "Q r"
proof -
  have "body' = body \<longrightarrow> I s \<longrightarrow> Q r" if "loop body' s = Some r" for body' s r
  proof (rule loop.raw_induct [OF _ that])
    fix f body' s r
    assume IH: "\<And>body' s r. f body' s = Some r \<Longrightarrow> body' = body \<longrightarrow> I s \<longrightarrow> Q r"
      and eq: "(case body' s of None \<Rightarrow> None | Some (Again s') \<Rightarrow> f body' s'
        | Some (Break r) \<Rightarrow> Some r) = Some r"
    show "body' = body \<longrightarrow> I s \<longrightarrow> Q r"
      using eq IH again break by (auto split: option.splits pass.splits)
  qed
  with ret init show ?thesis by blast
qed

text \<open>Total correctness: a body that never panics and decreases a measure leaves the loop.\<close>

lemma loop_total:
  assumes "I s"
    and pass: "\<And>s. I s \<Longrightarrow> (\<exists>r. body s = Some (Break r) \<and> Q r) \<or>
      (\<exists>s'. body s = Some (Again s') \<and> I s' \<and> f s' < (f s :: nat))"
  shows "\<exists>r. loop body s = Some r \<and> Q r"
  using assms(1)
proof (induction "f s" arbitrary: s rule: less_induct)
  case less
  from pass [OF less.prems] show ?case
  proof
    assume "\<exists>r. body s = Some (Break r) \<and> Q r"
    then show ?case by auto
  next
    assume "\<exists>s'. body s = Some (Again s') \<and> I s' \<and> f s' < f s"
    then obtain s' where "body s = Some (Again s')" "I s'" "f s' < f s" by blast
    with less.hyps [of s'] show ?case by (simp add: loop_Again)
  qed
qed

section \<open>Results\<close>

text \<open>\<^verbatim>\<open>collect::<Result<Vec<_>, _>>()\<close>: the first error, or all values.\<close>

fun collect_results :: "('e + 'a) list \<Rightarrow> 'e + 'a list" where
  "collect_results [] = Inr []"
| "collect_results (Inl e # rs) = Inl e"
| "collect_results (Inr x # rs) = map_sum id ((#) x) (collect_results rs)"

lemma collect_results_Inr [simp]: "collect_results (map Inr xs) = Inr xs"
  by (induction xs) simp_all

section \<open>Machines\<close>

text \<open>
  Runs of a machine whose step answers an operation or panics, under a guard that says which
  operations its environment may issue in a state.
\<close>

inductive reaches :: "('op \<Rightarrow> 's \<Rightarrow> ('r \<times> 's) option) \<Rightarrow> ('op \<Rightarrow> 's \<Rightarrow> bool) \<Rightarrow> 's \<Rightarrow> 's \<Rightarrow> bool"
  for step :: "'op \<Rightarrow> 's \<Rightarrow> ('r \<times> 's) option" and guard :: "'op \<Rightarrow> 's \<Rightarrow> bool" and s0 :: 's where
  reaches_start: "reaches step guard s0 s0"
| reaches_step: "reaches step guard s0 s \<Longrightarrow> guard op s \<Longrightarrow> step op s = Some (r, s') \<Longrightarrow> reaches step guard s0 s'"

text \<open>A machine whose allowed steps keep an invariant.\<close>

locale invariant_machine =
  fixes step :: "'op \<Rightarrow> 's \<Rightarrow> ('r \<times> 's) option" and guard :: "'op \<Rightarrow> 's \<Rightarrow> bool" and inv :: "'s \<Rightarrow> bool"
  assumes step_inv: "inv s \<Longrightarrow> guard op s \<Longrightarrow> step op s = Some (r, s') \<Longrightarrow> inv s'"
begin

lemma reaches_inv: "reaches step guard s0 s \<Longrightarrow> inv s0 \<Longrightarrow> inv s"
  by (induction rule: reaches.induct) (auto intro: step_inv)

end

text \<open>A guarded machine: moreover every allowed operation is answered.\<close>

locale guarded_machine = invariant_machine +
  assumes answers: "inv s \<Longrightarrow> guard op s \<Longrightarrow> step op s \<noteq> None"
begin

lemma never_stuck: "reaches step guard s0 s \<Longrightarrow> inv s0 \<Longrightarrow> guard op s \<Longrightarrow> \<exists>r s'. step op s = Some (r, s')"
  using answers [OF reaches_inv] by auto

end

end
