(* ===== verification/Logrotate_File.thy ===== *)
theory Logrotate_File
  imports Prelude
begin

text \<open>
  The \<open>File\<close> of the logrotate filesystem model,
  \<^verbatim>\<open>lading/src/generator/file_gen/logrotate_fs/model.rs\<close>: metadata from which every
  access pattern follows, and the operations that move its clock. The \<open>u64\<close> counters are
  natural numbers with the source's saturating arithmetic; metrics counters are left out.
\<close>

type_synonym Tick = nat
type_synonym Inode = nat

record File =
  parent :: Inode
  bytes_written :: nat
  bytes_read :: nat
  created_tick :: Tick
  access_tick :: Tick
  modified_tick :: Tick
  status_tick :: Tick
  bytes_per_tick :: nat
  read_only :: bool
  read_only_since :: "Tick option"
  peer :: "Inode option"
  ordinal :: nat
  group_id :: nat
  open_handles :: nat
  unlinked :: bool
  max_offset_observed :: nat

record FileHandle =
  handle_id :: nat
  handle_inode :: Inode

definition File_new :: "Inode \<Rightarrow> nat \<Rightarrow> nat \<Rightarrow> Tick \<Rightarrow> Inode option \<Rightarrow> File" where
  "File_new parent' group_id' bytes_per_tick' now peer' =
     \<lparr>parent = parent', bytes_written = 0, bytes_read = 0, created_tick = now, access_tick = now,
      modified_tick = now, status_tick = now, bytes_per_tick = bytes_per_tick', read_only = False,
      read_only_since = None, peer = peer', ordinal = 0, group_id = group_id', open_handles = 0,
      unlinked = False, max_offset_observed = 0\<rparr>"

definition file_advance_time :: "File \<Rightarrow> Tick \<Rightarrow> File" where
  "file_advance_time f now =
     (if now \<le> modified_tick f \<or> read_only f then f
      else
        let diff = now - modified_tick f;
            bytes_accum = saturating_mul 64 diff (bytes_per_tick f)
        in f\<lparr>bytes_written := saturating_add 64 (bytes_written f) bytes_accum,
             modified_tick := now, status_tick := now\<rparr>)"

definition file_touch_access :: "File \<Rightarrow> Tick \<Rightarrow> File" where
  "file_touch_access f now =
     (if access_tick f < now then f\<lparr>access_tick := now, status_tick := now\<rparr> else f)"

definition file_open :: "File \<Rightarrow> Tick \<Rightarrow> File" where
  "file_open f now =
     (let f = file_touch_access (file_advance_time f now) now
      in f\<lparr>open_handles := wrapping_add 64 (open_handles f) 1\<rparr>)"

definition file_close :: "File \<Rightarrow> Tick \<Rightarrow> File option" where
  "file_close f now =
     (let f = file_advance_time f now
      in if 0 < open_handles f then Some (f\<lparr>open_handles := open_handles f - 1\<rparr>) else None)"

definition file_unlink :: "File \<Rightarrow> Tick \<Rightarrow> File" where
  "file_unlink f now = (file_advance_time f now)\<lparr>unlinked := True\<rparr>"

definition file_read :: "File \<Rightarrow> nat \<Rightarrow> Tick \<Rightarrow> File" where
  "file_read f request now =
     (let f = file_touch_access (file_advance_time f now) now
      in f\<lparr>bytes_read := saturating_add 64 (bytes_read f) request\<rparr>)"

definition file_set_read_only :: "File \<Rightarrow> Tick \<Rightarrow> File" where
  "file_set_read_only f now = f\<lparr>read_only := True, read_only_since := Some now\<rparr>"

definition file_incr_ordinal :: "File \<Rightarrow> File" where
  "file_incr_ordinal f = f\<lparr>ordinal := saturating_add 8 (ordinal f) 1\<rparr>"

lemmas file_op_defs =
  file_advance_time_def file_touch_access_def file_open_def file_close_def file_unlink_def
  file_read_def file_set_read_only_def file_incr_ordinal_def

section \<open>The file invariant\<close>

text \<open>
  What every operation keeps of one file: nothing was read past what was written, the status
  tick is that of the last access or modification, the ticks are in order, and a file is
  read-only exactly since some tick.
\<close>

definition file_ok :: "File \<Rightarrow> bool" where
  "file_ok f \<longleftrightarrow>
     max_offset_observed f \<le> bytes_written f \<and>
     bytes_written f \<le> umax 64 \<and>
     (status_tick f = modified_tick f \<or> status_tick f = access_tick f) \<and>
     created_tick f \<le> modified_tick f \<and>
     (read_only f \<longleftrightarrow> read_only_since f \<noteq> None)"

lemma File_new_ok [simp]: "file_ok (File_new p g b now pr)"
  by (simp add: file_ok_def File_new_def)

lemma file_advance_time_ok: "file_ok f \<Longrightarrow> file_ok (file_advance_time f now)"
  by (auto simp: file_ok_def file_advance_time_def Let_def intro: le_trans saturating_add_ge)

lemma file_touch_access_ok: "file_ok f \<Longrightarrow> file_ok (file_touch_access f now)"
  by (simp add: file_ok_def file_touch_access_def)

lemma file_open_ok: "file_ok f \<Longrightarrow> file_ok (file_open f now)"
  using file_touch_access_ok [OF file_advance_time_ok, of f now now]
  by (simp add: file_open_def file_ok_def Let_def)

lemma file_read_ok: "file_ok f \<Longrightarrow> file_ok (file_read f n now)"
  using file_touch_access_ok [OF file_advance_time_ok, of f now now]
  by (simp add: file_read_def file_ok_def Let_def)

lemma file_close_ok: "file_ok f \<Longrightarrow> file_close f now = Some f' \<Longrightarrow> file_ok f'"
  using file_advance_time_ok [of f now]
  by (auto simp: file_close_def file_ok_def Let_def split: if_splits)

lemma file_unlink_ok: "file_ok f \<Longrightarrow> file_ok (file_unlink f now)"
  using file_advance_time_ok [of f now] by (simp add: file_unlink_def file_ok_def)

lemma file_set_read_only_ok: "file_ok f \<Longrightarrow> file_ok (file_set_read_only f now)"
  by (simp add: file_ok_def file_set_read_only_def)

lemma file_incr_ordinal_ok: "file_ok f \<Longrightarrow> file_ok (file_incr_ordinal f)"
  by (simp add: file_ok_def file_incr_ordinal_def)

text \<open>Once the clock has reached \<open>now\<close>, or the file is read-only, advancing it again does nothing.\<close>

lemma file_advance_time_idle [simp]:
  "now \<le> modified_tick f \<or> read_only f \<Longrightarrow> file_advance_time f now = f"
  by (auto simp: file_advance_time_def)

lemma file_advance_time_idem [simp]:
  "file_advance_time (file_advance_time f now) now = file_advance_time f now"
  by (simp add: file_advance_time_def Let_def)

text \<open>Fields the clock leaves alone.\<close>

lemma file_advance_time_frame [simp]:
  "parent (file_advance_time f now) = parent f" "peer (file_advance_time f now) = peer f"
  "ordinal (file_advance_time f now) = ordinal f" "group_id (file_advance_time f now) = group_id f"
  "unlinked (file_advance_time f now) = unlinked f" "read_only (file_advance_time f now) = read_only f"
  "read_only_since (file_advance_time f now) = read_only_since f"
  "open_handles (file_advance_time f now) = open_handles f"
  "created_tick (file_advance_time f now) = created_tick f"
  "access_tick (file_advance_time f now) = access_tick f"
  "bytes_per_tick (file_advance_time f now) = bytes_per_tick f"
  "max_offset_observed (file_advance_time f now) = max_offset_observed f"
  "bytes_read (file_advance_time f now) = bytes_read f"
  by (simp_all add: file_advance_time_def Let_def)

lemma file_touch_access_frame [simp]:
  "parent (file_touch_access f now) = parent f" "peer (file_touch_access f now) = peer f"
  "ordinal (file_touch_access f now) = ordinal f" "group_id (file_touch_access f now) = group_id f"
  "unlinked (file_touch_access f now) = unlinked f" "read_only (file_touch_access f now) = read_only f"
  "read_only_since (file_touch_access f now) = read_only_since f"
  "open_handles (file_touch_access f now) = open_handles f"
  "created_tick (file_touch_access f now) = created_tick f"
  "modified_tick (file_touch_access f now) = modified_tick f"
  "bytes_written (file_touch_access f now) = bytes_written f"
  "bytes_per_tick (file_touch_access f now) = bytes_per_tick f"
  "max_offset_observed (file_touch_access f now) = max_offset_observed f"
  by (simp_all add: file_touch_access_def)

end
