(* ===== verification/Block.thy ===== *)
theory Block
  imports Prelude
begin

text \<open>
  \<^verbatim>\<open>lading_payload/src/block.rs\<close>: blocks, the cache that cycles over them, random access
  into the cycle, and the construction of a cache from a serializer.
  Bytes are \<^typ>\<open>char\<close>s. A serializer is an argument: given a byte budget and the random
  state it answers bytes or an error. Logging and timing are left out.
\<close>

type_synonym Bytes = string

record Block =
  total_bytes :: nat
  bytes :: Bytes

datatype ConstructBlockCacheError = InsufficientBlockSizes

datatype 'e SpinError =
    Spin_Send Block
  | Spin_InvalidConfig string
  | Spin_Static 'e
  | Spin_EmptyRng
  | Spin_Deserialize 'e
  | Spin_ConstructBlockCache ConstructBlockCacheError
  | Spin_EmptyBlock
  | Spin_Zero

datatype ChunkError = EmptyBlockBytes | InsufficientTotalBytes

datatype 'e cache_error =
    Error_Chunk ChunkError
  | Error_Construct ConstructBlockCacheError
  | Error_InvalidConfig string
  | Error_Static 'e
  | Error_Deserialize 'e
  | Error_MaximumBlock
  | Error_Spin "'e SpinError"

datatype CacheMethod = CacheMethod_Fixed

definition default_cache_method :: CacheMethod where
  "default_cache_method = CacheMethod_Fixed"

definition default_maximum_block_size :: nat where
  "default_maximum_block_size = 1024 * 1024"

datatype Cache = Fixed (idx: nat) (blocks: "Block list") (total_cycle_size: nat)

section \<open>Cycling over the blocks\<close>

definition peek_next :: "Cache \<Rightarrow> Block option" where
  "peek_next c = (if idx c < length (blocks c) then Some (blocks c ! idx c) else None)"

definition next_block :: "Cache \<Rightarrow> (Block \<times> Cache) option" where
  "next_block c =
     (if idx c < length (blocks c)
      then Some (blocks c ! idx c,
                 Fixed ((idx c + 1) mod length (blocks c)) (blocks c) (total_cycle_size c))
      else None)"

text \<open>
  \<open>Cache::spin\<close> on a channel that accepts \<open>n\<close> more blocks and is closed after that: the
  blocks sent, and the error the next send comes back with.
\<close>

fun spin_loop :: "Block list \<Rightarrow> nat \<Rightarrow> nat \<Rightarrow> (Block list \<times> 'e SpinError) option" where
  "spin_loop bs i n =
     (if i < length bs
      then (case n of
              0 \<Rightarrow> Some ([], Spin_Send (bs ! i))
            | Suc m \<Rightarrow> map_option (\<lambda>(sent, e). (bs ! i # sent, e))
                         (spin_loop bs ((i + 1) mod length bs) m))
      else None)"

declare spin_loop.simps [simp del]

definition spin :: "Cache \<Rightarrow> nat \<Rightarrow> (Block list \<times> 'e SpinError) option" where
  "spin c n = spin_loop (blocks c) (idx c) n"

section \<open>Random access\<close>

text \<open>
  The inner \<open>for\<close> of \<open>read_at\<close>: walk the blocks until one covers the offset. The result is
  what was read, if a block was found, and the final \<open>block_start\<close>; a slice that
  reaches past the block's bytes panics.
\<close>

fun seek_block :: "Block list \<Rightarrow> nat \<Rightarrow> nat \<Rightarrow> nat \<Rightarrow> (Bytes option \<times> nat) option" where
  "seek_block [] offset_within_cycle remaining block_start = Some (None, block_start)"
| "seek_block (block # rest) offset_within_cycle remaining block_start =
     (let block_size = total_bytes block in
      if offset_within_cycle < block_start + block_size
      then let block_offset = offset_within_cycle - block_start;
               bytes_in_block = min (block_size - block_offset) remaining
           in if block_offset + bytes_in_block \<le> length (bytes block)
              then Some (Some (take bytes_in_block (drop block_offset (bytes block))), block_start)
              else None
      else seek_block rest offset_within_cycle remaining (block_start + block_size))"

partial_function (option) read_loop ::
    "Block list \<Rightarrow> nat \<Rightarrow> nat \<Rightarrow> nat \<Rightarrow> Bytes \<Rightarrow> Bytes option" where
  "read_loop bs total_cycle remaining current_offset data =
     (if remaining = 0 then Some data
      else if total_cycle = 0 then None
      else (case seek_block bs (current_offset mod total_cycle) remaining 0 of
              None \<Rightarrow> None
            | Some (None, block_start) \<Rightarrow>
                (if total_cycle \<le> block_start then Some data
                 else read_loop bs total_cycle remaining current_offset data)
            | Some (Some chunk, block_start) \<Rightarrow>
                (if remaining - length chunk > 0 \<and> total_cycle \<le> block_start then Some (data @ chunk)
                 else read_loop bs total_cycle (remaining - length chunk)
                        (wrapping_add 64 current_offset (length chunk)) (data @ chunk))))"

definition read_at :: "Cache \<Rightarrow> nat \<Rightarrow> nat \<Rightarrow> Bytes option" where
  "read_at c offset sz = read_loop (blocks c) (total_cycle_size c) sz offset []"

section \<open>Construction\<close>

text \<open>
  A payload's \<open>Serialize::to_bytes\<close> at a byte budget: an error or the bytes written, with the
  random state left, or \<open>None\<close> when it panics or does not come back.
\<close>

type_synonym ('e, 'r) serializer = "nat \<Rightarrow> 'r \<Rightarrow> (('e + Bytes) \<times> 'r) option"

definition construct_block ::
    "('e, 'r) serializer \<Rightarrow> nat \<Rightarrow> 'r \<Rightarrow> (('e SpinError + Block) \<times> 'r) option" where
  "construct_block ser chunk_size s =
     (case ser chunk_size s of
        None \<Rightarrow> None
      | Some (Inl e, s) \<Rightarrow> Some (Inl (Spin_Deserialize e), s)
      | Some (Inr bs, s) \<Rightarrow>
          (if bs = [] then Some (Inl Spin_EmptyBlock, s)
           else if length bs < 2 ^ 32 then Some (Inr \<lparr>total_bytes = length bs, bytes = bs\<rparr>, s)
           else None))"

text \<open>
  One pass of the loop of \<open>construct_block_cache_inner\<close>, over the bytes remaining, the
  discovered minimum block size, the blocks so far and the random state.
  \<^verbatim>\<open>(f64::from(block_size) * 0.25) as u32\<close> is exact in \<open>f64\<close> and truncates: division by
  four. \<open>None\<close> is the panic of \<open>gen_range\<close> on an empty range or that of \<open>construct_block\<close>.
\<close>

definition construct_pass ::
    "'r rng \<Rightarrow> ('e, 'r) serializer \<Rightarrow> nat \<Rightarrow> nat \<times> nat \<times> Block list \<times> 'r
      \<Rightarrow> (nat \<times> nat \<times> Block list \<times> 'r, ('e SpinError + Block list) \<times> 'r) pass option" where
  "construct_pass R ser max_block_size = (\<lambda>(bytes_remaining, min_block_size, block_cache, s).
     if bytes_remaining = 0 then Some (Break (Inr block_cache, s))
     else if max_block_size \<le> min_block_size then None
     else
       let (block_size, s) = gen_range R min_block_size max_block_size s in
       case construct_block ser block_size s of
         None \<Rightarrow> None
       | Some (Inr block, s) \<Rightarrow>
           let bytes_remaining = bytes_remaining - total_bytes block;
               block_cache = block_cache @ [block]
           in Some (if bytes_remaining < min_block_size then Break (Inr block_cache, s)
                    else Again (bytes_remaining, min_block_size, block_cache, s))
       | Some (Inl Spin_EmptyBlock, s) \<Rightarrow>
           let min_block_size = block_size div 4
           in Some (if bytes_remaining < min_block_size then Break (Inr block_cache, s)
                    else Again (bytes_remaining, min_block_size, block_cache, s))
       | Some (Inl e, s) \<Rightarrow> Some (Break (Inl e, s)))"

definition construct_block_cache_inner ::
    "'r rng \<Rightarrow> ('e, 'r) serializer \<Rightarrow> nat \<Rightarrow> nat \<Rightarrow> 'r
      \<Rightarrow> (('e SpinError + Block list) \<times> 'r) option" where
  "construct_block_cache_inner R ser max_block_size requested_bytes s =
     (case loop (construct_pass R ser max_block_size) (requested_bytes, 0, [], s) of
        None \<Rightarrow> None
      | Some (Inl e, s) \<Rightarrow> Some (Inl e, s)
      | Some (Inr [], s) \<Rightarrow> Some (Inl (Spin_ConstructBlockCache InsufficientBlockSizes), s)
      | Some (Inr bs, s) \<Rightarrow> Some (Inr bs, s))"

text \<open>
  \<open>Cache::fixed\<close> once the payload's serializer is at hand: the size checks, the
  construction and the cycle size. The choice of serializer by configuration is modelled
  with the payloads.
\<close>

definition fixed_with ::
    "'r rng \<Rightarrow> ('e, 'r) serializer \<Rightarrow> nat \<Rightarrow> nat \<Rightarrow> 'r
      \<Rightarrow> (('e cache_error + Cache) \<times> 'r) option" where
  "fixed_with R ser requested_bytes maximum_block_bytes s =
     (if umax 32 < maximum_block_bytes \<or> requested_bytes < maximum_block_bytes
      then Some (Inl Error_MaximumBlock, s)
      else (case construct_block_cache_inner R ser maximum_block_bytes requested_bytes s of
              None \<Rightarrow> None
            | Some (Inl e, s) \<Rightarrow> Some (Inl (Error_Spin e), s)
            | Some (Inr bs, s) \<Rightarrow> Some (Inr (Fixed 0 bs (sum_list (map total_bytes bs))), s)))"

section \<open>Well-formed caches\<close>

definition block_ok :: "Block \<Rightarrow> bool" where
  "block_ok b \<longleftrightarrow> total_bytes b = length (bytes b) \<and> bytes b \<noteq> []"

definition cache_ok :: "Cache \<Rightarrow> bool" where
  "cache_ok c \<longleftrightarrow> idx c < length (blocks c) \<and> list_all block_ok (blocks c) \<and>
     total_cycle_size c = sum_list (map total_bytes (blocks c))"

text \<open>One pass over the blocks, and the endless stream it stands for.\<close>

definition cycle :: "Block list \<Rightarrow> Bytes" where
  "cycle bs = concat (map bytes bs)"

definition cycle_at :: "Cache \<Rightarrow> nat \<Rightarrow> char" where
  "cycle_at c i = cycle (blocks c) ! (i mod total_cycle_size c)"

lemma cycle_simps [simp]: "cycle [] = []" "cycle (b # bs) = bytes b @ cycle bs"
  by (simp_all add: cycle_def)

lemma length_cycle: "list_all block_ok bs \<Longrightarrow> length (cycle bs) = sum_list (map total_bytes bs)"
  by (induction bs) (auto simp: block_ok_def)

lemma seek_block_hit:
  "list_all block_ok bs \<Longrightarrow> start \<le> off \<Longrightarrow> off < start + length (cycle bs) \<Longrightarrow> 0 < remaining \<Longrightarrow>
   \<exists>chunk st. seek_block bs off remaining start = Some (Some chunk, st) \<and> chunk \<noteq> [] \<and>
     length chunk \<le> remaining \<and> off - start + length chunk \<le> length (cycle bs) \<and> st \<le> off \<and>
     chunk = take (length chunk) (drop (off - start) (cycle bs))"
proof (induction bs arbitrary: start)
  case Nil
  then show ?case by simp
next
  case (Cons b bs)
  show ?case
  proof (cases "off < start + total_bytes b")
    case True
    then show ?thesis
      using Cons.prems by (auto simp: Let_def block_ok_def)
  next
    case False
    let ?start = "start + total_bytes b"
    have len: "total_bytes b = length (bytes b)" using Cons.prems(1) by (simp add: block_ok_def)
    have "\<exists>chunk st. seek_block bs off remaining ?start = Some (Some chunk, st) \<and> chunk \<noteq> [] \<and>
       length chunk \<le> remaining \<and> off - ?start + length chunk \<le> length (cycle bs) \<and> st \<le> off \<and>
       chunk = take (length chunk) (drop (off - ?start) (cycle bs))"
      by (rule Cons.IH) (use Cons.prems False len in auto)
    then show ?thesis using False len by (auto simp: Let_def)
  qed
qed

lemma chunk_of_cycle:
  assumes "chunk = take (length chunk) (drop (off mod n) xs)" "off mod n + length chunk \<le> n" "n = length xs"
  shows "chunk = map (\<lambda>i. xs ! ((off + i) mod n)) [0..<length chunk]"
proof (rule nth_equalityI)
  fix i assume i: "i < length chunk"
  then have "off mod n + i < n" using assms(2) by simp
  then have "(off + i) mod n = off mod n + i" by (metis mod_add_left_eq mod_less)
  moreover have "chunk ! i = xs ! (off mod n + i)" using i assms(2,3) by (subst assms(1)) simp
  ultimately show "chunk ! i = map (\<lambda>i. xs ! ((off + i) mod n)) [0..<length chunk] ! i" using i by simp
qed simp

lemma read_loop_cycle:
  assumes ok: "list_all block_ok bs" and total_cycle: "total_cycle = length (cycle bs)" and pos: "0 < total_cycle"
  shows "current_offset + remaining < 2 ^ 64 \<Longrightarrow>
    read_loop bs total_cycle remaining current_offset data =
      Some (data @ map (\<lambda>i. cycle bs ! ((current_offset + i) mod total_cycle)) [0..<remaining])"
proof (induction remaining arbitrary: current_offset data rule: less_induct)
  case (less remaining)
  show ?case
  proof (cases "remaining = 0")
    case True
    then show ?thesis by (subst read_loop.simps) simp
  next
    case False
    let ?off = "current_offset mod total_cycle"
    have "?off < total_cycle" using pos by simp
    then obtain chunk st where hit: "seek_block bs ?off remaining 0 = Some (Some chunk, st)"
      and ne: "chunk \<noteq> []" and le: "length chunk \<le> remaining"
      and inside: "?off + length chunk \<le> total_cycle" and st: "st \<le> ?off"
      and chunk: "chunk = take (length chunk) (drop ?off (cycle bs))"
      using seek_block_hit [OF ok, of 0 ?off remaining] False total_cycle by auto
    define k where "k = length chunk"
    have chunk_map: "chunk = map (\<lambda>i. cycle bs ! ((current_offset + i) mod total_cycle)) [0..<k]"
      unfolding k_def by (rule chunk_of_cycle [OF chunk inside total_cycle])
    have off': "wrapping_add 64 current_offset k = current_offset + k"
      using less.prems le by (simp add: wrapping_add_def k_def)
    have "read_loop bs total_cycle remaining current_offset data =
        read_loop bs total_cycle (remaining - k) (current_offset + k) (data @ chunk)"
      using False pos hit st \<open>?off < total_cycle\<close> off' by (subst read_loop.simps) (simp add: k_def)
    also have "\<dots> = Some ((data @ chunk) @
        map (\<lambda>i. cycle bs ! ((current_offset + k + i) mod total_cycle)) [0..<remaining - k])"
      by (rule less.IH) (use ne le less.prems in \<open>auto simp: k_def diff_less less_le_trans [of 0 "length chunk"]\<close>)
    also have "map (\<lambda>i. cycle bs ! ((current_offset + k + i) mod total_cycle)) [0..<remaining - k] =
        map (\<lambda>i. cycle bs ! ((current_offset + i) mod total_cycle)) [k..<remaining]"
      by (rule nth_equalityI) (simp_all add: add.assoc)
    also have "(data @ chunk) @ \<dots> =
        data @ map (\<lambda>i. cycle bs ! ((current_offset + i) mod total_cycle)) [0..<remaining]"
      using le upt_add_eq_append [of 0 k "remaining - k"] by (subst chunk_map) (simp add: k_def)
    finally show ?thesis .
  qed
qed

lemma cache_ok_pos: "cache_ok c \<Longrightarrow> 0 < total_cycle_size c \<and> total_cycle_size c = length (cycle (blocks c))"
proof -
  assume ok: "cache_ok c"
  then have len: "total_cycle_size c = length (cycle (blocks c))"
    by (simp add: cache_ok_def length_cycle)
  moreover have "cycle (blocks c) \<noteq> []"
    using ok by (cases "blocks c") (auto simp: cache_ok_def block_ok_def)
  ultimately show ?thesis by simp
qed

lemma read_at_stream:
  assumes "cache_ok c" "offset + sz < 2 ^ 64"
  shows "read_at c offset sz = Some (map (\<lambda>i. cycle_at c (offset + i)) [0..<sz])"
proof -
  have "list_all block_ok (blocks c)" using assms(1) by (simp add: cache_ok_def)
  then show ?thesis
    unfolding read_at_def cycle_at_def
    using read_loop_cycle [of "blocks c" "total_cycle_size c" offset sz "[]"] cache_ok_pos [OF assms(1)] assms(2)
    by force
qed

lemma next_block_ok:
  assumes "cache_ok c"
  obtains c' where "next_block c = Some (blocks c ! idx c, c')" "cache_ok c'"
    "blocks c' = blocks c" "total_cycle_size c' = total_cycle_size c"
    "idx c' = (idx c + 1) mod length (blocks c)"
proof
  let ?c' = "Fixed ((idx c + 1) mod length (blocks c)) (blocks c) (total_cycle_size c)"
  have "idx c < length (blocks c)" using assms by (simp add: cache_ok_def)
  then show "next_block c = Some (blocks c ! idx c, ?c')" and "cache_ok ?c'"
    using assms by (auto simp: next_block_def cache_ok_def intro: mod_less_divisor)
qed simp_all

fun next_blocks :: "nat \<Rightarrow> Cache \<Rightarrow> (Block list \<times> Cache) option" where
  "next_blocks 0 c = Some ([], c)"
| "next_blocks (Suc n) c =
     (case next_block c of
        None \<Rightarrow> None
      | Some (b, c) \<Rightarrow> map_option (\<lambda>(bs, c). (b # bs, c)) (next_blocks n c))"

lemma map_upt_Suc_shift: "map f [0..<Suc n] = f 0 # map (\<lambda>i. f (Suc i)) [0..<n]"
  by (simp add: upt_conv_Cons map_Suc_upt [symmetric] del: upt_Suc map_Suc_upt)

lemma next_blocks_round_robin:
  "cache_ok c \<Longrightarrow> \<exists>c'. next_blocks n c =
     Some (map (\<lambda>k. blocks c ! ((idx c + k) mod length (blocks c))) [0..<n], c') \<and> cache_ok c'"
proof (induction n arbitrary: c)
  case 0
  then show ?case by simp
next
  case (Suc n)
  obtain c1 where nx: "next_block c = Some (blocks c ! idx c, c1)" and ok: "cache_ok c1"
    and bl: "blocks c1 = blocks c" and ix: "idx c1 = (idx c + 1) mod length (blocks c)"
    using next_block_ok [OF Suc.prems] by metis
  have "idx c < length (blocks c)" using Suc.prems by (simp add: cache_ok_def)
  moreover from Suc.IH [OF ok] obtain c' where
    "next_blocks n c1 = Some (map (\<lambda>k. blocks c ! ((idx c1 + k) mod length (blocks c))) [0..<n], c')"
    and "cache_ok c'" unfolding bl by blast
  ultimately show ?case
    by (auto simp: nx ix mod_add_left_eq map_upt_Suc_shift simp del: upt_Suc)
qed

lemma spin_loop_round_robin:
  "i < length bs \<Longrightarrow> spin_loop bs i n =
     Some (map (\<lambda>k. bs ! ((i + k) mod length bs)) [0..<n], Spin_Send (bs ! ((i + n) mod length bs)))"
proof (induction n arbitrary: i)
  case 0
  then show ?case by (subst spin_loop.simps) simp
next
  case (Suc n)
  have "(i + 1) mod length bs < length bs"
    by (rule mod_less_divisor) (use Suc.prems in linarith)
  note Suc.IH [OF this]
  with Suc.prems show ?case
    by (subst spin_loop.simps) (simp add: mod_add_left_eq map_upt_Suc_shift del: upt_Suc)
qed

section \<open>What a constructed cache holds\<close>

text \<open>
  What the loop keeps: every block is well formed and smaller than the maximum, and the
  blocks so far account for the bytes used up; at the end they overshoot the requested
  total by less than one maximal block.
\<close>

definition blocks_fit :: "nat \<Rightarrow> nat \<Rightarrow> nat \<Rightarrow> Block list \<Rightarrow> bool" where
  "blocks_fit m requested remaining bs \<longleftrightarrow>
     (\<forall>b \<in> set bs. block_ok b \<and> total_bytes b < m) \<and>
     (if remaining = 0 then bs \<noteq> [] \<longrightarrow> sum_list (map total_bytes bs) < requested + m
      else remaining + sum_list (map total_bytes bs) = requested)"

lemma blocks_fit_done: "blocks_fit m requested remaining bs \<Longrightarrow> 0 < m \<Longrightarrow> blocks_fit m requested 0 bs"
  by (auto simp: blocks_fit_def split: if_splits)

lemma blocks_fit_snoc:
  "blocks_fit m requested remaining bs \<Longrightarrow> 0 < remaining \<Longrightarrow> block_ok b \<Longrightarrow> total_bytes b < m \<Longrightarrow>
   blocks_fit m requested (remaining - total_bytes b) (bs @ [b])"
  by (auto simp: blocks_fit_def)

text \<open>
  The contract a serializer has with the cache: it writes at most \<open>slack\<close> bytes more than the
  budget it is given. The slack is 0 for every payload but DogStatsD with length prefixes, whose
  four bytes of prefix are not part of the budget.
\<close>

locale slack_serializer =
  fixes ser :: "('e, 'r) serializer" and slack :: nat
  assumes within_slack: "ser n s = Some (Inr bs, s') \<Longrightarrow> length bs \<le> n + slack"
begin

lemma block_within_slack:
  "construct_block ser n s = Some (Inr b, s') \<Longrightarrow> block_ok b \<and> total_bytes b \<le> n + slack"
  by (auto simp: construct_block_def block_ok_def dest: within_slack
      split: option.splits prod.splits sum.splits if_splits)

lemma construct_pass_Again:
  assumes R: "rng_ok R" and fit: "blocks_fit (m + slack) requested remaining acc" and "lo < m"
    and pass: "construct_pass R ser m (remaining, lo, acc, s) = Some (Again (remaining', lo', acc', s'))"
  shows "blocks_fit (m + slack) requested remaining' acc' \<and> lo' < m"
proof -
  obtain k s1 where k: "gen_range R lo m s = (k, s1)" by force
  have km: "k < m" using gen_range_bounds [OF R \<open>lo < m\<close> k] by simp
  show ?thesis using pass fit km \<open>lo < m\<close>
    by (auto simp: construct_pass_def k Let_def split: if_splits option.splits sum.splits SpinError.splits
        dest!: block_within_slack intro!: blocks_fit_snoc)
qed

lemma construct_pass_Break:
  assumes R: "rng_ok R" and fit: "blocks_fit (m + slack) requested remaining acc" and "lo < m"
    and pass: "construct_pass R ser m (remaining, lo, acc, s) = Some (Break (Inr bs, s'))"
  shows "blocks_fit (m + slack) requested 0 bs"
proof -
  obtain k s1 where k: "gen_range R lo m s = (k, s1)" by force
  have km: "k < m" using gen_range_bounds [OF R \<open>lo < m\<close> k] by simp
  have m: "0 < m + slack" using \<open>lo < m\<close> by simp
  show ?thesis using pass fit blocks_fit_done [OF fit m] km \<open>lo < m\<close>
    by (auto simp: construct_pass_def k Let_def split: if_splits option.splits sum.splits SpinError.splits
        dest!: block_within_slack intro!: blocks_fit_done [OF blocks_fit_snoc [OF fit] m])
qed

lemma constructed_blocks:
  assumes R: "rng_ok R" and m: "0 < m"
    and ret: "construct_block_cache_inner R ser m requested s = Some (Inr bs, s')"
  shows "bs \<noteq> [] \<and> (\<forall>b \<in> set bs. block_ok b \<and> total_bytes b < m + slack) \<and>
     sum_list (map total_bytes bs) < requested + m + slack"
proof -
  let ?I = "\<lambda>(remaining, lo, acc, s :: 'r). blocks_fit (m + slack) requested remaining acc \<and> lo < m"
  let ?Q = "\<lambda>(r :: 'e SpinError + Block list, s :: 'r). \<forall>bs. r = Inr bs \<longrightarrow> blocks_fit (m + slack) requested 0 bs"
  from ret have ne: "bs \<noteq> []"
    and lp: "loop (construct_pass R ser m) (requested, 0, [], s) = Some (Inr bs, s')"
    by (auto simp: construct_block_cache_inner_def split: option.splits sum.splits list.splits)
  have "?Q (Inr bs, s')"
  proof (rule loop_invariant [OF lp, where I = ?I])
    show "?I (requested, 0, [], s)" using m by (simp add: blocks_fit_def)
    show "?I st'" if I: "?I st" and step: "construct_pass R ser m st = Some (Again st')" for st st'
      using that construct_pass_Again [OF R] by (cases st; cases st') blast
    show "?Q r" if "?I st" "construct_pass R ser m st = Some (Break r)" for st r
      using that construct_pass_Break [OF R] by (cases st; cases r) blast
  qed
  then show ?thesis using ne by (simp add: blocks_fit_def)
qed

lemma fixed_cache_ok:
  assumes R: "rng_ok R" and m: "0 < m" and ret: "fixed_with R ser requested m s = Some (Inr c, s')"
  shows "cache_ok c \<and> (\<forall>b \<in> set (blocks c). total_bytes b < m + slack) \<and> total_cycle_size c < requested + m + slack"
proof -
  from ret obtain bs where c: "c = Fixed 0 bs (sum_list (map total_bytes bs))"
    and bs: "construct_block_cache_inner R ser m requested s = Some (Inr bs, s')"
    by (auto simp: fixed_with_def split: if_splits option.splits sum.splits)
  from constructed_blocks [OF R m bs] show ?thesis
    by (auto simp: c cache_ok_def list_all_iff)
qed

end

locale bounded_serializer =
  fixes ser :: "('e, 'r) serializer"
  assumes within_budget: "ser n s = Some (Inr bs, s') \<Longrightarrow> length bs \<le> n"

sublocale bounded_serializer \<subseteq> slack_serializer ser 0
  by unfold_locales (simp add: within_budget)

section \<open>Properties\<close>

text \<open>
  C12. Random access reads the endless cycle. For a well-formed cache, \<open>Cache::read_at\<close> comes
  back without panicking, and its bytes are exactly the requested window of the blocks
  repeated for ever, one byte per position, whatever block boundaries the window crosses.
\<close>

theorem read_at_reads_cycle:
  assumes "cache_ok c" "offset + sz < 2 ^ 64"
  shows "\<exists>data. read_at c offset sz = Some data \<and> length data = sz \<and>
     (\<forall>i < sz. data ! i = cycle (blocks c) ! ((offset + i) mod length (cycle (blocks c))))"
  using read_at_stream [OF assms] cache_ok_pos [OF assms(1)] by (simp add: cycle_at_def)

definition two_blocks :: Cache where
  "two_blocks = Fixed 0
     [\<lparr>total_bytes = 3, bytes = ''abc''\<rparr>, \<lparr>total_bytes = 2, bytes = ''de''\<rparr>] 5"

theorem read_at_reads_cycle_witness:
  "cache_ok two_blocks \<and> (\<exists>data. read_at two_blocks 4 4 = Some data \<and> length data = 4 \<and>
     (\<forall>i < 4. data ! i = cycle (blocks two_blocks) ! ((4 + i) mod 5)))"
proof -
  have ok: "cache_ok two_blocks" by (simp add: two_blocks_def cache_ok_def block_ok_def)
  show ?thesis using ok read_at_reads_cycle [OF ok, of 4 4] by (simp add: two_blocks_def)
qed

text \<open>
  Round robin. Starting from a well-formed cache, \<open>n\<close> calls of \<open>next_block\<close> hand out
  the blocks in order from the current index, wrapping at the end, never panic, and keep the
  cache well formed; \<open>Cache::spin\<close> sends that very sequence until its channel closes.
\<close>

theorem next_block_round_robin:
  assumes "cache_ok c"
  shows "\<exists>sent c'. next_blocks n c = Some (sent, c') \<and> cache_ok c' \<and>
     spin c n = Some (sent, Spin_Send (blocks c ! ((idx c + n) mod length (blocks c)))) \<and>
     length sent = n \<and> (\<forall>k < n. sent ! k = blocks c ! ((idx c + k) mod length (blocks c)))"
proof -
  have "idx c < length (blocks c)" using assms by (simp add: cache_ok_def)
  then show ?thesis
    using next_blocks_round_robin [OF assms, of n] by (auto simp: spin_def spin_loop_round_robin)
qed

theorem next_block_round_robin_witness:
  "cache_ok two_blocks \<and> (\<exists>sent c'. next_blocks 3 two_blocks = Some (sent, c') \<and> cache_ok c' \<and>
     spin two_blocks 3 = Some (sent,
       Spin_Send (blocks two_blocks ! ((idx two_blocks + 3) mod length (blocks two_blocks))) :: nat SpinError) \<and>
     length sent = 3 \<and>
     (\<forall>k < 3. sent ! k = blocks two_blocks ! ((idx two_blocks + k) mod length (blocks two_blocks))))"
proof -
  have ok: "cache_ok two_blocks" by (simp add: two_blocks_def cache_ok_def block_ok_def)
  show ?thesis using ok next_block_round_robin [OF ok, of 3] by simp
qed

text \<open>
  A serializer that never fills a block below the maximum block size makes the
  construction spin for ever: \<open>construct_block_cache_inner\<close> neither returns the
  \<open>InsufficientBlockSizes\<close> error it has for the case nor anything else. The discovered
  minimum is a quarter of a size below the maximum, so it never passes the bytes remaining.
\<close>

theorem construct_never_returns:
  assumes R: "rng_ok R" and m: "0 < m" "m \<le> requested"
    and empty: "\<And>n s. n < m \<Longrightarrow> \<exists>s'. ser n s = Some (Inr [], s')"
  shows "construct_block_cache_inner R ser m requested s = None"
proof (cases "loop (construct_pass R ser m) (requested, 0, [], s)")
  case None
  then show ?thesis by (simp add: construct_block_cache_inner_def)
next
  case (Some r)
  let ?I = "\<lambda>(remaining, lo, acc :: Block list, s). remaining = requested \<and> lo < m"
  have pass: "\<exists>lo' s''. construct_pass R ser m (requested, lo, acc, s) = Some (Again (requested, lo', acc, s'')) \<and> lo' < m"
    if "lo < m" "gen_range R lo m s = (k, s')" for lo acc s k s'
  proof -
    have km: "k < m" using gen_range_bounds [OF R that] by simp
    obtain s'' where "ser k s' = Some (Inr [], s'')" using empty [OF km] by blast
    then have "construct_block ser k s' = Some (Inl Spin_EmptyBlock, s'')" by (simp add: construct_block_def)
    then show ?thesis using that m km by (auto simp: construct_pass_def Let_def)
  qed
  have False
  proof (rule loop_invariant [OF Some, where I = ?I and Q = "\<lambda>_. False"])
    show "?I (requested, 0, [], s)" using m by simp
    show "?I st'" if I: "?I st" and step: "construct_pass R ser m st = Some (Again st')" for st st'
    proof -
      obtain lo acc s where st: "st = (requested, lo, acc, s)" "lo < m" using I by (cases st) auto
      obtain k s' where "gen_range R lo m s = (k, s')" by force
      from pass [OF st(2) this, of acc] step st(1) show ?thesis by auto
    qed
    show False if I: "?I st" and step: "construct_pass R ser m st = Some (Break r)" for st r
    proof -
      obtain lo acc s where st: "st = (requested, lo, acc, s)" "lo < m" using I by (cases st) auto
      obtain k s' where "gen_range R lo m s = (k, s')" by force
      from pass [OF st(2) this, of acc] step st(1) show False by auto
    qed
  qed
  then show ?thesis ..
qed

theorem construct_never_returns_witness:
  "construct_block_cache_inner counter_rng (\<lambda>n s. Some (Inr [] :: nat + Bytes, s)) 1 8 0 = None"
  by (rule construct_never_returns) simp_all

end
