(* ===== verification/Logrotate_State.thy ===== *)
theory Logrotate_State
  imports Logrotate_File Block
begin

text \<open>
  The \<open>State\<close> of the logrotate filesystem model: a tree of directories and files, rotated
  tick by tick. The node map and the table of valid handles are association lists; the
  order in which the hash map hands out its keys is the argument \<open>ord\<close>. Each operation
  follows its method in \<^verbatim>\<open>model.rs\<close>: a failed \<open>assert!\<close>, \<open>expect\<close> or index is \<open>None\<close>.
  \<open>inode_scratch\<close>, filled and drained within one call, is a local list here.
\<close>

section \<open>Data\<close>

record Directory =
  children :: "Inode list"   \<comment> \<open>\<open>BTreeSet\<close>: ascending, without duplicates\<close>
  dir_parent :: "Inode option"

definition Directory_new :: "Inode option \<Rightarrow> Directory" where
  "Directory_new p = \<lparr>children = [], dir_parent = p\<rparr>"

datatype Node = Node_File File | Node_Directory string Directory

datatype LoadProfile = Constant nat | Linear nat nat

record State =
  nodes :: "(Inode \<times> Node) list"
  root_inode :: Inode
  now :: Tick
  initial_tick :: Tick
  block_cache :: Cache
  max_bytes_per_file :: nat
  max_rotations :: nat
  group_names :: "string list list"
  next_inode :: Inode
  next_file_handle :: nat
  load_profile :: LoadProfile
  valid_file_handles :: "(nat \<times> Inode) list"

datatype NodeType = NodeType_File | NodeType_Directory

record NodeAttributes =
  attr_inode :: Inode
  attr_kind :: NodeType
  attr_size :: nat
  attr_access_tick :: Tick
  attr_modified_tick :: Tick
  attr_status_tick :: Tick
  attr_created_tick :: Tick

abbreviation get_node :: "State \<Rightarrow> Inode \<Rightarrow> Node option" where
  "get_node s i \<equiv> map_of (nodes s) i"

definition put_node :: "Inode \<Rightarrow> Node \<Rightarrow> State \<Rightarrow> State" where
  "put_node i n s = s\<lparr>nodes := AList.update i n (nodes s)\<rparr>"

text \<open>\<^verbatim>\<open>if let Some(Node::Directory { dir, .. }) = nodes.get_mut(&i)\<close> on the children.\<close>

definition update_children :: "(Inode list \<Rightarrow> Inode list) \<Rightarrow> Inode \<Rightarrow> State \<Rightarrow> State" where
  "update_children g i s =
     (case get_node s i of
        Some (Node_Directory name dir) \<Rightarrow>
          put_node i (Node_Directory name (dir\<lparr>children := g (children dir)\<rparr>)) s
      | _ \<Rightarrow> s)"

section \<open>Rotation\<close>

text \<open>The load profile's bytes per tick, \<open>elapsed\<close> ticks after the start.\<close>

fun profile_rate :: "LoadProfile \<Rightarrow> nat \<Rightarrow> nat" where
  "profile_rate (Constant b) elapsed = b"
| "profile_rate (Linear start rate) elapsed =
     saturating_add 64 start (saturating_mul 64 rate elapsed)"

definition set_rates :: "nat \<Rightarrow> State \<Rightarrow> State" where
  "set_rates rate s =
     s\<lparr>nodes := map (\<lambda>(i, n). (i,
        case n of
          Node_File f \<Rightarrow>
            Node_File (if \<not> read_only f \<and> \<not> unlinked f then f\<lparr>bytes_per_tick := rate\<rparr> else f)
        | Node_Directory name dir \<Rightarrow> Node_Directory name dir)) (nodes s)\<rparr>"

text \<open>
  One pass of the loop that walks the peer chain: the state, the current inode and the
  one before it.
\<close>

definition rotate_pass ::
    "Tick \<Rightarrow> Inode \<Rightarrow> State \<times> Inode \<times> Inode \<Rightarrow> (State \<times> Inode \<times> Inode, State) pass option" where
  "rotate_pass t parent_inode = (\<lambda>(s, current_inode, prev_inode).
     case get_node s current_inode of
       None \<Rightarrow> None
     | Some (Node_Directory name dir) \<Rightarrow> None
     | Some (Node_File f) \<Rightarrow>
         let f = file_incr_ordinal f;
             s = put_node current_inode (Node_File f) s;
             remove_current = max_rotations s < ordinal f;
             next_peer = peer f
         in if remove_current
            then
              if next_peer \<noteq> None then None
              else
                let s = update_children (removeAll current_inode) parent_inode s;
                    s = (case get_node s current_inode of
                           Some (Node_File f) \<Rightarrow> put_node current_inode (Node_File (file_unlink f t)) s
                         | _ \<Rightarrow> s)
                in case get_node s prev_inode of
                     None \<Rightarrow> None
                   | Some (Node_File f) \<Rightarrow>
                       Some (Break (put_node prev_inode (Node_File (f\<lparr>peer := None\<rparr>)) s))
                   | Some (Node_Directory name dir) \<Rightarrow> Some (Break s)
            else
              Some (case next_peer of
                      Some next \<Rightarrow> Again (s, next, current_inode)
                    | None \<Rightarrow> Break s))"

text \<open>The file that takes over as the zeroth of its group.\<close>

definition rotate :: "Tick \<Rightarrow> nat \<Rightarrow> Inode \<Rightarrow> File \<Rightarrow> State \<Rightarrow> State option" where
  "rotate t rate rotated_inode f s =
     (let new_file_inode = next_inode s;
          new_file = file_advance_time
            (File_new (parent f) (group_id f) rate (now s - 1) (Some rotated_inode)) t;
          s = s\<lparr>next_inode := saturating_add 64 (next_inode s) 1\<rparr>;
          s = put_node new_file_inode (Node_File new_file) s;
          s = update_children (insort_insert new_file_inode) (parent f) s
      in if ordinal f = 0
         then loop (rotate_pass t (parent f)) (s, rotated_inode, new_file_inode)
         else None)"

text \<open>One inode of the scratch list: advance the file, and rotate it when it is full.\<close>

definition process_inode :: "Tick \<Rightarrow> nat \<Rightarrow> Inode \<Rightarrow> State \<Rightarrow> State option" where
  "process_inode t rate inode s =
     (case get_node s inode of
        None \<Rightarrow> None
      | Some (Node_Directory name dir) \<Rightarrow> Some s
      | Some (Node_File f) \<Rightarrow>
          if read_only f then Some s
          else
            let f = file_advance_time f t in
            if bytes_written f < max_bytes_per_file s then Some (put_node inode (Node_File f) s)
            else if ordinal f \<noteq> 0 then None
            else
              let f = file_set_read_only f t
              in rotate t rate inode f (put_node inode (Node_File f) s))"

fun process_inodes :: "Tick \<Rightarrow> nat \<Rightarrow> Inode list \<Rightarrow> State \<Rightarrow> State option" where
  "process_inodes t rate [] s = Some s"
| "process_inodes t rate (i # is) s = Option.bind (process_inode t rate i s) (process_inodes t rate is)"

fun gc_dead :: "Node \<Rightarrow> bool" where
  "gc_dead (Node_File f) = (unlinked f \<and> open_handles f = 0)"
| "gc_dead (Node_Directory name dir) = False"

definition gc :: "State \<Rightarrow> State" where
  "gc s = s\<lparr>nodes := filter (\<lambda>(i, n). \<not> gc_dead n) (nodes s)\<rparr>"

definition tick_rate :: "State \<Rightarrow> Tick \<Rightarrow> nat" where
  "tick_rate s t = profile_rate (load_profile s) (t - initial_tick s - 1)"

definition advance_time_inner ::
    "(Inode list \<Rightarrow> Inode list) \<Rightarrow> State \<Rightarrow> Tick \<Rightarrow> State option" where
  "advance_time_inner ord s t =
     (if now s \<le> t
      then
        let rate = tick_rate s t;
            s = set_rates rate s
        in map_option gc (process_inodes t rate (ord (map fst (nodes s))) s)
      else None)"

definition advance_time :: "(Inode list \<Rightarrow> Inode list) \<Rightarrow> State \<Rightarrow> Tick \<Rightarrow> State option" where
  "advance_time ord s t =
     (if now s \<le> t
      then loop (\<lambda>s.
             if now s < t
             then let s = s\<lparr>now := now s + 1\<rparr> in map_option Again (advance_time_inner ord s (now s))
             else Some (Break s)) s
      else None)"

section \<open>Handles\<close>

definition open_file ::
    "(Inode list \<Rightarrow> Inode list) \<Rightarrow> State \<Rightarrow> Tick \<Rightarrow> Inode \<Rightarrow> (FileHandle option \<times> State) option" where
  "open_file ord s t inode = do {
     s \<leftarrow> advance_time ord s t;
     case get_node s inode of
       Some (Node_File f) \<Rightarrow>
         let s = put_node inode (Node_File (file_open f t)) s;
             h = next_file_handle s
         in Some (Some \<lparr>handle_id = h, handle_inode = inode\<rparr>,
              s\<lparr>next_file_handle := wrapping_add 64 h 1,
                valid_file_handles := AList.update h inode (valid_file_handles s)\<rparr>)
     | _ \<Rightarrow> Some (None, s)
   }"

definition close_file ::
    "(Inode list \<Rightarrow> Inode list) \<Rightarrow> State \<Rightarrow> Tick \<Rightarrow> FileHandle \<Rightarrow> State option" where
  "close_file ord s t handle = do {
     s \<leftarrow> advance_time ord s t;
     case get_node s (handle_inode handle) of
       Some (Node_File f) \<Rightarrow> do {
         f \<leftarrow> file_close f t;
         let s = put_node (handle_inode handle) (Node_File f) s;
         Some (s\<lparr>valid_file_handles := AList.delete (handle_id handle) (valid_file_handles s)\<rparr>)
       }
     | _ \<Rightarrow> None
   }"

section \<open>Queries\<close>

text \<open>\<^verbatim>\<open>xs[i]\<close>, which panics out of range.\<close>

definition index :: "'a list \<Rightarrow> nat \<Rightarrow> 'a option" where
  "index xs i = (if i < length xs then Some (xs ! i) else None)"

definition node_name :: "State \<Rightarrow> Node \<Rightarrow> string option" where
  "node_name s n =
     (case n of
        Node_File f \<Rightarrow> Option.bind (index (group_names s) (group_id f)) (\<lambda>names. index names (ordinal f))
      | Node_Directory name dir \<Rightarrow> Some name)"

fun lookup_children :: "State \<Rightarrow> string \<Rightarrow> Inode list \<Rightarrow> Inode option option" where
  "lookup_children s name [] = Some None"
| "lookup_children s name (child # rest) =
     (case get_node s child of
        None \<Rightarrow> lookup_children s name rest
      | Some n \<Rightarrow>
          (case node_name s n of
             None \<Rightarrow> None
           | Some child_name \<Rightarrow>
               if child_name = name then Some (Some child) else lookup_children s name rest))"

definition lookup ::
    "(Inode list \<Rightarrow> Inode list) \<Rightarrow> State \<Rightarrow> Tick \<Rightarrow> Inode \<Rightarrow> string \<Rightarrow> (Inode option \<times> State) option" where
  "lookup ord s t parent_inode name = do {
     s \<leftarrow> advance_time ord s t;
     case get_node s parent_inode of
       Some (Node_Directory _ dir) \<Rightarrow>
         map_option (\<lambda>r. (r, s)) (lookup_children s name (children dir))
     | _ \<Rightarrow> Some (None, s)
   }"

definition node_attributes :: "State \<Rightarrow> Inode \<Rightarrow> Node \<Rightarrow> NodeAttributes" where
  "node_attributes s inode n =
     (case n of
        Node_File f \<Rightarrow>
          \<lparr>attr_inode = inode, attr_kind = NodeType_File, attr_size = bytes_written f,
           attr_access_tick = access_tick f, attr_modified_tick = modified_tick f,
           attr_status_tick = status_tick f, attr_created_tick = created_tick f\<rparr>
      | Node_Directory name dir \<Rightarrow>
          \<lparr>attr_inode = inode, attr_kind = NodeType_Directory, attr_size = 0,
           attr_access_tick = now s, attr_modified_tick = now s,
           attr_status_tick = now s, attr_created_tick = now s\<rparr>)"

definition getattr ::
    "(Inode list \<Rightarrow> Inode list) \<Rightarrow> State \<Rightarrow> Tick \<Rightarrow> Inode \<Rightarrow> (NodeAttributes option \<times> State) option" where
  "getattr ord s t inode = do {
     s \<leftarrow> advance_time ord s t;
     Some (map_option (node_attributes s inode) (get_node s inode), s)
   }"

text \<open>
  \<open>State::read\<close>. A \<open>usize\<close> is 64 bits wide, so the conversions between \<open>u64\<close> and \<open>usize\<close>
  do not fail.
\<close>

definition state_read ::
    "(Inode list \<Rightarrow> Inode list) \<Rightarrow> State \<Rightarrow> FileHandle \<Rightarrow> nat \<Rightarrow> nat \<Rightarrow> Tick
      \<Rightarrow> (Bytes option \<times> State) option" where
  "state_read ord s handle offset sz t = do {
     s \<leftarrow> advance_time ord s t;
     if map_of (valid_file_handles s) (handle_id handle) \<noteq> Some (handle_inode handle)
     then Some (None, s)
     else case get_node s (handle_inode handle) of
       Some (Node_File f) \<Rightarrow>
         if bytes_written f \<le> offset then Some (Some [], s)
         else do {
           let available = bytes_written f - offset;
           let to_read = min available sz;
           let end_offset = offset + to_read;
           let f = f\<lparr>max_offset_observed := max (max_offset_observed f) end_offset\<rparr>;
           data \<leftarrow> read_at (block_cache s) offset to_read;
           if length data = to_read
           then Some (Some data, put_node (handle_inode handle) (Node_File (file_read f to_read t)) s)
           else None
         }
     | _ \<Rightarrow> Some (None, s)
   }"

definition readdir :: "State \<Rightarrow> Inode \<Rightarrow> Inode list option" where
  "readdir s inode =
     (case get_node s inode of Some (Node_Directory name dir) \<Rightarrow> Some (children dir) | _ \<Rightarrow> None)"

definition get_file_type :: "State \<Rightarrow> Inode \<Rightarrow> NodeType option" where
  "get_file_type s inode =
     map_option (\<lambda>n. case n of Node_File f \<Rightarrow> NodeType_File | Node_Directory name dir \<Rightarrow> NodeType_Directory)
       (get_node s inode)"

definition get_name :: "State \<Rightarrow> Inode \<Rightarrow> string option option" where
  "get_name s inode =
     (case get_node s inode of None \<Rightarrow> Some None | Some n \<Rightarrow> map_option Some (node_name s n))"

definition get_parent_inode :: "State \<Rightarrow> Inode \<Rightarrow> Inode option" where
  "get_parent_inode s inode =
     (if inode = root_inode s then Some (root_inode s)
      else map_option (\<lambda>n. case n of
             Node_Directory name dir \<Rightarrow> (case dir_parent dir of Some p \<Rightarrow> p | None \<Rightarrow> root_inode s)
           | Node_File f \<Rightarrow> parent f) (get_node s inode))"

definition nlink :: "State \<Rightarrow> Inode \<Rightarrow> nat" where
  "nlink s inode =
     (case get_node s inode of
        Some (Node_Directory name dir) \<Rightarrow>
          2 + length (filter (\<lambda>c. get_file_type s c = Some NodeType_Directory) (children dir))
      | _ \<Rightarrow> 1)"

section \<open>Construction\<close>

fun sample_name :: "'r rng \<Rightarrow> nat \<Rightarrow> 'r \<Rightarrow> string \<times> 'r" where
  "sample_name R 0 r = ([], r)"
| "sample_name R (Suc n) r =
     (let (c, r) = gen_alphanumeric R r; (cs, r) = sample_name R n r in (c # cs, r))"

definition log_base_name :: "string \<Rightarrow> nat \<Rightarrow> string" where
  "log_base_name base g = base @ ''_'' @ show_nat g @ ''.log''"

definition log_names :: "string \<Rightarrow> nat \<Rightarrow> nat \<Rightarrow> string list" where
  "log_names base g rotations =
     log_base_name base g # map (\<lambda>i. log_base_name base g @ ''.'' @ show_nat i) [1..<Suc rotations]"

fun find_subdir :: "State \<Rightarrow> string \<Rightarrow> Inode list \<Rightarrow> Inode option" where
  "find_subdir s dir_name [] = None"
| "find_subdir s dir_name (child # rest) =
     (case get_node s child of
        Some (Node_Directory name _) \<Rightarrow>
          if name = dir_name then Some child else find_subdir s dir_name rest
      | _ \<Rightarrow> find_subdir s dir_name rest)"

text \<open>One level of the directory path: reuse the directory of that name or make it.\<close>

definition enter_dir :: "string \<Rightarrow> State \<Rightarrow> Inode \<Rightarrow> (State \<times> Inode) option" where
  "enter_dir dir_name s current_inode =
     (case get_node s current_inode of
        Some (Node_Directory _ dir) \<Rightarrow>
          (case find_subdir s dir_name (children dir) of
             Some inode \<Rightarrow> Some (s, inode)
           | None \<Rightarrow>
               let new_inode = next_inode s;
                   s = s\<lparr>next_inode := next_inode s + 1\<rparr>;
                   s = put_node new_inode (Node_Directory dir_name (Directory_new (Some current_inode))) s;
                   s = update_children (insort_insert new_inode) current_inode s
               in Some (s, new_inode))
      | _ \<Rightarrow> None)"

fun build_path :: "'r rng \<Rightarrow> nat \<Rightarrow> State \<Rightarrow> Inode \<Rightarrow> 'r \<Rightarrow> (State \<times> Inode \<times> 'r) option" where
  "build_path R 0 s current_inode r = Some (s, current_inode, r)"
| "build_path R (Suc depth) s current_inode r = do {
     let (dir_name, r) = sample_name R 8 r;
     (s, dir_inode) \<leftarrow> enter_dir dir_name s current_inode;
     build_path R depth s dir_inode r
   }"

text \<open>The body of the loop over the groups.\<close>

definition add_group :: "'r rng \<Rightarrow> nat \<Rightarrow> nat \<Rightarrow> State \<Rightarrow> 'r \<Rightarrow> (State \<times> 'r) option" where
  "add_group R max_depth g s r = do {
     let (base, r) = sample_name R 8 r;
     let s = s\<lparr>group_names := group_names s @ [log_names base g (max_rotations s)]\<rparr>;
     let (depth, r) = (if max_depth = 0 then (0, r) else gen_range R 1 (max_depth + 1) r);
     (s, current_inode, r) \<leftarrow> build_path R depth s (root_inode s) r;
     let file_inode = next_inode s;
     let s = s\<lparr>next_inode := next_inode s + 1\<rparr>;
     let s = put_node file_inode (Node_File (File_new current_inode g 0 (now s) None)) s;
     Some (update_children (insort_insert file_inode) current_inode s, r)
   }"

fun add_groups :: "'r rng \<Rightarrow> nat \<Rightarrow> nat list \<Rightarrow> State \<Rightarrow> 'r \<Rightarrow> (State \<times> 'r) option" where
  "add_groups R max_depth [] s r = Some (s, r)"
| "add_groups R max_depth (g # gs) s r =
     Option.bind (add_group R max_depth g s r) (\<lambda>(s, r). add_groups R max_depth gs s r)"

definition State_empty :: "Tick \<Rightarrow> nat \<Rightarrow> nat \<Rightarrow> Cache \<Rightarrow> LoadProfile \<Rightarrow> State" where
  "State_empty initial_tick' max_rotations' max_bytes_per_file' block_cache' load_profile' =
     \<lparr>nodes = [(1, Node_Directory ''/'' \<lparr>children = [], dir_parent = None\<rparr>)],
      root_inode = 1, now = initial_tick', initial_tick = initial_tick', block_cache = block_cache',
      max_bytes_per_file = max_bytes_per_file', max_rotations = max_rotations', group_names = [],
      next_inode = 2, next_file_handle = 0, load_profile = load_profile', valid_file_handles = []\<rparr>"

definition State_new ::
    "'r rng \<Rightarrow> Tick \<Rightarrow> nat \<Rightarrow> nat \<Rightarrow> Cache \<Rightarrow> nat \<Rightarrow> nat \<Rightarrow> LoadProfile \<Rightarrow> 'r
      \<Rightarrow> (State \<times> 'r) option" where
  "State_new R initial_tick' max_rotations' max_bytes_per_file' block_cache' max_depth
       concurrent_logs load_profile' r =
     add_groups R max_depth [0..<concurrent_logs]
       (State_empty initial_tick' max_rotations' max_bytes_per_file' block_cache' load_profile') r"

end
