(* ===== verification/Logrotate_Rotate.thy ===== *)
theory Logrotate_Rotate
  imports Logrotate_State
begin

text \<open>
  The walk along a peer chain that a rotation performs, in closed form: which files move
  down by one, which one falls off the end, and what stays as it was.
\<close>

section \<open>Node maps\<close>

lemma get_put_node [map_simps]: "map_of (nodes (put_node i n s)) = (map_of (nodes s))(i \<mapsto> n)"
  by (simp add: put_node_def update_conv')

lemma put_node_frame [simp]:
  "root_inode (put_node i n s) = root_inode s" "now (put_node i n s) = now s"
  "initial_tick (put_node i n s) = initial_tick s" "block_cache (put_node i n s) = block_cache s"
  "max_bytes_per_file (put_node i n s) = max_bytes_per_file s"
  "max_rotations (put_node i n s) = max_rotations s" "group_names (put_node i n s) = group_names s"
  "next_inode (put_node i n s) = next_inode s" "next_file_handle (put_node i n s) = next_file_handle s"
  "load_profile (put_node i n s) = load_profile s"
  "valid_file_handles (put_node i n s) = valid_file_handles s"
  by (simp_all add: put_node_def)

text \<open>Two states that differ in their nodes only, both with distinct keys.\<close>

definition distinct_nodes :: "State \<Rightarrow> bool" where
  "distinct_nodes s \<longleftrightarrow> distinct (map fst (nodes s))"

definition nodes_only :: "State \<Rightarrow> State \<Rightarrow> bool" where
  "nodes_only s s' \<longleftrightarrow> s' = s\<lparr>nodes := nodes s'\<rparr> \<and> (distinct_nodes s \<longrightarrow> distinct_nodes s')"

lemma nodes_only_refl [simp]: "nodes_only s s"
  by (simp add: nodes_only_def)

lemma nodes_only_trans: "nodes_only s s' \<Longrightarrow> nodes_only s' s'' \<Longrightarrow> nodes_only s s''"
  unfolding nodes_only_def by (metis State.surjective State.update_convs(1))

lemma nodes_only_frame:
  assumes "nodes_only s s'"
  shows "root_inode s' = root_inode s" "now s' = now s" "initial_tick s' = initial_tick s"
    "block_cache s' = block_cache s" "max_bytes_per_file s' = max_bytes_per_file s"
    "max_rotations s' = max_rotations s" "group_names s' = group_names s"
    "next_inode s' = next_inode s" "next_file_handle s' = next_file_handle s"
    "load_profile s' = load_profile s" "valid_file_handles s' = valid_file_handles s"
  using assms unfolding nodes_only_def by (metis State.select_convs State.surjective State.update_convs(1))+

lemma nodes_only_distinct: "nodes_only s s' \<Longrightarrow> distinct_nodes s \<Longrightarrow> distinct_nodes s'"
  by (simp add: nodes_only_def)

lemma nodes_only_put_node [simp]: "nodes_only s (put_node i n s)"
  by (simp add: nodes_only_def put_node_def distinct_nodes_def distinct_update)

lemma nodes_only_put_nodeI: "nodes_only s s' \<Longrightarrow> nodes_only s (put_node i n s')"
  by (rule nodes_only_trans [OF _ nodes_only_put_node])

lemma update_children_eq:
  "get_node s p = Some (Node_Directory nm d) \<Longrightarrow>
   update_children g p s = put_node p (Node_Directory nm (d\<lparr>children := g (children d)\<rparr>)) s"
  by (simp add: update_children_def)

section \<open>Segments of read-only files\<close>

definition link :: "'a list \<Rightarrow> 'a option" where
  "link is = (case is of [] \<Rightarrow> None | j # _ \<Rightarrow> Some j)"

lemma link_simps [simp]: "link [] = None" "link (j # js) = Some j"
  by (simp_all add: link_def)

text \<open>
  \<open>rseg m g p k is\<close>: the inodes \<open>is\<close> are linked, read-only files of group \<open>g\<close> in directory
  \<open>p\<close>, numbered from \<open>k\<close>, each the peer of the one before.
\<close>

fun rseg :: "(Inode \<Rightarrow> Node option) \<Rightarrow> nat \<Rightarrow> Inode \<Rightarrow> nat \<Rightarrow> Inode list \<Rightarrow> bool" where
  "rseg m g p k [] \<longleftrightarrow> True"
| "rseg m g p k (i # is) \<longleftrightarrow>
     (\<exists>f. m i = Some (Node_File f) \<and> group_id f = g \<and> parent f = p \<and> ordinal f = k \<and>
       \<not> unlinked f \<and> read_only f \<and> peer f = link is) \<and> rseg m g p (Suc k) is"

lemma rseg_cong: "(\<And>x. x \<in> set is \<Longrightarrow> m' x = m x) \<Longrightarrow> rseg m' g p k is = rseg m g p k is"
  by (induction "is" arbitrary: k) auto

lemma rseg_upd [simp]: "x \<notin> set is \<Longrightarrow> rseg (m(x \<mapsto> n)) g p k is = rseg m g p k is"
  by (rule rseg_cong) auto

lemma rseg_file:
  "rseg m g p k is \<Longrightarrow> x \<in> set is \<Longrightarrow>
   \<exists>f. m x = Some (Node_File f) \<and> group_id f = g \<and> parent f = p \<and> \<not> unlinked f \<and> read_only f \<and>
     k \<le> ordinal f \<and> ordinal f < k + length is"
proof (induction "is" arbitrary: k)
  case Nil
  then show ?case by simp
next
  case (Cons i "is")
  show ?case
  proof (cases "x = i")
    case True
    with Cons.prems show ?thesis by auto
  next
    case False
    with Cons.prems Cons.IH [of "Suc k"] show ?thesis by force
  qed
qed

text \<open>A file without the three fields a rotation changes.\<close>

definition core :: "File \<Rightarrow> File" where
  "core f = f\<lparr>ordinal := 0, peer := None, unlinked := False\<rparr>"

lemma core_upd [simp]:
  "core (f\<lparr>ordinal := a\<rparr>) = core f" "core (f\<lparr>peer := b\<rparr>) = core f" "core (f\<lparr>unlinked := c\<rparr>) = core f"
  by (simp_all add: core_def)

lemma core_fields:
  assumes "core f' = core f"
  shows "parent f' = parent f" "bytes_written f' = bytes_written f" "bytes_read f' = bytes_read f"
    "created_tick f' = created_tick f" "access_tick f' = access_tick f"
    "modified_tick f' = modified_tick f" "status_tick f' = status_tick f"
    "bytes_per_tick f' = bytes_per_tick f" "read_only f' = read_only f"
    "read_only_since f' = read_only_since f" "group_id f' = group_id f"
    "open_handles f' = open_handles f" "max_offset_observed f' = max_offset_observed f"
  using assms by (cases f; cases f'; simp add: core_def)+

section \<open>The walk\<close>

text \<open>What stays in the chain after moving down by one, with \<open>r\<close> rotations allowed.\<close>

definition kept :: "nat \<Rightarrow> nat \<Rightarrow> 'a list \<Rightarrow> 'a list" where
  "kept r k cs = (if k + length cs \<le> r then cs else butlast cs)"

definition dropped :: "nat \<Rightarrow> nat \<Rightarrow> 'a list \<Rightarrow> 'a set" where
  "dropped r k cs = (if k + length cs \<le> r then {} else {last cs})"

definition walked ::
    "State \<Rightarrow> State \<Rightarrow> nat \<Rightarrow> Inode \<Rightarrow> nat \<Rightarrow> Inode list \<Rightarrow> Inode \<Rightarrow> File \<Rightarrow> string \<Rightarrow> Directory \<Rightarrow> bool" where
  "walked s s' g p k cs prev fp nm d \<longleftrightarrow>
     nodes_only s s' \<and>
     rseg (map_of (nodes s')) g p (Suc k) (kept (max_rotations s) k cs) \<and>
     get_node s' prev = Some (Node_File (fp\<lparr>peer := link (kept (max_rotations s) k cs)\<rparr>)) \<and>
     (\<forall>x f. x \<in> set cs \<longrightarrow> get_node s x = Some (Node_File f) \<longrightarrow>
        (\<exists>f'. get_node s' x = Some (Node_File f') \<and> core f' = core f \<and>
          unlinked f' = (x \<in> dropped (max_rotations s) k cs))) \<and>
     get_node s' p = Some (Node_Directory nm
        (d\<lparr>children := filter (\<lambda>x. x \<notin> dropped (max_rotations s) k cs) (children d)\<rparr>)) \<and>
     (\<forall>x. x \<notin> set cs \<longrightarrow> x \<noteq> prev \<longrightarrow> x \<noteq> p \<longrightarrow> get_node s' x = get_node s x)"

lemma kept_Cons: "cs \<noteq> [] \<Longrightarrow> kept r k (c # cs) = c # kept r (Suc k) cs"
  by (simp add: kept_def)

lemma dropped_Cons: "cs \<noteq> [] \<Longrightarrow> dropped r k (c # cs) = dropped r (Suc k) cs"
  by (simp add: dropped_def)

lemma dropped_subset: "cs \<noteq> [] \<Longrightarrow> dropped r k cs \<subseteq> set cs"
  by (simp add: dropped_def)

lemma kept_set: "distinct cs \<Longrightarrow> cs \<noteq> [] \<Longrightarrow> set (kept r k cs) = set cs - dropped r k cs"
  by (cases cs rule: rev_cases) (auto simp: kept_def dropped_def)

lemma removeAll_eq_filter: "removeAll x xs = filter (\<lambda>y. y \<noteq> x) xs"
  by (induction xs) auto

lemma file_incr_ordinal_eq: "ordinal f < 255 \<Longrightarrow> file_incr_ordinal f = f\<lparr>ordinal := Suc (ordinal f)\<rparr>"
  by (simp add: file_incr_ordinal_def saturating_add_def umax_8)

text \<open>The last file of the chain, when it is not pushed off the end and when it is.\<close>

lemma rotate_pass_end:
  assumes f: "get_node s i = Some (Node_File f)" "group_id f = g" "parent f = p" "ordinal f = k"
      "\<not> unlinked f" "read_only f" "peer f = None"
    and prev: "get_node s prev = Some (Node_File fp)" "peer fp = Some i" "prev \<noteq> i"
    and dir: "get_node s p = Some (Node_Directory nm d)"
    and R: "k \<le> max_rotations s" "max_rotations s < 255"
  shows "\<exists>s'. rotate_pass t p (s, i, prev) = Some (Break s') \<and> walked s s' g p k [i] prev fp nm d"
proof (cases "Suc k \<le> max_rotations s")
  case True
  let ?s = "put_node i (Node_File (f\<lparr>ordinal := Suc k\<rparr>)) s"
  have "rotate_pass t p (s, i, prev) = Some (Break ?s)"
    using True R f by (simp add: rotate_pass_def file_incr_ordinal_eq Let_def)
  moreover have "i \<noteq> p" using f(1) dir by auto
  moreover have "fp\<lparr>peer := Some i\<rparr> = fp" using prev(2) by simp
  ultimately show ?thesis using True f prev dir
    by (auto simp: walked_def kept_def dropped_def map_simps)
next
  case False
  let ?f = "f\<lparr>ordinal := Suc k\<rparr>"
  let ?s = "put_node prev (Node_File (fp\<lparr>peer := None\<rparr>)) (put_node i (Node_File (?f\<lparr>unlinked := True\<rparr>))
     (put_node p (Node_Directory nm (d\<lparr>children := removeAll i (children d)\<rparr>)) (put_node i (Node_File ?f) s)))"
  have ip: "i \<noteq> p" and pp: "prev \<noteq> p" using f(1) dir prev(1) by auto
  have up: "update_children (removeAll i) p (put_node i (Node_File ?f) s) =
     put_node p (Node_Directory nm (d\<lparr>children := removeAll i (children d)\<rparr>)) (put_node i (Node_File ?f) s)"
    using dir ip by (simp add: update_children_def map_simps)
  have "rotate_pass t p (s, i, prev) = Some (Break ?s)"
    using False R f ip pp prev
    by (simp add: rotate_pass_def file_incr_ordinal_eq up file_unlink_def map_simps Let_def)
  moreover have "walked s ?s g p k [i] prev fp nm d"
    using False f prev dir ip pp
    by (auto simp: walked_def kept_def dropped_def map_simps removeAll_eq_filter intro!: nodes_only_put_nodeI)
  ultimately show ?thesis by blast
qed

text \<open>One more file in front of the walk.\<close>

lemma walked_Cons:
  assumes w: "walked (put_node i (Node_File (f\<lparr>ordinal := Suc k\<rparr>)) s) s' g p (Suc k) (j # js) i
      (f\<lparr>ordinal := Suc k\<rparr>) nm d"
    and f: "get_node s i = Some (Node_File f)" "group_id f = g" "parent f = p" "ordinal f = k"
      "\<not> unlinked f" "read_only f"
    and prev: "get_node s prev = Some (Node_File fp)" "peer fp = Some i" "prev \<notin> set (i # j # js)"
    and "distinct (i # j # js)" "i \<noteq> p" "prev \<noteq> p"
  shows "walked s s' g p k (i # j # js) prev fp nm d"
proof -
  let ?s = "put_node i (Node_File (f\<lparr>ordinal := Suc k\<rparr>)) s"
  let ?dr = "dropped (max_rotations s) (Suc k) (j # js)" and ?kp = "kept (max_rotations s) (Suc k) (j # js)"
  have i: "i \<notin> ?dr" using dropped_subset [of "j # js"] assms(11) by auto
  have old: "get_node ?s x = get_node s x" if "x \<noteq> i" for x using that by (simp add: map_simps)
  have w': "nodes_only ?s s'" "rseg (map_of (nodes s')) g p (Suc (Suc k)) ?kp"
    "get_node s' i = Some (Node_File (f\<lparr>ordinal := Suc k, peer := link ?kp\<rparr>))"
    "get_node s' p = Some (Node_Directory nm (d\<lparr>children := filter (\<lambda>x. x \<notin> ?dr) (children d)\<rparr>))"
    using w by (simp_all add: walked_def)
  have rest: "get_node s' x = get_node s x" if "x \<notin> set (i # j # js)" "x \<noteq> p" for x
    using w that old [of x] by (auto simp: walked_def)
  have files: "\<exists>f'. get_node s' x = Some (Node_File f') \<and> core f' = core fx \<and> unlinked f' = (x \<in> ?dr)"
    if "x \<in> set (j # js)" "get_node s x = Some (Node_File fx)" for x fx
  proof -
    have "get_node ?s x = Some (Node_File fx)" using that assms(11) by (subst old) auto
    with w that(1) show ?thesis unfolding walked_def by (metis put_node_frame(6))
  qed
  have "fp\<lparr>peer := Some i\<rparr> = fp" using prev(2) by simp
  then show ?thesis
    using w' rest [of prev] rest files f prev assms(11-13) i nodes_only_trans [OF nodes_only_put_node w'(1)]
    unfolding walked_def kept_Cons [OF list.distinct(2)] dropped_Cons [OF list.distinct(2)]
    by auto
qed

lemma rotate_walk:
  "rseg (map_of (nodes s)) g p k (i # is) \<Longrightarrow> distinct (i # is) \<Longrightarrow> prev \<notin> set (i # is) \<Longrightarrow>
   get_node s prev = Some (Node_File fp) \<Longrightarrow> peer fp = Some i \<Longrightarrow>
   get_node s p = Some (Node_Directory nm d) \<Longrightarrow>
   k + length is \<le> max_rotations s \<Longrightarrow> max_rotations s < 255 \<Longrightarrow>
   \<exists>s'. loop (rotate_pass t p) (s, i, prev) = Some s' \<and> walked s s' g p k (i # is) prev fp nm d"
proof (induction "is" arbitrary: s k i prev fp)
  case Nil
  then have "\<exists>s'. rotate_pass t p (s, i, prev) = Some (Break s') \<and> walked s s' g p k [i] prev fp nm d"
    by (auto intro: rotate_pass_end)
  then show ?case by auto
next
  case (Cons j js)
  from Cons.prems(1) obtain f where f: "get_node s i = Some (Node_File f)" "group_id f = g"
    "parent f = p" "ordinal f = k" "\<not> unlinked f" "read_only f" "peer f = Some j"
    and seg: "rseg (map_of (nodes s)) g p (Suc k) (j # js)" by auto
  let ?f = "f\<lparr>ordinal := Suc k\<rparr>"
  let ?s = "put_node i (Node_File ?f) s"
  have ip: "i \<noteq> p" and pp: "prev \<noteq> p" using f(1) Cons.prems(4,6) by auto
  have pass: "rotate_pass t p (s, i, prev) = Some (Again (?s, j, i))"
    using f Cons.prems(7,8) by (simp add: rotate_pass_def file_incr_ordinal_eq Let_def)
  have "\<exists>s'. loop (rotate_pass t p) (?s, j, i) = Some s' \<and> walked ?s s' g p (Suc k) (j # js) i ?f nm d"
  proof (rule Cons.IH)
    show "rseg (map_of (nodes ?s)) g p (Suc k) (j # js)"
      unfolding map_simps using seg Cons.prems(2) by (subst rseg_upd) auto
  qed (use Cons.prems f ip in \<open>auto simp: map_simps\<close>)
  then obtain s' where run: "loop (rotate_pass t p) (s, i, prev) = Some s'"
    and w: "walked ?s s' g p (Suc k) (j # js) i ?f nm d"
    using loop_Again [of "rotate_pass t p", OF pass] by auto
  have "walked s s' g p k (i # j # js) prev fp nm d"
    by (rule walked_Cons [OF w f(1-6)]) (use Cons.prems ip pp in auto)
  with run show ?case by blast
qed

end
