(* ===== verification/Logrotate_Inv.thy ===== *)
theory Logrotate_Inv
  imports Logrotate_Rotate
begin

text \<open>
  The structural invariant of the logrotate filesystem: the tree of directories and the
  peer chains of the log groups. Every operation either leaves the shape of the nodes
  alone, rotates one group, or collects unlinked files; each of the three keeps it.
\<close>

section \<open>The tree\<close>

definition child_ok :: "(Inode \<Rightarrow> Node option) \<Rightarrow> Inode \<Rightarrow> Inode \<Rightarrow> bool" where
  "child_ok m p x \<longleftrightarrow>
     (\<exists>f. m x = Some (Node_File f) \<and> parent f = p \<and> \<not> unlinked f) \<or>
     (\<exists>nm d. m x = Some (Node_Directory nm d) \<and> dir_parent d = Some p)"

definition dir_ok :: "(Inode \<Rightarrow> Node option) \<Rightarrow> Inode \<Rightarrow> Directory \<Rightarrow> bool" where
  "dir_ok m p d \<longleftrightarrow> sorted (children d) \<and> distinct (children d) \<and>
     (\<forall>x \<in> set (children d). child_ok m p x)"

definition listed :: "(Inode \<Rightarrow> Node option) \<Rightarrow> Inode \<Rightarrow> Inode \<Rightarrow> bool" where
  "listed m p x \<longleftrightarrow> (\<exists>nm d. m p = Some (Node_Directory nm d) \<and> x \<in> set (children d))"

definition tree_ok :: "State \<Rightarrow> bool" where
  "tree_ok s \<longleftrightarrow>
     distinct_nodes s \<and>
     (\<forall>i n. get_node s i = Some n \<longrightarrow> i < next_inode s) \<and>
     (\<exists>nm d. get_node s (root_inode s) = Some (Node_Directory nm d)) \<and>
     (\<forall>p nm d. get_node s p = Some (Node_Directory nm d) \<longrightarrow> dir_ok (map_of (nodes s)) p d) \<and>
     (\<forall>x f. get_node s x = Some (Node_File f) \<longrightarrow> \<not> unlinked f \<longrightarrow> listed (map_of (nodes s)) (parent f) x)"

lemma tree_ok_distinct: "tree_ok s \<Longrightarrow> distinct_nodes s"
  by (simp add: tree_ok_def)

lemma tree_ok_below: "tree_ok s \<Longrightarrow> get_node s i = Some n \<Longrightarrow> i < next_inode s"
  by (auto simp: tree_ok_def)

lemma tree_ok_dir: "tree_ok s \<Longrightarrow> get_node s p = Some (Node_Directory nm d) \<Longrightarrow> dir_ok (map_of (nodes s)) p d"
  by (auto simp: tree_ok_def)

lemma tree_ok_listed:
  "tree_ok s \<Longrightarrow> get_node s x = Some (Node_File f) \<Longrightarrow> \<not> unlinked f \<Longrightarrow> listed (map_of (nodes s)) (parent f) x"
  by (auto simp: tree_ok_def)

lemma tree_ok_fresh: "tree_ok s \<Longrightarrow> get_node s (next_inode s) = None"
  by (metis less_irrefl not_Some_eq tree_ok_below)

section \<open>Peer chains\<close>

text \<open>
  The chain of group \<open>g\<close> in directory \<open>p\<close>: the file being written, then its read-only
  predecessors in order, no more than the rotations allow.
\<close>

definition chain :: "(Inode \<Rightarrow> Node option) \<Rightarrow> nat \<Rightarrow> nat \<Rightarrow> Inode \<Rightarrow> Inode list \<Rightarrow> bool" where
  "chain m r g p c \<longleftrightarrow>
     (\<exists>h ts f. c = h # ts \<and> m h = Some (Node_File f) \<and> group_id f = g \<and> parent f = p \<and>
        ordinal f = 0 \<and> \<not> unlinked f \<and> \<not> read_only f \<and> peer f = link ts \<and> rseg m g p 1 ts) \<and>
     distinct c \<and> length c \<le> Suc r"

definition group_ok :: "(Inode \<Rightarrow> Node option) \<Rightarrow> nat \<Rightarrow> nat \<Rightarrow> bool" where
  "group_ok m r g \<longleftrightarrow> (\<exists>p c. chain m r g p c \<and>
     (\<forall>x f. m x = Some (Node_File f) \<longrightarrow> group_id f = g \<longrightarrow> \<not> unlinked f \<longrightarrow> x \<in> set c))"

definition groups_ok :: "State \<Rightarrow> bool" where
  "groups_ok s \<longleftrightarrow>
     max_rotations s < 255 \<and>
     (\<forall>names \<in> set (group_names s). length names = Suc (max_rotations s)) \<and>
     (\<forall>g < length (group_names s). group_ok (map_of (nodes s)) (max_rotations s) g) \<and>
     (\<forall>x f. get_node s x = Some (Node_File f) \<longrightarrow>
        group_id f < length (group_names s) \<and> (unlinked f \<longrightarrow> read_only f))"

lemma groups_ok_file:
  "groups_ok s \<Longrightarrow> get_node s x = Some (Node_File f) \<Longrightarrow>
     group_id f < length (group_names s) \<and> (unlinked f \<longrightarrow> read_only f)"
  by (auto simp: groups_ok_def)

lemma groups_ok_group: "groups_ok s \<Longrightarrow> g < length (group_names s) \<Longrightarrow> group_ok (map_of (nodes s)) (max_rotations s) g"
  by (simp add: groups_ok_def)

lemma chain_cong: "(\<And>x. x \<in> set c \<Longrightarrow> m' x = m x) \<Longrightarrow> chain m' r g p c = chain m r g p c"
proof -
  assume eq: "\<And>x. x \<in> set c \<Longrightarrow> m' x = m x"
  then have "rseg m' g p 1 (tl c) = rseg m g p 1 (tl c)" by (intro rseg_cong) (cases c; auto)
  with eq show ?thesis unfolding chain_def by (cases c) auto
qed

lemma chain_file:
  "chain m r g p c \<Longrightarrow> x \<in> set c \<Longrightarrow> \<exists>f. m x = Some (Node_File f) \<and> group_id f = g \<and> parent f = p \<and>
     \<not> unlinked f \<and> ordinal f \<le> r \<and> (read_only f \<longleftrightarrow> x \<noteq> hd c)"
  unfolding chain_def by (force dest: rseg_file)

lemma linked_in_chain:
  assumes "groups_ok s" "get_node s x = Some (Node_File f)" "\<not> unlinked f"
  obtains p c where "chain (map_of (nodes s)) (max_rotations s) (group_id f) p c" "x \<in> set c"
    "\<And>y fy. get_node s y = Some (Node_File fy) \<Longrightarrow> group_id fy = group_id f \<Longrightarrow> \<not> unlinked fy \<Longrightarrow> y \<in> set c"
  using assms unfolding groups_ok_def group_ok_def by metis

lemma active_is_head:
  assumes "groups_ok s" "get_node s x = Some (Node_File f)" "\<not> read_only f"
  obtains ts where "chain (map_of (nodes s)) (max_rotations s) (group_id f) (parent f) (x # ts)"
    "\<And>y fy. get_node s y = Some (Node_File fy) \<Longrightarrow> group_id fy = group_id f \<Longrightarrow> \<not> unlinked fy \<Longrightarrow> y \<in> set (x # ts)"
proof -
  have "\<not> unlinked f" using assms by (auto simp: groups_ok_def)
  then obtain p c where c: "chain (map_of (nodes s)) (max_rotations s) (group_id f) p c" "x \<in> set c"
    and all: "\<And>y fy. get_node s y = Some (Node_File fy) \<Longrightarrow> group_id fy = group_id f \<Longrightarrow> \<not> unlinked fy \<Longrightarrow> y \<in> set c"
    using linked_in_chain [OF assms(1,2)] by blast
  have "x = hd c" "p = parent f" using chain_file [OF c] assms(2,3) by auto
  with c(2) obtain ts where "c = x # ts" by (cases c) auto
  with c all \<open>p = parent f\<close> show thesis by (intro that) auto
qed

section \<open>Operations that keep the shape\<close>

text \<open>Two nodes that differ only in data that no other node depends on.\<close>

definition same_file_shape :: "File \<Rightarrow> File \<Rightarrow> bool" where
  "same_file_shape f f' \<longleftrightarrow> parent f' = parent f \<and> group_id f' = group_id f \<and> peer f' = peer f \<and>
     ordinal f' = ordinal f \<and> unlinked f' = unlinked f \<and> read_only f' = read_only f"

fun same_node_shape :: "Node \<Rightarrow> Node \<Rightarrow> bool" where
  "same_node_shape (Node_File f) (Node_File f') = same_file_shape f f'"
| "same_node_shape (Node_Directory nm d) (Node_Directory nm' d') = (nm' = nm \<and> d' = d)"
| "same_node_shape _ _ = False"

definition same_shape :: "(Inode \<Rightarrow> Node option) \<Rightarrow> (Inode \<Rightarrow> Node option) \<Rightarrow> bool" where
  "same_shape m m' \<longleftrightarrow> (\<forall>x. rel_option same_node_shape (m x) (m' x))"

lemma same_node_shape_File: "same_node_shape (Node_File f) n \<longleftrightarrow> (\<exists>f'. n = Node_File f' \<and> same_file_shape f f')"
  by (cases n) auto

lemma same_node_shape_Directory: "same_node_shape (Node_Directory nm d) n \<longleftrightarrow> n = Node_Directory nm d"
  by (cases n) auto

lemma same_file_shape_sym: "same_file_shape f f' \<Longrightarrow> same_file_shape f' f"
  by (simp add: same_file_shape_def)

lemma same_node_shape_sym: "same_node_shape n n' \<Longrightarrow> same_node_shape n' n"
  by (cases n; cases n') (auto intro: same_file_shape_sym)

lemma same_shape_at: "same_shape m m' \<Longrightarrow> m x = Some n \<Longrightarrow> \<exists>n'. m' x = Some n' \<and> same_node_shape n n'"
  unfolding same_shape_def by (metis option_rel_Some1)

lemma same_shape_sym: "same_shape m m' \<Longrightarrow> same_shape m' m"
  unfolding same_shape_def
proof
  fix x
  assume "\<forall>x. rel_option same_node_shape (m x) (m' x)"
  then have "rel_option same_node_shape (m x) (m' x)" by blast
  then show "rel_option same_node_shape (m' x) (m x)"
    by (cases "m x"; cases "m' x") (auto intro: same_node_shape_sym)
qed

lemma same_shape_file:
  "same_shape m m' \<Longrightarrow> m x = Some (Node_File f) \<Longrightarrow> \<exists>f'. m' x = Some (Node_File f') \<and> same_file_shape f f'"
  by (drule (1) same_shape_at) (auto simp: same_node_shape_File)

lemma same_shape_dirD: "same_shape m m' \<Longrightarrow> m x = Some (Node_Directory nm d) \<Longrightarrow> m' x = Some (Node_Directory nm d)"
  by (drule (1) same_shape_at) (auto simp: same_node_shape_Directory)

lemma same_shape_dir: "same_shape m m' \<Longrightarrow> m' x = Some (Node_Directory nm d) \<longleftrightarrow> m x = Some (Node_Directory nm d)"
  using same_shape_dirD same_shape_sym by blast

lemma same_shape_None: "same_shape m m' \<Longrightarrow> m' x = None \<longleftrightarrow> m x = None"
  unfolding same_shape_def by (metis option.rel_sel)

lemma same_file_shape_refl [simp]: "same_file_shape f f"
  by (simp add: same_file_shape_def)

lemma same_node_shape_refl [simp]: "same_node_shape n n"
  by (cases n) auto

lemma same_shape_upd: "m x = Some (Node_File f) \<Longrightarrow> same_file_shape f f' \<Longrightarrow> same_shape m (m(x \<mapsto> Node_File f'))"
  unfolding same_shape_def by (auto simp: option.rel_refl)

lemma rseg_shape: "same_shape m m' \<Longrightarrow> rseg m g p k is \<Longrightarrow> rseg m' g p k is"
  by (induction "is" arbitrary: k) (auto dest!: same_shape_file simp: same_file_shape_def)

lemma chain_shape:
  assumes sh: "same_shape m m'" and ch: "chain m r g p c"
  shows "chain m' r g p c"
proof -
  from ch obtain h ts f where c: "c = h # ts" "m h = Some (Node_File f)" "group_id f = g" "parent f = p"
    "ordinal f = 0" "\<not> unlinked f" "\<not> read_only f" "peer f = link ts" "rseg m g p 1 ts"
    and d: "distinct c" "length c \<le> Suc r"
    unfolding chain_def by blast
  from same_shape_file [OF sh c(2)] obtain f' where "m' h = Some (Node_File f')" "same_file_shape f f'"
    by blast
  with c d rseg_shape [OF sh c(9)] show ?thesis
    unfolding chain_def same_file_shape_def by auto
qed

lemma group_ok_shape:
  assumes sh: "same_shape m m'" and "group_ok m r g"
  shows "group_ok m' r g"
proof -
  from assms(2) obtain p c where ch: "chain m r g p c"
    and all: "\<And>x f. m x = Some (Node_File f) \<Longrightarrow> group_id f = g \<Longrightarrow> \<not> unlinked f \<Longrightarrow> x \<in> set c"
    unfolding group_ok_def by blast
  have "x \<in> set c" if "m' x = Some (Node_File f')" "group_id f' = g" "\<not> unlinked f'" for x f'
    using same_shape_file [OF same_shape_sym [OF sh] that(1)] all that(2,3)
    by (auto simp: same_file_shape_def)
  with chain_shape [OF sh ch] show ?thesis unfolding group_ok_def by blast
qed

lemma child_ok_shape:
  assumes sh: "same_shape m m'" and "child_ok m p x"
  shows "child_ok m' p x"
  using assms(2) unfolding child_ok_def
proof
  assume "\<exists>f. m x = Some (Node_File f) \<and> parent f = p \<and> \<not> unlinked f"
  then show "(\<exists>f. m' x = Some (Node_File f) \<and> parent f = p \<and> \<not> unlinked f) \<or>
     (\<exists>nm d. m' x = Some (Node_Directory nm d) \<and> dir_parent d = Some p)"
    using same_shape_file [OF sh, of x] by (auto simp: same_file_shape_def)
qed (auto simp: same_shape_dir [OF sh])

lemma listed_shape: "same_shape m m' \<Longrightarrow> listed m p x \<Longrightarrow> listed m' p x"
  by (auto simp: listed_def same_shape_dir)

lemma groups_ok_shape:
  assumes "groups_ok s" "same_shape (map_of (nodes s)) (map_of (nodes s'))"
    "max_rotations s' = max_rotations s" "group_names s' = group_names s"
  shows "groups_ok s'"
proof -
  have "group_id f < length (group_names s) \<and> (unlinked f \<longrightarrow> read_only f)"
    if "get_node s' x = Some (Node_File f)" for x f
  proof -
    from same_shape_file [OF same_shape_sym [OF assms(2)] that] obtain f' where
      "get_node s x = Some (Node_File f')" "same_file_shape f f'" by blast
    moreover from this assms(1) have "group_id f' < length (group_names s) \<and> (unlinked f' \<longrightarrow> read_only f')"
      by (simp add: groups_ok_def)
    ultimately show ?thesis by (simp add: same_file_shape_def)
  qed
  then show ?thesis using assms(1,3,4) group_ok_shape [OF assms(2)] by (auto simp: groups_ok_def)
qed

lemma tree_ok_shape:
  assumes ok: "tree_ok s" and sh: "same_shape (map_of (nodes s)) (map_of (nodes s'))"
    and s': "distinct_nodes s'" "next_inode s' = next_inode s" "root_inode s' = root_inode s"
  shows "tree_ok s'"
  unfolding tree_ok_def
proof (intro conjI allI impI)
  show "distinct_nodes s'" by (rule s')
  show "i < next_inode s'" if "get_node s' i = Some n" for i n
    using ok that same_shape_None [OF sh, of i] by (auto simp: tree_ok_def s')
  show "\<exists>nm d. get_node s' (root_inode s') = Some (Node_Directory nm d)"
    using ok same_shape_dir [OF sh] by (auto simp: tree_ok_def s')
  show "dir_ok (map_of (nodes s')) p d" if "get_node s' p = Some (Node_Directory nm d)" for p nm d
    using ok that same_shape_dir [OF sh] child_ok_shape [OF sh] by (auto simp: tree_ok_def dir_ok_def)
  show "listed (map_of (nodes s')) (parent f) x"
    if "get_node s' x = Some (Node_File f)" "\<not> unlinked f" for x f
  proof -
    from same_shape_file [OF same_shape_sym [OF sh] that(1)] obtain f' where
      f': "get_node s x = Some (Node_File f')" "same_file_shape f f'" by blast
    with that(2) have "listed (map_of (nodes s)) (parent f') x"
      by (intro tree_ok_listed [OF ok]) (simp_all add: same_file_shape_def)
    with f' listed_shape [OF sh] show ?thesis by (simp add: same_file_shape_def)
  qed
qed

section \<open>Rotating one group\<close>

text \<open>The effect of a rotation on the nodes: group \<open>g\<close> in directory \<open>p\<close> had the chain \<open>h # ts\<close>.\<close>

definition rotated ::
    "State \<Rightarrow> State \<Rightarrow> Inode \<Rightarrow> Inode list \<Rightarrow> File \<Rightarrow> File \<Rightarrow> string \<Rightarrow> Directory \<Rightarrow> bool" where
  "rotated s s' h ts f nf nm d \<longleftrightarrow>
     (let g = group_id f; p = parent f; new = next_inode s; cs = h # ts;
          kp = kept (max_rotations s) 0 cs; dr = dropped (max_rotations s) 0 cs
      in nodes_only (s\<lparr>next_inode := Suc new\<rparr>) s' \<and>
         rseg (map_of (nodes s')) g p 1 kp \<and>
         get_node s' new = Some (Node_File (nf\<lparr>peer := link kp\<rparr>)) \<and>
         (\<forall>x \<in> set cs. \<exists>fx f'. (if x = h then fx = f else get_node s x = Some (Node_File fx)) \<and>
            get_node s' x = Some (Node_File f') \<and> core f' = core fx \<and> unlinked f' = (x \<in> dr)) \<and>
         get_node s' p = Some (Node_Directory nm
            (d\<lparr>children := filter (\<lambda>x. x \<notin> dr) (insort_insert new (children d))\<rparr>)) \<and>
         (\<forall>x. x \<notin> set cs \<longrightarrow> x \<noteq> new \<longrightarrow> x \<noteq> p \<longrightarrow> get_node s' x = get_node s x))"

definition new_head :: "Tick \<Rightarrow> nat \<Rightarrow> Inode \<Rightarrow> File \<Rightarrow> File" where
  "new_head t rate h f = file_advance_time (File_new (parent f) (group_id f) rate (t - 1) (Some h)) t"

lemma new_head_shape [simp]:
  "parent (new_head t rate h f) = parent f" "group_id (new_head t rate h f) = group_id f"
  "ordinal (new_head t rate h f) = 0" "unlinked (new_head t rate h f) = False"
  "read_only (new_head t rate h f) = False" "peer (new_head t rate h f) = Some h"
  by (simp_all add: new_head_def File_new_def)

lemma put_node_next_inode: "(put_node i n s)\<lparr>next_inode := x\<rparr> = put_node i n (s\<lparr>next_inode := x\<rparr>)"
  by (simp add: put_node_def)

lemma walked_rotated:
  fixes s f nf nm d h
  defines "p \<equiv> parent f" and "new \<equiv> next_inode s"
    and "s0 \<equiv> put_node (parent f) (Node_Directory nm (d\<lparr>children := insort_insert (next_inode s) (children d)\<rparr>))
      (put_node (next_inode s) (Node_File nf) ((put_node h (Node_File f) s)\<lparr>next_inode := Suc (next_inode s)\<rparr>))"
  assumes w: "walked s0 s' (group_id f) p 0 (h # ts) new nf nm (d\<lparr>children := insort_insert new (children d)\<rparr>)"
    and nodes: "map_of (nodes s0) = (map_of (nodes s))(h \<mapsto> Node_File f, new \<mapsto> Node_File nf,
        p \<mapsto> Node_Directory nm (d\<lparr>children := insort_insert new (children d)\<rparr>))"
    and "p \<notin> set (h # ts)" "new \<notin> set (h # ts)"
    and files: "\<And>x. x \<in> set (h # ts) \<Longrightarrow> \<exists>fx. get_node s x = Some (Node_File fx)"
  shows "rotated s s' h ts f nf nm d"
proof -
  let ?dr = "dropped (max_rotations s) 0 (h # ts)"
  have R: "max_rotations s0 = max_rotations s" by (simp add: s0_def)
  have only: "nodes_only (s\<lparr>next_inode := Suc new\<rparr>) s'"
  proof (rule nodes_only_trans)
    show "nodes_only (s\<lparr>next_inode := Suc new\<rparr>) s0"
      unfolding s0_def put_node_next_inode new_def by (intro nodes_only_put_nodeI nodes_only_refl)
    show "nodes_only s0 s'" using w by (simp add: walked_def)
  qed
  have chain: "\<exists>fx f'. (if x = h then fx = f else get_node s x = Some (Node_File fx)) \<and>
      get_node s' x = Some (Node_File f') \<and> core f' = core fx \<and> unlinked f' = (x \<in> ?dr)"
    if x: "x \<in> set (h # ts)" for x
  proof -
    have "\<exists>fx. if x = h then fx = f else get_node s x = Some (Node_File fx)"
      using files [OF x] by auto
    then obtain fx where fx: "if x = h then fx = f else get_node s x = Some (Node_File fx)" ..
    then have "get_node s0 x = Some (Node_File fx)"
      unfolding nodes using x assms(6,7) by (auto split: if_splits)
    with w x have "\<exists>f'. get_node s' x = Some (Node_File f') \<and> core f' = core fx \<and> unlinked f' = (x \<in> ?dr)"
      unfolding walked_def R by metis
    with fx show ?thesis by blast
  qed
  have rest: "get_node s' x = get_node s x" if "x \<notin> set (h # ts)" "x \<noteq> new" "x \<noteq> p" for x
  proof -
    have "get_node s' x = get_node s0 x" using w that by (simp add: walked_def)
    then show ?thesis using that by (simp add: nodes)
  qed
  show ?thesis
    using w only chain rest unfolding rotated_def walked_def Let_def R p_def [symmetric] new_def [symmetric]
    by simp
qed

lemma rotate_effect:
  assumes tree: "tree_ok s" and groups: "groups_ok s"
    and ch: "chain (map_of (nodes s)) (max_rotations s) (group_id f) (parent f) (h # ts)"
    and f: "read_only f" "ordinal f = 0" "\<not> unlinked f" "peer f = link ts"
    and dir: "get_node s (parent f) = Some (Node_Directory nm d)"
    and room: "next_inode s < umax 64" and t: "now s = t"
  shows "\<exists>s'. rotate t rate h f (put_node h (Node_File f) s) = Some s' \<and>
     rotated s s' h ts f (new_head t rate h f) nm d"
proof -
  let ?p = "parent f" and ?g = "group_id f" and ?new = "next_inode s" and ?cs = "h # ts"
  let ?nf = "new_head t rate h f" and ?d = "d\<lparr>children := insort_insert (next_inode s) (children d)\<rparr>"
  let ?s = "put_node ?p (Node_Directory nm ?d) (put_node ?new (Node_File ?nf)
      ((put_node h (Node_File f) s)\<lparr>next_inode := Suc ?new\<rparr>))"
  have files: "\<exists>fx. get_node s x = Some (Node_File fx)" if "x \<in> set ?cs" for x
    using chain_file [OF ch that] by blast
  have p: "?p \<notin> set ?cs" using files [of ?p] dir by auto
  have new: "?new \<notin> set ?cs" "?new \<noteq> ?p" using files [of ?new] dir tree_ok_fresh [OF tree] by auto
  have dist: "distinct ?cs" and len: "length ts \<le> max_rotations s" and ts: "rseg (map_of (nodes s)) ?g ?p 1 ts"
    using ch by (auto simp: chain_def)
  have nodes: "map_of (nodes ?s) = (map_of (nodes s))(h \<mapsto> Node_File f, ?new \<mapsto> Node_File ?nf, ?p \<mapsto> Node_Directory nm ?d)"
    by (simp add: put_node_def update_conv')
  have seg: "rseg (map_of (nodes ?s)) ?g ?p 0 ?cs"
    unfolding nodes using f p new dist ts by (simp add: rseg_upd del: fun_upd_apply) simp
  have upd: "update_children (insort_insert ?new) ?p (put_node ?new (Node_File ?nf)
      ((put_node h (Node_File f) s)\<lparr>next_inode := Suc ?new\<rparr>)) = ?s"
    by (rule update_children_eq) (use dir p new in \<open>simp add: put_node_def update_conv'\<close>)
  have start: "rotate t rate h f (put_node h (Node_File f) s) = loop (rotate_pass t ?p) (?s, h, ?new)"
    using f(2) t room upd by (simp add: rotate_def Let_def new_head_def saturating_add_def)
  have R: "max_rotations s < 255" using groups by (simp add: groups_ok_def)
  have "\<exists>s'. loop (rotate_pass t ?p) (?s, h, ?new) = Some s' \<and> walked ?s s' ?g ?p 0 ?cs ?new ?nf nm ?d"
    by (rule rotate_walk [OF seg dist])
      (use new p len R in \<open>simp_all add: put_node_def update_conv'\<close>)
  then obtain s' where run: "loop (rotate_pass t ?p) (?s, h, ?new) = Some s'"
    and w: "walked ?s s' ?g ?p 0 ?cs ?new ?nf nm ?d" by blast
  have "rotated s s' h ts f ?nf nm d"
    by (rule walked_rotated [OF w nodes p new(1) files])
  with run start show ?thesis by auto
qed

text \<open>The facts of a rotation, one by one.\<close>

lemma rotatedD:
  assumes "rotated s s' h ts f nf nm d"
  shows rotated_only: "nodes_only (s\<lparr>next_inode := Suc (next_inode s)\<rparr>) s'"
    and rotated_seg: "rseg (map_of (nodes s')) (group_id f) (parent f) 1 (kept (max_rotations s) 0 (h # ts))"
    and rotated_new: "get_node s' (next_inode s) =
       Some (Node_File (nf\<lparr>peer := link (kept (max_rotations s) 0 (h # ts))\<rparr>))"
    and rotated_dir: "get_node s' (parent f) = Some (Node_Directory nm
       (d\<lparr>children := filter (\<lambda>x. x \<notin> dropped (max_rotations s) 0 (h # ts)) (insort_insert (next_inode s) (children d))\<rparr>))"
    and rotated_rest: "\<And>x. x \<notin> set (h # ts) \<Longrightarrow> x \<noteq> next_inode s \<Longrightarrow> x \<noteq> parent f \<Longrightarrow> get_node s' x = get_node s x"
  using assms unfolding rotated_def Let_def by blast+

lemma rotated_chain:
  assumes "rotated s s' h ts f nf nm d" "x \<in> set (h # ts)"
  obtains fx f' where "if x = h then fx = f else get_node s x = Some (Node_File fx)"
    "get_node s' x = Some (Node_File f')" "core f' = core fx"
    "unlinked f' \<longleftrightarrow> x \<in> dropped (max_rotations s) 0 (h # ts)"
  using assms unfolding rotated_def Let_def by blast

text \<open>A rotation of the group whose active file was \<open>f0\<close>, read-only as \<open>f\<close>, with \<open>nf\<close> taking over.\<close>

definition rotation ::
    "State \<Rightarrow> State \<Rightarrow> Inode \<Rightarrow> Inode list \<Rightarrow> File \<Rightarrow> File \<Rightarrow> File \<Rightarrow> string \<Rightarrow> Directory \<Rightarrow> bool" where
  "rotation s s' h ts f f0 nf nm d \<longleftrightarrow>
     tree_ok s \<and> groups_ok s \<and>
     chain (map_of (nodes s)) (max_rotations s) (group_id f) (parent f) (h # ts) \<and>
     (\<forall>y fy. get_node s y = Some (Node_File fy) \<longrightarrow> group_id fy = group_id f \<longrightarrow> \<not> unlinked fy \<longrightarrow> y \<in> set (h # ts)) \<and>
     get_node s h = Some (Node_File f0) \<and> parent f = parent f0 \<and> group_id f = group_id f0 \<and> read_only f \<and>
     get_node s (parent f) = Some (Node_Directory nm d) \<and>
     parent nf = parent f \<and> group_id nf = group_id f \<and> ordinal nf = 0 \<and> \<not> unlinked nf \<and> \<not> read_only nf \<and>
     rotated s s' h ts f nf nm d"

lemma rotationD:
  assumes "rotation s s' h ts f f0 nf nm d"
  shows rotation_tree: "tree_ok s" and rotation_groups: "groups_ok s"
    and rotation_chain: "chain (map_of (nodes s)) (max_rotations s) (group_id f) (parent f) (h # ts)"
    and rotation_all: "\<And>y fy. get_node s y = Some (Node_File fy) \<Longrightarrow> group_id fy = group_id f \<Longrightarrow> \<not> unlinked fy \<Longrightarrow> y \<in> set (h # ts)"
    and rotation_head: "get_node s h = Some (Node_File f0)" "parent f = parent f0" "group_id f = group_id f0" "read_only f"
    and rotation_dir: "get_node s (parent f) = Some (Node_Directory nm d)"
    and rotation_nf: "parent nf = parent f" "group_id nf = group_id f" "ordinal nf = 0" "\<not> unlinked nf" "\<not> read_only nf"
    and rotation_rot: "rotated s s' h ts f nf nm d"
  using assms unfolding rotation_def by blast+

lemma rotation_fresh: "rotation s s' h ts f f0 nf nm d \<Longrightarrow> get_node s (next_inode s) = None"
  by (rule tree_ok_fresh [OF rotation_tree])

lemma rotation_chain_files:
  "rotation s s' h ts f f0 nf nm d \<Longrightarrow> x \<in> set (h # ts) \<Longrightarrow>
     \<exists>fx. get_node s x = Some (Node_File fx) \<and> group_id fx = group_id f \<and> parent fx = parent f \<and> \<not> unlinked fx"
  using chain_file [OF rotation_chain] by blast

lemma rotation_new_apart:
  assumes "rotation s s' h ts f f0 nf nm d"
  shows "next_inode s \<notin> set (h # ts)" "next_inode s \<noteq> parent f" "parent f \<notin> set (h # ts)"
  using rotation_chain_files [OF assms, of "next_inode s"] rotation_chain_files [OF assms, of "parent f"]
    rotation_fresh [OF assms] rotation_dir [OF assms] by auto

lemma rotation_frame:
  assumes "rotation s s' h ts f f0 nf nm d"
  shows "max_rotations s' = max_rotations s" "group_names s' = group_names s" "root_inode s' = root_inode s"
    "next_inode s' = Suc (next_inode s)" "now s' = now s" "load_profile s' = load_profile s"
    "initial_tick s' = initial_tick s" "max_bytes_per_file s' = max_bytes_per_file s"
    "valid_file_handles s' = valid_file_handles s" "next_file_handle s' = next_file_handle s"
    "block_cache s' = block_cache s"
  using nodes_only_frame [OF rotated_only [OF rotation_rot [OF assms]]] by simp_all

text \<open>A chain member before and after.\<close>

lemma rotation_chain_after:
  assumes R: "rotation s s' h ts f f0 nf nm d" and x: "x \<in> set (h # ts)"
  shows "\<exists>f'. get_node s' x = Some (Node_File f') \<and> group_id f' = group_id f \<and> parent f' = parent f \<and>
    (unlinked f' \<longleftrightarrow> x \<in> dropped (max_rotations s) 0 (h # ts)) \<and> read_only f'"
proof -
  obtain fx f' where fx: "if x = h then fx = f else get_node s x = Some (Node_File fx)"
    and f': "get_node s' x = Some (Node_File f')" "core f' = core fx"
      "unlinked f' \<longleftrightarrow> x \<in> dropped (max_rotations s) 0 (h # ts)"
    by (rule rotated_chain [OF rotation_rot [OF R] x])
  have "group_id fx = group_id f \<and> parent fx = parent f \<and> read_only fx"
    using fx chain_file [OF rotation_chain [OF R] x] rotation_head(4) [OF R] by (auto split: if_splits)
  with core_fields [OF f'(2)] f' show ?thesis by auto
qed

text \<open>Where the files of the new state come from.\<close>

lemma rotation_file_after:
  assumes R: "rotation s s' h ts f f0 nf nm d" and x: "get_node s' x = Some (Node_File f')"
  shows "x = next_inode s \<and> f' = nf\<lparr>peer := link (kept (max_rotations s) 0 (h # ts))\<rparr> \<or>
     x \<in> set (h # ts) \<and> x \<noteq> next_inode s \<or> x \<notin> set (h # ts) \<and> x \<noteq> next_inode s \<and> get_node s x = Some (Node_File f')"
proof (cases "x = next_inode s")
  case True
  with x rotated_new [OF rotation_rot [OF R]] show ?thesis by auto
next
  case False
  moreover have "x \<noteq> parent f" using x rotated_dir [OF rotation_rot [OF R]] by auto
  ultimately show ?thesis using x rotated_rest [OF rotation_rot [OF R], of x] by auto
qed

lemma kept_length: "cs \<noteq> [] \<Longrightarrow> length cs \<le> Suc r \<Longrightarrow> length (kept r 0 cs) \<le> r"
  by (auto simp: kept_def)

lemma distinct_kept: "distinct cs \<Longrightarrow> distinct (kept r k cs)"
  by (simp add: kept_def distinct_butlast)

lemma rotation_new_group:
  assumes R: "rotation s s' h ts f f0 nf nm d"
  shows "group_ok (map_of (nodes s')) (max_rotations s) (group_id f)"
proof -
  let ?cs = "h # ts" and ?new = "next_inode s"
  let ?kp = "kept (max_rotations s) 0 ?cs" and ?dr = "dropped (max_rotations s) 0 ?cs"
  have dist: "distinct ?cs" and len: "length ?cs \<le> Suc (max_rotations s)"
    using rotation_chain [OF R] unfolding chain_def by blast+
  have kp: "set ?kp = set ?cs - ?dr" "distinct ?kp" "length ?kp \<le> max_rotations s"
    by (rule kept_set [OF dist] distinct_kept [OF dist] kept_length [OF _ len]; simp)+
  have "chain (map_of (nodes s')) (max_rotations s) (group_id f) (parent f) (?new # ?kp)"
    unfolding chain_def
    using rotated_new [OF rotation_rot [OF R]] rotated_seg [OF rotation_rot [OF R]] rotation_nf [OF R]
      kp rotation_new_apart [OF R] by auto
  moreover have "x \<in> set (?new # ?kp)"
    if x: "get_node s' x = Some (Node_File fx)" "group_id fx = group_id f" "\<not> unlinked fx" for x fx
  proof (cases "x \<in> set ?cs")
    case True
    with x rotation_chain_after [OF R True] kp(1) show ?thesis by auto
  next
    case False
    with rotation_file_after [OF R x(1)] rotation_all [OF R _ x(2,3)] show ?thesis by auto
  qed
  ultimately show ?thesis unfolding group_ok_def by blast
qed

lemma rotation_old_group:
  assumes R: "rotation s s' h ts f f0 nf nm d"
    and ok: "group_ok (map_of (nodes s)) (max_rotations s) g" and g: "g \<noteq> group_id f"
  shows "group_ok (map_of (nodes s')) (max_rotations s) g"
proof -
  obtain p c where c: "chain (map_of (nodes s)) (max_rotations s) g p c"
    and own: "\<And>x fx. get_node s x = Some (Node_File fx) \<Longrightarrow> group_id fx = g \<Longrightarrow> \<not> unlinked fx \<Longrightarrow> x \<in> set c"
    using ok unfolding group_ok_def by blast
  have "get_node s' x = get_node s x" if x: "x \<in> set c" for x
  proof (rule rotated_rest [OF rotation_rot [OF R]])
    obtain fx where fx: "get_node s x = Some (Node_File fx)" "group_id fx = g"
      using chain_file [OF c x] by blast
    then show "x \<notin> set (h # ts)" using rotation_chain_files [OF R, of x] g by auto
    show "x \<noteq> next_inode s" "x \<noteq> parent f" using fx rotation_fresh [OF R] rotation_dir [OF R] by auto
  qed
  then have "chain (map_of (nodes s')) (max_rotations s) g p c"
    using chain_cong [of c "map_of (nodes s')" "map_of (nodes s)"] c by blast
  moreover have "x \<in> set c"
    if x: "get_node s' x = Some (Node_File fx)" "group_id fx = g" "\<not> unlinked fx" for x fx
  proof -
    have "x \<notin> set (h # ts)" using x g rotation_chain_after [OF R, of x] by auto
    with rotation_file_after [OF R x(1)] x rotation_nf [OF R] g own show ?thesis by auto
  qed
  ultimately show ?thesis unfolding group_ok_def by blast
qed

lemma rotation_groups_after:
  assumes R: "rotation s s' h ts f f0 nf nm d"
  shows "groups_ok s'"
proof -
  note gf = groups_ok_file [OF rotation_groups [OF R]]
  have "group_id f' < length (group_names s) \<and> (unlinked f' \<longrightarrow> read_only f')"
    if x: "get_node s' x = Some (Node_File f')" for x f'
  proof (cases "x \<in> set (h # ts)")
    case True
    with x rotation_chain_after [OF R True] gf [OF rotation_head(1) [OF R]] rotation_head(3) [OF R]
    show ?thesis by auto
  next
    case False
    with rotation_file_after [OF R x] gf gf [OF rotation_head(1) [OF R]] rotation_head(3) [OF R] rotation_nf [OF R]
    show ?thesis by auto
  qed
  moreover have "group_ok (map_of (nodes s')) (max_rotations s) g" if "g < length (group_names s)" for g
    using groups_ok_group [OF rotation_groups [OF R] that] rotation_old_group [OF R] rotation_new_group [OF R]
    by (cases "g = group_id f") auto
  ultimately show ?thesis using rotation_groups [OF R] unfolding groups_ok_def rotation_frame [OF R] by auto
qed

lemma rotation_dir_after:
  assumes R: "rotation s s' h ts f f0 nf nm d" and p: "get_node s' p = Some (Node_Directory nm' d')"
  shows "p = parent f \<and> nm' = nm \<and>
      d' = d\<lparr>children := filter (\<lambda>x. x \<notin> dropped (max_rotations s) 0 (h # ts)) (insort_insert (next_inode s) (children d))\<rparr> \<or>
    p \<noteq> parent f \<and> get_node s p = Some (Node_Directory nm' d')"
proof (cases "p = parent f")
  case True
  with p rotated_dir [OF rotation_rot [OF R]] show ?thesis by simp
next
  case False
  have "p \<notin> set (h # ts)" using p rotation_chain_after [OF R, of p] by auto
  moreover have "p \<noteq> next_inode s" using p rotated_new [OF rotation_rot [OF R]] by auto
  ultimately show ?thesis using False p rotated_rest [OF rotation_rot [OF R], of p] by simp
qed

text \<open>A child stays a child unless it was dropped.\<close>

lemma rotation_child_after:
  assumes R: "rotation s s' h ts f f0 nf nm d" and c: "child_ok (map_of (nodes s)) q x"
    and x: "x \<notin> dropped (max_rotations s) 0 (h # ts)"
  shows "child_ok (map_of (nodes s')) q x"
proof (cases "x \<in> set (h # ts)")
  case True
  with rotation_chain_after [OF R True] x rotation_chain_files [OF R True] c show ?thesis
    unfolding child_ok_def by auto
next
  case False
  have "x \<noteq> next_inode s" using c rotation_fresh [OF R] by (auto simp: child_ok_def)
  then show ?thesis
    using c False rotation_dir [OF R] rotated_dir [OF rotation_rot [OF R]]
      rotated_rest [OF rotation_rot [OF R] False] by (cases "x = parent f") (auto simp: child_ok_def)
qed

lemma rotation_listed_after:
  assumes R: "rotation s s' h ts f f0 nf nm d" and x: "get_node s' x = Some (Node_File f')" "\<not> unlinked f'"
  shows "listed (map_of (nodes s')) (parent f') x"
proof -
  note T = rotation_tree [OF R] and rot = rotation_rot [OF R]
  let ?dr = "dropped (max_rotations s) 0 (h # ts)"
  have in_dir: "listed (map_of (nodes s')) (parent f) y"
    if "y \<in> set (children d) \<or> y = next_inode s" "y \<notin> ?dr" for y
    using that rotated_dir [OF rot] by (auto simp: listed_def set_insort_insert)
  have dr: "?dr \<subseteq> set (h # ts)" by (rule dropped_subset) simp
  consider "x = next_inode s" "parent f' = parent f" | "x \<in> set (h # ts)"
    | "x \<notin> set (h # ts)" "get_node s x = Some (Node_File f')"
    using rotation_file_after [OF R x(1)] rotation_nf [OF R] by auto
  then show ?thesis
  proof cases
    case 1
    then show ?thesis using in_dir dr rotation_new_apart [OF R] by auto
  next
    case 2
    obtain fx where fx: "get_node s x = Some (Node_File fx)" "parent fx = parent f" "\<not> unlinked fx"
      using rotation_chain_files [OF R 2] by blast
    have "x \<in> set (children d)"
      using tree_ok_listed [OF T fx(1,3)] fx(2) rotation_dir [OF R] by (auto simp: listed_def)
    then show ?thesis using in_dir rotation_chain_after [OF R 2] x by auto
  next
    case 3
    have l: "listed (map_of (nodes s)) (parent f') x" by (rule tree_ok_listed [OF T 3(2) x(2)])
    show ?thesis
    proof (cases "parent f' = parent f")
      case True
      with l 3 dr in_dir rotation_dir [OF R] show ?thesis by (auto simp: listed_def)
    next
      case False
      from l obtain nq dq where q: "get_node s (parent f') = Some (Node_Directory nq dq)" "x \<in> set (children dq)"
        by (auto simp: listed_def)
      have "parent f' \<notin> set (h # ts)" "parent f' \<noteq> next_inode s"
        using q rotation_chain_files [OF R, of "parent f'"] rotation_fresh [OF R] by auto
      with q False rotated_rest [OF rot, of "parent f'"] show ?thesis by (auto simp: listed_def)
    qed
  qed
qed

lemma dir_children_ok:
  assumes "sorted xs" "distinct xs"
  shows "sorted (filter P (insort_insert (n::nat) xs))" "distinct (filter P (insort_insert n xs))"
  using assms by (simp_all add: sorted_insort_insert distinct_insort_insert sorted_wrt_filter)

lemma rotation_below_after:
  assumes R: "rotation s s' h ts f f0 nf nm d" and i: "get_node s' i = Some n"
  shows "i < next_inode s'"
proof (cases "i = next_inode s")
  case True
  then show ?thesis by (simp add: rotation_frame [OF R])
next
  case False
  have "get_node s i \<noteq> None"
  proof (cases "i \<in> set (h # ts) \<or> i = parent f")
    case True
    then show ?thesis using rotation_chain_files [OF R, of i] rotation_dir [OF R] by auto
  next
    case no: False
    then show ?thesis using i False rotated_rest [OF rotation_rot [OF R], of i] by auto
  qed
  then have "i < next_inode s" using tree_ok_below [OF rotation_tree [OF R]] by blast
  then show ?thesis by (simp add: rotation_frame [OF R])
qed

lemma rotation_tree_after:
  assumes R: "rotation s s' h ts f f0 nf nm d"
  shows "tree_ok s'"
  unfolding tree_ok_def
proof (intro conjI allI impI)
  note T = rotation_tree [OF R] and rot = rotation_rot [OF R]
  let ?dr = "dropped (max_rotations s) 0 (h # ts)"
  have dr: "?dr \<subseteq> set (h # ts)" by (rule dropped_subset) simp
  show "distinct_nodes s'"
    using nodes_only_distinct [OF rotated_only [OF rot]] tree_ok_distinct [OF T] by (simp add: distinct_nodes_def)
  show "i < next_inode s'" if "get_node s' i = Some n" for i n
    by (rule rotation_below_after [OF R that])
  show "\<exists>nm d. get_node s' (root_inode s') = Some (Node_Directory nm d)"
  proof -
    obtain nr dr where r: "get_node s (root_inode s) = Some (Node_Directory nr dr)"
      using T by (auto simp: tree_ok_def)
    have "root_inode s \<notin> set (h # ts)" "root_inode s \<noteq> next_inode s"
      using r rotation_chain_files [OF R, of "root_inode s"] rotation_fresh [OF R] by auto
    then show ?thesis
      using r rotated_dir [OF rot] rotated_rest [OF rot, of "root_inode s"]
      by (cases "root_inode s = parent f") (auto simp: rotation_frame [OF R])
  qed
  show "dir_ok (map_of (nodes s')) p d'" if p: "get_node s' p = Some (Node_Directory nm' d')" for p nm' d'
    using rotation_dir_after [OF R p]
  proof
    assume p': "p = parent f \<and> nm' = nm \<and>
      d' = d\<lparr>children := filter (\<lambda>x. x \<notin> ?dr) (insort_insert (next_inode s) (children d))\<rparr>"
    have ok: "dir_ok (map_of (nodes s)) (parent f) d" by (rule tree_ok_dir [OF T rotation_dir [OF R]])
    have "child_ok (map_of (nodes s')) (parent f) (next_inode s)"
      using rotated_new [OF rot] rotation_nf [OF R] by (simp add: child_ok_def)
    with ok p' rotation_child_after [OF R] show ?thesis
      by (auto simp: dir_ok_def dir_children_ok set_insort_insert)
  next
    assume p': "p \<noteq> parent f \<and> get_node s p = Some (Node_Directory nm' d')"
    then have ok: "dir_ok (map_of (nodes s)) p d'" using tree_ok_dir [OF T] by blast
    have "x \<notin> ?dr" if "x \<in> set (children d')" for x
    proof
      assume "x \<in> ?dr"
      then obtain fx where "get_node s x = Some (Node_File fx)" "parent fx = parent f"
        using rotation_chain_files [OF R, of x] dr by blast
      with that ok p' show False by (auto simp: dir_ok_def child_ok_def)
    qed
    with ok rotation_child_after [OF R] show ?thesis by (auto simp: dir_ok_def)
  qed
  show "listed (map_of (nodes s')) (parent f') x"
    if x: "get_node s' x = Some (Node_File f')" "\<not> unlinked f'" for x f'
    by (rule rotation_listed_after [OF R x])
qed

text \<open>The directories, by name and parent: no operation changes them once the tree is built.\<close>

definition dirs :: "(Inode \<Rightarrow> Node option) \<Rightarrow> Inode \<Rightarrow> (string \<times> Inode option) option" where
  "dirs m x = (case m x of Some (Node_Directory nm d) \<Rightarrow> Some (nm, dir_parent d) | _ \<Rightarrow> None)"

lemma dirs_upd_file [simp]: "m x = Some (Node_File f) \<Longrightarrow> dirs (m(x \<mapsto> Node_File f')) = dirs m"
  by (auto simp: dirs_def)

lemma dirs_Some: "dirs m x = Some (nm, p) \<longleftrightarrow> (\<exists>d. m x = Some (Node_Directory nm d) \<and> dir_parent d = p)"
  by (auto simp: dirs_def split: option.splits Node.splits)

lemma dirs_eqI:
  assumes "\<And>x nm p. dirs m' x = Some (nm, p) \<Longrightarrow> dirs m x = Some (nm, p)"
    and "\<And>x nm p. dirs m x = Some (nm, p) \<Longrightarrow> dirs m' x = Some (nm, p)"
  shows "dirs m' = dirs m"
proof
  fix x
  show "dirs m' x = dirs m x"
    using assms [of x] by (cases "dirs m x") (metis not_Some_eq surj_pair)+
qed

lemma rotation_dirs:
  assumes R: "rotation s s' h ts f f0 nf nm d"
  shows "dirs (map_of (nodes s')) = dirs (map_of (nodes s))"
proof (rule dirs_eqI)
  show "dirs (map_of (nodes s)) x = Some (nm', p)" if "dirs (map_of (nodes s')) x = Some (nm', p)" for x nm' p
  proof -
    from that obtain d' where d': "get_node s' x = Some (Node_Directory nm' d')" "dir_parent d' = p"
      unfolding dirs_Some by blast
    then show ?thesis using rotation_dir_after [OF R d'(1)] rotation_dir [OF R] unfolding dirs_Some by auto
  qed
  show "dirs (map_of (nodes s')) x = Some (nm', p)" if dx: "dirs (map_of (nodes s)) x = Some (nm', p)" for x nm' p
  proof (cases "x = parent f")
    case True
    then show ?thesis using dx rotation_dir [OF R] rotated_dir [OF rotation_rot [OF R]] unfolding dirs_Some by auto
  next
    case False
    have "x \<notin> set (h # ts)" "x \<noteq> next_inode s"
      using dx rotation_chain_files [OF R, of x] rotation_fresh [OF R] unfolding dirs_Some by auto
    then show ?thesis using dx False rotated_rest [OF rotation_rot [OF R], of x] unfolding dirs_Some by auto
  qed
qed

end
