(* ===== verification/Logrotate_Time.thy ===== *)
theory Logrotate_Time
  imports Logrotate_Inv
begin

text \<open>
  The passage of time in the logrotate filesystem: how many bytes each file holds, how large
  a rotated file is, which handles are open, and that \<open>advance_time\<close> never panics and
  keeps all of it, tick by tick.
\<close>

section \<open>Bytes\<close>

text \<open>The rate at which files grow during tick \<open>t\<close>, and the bytes a file gains from tick \<open>a\<close> up to \<open>b\<close>.\<close>

definition rate_at :: "State \<Rightarrow> Tick \<Rightarrow> nat" where
  "rate_at s t = profile_rate (load_profile s) (t - initial_tick s)"

definition expected_bytes :: "State \<Rightarrow> Tick \<Rightarrow> Tick \<Rightarrow> nat" where
  "expected_bytes s a b = min (\<Sum>t = a..<b. rate_at s t) (umax 64)"

definition end_tick :: "File \<Rightarrow> Tick" where
  "end_tick f = (case read_only_since f of Some t \<Rightarrow> t | None \<Rightarrow> modified_tick f)"

lemma tick_rate_eq: "tick_rate s t = rate_at s (t - 1)"
  by (simp add: tick_rate_def rate_at_def diff_diff_add add.commute)

lemma profile_rate_mono: "a \<le> b \<Longrightarrow> profile_rate p a \<le> profile_rate p b"
  by (cases p) (auto intro: saturating_add_mono saturating_mul_mono)

lemma tick_rate_mono: "t \<le> t' \<Longrightarrow> tick_rate s t \<le> tick_rate s t'"
  unfolding tick_rate_def by (intro profile_rate_mono diff_le_mono)

lemma expected_bytes_Suc:
  "a \<le> b \<Longrightarrow> expected_bytes s a (Suc b) =
     saturating_add 64 (expected_bytes s a b) (saturating_mul 64 1 (rate_at s b))"
  by (simp add: expected_bytes_def saturating_add_def saturating_mul_def min_def)

lemma expected_bytes_empty [simp]: "expected_bytes s a a = 0"
  by (simp add: expected_bytes_def)

text \<open>
  A file holds exactly the bytes its life gave it; a rotated file is at least the rotation
  size and exceeds it by at most two ticks' worth; a file still being written is below the
  rotation size, or is no older than its first tick.
\<close>

definition file_timed :: "State \<Rightarrow> File \<Rightarrow> bool" where
  "file_timed s f \<longleftrightarrow>
     file_ok f \<and> created_tick f \<le> end_tick f \<and>
     bytes_written f = expected_bytes s (created_tick f) (end_tick f) \<and>
     (if read_only f
      then max_bytes_per_file s \<le> bytes_written f \<and> bytes_written f \<le> max_bytes_per_file s + 2 * bytes_per_tick f
      else bytes_written f < max_bytes_per_file s \<or> bytes_written f \<le> tick_rate s (modified_tick f))"

text \<open>Every file is so, and the files being written have reached the present, but those still to be processed in this tick.\<close>

definition files_ok :: "State \<Rightarrow> Inode set \<Rightarrow> bool" where
  "files_ok s todo \<longleftrightarrow> (\<forall>x f. get_node s x = Some (Node_File f) \<longrightarrow> file_timed s f \<and>
     (\<not> read_only f \<longrightarrow>
       (if x \<in> todo then Suc (modified_tick f) = now s \<and> bytes_per_tick f = tick_rate s (now s)
        else modified_tick f = now s)))"

lemma file_timed_core: "core f' = core f \<Longrightarrow> file_timed s f' = file_timed s f"
  using core_fields [of f' f] by (simp add: file_timed_def file_ok_def end_tick_def cong: option.case_cong)

lemma file_timed_frame:
  "load_profile s' = load_profile s \<Longrightarrow> initial_tick s' = initial_tick s \<Longrightarrow>
   max_bytes_per_file s' = max_bytes_per_file s \<Longrightarrow> file_timed s' f = file_timed s f"
  by (simp add: file_timed_def expected_bytes_def rate_at_def tick_rate_def)

lemma tick_rate_frame:
  "load_profile s' = load_profile s \<Longrightarrow> initial_tick s' = initial_tick s \<Longrightarrow> tick_rate s' = tick_rate s"
  by (simp add: tick_rate_def fun_eq_iff)

lemma File_new_timed [simp]: "file_timed s (File_new p g b t pr)"
  using File_new_ok [of p g b t pr] by (simp add: file_timed_def end_tick_def File_new_def)

text \<open>One tick of a file being written.\<close>

lemma file_advance_tick:
  assumes f: "file_timed s f" "\<not> read_only f" and t: "Suc (modified_tick f) = t"
    and rate: "bytes_per_tick f = tick_rate s t"
  defines "f' \<equiv> file_advance_time f t"
  shows "file_ok f' \<and> modified_tick f' = t \<and> created_tick f' \<le> t \<and>
     bytes_written f' = expected_bytes s (created_tick f') t \<and>
     bytes_written f' \<le> bytes_written f + tick_rate s t"
proof -
  have upd: "modified_tick f' = t" "bytes_written f' =
      saturating_add 64 (bytes_written f) (saturating_mul 64 1 (tick_rate s t))"
    using f t rate by (auto simp: f'_def file_advance_time_def)
  have ok: "file_ok f" and since: "end_tick f = modified_tick f"
    and acc: "bytes_written f = expected_bytes s (created_tick f) (modified_tick f)"
    and le: "created_tick f \<le> modified_tick f"
    using f by (auto simp: file_timed_def file_ok_def end_tick_def)
  have "rate_at s (modified_tick f) = tick_rate s t" using t by (auto simp: tick_rate_eq)
  then have "bytes_written f' = expected_bytes s (created_tick f) t"
    using upd(2) acc t expected_bytes_Suc [OF le, of s] by auto
  moreover have "saturating_mul 64 1 (tick_rate s t) \<le> tick_rate s t"
    by (simp add: saturating_mul_def)
  then have "bytes_written f' \<le> bytes_written f + tick_rate s t"
    using upd(2) saturating_add_le [of 64 "bytes_written f" "saturating_mul 64 1 (tick_rate s t)"] by linarith
  ultimately show ?thesis
    using file_advance_time_ok [OF ok, of t] upd(1) le t by (simp add: f'_def)
qed

lemma file_timed_continue:
  assumes "file_timed s f" "\<not> read_only f" "Suc (modified_tick f) = t" "bytes_per_tick f = tick_rate s t"
    and "bytes_written (file_advance_time f t) < max_bytes_per_file s"
  shows "file_timed s (file_advance_time f t)"
  using file_advance_tick [OF assms(1-4)] assms(1,2,5)
  by (auto simp: file_timed_def end_tick_def file_ok_def)

lemma file_timed_rotate:
  assumes f: "file_timed s f" "\<not> read_only f" "Suc (modified_tick f) = t" "bytes_per_tick f = tick_rate s t"
    and full: "max_bytes_per_file s \<le> bytes_written (file_advance_time f t)"
  shows "file_timed s (file_set_read_only (file_advance_time f t) t)"
proof -
  let ?f = "file_advance_time f t"
  note adv = file_advance_tick [OF f]
  have "bytes_written f < max_bytes_per_file s \<or> bytes_written f \<le> tick_rate s t"
    using f tick_rate_mono [of "modified_tick f" t s] by (auto simp: file_timed_def)
  then have "bytes_written ?f \<le> max_bytes_per_file s + 2 * bytes_per_tick ?f"
    using adv f(4) by auto
  moreover have "file_ok (file_set_read_only ?f t)"
    by (rule file_set_read_only_ok) (use adv in simp)
  ultimately show ?thesis
    using adv full by (simp add: file_timed_def file_set_read_only_def end_tick_def)
qed

lemma new_head_timed:
  assumes "0 < t"
  shows "file_timed s (new_head t (tick_rate s t) h f) \<and> modified_tick (new_head t (tick_rate s t) h f) = t \<and>
    open_handles (new_head t (tick_rate s t) h f) = 0"
proof -
  let ?f = "File_new (parent f) (group_id f) (tick_rate s t) (t - 1) (Some h)"
  have adv: "file_ok (new_head t (tick_rate s t) h f) \<and> modified_tick (new_head t (tick_rate s t) h f) = t \<and>
     created_tick (new_head t (tick_rate s t) h f) \<le> t \<and>
     bytes_written (new_head t (tick_rate s t) h f) = expected_bytes s (created_tick (new_head t (tick_rate s t) h f)) t \<and>
     bytes_written (new_head t (tick_rate s t) h f) \<le> 0 + tick_rate s t"
    using file_advance_tick [of s ?f t] assms by (simp add: new_head_def) (simp add: File_new_def)
  then show ?thesis by (auto simp: file_timed_def end_tick_def) (auto simp: new_head_def File_new_def)
qed

section \<open>Handles\<close>

definition handle_count :: "State \<Rightarrow> Inode \<Rightarrow> nat" where
  "handle_count s i = length (filter (\<lambda>(h, x). x = i) (valid_file_handles s))"

text \<open>Every valid handle refers to a file that exists, and each file counts its handles.\<close>

definition handles_ok :: "State \<Rightarrow> bool" where
  "handles_ok s \<longleftrightarrow>
     distinct (map fst (valid_file_handles s)) \<and>
     (\<forall>h i. (h, i) \<in> set (valid_file_handles s) \<longrightarrow>
        h < next_file_handle s \<and> (\<exists>f. get_node s i = Some (Node_File f))) \<and>
     (\<forall>i f. get_node s i = Some (Node_File f) \<longrightarrow> open_handles f = handle_count s i)"

lemma handles_ok_file: "handles_ok s \<Longrightarrow> get_node s i = Some (Node_File f) \<Longrightarrow> open_handles f = handle_count s i"
  by (simp add: handles_ok_def)

lemma handles_ok_exists: "handles_ok s \<Longrightarrow> (h, i) \<in> set (valid_file_handles s) \<Longrightarrow> \<exists>f. get_node s i = Some (Node_File f)"
  by (auto simp: handles_ok_def)

lemma handle_count_pos: "0 < handle_count s i \<longleftrightarrow> (\<exists>h. (h, i) \<in> set (valid_file_handles s))"
  by (auto simp: handle_count_def filter_empty_conv)

text \<open>Files may come, without handles, and those with handles must stay.\<close>

lemma handles_ok_evolve:
  assumes ok: "handles_ok s"
    and stay: "\<And>x f. get_node s x = Some (Node_File f) \<Longrightarrow> 0 < open_handles f \<Longrightarrow> \<exists>f'. get_node s' x = Some (Node_File f')"
    and from_old: "\<And>x f'. get_node s' x = Some (Node_File f') \<Longrightarrow>
      (\<exists>f. get_node s x = Some (Node_File f) \<and> open_handles f' = open_handles f) \<or>
      get_node s x = None \<and> open_handles f' = 0"
    and same: "valid_file_handles s' = valid_file_handles s" "next_file_handle s' = next_file_handle s"
  shows "handles_ok s'"
proof -
  have count: "handle_count s' i = handle_count s i" for i by (simp add: handle_count_def same)
  have "\<exists>f. get_node s' i = Some (Node_File f)" if hi: "(h, i) \<in> set (valid_file_handles s)" for h i
  proof -
    obtain f where f: "get_node s i = Some (Node_File f)" using handles_ok_exists [OF ok hi] by blast
    moreover have "0 < open_handles f"
      using handles_ok_file [OF ok f] handle_count_pos [of s i] hi by auto
    ultimately show ?thesis by (rule stay)
  qed
  moreover have "open_handles f' = handle_count s i" if f': "get_node s' i = Some (Node_File f')" for i f'
    using from_old [OF f']
  proof
    assume "\<exists>f. get_node s i = Some (Node_File f) \<and> open_handles f' = open_handles f"
    then show ?thesis using handles_ok_file [OF ok] by auto
  next
    assume none: "get_node s i = None \<and> open_handles f' = 0"
    then have "handle_count s i = 0"
      using handle_count_pos [of s i] handles_ok_exists [OF ok] by fastforce
    with none show ?thesis by simp
  qed
  ultimately show ?thesis using ok by (auto simp: handles_ok_def count same)
qed

section \<open>One file in one tick\<close>

text \<open>The files of a state after a rotation, by what they were before.\<close>

lemma rotation_core:
  assumes R: "rotation s s' h ts f f0 nf nm d" and x: "get_node s' x = Some (Node_File f')"
  shows "x = next_inode s \<and> core f' = core nf \<or> x = h \<and> core f' = core f \<or>
    x \<noteq> h \<and> (\<exists>fx. get_node s x = Some (Node_File fx) \<and> core f' = core fx)"
proof (cases "x \<in> set (h # ts)")
  case True
  obtain fx fx' where fx: "if x = h then fx = f else get_node s x = Some (Node_File fx)"
    and "get_node s' x = Some (Node_File fx')" "core fx' = core fx"
    by (rule rotated_chain [OF rotation_rot [OF R] True])
  with x show ?thesis by (auto split: if_splits)
next
  case False
  then show ?thesis using rotation_file_after [OF R x] by auto
qed

lemma rotation_stay:
  assumes R: "rotation s s' h ts f f0 nf nm d" and x: "get_node s x = Some (Node_File fx)"
  shows "\<exists>f'. get_node s' x = Some (Node_File f')"
proof (cases "x \<in> set (h # ts)")
  case True
  then show ?thesis using rotation_chain_after [OF R True] by blast
next
  case False
  then show ?thesis
    using x rotated_rest [OF rotation_rot [OF R] False] rotation_fresh [OF R] rotation_dir [OF R] by fastforce
qed

definition active :: "State \<Rightarrow> Inode \<Rightarrow> bool" where
  "active s x \<longleftrightarrow> (\<exists>f. get_node s x = Some (Node_File f) \<and> \<not> read_only f)"

text \<open>What one inode's turn keeps, with \<open>todo\<close> still to come.\<close>

definition mid_tick :: "State \<Rightarrow> Inode set \<Rightarrow> bool" where
  "mid_tick s todo \<longleftrightarrow> tree_ok s \<and> groups_ok s \<and> files_ok s todo \<and> handles_ok s \<and> 0 < now s"

definition turn :: "State \<Rightarrow> State \<Rightarrow> Inode \<Rightarrow> bool" where
  "turn s s' i \<longleftrightarrow>
     (\<exists>ns ni. s' = s\<lparr>nodes := ns, next_inode := ni\<rparr>) \<and>
     next_inode s \<le> next_inode s' \<and> next_inode s' \<le> next_inode s + (if active s i then 1 else 0) \<and>
     (\<forall>x. get_node s x \<noteq> None \<longrightarrow> get_node s' x \<noteq> None) \<and>
     (\<forall>x. x \<noteq> i \<longrightarrow> get_node s x \<noteq> None \<longrightarrow> active s' x = active s x) \<and>
     dirs (map_of (nodes s')) = dirs (map_of (nodes s))"

lemma turn_frame:
  assumes "turn s s' i"
  shows "now s' = now s" "load_profile s' = load_profile s" "initial_tick s' = initial_tick s"
    "max_bytes_per_file s' = max_bytes_per_file s" "group_names s' = group_names s" "max_rotations s' = max_rotations s"
    "valid_file_handles s' = valid_file_handles s" "next_file_handle s' = next_file_handle s"
    "block_cache s' = block_cache s" "root_inode s' = root_inode s"
  using assms by (auto simp: turn_def)

lemma mid_tickD:
  assumes "mid_tick s todo"
  shows mid_tick_tree: "tree_ok s" and mid_tick_groups: "groups_ok s" and mid_tick_files: "files_ok s todo"
    and mid_tick_handles: "handles_ok s" and mid_tick_now: "0 < now s"
  using assms by (simp_all add: mid_tick_def)

lemma mid_tick_shape:
  assumes mid: "mid_tick s todo"
    and f: "get_node s i = Some (Node_File f)" "same_file_shape f f'" "open_handles f' = open_handles f"
    and files: "files_ok (put_node i (Node_File f') s) todo'"
  shows "mid_tick (put_node i (Node_File f') s) todo' \<and> turn s (put_node i (Node_File f') s) i"
proof -
  let ?s = "put_node i (Node_File f') s"
  have sh: "same_shape (map_of (nodes s)) (map_of (nodes ?s))"
    unfolding map_simps by (rule same_shape_upd [where f = f]) (use f in auto)
  have "tree_ok ?s"
    by (rule tree_ok_shape [OF mid_tick_tree [OF mid] sh])
      (simp_all add: nodes_only_distinct [OF nodes_only_put_node] tree_ok_distinct [OF mid_tick_tree [OF mid]])
  moreover have "groups_ok ?s" by (rule groups_ok_shape [OF mid_tick_groups [OF mid] sh]) simp_all
  moreover have "handles_ok ?s"
    by (rule handles_ok_evolve [OF mid_tick_handles [OF mid]])
      (use f in \<open>auto simp: map_simps split: if_splits\<close>)
  moreover have "\<exists>ns ni. ?s = s\<lparr>nodes := ns, next_inode := ni\<rparr>"
    by (rule exI [of _ "nodes ?s"], rule exI [of _ "next_inode s"]) (simp add: put_node_def)
  then have "turn s ?s i" unfolding turn_def active_def map_simps using f(1) by simp
  ultimately show ?thesis using mid files by (simp add: mid_tick_def)
qed

lemma files_ok_file: "files_ok s todo \<Longrightarrow> get_node s x = Some (Node_File f) \<Longrightarrow> file_timed s f"
  by (auto simp: files_ok_def)

lemma files_ok_todo:
  "files_ok s todo \<Longrightarrow> get_node s x = Some (Node_File f) \<Longrightarrow> \<not> read_only f \<Longrightarrow> x \<in> todo \<Longrightarrow>
     Suc (modified_tick f) = now s \<and> bytes_per_tick f = tick_rate s (now s)"
  by (auto simp: files_ok_def)

text \<open>A file that does not fill up.\<close>

lemma files_ok_put:
  assumes ok: "files_ok s (insert i todo)" and f: "file_timed s f" "\<not> read_only f \<Longrightarrow> modified_tick f = now s"
    and "i \<notin> todo"
  shows "files_ok (put_node i (Node_File f) s) todo"
  using assms file_timed_frame [of "put_node i (Node_File f) s" s] tick_rate_frame [of "put_node i (Node_File f) s" s]
  by (auto simp: files_ok_def map_simps)

lemma rotation_files_ok:
  assumes R: "rotation s s' h ts f f0 nf nm d" and ok: "files_ok s (insert h todo)" and h: "h \<notin> todo"
    and todo: "\<And>x. x \<in> todo \<Longrightarrow> get_node s x \<noteq> None"
    and f: "file_timed s f" and nf: "file_timed s nf" "modified_tick nf = now s"
  shows "files_ok s' todo"
  unfolding files_ok_def
proof (intro allI impI)
  fix x f'
  assume x: "get_node s' x = Some (Node_File f')"
  have tm: "file_timed s' fx = file_timed s fx" for fx
    by (intro file_timed_frame; simp add: rotation_frame [OF R])
  have tr: "tick_rate s' = tick_rate s"
    by (intro tick_rate_frame; simp add: rotation_frame [OF R])
  have new: "next_inode s \<notin> todo" using todo rotation_fresh [OF R] by blast
  from rotation_core [OF R x] consider "x = next_inode s" "core f' = core nf" | "x = h" "core f' = core f"
    | fx where "x \<noteq> h" "get_node s x = Some (Node_File fx)" "core f' = core fx" by blast
  then show "file_timed s' f' \<and> (\<not> read_only f' \<longrightarrow>
      (if x \<in> todo then Suc (modified_tick f') = now s' \<and> bytes_per_tick f' = tick_rate s' (now s')
       else modified_tick f' = now s'))"
  proof cases
    case 1
    then show ?thesis
      using nf new file_timed_core [OF 1(2)] core_fields [OF 1(2)] by (simp add: tm rotation_frame [OF R])
  next
    case 2
    then show ?thesis
      using f rotation_head(4) [OF R] file_timed_core [OF 2(2)] core_fields [OF 2(2)] by (simp add: tm)
  next
    case 3
    then show ?thesis
      using ok h file_timed_core [OF 3(3)] core_fields [OF 3(3)]
      by (auto simp: tm tr rotation_frame [OF R] files_ok_def)
  qed
qed

lemma rotation_handles_ok:
  assumes R: "rotation s s' h ts f f0 nf nm d" and ok: "handles_ok s"
    and "open_handles f = open_handles f0" "open_handles nf = 0"
  shows "handles_ok s'"
proof (rule handles_ok_evolve [OF ok])
  show "\<exists>f'. get_node s' x = Some (Node_File f')" if "get_node s x = Some (Node_File fx)" for x fx
    by (rule rotation_stay [OF R that])
  show "(\<exists>fx. get_node s x = Some (Node_File fx) \<and> open_handles f' = open_handles fx) \<or>
      get_node s x = None \<and> open_handles f' = 0" if "get_node s' x = Some (Node_File f')" for x f'
    using rotation_core [OF R that] core_fields(12) assms(3,4) rotation_head(1) [OF R] rotation_fresh [OF R]
    by metis
qed (simp_all add: rotation_frame [OF R])

lemma rotation_turn:
  assumes R: "rotation s s' h ts f f0 nf nm d" and act: "\<not> read_only f0"
  shows "turn s s' h"
proof -
  have "s' = s\<lparr>next_inode := Suc (next_inode s), nodes := nodes s'\<rparr>"
    using rotated_only [OF rotation_rot [OF R]] by (simp add: nodes_only_def)
  also have "\<dots> = s\<lparr>nodes := nodes s', next_inode := Suc (next_inode s)\<rparr>" by simp
  finally have "\<exists>ns ni. s' = s\<lparr>nodes := ns, next_inode := ni\<rparr>" by blast
  moreover have "get_node s' x \<noteq> None" if "get_node s x \<noteq> None" for x
    using that rotation_chain_after [OF R, of x] rotated_rest [OF rotation_rot [OF R], of x]
      rotated_dir [OF rotation_rot [OF R]] rotation_fresh [OF R] by force
  moreover have "active s' x = active s x" if x: "x \<noteq> h" "get_node s x \<noteq> None" for x
  proof -
    have "x \<noteq> next_inode s" using x rotation_fresh [OF R] by auto
    then have "core f' = core fx" if "get_node s' x = Some (Node_File f')" "get_node s x = Some (Node_File fx)" for f' fx
      using rotation_core [OF R that(1)] x that(2) by auto
    then show ?thesis
      using rotation_stay [OF R, of x] rotation_core [OF R, of x] x \<open>x \<noteq> next_inode s\<close> core_fields(9)
      unfolding active_def by metis
  qed
  moreover have "active s h" using rotation_head(1) [OF R] act by (auto simp: active_def)
  ultimately show ?thesis using rotation_dirs [OF R] by (auto simp: turn_def rotation_frame [OF R])
qed

text \<open>One inode's turn: it never panics, whatever the file does.\<close>

lemma process_rotation:
  assumes mid: "mid_tick s (insert i todo)" and i: "i \<notin> todo"
    and todo: "\<And>x. x \<in> todo \<Longrightarrow> get_node s x \<noteq> None"
    and f: "get_node s i = Some (Node_File f)" "\<not> read_only f"
    and full: "max_bytes_per_file s \<le> bytes_written (file_advance_time f (now s))"
    and room: "next_inode s < umax 64"
  shows "\<exists>s'. process_inode (now s) (tick_rate s (now s)) i s = Some s' \<and> mid_tick s' todo \<and> turn s s' i"
proof -
  let ?t = "now s"
  let ?f = "file_set_read_only (file_advance_time f ?t) ?t" and ?nf = "new_head ?t (tick_rate s ?t) i (file_set_read_only (file_advance_time f ?t) ?t)"
  note tree = mid_tick_tree [OF mid] and groups = mid_tick_groups [OF mid] and files = mid_tick_files [OF mid]
  have shape: "parent ?f = parent f" "group_id ?f = group_id f" "ordinal ?f = ordinal f" "read_only ?f"
    "peer ?f = peer f" "unlinked ?f = unlinked f" "open_handles ?f = open_handles f"
    by (simp_all add: file_set_read_only_def)
  obtain ts where ch: "chain (map_of (nodes s)) (max_rotations s) (group_id f) (parent f) (i # ts)"
    and all: "\<And>y fy. get_node s y = Some (Node_File fy) \<Longrightarrow> group_id fy = group_id f \<Longrightarrow> \<not> unlinked fy \<Longrightarrow> y \<in> set (i # ts)"
    by (rule active_is_head [OF groups f]) blast
  have head: "ordinal f = 0" "\<not> unlinked f" "peer f = link ts" using ch f by (auto simp: chain_def)
  obtain nm d where dir: "get_node s (parent f) = Some (Node_Directory nm d)"
    using tree_ok_listed [OF tree f(1) head(2)] by (auto simp: listed_def)
  obtain s' where run: "rotate ?t (tick_rate s ?t) i ?f (put_node i (Node_File ?f) s) = Some s'"
    and rot: "rotated s s' i ts ?f ?nf nm d"
    using rotate_effect [OF tree groups, of ?f i ts nm d ?t] ch head dir room shape by auto
  have R: "rotation s s' i ts ?f f ?nf nm d"
    unfolding rotation_def using tree groups ch all f(1) shape dir rot by auto
  have tick: "Suc (modified_tick f) = ?t" "bytes_per_tick f = tick_rate s ?t"
    using files_ok_todo [OF files f] by auto
  have timed: "file_timed s ?f"
    by (rule file_timed_rotate [OF files_ok_file [OF files f(1)] f(2) tick full])
  note nt = new_head_timed [OF mid_tick_now [OF mid], of s i ?f]
  have "process_inode ?t (tick_rate s ?t) i s = Some s'"
    using f full head(1) run by (simp add: process_inode_def Let_def not_less)
  moreover have "files_ok s' todo"
    by (rule rotation_files_ok [OF R files i todo timed]) (use nt in auto)
  moreover have "handles_ok s'"
    by (rule rotation_handles_ok [OF R mid_tick_handles [OF mid]]) (use nt shape in auto)
  ultimately show ?thesis
    using rotation_tree_after [OF R] rotation_groups_after [OF R] rotation_turn [OF R f(2)] mid_tick_now [OF mid]
    by (auto simp: mid_tick_def rotation_frame [OF R])
qed

lemma turn_refl [simp]: "turn s s i"
proof -
  have "\<exists>ns ni. s = s\<lparr>nodes := ns, next_inode := ni\<rparr>"
    by (rule exI [of _ "nodes s"], rule exI [of _ "next_inode s"]) simp
  then show ?thesis by (simp add: turn_def)
qed

lemma mid_tick_idle:
  assumes "mid_tick s (insert i todo)" "\<not> active s i"
  shows "mid_tick s todo"
  using assms unfolding mid_tick_def files_ok_def active_def by (metis insert_iff)

lemma process_inode_turn:
  assumes mid: "mid_tick s (insert i todo)" and i: "i \<notin> todo" "get_node s i \<noteq> None"
    and todo: "\<And>x. x \<in> todo \<Longrightarrow> get_node s x \<noteq> None"
    and room: "active s i \<Longrightarrow> next_inode s < umax 64"
  shows "\<exists>s'. process_inode (now s) (tick_rate s (now s)) i s = Some s' \<and> mid_tick s' todo \<and> turn s s' i"
proof (cases "active s i")
  case False
  then have "process_inode (now s) (tick_rate s (now s)) i s = Some s"
    using i(2) by (auto simp: process_inode_def active_def split: Node.splits)
  with mid_tick_idle [OF mid False] show ?thesis by auto
next
  case True
  then obtain f where f: "get_node s i = Some (Node_File f)" "\<not> read_only f" by (auto simp: active_def)
  show ?thesis
  proof (cases "max_bytes_per_file s \<le> bytes_written (file_advance_time f (now s))")
    case full: True
    show ?thesis by (rule process_rotation [OF mid i(1) todo f full room [OF True]])
  next
    case False
    let ?f = "file_advance_time f (now s)"
    note files = mid_tick_files [OF mid]
    have tick: "Suc (modified_tick f) = now s" "bytes_per_tick f = tick_rate s (now s)"
      using files_ok_todo [OF files f] by auto
    have timed: "file_timed s ?f"
      by (rule file_timed_continue [OF files_ok_file [OF files f(1)] f(2) tick]) (use False in simp)
    have "modified_tick ?f = now s" using file_advance_tick [OF files_ok_file [OF files f(1)] f(2) tick] by simp
    then have "files_ok (put_node i (Node_File ?f) s) todo"
      by (intro files_ok_put [OF files timed _ i(1)])
    moreover have "process_inode (now s) (tick_rate s (now s)) i s = Some (put_node i (Node_File ?f) s)"
      using f False by (simp add: process_inode_def Let_def)
    ultimately show ?thesis using mid_tick_shape [OF mid f(1), of ?f todo] by (simp add: same_file_shape_def)
  qed
qed

section \<open>A whole tick\<close>

text \<open>States that differ in nodes, inode counter and clock only, with the same directories.\<close>

definition later :: "State \<Rightarrow> State \<Rightarrow> bool" where
  "later s s' \<longleftrightarrow> (\<exists>ns ni t. s' = s\<lparr>nodes := ns, next_inode := ni, now := t\<rparr>) \<and>
     dirs (map_of (nodes s')) = dirs (map_of (nodes s))"

lemma laterI:
  "s' = s\<lparr>nodes := nodes s', next_inode := next_inode s', now := now s'\<rparr> \<Longrightarrow>
   dirs (map_of (nodes s')) = dirs (map_of (nodes s)) \<Longrightarrow> later s s'"
  unfolding later_def by blast

lemma later_refl [simp]: "later s s"
  by (rule laterI) simp_all

lemma later_trans: "later s s' \<Longrightarrow> later s' s'' \<Longrightarrow> later s s''"
  unfolding later_def [of s s'] later_def [of s' s''] by (elim exE conjE, rule laterI) simp_all

lemma later_frame:
  assumes "later s s'"
  shows "load_profile s' = load_profile s" "initial_tick s' = initial_tick s"
    "max_bytes_per_file s' = max_bytes_per_file s" "group_names s' = group_names s" "max_rotations s' = max_rotations s"
    "valid_file_handles s' = valid_file_handles s" "next_file_handle s' = next_file_handle s"
    "block_cache s' = block_cache s" "root_inode s' = root_inode s"
    "dirs (map_of (nodes s')) = dirs (map_of (nodes s))"
  using assms by (auto simp: later_def)

lemma turn_later: "turn s s' i \<Longrightarrow> later s s'"
  unfolding turn_def by (auto intro!: laterI)

lemma turn_active: "turn s s' i \<Longrightarrow> x \<noteq> i \<Longrightarrow> get_node s x \<noteq> None \<Longrightarrow> active s' x = active s x"
  by (simp add: turn_def)

lemma process_inodes_total:
  "mid_tick s (set is) \<Longrightarrow> distinct is \<Longrightarrow> (\<And>x. x \<in> set is \<Longrightarrow> get_node s x \<noteq> None) \<Longrightarrow>
   next_inode s + length (filter (active s) is) \<le> umax 64 \<Longrightarrow>
   \<exists>s'. process_inodes (now s) (tick_rate s (now s)) is s = Some s' \<and> mid_tick s' {} \<and> later s s' \<and>
     now s' = now s \<and> next_inode s' \<le> next_inode s + length (filter (active s) is)"
proof (induction "is" arbitrary: s)
  case Nil
  then show ?case by simp
next
  case (Cons i "is")
  have "\<exists>s1. process_inode (now s) (tick_rate s (now s)) i s = Some s1 \<and> mid_tick s1 (set is) \<and> turn s s1 i"
    by (rule process_inode_turn) (use Cons.prems in auto)
  then obtain s1 where s1: "process_inode (now s) (tick_rate s (now s)) i s = Some s1" "mid_tick s1 (set is)"
    "turn s s1 i" by blast
  have act: "filter (active s1) is = filter (active s) is"
    by (intro filter_cong refl turn_active [OF s1(3)]) (use Cons.prems(2,3) in auto)
  have le: "next_inode s1 + length (filter (active s) is) \<le> next_inode s + length (filter (active s) (i # is))"
    using s1(3) by (auto simp: turn_def)
  have same: "now s1 = now s" "tick_rate s1 = tick_rate s"
    using turn_frame [OF s1(3)] by (auto intro: tick_rate_frame)
  have "\<exists>s'. process_inodes (now s1) (tick_rate s1 (now s1)) is s1 = Some s' \<and> mid_tick s' {} \<and> later s1 s' \<and>
     now s' = now s1 \<and> next_inode s' \<le> next_inode s1 + length (filter (active s1) is)"
    by (rule Cons.IH) (use s1 Cons.prems act le in \<open>auto simp: turn_def\<close>)
  then show ?case
    using s1(1) le later_trans [OF turn_later [OF s1(3)]] unfolding act same by fastforce
qed

text \<open>No more files are being written than there are groups.\<close>

lemma active_same_group:
  assumes groups: "groups_ok s" and x: "get_node s x = Some (Node_File fx)" "\<not> read_only fx"
    and y: "get_node s y = Some (Node_File fy)" "\<not> read_only fy" and g: "group_id fy = group_id fx"
  shows "y = x"
proof -
  obtain ts where ch: "chain (map_of (nodes s)) (max_rotations s) (group_id fx) (parent fx) (x # ts)"
    and all: "\<And>y fy. get_node s y = Some (Node_File fy) \<Longrightarrow> group_id fy = group_id fx \<Longrightarrow> \<not> unlinked fy \<Longrightarrow> y \<in> set (x # ts)"
    by (rule active_is_head [OF groups x]) blast
  have "y \<in> set (x # ts)" using all [OF y(1) g] groups_ok_file [OF groups y(1)] y(2) by blast
  from chain_file [OF ch this] y show ?thesis by auto
qed

lemma active_le_groups:
  assumes groups: "groups_ok s" and "distinct is"
  shows "length (filter (active s) is) \<le> length (group_names s)"
proof -
  define gid where "gid x = (case get_node s x of Some (Node_File f) \<Rightarrow> group_id f | _ \<Rightarrow> 0)" for x
  let ?A = "set (filter (active s) is)"
  have "inj_on gid ?A"
    using active_same_group [OF groups] by (intro inj_onI) (force simp: active_def gid_def)
  moreover have "gid ` ?A \<subseteq> {..<length (group_names s)}"
    using groups_ok_file [OF groups] by (auto simp: active_def gid_def)
  ultimately have "card ?A \<le> card {..<length (group_names s)}"
    by (meson card_inj_on_le finite_lessThan)
  then show ?thesis using distinct_card [of "filter (active s) is"] assms(2) by simp
qed

text \<open>The start of a tick: the new rates are set.\<close>

lemma get_set_rates:
  "get_node (set_rates r s) x = map_option (\<lambda>n. case n of
      Node_File f \<Rightarrow> Node_File (if \<not> read_only f \<and> \<not> unlinked f then f\<lparr>bytes_per_tick := r\<rparr> else f)
    | Node_Directory name dir \<Rightarrow> Node_Directory name dir) (get_node s x)"
  unfolding set_rates_def by (simp add: map_of_map_snd)

lemma set_rates_keys: "map fst (nodes (set_rates r s)) = map fst (nodes s)"
  by (simp add: set_rates_def comp_def split_beta)

lemma set_rates_file:
  assumes "get_node (set_rates r s) x = Some (Node_File f')"
  shows "\<exists>f. get_node s x = Some (Node_File f) \<and> f' = (if \<not> read_only f \<and> \<not> unlinked f then f\<lparr>bytes_per_tick := r\<rparr> else f)"
proof -
  obtain n where n: "get_node s x = Some n" using assms unfolding get_set_rates by auto
  with assms show ?thesis unfolding get_set_rates by (cases n) auto
qed

lemma set_rates_shape: "same_shape (map_of (nodes s)) (map_of (nodes (set_rates r s)))"
  unfolding same_shape_def
proof
  fix x
  show "rel_option same_node_shape (get_node s x) (get_node (set_rates r s) x)"
    unfolding get_set_rates by (cases "get_node s x") (auto simp: same_file_shape_def split: Node.splits)
qed

lemma set_rates_frame [simp]:
  "now (set_rates r s) = now s" "load_profile (set_rates r s) = load_profile s"
  "initial_tick (set_rates r s) = initial_tick s" "max_bytes_per_file (set_rates r s) = max_bytes_per_file s"
  "group_names (set_rates r s) = group_names s" "max_rotations (set_rates r s) = max_rotations s"
  "valid_file_handles (set_rates r s) = valid_file_handles s" "next_file_handle (set_rates r s) = next_file_handle s"
  "next_inode (set_rates r s) = next_inode s" "root_inode (set_rates r s) = root_inode s"
  by (simp_all add: set_rates_def)

lemma tick_rate_set_rates [simp]: "tick_rate (set_rates r s) = tick_rate s"
  by (rule tick_rate_frame) simp_all

definition state_inv :: "State \<Rightarrow> bool" where
  "state_inv s \<longleftrightarrow> tree_ok s \<and> groups_ok s \<and> files_ok s {} \<and> handles_ok s"

lemma state_invD:
  assumes "state_inv s"
  shows state_inv_tree: "tree_ok s" and state_inv_groups: "groups_ok s" and state_inv_files: "files_ok s {}"
    and state_inv_handles: "handles_ok s"
  using assms by (simp_all add: state_inv_def)

lemma start_tick:
  assumes inv: "state_inv s"
  defines "s1 \<equiv> s\<lparr>now := now s + 1\<rparr>"
  defines "s2 \<equiv> set_rates (tick_rate s1 (now s1)) s1"
  shows "mid_tick s2 (set (map fst (nodes s2)))"
proof -
  let ?r = "tick_rate s1 (now s1)"
  have sh: "same_shape (map_of (nodes s)) (map_of (nodes s2))"
    unfolding s2_def using set_rates_shape [of s1 ?r] by (simp add: s1_def)
  have "distinct_nodes s2"
    using tree_ok_distinct [OF state_inv_tree [OF inv]] by (simp add: distinct_nodes_def s2_def set_rates_keys s1_def)
  then have tree: "tree_ok s2"
    by (rule tree_ok_shape [OF state_inv_tree [OF inv] sh]) (simp_all add: s2_def s1_def)
  have groups: "groups_ok s2"
    by (rule groups_ok_shape [OF state_inv_groups [OF inv] sh]) (simp_all add: s2_def s1_def)
  have old_file: "\<exists>f. get_node s x = Some (Node_File f) \<and> f' = (if \<not> read_only f \<and> \<not> unlinked f then f\<lparr>bytes_per_tick := ?r\<rparr> else f)"
    if "get_node s2 x = Some (Node_File f')" for x f'
    using set_rates_file [of ?r s1 x f'] that by (simp add: s2_def s1_def)
  have "handles_ok s2"
  proof (rule handles_ok_evolve [OF state_inv_handles [OF inv]])
    show "\<exists>f'. get_node s2 x = Some (Node_File f')" if "get_node s x = Some (Node_File f)" for x f
      using same_shape_file [OF sh that] by blast
  qed (use old_file in \<open>fastforce simp: s2_def s1_def\<close>)+
  moreover have "files_ok s2 (set (map fst (nodes s2)))"
    unfolding files_ok_def
  proof (intro allI impI)
    fix x f' assume x: "get_node s2 x = Some (Node_File f')"
    obtain f where f: "get_node s x = Some (Node_File f)"
      and f': "f' = (if \<not> read_only f \<and> \<not> unlinked f then f\<lparr>bytes_per_tick := ?r\<rparr> else f)"
      using old_file [OF x] by blast
    have tm: "file_timed s2 g = file_timed s g" for g by (rule file_timed_frame) (simp_all add: s2_def s1_def)
    have tr: "tick_rate s2 = tick_rate s1" by (rule tick_rate_frame) (simp_all add: s2_def)
    have "file_timed s f \<and> (\<not> read_only f \<longrightarrow> modified_tick f = now s \<and> \<not> unlinked f)"
      using state_inv_files [OF inv] f groups_ok_file [OF state_inv_groups [OF inv] f] by (auto simp: files_ok_def)
    moreover have "x \<in> set (map fst (nodes s2))" using map_of_SomeD [OF x] by force
    ultimately show "file_timed s2 f' \<and> (\<not> read_only f' \<longrightarrow> (if x \<in> set (map fst (nodes s2))
        then Suc (modified_tick f') = now s2 \<and> bytes_per_tick f' = tick_rate s2 (now s2) else modified_tick f' = now s2))"
      unfolding tm tr f' by (auto simp: file_timed_def file_ok_def end_tick_def s2_def s1_def)
  qed
  ultimately show ?thesis using tree groups by (simp add: mid_tick_def s2_def s1_def)
qed

text \<open>The end of a tick: unlinked files without handles are collected.\<close>

lemma get_gc:
  assumes "distinct_nodes s"
  shows "get_node (gc s) x = Some n \<longleftrightarrow> get_node s x = Some n \<and> \<not> gc_dead n"
  using assms map_of_filter_distinct [of "nodes s" "\<lambda>(i, n). \<not> gc_dead n" x]
  by (cases "get_node s x") (auto simp: gc_def distinct_nodes_def)

lemma gc_frame [simp]:
  "now (gc s) = now s" "load_profile (gc s) = load_profile s" "initial_tick (gc s) = initial_tick s"
  "max_bytes_per_file (gc s) = max_bytes_per_file s" "group_names (gc s) = group_names s"
  "max_rotations (gc s) = max_rotations s" "valid_file_handles (gc s) = valid_file_handles s"
  "next_file_handle (gc s) = next_file_handle s" "next_inode (gc s) = next_inode s" "root_inode (gc s) = root_inode s"
  by (simp_all add: gc_def)

lemma gc_linked:
  "distinct_nodes s \<Longrightarrow> \<not> unlinked f \<Longrightarrow> get_node (gc s) x = Some (Node_File f) \<longleftrightarrow> get_node s x = Some (Node_File f)"
  by (simp add: get_gc)

lemma gc_dir: "distinct_nodes s \<Longrightarrow> get_node (gc s) x = Some (Node_Directory nm d) \<longleftrightarrow> get_node s x = Some (Node_Directory nm d)"
  by (simp add: get_gc)

lemma gc_child:
  assumes "distinct_nodes s"
  shows "child_ok (map_of (nodes (gc s))) p x \<longleftrightarrow> child_ok (map_of (nodes s)) p x"
  unfolding child_ok_def using gc_linked [OF assms] gc_dir [OF assms] by blast

lemma gc_listed: "distinct_nodes s \<Longrightarrow> listed (map_of (nodes (gc s))) p x \<longleftrightarrow> listed (map_of (nodes s)) p x"
  by (simp add: listed_def gc_dir)

lemma gc_tree:
  assumes ok: "tree_ok s"
  shows "tree_ok (gc s)"
proof -
  note dist = tree_ok_distinct [OF ok]
  have "distinct_nodes (gc s)" using dist by (simp add: distinct_nodes_def gc_def distinct_fst_filter)
  moreover have "\<exists>nm d. get_node s (root_inode s) = Some (Node_Directory nm d)" using ok by (simp add: tree_ok_def)
  moreover have "i < next_inode s" if "get_node (gc s) i = Some n" for i n
    using that tree_ok_below [OF ok, of i n] get_gc [OF dist] by blast
  moreover have "dir_ok (map_of (nodes (gc s))) p d" if "get_node (gc s) p = Some (Node_Directory nm d)" for p nm d
    using that tree_ok_dir [OF ok, of p nm d] by (simp add: gc_dir [OF dist] dir_ok_def gc_child [OF dist])
  moreover have "listed (map_of (nodes (gc s))) (parent f) x"
    if "get_node (gc s) x = Some (Node_File f)" "\<not> unlinked f" for x f
    using that tree_ok_listed [OF ok, of x f] by (simp add: gc_linked [OF dist] gc_listed [OF dist])
  ultimately show ?thesis by (simp add: tree_ok_def gc_dir [OF dist])
qed

lemma gc_groups:
  assumes tree: "tree_ok s" and ok: "groups_ok s"
  shows "groups_ok (gc s)"
proof -
  note dist = tree_ok_distinct [OF tree]
  have "group_ok (map_of (nodes (gc s))) (max_rotations s) g" if g: "g < length (group_names s)" for g
  proof -
    obtain p c where ch: "chain (map_of (nodes s)) (max_rotations s) g p c"
      and all: "\<And>x f. get_node s x = Some (Node_File f) \<Longrightarrow> group_id f = g \<Longrightarrow> \<not> unlinked f \<Longrightarrow> x \<in> set c"
      using groups_ok_group [OF ok g] unfolding group_ok_def by blast
    have "get_node (gc s) x = get_node s x" if x: "x \<in> set c" for x
    proof -
      obtain f where "get_node s x = Some (Node_File f)" "\<not> unlinked f" using chain_file [OF ch x] by blast
      then show ?thesis using gc_linked [OF dist] by metis
    qed
    then have "chain (map_of (nodes (gc s))) (max_rotations s) g p c"
      using chain_cong [of c "map_of (nodes (gc s))" "map_of (nodes s)"] ch by blast
    with all show ?thesis unfolding group_ok_def using gc_linked [OF dist] by blast
  qed
  moreover have "group_id f < length (group_names s) \<and> (unlinked f \<longrightarrow> read_only f)"
    if "get_node (gc s) x = Some (Node_File f)" for x f
    using that groups_ok_file [OF ok] get_gc [OF dist] by blast
  ultimately show ?thesis using ok by (simp add: groups_ok_def)
qed

lemma gc_files:
  assumes dist: "distinct_nodes s" and ok: "files_ok s todo"
  shows "files_ok (gc s) todo"
proof -
  have tm: "file_timed (gc s) f = file_timed s f" for f by (rule file_timed_frame) simp_all
  have tr: "tick_rate (gc s) = tick_rate s" by (rule tick_rate_frame) simp_all
  show ?thesis using ok get_gc [OF dist] unfolding files_ok_def tm tr gc_frame(1) by blast
qed

lemma gc_handles:
  assumes dist: "distinct_nodes s" and ok: "handles_ok s"
  shows "handles_ok (gc s)"
  by (rule handles_ok_evolve [OF ok]) (auto simp: get_gc [OF dist])

section \<open>Advancing the clock\<close>

definition order_ok :: "(Inode list \<Rightarrow> Inode list) \<Rightarrow> bool" where
  "order_ok ord \<longleftrightarrow> (\<forall>xs. distinct xs \<longrightarrow> distinct (ord xs) \<and> set (ord xs) = set xs)"

lemma order_ok_id: "order_ok (\<lambda>xs. xs)" and order_ok_rev: "order_ok rev"
  by (simp_all add: order_ok_def)

lemma tick_total:
  assumes ord: "order_ok ord" and inv: "state_inv s"
    and room: "next_inode s + length (group_names s) \<le> umax 64"
  shows "\<exists>s'. advance_time_inner ord (s\<lparr>now := now s + 1\<rparr>) (now s + 1) = Some s' \<and> state_inv s' \<and>
     later s s' \<and> now s' = now s + 1 \<and> next_inode s' \<le> next_inode s + length (group_names s)"
proof -
  let ?s1 = "s\<lparr>now := now s + 1\<rparr>"
  let ?s2 = "set_rates (tick_rate ?s1 (now ?s1)) ?s1"
  let ?is = "ord (map fst (nodes ?s2))"
  have mid: "mid_tick ?s2 (set (map fst (nodes ?s2)))" by (rule start_tick [OF inv])
  have dist: "distinct (map fst (nodes ?s2))"
    using tree_ok_distinct [OF mid_tick_tree [OF mid]] by (simp add: distinct_nodes_def)
  then have ixs: "distinct ?is" "set ?is = set (map fst (nodes ?s2))" using ord by (auto simp: order_ok_def)
  have few: "length (filter (active ?s2) ?is) \<le> length (group_names s)"
    using active_le_groups [OF mid_tick_groups [OF mid] ixs(1)] by simp
  have "\<exists>s'. process_inodes (now ?s2) (tick_rate ?s2 (now ?s2)) ?is ?s2 = Some s' \<and> mid_tick s' {} \<and>
     later ?s2 s' \<and> now s' = now ?s2 \<and> next_inode s' \<le> next_inode ?s2 + length (filter (active ?s2) ?is)"
    by (rule process_inodes_total) (use mid ixs few room in \<open>auto simp: map_of_eq_None_iff\<close>)
  then obtain s3 where s3: "process_inodes (now s + 1) (tick_rate ?s1 (now s + 1)) ?is ?s2 = Some s3" "mid_tick s3 {}"
    "later ?s2 s3" "now s3 = now s + 1" "next_inode s3 \<le> next_inode s + length (group_names s)"
    using few by auto
  have "later s ?s2"
  proof (rule laterI)
    show "dirs (map_of (nodes ?s2)) = dirs (map_of (nodes s))"
      by (rule ext) (auto simp: dirs_def get_set_rates split: option.splits Node.splits)
  qed (simp add: set_rates_def)
  moreover have "later s3 (gc s3)"
  proof (rule laterI)
    show "dirs (map_of (nodes (gc s3))) = dirs (map_of (nodes s3))"
      by (rule dirs_eqI) (simp_all add: dirs_Some gc_dir [OF tree_ok_distinct [OF mid_tick_tree [OF s3(2)]]])
  qed (simp add: gc_def)
  ultimately have "later s (gc s3)" using s3(3) by (blast intro: later_trans)
  moreover have "state_inv (gc s3)"
    using mid_tickD [OF s3(2)] gc_tree gc_groups gc_files gc_handles tree_ok_distinct by (simp add: state_inv_def)
  moreover have "advance_time_inner ord ?s1 (now s + 1) = Some (gc s3)"
    using s3(1) by (simp add: advance_time_inner_def Let_def)
  ultimately show ?thesis using s3 by auto
qed

lemma advance_time_total:
  assumes ord: "order_ok ord" and inv: "state_inv s" and t: "now s \<le> t"
    and room: "next_inode s + length (group_names s) * (t - now s) \<le> umax 64"
  shows "\<exists>s'. advance_time ord s t = Some s' \<and> state_inv s' \<and> later s s' \<and> now s' = t \<and>
     next_inode s' \<le> next_inode s + length (group_names s) * (t - now s)"
proof -
  let ?G = "length (group_names s)"
  let ?body = "\<lambda>s. if now s < t
     then let s = s\<lparr>now := now s + 1\<rparr> in map_option Again (advance_time_inner ord s (now s))
     else Some (Break s)"
  let ?I = "\<lambda>s'. state_inv s' \<and> later s s' \<and> now s' \<le> t \<and>
     next_inode s' + ?G * (t - now s') \<le> next_inode s + ?G * (t - now s)"
  have "\<exists>s'. loop ?body s = Some s' \<and> (?I s' \<and> now s' = t)"
  proof (rule loop_total [where I = ?I and f = "\<lambda>s'. t - now s'"])
    show "?I s" using inv t by simp
    fix s1 assume I: "?I s1"
    show "(\<exists>r. ?body s1 = Some (Break r) \<and> (?I r \<and> now r = t)) \<or>
        (\<exists>s2. ?body s1 = Some (Again s2) \<and> ?I s2 \<and> t - now s2 < t - now s1)"
    proof (cases "now s1 < t")
      case False
      with I show ?thesis by auto
    next
      case True
      have "later s s1" using I by blast
      then have G: "length (group_names s1) = ?G" by (simp add: later_frame)
      have split: "?G * (t - now s1) = ?G + ?G * (t - (now s1 + 1))"
        using True by (metis Suc_diff_Suc Suc_eq_plus1 mult_Suc_right)
      have "\<exists>s2. advance_time_inner ord (s1\<lparr>now := now s1 + 1\<rparr>) (now s1 + 1) = Some s2 \<and> state_inv s2 \<and>
         later s1 s2 \<and> now s2 = now s1 + 1 \<and> next_inode s2 \<le> next_inode s1 + length (group_names s1)"
        by (rule tick_total [OF ord]) (use I room split G in auto)
      then obtain s2 where s2: "advance_time_inner ord (s1\<lparr>now := now s1 + 1\<rparr>) (now s1 + 1) = Some s2"
        "state_inv s2" "later s1 s2" "now s2 = now s1 + 1" "next_inode s2 \<le> next_inode s1 + ?G"
        using G by auto
      then have "?body s1 = Some (Again s2)" using True by (simp add: Let_def)
      moreover have "?I s2" using s2 I True split later_trans by auto
      ultimately show ?thesis using s2 True by auto
    qed
  qed
  then show ?thesis using t by (auto simp: advance_time_def)
qed

end
