(* ===== verification/Logrotate_Ops.thy ===== *)
theory Logrotate_Ops
  imports Logrotate_Time
begin

text \<open>
  The operations the filesystem calls on the logrotate \<open>State\<close>: opening, reading and closing
  files, looking names up. None of them panics on a state that satisfies the invariant, given
  a clock that does not run backwards and inode numbers left up to a horizon \<open>T\<close>, and each
  of them keeps the invariant.
\<close>

section \<open>Inode numbers up to a horizon\<close>

text \<open>
  Every tick creates at most one file per group, so this many inode numbers suffice up to
  tick \<open>T\<close>.
\<close>

definition room :: "State \<Rightarrow> Tick \<Rightarrow> bool" where
  "room s T \<longleftrightarrow> next_inode s + length (group_names s) * (T - now s) \<le> umax 64"

lemma advance_total:
  assumes ord: "order_ok ord" and inv: "state_inv s" and t: "now s \<le> t" "t \<le> T" and room: "room s T"
  obtains s' where "advance_time ord s t = Some s'" "state_inv s'" "later s s'" "now s' = t" "room s' T"
proof -
  let ?G = "length (group_names s)"
  have split: "?G * (T - now s) = ?G * (t - now s) + ?G * (T - t)"
    using t by (simp flip: add_mult_distrib2)
  have "next_inode s + ?G * (t - now s) \<le> umax 64" using room split by (simp add: room_def)
  from advance_time_total [OF ord inv t(1) this] obtain s' where s': "advance_time ord s t = Some s'"
    "state_inv s'" "later s s'" "now s' = t" "next_inode s' \<le> next_inode s + ?G * (t - now s)" by blast
  moreover have "room s' T"
    using s' room split by (simp add: room_def later_frame [OF s'(3)])
  ultimately show thesis using that by blast
qed

lemma advance_time_now [simp]: "advance_time ord s (now s) = Some s"
  by (simp add: advance_time_def loop_Break)

section \<open>Rewriting one file\<close>

lemma state_inv_put:
  assumes inv: "state_inv s" and f: "get_node s i = Some (Node_File f)" "same_file_shape f f'"
    and f': "file_timed s f'" "\<not> read_only f' \<Longrightarrow> modified_tick f' = now s"
  shows "tree_ok (put_node i (Node_File f') s)" "groups_ok (put_node i (Node_File f') s)"
    "files_ok (put_node i (Node_File f') s) {}"
proof -
  let ?s = "put_node i (Node_File f') s"
  have sh: "same_shape (map_of (nodes s)) (map_of (nodes ?s))"
    unfolding map_simps by (rule same_shape_upd [where f = f]) (use f in auto)
  show "tree_ok ?s"
    by (rule tree_ok_shape [OF state_inv_tree [OF inv] sh])
      (simp_all add: nodes_only_distinct [OF nodes_only_put_node] tree_ok_distinct [OF state_inv_tree [OF inv]])
  show "groups_ok ?s" by (rule groups_ok_shape [OF state_inv_groups [OF inv] sh]) simp_all
  have frame: "file_timed ?s = file_timed s" "tick_rate ?s = tick_rate s"
    by (intro ext file_timed_frame; simp) (intro tick_rate_frame; simp)
  show "files_ok ?s {}"
    using state_inv_files [OF inv] f' by (auto simp: files_ok_def frame map_simps)
qed


lemma state_inv_current:
  "state_inv s \<Longrightarrow> get_node s i = Some (Node_File f) \<Longrightarrow>
     file_timed s f \<and> (\<not> read_only f \<longrightarrow> modified_tick f = now s) \<and> file_advance_time f (now s) = f"
  using state_inv_files [of s] by (cases "read_only f") (auto simp: files_ok_def)

lemma file_timed_cong:
  assumes "file_timed s f" "file_ok f'"
    and "bytes_written f' = bytes_written f" "created_tick f' = created_tick f" "modified_tick f' = modified_tick f"
      "read_only f' = read_only f" "read_only_since f' = read_only_since f" "bytes_per_tick f' = bytes_per_tick f"
  shows "file_timed s f'"
  using assms(1,2) unfolding file_timed_def end_tick_def assms(3-) by blast

lemma file_timed_ok: "file_timed s f \<Longrightarrow> file_ok f"
  by (simp add: file_timed_def)

lemma file_timed_touch: "file_timed s f \<Longrightarrow> file_timed s (file_touch_access f t)"
  by (rule file_timed_cong) (simp_all add: file_touch_access_ok file_timed_ok)

lemma file_timed_open_handles: "file_timed s f \<Longrightarrow> file_timed s (f\<lparr>open_handles := n\<rparr>)"
  by (rule file_timed_cong) (auto dest!: file_timed_ok simp: file_ok_def)

lemma file_timed_bytes_read: "file_timed s f \<Longrightarrow> file_timed s (f\<lparr>bytes_read := n\<rparr>)"
  by (rule file_timed_cong) (auto dest!: file_timed_ok simp: file_ok_def)

lemma file_timed_observed:
  "file_timed s f \<Longrightarrow> n \<le> bytes_written f \<Longrightarrow> file_timed s (f\<lparr>max_offset_observed := max (max_offset_observed f) n\<rparr>)"
  by (rule file_timed_cong) (auto dest!: file_timed_ok simp: file_ok_def)

lemmas file_timed_updates = file_timed_touch file_timed_open_handles file_timed_bytes_read file_timed_observed

lemma same_file_shape_touch [simp]: "same_file_shape f (file_touch_access f t)"
  by (simp add: same_file_shape_def)

text \<open>What the handle table and the file handle counter leave alone.\<close>

lemma inv_parts_frame:
  assumes "nodes s' = nodes s" "root_inode s' = root_inode s" "next_inode s' = next_inode s"
    and "max_rotations s' = max_rotations s" "group_names s' = group_names s" "now s' = now s"
    and "load_profile s' = load_profile s" "initial_tick s' = initial_tick s" "max_bytes_per_file s' = max_bytes_per_file s"
  shows "tree_ok s' = tree_ok s" "groups_ok s' = groups_ok s" "files_ok s' todo = files_ok s todo"
proof -
  show "tree_ok s' = tree_ok s" unfolding tree_ok_def distinct_nodes_def assms ..
  show "groups_ok s' = groups_ok s" unfolding groups_ok_def assms ..
  have "file_timed s' = file_timed s" "tick_rate s' = tick_rate s"
    by (intro ext file_timed_frame assms) (intro tick_rate_frame assms)
  then show "files_ok s' todo = files_ok s todo" unfolding files_ok_def assms by simp
qed

section \<open>Opening and closing\<close>

lemma handle_count_append:
  "valid_file_handles s' = valid_file_handles s @ [(h, i)] \<Longrightarrow>
   handle_count s' x = (if x = i then Suc (handle_count s x) else handle_count s x)"
  by (simp add: handle_count_def)

lemma handle_count_delete:
  assumes "distinct (map fst (valid_file_handles s))" "(h, i) \<in> set (valid_file_handles s)"
    and s': "valid_file_handles s' = AList.delete h (valid_file_handles s)"
  shows "handle_count s x = (if x = i then Suc (handle_count s' x) else handle_count s' x)"
proof -
  obtain xs ys where split: "valid_file_handles s = xs @ (h, i) # ys" using assms(2) by (meson split_list)
  have "AList.delete h (valid_file_handles s) = xs @ ys"
    unfolding split AList.delete_eq using assms(1) split by (force simp: filter_id_conv intro!: arg_cong2 [of _ _ _ _ append])
  then show ?thesis by (simp add: handle_count_def s' split)
qed

lemma handles_ok_fresh: "handles_ok s \<Longrightarrow> next_file_handle s \<notin> fst ` set (valid_file_handles s)"
  by (force simp: handles_ok_def)

lemma handles_ok_valid: "handles_ok s \<Longrightarrow> map_of (valid_file_handles s) h = Some i \<longleftrightarrow> (h, i) \<in> set (valid_file_handles s)"
  by (simp add: handles_ok_def)

lemma handle_count_le: assumes "handles_ok s" shows "handle_count s i \<le> next_file_handle s"
proof -
  have "set (map fst (valid_file_handles s)) \<subseteq> {..<next_file_handle s}" using assms by (auto simp: handles_ok_def)
  then have "card (set (map fst (valid_file_handles s))) \<le> next_file_handle s"
    using card_mono [of "{..<next_file_handle s}"] by fastforce
  then have "length (valid_file_handles s) \<le> next_file_handle s"
    using assms distinct_card [of "map fst (valid_file_handles s)"] by (simp add: handles_ok_def)
  then show ?thesis unfolding handle_count_def by (meson le_trans length_filter_le)
qed

text \<open>The state after a successful \<open>open_file\<close>.\<close>

definition opened :: "State \<Rightarrow> Inode \<Rightarrow> File \<Rightarrow> State" where
  "opened s i f = (put_node i (Node_File (file_open f (now s))) s)
     \<lparr>next_file_handle := next_file_handle s + 1,
      valid_file_handles := valid_file_handles s @ [(next_file_handle s, i)]\<rparr>"

lemma opened_inv:
  assumes inv: "state_inv s" and f: "get_node s i = Some (Node_File f)" and h: "next_file_handle s + 1 < 2 ^ 64"
  shows "state_inv (opened s i f)"
proof -
  let ?f = "file_open f (now s)" and ?s = "opened s i f"
  note cur = state_inv_current [OF inv f] and hs = state_inv_handles [OF inv]
  have few: "open_handles f + 1 < 2 ^ 64"
    using h handles_ok_file [OF hs f] handle_count_le [OF hs, of i] by linarith
  have f': "?f = (file_touch_access f (now s))\<lparr>open_handles := open_handles f + 1\<rparr>"
    using cur few by (simp add: file_open_def Let_def wrapping_add_def)
  have "same_file_shape f ?f" unfolding f' by (simp add: same_file_shape_def)
  moreover have "file_timed s ?f" unfolding f' using cur by (simp add: file_timed_updates)
  moreover have "\<not> read_only ?f \<Longrightarrow> modified_tick ?f = now s" unfolding f' using cur by simp
  ultimately have put: "tree_ok (put_node i (Node_File ?f) s)" "groups_ok (put_node i (Node_File ?f) s)"
    "files_ok (put_node i (Node_File ?f) s) {}" using state_inv_put [OF inv f] by blast+
  have "tree_ok ?s \<and> groups_ok ?s \<and> files_ok ?s {}"
    using put inv_parts_frame [of ?s "put_node i (Node_File ?f) s"] by (simp add: opened_def)
  moreover have "handles_ok ?s"
    unfolding handles_ok_def
  proof (intro conjI allI impI)
    show "distinct (map fst (valid_file_handles ?s))"
      using hs handles_ok_fresh [OF hs] by (simp add: handles_ok_def opened_def)
    show "h < next_file_handle ?s" "\<exists>f. get_node ?s x = Some (Node_File f)"
      if "(h, x) \<in> set (valid_file_handles ?s)" for h x
      using that hs by (auto simp: opened_def map_simps handles_ok_def less_SucI)
    show "open_handles fx = handle_count ?s x" if "get_node ?s x = Some (Node_File fx)" for x fx
    proof -
      have "handle_count ?s x = (if x = i then Suc (handle_count s x) else handle_count s x)"
        by (rule handle_count_append) (simp add: opened_def)
      moreover have "open_handles ?f = Suc (open_handles f)" unfolding f' by simp
      ultimately show ?thesis using that handles_ok_file [OF hs f] handles_ok_file [OF hs, of x fx]
        by (simp add: opened_def map_simps split: if_splits)
    qed
  qed
  ultimately show ?thesis by (simp add: state_inv_def)
qed


lemma update_absent: "k \<notin> fst ` set al \<Longrightarrow> AList.update k v al = al @ [(k, v)]"
  by (induction al) auto

lemma open_file_eq:
  assumes "advance_time ord s t = Some s'" "now s' = t" "handles_ok s'" "next_file_handle s' + 1 < 2 ^ 64"
  shows "open_file ord s t i = Some (case get_node s' i of
      Some (Node_File f) \<Rightarrow> (Some \<lparr>handle_id = next_file_handle s', handle_inode = i\<rparr>, opened s' i f)
    | _ \<Rightarrow> (None, s'))"
  using assms handles_ok_fresh [OF assms(3)]
  by (auto simp: open_file_def opened_def Let_def wrapping_add_def update_absent split: option.splits Node.splits)

text \<open>The state after \<open>close_file\<close>.\<close>

definition closed :: "State \<Rightarrow> FileHandle \<Rightarrow> File \<Rightarrow> State" where
  "closed s handle f = (put_node (handle_inode handle) (Node_File (f\<lparr>open_handles := open_handles f - 1\<rparr>)) s)
     \<lparr>valid_file_handles := AList.delete (handle_id handle) (valid_file_handles s)\<rparr>"

definition valid_handle :: "State \<Rightarrow> FileHandle \<Rightarrow> bool" where
  "valid_handle s handle \<longleftrightarrow> map_of (valid_file_handles s) (handle_id handle) = Some (handle_inode handle)"

lemma valid_handle_file:
  assumes "handles_ok s" "valid_handle s handle"
  obtains f where "get_node s (handle_inode handle) = Some (Node_File f)" "0 < open_handles f"
proof -
  have mem: "(handle_id handle, handle_inode handle) \<in> set (valid_file_handles s)"
    using assms by (simp add: valid_handle_def handles_ok_valid)
  then obtain f where f: "get_node s (handle_inode handle) = Some (Node_File f)"
    using handles_ok_exists [OF assms(1)] by blast
  moreover have "0 < open_handles f" using handles_ok_file [OF assms(1) f] handle_count_pos [of s] mem by auto
  ultimately show thesis by (rule that)
qed

lemma closed_inv:
  assumes inv: "state_inv s" and v: "valid_handle s handle" and f: "get_node s (handle_inode handle) = Some (Node_File f)"
  shows "state_inv (closed s handle f)"
proof -
  let ?i = "handle_inode handle" and ?h = "handle_id handle"
  let ?f = "f\<lparr>open_handles := open_handles f - 1\<rparr>" and ?s = "closed s handle f"
  note cur = state_inv_current [OF inv f] and hs = state_inv_handles [OF inv]
  have mem: "(?h, ?i) \<in> set (valid_file_handles s)" using v hs by (simp add: valid_handle_def handles_ok_valid)
  have dist: "distinct (map fst (valid_file_handles s))" using hs by (simp add: handles_ok_def)
  have "same_file_shape f ?f" by (simp add: same_file_shape_def)
  moreover have "file_timed s ?f" using cur by (simp add: file_timed_updates)
  moreover have "\<not> read_only ?f \<Longrightarrow> modified_tick ?f = now s" using cur by simp
  ultimately have put: "tree_ok (put_node ?i (Node_File ?f) s)" "groups_ok (put_node ?i (Node_File ?f) s)"
    "files_ok (put_node ?i (Node_File ?f) s) {}" using state_inv_put [OF inv f] by blast+
  have "tree_ok ?s \<and> groups_ok ?s \<and> files_ok ?s {}"
    using put inv_parts_frame [of ?s "put_node ?i (Node_File ?f) s"] by (simp add: closed_def)
  moreover have "handles_ok ?s"
    unfolding handles_ok_def
  proof (intro conjI allI impI)
    show "distinct (map fst (valid_file_handles ?s))"
      using dist by (simp add: closed_def distinct_delete)
    show "h < next_file_handle ?s" "\<exists>f. get_node ?s x = Some (Node_File f)"
      if "(h, x) \<in> set (valid_file_handles ?s)" for h x
      using that hs by (auto simp: closed_def map_simps handles_ok_def AList.delete_eq)
    show "open_handles fx = handle_count ?s x" if "get_node ?s x = Some (Node_File fx)" for x fx
    proof -
      have "handle_count s x = (if x = ?i then Suc (handle_count ?s x) else handle_count ?s x)"
        by (rule handle_count_delete [OF dist mem]) (simp add: closed_def)
      moreover have "open_handles fx = (if x = ?i then open_handles f - 1 else handle_count s x)"
        using that handles_ok_file [OF hs, of x fx] by (auto simp: closed_def map_simps split: if_splits)
      ultimately show ?thesis using handles_ok_file [OF hs f] by (cases "x = ?i") simp_all
    qed
  qed
  ultimately show ?thesis by (simp add: state_inv_def)
qed

lemma close_file_eq:
  assumes "advance_time ord s t = Some s'" "now s' = t" "state_inv s'" "valid_handle s' handle"
    and f: "get_node s' (handle_inode handle) = Some (Node_File f)"
  shows "close_file ord s t handle = Some (closed s' handle f)"
proof -
  have "0 < open_handles f"
    using valid_handle_file [OF state_inv_handles [OF assms(3)] assms(4)] f by fastforce
  then show ?thesis
    using assms state_inv_current [OF assms(3) f]
    by (simp add: close_file_def closed_def file_close_def Let_def)
qed


section \<open>Reading\<close>

text \<open>What \<open>read\<close> leaves of the file, and what it returns.\<close>

definition window :: "File \<Rightarrow> nat \<Rightarrow> nat \<Rightarrow> nat" where
  "window f offset sz = min (bytes_written f - offset) sz"

definition was_read :: "State \<Rightarrow> Inode \<Rightarrow> File \<Rightarrow> nat \<Rightarrow> nat \<Rightarrow> State" where
  "was_read s i f offset sz =
     (if bytes_written f \<le> offset then s
      else put_node i (Node_File (file_read
        (f\<lparr>max_offset_observed := max (max_offset_observed f) (offset + window f offset sz)\<rparr>)
        (window f offset sz) (now s))) s)"

lemma was_read_frame [simp]:
  "valid_file_handles (was_read s i f offset sz) = valid_file_handles s" "now (was_read s i f offset sz) = now s"
  "next_file_handle (was_read s i f offset sz) = next_file_handle s"
  "next_inode (was_read s i f offset sz) = next_inode s" "group_names (was_read s i f offset sz) = group_names s"
  "block_cache (was_read s i f offset sz) = block_cache s"
  by (simp_all add: was_read_def)

lemma was_read_inv:
  assumes inv: "state_inv s" and f: "get_node s i = Some (Node_File f)"
  shows "state_inv (was_read s i f offset sz)"
proof (cases "bytes_written f \<le> offset")
  case True
  then show ?thesis using inv by (simp add: was_read_def)
next
  case False
  let ?n = "window f offset sz"
  let ?g = "f\<lparr>max_offset_observed := max (max_offset_observed f) (offset + ?n)\<rparr>"
  let ?f = "file_read ?g ?n (now s)"
  note cur = state_inv_current [OF inv f]
  have "file_advance_time ?g (now s) = ?g" using cur by (cases "read_only f") simp_all
  then have f': "?f = (file_touch_access ?g (now s))\<lparr>bytes_read := saturating_add 64 (bytes_read (file_touch_access ?g (now s))) ?n\<rparr>"
    by (simp add: file_read_def Let_def)
  have "offset + ?n \<le> bytes_written f" using False by (simp add: window_def)
  then have "file_timed s ?f" unfolding f' using cur by (simp add: file_timed_updates)
  moreover have "same_file_shape f ?f" unfolding f' by (simp add: same_file_shape_def)
  moreover have "\<not> read_only ?f \<Longrightarrow> modified_tick ?f = now s" unfolding f' using cur by simp
  ultimately have put: "tree_ok (put_node i (Node_File ?f) s)" "groups_ok (put_node i (Node_File ?f) s)"
    "files_ok (put_node i (Node_File ?f) s) {}" using state_inv_put [OF inv f] by blast+
  have same: "open_handles ?f = open_handles f" unfolding f' by simp
  have "handles_ok (put_node i (Node_File ?f) s)"
    by (rule handles_ok_evolve [OF state_inv_handles [OF inv]]) (use f same in \<open>auto simp: map_simps split: if_splits\<close>)
  with put False show ?thesis by (simp add: state_inv_def was_read_def)
qed

lemma state_read_eq:
  assumes "advance_time ord s t = Some s'" "now s' = t" "state_inv s'" "cache_ok (block_cache s')"
    and f: "get_node s' (handle_inode handle) = Some (Node_File f)" and v: "valid_handle s' handle"
  shows "state_read ord s handle offset sz t = Some
    (Some (map (\<lambda>i. cycle_at (block_cache s') (offset + i)) [0..<window f offset sz]),
     was_read s' (handle_inode handle) f offset sz)"
proof (cases "bytes_written f \<le> offset")
  case True
  then show ?thesis using assms by (simp add: state_read_def window_def was_read_def valid_handle_def)
next
  case False
  have "offset + window f offset sz \<le> bytes_written f" using False by (simp add: window_def)
  also have "bytes_written f \<le> umax 64"
    using state_inv_current [OF assms(3) f] by (simp add: file_timed_def file_ok_def)
  finally have "offset + window f offset sz < 2 ^ 64" by (simp add: umax_def)
  from read_at_stream [OF assms(4) this] False show ?thesis
    using assms by (simp add: state_read_def was_read_def valid_handle_def Let_def window_def)
qed

lemma state_read_invalid:
  "advance_time ord s t = Some s' \<Longrightarrow> \<not> valid_handle s' handle \<Longrightarrow>
   state_read ord s handle offset sz t = Some (None, s')"
  by (simp add: state_read_def valid_handle_def)

section \<open>Names\<close>

lemma node_name_child:
  assumes inv: "state_inv s" and d: "get_node s p = Some (Node_Directory nm d)" and x: "x \<in> set (children d)"
  obtains n name where "get_node s x = Some n" "node_name s n = Some name"
proof -
  have "child_ok (map_of (nodes s)) p x"
    using tree_ok_dir [OF state_inv_tree [OF inv] d] x by (simp add: dir_ok_def)
  then consider f where "get_node s x = Some (Node_File f)" "\<not> unlinked f"
    | nm' d' where "get_node s x = Some (Node_Directory nm' d')" unfolding child_ok_def by blast
  then show thesis
  proof cases
    case 1
    note groups = state_inv_groups [OF inv]
    obtain p' c where c: "chain (map_of (nodes s)) (max_rotations s) (group_id f) p' c" "x \<in> set c"
      using linked_in_chain [OF groups 1] by metis
    have ord: "ordinal f \<le> max_rotations s" using chain_file [OF c] 1 by auto
    have g: "group_id f < length (group_names s)" using groups_ok_file [OF groups 1(1)] by blast
    then have "length (group_names s ! group_id f) = Suc (max_rotations s)"
      using groups by (simp add: groups_ok_def)
    with ord g show thesis by (intro that [OF 1(1)]) (simp add: node_name_def index_def)
  next
    case 2
    then show thesis by (intro that [OF 2]) (simp add: node_name_def)
  qed
qed

lemma lookup_children_total:
  assumes "\<And>x. x \<in> set xs \<Longrightarrow> \<exists>n name. get_node s x = Some n \<and> node_name s n = Some name"
  shows "lookup_children s nm xs = Some (find (\<lambda>x. \<exists>n. get_node s x = Some n \<and> node_name s n = Some nm) xs)"
  using assms
proof (induction xs)
  case (Cons x xs)
  from Cons.prems [of x] obtain n name where "get_node s x = Some n" "node_name s n = Some name" by auto
  with Cons show ?case by auto
qed simp

lemma lookup_eq:
  assumes "advance_time ord s t = Some s'" "state_inv s'"
  shows "lookup ord s t p name = Some (case get_node s' p of
      Some (Node_Directory nm d) \<Rightarrow> find (\<lambda>x. \<exists>n. get_node s' x = Some n \<and> node_name s' n = Some name) (children d)
    | _ \<Rightarrow> None, s')"
proof (cases "get_node s' p")
  case (Some n)
  show ?thesis
  proof (cases n)
    case (Node_Directory nm d)
    with Some have d: "get_node s' p = Some (Node_Directory nm d)" by simp
    have "lookup_children s' name (children d) = Some (find (\<lambda>x. \<exists>n. get_node s' x = Some n \<and> node_name s' n = Some name) (children d))"
      by (rule lookup_children_total) (metis node_name_child [OF assms(2) d])
    with d assms show ?thesis by (simp add: lookup_def)
  qed (use Some assms in \<open>simp add: lookup_def\<close>)
qed (use assms in \<open>simp add: lookup_def\<close>)

end
