(* ===== verification/Logrotate_New.thy ===== *)
theory Logrotate_New
  imports Logrotate_Ops
begin

text \<open>
  Construction and names in the logrotate filesystem: \<open>State::new\<close> builds a tree that
  satisfies the invariant, and no two entries of one directory ever have the same name,
  so that a name finds its inode.
\<close>

section \<open>Log names\<close>

lemma length_log_names [simp]: "length (log_names base g r) = Suc r"
  by (simp add: log_names_def)

lemma log_names_nth:
  "k \<le> r \<Longrightarrow> log_names base g r ! k =
     base @ CHR ''_'' # show_nat g @ CHR ''.'' # ''log'' @ (if k = 0 then [] else CHR ''.'' # show_nat k)"
  by (cases k) (simp_all add: log_names_def log_base_name_def del: upt_Suc)

lemma show_nat_dot:
  assumes "show_nat g @ CHR ''.'' # xs = show_nat g' @ CHR ''.'' # ys"
  shows "g = g' \<and> xs = ys"
proof -
  have digits: "takeWhile is_digit (show_nat n @ CHR ''.'' # zs) = show_nat n" for n zs
    using show_nat_digits [of n] by (subst takeWhile_append2) (auto simp: list_all_iff is_digit_def)
  have "show_nat g = show_nat g'" using arg_cong [OF assms, of "takeWhile is_digit"] by (simp add: digits)
  with assms show ?thesis by simp
qed

lemma log_names_inject:
  assumes "length b = 8" "length b' = 8" "k \<le> r" "k' \<le> r"
    and "log_names b g r ! k = log_names b' g' r ! k'"
  shows "g = g' \<and> k = k'"
proof -
  have "show_nat g @ CHR ''.'' # ''log'' @ (if k = 0 then [] else CHR ''.'' # show_nat k) =
      show_nat g' @ CHR ''.'' # ''log'' @ (if k' = 0 then [] else CHR ''.'' # show_nat k')"
    using assms by (simp add: log_names_nth)
  from show_nat_dot [OF this] show ?thesis by (auto split: if_splits)
qed

lemma length_log_name: "length b = 8 \<Longrightarrow> k \<le> r \<Longrightarrow> 8 < length (log_names b g r ! k)"
  by (simp add: log_names_nth)

lemma length_sample_name: "sample_name R n r = (cs, r') \<Longrightarrow> length cs = n"
  by (induction n arbitrary: r cs r') (auto simp: Let_def split: prod.splits)

text \<open>
  The names of a state: those of its groups come from \<open>log_names\<close>, those of its directories
  are eight characters long, and no two directories in one place share a name.
\<close>

definition names_ok :: "State \<Rightarrow> bool" where
  "names_ok s \<longleftrightarrow>
     (\<forall>g < length (group_names s). \<exists>base. length base = 8 \<and> group_names s ! g = log_names base g (max_rotations s)) \<and>
     (\<forall>x nm p. dirs (map_of (nodes s)) x = Some (nm, Some p) \<longrightarrow> length nm = 8) \<and>
     (\<forall>x y nm p. dirs (map_of (nodes s)) x = Some (nm, Some p) \<longrightarrow>
        dirs (map_of (nodes s)) y = Some (nm, Some p) \<longrightarrow> x = y)"

lemma names_ok_later: "later s s' \<Longrightarrow> names_ok s' = names_ok s"
  unfolding names_ok_def by (simp add: later_frame)

lemma chain_ordinal_inj:
  assumes c: "chain m r g p c" and x: "x \<in> set c" "m x = Some (Node_File fx)" and y: "y \<in> set c" "m y = Some (Node_File fy)"
    and eq: "ordinal fx = ordinal fy"
  shows "x = y"
proof -
  have seg: "z = w" if "rseg m g p k zs" "z \<in> set zs" "w \<in> set zs" "m z = Some (Node_File f1)" "m w = Some (Node_File f2)"
    "ordinal f1 = ordinal f2" for k zs z w f1 f2
    using that
  proof (induction zs arbitrary: k)
    case (Cons a zs)
    from Cons.prems(1) have rest: "rseg m g p (Suc k) zs" by simp
    have late: "k < ordinal f" if "u \<in> set zs" "m u = Some (Node_File f)" for u f
      using rseg_file [OF rest that(1)] that(2) by auto
    show ?case using Cons.prems Cons.IH [OF rest] late [of z f1] late [of w f2] by auto
  qed simp
  obtain h ts f where ht: "c = h # ts" "m h = Some (Node_File f)" "ordinal f = 0" "rseg m g p 1 ts"
    using c unfolding chain_def by blast
  have pos: "0 < ordinal fz" if "z \<in> set ts" "m z = Some (Node_File fz)" for z fz
    using rseg_file [OF ht(4) that(1)] that(2) by auto
  show ?thesis
  proof (cases "x = h \<or> y = h")
    case True
    then show ?thesis using ht x y eq pos [of x fx] pos [of y fy] by auto
  next
    case False
    then show ?thesis using seg [OF ht(4)] ht(1) x y eq by auto
  qed
qed

text \<open>Two children of one directory have different names.\<close>

lemma linked_file_name:
  assumes inv: "state_inv s" and names: "names_ok s"
    and z: "get_node s z = Some (Node_File f)" "\<not> unlinked f" "node_name s (Node_File f) = Some name"
  obtains base c p where "length base = 8" "ordinal f \<le> max_rotations s"
    "name = log_names base (group_id f) (max_rotations s) ! ordinal f"
    "chain (map_of (nodes s)) (max_rotations s) (group_id f) p c" "z \<in> set c"
    "\<forall>w fw. get_node s w = Some (Node_File fw) \<longrightarrow> group_id fw = group_id f \<longrightarrow> \<not> unlinked fw \<longrightarrow> w \<in> set c"
proof -
  note groups = state_inv_groups [OF inv]
  obtain p c where c: "chain (map_of (nodes s)) (max_rotations s) (group_id f) p c" "z \<in> set c"
    "\<And>w fw. get_node s w = Some (Node_File fw) \<Longrightarrow> group_id fw = group_id f \<Longrightarrow> \<not> unlinked fw \<Longrightarrow> w \<in> set c"
    using linked_in_chain [OF groups z(1,2)] by metis
  have o: "ordinal f \<le> max_rotations s" using chain_file [OF c(1,2)] z(1) by auto
  have g: "group_id f < length (group_names s)" using groups_ok_file [OF groups z(1)] by blast
  then obtain base where b: "length base = 8" "group_names s ! group_id f = log_names base (group_id f) (max_rotations s)"
    using names by (auto simp: names_ok_def)
  have "name = log_names base (group_id f) (max_rotations s) ! ordinal f"
    using z(3) g b o by (simp add: node_name_def index_def)
  with b c o show thesis by (intro that) blast+
qed

lemma linked_files_distinct:
  assumes inv: "state_inv s" and names: "names_ok s"
    and x: "get_node s x = Some (Node_File f)" "\<not> unlinked f" "node_name s (Node_File f) = Some name"
    and y: "get_node s y = Some (Node_File f')" "\<not> unlinked f'" "node_name s (Node_File f') = Some name"
  shows "x = y"
proof -
  obtain b c p1 where fx: "length b = 8" "ordinal f \<le> max_rotations s"
    "name = log_names b (group_id f) (max_rotations s) ! ordinal f"
    and c: "chain (map_of (nodes s)) (max_rotations s) (group_id f) p1 c" "x \<in> set c"
    and all: "\<forall>w fw. get_node s w = Some (Node_File fw) \<longrightarrow> group_id fw = group_id f \<longrightarrow> \<not> unlinked fw \<longrightarrow> w \<in> set c"
    by (rule linked_file_name [OF inv names x])
  obtain b' where fy: "length b' = 8" "ordinal f' \<le> max_rotations s"
    "name = log_names b' (group_id f') (max_rotations s) ! ordinal f'"
    by (rule linked_file_name [OF inv names y])
  have "group_id f = group_id f' \<and> ordinal f = ordinal f'"
    by (rule log_names_inject [of b b' "ordinal f" "max_rotations s" "ordinal f'"]) (use fx fy in simp_all)
  moreover from this have "y \<in> set c" using all y(1,2) by simp
  ultimately show ?thesis using chain_ordinal_inj [OF c _ \<open>y \<in> set c\<close>] x y by simp
qed

lemma child_name:
  assumes inv: "state_inv s" and names: "names_ok s" and d: "get_node s p = Some (Node_Directory nm d)"
    and x: "x \<in> set (children d)" "get_node s x = Some n" "node_name s n = Some name"
  shows "case n of Node_File f \<Rightarrow> \<not> unlinked f \<and> 8 < length name | Node_Directory _ _ \<Rightarrow> dirs (map_of (nodes s)) x = Some (name, Some p) \<and> length name = 8"
proof -
  have child: "child_ok (map_of (nodes s)) p x"
    using tree_ok_dir [OF state_inv_tree [OF inv] d] x(1) by (simp add: dir_ok_def)
  show ?thesis
  proof (cases n)
    case (Node_File f)
    then have l: "\<not> unlinked f" using child x(2) by (auto simp: child_ok_def)
    from x Node_File have node: "get_node s x = Some (Node_File f)" "node_name s (Node_File f) = Some name" by simp_all
    have "8 < length name" by (rule linked_file_name [OF inv names node(1) l node(2)]) (metis length_log_name)
    with l Node_File show ?thesis by simp
  next
    case (Node_Directory nm' d')
    then have "dirs (map_of (nodes s)) x = Some (name, Some p)"
      using child x by (auto simp: child_ok_def dirs_Some node_name_def)
    moreover from this have "length name = 8" using names by (auto simp: names_ok_def)
    ultimately show ?thesis using Node_Directory by simp
  qed
qed

lemma child_names_distinct:
  assumes inv: "state_inv s" and names: "names_ok s" and d: "get_node s p = Some (Node_Directory nm d)"
    and x: "x \<in> set (children d)" "get_node s x = Some nx" "node_name s nx = Some name"
    and y: "y \<in> set (children d)" "get_node s y = Some ny" "node_name s ny = Some name"
  shows "x = y"
proof -
  note nx = child_name [OF inv names d x] and ny = child_name [OF inv names d y]
  show ?thesis
  proof (cases nx)
    case (Node_File f)
    moreover from this nx ny obtain f' where "ny = Node_File f'" by (cases ny) auto
    ultimately show ?thesis using linked_files_distinct [OF inv names] nx ny x(2,3) y(2,3) by simp
  next
    case (Node_Directory nm' d')
    with nx ny have "dirs (map_of (nodes s)) x = Some (name, Some p)" "dirs (map_of (nodes s)) y = Some (name, Some p)"
      by (cases ny; simp)+
    then show ?thesis using names by (simp add: names_ok_def)
  qed
qed


section \<open>Construction\<close>

text \<open>Adding a node to a directory.\<close>

definition added :: "Inode \<Rightarrow> Node \<Rightarrow> State \<Rightarrow> State" where
  "added p n s = update_children (insort_insert (next_inode s)) p
     (put_node (next_inode s) n (s\<lparr>next_inode := next_inode s + 1\<rparr>))"

definition fresh_child :: "Inode \<Rightarrow> Node \<Rightarrow> bool" where
  "fresh_child p n \<longleftrightarrow> (case n of
     Node_File f \<Rightarrow> parent f = p \<and> \<not> unlinked f
   | Node_Directory nm d \<Rightarrow> d = Directory_new (Some p))"

lemma get_added:
  assumes "tree_ok s" and d: "get_node s p = Some (Node_Directory nm d)"
  shows "map_of (nodes (added p n s)) = (map_of (nodes s))(next_inode s \<mapsto> n,
    p \<mapsto> Node_Directory nm (d\<lparr>children := insort_insert (next_inode s) (children d)\<rparr>))"
proof -
  have "p \<noteq> next_inode s" using assms tree_ok_fresh by fastforce
  then have "get_node (put_node (next_inode s) n (s\<lparr>next_inode := next_inode s + 1\<rparr>)) p = Some (Node_Directory nm d)"
    using d by (simp add: map_simps put_node_next_inode)
  then show ?thesis by (simp add: added_def update_children_eq map_simps)
qed

lemma added_frame [simp]:
  "root_inode (added p n s) = root_inode s" "now (added p n s) = now s" "initial_tick (added p n s) = initial_tick s"
  "block_cache (added p n s) = block_cache s" "max_bytes_per_file (added p n s) = max_bytes_per_file s"
  "max_rotations (added p n s) = max_rotations s" "group_names (added p n s) = group_names s"
  "next_inode (added p n s) = next_inode s + 1" "next_file_handle (added p n s) = next_file_handle s"
  "load_profile (added p n s) = load_profile s" "valid_file_handles (added p n s) = valid_file_handles s"
  by (simp_all add: added_def update_children_def split: option.splits Node.splits)

lemma distinct_nodes_added: "distinct_nodes s \<Longrightarrow> distinct_nodes (added p n s)"
  by (simp add: added_def distinct_nodes_def update_children_def put_node_def distinct_update split: option.splits Node.splits)

lemma child_ok_mono:
  assumes "child_ok m q x" "\<And>y f. m y = Some (Node_File f) \<Longrightarrow> m' y = Some (Node_File f)"
    and "\<And>y nm d. m y = Some (Node_Directory nm d) \<Longrightarrow> \<exists>d'. m' y = Some (Node_Directory nm d') \<and> dir_parent d' = dir_parent d"
  shows "child_ok m' q x"
  using assms unfolding child_ok_def by metis

lemma tree_ok_added:
  assumes ok: "tree_ok s" and d: "get_node s p = Some (Node_Directory nm d)" and n: "fresh_child p n"
  shows "tree_ok (added p n s)"
  unfolding tree_ok_def
proof (intro conjI allI impI)
  let ?x = "next_inode s" and ?m = "map_of (nodes (added p n s))"
  note get = get_added [OF ok d, of n]
  have px: "p \<noteq> ?x" and fresh: "get_node s ?x = None" using d tree_ok_fresh [OF ok] by auto
  have keep: "?m y = get_node s y" if "y \<noteq> ?x" "y \<noteq> p" for y using that by (simp add: get)
  have old: "child_ok ?m q y" if "child_ok (map_of (nodes s)) q y" for q y
    by (rule child_ok_mono [OF that]) (use d fresh px in \<open>auto simp: get\<close>)
  show "distinct_nodes (added p n s)" by (rule distinct_nodes_added [OF tree_ok_distinct [OF ok]])
  show "i < next_inode (added p n s)" if "?m i = Some n'" for i n'
    using that tree_ok_below [OF ok] d by (auto simp: get less_SucI split: if_splits)
  show "\<exists>nm d. ?m (root_inode (added p n s)) = Some (Node_Directory nm d)"
    using ok fresh by (auto simp: tree_ok_def get)
  show "dir_ok ?m q dq" if q: "?m q = Some (Node_Directory nq dq)" for q nq dq
  proof -
    consider "q = p" "dq = d\<lparr>children := insort_insert ?x (children d)\<rparr>"
      | "q \<noteq> p" "q = ?x" "dq = Directory_new (Some p)" | "q \<noteq> p" "get_node s q = Some (Node_Directory nq dq)"
      using q px n by (auto simp: get fresh_child_def split: if_splits)
    then show ?thesis
    proof cases
      case 1
      have "child_ok ?m p ?x" unfolding child_ok_def get using n px by (cases n) (auto simp: fresh_child_def Directory_new_def)
      with 1 tree_ok_dir [OF ok d] old show ?thesis
        by (auto simp: dir_ok_def set_insort_insert sorted_insort_insert distinct_insort_insert)
    next
      case 2
      then show ?thesis by (simp add: dir_ok_def Directory_new_def)
    next
      case 3
      then show ?thesis using tree_ok_dir [OF ok 3(2)] old by (simp add: dir_ok_def)
    qed
  qed
  show "listed ?m (parent f) y" if y: "?m y = Some (Node_File f)" "\<not> unlinked f" for y f
  proof (cases "y = ?x")
    case True
    then show ?thesis using y n px unfolding listed_def get by (auto simp: fresh_child_def set_insort_insert)
  next
    case False
    with y d have "get_node s y = Some (Node_File f)" by (auto simp: get split: if_splits)
    from tree_ok_listed [OF ok this y(2)] d fresh show ?thesis unfolding listed_def get by (auto simp: set_insort_insert)
  qed
qed


text \<open>
  While the tree is built: no file changes, directories are listed by their parents, and
  their names are as \<open>names_ok\<close> has them.
\<close>

definition dir_names_ok :: "State \<Rightarrow> bool" where
  "dir_names_ok s \<longleftrightarrow>
     (\<forall>x nm p. dirs (map_of (nodes s)) x = Some (nm, Some p) \<longrightarrow> length nm = 8 \<and> listed (map_of (nodes s)) p x) \<and>
     (\<forall>x y nm p. dirs (map_of (nodes s)) x = Some (nm, Some p) \<longrightarrow>
        dirs (map_of (nodes s)) y = Some (nm, Some p) \<longrightarrow> x = y)"

definition grown :: "State \<Rightarrow> State \<Rightarrow> bool" where
  "grown s s' \<longleftrightarrow>
     (\<exists>ns ni. s' = s\<lparr>nodes := ns, next_inode := ni\<rparr>) \<and>
     (\<forall>x f. get_node s' x = Some (Node_File f) \<longleftrightarrow> get_node s x = Some (Node_File f))"

definition is_dir :: "State \<Rightarrow> Inode \<Rightarrow> bool" where
  "is_dir s x \<longleftrightarrow> (\<exists>nm d. get_node s x = Some (Node_Directory nm d))"

definition building :: "State \<Rightarrow> bool" where
  "building s \<longleftrightarrow> tree_ok s \<and> dir_names_ok s"

lemma added_nodes_only: "\<exists>ns ni. added p n s = s\<lparr>nodes := ns, next_inode := ni\<rparr>"
  by (rule exI [of _ "nodes (added p n s)"], rule exI [of _ "next_inode (added p n s)"])
    (simp add: added_def update_children_def put_node_def split: option.splits Node.splits)

lemma added_listed:
  "tree_ok s \<Longrightarrow> get_node s p = Some (Node_Directory nm d) \<Longrightarrow> listed (map_of (nodes s)) q x \<Longrightarrow>
   listed (map_of (nodes (added p n s))) q x"
  using tree_ok_fresh [of s] by (auto simp: listed_def get_added set_insort_insert)

lemma find_subdir_Some:
  "find_subdir s nm xs = Some x \<Longrightarrow> x \<in> set xs \<and> is_dir s x"
  by (induction xs) (auto simp: is_dir_def split: option.splits Node.splits if_splits)

lemma find_subdir_None:
  "find_subdir s nm xs = None \<Longrightarrow> x \<in> set xs \<Longrightarrow> get_node s x \<noteq> Some (Node_Directory nm d)"
  by (induction xs) (auto split: option.splits Node.splits if_splits)

lemma dirs_added:
  assumes "tree_ok s" "get_node s p = Some (Node_Directory nm d)"
  shows "dirs (map_of (nodes (added p n s))) = (dirs (map_of (nodes s)))(next_inode s := dirs [next_inode s \<mapsto> n] (next_inode s))"
  using assms(2) tree_ok_fresh [OF assms(1)] unfolding get_added [OF assms] by (auto simp: dirs_def fun_eq_iff)

lemma enter_dir_builds:
  assumes b: "building s" and p: "is_dir s p" and len: "length name = 8"
  shows "\<exists>s' x. enter_dir name s p = Some (s', x) \<and> building s' \<and> grown s s' \<and> is_dir s' x"
proof -
  have tree: "tree_ok s" using b by (simp add: building_def)
  obtain nm d where d: "get_node s p = Some (Node_Directory nm d)" using p by (auto simp: is_dir_def)
  have refl: "grown s s"
    unfolding grown_def by (intro conjI exI [of _ "nodes s"] exI [of _ "next_inode s"]) simp_all
  show ?thesis
  proof (cases "find_subdir s name (children d)")
    case (Some x)
    then show ?thesis using d b refl find_subdir_Some [OF Some] by (simp add: enter_dir_def)
  next
    case None
    let ?n = "Node_Directory name (Directory_new (Some p))" and ?x = "next_inode s"
    let ?s = "added p ?n s"
    have run: "enter_dir name s p = Some (?s, ?x)"
      using d None by (simp add: enter_dir_def added_def Let_def)
    have dirs: "dirs (map_of (nodes ?s)) = (dirs (map_of (nodes s)))(?x := Some (name, Some p))"
      unfolding dirs_added [OF tree d] by (simp add: dirs_def Directory_new_def)
    have new: "dirs (map_of (nodes s)) y \<noteq> Some (name, Some p)" for y
    proof
      assume y: "dirs (map_of (nodes s)) y = Some (name, Some p)"
      then have "listed (map_of (nodes s)) p y" using b by (auto simp: building_def dir_names_ok_def)
      with d have "y \<in> set (children d)" by (auto simp: listed_def)
      with y find_subdir_None [OF None] show False by (auto simp: dirs_Some)
    qed
    have px: "p \<noteq> ?x" using d tree_ok_fresh [OF tree] by auto
    have "listed (map_of (nodes ?s)) p ?x"
      using px by (auto simp: listed_def get_added [OF tree d] set_insort_insert)
    then have "dir_names_ok ?s"
      using b len new unfolding building_def dir_names_ok_def dirs
      by (auto simp: fun_upd_apply intro: added_listed [OF tree d] split: if_splits)
    moreover have "tree_ok ?s" by (rule tree_ok_added [OF tree d]) (simp add: fresh_child_def)
    moreover have "grown s ?s"
      using added_nodes_only [of p ?n s] d tree_ok_fresh [OF tree] by (auto simp: grown_def get_added [OF tree d])
    moreover have "is_dir ?s ?x" using px by (simp add: is_dir_def get_added [OF tree d])
    ultimately show ?thesis using run by (simp add: building_def)
  qed
qed

lemma grown_trans: "grown s s' \<Longrightarrow> grown s' s'' \<Longrightarrow> grown s s''"
  unfolding grown_def by (elim conjE exE) (auto intro: exI [of _ "nodes s''"] exI [of _ "next_inode s''"])

lemma build_path_builds:
  "building s \<Longrightarrow> is_dir s p \<Longrightarrow>
   \<exists>s' x r'. build_path R n s p r = Some (s', x, r') \<and> building s' \<and> grown s s' \<and> is_dir s' x"
proof (induction n arbitrary: s p r)
  case 0
  have "grown s s"
    unfolding grown_def by (intro conjI exI [of _ "nodes s"] exI [of _ "next_inode s"]) simp_all
  with 0 show ?case by simp
next
  case (Suc n)
  obtain name r1 where nm: "sample_name R 8 r = (name, r1)" by force
  obtain s1 x where s1: "enter_dir name s p = Some (s1, x)" "building s1" "grown s s1" "is_dir s1 x"
    using enter_dir_builds [OF Suc.prems length_sample_name [OF nm]] by blast
  from Suc.IH [OF s1(2,4), of r1] grown_trans [OF s1(3)] show ?case using nm s1(1) by fastforce
qed


text \<open>One group more: its names, the directories on its path and its first file.\<close>

lemma groups_ok_added:
  assumes ok: "groups_ok s" and len: "length names = Suc (max_rotations s)"
    and f: "group_id f = length (group_names s)" "ordinal f = 0" "\<not> unlinked f" "\<not> read_only f" "peer f = None"
    and s': "max_rotations s' = max_rotations s" "group_names s' = group_names s @ [names]"
    and x: "\<And>g. get_node s x \<noteq> Some (Node_File g)"
    and files: "\<And>y g. get_node s' y = Some (Node_File g) \<longleftrightarrow> (if y = x then g = f else get_node s y = Some (Node_File g))"
  shows "groups_ok s'"
proof -
  have new: "chain (map_of (nodes s')) (max_rotations s) (length (group_names s)) (parent f) [x]"
    unfolding chain_def using files [of x f] f by (simp add: link_def)
  have old: "group_ok (map_of (nodes s')) (max_rotations s) g" if g: "g < length (group_names s)" for g
  proof -
    obtain p c where ch: "chain (map_of (nodes s)) (max_rotations s) g p c"
      and all: "\<And>x f. get_node s x = Some (Node_File f) \<Longrightarrow> group_id f = g \<Longrightarrow> \<not> unlinked f \<Longrightarrow> x \<in> set c"
      using groups_ok_group [OF ok g] unfolding group_ok_def by blast
    have "get_node s' y = get_node s y" if y: "y \<in> set c" for y
      using chain_file [OF ch y] files [of y] x by metis
    then have "chain (map_of (nodes s')) (max_rotations s) g p c"
      using chain_cong [of c "map_of (nodes s')" "map_of (nodes s)"] ch by blast
    moreover have "y \<in> set c" if "get_node s' y = Some (Node_File fy)" "group_id fy = g" "\<not> unlinked fy" for y fy
      using that files [of y fy] all [of y fy] f(1) g by (auto split: if_splits)
    ultimately show ?thesis unfolding group_ok_def by blast
  qed
  have "group_ok (map_of (nodes s')) (max_rotations s) g" if "g < Suc (length (group_names s))" for g
  proof (cases "g = length (group_names s)")
    case True
    have "y \<in> set [x]" if "get_node s' y = Some (Node_File fy)" "group_id fy = g" for y fy
      using that files [of y fy] groups_ok_file [OF ok, of y fy] True by (auto split: if_splits)
    with new True show ?thesis unfolding group_ok_def by metis
  qed (use that old in auto)
  moreover have "group_id g < Suc (length (group_names s)) \<and> (unlinked g \<longrightarrow> read_only g)"
    if "get_node s' y = Some (Node_File g)" for y g
    using that files [of y g] f groups_ok_file [OF ok, of y g] by (auto split: if_splits)
  ultimately show ?thesis using ok len by (auto simp: groups_ok_def s')
qed

definition fresh_state :: "State \<Rightarrow> nat \<Rightarrow> bool" where
  "fresh_state s n \<longleftrightarrow> state_inv s \<and> building s \<and> names_ok s \<and> length (group_names s) = n \<and>
     valid_file_handles s = [] \<and> next_file_handle s = 0"

lemma grown_frame:
  assumes "grown s s'"
  shows "root_inode s' = root_inode s" "now s' = now s" "initial_tick s' = initial_tick s"
    "block_cache s' = block_cache s" "max_bytes_per_file s' = max_bytes_per_file s"
    "max_rotations s' = max_rotations s" "group_names s' = group_names s"
    "next_file_handle s' = next_file_handle s"
    "load_profile s' = load_profile s" "valid_file_handles s' = valid_file_handles s"
  using assms by (auto simp: grown_def)

lemma grown_file: "grown s s' \<Longrightarrow> get_node s' x = Some (Node_File f) \<longleftrightarrow> get_node s x = Some (Node_File f)"
  by (simp add: grown_def)


lemma building_frame:
  "nodes s' = nodes s \<Longrightarrow> root_inode s' = root_inode s \<Longrightarrow> next_inode s' = next_inode s \<Longrightarrow> building s' = building s"
  unfolding building_def tree_ok_def dir_names_ok_def distinct_nodes_def by simp

lemma building_added_file:
  assumes b: "building s" and d: "get_node s p = Some (Node_Directory nm d)" and f: "parent f = p" "\<not> unlinked f"
  shows "building (added p (Node_File f) s)"
proof -
  have tree: "tree_ok s" using b by (simp add: building_def)
  have "dirs (map_of (nodes (added p (Node_File f) s))) = dirs (map_of (nodes s))"
    unfolding dirs_added [OF tree d] using tree_ok_fresh [OF tree] by (auto simp: dirs_def fun_eq_iff)
  then have "dir_names_ok (added p (Node_File f) s)"
    using b added_listed [OF tree d] unfolding building_def dir_names_ok_def by metis
  with tree_ok_added [OF tree d, of "Node_File f"] f show ?thesis by (simp add: building_def fresh_child_def)
qed

lemma fresh_state_handles:
  assumes "fresh_state s n" "valid_file_handles s' = []" and "\<And>x f. get_node s' x = Some (Node_File f) \<Longrightarrow> open_handles f = 0"
  shows "handles_ok s'"
  using assms by (simp add: handles_ok_def handle_count_def)

lemma files_ok_new_file:
  assumes inv: "state_inv s"
    and frame: "load_profile s' = load_profile s" "initial_tick s' = initial_tick s" "max_bytes_per_file s' = max_bytes_per_file s" "now s' = now s"
    and files: "\<And>y h. get_node s' y = Some (Node_File h) \<Longrightarrow> h = File_new x g 0 (now s) None \<or> get_node s y = Some (Node_File h)"
  shows "files_ok s' {}"
proof -
  have "file_timed s' = file_timed s" by (intro ext file_timed_frame frame)
  moreover have "file_timed s h \<and> (\<not> read_only h \<longrightarrow> modified_tick h = now s)"
    if "get_node s' y = Some (Node_File h)" for y h
    using files [OF that] state_inv_current [OF inv, of y h] by (auto, simp add: File_new_def)
  ultimately show ?thesis using frame(4) by (simp add: files_ok_def)
qed

lemma names_ok_new_group:
  assumes "names_ok s" "building s'" "length base = 8"
    and "group_names s' = group_names s @ [log_names base (length (group_names s)) (max_rotations s)]" "max_rotations s' = max_rotations s"
  shows "names_ok s'"
proof -
  have "\<exists>b. length b = 8 \<and> group_names s' ! k = log_names b k (max_rotations s)" if "k < Suc (length (group_names s))" for k
    using that assms by (cases "k = length (group_names s)") (auto simp: nth_append names_ok_def)
  with assms(2,4,5) show ?thesis unfolding names_ok_def building_def dir_names_ok_def by simp
qed

lemma add_group_fresh:
  assumes F: "fresh_state s g"
  shows "\<exists>s' r'. add_group R depth g s r = Some (s', r') \<and> fresh_state s' (Suc g) \<and>
     root_inode s' = root_inode s \<and> now s' = now s \<and> initial_tick s' = initial_tick s \<and> block_cache s' = block_cache s \<and>
     max_bytes_per_file s' = max_bytes_per_file s \<and> max_rotations s' = max_rotations s \<and> load_profile s' = load_profile s"
proof -
  obtain base r1 where base: "sample_name R 8 r = (base, r1)" by force
  let ?names = "log_names base g (max_rotations s)"
  let ?s0 = "s\<lparr>group_names := group_names s @ [?names]\<rparr>"
  obtain dp r2 where dp: "(if depth = 0 then (0, r1) else gen_range R 1 (depth + 1) r1) = (dp, r2)" by force
  have inv: "state_inv s" and b: "building s" and n: "length (group_names s) = g" and names: "names_ok s"
    and hs: "valid_file_handles s = []" "next_file_handle s = 0" using F by (auto simp: fresh_state_def)
  have b0: "building ?s0" using b building_frame [of ?s0 s] by simp
  have "is_dir ?s0 (root_inode s)" using state_inv_tree [OF inv] by (simp add: is_dir_def tree_ok_def)
  from build_path_builds [OF b0 this, of R dp r2] obtain s1 x r3 where
    path: "build_path R dp ?s0 (root_inode s) r2 = Some (s1, x, r3)" and b1: "building s1" and gr: "grown ?s0 s1"
    and dir: "is_dir s1 x" by blast
  obtain nm d where d: "get_node s1 x = Some (Node_Directory nm d)" using dir by (auto simp: is_dir_def)
  let ?f = "File_new x g 0 (now s1) None" and ?i = "next_inode s1"
  let ?s2 = "added x (Node_File ?f) s1"
  have tree1: "tree_ok s1" using b1 by (simp add: building_def)
  have run: "add_group R depth g s r = Some (?s2, r3)"
    using base dp path by (simp add: add_group_def added_def Let_def)
  have xi: "x \<noteq> ?i" "get_node s1 ?i = None" using d tree_ok_fresh [OF tree1] by auto
  have files: "get_node ?s2 y = Some (Node_File h) \<longleftrightarrow> (if y = ?i then h = ?f else get_node s y = Some (Node_File h))" for y h
    using grown_file [OF gr, of y h] d xi by (auto simp: get_added [OF tree1 d])
  have frame: "max_rotations ?s2 = max_rotations s" "group_names ?s2 = group_names s @ [?names]" "now s1 = now s"
    "valid_file_handles ?s2 = []" "load_profile ?s2 = load_profile s" "initial_tick ?s2 = initial_tick s"
    "max_bytes_per_file ?s2 = max_bytes_per_file s" "root_inode ?s2 = root_inode s" "block_cache ?s2 = block_cache s"
    "next_file_handle ?s2 = 0"
    using grown_frame [OF gr] hs by simp_all
  have b2: "building ?s2" by (rule building_added_file [OF b1 d]) (simp_all add: File_new_def)
  have "groups_ok ?s2"
  proof (rule groups_ok_added [OF state_inv_groups [OF inv], where f = ?f and x = ?i and names = ?names])
    show "get_node s ?i \<noteq> Some (Node_File h)" for h using grown_file [OF gr, of ?i h] xi by simp
  qed (use n frame files in \<open>simp_all add: File_new_def\<close>)
  moreover have "files_ok ?s2 {}"
    by (rule files_ok_new_file [OF inv, where x = x and g = g]) (use frame files in \<open>auto split: if_splits\<close>)
  moreover have "handles_ok ?s2"
  proof (rule fresh_state_handles [OF F frame(4)])
    show "open_handles h = 0" if "get_node ?s2 y = Some (Node_File h)" for y h
      using that files [of y h] handles_ok_file [OF state_inv_handles [OF inv], of y h] hs
      by (auto simp: File_new_def handle_count_def split: if_splits)
  qed
  moreover have "names_ok ?s2"
    by (rule names_ok_new_group [OF names b2 length_sample_name [OF base]]) (use n frame in simp_all)
  ultimately have "fresh_state ?s2 (Suc g)"
    using b2 n frame by (simp add: fresh_state_def state_inv_def building_def)
  with run frame show ?thesis by simp
qed


lemma add_groups_fresh:
  "fresh_state s k \<Longrightarrow> k \<le> n \<Longrightarrow>
   \<exists>s' r'. add_groups R depth [k..<n] s r = Some (s', r') \<and> fresh_state s' n \<and>
     root_inode s' = root_inode s \<and> now s' = now s \<and> initial_tick s' = initial_tick s \<and> block_cache s' = block_cache s \<and>
     max_bytes_per_file s' = max_bytes_per_file s \<and> max_rotations s' = max_rotations s \<and> load_profile s' = load_profile s"
proof (induction "n - k" arbitrary: k s r)
  case 0
  then show ?case by simp
next
  case (Suc m)
  from add_group_fresh [OF Suc.prems(1), of R depth r] obtain s1 r1 where
    s1: "add_group R depth k s r = Some (s1, r1)" "fresh_state s1 (Suc k)"
    "root_inode s1 = root_inode s" "now s1 = now s" "initial_tick s1 = initial_tick s" "block_cache s1 = block_cache s"
    "max_bytes_per_file s1 = max_bytes_per_file s" "max_rotations s1 = max_rotations s" "load_profile s1 = load_profile s"
    by blast
  have "[k..<n] = k # [Suc k..<n]" using Suc.hyps(2) by (simp add: upt_rec)
  with Suc.hyps(1) [of "Suc k" s1 r1] Suc.hyps(2) Suc.prems s1 show ?case by fastforce
qed

lemma State_empty_fresh:
  "rotations < 255 \<Longrightarrow> fresh_state (State_empty t rotations sz cache prof) 0"
  by (auto simp: fresh_state_def state_inv_def tree_ok_def groups_ok_def files_ok_def handles_ok_def building_def
      dir_names_ok_def names_ok_def State_empty_def distinct_nodes_def dir_ok_def dirs_def split: if_splits)

lemma State_new_fresh:
  assumes "rotations < 255"
  shows "\<exists>s r'. State_new R t rotations sz cache depth logs prof r = Some (s, r') \<and> fresh_state s logs \<and>
     root_inode s = 1 \<and> now s = t \<and> initial_tick s = t \<and> block_cache s = cache \<and>
     max_bytes_per_file s = sz \<and> max_rotations s = rotations \<and> load_profile s = prof"
  using add_groups_fresh [OF State_empty_fresh [OF assms], of logs R depth t sz cache prof r]
  by (simp add: State_new_def State_empty_def)

text \<open>How many inode numbers the construction takes.\<close>

lemma enter_dir_inodes: "enter_dir nm s p = Some (s', x) \<Longrightarrow> next_inode s' \<le> Suc (next_inode s) \<and> group_names s' = group_names s"
  by (auto simp: enter_dir_def Let_def update_children_def split: option.splits Node.splits)

lemma build_path_inodes:
  "build_path R n s p r = Some (s', x, r') \<Longrightarrow> next_inode s' \<le> next_inode s + n \<and> group_names s' = group_names s"
proof (induction n arbitrary: s p r)
  case (Suc n)
  obtain name r1 where nm: "sample_name R 8 r = (name, r1)" by force
  obtain s1 x1 where s1: "enter_dir name s p = Some (s1, x1)" "build_path R n s1 x1 r1 = Some (s', x, r')"
    using Suc.prems nm by (auto split: bind_splits)
  show ?case using enter_dir_inodes [OF s1(1)] Suc.IH [OF s1(2)] by simp
qed simp

lemma add_group_inodes:
  assumes R: "rng_ok R" and run: "add_group R depth g s r = Some (s', r')"
  shows "next_inode s' \<le> next_inode s + depth + 1"
proof -
  obtain base r1 where base: "sample_name R 8 r = (base, r1)" by force
  obtain dp r2 where dp: "(if depth = 0 then (0, r1) else gen_range R 1 (depth + 1) r1) = (dp, r2)" by force
  have "dp \<le> depth" using dp gen_range_bounds [OF R, of 1 "depth + 1" r1 dp r2] by (auto split: if_splits)
  moreover obtain s1 x r3 where
    "build_path R dp (s\<lparr>group_names := group_names s @ [log_names base g (max_rotations s)]\<rparr>) (root_inode s) r2 = Some (s1, x, r3)"
    "next_inode s' = Suc (next_inode s1)"
    using run base dp by (auto simp: add_group_def Let_def update_children_def split: bind_splits option.splits Node.splits)
  ultimately show ?thesis using build_path_inodes by fastforce
qed

lemma add_groups_inodes:
  "rng_ok R \<Longrightarrow> add_groups R depth gs s r = Some (s', r') \<Longrightarrow> next_inode s' \<le> next_inode s + length gs * (depth + 1)"
proof (induction gs arbitrary: s r)
  case (Cons g gs)
  obtain s1 r1 where s1: "add_group R depth g s r = Some (s1, r1)" "add_groups R depth gs s1 r1 = Some (s', r')"
    using Cons.prems by (auto split: bind_splits)
  show ?case using add_group_inodes [OF Cons.prems(1) s1(1)] Cons.IH [OF Cons.prems(1) s1(2)] by simp
qed simp

lemma State_new_inodes:
  assumes "rng_ok R" "State_new R t rotations sz cache depth logs prof r = Some (s, r')"
  shows "next_inode s \<le> 2 + logs * (depth + 1)"
  using add_groups_inodes [OF assms(1), of depth "[0..<logs]"] assms(2) by (fastforce simp: State_new_def State_empty_def)

lemma State_new_room:
  assumes R: "rng_ok R" and rot: "rotations < 255" and new: "State_new R t rotations sz cache depth logs prof r = Some (s, r')"
    and T: "2 + logs * (depth + 1 + (T - t)) \<le> umax 64"
  shows "fresh_state s logs" "room s T" "now s = t" "initial_tick s = t" "block_cache s = cache" "root_inode s = 1"
    "max_bytes_per_file s = sz" "max_rotations s = rotations" "load_profile s = prof"
proof -
  show fresh: "fresh_state s logs" and n: "now s = t" and "initial_tick s = t" "block_cache s = cache"
    "root_inode s = 1" "max_bytes_per_file s = sz" "max_rotations s = rotations" "load_profile s = prof"
    using State_new_fresh [OF rot, of R t sz cache depth logs prof r] new by auto
  have "length (group_names s) = logs" using fresh by (simp add: fresh_state_def)
  then show "room s T"
    using State_new_inodes [OF R new] T n by (simp add: room_def algebra_simps)
qed

end
