(* ===== verification/Logrotate_Fs.thy ===== *)
theory Logrotate_Fs
  imports Logrotate_New
begin

text \<open>
  The FUSE server of \<^verbatim>\<open>lading/src/generator/file_gen/logrotate_fs.rs\<close>: each handler of
  \<^verbatim>\<open>impl Filesystem for LogrotateFS\<close> reads the clock, locks the state, moves it to the
  present and answers one request. A handler takes the tick \<open>get_current_tick\<close> returned
  as an argument; the mutexes make requests atomic. \<open>fuser\<close>'s reply buffer for directories
  is a parameter \<open>full\<close>: whether the entries added so far leave no place for one more.
  \<open>uid\<close> and \<open>gid\<close> are those of the process; \<open>SystemTime\<close> is a number of seconds.
\<close>

section \<open>Configuration\<close>

text \<open>\<open>byte_unit::Byte\<close> holds a \<open>u128\<close>; \<^verbatim>\<open>as u64\<close> keeps its low bits.\<close>

datatype ConfigProfile = Config_Constant nat | Config_Linear nat nat

fun to_model :: "ConfigProfile \<Rightarrow> LoadProfile" where
  "to_model (Config_Constant bpt) = Constant (bpt mod 2 ^ 64)"
| "to_model (Config_Linear initial_bytes_per_second rate) =
     Linear (initial_bytes_per_second mod 2 ^ 64) (rate mod 2 ^ 64)"

section \<open>State and replies\<close>

record LogrotateFS =
  fs_state :: State
  open_files :: "(nat \<times> FileHandle) list"
  start_time_system :: nat

datatype FileType = RegularFile | Dir

record FileAttr =
  fa_ino :: nat
  fa_size :: nat
  fa_blocks :: nat
  fa_atime :: nat
  fa_mtime :: nat
  fa_ctime :: nat
  fa_crtime :: nat
  fa_kind :: FileType
  fa_perm :: nat
  fa_nlink :: nat
  fa_uid :: nat
  fa_gid :: nat
  fa_rdev :: nat
  fa_blksize :: nat
  fa_flags :: nat

record DirEntry =
  de_ino :: nat
  de_offset :: int
  de_kind :: FileType
  de_name :: string

datatype errno = ENOENT

datatype Reply =
    Reply_entry FileAttr
  | Reply_attr FileAttr
  | Reply_data Bytes
  | Reply_ok
  | Reply_opened nat nat
  | Reply_directory "DirEntry list"
  | Reply_error errno

definition file_kind :: "NodeType \<Rightarrow> FileType" where
  "file_kind k = (case k of NodeType_File \<Rightarrow> RegularFile | NodeType_Directory \<Rightarrow> Dir)"

definition getattr_helper ::
    "(Inode list \<Rightarrow> Inode list) \<Rightarrow> nat \<Rightarrow> nat \<Rightarrow> State \<Rightarrow> nat \<Rightarrow> Tick \<Rightarrow> Inode \<Rightarrow> (FileAttr option \<times> State) option" where
  "getattr_helper ord uid gid s start tick inode = do {
     let nl = nlink s inode mod 2 ^ 32;
     (attr, s) \<leftarrow> getattr ord s tick inode;
     Some (map_option (\<lambda>a.
       \<lparr>fa_ino = attr_inode a, fa_size = attr_size a, fa_blocks = wrapping_add 64 (attr_size a) 511 div 512,
        fa_atime = start + attr_access_tick a, fa_mtime = start + attr_modified_tick a,
        fa_ctime = start + attr_status_tick a, fa_crtime = start + attr_created_tick a,
        fa_kind = file_kind (attr_kind a),
        fa_perm = (if attr_kind a = NodeType_Directory then 493 else 420),
        fa_nlink = nl, fa_uid = uid, fa_gid = gid, fa_rdev = 0, fa_blksize = 512, fa_flags = 0\<rparr>) attr, s)
   }"

section \<open>Handlers\<close>

definition fs_lookup ::
    "(Inode list \<Rightarrow> Inode list) \<Rightarrow> nat \<Rightarrow> nat \<Rightarrow> Tick \<Rightarrow> nat \<Rightarrow> string option \<Rightarrow> LogrotateFS
      \<Rightarrow> (Reply \<times> LogrotateFS) option" where
  "fs_lookup ord uid gid tick parent' name fs = do {
     s \<leftarrow> advance_time ord (fs_state fs) tick;
     let name_str = (case name of Some n \<Rightarrow> n | None \<Rightarrow> '''');
     (found, s) \<leftarrow> lookup ord s tick parent' name_str;
     case found of
       Some ino \<Rightarrow> do {
         (attr, s) \<leftarrow> getattr_helper ord uid gid s (start_time_system fs) tick ino;
         Some (case attr of Some a \<Rightarrow> Reply_entry a | None \<Rightarrow> Reply_error ENOENT, fs\<lparr>fs_state := s\<rparr>)
       }
     | None \<Rightarrow> Some (Reply_error ENOENT, fs\<lparr>fs_state := s\<rparr>)
   }"

definition fs_getattr ::
    "(Inode list \<Rightarrow> Inode list) \<Rightarrow> nat \<Rightarrow> nat \<Rightarrow> Tick \<Rightarrow> nat \<Rightarrow> LogrotateFS \<Rightarrow> (Reply \<times> LogrotateFS) option" where
  "fs_getattr ord uid gid tick ino fs = do {
     s \<leftarrow> advance_time ord (fs_state fs) tick;
     (attr, s) \<leftarrow> getattr_helper ord uid gid s (start_time_system fs) tick ino;
     Some (case attr of Some a \<Rightarrow> Reply_attr a | None \<Rightarrow> Reply_error ENOENT, fs\<lparr>fs_state := s\<rparr>)
   }"

definition fs_read ::
    "(Inode list \<Rightarrow> Inode list) \<Rightarrow> Tick \<Rightarrow> nat \<Rightarrow> nat \<Rightarrow> int \<Rightarrow> nat \<Rightarrow> LogrotateFS \<Rightarrow> (Reply \<times> LogrotateFS) option" where
  "fs_read ord tick ino fh offset sz fs = do {
     s \<leftarrow> advance_time ord (fs_state fs) tick;
     case map_of (open_files fs) fh of
       Some file_handle \<Rightarrow>
         if handle_inode file_handle = ino
         then do {
           (data, s) \<leftarrow> state_read ord s file_handle (nat (offset mod 2 ^ 64)) sz tick;
           Some (case data of Some d \<Rightarrow> Reply_data d | None \<Rightarrow> Reply_error ENOENT, fs\<lparr>fs_state := s\<rparr>)
         }
         else None
     | None \<Rightarrow> Some (Reply_error ENOENT, fs\<lparr>fs_state := s\<rparr>)
   }"

definition fs_release ::
    "(Inode list \<Rightarrow> Inode list) \<Rightarrow> Tick \<Rightarrow> nat \<Rightarrow> LogrotateFS \<Rightarrow> (Reply \<times> LogrotateFS) option" where
  "fs_release ord tick fh fs = do {
     s \<leftarrow> advance_time ord (fs_state fs) tick;
     let file_handle = map_of (open_files fs) fh;
     let fs = fs\<lparr>open_files := AList.delete fh (open_files fs)\<rparr>;
     case file_handle of
       Some handle \<Rightarrow> do {
         s \<leftarrow> close_file ord s tick handle;
         Some (Reply_ok, fs\<lparr>fs_state := s\<rparr>)
       }
     | None \<Rightarrow> Some (Reply_error ENOENT, fs\<lparr>fs_state := s\<rparr>)
   }"

text \<open>
  \<open>reply.add\<close> and the early \<open>return\<close> when it reports a full buffer: the entries so far, and
  whether the handler goes on.
\<close>

definition reply_add ::
    "(DirEntry list \<Rightarrow> DirEntry \<Rightarrow> bool) \<Rightarrow> DirEntry list \<Rightarrow> DirEntry \<Rightarrow> DirEntry list \<times> bool" where
  "reply_add full buf e = (if full buf e then (buf, True) else (buf @ [e], False))"

fun add_children ::
    "(DirEntry list \<Rightarrow> DirEntry \<Rightarrow> bool) \<Rightarrow> State \<Rightarrow> int \<Rightarrow> Inode list \<Rightarrow> int \<Rightarrow> DirEntry list \<Rightarrow> DirEntry list option" where
  "add_children full s offset [] entry_offset buf = Some buf"
| "add_children full s offset (child_ino # rest) entry_offset buf =
     (if offset \<le> entry_offset
      then do {
        file_type \<leftarrow> get_file_type s child_ino;
        found \<leftarrow> get_name s child_ino;
        child_name \<leftarrow> found;
        let (buf, stop) = reply_add full buf
          \<lparr>de_ino = child_ino, de_offset = entry_offset + 1, de_kind = file_kind file_type, de_name = child_name\<rparr>;
        if stop then Some buf else add_children full s offset rest (entry_offset + 1) buf
      }
      else add_children full s offset rest (entry_offset + 1) buf)"

definition add_parent ::
    "(DirEntry list \<Rightarrow> DirEntry \<Rightarrow> bool) \<Rightarrow> State \<Rightarrow> int \<Rightarrow> nat \<Rightarrow> int \<Rightarrow> DirEntry list \<Rightarrow> (DirEntry list \<times> bool) option" where
  "add_parent full s offset ino entry_offset buf =
     (if offset \<le> entry_offset
      then do {
        parent_ino \<leftarrow> get_parent_inode s ino;
        Some (reply_add full buf \<lparr>de_ino = parent_ino, de_offset = entry_offset + 1, de_kind = Dir, de_name = ''..''\<rparr>)
      }
      else Some (buf, False))"

definition readdir_reply ::
    "(DirEntry list \<Rightarrow> DirEntry \<Rightarrow> bool) \<Rightarrow> State \<Rightarrow> nat \<Rightarrow> int \<Rightarrow> Reply option" where
  "readdir_reply full s ino offset = do {
     let entry_offset = 0;
     let (buf, stop) = (if offset \<le> entry_offset
       then reply_add full [] \<lparr>de_ino = ino, de_offset = entry_offset + 1, de_kind = Dir, de_name = ''.''\<rparr>
       else ([], False));
     if stop then Some (Reply_directory buf)
     else do {
       let entry_offset = entry_offset + 1;
       (buf, stop) \<leftarrow> (if ino \<noteq> root_inode s then add_parent full s offset ino entry_offset buf else Some (buf, False));
       if stop then Some (Reply_directory buf)
       else do {
         let entry_offset = (if ino \<noteq> root_inode s then entry_offset + 1 else entry_offset);
         case readdir s ino of
           Some child_inodes \<Rightarrow> map_option Reply_directory (add_children full s offset child_inodes entry_offset buf)
         | None \<Rightarrow> Some (Reply_error ENOENT)
       }
     }
   }"

definition fs_readdir ::
    "(Inode list \<Rightarrow> Inode list) \<Rightarrow> (DirEntry list \<Rightarrow> DirEntry \<Rightarrow> bool) \<Rightarrow> Tick \<Rightarrow> nat \<Rightarrow> int \<Rightarrow> LogrotateFS
      \<Rightarrow> (Reply \<times> LogrotateFS) option" where
  "fs_readdir ord full tick ino offset fs = do {
     s \<leftarrow> advance_time ord (fs_state fs) tick;
     reply \<leftarrow> readdir_reply full s ino offset;
     Some (reply, fs\<lparr>fs_state := s\<rparr>)
   }"

definition fs_open ::
    "(Inode list \<Rightarrow> Inode list) \<Rightarrow> Tick \<Rightarrow> nat \<Rightarrow> int \<Rightarrow> LogrotateFS \<Rightarrow> (Reply \<times> LogrotateFS) option" where
  "fs_open ord tick ino flags fs = do {
     s \<leftarrow> advance_time ord (fs_state fs) tick;
     (file_handle, s) \<leftarrow> open_file ord s tick ino;
     Some (case file_handle of
       Some handle \<Rightarrow>
         (Reply_opened (handle_id handle) (nat (flags mod 2 ^ 32)),
          fs\<lparr>fs_state := s, open_files := AList.update (handle_id handle) handle (open_files fs)\<rparr>)
     | None \<Rightarrow> (Reply_error ENOENT, fs\<lparr>fs_state := s\<rparr>))
   }"

section \<open>The server as a machine\<close>

datatype fs_request =
    Lookup nat "string option"
  | Getattr nat
  | Read nat nat int nat
  | Release nat
  | Readdir nat int
  | Open nat int

fun serve ::
    "(Inode list \<Rightarrow> Inode list) \<Rightarrow> (DirEntry list \<Rightarrow> DirEntry \<Rightarrow> bool) \<Rightarrow> nat \<Rightarrow> nat \<Rightarrow> Tick \<times> fs_request
      \<Rightarrow> LogrotateFS \<Rightarrow> (Reply \<times> LogrotateFS) option" where
  "serve ord full uid gid (tick, Lookup p name) fs = fs_lookup ord uid gid tick p name fs"
| "serve ord full uid gid (tick, Getattr ino) fs = fs_getattr ord uid gid tick ino fs"
| "serve ord full uid gid (tick, Read ino fh offset sz) fs = fs_read ord tick ino fh offset sz fs"
| "serve ord full uid gid (tick, Release fh) fs = fs_release ord tick fh fs"
| "serve ord full uid gid (tick, Readdir ino offset) fs = fs_readdir ord full tick ino offset fs"
| "serve ord full uid gid (tick, Open ino flags) fs = fs_open ord tick ino flags fs"

definition LogrotateFS_new :: "State \<Rightarrow> nat \<Rightarrow> LogrotateFS" where
  "LogrotateFS_new s start = \<lparr>fs_state = s, open_files = [], start_time_system = start\<rparr>"

text \<open>
  What the kernel promises of a request: the clock does not run backwards and stays below the
  horizon; a read passes the inode its handle was opened on; only directories are listed; and
  file handle numbers have not run out.
\<close>

fun request_ok :: "fs_request \<Rightarrow> LogrotateFS \<Rightarrow> bool" where
  "request_ok (Read ino fh offset sz) fs \<longleftrightarrow>
     (case map_of (open_files fs) fh of Some handle \<Rightarrow> handle_inode handle = ino | None \<Rightarrow> True)"
| "request_ok (Readdir ino offset) fs \<longleftrightarrow> is_dir (fs_state fs) ino"
| "request_ok (Open ino flags) fs \<longleftrightarrow> next_file_handle (fs_state fs) + 1 < 2 ^ 64"
| "request_ok _ fs \<longleftrightarrow> True"

definition kernel_ok :: "Tick \<Rightarrow> Tick \<times> fs_request \<Rightarrow> LogrotateFS \<Rightarrow> bool" where
  "kernel_ok T = (\<lambda>(tick, req) fs. now (fs_state fs) \<le> tick \<and> tick \<le> T \<and> request_ok req fs)"

definition fs_inv :: "Tick \<Rightarrow> LogrotateFS \<Rightarrow> bool" where
  "fs_inv T fs \<longleftrightarrow>
     state_inv (fs_state fs) \<and> names_ok (fs_state fs) \<and> cache_ok (block_cache (fs_state fs)) \<and> room (fs_state fs) T \<and>
     (\<forall>h. map_of (open_files fs) h =
        map_option (\<lambda>i. \<lparr>handle_id = h, handle_inode = i\<rparr>) (map_of (valid_file_handles (fs_state fs)) h))"

lemma fs_invD:
  assumes "fs_inv T fs"
  shows fs_inv_state: "state_inv (fs_state fs)" and fs_inv_names: "names_ok (fs_state fs)"
    and fs_inv_cache: "cache_ok (block_cache (fs_state fs))" and fs_inv_room: "room (fs_state fs) T"
    and fs_inv_handles: "\<And>h. map_of (open_files fs) h =
        map_option (\<lambda>i. \<lparr>handle_id = h, handle_inode = i\<rparr>) (map_of (valid_file_handles (fs_state fs)) h)"
  using assms by (simp_all add: fs_inv_def)

text \<open>Each handler starts by moving the state to the present.\<close>

lemma fs_advance:
  assumes "order_ok ord" "fs_inv T fs" "now (fs_state fs) \<le> tick" "tick \<le> T"
  obtains s where "advance_time ord (fs_state fs) tick = Some s" "now s = tick" "later (fs_state fs) s"
    "fs_inv T (fs\<lparr>fs_state := s\<rparr>)" "advance_time ord s tick = Some s"
proof -
  obtain s where s: "advance_time ord (fs_state fs) tick = Some s" "state_inv s" "later (fs_state fs) s"
    "now s = tick" "room s T"
    using advance_total [OF assms(1) fs_inv_state [OF assms(2)] assms(3,4) fs_inv_room [OF assms(2)]] by blast
  moreover have "fs_inv T (fs\<lparr>fs_state := s\<rparr>)"
    using s fs_invD [OF assms(2)] names_ok_later [OF s(3)] by (simp add: fs_inv_def later_frame [OF s(3)])
  moreover have "advance_time ord s tick = Some s" using s(4) advance_time_now by blast
  ultimately show thesis using that by blast
qed

lemma getattr_helper_total:
  assumes "advance_time ord s tick = Some s"
  shows "\<exists>attr. getattr_helper ord uid gid s start tick ino = Some (attr, s)"
  using assms by (simp add: getattr_helper_def getattr_def Let_def)

text \<open>Changes of one file keep the names.\<close>

lemma names_ok_frame:
  "group_names s' = group_names s \<Longrightarrow> max_rotations s' = max_rotations s \<Longrightarrow>
   dirs (map_of (nodes s')) = dirs (map_of (nodes s)) \<Longrightarrow> names_ok s' = names_ok s"
  by (simp add: names_ok_def)

lemma opened_names: "get_node s i = Some (Node_File f) \<Longrightarrow> names_ok (opened s i f) = names_ok s"
  by (rule names_ok_frame) (simp_all add: opened_def map_simps)

lemma closed_names: "get_node s (handle_inode h) = Some (Node_File f) \<Longrightarrow> names_ok (closed s h f) = names_ok s"
  by (rule names_ok_frame) (simp_all add: closed_def map_simps)

lemma was_read_names: "get_node s i = Some (Node_File f) \<Longrightarrow> names_ok (was_read s i f offset sz) = names_ok s"
  by (rule names_ok_frame) (simp_all add: was_read_def map_simps)

lemma fs_lookup_total:
  assumes "order_ok ord" "fs_inv T fs" "now (fs_state fs) \<le> tick" "tick \<le> T"
  shows "\<exists>r fs'. fs_lookup ord uid gid tick p name fs = Some (r, fs') \<and> fs_inv T fs'"
proof -
  obtain s where s: "advance_time ord (fs_state fs) tick = Some s" "now s = tick" "fs_inv T (fs\<lparr>fs_state := s\<rparr>)"
    "advance_time ord s tick = Some s" using fs_advance [OF assms] by blast
  have "state_inv s" using fs_inv_state [OF s(3)] by simp
  from lookup_eq [OF s(4) this] obtain found where
    "lookup ord s tick p (case name of Some n \<Rightarrow> n | None \<Rightarrow> '''') = Some (found, s)" by blast
  moreover obtain attr where "getattr_helper ord uid gid s (start_time_system fs) tick (the found) = Some (attr, s)"
    using getattr_helper_total [OF s(4)] by blast
  ultimately show ?thesis using s by (cases found) (auto simp: fs_lookup_def Let_def split: option.splits)
qed

lemma fs_getattr_total:
  assumes "order_ok ord" "fs_inv T fs" "now (fs_state fs) \<le> tick" "tick \<le> T"
  shows "\<exists>r fs'. fs_getattr ord uid gid tick ino fs = Some (r, fs') \<and> fs_inv T fs'"
proof -
  obtain s where s: "advance_time ord (fs_state fs) tick = Some s" "now s = tick" "fs_inv T (fs\<lparr>fs_state := s\<rparr>)"
    "advance_time ord s tick = Some s" using fs_advance [OF assms] by blast
  moreover obtain attr where "getattr_helper ord uid gid s (start_time_system fs) tick ino = Some (attr, s)"
    using getattr_helper_total [OF s(4)] by blast
  ultimately show ?thesis by (simp add: fs_getattr_def)
qed

lemma fs_valid_handle:
  assumes "fs_inv T fs" "map_of (open_files fs) fh = Some handle"
  shows "valid_handle (fs_state fs) handle" "handle_id handle = fh"
  using assms(2) unfolding fs_inv_handles [OF assms(1)] by (auto simp: valid_handle_def)

text \<open>A read through an open handle, in closed form.\<close>

lemma fs_read_eq:
  assumes A: "order_ok ord" "fs_inv T fs" "now (fs_state fs) \<le> tick" "tick \<le> T"
    and h: "map_of (open_files fs) fh = Some handle" "handle_inode handle = ino"
  obtains s f where "advance_time ord (fs_state fs) tick = Some s" "get_node s ino = Some (Node_File f)"
    "fs_inv T (fs\<lparr>fs_state := was_read s ino f (nat (offset mod 2 ^ 64)) sz\<rparr>)"
    "fs_read ord tick ino fh offset sz fs = Some
       (Reply_data (map (\<lambda>i. cycle_at (block_cache (fs_state fs)) (nat (offset mod 2 ^ 64) + i))
          [0..<window f (nat (offset mod 2 ^ 64)) sz]),
        fs\<lparr>fs_state := was_read s ino f (nat (offset mod 2 ^ 64)) sz\<rparr>)"
proof -
  obtain s where s: "advance_time ord (fs_state fs) tick = Some s" "now s = tick" "later (fs_state fs) s"
    "fs_inv T (fs\<lparr>fs_state := s\<rparr>)" "advance_time ord s tick = Some s" using fs_advance [OF A] by blast
  have inv: "state_inv s" and cache: "cache_ok (block_cache s)" using fs_invD [OF s(4)] by simp_all
  have v: "valid_handle s handle" using fs_valid_handle(1) [OF s(4)] h by simp
  obtain f where f: "get_node s ino = Some (Node_File f)"
    using valid_handle_file [OF state_inv_handles [OF inv] v] h(2) by metis
  let ?o = "nat (offset mod 2 ^ 64)"
  let ?s = "was_read s ino f ?o sz"
  have run: "state_read ord s handle ?o sz tick = Some
      (Some (map (\<lambda>i. cycle_at (block_cache s) (?o + i)) [0..<window f ?o sz]), ?s)"
    using state_read_eq [OF s(5,2) inv cache _ v, of f] f h(2) by simp
  have "fs_inv T (fs\<lparr>fs_state := ?s\<rparr>)"
    using fs_invD [OF s(4)] was_read_inv [OF inv f] was_read_names [OF f] by (simp add: fs_inv_def room_def)
  with s(1) f show thesis
    using run h later_frame(8) [OF s(3)] by (intro that) (simp_all add: fs_read_def)
qed

lemma fs_read_total:
  assumes A: "order_ok ord" "fs_inv T fs" "now (fs_state fs) \<le> tick" "tick \<le> T"
    and ok: "request_ok (Read ino fh offset sz) fs"
  shows "\<exists>r fs'. fs_read ord tick ino fh offset sz fs = Some (r, fs') \<and> fs_inv T fs'"
proof (cases "map_of (open_files fs) fh")
  case None
  obtain s where "advance_time ord (fs_state fs) tick = Some s" "fs_inv T (fs\<lparr>fs_state := s\<rparr>)"
    using fs_advance [OF A] by blast
  then show ?thesis using None by (simp add: fs_read_def)
next
  case (Some handle)
  with ok have "handle_inode handle = ino" by simp
  from fs_read_eq [OF A Some this, of offset sz] show ?thesis by metis
qed

lemma map_of_delete: "map_of (AList.delete k al) = (map_of al)(k := None)"
  by (rule delete_conv')

lemma fs_release_eq:
  assumes A: "order_ok ord" "fs_inv T fs" "now (fs_state fs) \<le> tick" "tick \<le> T"
    and h: "map_of (open_files fs) fh = Some handle"
  obtains s f where "advance_time ord (fs_state fs) tick = Some s" "get_node s (handle_inode handle) = Some (Node_File f)"
    "fs_release ord tick fh fs = Some (Reply_ok,
       fs\<lparr>open_files := AList.delete fh (open_files fs), fs_state := closed s handle f\<rparr>)"
    "fs_inv T (fs\<lparr>open_files := AList.delete fh (open_files fs), fs_state := closed s handle f\<rparr>)"
proof -
  obtain s where s: "advance_time ord (fs_state fs) tick = Some s" "now s = tick" "fs_inv T (fs\<lparr>fs_state := s\<rparr>)"
    "advance_time ord s tick = Some s" using fs_advance [OF A] by blast
  have inv: "state_inv s" using fs_invD [OF s(3)] by simp
  have v: "valid_handle s handle" "handle_id handle = fh" using fs_valid_handle [OF s(3)] h by simp_all
  obtain f where f: "get_node s (handle_inode handle) = Some (Node_File f)"
    using valid_handle_file [OF state_inv_handles [OF inv] v(1)] by metis
  let ?fs = "fs\<lparr>open_files := AList.delete fh (open_files fs), fs_state := closed s handle f\<rparr>"
  have frame: "valid_file_handles (closed s handle f) = AList.delete fh (valid_file_handles s)"
    "block_cache (closed s handle f) = block_cache s" "next_inode (closed s handle f) = next_inode s"
    "now (closed s handle f) = now s" "group_names (closed s handle f) = group_names s"
    by (simp_all add: closed_def v(2))
  have "fs_inv T ?fs"
    using fs_invD [OF s(3)] closed_inv [OF inv v(1) f] closed_names [OF f] by (simp add: fs_inv_def room_def frame map_of_delete)
  with s(1) f show thesis
    using close_file_eq [OF s(4,2) inv v(1) f] h by (intro that) (simp_all add: fs_release_def Let_def)
qed

lemma fs_release_total:
  assumes A: "order_ok ord" "fs_inv T fs" "now (fs_state fs) \<le> tick" "tick \<le> T"
  shows "\<exists>r fs'. fs_release ord tick fh fs = Some (r, fs') \<and> fs_inv T fs'"
proof (cases "map_of (open_files fs) fh")
  case None
  then have "AList.delete fh (open_files fs) = open_files fs" by (simp add: map_of_eq_None_iff AList.delete_idem)
  moreover obtain s where "advance_time ord (fs_state fs) tick = Some s" "fs_inv T (fs\<lparr>fs_state := s\<rparr>)"
    using fs_advance [OF A] by blast
  ultimately show ?thesis using None by (simp add: fs_release_def)
next
  case (Some handle)
  from fs_release_eq [OF A Some] show ?thesis by metis
qed

lemma fs_open_eq:
  assumes A: "order_ok ord" "fs_inv T fs" "now (fs_state fs) \<le> tick" "tick \<le> T"
    and h: "next_file_handle (fs_state fs) + 1 < 2 ^ 64"
  obtains s where "advance_time ord (fs_state fs) tick = Some s" "fs_inv T (fs\<lparr>fs_state := s\<rparr>)"
    "\<And>f. get_node s ino = Some (Node_File f) \<Longrightarrow>
      let fh = next_file_handle (fs_state fs);
          fs' = fs\<lparr>fs_state := opened s ino f,
            open_files := AList.update fh \<lparr>handle_id = fh, handle_inode = ino\<rparr> (open_files fs)\<rparr>
      in fs_open ord tick ino flags fs = Some (Reply_opened fh (nat (flags mod 2 ^ 32)), fs') \<and> fs_inv T fs'"
    "\<nexists>f. get_node s ino = Some (Node_File f) \<Longrightarrow>
      fs_open ord tick ino flags fs = Some (Reply_error ENOENT, fs\<lparr>fs_state := s\<rparr>)"
proof -
  obtain s where s: "advance_time ord (fs_state fs) tick = Some s" "now s = tick" "later (fs_state fs) s"
    "fs_inv T (fs\<lparr>fs_state := s\<rparr>)" "advance_time ord s tick = Some s" using fs_advance [OF A] by blast
  have inv: "state_inv s" using fs_invD [OF s(4)] by simp
  have nfh: "next_file_handle s = next_file_handle (fs_state fs)" using later_frame(7) [OF s(3)] .
  note run = open_file_eq [OF s(5,2) state_inv_handles [OF inv], of ino]
  show thesis
  proof (rule that [OF s(1,4)])
    fix f assume f: "get_node s ino = Some (Node_File f)"
    let ?h = "next_file_handle (fs_state fs)"
    let ?fs = "fs\<lparr>fs_state := opened s ino f,
      open_files := AList.update ?h \<lparr>handle_id = ?h, handle_inode = ino\<rparr> (open_files fs)\<rparr>"
    have frame: "block_cache (opened s ino f) = block_cache s" "next_inode (opened s ino f) = next_inode s"
      "now (opened s ino f) = now s" "group_names (opened s ino f) = group_names s"
      "valid_file_handles (opened s ino f) = valid_file_handles s @ [(?h, ino)]" by (simp_all add: opened_def nfh)
    have "map_of (valid_file_handles s) ?h = None"
      using handles_ok_fresh [OF state_inv_handles [OF inv]] by (simp add: map_of_eq_None_iff nfh)
    then have "fs_inv T ?fs"
      using fs_invD [OF s(4)] opened_inv [OF inv f] opened_names [OF f] h nfh
      by (auto simp: fs_inv_def room_def frame update_conv' map_add_def split: option.splits)
    with run f h nfh s(1) show "let fh = ?h; fs' = fs\<lparr>fs_state := opened s ino f,
            open_files := AList.update fh \<lparr>handle_id = fh, handle_inode = ino\<rparr> (open_files fs)\<rparr>
      in fs_open ord tick ino flags fs = Some (Reply_opened fh (nat (flags mod 2 ^ 32)), fs') \<and> fs_inv T fs'"
      by (simp add: Let_def fs_open_def)
  next
    assume "\<nexists>f. get_node s ino = Some (Node_File f)"
    then show "fs_open ord tick ino flags fs = Some (Reply_error ENOENT, fs\<lparr>fs_state := s\<rparr>)"
      using run h nfh s(1) by (auto simp: fs_open_def split: option.splits Node.splits)
  qed
qed

lemma fs_open_total:
  assumes A: "order_ok ord" "fs_inv T fs" "now (fs_state fs) \<le> tick" "tick \<le> T"
    and ok: "request_ok (Open ino flags) fs"
  shows "\<exists>r fs'. fs_open ord tick ino flags fs = Some (r, fs') \<and> fs_inv T fs'"
proof -
  have h: "next_file_handle (fs_state fs) + 1 < 2 ^ 64" using ok by simp
  show ?thesis by (rule fs_open_eq [OF A h, of ino flags]) (metis (no_types, lifting))
qed

section \<open>Directory listings\<close>

text \<open>The whole listing of a directory, each entry carrying the offset of the next.\<close>

definition entry_at :: "int \<Rightarrow> nat \<times> FileType \<times> string \<Rightarrow> DirEntry" where
  "entry_at k = (\<lambda>(i, t, nm). \<lparr>de_ino = i, de_offset = k + 1, de_kind = t, de_name = nm\<rparr>)"

fun entries_from :: "int \<Rightarrow> (nat \<times> FileType \<times> string) list \<Rightarrow> DirEntry list" where
  "entries_from k [] = []"
| "entries_from k (e # es) = entry_at k e # entries_from (k + 1) es"

definition child_info :: "State \<Rightarrow> Inode \<Rightarrow> nat \<times> FileType \<times> string" where
  "child_info s x = (x, file_kind (the (get_file_type s x)), the (the (get_name s x)))"

definition listing :: "State \<Rightarrow> nat \<Rightarrow> DirEntry list" where
  "listing s ino = entries_from 0
     ([(ino, Dir, ''.'')] @
      (if ino \<noteq> root_inode s then [(the (get_parent_inode s ino), Dir, ''..'')] else []) @
      map (child_info s) (the (readdir s ino)))"

text \<open>Filling the buffer in order until it is full.\<close>

fun fill :: "(DirEntry list \<Rightarrow> DirEntry \<Rightarrow> bool) \<Rightarrow> DirEntry list \<Rightarrow> DirEntry list \<Rightarrow> DirEntry list" where
  "fill full buf [] = buf"
| "fill full buf (e # es) = (if full buf e then buf else fill full (buf @ [e]) es)"

lemma fill_take:
  "\<exists>n \<le> length es. fill full buf es = buf @ take n es \<and> (n < length es \<longrightarrow> full (buf @ take n es) (es ! n))"
proof (induction es arbitrary: buf)
  case (Cons e es)
  show ?case
  proof (cases "full buf e")
    case True
    then show ?thesis by (intro exI [of _ 0]) simp
  next
    case False
    from Cons.IH [of "buf @ [e]"] obtain n where "n \<le> length es" "fill full (buf @ [e]) es = (buf @ [e]) @ take n es"
      "n < length es \<longrightarrow> full ((buf @ [e]) @ take n es) (es ! n)" by blast
    with False show ?thesis by (intro exI [of _ "Suc n"]) simp
  qed
qed simp

lemma length_entries_from [simp]: "length (entries_from k es) = length es"
  by (induction es arbitrary: k) auto

lemma entries_from_nth: "i < length es \<Longrightarrow> entries_from k es ! i = entry_at (k + int i) (es ! i)"
  by (induction es arbitrary: k i) (auto simp: nth_Cons add.assoc split: nat.splits)

lemma entries_from_append: "entries_from k (xs @ ys) = entries_from k xs @ entries_from (k + int (length xs)) ys"
  by (induction xs arbitrary: k) (auto simp: add.assoc add.left_commute)

lemma add_children_fill:
  assumes "\<And>x. x \<in> set xs \<Longrightarrow> get_file_type s x \<noteq> None \<and> (\<exists>nm. get_name s x = Some (Some nm))"
  shows "add_children full s offset xs k buf =
    Some (fill full buf (drop (nat (offset - k)) (entries_from k (map (child_info s) xs))))"
  using assms
proof (induction xs arbitrary: k buf)
  case (Cons x xs)
  obtain t nm where x: "get_file_type s x = Some t" "get_name s x = Some (Some nm)" using Cons.prems [of x] by auto
  show ?case
  proof (cases "offset \<le> k")
    case True
    then show ?thesis
      using Cons x by (simp add: reply_add_def entry_at_def child_info_def Let_def)
  next
    case False
    then have "nat (offset - k) = Suc (nat (offset - (k + 1)))" by simp
    then show ?thesis using False Cons by simp
  qed
qed simp

lemma directory_children_named:
  assumes inv: "state_inv s" and d: "get_node s p = Some (Node_Directory nm d)" and x: "x \<in> set (children d)"
  shows "get_file_type s x \<noteq> None \<and> (\<exists>name. get_name s x = Some (Some name))"
  using node_name_child [OF inv d x] by (metis (no_types, lifting) get_file_type_def get_name_def option.distinct(1)
      option.simps(5) option.simps(8) option.simps(9))

lemma readdir_reply_fill:
  assumes inv: "state_inv s" and d: "is_dir s ino"
  shows "readdir_reply full s ino offset = Some (Reply_directory (fill full [] (drop (nat offset) (listing s ino))))"
proof -
  obtain nm dir where dir: "get_node s ino = Some (Node_Directory nm dir)" using d by (auto simp: is_dir_def)
  have rd: "readdir s ino = Some (children dir)" using dir by (simp add: readdir_def)
  have "get_parent_inode s ino \<noteq> None" using dir by (simp add: get_parent_inode_def)
  then obtain pp where pp: "get_parent_inode s ino = Some pp" by blast
  note kids = add_children_fill [of "children dir" s, OF directory_children_named [OF inv dir]]
  have n1: "nat offset = Suc (nat (offset - 1))" if "\<not> offset \<le> 0" using that by simp
  have n2: "nat (offset - 1) = Suc (nat (offset - 2))" if "\<not> offset \<le> 1" using that by simp
  show ?thesis
    using rd pp n1 n2
    by (cases "offset \<le> 0"; cases "offset \<le> 1"; cases "ino = root_inode s")
      (simp_all add: readdir_reply_def listing_def kids add_parent_def reply_add_def entry_at_def Let_def)
qed

lemma is_dir_dirs: "is_dir s x \<longleftrightarrow> dirs (map_of (nodes s)) x \<noteq> None"
  by (auto simp: is_dir_def dirs_def split: option.splits Node.splits)

lemma is_dir_later: "later s s' \<Longrightarrow> is_dir s' x = is_dir s x"
  by (simp add: is_dir_dirs later_frame)

lemma fs_readdir_total:
  assumes A: "order_ok ord" "fs_inv T fs" "now (fs_state fs) \<le> tick" "tick \<le> T"
    and ok: "request_ok (Readdir ino offset) fs"
  shows "\<exists>r fs'. fs_readdir ord full tick ino offset fs = Some (r, fs') \<and> fs_inv T fs'"
proof -
  obtain s where s: "advance_time ord (fs_state fs) tick = Some s" "later (fs_state fs) s" "fs_inv T (fs\<lparr>fs_state := s\<rparr>)"
    using fs_advance [OF A] by blast
  have "is_dir s ino" using ok is_dir_later [OF s(2)] by simp
  with s readdir_reply_fill [of s ino] fs_inv_state [OF s(3)] show ?thesis by (simp add: fs_readdir_def)
qed

section \<open>Every request is answered\<close>

lemma serve_progress:
  assumes "order_ok ord" "fs_inv T fs" "kernel_ok T op fs"
  shows "\<exists>r fs'. serve ord full uid gid op fs = Some (r, fs') \<and> fs_inv T fs'"
proof -
  obtain tick req where op: "op = (tick, req)" by force
  have A: "now (fs_state fs) \<le> tick" "tick \<le> T" "request_ok req fs" using assms(3) op by (auto simp: kernel_ok_def)
  note run = assms(1,2) A(1,2)
  show ?thesis unfolding op
    using A(3) fs_lookup_total [OF run] fs_getattr_total [OF run] fs_read_total [OF run] fs_release_total [OF run]
      fs_readdir_total [OF run] fs_open_total [OF run] by (cases req) auto
qed

text \<open>
  The server is a guarded machine. Each mapping order gives one; the locale's facts are used
  at an order that keeps the keys.
\<close>

definition fixed_order :: "(Inode list \<Rightarrow> Inode list) \<Rightarrow> Inode list \<Rightarrow> Inode list" where
  "fixed_order ord = (if order_ok ord then ord else (\<lambda>xs. xs))"

lemma fixed_order_ok [simp]: "order_ok (fixed_order ord)" "order_ok ord \<Longrightarrow> fixed_order ord = ord"
  by (simp_all add: fixed_order_def order_ok_id)

interpretation server: guarded_machine "serve (fixed_order ord) full uid gid" "kernel_ok T" "fs_inv T"
  for ord full uid gid T
proof
  show "fs_inv T s'" if "fs_inv T s" "kernel_ok T op s" "serve (fixed_order ord) full uid gid op s = Some (r, s')" for s op r s'
    using serve_progress [OF fixed_order_ok(1) that(1,2), of ord full uid gid] that(3) by auto
  show "serve (fixed_order ord) full uid gid op s \<noteq> None" if "fs_inv T s" "kernel_ok T op s" for s op
    using serve_progress [OF fixed_order_ok(1) that, of ord full uid gid] by auto
qed

lemma LogrotateFS_new_inv:
  assumes "fresh_state s n" "cache_ok (block_cache s)" "room s T"
  shows "fs_inv T (LogrotateFS_new s start)"
  using assms by (simp add: fs_inv_def fresh_state_def LogrotateFS_new_def)

end
