(* ===== verification/Logrotate_Props.thy ===== *)
theory Logrotate_Props
  imports Logrotate_Fs
begin

text \<open>
  What the logrotate filesystem promises, from its construction through any run of requests:
  it never panics, its files hold exactly the bytes their life gave them, each group keeps
  one file being written and a bounded, ordered chain of rotated ones, reads through an
  open handle return the window of the generated stream, and listings and lookups agree.
\<close>

section \<open>A concrete filesystem\<close>

text \<open>One group at four bytes a tick, rotated at ten bytes, one rotation kept.\<close>

definition demo :: State where
  "demo = \<lparr>nodes =
      [(1, Node_Directory ''/'' \<lparr>children = [2], dir_parent = None\<rparr>), (2, Node_File (File_new 1 0 0 0 None))],
      root_inode = 1, now = 0, initial_tick = 0, block_cache = two_blocks, max_bytes_per_file = 10, max_rotations = 1,
      group_names = [[''abcdefgh_0.log'', ''abcdefgh_0.log.1'']], next_inode = 3, next_file_handle = 0,
      load_profile = Constant 4, valid_file_handles = []\<rparr>"

lemma demo_new: "State_new counter_rng 0 1 10 two_blocks 0 1 (Constant 4) 0 = Some (demo, 8)"
  by code_simp

lemma demo_cache [simp]: "cache_ok two_blocks"
  by (simp add: two_blocks_def cache_ok_def block_ok_def)

lemma demo_horizon: "2 + 1 * (0 + 1 + (1000 - 0)) \<le> umax 64"
  by (simp add: umax_def)

lemma demo_inv: "fs_inv 1000 (LogrotateFS_new demo 0)"
  using State_new_room [OF counter_rng_ok _ demo_new demo_horizon] by (intro LogrotateFS_new_inv) auto

text \<open>The same with the first file open on handle 0.\<close>

definition demo_open :: LogrotateFS where
  "demo_open = \<lparr>fs_state = opened demo 2 (File_new 1 0 0 0 None), open_files = [(0, \<lparr>handle_id = 0, handle_inode = 2\<rparr>)],
     start_time_system = 0\<rparr>"

lemma demo_fields [simp]:
  "now demo = 0" "next_file_handle demo = 0" "valid_file_handles demo = []" "block_cache demo = two_blocks"
  "nodes demo = [(1, Node_Directory ''/'' \<lparr>children = [2], dir_parent = None\<rparr>), (2, Node_File (File_new 1 0 0 0 None))]"
  by (simp_all add: demo_def)

lemma demo_open_serve:
  "serve ord full uid gid (0, Open 2 0) (LogrotateFS_new demo 0) = Some (Reply_opened 0 0, demo_open)"
  using advance_time_now [of ord demo]
  by (simp add: fs_open_def LogrotateFS_new_def open_file_def Let_def demo_open_def opened_def wrapping_add_def)

lemma demo_open_reached:
  "reaches (serve ord full uid gid) (kernel_ok 1000) (LogrotateFS_new demo 0) demo_open"
  by (rule reaches_step [where s = "LogrotateFS_new demo 0" and op = "(0, Open 2 0)"])
    (rule reaches_start demo_open_serve | simp add: kernel_ok_def LogrotateFS_new_def)+

lemma file_timed_sizes:
  "file_timed s f \<Longrightarrow> read_only f \<Longrightarrow>
     max_bytes_per_file s \<le> bytes_written f \<and> bytes_written f \<le> max_bytes_per_file s + 2 * bytes_per_tick f"
  unfolding file_timed_def by (elim conjE) (simp only: if_True)

section \<open>Properties\<close>

text \<open>
  C5. The filesystem never panics. From a newly built state on, after any run of requests a
  kernel may send (ticks that do not run backwards up to a horizon for which there are
  inode numbers, reads that pass their handle's inode, listings of directories, handle
  numbers left), every further such request is answered.
\<close>

theorem filesystem_never_panics:
  assumes "rng_ok R" "rotations < 255" "cache_ok cache" "order_ok ord"
    and "State_new R t0 rotations sz cache depth logs prof r = Some (s, r')"
    and "2 + logs * (depth + 1 + (T - t0)) \<le> umax 64"
    and "reaches (serve ord full uid gid) (kernel_ok T) (LogrotateFS_new s start) fs"
    and "kernel_ok T req fs"
  shows "\<exists>reply fs'. serve ord full uid gid req fs = Some (reply, fs')"
proof -
  have "fs_inv T (LogrotateFS_new s start)"
    using State_new_room [OF assms(1,2,5,6)] assms(3) by (intro LogrotateFS_new_inv) auto
  from server.never_stuck [OF _ this assms(8), of ord full uid gid] assms(4,7) show ?thesis by simp
qed

theorem filesystem_never_panics_witness:
  "State_new counter_rng 0 1 10 two_blocks 0 1 (Constant 4) 0 = Some (demo, 8) \<and>
     reaches (serve rev (\<lambda>_ _. False) 0 0) (kernel_ok 1000) (LogrotateFS_new demo 0) demo_open \<and>
     (\<exists>reply fs'. serve rev (\<lambda>_ _. False) 0 0 (1000, Release 0) demo_open = Some (reply, fs'))"
proof -
  have "kernel_ok 1000 (1000, Release 0) demo_open" by (simp add: kernel_ok_def demo_open_def opened_def)
  with filesystem_never_panics [OF counter_rng_ok _ demo_cache order_ok_rev demo_new demo_horizon demo_open_reached]
  have "\<exists>reply fs'. serve rev (\<lambda>_ _. False) 0 0 (1000, Release 0) demo_open = Some (reply, fs')" by (simp del: serve.simps)
  then show ?thesis using demo_new demo_open_reached by blast
qed

text \<open>
  C9. Bytes are accounted for exactly. Advancing a newly built state to any tick within the
  horizon succeeds, in any iteration order of the node map, and then every file holds the sum
  of the load profile's rates over the ticks of its life (capped at the width of \<open>u64\<close>); a
  rotated file has reached the rotation size and exceeds it by at most two ticks' bytes.
\<close>

theorem advance_time_bytes:
  assumes "rng_ok R" "rotations < 255" "order_ok ord"
    and "State_new R t0 rotations sz cache depth logs prof r = Some (s, r')"
    and "2 + logs * (depth + 1 + (t - t0)) \<le> umax 64" "t0 \<le> t"
  shows "\<exists>s'. advance_time ord s t = Some s' \<and> now s' = t \<and>
     (\<forall>x f. get_node s' x = Some (Node_File f) \<longrightarrow>
        (let b = (if read_only f then the (read_only_since f) else t)
         in created_tick f \<le> b \<and>
            bytes_written f = min (\<Sum>u = created_tick f..<b. profile_rate prof (u - t0)) (umax 64)) \<and>
        (read_only f \<longrightarrow> sz \<le> bytes_written f \<and> bytes_written f \<le> sz + 2 * bytes_per_tick f))"
proof -
  note new = State_new_room [OF assms(1,2,4,5)]
  obtain s' where s': "advance_time ord s t = Some s'" "state_inv s'" "later s s'" "now s' = t"
    using advance_total [OF assms(3) _ _ order_refl, of s t] new assms(6) by (auto simp: fresh_state_def)
  have frame: "max_bytes_per_file s' = sz" "load_profile s' = prof" "initial_tick s' = t0"
    using later_frame [OF s'(3)] new by simp_all
  have "(let b = (if read_only f then the (read_only_since f) else t)
         in created_tick f \<le> b \<and>
            bytes_written f = min (\<Sum>u = created_tick f..<b. profile_rate prof (u - t0)) (umax 64)) \<and>
        (read_only f \<longrightarrow> sz \<le> bytes_written f \<and> bytes_written f \<le> sz + 2 * bytes_per_tick f)"
    if f: "get_node s' x = Some (Node_File f)" for x f
  proof -
    note cur = state_inv_current [OF s'(2) f]
    have timed: "file_timed s' f" using cur by blast
    have e: "end_tick f = (if read_only f then the (read_only_since f) else t)"
      using cur s'(4) by (auto simp: end_tick_def file_timed_def file_ok_def)
    have "created_tick f \<le> end_tick f"
      "bytes_written f = min (\<Sum>u = created_tick f..<end_tick f. profile_rate prof (u - t0)) (umax 64)"
      using timed unfolding file_timed_def expected_bytes_def rate_at_def frame by presburger+
    moreover have "read_only f \<longrightarrow> sz \<le> bytes_written f \<and> bytes_written f \<le> sz + 2 * bytes_per_tick f"
      using file_timed_sizes [OF timed] unfolding frame by (rule impI)
    ultimately show ?thesis unfolding Let_def e [symmetric] by (intro conjI)
  qed
  with s' show ?thesis by blast
qed

theorem advance_time_bytes_witness:
  "\<exists>s'. advance_time rev demo 1000 = Some s' \<and> now s' = 1000 \<and>
     (\<forall>x f. get_node s' x = Some (Node_File f) \<longrightarrow>
        (let b = (if read_only f then the (read_only_since f) else 1000)
         in created_tick f \<le> b \<and>
            bytes_written f = min (\<Sum>u = created_tick f..<b. profile_rate (Constant 4) (u - 0)) (umax 64)) \<and>
        (read_only f \<longrightarrow> 10 \<le> bytes_written f \<and> bytes_written f \<le> 10 + 2 * bytes_per_tick f))"
  using advance_time_bytes [OF counter_rng_ok _ order_ok_rev demo_new demo_horizon] by simp

definition linked_files :: "State \<Rightarrow> nat \<Rightarrow> (Inode \<times> File) set" where
  "linked_files s g = {(x, f). get_node s x = Some (Node_File f) \<and> group_id f = g \<and> \<not> unlinked f}"

lemma rseg_nth:
  "rseg m g p k is \<Longrightarrow> j < length is \<Longrightarrow> \<exists>f. m (is ! j) = Some (Node_File f) \<and> group_id f = g \<and> \<not> unlinked f \<and>
     ordinal f = k + j \<and> read_only f \<and> peer f = (if Suc j < length is then Some (is ! Suc j) else None)"
proof (induction "is" arbitrary: k j)
  case (Cons i "is")
  show ?case
  proof (cases j)
    case 0
    then show ?thesis using Cons.prems by (cases "is") auto
  next
    case (Suc j')
    then show ?thesis using Cons.IH [of "Suc k" j'] Cons.prems by auto
  qed
qed simp

lemma chain_nth:
  assumes "chain m r g p c" "j < length c"
  shows "\<exists>f. m (c ! j) = Some (Node_File f) \<and> group_id f = g \<and> \<not> unlinked f \<and> ordinal f = j \<and>
     (read_only f \<longleftrightarrow> j \<noteq> 0) \<and> peer f = (if Suc j < length c then Some (c ! Suc j) else None)"
proof -
  obtain h ts f where c: "c = h # ts" "m h = Some (Node_File f)" "group_id f = g" "ordinal f = 0" "\<not> unlinked f"
    "\<not> read_only f" "peer f = link ts" "rseg m g p 1 ts" using assms(1) unfolding chain_def by blast
  show ?thesis
  proof (cases j)
    case 0
    then show ?thesis using c by (cases ts) auto
  next
    case (Suc j')
    then show ?thesis using c assms(2) rseg_nth [OF c(8), of j'] by auto
  qed
qed

text \<open>
  C10. Rotation keeps each group in shape. After advancing a newly built state, every group has
  one file being written, with ordinal 0; the files still linked have distinct ordinals that
  fill the range from 0 up without gaps; there are at most one more of them than the
  configured rotations; and the peer of each is the file with the next ordinal.
\<close>

theorem rotation_chains:
  assumes "rng_ok R" "rotations < 255" "order_ok ord"
    and "State_new R t0 rotations sz cache depth logs prof r = Some (s, r')"
    and "2 + logs * (depth + 1 + (t - t0)) \<le> umax 64" "t0 \<le> t" "g < logs"
  shows "\<exists>s' c. advance_time ord s t = Some s' \<and> c \<noteq> [] \<and> length c \<le> rotations + 1 \<and> distinct c \<and>
     fst ` linked_files s' g = set c \<and>
     (\<forall>j < length c. \<exists>f. (c ! j, f) \<in> linked_files s' g \<and> ordinal f = j \<and> (read_only f \<longleftrightarrow> j \<noteq> 0) \<and>
        peer f = (if Suc j < length c then Some (c ! Suc j) else None))"
proof -
  note new = State_new_room [OF assms(1,2,4,5)]
  obtain s' where s': "advance_time ord s t = Some s'" "state_inv s'" "later s s'"
    using advance_total [OF assms(3) _ _ order_refl, of s t] new assms(6) by (auto simp: fresh_state_def)
  have len: "length (group_names s') = logs" "max_rotations s' = rotations"
    using later_frame [OF s'(3)] new by (simp_all add: fresh_state_def)
  obtain p c where ch: "chain (map_of (nodes s')) rotations g p c"
    and all: "\<And>x f. get_node s' x = Some (Node_File f) \<Longrightarrow> group_id f = g \<Longrightarrow> \<not> unlinked f \<Longrightarrow> x \<in> set c"
    using groups_ok_group [OF state_inv_groups [OF s'(2)], of g] assms(7) len unfolding group_ok_def by metis
  have "c \<noteq> []" "length c \<le> rotations + 1" "distinct c" using ch unfolding chain_def by auto
  moreover have "fst ` linked_files s' g = set c"
    using all chain_file [OF ch] by (force simp: linked_files_def)
  moreover have "\<exists>f. (c ! j, f) \<in> linked_files s' g \<and> ordinal f = j \<and> (read_only f \<longleftrightarrow> j \<noteq> 0) \<and>
        peer f = (if Suc j < length c then Some (c ! Suc j) else None)" if "j < length c" for j
    using chain_nth [OF ch that] by (auto simp: linked_files_def)
  ultimately show ?thesis using s'(1) by blast
qed

theorem rotation_chains_witness:
  "\<exists>s' c. advance_time rev demo 1000 = Some s' \<and> c \<noteq> [] \<and> length c \<le> 1 + 1 \<and> distinct c \<and>
     fst ` linked_files s' 0 = set c \<and>
     (\<forall>j < length c. \<exists>f. (c ! j, f) \<in> linked_files s' 0 \<and> ordinal f = j \<and> (read_only f \<longleftrightarrow> j \<noteq> 0) \<and>
        peer f = (if Suc j < length c then Some (c ! Suc j) else None))"
  by (rule rotation_chains [OF counter_rng_ok _ order_ok_rev demo_new demo_horizon, of 0]) simp_all

text \<open>
  C11. Reads through an open handle. Whatever requests came before, and even when the file was
  rotated away since it was opened, a read through an open handle returns the bytes of the
  generated stream at the requested offset, as many as were asked for and the file holds.
\<close>

theorem read_returns_window:
  assumes "rng_ok R" "rotations < 255" "cache_ok cache" "order_ok ord"
    and "State_new R t0 rotations limit cache depth logs prof r = Some (s0, r')"
    and "2 + logs * (depth + 1 + (T - t0)) \<le> umax 64"
    and "reaches (serve ord full uid gid) (kernel_ok T) (LogrotateFS_new s0 start) fs"
    and "now (fs_state fs) \<le> tick" "tick \<le> T"
    and "map_of (open_files fs) fh = Some handle" "handle_inode handle = ino" "0 \<le> offset" "offset < 2 ^ 63"
  shows "\<exists>s f data fs'. advance_time ord (fs_state fs) tick = Some s \<and> get_node s ino = Some (Node_File f) \<and>
     fs_read ord tick ino fh offset sz fs = Some (Reply_data data, fs') \<and> open_files fs' = open_files fs \<and>
     length data = min (bytes_written f - nat offset) sz \<and>
     (\<forall>i < length data. data ! i = cycle_at (block_cache (fs_state fs)) (nat offset + i))"
proof -
  have "fs_inv T (LogrotateFS_new s0 start)"
    using State_new_room [OF assms(1,2,5,6)] assms(3) by (intro LogrotateFS_new_inv) auto
  then have inv: "fs_inv T fs" using server.reaches_inv [of ord full uid gid T _ fs] assms(4,7) by simp
  have off: "nat (offset mod 18446744073709551616) = nat offset" using assms(12,13) by simp
  show ?thesis
    by (rule fs_read_eq [OF assms(4) inv assms(8-11), of offset sz]) (auto simp: off window_def)
qed

theorem read_returns_window_witness:
  "\<exists>s f data fs'. advance_time rev (fs_state demo_open) 50 = Some s \<and> get_node s 2 = Some (Node_File f) \<and>
     fs_read rev 50 2 0 6 100 demo_open = Some (Reply_data data, fs') \<and> open_files fs' = open_files demo_open \<and>
     length data = min (bytes_written f - nat 6) 100 \<and>
     (\<forall>i < length data. data ! i = cycle_at (block_cache (fs_state demo_open)) (nat 6 + i))"
  by (rule read_returns_window [OF counter_rng_ok _ demo_cache order_ok_rev demo_new demo_horizon demo_open_reached,
        where handle = "\<lparr>handle_id = 0, handle_inode = 2\<rparr>"])
    (simp_all add: demo_open_def opened_def)

text \<open>
  C14. Directory listings can be paged. Listing a directory from any offset answers with the entries of its full listing from that
  offset on, as many as the reply buffer takes, and stops early only on a full buffer; each
  entry carries the offset of its successor, so asking again with the last offset seen goes on
  without gaps or repetitions.
\<close>

theorem readdir_pages:
  assumes "order_ok ord" "fs_inv T fs" "now (fs_state fs) \<le> tick" "tick \<le> T" "is_dir (fs_state fs) ino" "0 \<le> offset"
  shows "\<exists>s n. advance_time ord (fs_state fs) tick = Some s \<and>
     (let L = listing s ino; rest = drop (nat offset) L in
        n \<le> length rest \<and>
        fs_readdir ord full tick ino offset fs = Some (Reply_directory (take n rest), fs\<lparr>fs_state := s\<rparr>) \<and>
        (n < length rest \<longrightarrow> full (take n rest) (rest ! n)) \<and>
        (\<forall>k < length L. de_offset (L ! k) = int k + 1))"
proof -
  obtain s where s: "advance_time ord (fs_state fs) tick = Some s" "later (fs_state fs) s" "fs_inv T (fs\<lparr>fs_state := s\<rparr>)"
    using fs_advance [OF assms(1-4)] by blast
  let ?L = "listing s ino"
  have d: "is_dir s ino" using assms(5) is_dir_later [OF s(2)] by simp
  have inv: "state_inv s" using fs_inv_state [OF s(3)] by simp
  obtain n where n: "n \<le> length (drop (nat offset) ?L)" "fill full [] (drop (nat offset) ?L) = take n (drop (nat offset) ?L)"
    "n < length (drop (nat offset) ?L) \<longrightarrow> full (take n (drop (nat offset) ?L)) (drop (nat offset) ?L ! n)"
    using fill_take [of "drop (nat offset) ?L" full "[]"] by auto
  have "fs_readdir ord full tick ino offset fs =
      Some (Reply_directory (take n (drop (nat offset) ?L)), fs\<lparr>fs_state := s\<rparr>)"
    using s(1) readdir_reply_fill [OF inv d, of full offset] n(2) by (simp add: fs_readdir_def)
  moreover have "de_offset (?L ! k) = int k + 1" if "k < length ?L" for k
    using that unfolding listing_def by (simp add: entries_from_nth entry_at_def split_beta del: entries_from.simps append.simps)
  ultimately show ?thesis using s(1) n by (auto simp: Let_def)
qed

theorem readdir_pages_witness:
  "\<exists>s n. advance_time rev (fs_state (LogrotateFS_new demo 0)) 9 = Some s \<and>
     (let L = listing s 1; rest = drop (nat 1) L in
        n \<le> length rest \<and>
        fs_readdir rev (\<lambda>buf e. buf \<noteq> []) 9 1 1 (LogrotateFS_new demo 0) =
          Some (Reply_directory (take n rest), (LogrotateFS_new demo 0)\<lparr>fs_state := s\<rparr>) \<and>
        (n < length rest \<longrightarrow> (\<lambda>buf e. buf \<noteq> []) (take n rest) (rest ! n)) \<and>
        (\<forall>k < length L. de_offset (L ! k) = int k + 1))"
  by (rule readdir_pages [OF order_ok_rev demo_inv]) (simp_all add: LogrotateFS_new_def is_dir_def)

lemma find_unique: "x \<in> set xs \<Longrightarrow> P x \<Longrightarrow> (\<And>y. y \<in> set xs \<Longrightarrow> P y \<Longrightarrow> y = x) \<Longrightarrow> find P xs = Some x"
proof (induction xs)
  case (Cons a xs)
  then have "P a \<longleftrightarrow> a = x" by (metis list.set_intros(1))
  moreover have "find P xs = Some x" if "a \<noteq> x"
    using Cons.prems that by (intro Cons.IH) auto
  ultimately show ?case by simp
qed simp

text \<open>
  Listings and lookups agree. In a state that satisfies the invariant, no two entries of a
  directory have the same name, and looking a child's name up in its directory finds that child.
\<close>

theorem lookup_finds_child:
  assumes "order_ok ord" "fs_inv T fs" "get_node (fs_state fs) p = Some (Node_Directory nm d)" "x \<in> set (children d)"
  shows "\<exists>name. get_name (fs_state fs) x = Some (Some name) \<and>
     lookup ord (fs_state fs) (now (fs_state fs)) p name = Some (Some x, fs_state fs) \<and>
     (\<forall>y \<in> set (children d). get_name (fs_state fs) y = Some (Some name) \<longrightarrow> y = x)"
proof -
  let ?s = "fs_state fs"
  note inv = fs_inv_state [OF assms(2)] and names = fs_inv_names [OF assms(2)]
  obtain n name where n: "get_node ?s x = Some n" "node_name ?s n = Some name"
    using node_name_child [OF inv assms(3,4)] by blast
  have uniq: "y = x" if "y \<in> set (children d)" "get_node ?s y = Some ny" "node_name ?s ny = Some name" for y ny
    by (rule child_names_distinct [OF inv names assms(3) that assms(4) n])
  have "find (\<lambda>y. \<exists>n. get_node ?s y = Some n \<and> node_name ?s n = Some name) (children d) = Some x"
    by (rule find_unique [OF assms(4)]) (use uniq n in auto)
  then have "lookup ord ?s (now ?s) p name = Some (Some x, ?s)"
    using lookup_eq [OF advance_time_now inv, of ord p name] assms(3) by simp
  moreover have "get_name ?s x = Some (Some name)" using n by (simp add: get_name_def)
  moreover have "y = x" if "y \<in> set (children d)" "get_name ?s y = Some (Some name)" for y
    using that uniq [OF that(1)] by (auto simp: get_name_def split: option.splits)
  ultimately show ?thesis by blast
qed

theorem lookup_finds_child_witness:
  "\<exists>name. get_name (fs_state (LogrotateFS_new demo 0)) 2 = Some (Some name) \<and>
     lookup rev (fs_state (LogrotateFS_new demo 0)) (now (fs_state (LogrotateFS_new demo 0))) 1 name =
       Some (Some 2, fs_state (LogrotateFS_new demo 0)) \<and>
     (\<forall>y \<in> set (children \<lparr>children = [2], dir_parent = None\<rparr>).
        get_name (fs_state (LogrotateFS_new demo 0)) y = Some (Some name) \<longrightarrow> y = 2)"
  by (rule lookup_finds_child [OF order_ok_rev demo_inv, where nm = "''/''"]) (simp_all add: LogrotateFS_new_def)

lemma handle_count_card:
  assumes "distinct (map fst (valid_file_handles s))"
  shows "handle_count s x = card {h. map_of (valid_file_handles s) h = Some x}"
proof -
  let ?l = "map fst (filter (\<lambda>(h, i). i = x) (valid_file_handles s))"
  have "{h. map_of (valid_file_handles s) h = Some x} = set ?l" using assms by force
  moreover have "distinct ?l" using assms by (rule distinct_fst_filter)
  ultimately show ?thesis using distinct_card [of ?l] by (simp add: handle_count_def)
qed

lemma open_files_count:
  assumes inv: "fs_inv T fs" and f: "get_node (fs_state fs) x = Some (Node_File f)"
  shows "open_handles f = card {h. map_of (open_files fs) h = Some \<lparr>handle_id = h, handle_inode = x\<rparr>}"
proof -
  note hs = state_inv_handles [OF fs_inv_state [OF inv]]
  have "{h. map_of (open_files fs) h = Some \<lparr>handle_id = h, handle_inode = x\<rparr>} =
      {h. map_of (valid_file_handles (fs_state fs)) h = Some x}"
    unfolding fs_inv_handles [OF inv] by auto
  then show ?thesis
    using handles_ok_file [OF hs f] handle_count_card [of "fs_state fs" x] hs by (simp add: handles_ok_def)
qed

lemma fs_release_effect:
  assumes A: "order_ok ord" "fs_inv T fs" "now (fs_state fs) \<le> tick" "tick \<le> T"
    and h: "map_of (open_files fs) fh = Some handle"
  shows "\<exists>fs'. fs_release ord tick fh fs = Some (Reply_ok, fs') \<and> fs_inv T fs' \<and>
    map_of (open_files fs') = (map_of (open_files fs))(fh := None) \<and> now (fs_state fs') = tick"
proof -
  obtain s where s: "advance_time ord (fs_state fs) tick = Some s" "now s = tick" using fs_advance [OF A] by blast
  obtain s' f where f: "advance_time ord (fs_state fs) tick = Some s'"
    "fs_release ord tick fh fs = Some (Reply_ok,
       fs\<lparr>open_files := AList.delete fh (open_files fs), fs_state := closed s' handle f\<rparr>)"
    "fs_inv T (fs\<lparr>open_files := AList.delete fh (open_files fs), fs_state := closed s' handle f\<rparr>)"
    by (rule fs_release_eq [OF A h])
  have "now s' = tick" using s f(1) by simp
  then show ?thesis using f(2,3) by (intro exI conjI) (assumption | simp add: map_of_delete closed_def)+
qed

lemma fs_read_closed:
  assumes A: "order_ok ord" "fs_inv T fs" "now (fs_state fs) \<le> tick" "tick \<le> T" and "map_of (open_files fs) fh = None"
  shows "\<exists>fs'. fs_read ord tick ino fh offset sz fs = Some (Reply_error ENOENT, fs')"
proof -
  obtain s where "advance_time ord (fs_state fs) tick = Some s" using fs_advance [OF A] by blast
  with assms(5) show ?thesis by (simp add: fs_read_def)
qed

lemma fs_open_effect:
  assumes A: "order_ok ord" "fs_inv T fs" "now (fs_state fs) \<le> tick" "tick \<le> T"
    and h: "next_file_handle (fs_state fs) + 1 < 2 ^ 64"
    and s: "advance_time ord (fs_state fs) tick = Some s" and f: "get_node s ino = Some (Node_File f)"
  shows "\<exists>fh fs'. fs_open ord tick ino flags fs = Some (Reply_opened fh (nat (flags mod 2 ^ 32)), fs') \<and> fs_inv T fs' \<and>
    map_of (open_files fs) fh = None \<and> now (fs_state fs') = tick \<and>
    map_of (open_files fs') = (map_of (open_files fs))(fh \<mapsto> \<lparr>handle_id = fh, handle_inode = ino\<rparr>)"
proof -
  let ?h = "next_file_handle (fs_state fs)"
  let ?fs = "fs\<lparr>fs_state := opened s ino f, open_files := AList.update ?h \<lparr>handle_id = ?h, handle_inode = ino\<rparr> (open_files fs)\<rparr>"
  obtain s' where s': "advance_time ord (fs_state fs) tick = Some s'" "now s' = tick" using fs_advance [OF A] by blast
  have op: "fs_open ord tick ino flags fs = Some (Reply_opened ?h (nat (flags mod 2 ^ 32)), ?fs) \<and> fs_inv T ?fs"
    by (rule fs_open_eq [OF A h, of ino flags]) (use s f in \<open>simp add: Let_def\<close>)
  have "map_of (open_files fs) ?h = None"
    unfolding fs_inv_handles [OF A(2)] using handles_ok_fresh [OF state_inv_handles [OF fs_inv_state [OF A(2)]]]
    by (simp add: map_of_eq_None_iff)
  moreover have "now (fs_state ?fs) = tick" using s s' by (simp add: opened_def)
  moreover have "map_of (open_files ?fs) = (map_of (open_files fs))(?h \<mapsto> \<lparr>handle_id = ?h, handle_inode = ino\<rparr>)"
    by (simp add: update_conv')
  ultimately show ?thesis using op by blast
qed

text \<open>
  C22. Handles are counted. Opening a file hands out a fresh handle and releasing that handle
  takes exactly it away again: the table of open files is back to what it was, later reads
  through the handle answer \<open>ENOENT\<close>, and at no time does a file count more or fewer handles
  than the table of valid handles has for it.
\<close>

theorem open_release_round_trip:
  assumes "order_ok ord" "fs_inv T fs" "now (fs_state fs) \<le> tick" "tick \<le> T"
    and "next_file_handle (fs_state fs) + 1 < 2 ^ 64" "advance_time ord (fs_state fs) tick = Some s"
    and "get_node s ino = Some (Node_File f)"
  shows "\<exists>fh fs1 fs2. fs_open ord tick ino flags fs = Some (Reply_opened fh (nat (flags mod 2 ^ 32)), fs1) \<and>
     map_of (open_files fs) fh = None \<and>
     fs_release ord tick fh fs1 = Some (Reply_ok, fs2) \<and>
     map_of (open_files fs2) = map_of (open_files fs) \<and>
     (\<exists>fs3. fs_read ord tick ino fh offset sz fs2 = Some (Reply_error ENOENT, fs3)) \<and>
     (\<forall>fs' \<in> {fs1, fs2}. \<forall>x f. get_node (fs_state fs') x = Some (Node_File f) \<longrightarrow>
        open_handles f = card {h. map_of (open_files fs') h = Some \<lparr>handle_id = h, handle_inode = x\<rparr>})"
proof -
  obtain fh fs1 where op: "fs_open ord tick ino flags fs = Some (Reply_opened fh (nat (flags mod 2 ^ 32)), fs1)"
    and inv1: "fs_inv T fs1" and fresh: "map_of (open_files fs) fh = None" and now1: "now (fs_state fs1) \<le> tick"
    and files1: "map_of (open_files fs1) = (map_of (open_files fs))(fh \<mapsto> \<lparr>handle_id = fh, handle_inode = ino\<rparr>)"
    using fs_open_effect [OF assms(1-7), of flags] by auto
  obtain fs2 where rel: "fs_release ord tick fh fs1 = Some (Reply_ok, fs2)" and inv2: "fs_inv T fs2"
    and files2: "map_of (open_files fs2) = (map_of (open_files fs1))(fh := None)" and now2: "now (fs_state fs2) \<le> tick"
    using fs_release_effect [OF assms(1) inv1 now1 assms(4), of fh] files1 by auto
  have same: "map_of (open_files fs2) = map_of (open_files fs)" using files1 files2 fresh by (simp add: fun_upd_idem)
  then have "\<exists>fs3. fs_read ord tick ino fh offset sz fs2 = Some (Reply_error ENOENT, fs3)"
    using fs_read_closed [OF assms(1) inv2 now2 assms(4)] fresh by simp
  with op rel fresh same open_files_count [OF inv1] open_files_count [OF inv2] show ?thesis by blast
qed

theorem open_release_round_trip_witness:
  "\<exists>fh fs1 fs2. fs_open rev 0 2 0 (LogrotateFS_new demo 0) = Some (Reply_opened fh (nat (0 mod 2 ^ 32)), fs1) \<and>
     map_of (open_files (LogrotateFS_new demo 0)) fh = None \<and>
     fs_release rev 0 fh fs1 = Some (Reply_ok, fs2) \<and>
     map_of (open_files fs2) = map_of (open_files (LogrotateFS_new demo 0)) \<and>
     (\<exists>fs3. fs_read rev 0 2 fh 0 100 fs2 = Some (Reply_error ENOENT, fs3)) \<and>
     (\<forall>fs' \<in> {fs1, fs2}. \<forall>x f. get_node (fs_state fs') x = Some (Node_File f) \<longrightarrow>
        open_handles f = card {h. map_of (open_files fs') h = Some \<lparr>handle_id = h, handle_inode = x\<rparr>})"
  using advance_time_now [of rev demo]
  by (intro open_release_round_trip [OF order_ok_rev demo_inv, where s = demo and f = "File_new 1 0 0 0 None"])
    (simp_all add: LogrotateFS_new_def)

text \<open>
  With 255 rotations configured, nothing is ever rotated away: the ordinal is a saturating
  \<open>u8\<close>, so it never exceeds 255, no pass of the rotation removes a file, and once a file has
  reached ordinal 255 it shares it, and with it its name, with every file that follows.
\<close>

theorem rotation_255_removes_nothing:
  assumes "max_rotations s = 255" "get_node s i = Some (Node_File f)" "ordinal f \<le> 255"
  shows "rotate_pass t p (s, i, prev) =
      Some (let s' = put_node i (Node_File (f\<lparr>ordinal := min (ordinal f + 1) 255\<rparr>)) s
            in case peer f of Some next \<Rightarrow> Again (s', next, i) | None \<Rightarrow> Break s')"
  using assms by (auto simp: rotate_pass_def Let_def file_incr_ordinal_def saturating_add_def umax_def)

theorem rotation_255_removes_nothing_witness:
  "rotate_pass 9 1 (demo\<lparr>max_rotations := 255\<rparr>, 2, 3) =
      Some (let s' = put_node 2 (Node_File ((File_new 1 0 0 0 None)\<lparr>ordinal := min (ordinal (File_new 1 0 0 0 None) + 1) 255\<rparr>))
              (demo\<lparr>max_rotations := 255\<rparr>)
            in case peer (File_new 1 0 0 0 None) of Some next \<Rightarrow> Again (s', next, 2) | None \<Rightarrow> Break s')"
  by (rule rotation_255_removes_nothing) (simp_all add: File_new_def)

text \<open>
  \<open>State::close_file\<close> does not check its handle against the valid ones: a handle that is not
  valid, on an inode that has another handle open, is closed without a panic, and afterwards
  the file counts fewer handles than are valid.
\<close>

theorem close_file_accepts_stale_handle:
  assumes "state_inv s" "get_node s (handle_inode handle) = Some (Node_File f)" "0 < open_handles f"
    and "map_of (valid_file_handles s) (handle_id handle) = None"
  shows "\<exists>s' f'. close_file ord s (now s) handle = Some s' \<and> valid_file_handles s' = valid_file_handles s \<and>
     get_node s' (handle_inode handle) = Some (Node_File f') \<and> open_handles f' < handle_count s' (handle_inode handle)"
proof -
  let ?i = "handle_inode handle"
  let ?f = "f\<lparr>open_handles := open_handles f - 1\<rparr>"
  let ?s = "(put_node ?i (Node_File ?f) s)\<lparr>valid_file_handles := AList.delete (handle_id handle) (valid_file_handles s)\<rparr>"
  have same: "AList.delete (handle_id handle) (valid_file_handles s) = valid_file_handles s"
    using assms(4) by (simp add: map_of_eq_None_iff AList.delete_idem)
  have "close_file ord s (now s) handle = Some ?s"
    using assms(2,3) state_inv_current [OF assms(1,2)] by (simp add: close_file_def file_close_def Let_def)
  moreover have "handle_count ?s ?i = open_handles f"
    using handles_ok_file [OF state_inv_handles [OF assms(1)] assms(2)] by (simp add: handle_count_def same)
  ultimately show ?thesis using assms(3) by (intro exI [of _ ?s] exI [of _ ?f]) (simp add: map_simps same)
qed

theorem close_file_accepts_stale_handle_witness:
  "\<exists>s' f'. close_file rev (fs_state demo_open) (now (fs_state demo_open)) \<lparr>handle_id = 7, handle_inode = 2\<rparr> = Some s' \<and>
     valid_file_handles s' = valid_file_handles (fs_state demo_open) \<and>
     get_node s' (handle_inode \<lparr>handle_id = 7, handle_inode = 2\<rparr>) = Some (Node_File f') \<and>
     open_handles f' < handle_count s' (handle_inode \<lparr>handle_id = 7, handle_inode = 2\<rparr>)"
proof (rule close_file_accepts_stale_handle)
  have "state_inv demo" using fs_inv_state [OF demo_inv] by (simp add: LogrotateFS_new_def)
  then show "state_inv (fs_state demo_open)"
    using opened_inv [of demo 2 "File_new 1 0 0 0 None"] by (simp add: demo_open_def)
  show "get_node (fs_state demo_open) (handle_inode \<lparr>handle_id = 7, handle_inode = 2\<rparr>) =
      Some (Node_File (file_open (File_new 1 0 0 0 None) 0))"
    by (simp add: demo_open_def opened_def map_simps)
qed (simp_all add: demo_open_def opened_def file_open_def File_new_def Let_def wrapping_add_def file_touch_access_def file_advance_time_def)

end
