(* ===== verification/Throttle.thy ===== *)
theory Throttle
  imports Prelude
begin

text \<open>
  The throttle crate: the \<open>Valve\<close> that hands out capacity, the \<open>Stable\<close> throttle that
  waits on it, the real-time clock, and the \<open>Throttle\<close> front end.
  Capacities are \<open>u32\<close> and ticks \<open>u64\<close>, kept as words. A \<open>Clock\<close> is an argument: how
  to read it (a reading may find the clock further on) and how to wait on it.
\<close>

section \<open>The valve\<close>

definition INTERVAL_TICKS :: "64 word" where
  "INTERVAL_TICKS = 1000000"

datatype stable_error = Capacity

record Valve =
  maximum_capacity :: "32 word"
  capacity :: "32 word"
  interval :: "64 word"

definition Valve_new :: "32 word \<Rightarrow> Valve" where
  "Valve_new maximum_capacity' =
     \<lparr>maximum_capacity = maximum_capacity', capacity = maximum_capacity', interval = 0\<rparr>"

text \<open>\<open>Valve::request\<close>, with the updated valve beside its result.\<close>

definition request :: "Valve \<Rightarrow> 64 word \<Rightarrow> 32 word \<Rightarrow> (stable_error + 64 word) \<times> Valve" where
  "request v ticks_elapsed capacity_request =
     (if maximum_capacity v < capacity_request then (Inl Capacity, v)
      else
        let current_interval = ticks_elapsed div INTERVAL_TICKS;
            v = (if interval v < current_interval
                 then v\<lparr>capacity := maximum_capacity v, interval := current_interval\<rparr>
                 else v)
        in if capacity_request = 0 then (Inr 0, v)
           else if capacity_request \<le> capacity v
           then (Inr 0, v\<lparr>capacity := capacity v - capacity_request\<rparr>)
           else (Inr (let r = ticks_elapsed mod INTERVAL_TICKS
                      in if INTERVAL_TICKS < r then 0 else INTERVAL_TICKS - r), v))"

section \<open>Clocks and the stable throttle\<close>

record 'c clock =
  ticks_elapsed :: "'c \<Rightarrow> (64 word \<times> 'c) option"
  clock_wait :: "64 word \<Rightarrow> 'c \<Rightarrow> 'c"

record 'c Stable =
  valve :: Valve
  clock_state :: 'c

definition with_clock :: "32 word \<Rightarrow> 'c \<Rightarrow> 'c Stable" where
  "with_clock maximum_capacity' c = \<lparr>valve = Valve_new maximum_capacity', clock_state = c\<rparr>"

text \<open>
  \<open>Stable::wait_for\<close>. The loop ends only when the valve grants the request or refuses it;
  \<open>None\<close> is a loop that never ends, or a clock that panics.
\<close>

partial_function (option) stable_wait_for ::
    "'c clock \<Rightarrow> 'c Stable \<Rightarrow> 32 word \<Rightarrow> ((stable_error + unit) \<times> 'c Stable) option" where
  "stable_wait_for clk st req =
     (case ticks_elapsed clk (clock_state st) of
        None \<Rightarrow> None
      | Some (now, c) \<Rightarrow>
          (case request (valve st) now req of
             (Inl e, v) \<Rightarrow> Some (Inl e, \<lparr>valve = v, clock_state = c\<rparr>)
           | (Inr slop, v) \<Rightarrow>
               (if slop = 0 then Some (Inr (), \<lparr>valve = v, clock_state = c\<rparr>)
                else stable_wait_for clk \<lparr>valve = v, clock_state = clock_wait clk slop c\<rparr> req)))"

definition stable_wait :: "'c clock \<Rightarrow> 'c Stable \<Rightarrow> ((stable_error + unit) \<times> 'c Stable) option" where
  "stable_wait clk st = stable_wait_for clk st 1"

section \<open>The front end\<close>

datatype throttle_config = Config_AllOut | Config_Stable

definition default_config :: throttle_config where
  "default_config = Config_Stable"

datatype throttle_error = Error_Stable stable_error

datatype 'c Throttle = Throttle_Stable "'c Stable" | Throttle_AllOut

definition new_with_config :: "throttle_config \<Rightarrow> 32 word \<Rightarrow> 'c \<Rightarrow> 'c Throttle" where
  "new_with_config config maximum_capacity' c =
     (case config of
        Config_Stable \<Rightarrow> Throttle_Stable (with_clock maximum_capacity' c)
      | Config_AllOut \<Rightarrow> Throttle_AllOut)"

fun throttle_wait_for ::
    "'c clock \<Rightarrow> 'c Throttle \<Rightarrow> 32 word \<Rightarrow> ((throttle_error + unit) \<times> 'c Throttle) option" where
  "throttle_wait_for clk (Throttle_Stable inner) req =
     map_option (\<lambda>(r, inner'). (map_sum Error_Stable id r, Throttle_Stable inner'))
       (stable_wait_for clk inner req)"
| "throttle_wait_for clk Throttle_AllOut req = Some (Inr (), Throttle_AllOut)"

fun throttle_wait ::
    "'c clock \<Rightarrow> 'c Throttle \<Rightarrow> ((throttle_error + unit) \<times> 'c Throttle) option" where
  "throttle_wait clk (Throttle_Stable inner) =
     map_option (\<lambda>(r, inner'). (map_sum Error_Stable id r, Throttle_Stable inner'))
       (stable_wait clk inner)"
| "throttle_wait clk Throttle_AllOut = Some (Inr (), Throttle_AllOut)"

text \<open>
  The real-time clock. \<open>Instant\<close> is monotonic, so the present instant is the start plus
  the time \<open>since_start\<close> that has passed, in nanoseconds. \<open>as_micros\<close> truncates; the
  number of ticks must fit \<open>u64\<close> or the reading panics. How long a sleep really lasts and
  how much time passes before a reading is the runtime's business: \<open>sleep\<close> and \<open>drift\<close>.
\<close>

record RealClock =
  start :: nat
  since_start :: nat

definition instant_now :: "RealClock \<Rightarrow> nat" where
  "instant_now c = start c + since_start c"

definition real_ticks_elapsed :: "(nat \<Rightarrow> nat) \<Rightarrow> RealClock \<Rightarrow> (64 word \<times> RealClock) option" where
  "real_ticks_elapsed drift c =
     (let c = c\<lparr>since_start := since_start c + drift (instant_now c)\<rparr>;
          ticks_since = (instant_now c - start c) div 1000
      in if ticks_since \<le> umax 64 then Some (of_nat ticks_since, c) else None)"

definition real_wait :: "(nat \<Rightarrow> nat \<Rightarrow> nat) \<Rightarrow> 64 word \<Rightarrow> RealClock \<Rightarrow> RealClock" where
  "real_wait sleep ticks c =
     c\<lparr>since_start := since_start c + sleep (unat ticks * 1000) (instant_now c)\<rparr>"

definition real_clock :: "(nat \<Rightarrow> nat) \<Rightarrow> (nat \<Rightarrow> nat \<Rightarrow> nat) \<Rightarrow> RealClock clock" where
  "real_clock drift sleep =
     \<lparr>ticks_elapsed = real_ticks_elapsed drift, clock_wait = real_wait sleep\<rparr>"

definition real_default :: "nat \<Rightarrow> RealClock" where
  "real_default now = \<lparr>start = now, since_start = 0\<rparr>"

section \<open>Valve lemmas\<close>

definition valve_inv :: "Valve \<Rightarrow> bool" where
  "valve_inv v \<longleftrightarrow> capacity v \<le> maximum_capacity v"

text \<open>The interval index a tick falls into, as a number.\<close>

definition tick_interval :: "64 word \<Rightarrow> nat" where
  "tick_interval t = unat t div 1000000"

lemma unat_INTERVAL_TICKS [simp]: "unat INTERVAL_TICKS = 1000000"
  by (simp add: INTERVAL_TICKS_def)

lemma interval_less_iff: "i < t div INTERVAL_TICKS \<longleftrightarrow> unat i < tick_interval t"
  by (simp add: word_less_nat_alt unat_div tick_interval_def)

lemma unat_div_INTERVAL [simp]: "unat (t div INTERVAL_TICKS) = tick_interval t"
  by (simp add: unat_div tick_interval_def)

lemma mod_INTERVAL_less: "t mod INTERVAL_TICKS < INTERVAL_TICKS"
  by (simp add: word_less_nat_alt unat_mod)

lemma request_slop:
  "(if INTERVAL_TICKS < t mod INTERVAL_TICKS then 0 else INTERVAL_TICKS - t mod INTERVAL_TICKS)
     = INTERVAL_TICKS - t mod INTERVAL_TICKS"
  using mod_INTERVAL_less [of t] by (auto dest: order.asym)

lemma unat_slop: "unat (INTERVAL_TICKS - t mod INTERVAL_TICKS) = 1000000 - unat t mod 1000000"
proof -
  have "t mod INTERVAL_TICKS \<le> INTERVAL_TICKS"
    using mod_INTERVAL_less [of t] by simp
  then show ?thesis by (simp add: unat_sub unat_mod)
qed

lemma slop_nonzero: "INTERVAL_TICKS - t mod INTERVAL_TICKS \<noteq> 0"
proof
  assume "INTERVAL_TICKS - t mod INTERVAL_TICKS = 0"
  then have "unat (INTERVAL_TICKS - t mod INTERVAL_TICKS) = 0" by simp
  then show False by (simp add: unat_slop)
qed

text \<open>The valve as the tick finds it: refilled when a later interval has begun.\<close>

definition rolled :: "Valve \<Rightarrow> 64 word \<Rightarrow> Valve" where
  "rolled v t =
     (if unat (interval v) < tick_interval t
      then v\<lparr>capacity := maximum_capacity v, interval := t div INTERVAL_TICKS\<rparr> else v)"

lemma request_rolled:
  "request v t r =
     (if maximum_capacity v < r then (Inl Capacity, v)
      else if r \<le> capacity (rolled v t)
      then (Inr 0, (rolled v t)\<lparr>capacity := capacity (rolled v t) - r\<rparr>)
      else (Inr (INTERVAL_TICKS - t mod INTERVAL_TICKS), rolled v t))"
  by (auto simp: request_def rolled_def Let_def interval_less_iff request_slop)

lemma rolled_maximum [simp]: "maximum_capacity (rolled v t) = maximum_capacity v"
  by (simp add: rolled_def)

lemma rolled_interval [simp]: "unat (interval (rolled v t)) = max (unat (interval v)) (tick_interval t)"
  by (simp add: rolled_def)

lemma rolled_inv: "valve_inv v \<Longrightarrow> valve_inv (rolled v t)"
  by (simp add: rolled_def valve_inv_def)

lemma request_keeps_inv: "valve_inv v \<Longrightarrow> valve_inv (snd (request v t r))"
  using rolled_inv [of v t]
  by (auto simp: request_rolled valve_inv_def word_le_nat_alt unat_sub)

lemma Valve_new_inv [simp]: "valve_inv (Valve_new m)"
  by (simp add: valve_inv_def Valve_new_def)

section \<open>What the valve hands out\<close>

text \<open>
  A client's requests in order, each with the tick it is made at. \<open>granted k\<close> adds up
  what was granted at ticks of the \<open>k\<close>-th interval.
\<close>

fun run_requests :: "Valve \<Rightarrow> (64 word \<times> 32 word) list \<Rightarrow> (stable_error + 64 word) list \<times> Valve" where
  "run_requests v [] = ([], v)"
| "run_requests v ((t, r) # reqs) =
     (let (res, v') = request v t r; (rs, v'') = run_requests v' reqs in (res # rs, v''))"

fun granted :: "nat \<Rightarrow> (64 word \<times> 32 word) list \<Rightarrow> (stable_error + 64 word) list \<Rightarrow> nat" where
  "granted k ((t, r) # reqs) (res # rs) =
     (if tick_interval t = k \<and> res = Inr 0 then unat r else 0) + granted k reqs rs"
| "granted k _ _ = 0"

text \<open>Capacity the valve can still hand out in interval \<open>k\<close>.\<close>

definition headroom :: "nat \<Rightarrow> Valve \<Rightarrow> nat" where
  "headroom k v =
     (if unat (interval v) < k then unat (maximum_capacity v)
      else if unat (interval v) = k then unat (capacity v) else 0)"

lemma headroom_le: "valve_inv v \<Longrightarrow> headroom k v \<le> unat (maximum_capacity v)"
  by (simp add: headroom_def valve_inv_def word_le_nat_alt)

lemma headroom_rolled: "valve_inv v \<Longrightarrow> headroom k (rolled v t) \<le> headroom k v"
  by (auto simp: headroom_def rolled_def valve_inv_def word_le_nat_alt)

lemma headroom_request:
  assumes inv: "valve_inv v" and t: "unat (interval v) \<le> tick_interval t"
    and req: "request v t r = (res, v')"
  shows "(if tick_interval t = k \<and> res = Inr 0 then unat r else 0) + headroom k v' \<le> headroom k v"
proof (cases "maximum_capacity v < r")
  case True
  with req show ?thesis by (auto simp: request_rolled)
next
  case False
  note roll = headroom_rolled [OF inv, of k t]
  have at: "unat (interval (rolled v t)) = tick_interval t" using t by simp
  show ?thesis
  proof (cases "r \<le> capacity (rolled v t)")
    case True
    with False req have v': "v' = (rolled v t)\<lparr>capacity := capacity (rolled v t) - r\<rparr>"
      by (simp add: request_rolled)
    have "unat (capacity (rolled v t) - r) + unat r = unat (capacity (rolled v t))"
      using True by (simp add: unat_sub word_le_nat_alt)
    then have "(if tick_interval t = k then unat r else 0) + headroom k v' \<le> headroom k (rolled v t)"
      using at by (auto simp: v' headroom_def)
    with roll show ?thesis by (auto split: if_splits)
  next
    case no: False
    with False req have "v' = rolled v t" and "res \<noteq> Inr 0"
      using slop_nonzero [of t] by (auto simp: request_rolled)
    with roll show ?thesis by simp
  qed
qed

lemma request_frame:
  "request v t r = (res, v') \<Longrightarrow>
     maximum_capacity v' = maximum_capacity v \<and>
     unat (interval v) \<le> unat (interval v') \<and>
     unat (interval v') \<le> max (unat (interval v)) (tick_interval t)"
  by (auto simp: request_rolled split: if_splits)

lemma next_roll_over: "(n::nat) + (1000000 - n mod 1000000) = (n div 1000000 + 1) * 1000000"
proof -
  define q r where "q = n div 1000000" and "r = n mod 1000000"
  then have "n = q * 1000000 + r" and "r < 1000000" by simp_all
  then show ?thesis unfolding q_def [symmetric] r_def [symmetric] by simp
qed

lemma tick_interval_mono: "s \<le> t \<Longrightarrow> tick_interval s \<le> tick_interval t"
  by (simp add: tick_interval_def word_le_nat_alt div_le_mono)

lemma granted_headroom:
  "valve_inv v \<Longrightarrow> sorted (map fst reqs) \<Longrightarrow>
   \<forall>(t, r) \<in> set reqs. unat (interval v) \<le> tick_interval t \<Longrightarrow>
   granted k reqs (fst (run_requests v reqs)) \<le> headroom k v"
proof (induction reqs arbitrary: v)
  case Nil
  then show ?case by simp
next
  case (Cons tr reqs)
  obtain t r where tr: "tr = (t, r)" by (cases tr)
  obtain res v' where req: "request v t r = (res, v')" by (cases "request v t r")
  have t: "unat (interval v) \<le> tick_interval t" using Cons.prems(3) tr by auto
  have inv': "valve_inv v'" using request_keeps_inv [OF Cons.prems(1), of t r] req by simp
  have later: "\<forall>(t', r') \<in> set reqs. unat (interval v') \<le> tick_interval t'"
  proof clarify
    fix t' r' assume "(t', r') \<in> set reqs"
    then have "t \<le> t'" using Cons.prems(2) tr by force
    then have "tick_interval t \<le> tick_interval t'" by (rule tick_interval_mono)
    with t request_frame [OF req] show "unat (interval v') \<le> tick_interval t'" by simp
  qed
  have "granted k reqs (fst (run_requests v' reqs)) \<le> headroom k v'"
    by (rule Cons.IH [OF inv' _ later]) (use Cons.prems(2) in simp)
  with headroom_request [OF Cons.prems(1) t req, of k] show ?case
    by (simp add: tr req split_beta)
qed

section \<open>Waiting on a clock\<close>

text \<open>
  What the throttle relies on from a \<open>Clock\<close>: a reading is the clock's position, which
  never runs backwards, and a wait moves it forward by at least the ticks asked for.
\<close>

locale ticking_clock =
  fixes clk :: "'c clock"
    and pos :: "'c \<Rightarrow> nat"
  assumes reading: "ticks_elapsed clk c = Some (t, c') \<Longrightarrow> unat t = pos c' \<and> pos c \<le> pos c'"
    and waiting: "pos c + unat s \<le> pos (clock_wait clk s c)"
begin

lemma wait_reaches_next_interval:
  assumes r1: "ticks_elapsed clk c = Some (t1, c1)"
    and r2: "ticks_elapsed clk (clock_wait clk (INTERVAL_TICKS - t1 mod INTERVAL_TICKS) c1) = Some (t2, c2)"
  shows "tick_interval t1 < tick_interval t2"
proof -
  let ?slop = "INTERVAL_TICKS - t1 mod INTERVAL_TICKS"
  have "pos c1 + unat ?slop \<le> unat t2"
    using waiting [of c1 ?slop] reading [OF r2] by simp
  then have "unat t1 + (1000000 - unat t1 mod 1000000) \<le> unat t2"
    using reading [OF r1] by (simp add: unat_slop)
  then have "(unat t1 div 1000000 + 1) * 1000000 \<le> unat t2"
    by (simp only: next_roll_over)
  then show ?thesis unfolding tick_interval_def by (simp add: less_eq_div_iff_mult_less_eq)
qed

lemma wait_for_returns:
  assumes inv: "valve_inv (valve st)" and fits: "r \<le> maximum_capacity (valve st)"
    and past: "unat (interval (valve st)) \<le> pos (clock_state st) div 1000000"
    and r1: "ticks_elapsed clk (clock_state st) = Some (t1, c1)"
    and r2: "ticks_elapsed clk (clock_wait clk (INTERVAL_TICKS - t1 mod INTERVAL_TICKS) c1) = Some (t2, c2)"
  shows "\<exists>st'. stable_wait_for clk st r = Some (Inr (), st') \<and> valve_inv (valve st') \<and>
     (valve st' = snd (request (valve st) t1 r) \<or>
      capacity (valve st') = maximum_capacity (valve st) - r \<and> unat (interval (valve st')) = tick_interval t2)"
proof (cases "r \<le> capacity (rolled (valve st) t1)")
  case True
  then obtain v where req: "request (valve st) t1 r = (Inr 0, v)"
    using fits by (simp add: request_rolled not_less)
  then have "stable_wait_for clk st r = Some (Inr (), \<lparr>valve = v, clock_state = c1\<rparr>)"
    using r1 by (subst stable_wait_for.simps) simp
  moreover have "valve_inv v" using request_keeps_inv [OF inv, of t1 r] req by simp
  ultimately show ?thesis using req by auto
next
  case False
  let ?v = "rolled (valve st) t1" and ?slop = "INTERVAL_TICKS - t1 mod INTERVAL_TICKS"
  let ?st = "\<lparr>valve = ?v, clock_state = clock_wait clk ?slop c1\<rparr>"
  let ?v2 = "?v\<lparr>capacity := maximum_capacity (valve st) - r, interval := t2 div INTERVAL_TICKS\<rparr>"
  have first: "stable_wait_for clk st r = stable_wait_for clk ?st r"
    using False fits r1 slop_nonzero [of t1]
    by (subst stable_wait_for.simps) (simp add: request_rolled leD)
  have "unat (interval (valve st)) \<le> tick_interval t1"
    using past reading [OF r1] by (simp add: tick_interval_def) (meson div_le_mono le_trans)
  then have "unat (interval ?v) < tick_interval t2"
    using wait_reaches_next_interval [OF r1 r2] by simp
  then have roll2: "rolled ?v t2 = ?v\<lparr>capacity := maximum_capacity (valve st), interval := t2 div INTERVAL_TICKS\<rparr>"
    by (simp add: rolled_def [of _ t2])
  then have "request ?v t2 r = (Inr 0, ?v2)"
    using fits by (simp add: request_rolled not_less)
  then have "stable_wait_for clk ?st r = Some (Inr (), \<lparr>valve = ?v2, clock_state = c2\<rparr>)"
    using r2 by (subst stable_wait_for.simps) simp
  moreover have "valve_inv ?v2"
    using fits by (simp add: valve_inv_def word_le_nat_alt unat_sub)
  ultimately show ?thesis using first by auto
qed

end

text \<open>
  The real-time clock is such a clock when a sleep lasts as long as asked for, plus some
  lateness, whatever the drift between two steps.
\<close>

definition late_sleep :: "(nat \<Rightarrow> nat \<Rightarrow> nat) \<Rightarrow> nat \<Rightarrow> nat \<Rightarrow> nat" where
  "late_sleep late d t = d + late d t"

definition real_pos :: "RealClock \<Rightarrow> nat" where
  "real_pos c = since_start c div 1000"

lemma real_reading:
  "ticks_elapsed (real_clock drift sleep) c = Some (t, c') \<Longrightarrow>
     unat t = real_pos c' \<and> real_pos c \<le> real_pos c'"
  by (auto simp: real_clock_def real_ticks_elapsed_def real_pos_def instant_now_def Let_def
        unat_of_nat umax_def div_le_mono split: if_splits)

interpretation real: ticking_clock "real_clock drift (late_sleep late)" real_pos for drift late
proof
  fix c :: RealClock and s :: "64 word"
  show "real_pos c + unat s \<le> real_pos (clock_wait (real_clock drift (late_sleep late)) s c)"
    by (simp add: real_clock_def real_wait_def real_pos_def late_sleep_def)
qed (rule real_reading)

section \<open>Properties\<close>

text \<open>
  C4. Rate limit. Over any sequence of requests whose ticks do not run backwards, the
  capacity a fresh valve grants at ticks of one interval never adds up to more than its
  maximum capacity, for every interval, however the requests are sized or spaced.
\<close>

theorem valve_rate_limit:
  assumes "sorted (map fst reqs)"
  shows "granted k reqs (fst (run_requests (Valve_new m) reqs)) \<le> unat m"
proof -
  have "granted k reqs (fst (run_requests (Valve_new m) reqs)) \<le> headroom k (Valve_new m)"
    by (rule granted_headroom [OF _ assms]) (auto simp: Valve_new_def valve_inv_def)
  also have "\<dots> \<le> unat m"
    using headroom_le [of "Valve_new m" k] by (simp add: Valve_new_def valve_inv_def)
  finally show ?thesis .
qed

theorem valve_rate_limit_witness:
  "sorted (map fst [(5 :: 64 word, 3 :: 32 word), (7, 4), (1000001, 4)]) \<and>
   granted 0 [(5, 3), (7, 4), (1000001, 4)]
     (fst (run_requests (Valve_new 5) [(5, 3), (7, 4), (1000001, 4)])) \<le> 5"
proof -
  have s: "sorted (map fst [(5 :: 64 word, 3 :: 32 word), (7, 4), (1000001, 4)])"
    by (simp add: word_le_nat_alt)
  show ?thesis using s valve_rate_limit [OF s, of 0 5] by simp
qed

text \<open>
  C13. A wait comes back. On the real-time clock, with sleeps that last at least as long as
  asked for, a request that fits the maximum capacity is granted by \<open>Stable::wait_for\<close>
  after at most one sleep: the loop ends with \<open>Ok\<close>, and either the first try was granted or
  the second was, out of a freshly refilled valve. The readings \<open>r1\<close> and \<open>r2\<close> are the two
  clock readings; a reading only fails when the tick count overflows \<open>u64\<close>.
\<close>

theorem stable_wait_for_returns:
  fixes st :: "RealClock Stable"
  assumes inv: "valve_inv (valve st)" and fits: "r \<le> maximum_capacity (valve st)"
    and past: "unat (interval (valve st)) \<le> real_pos (clock_state st) div 1000000"
    and r1: "real_ticks_elapsed drift (clock_state st) = Some (t1, c1)"
    and r2: "real_ticks_elapsed drift
        (real_wait (late_sleep late) (INTERVAL_TICKS - t1 mod INTERVAL_TICKS) c1) = Some (t2, c2)"
  shows "\<exists>st'. stable_wait_for (real_clock drift (late_sleep late)) st r = Some (Inr (), st') \<and>
     valve_inv (valve st') \<and>
     (valve st' = snd (request (valve st) t1 r) \<or>
      capacity (valve st') = maximum_capacity (valve st) - r \<and> unat (interval (valve st')) = tick_interval t2)"
  by (rule real.wait_for_returns [OF inv fits past])
    (use r1 r2 in \<open>simp_all add: real_clock_def\<close>)

theorem stable_wait_for_returns_witness:
  "\<exists>st'. stable_wait_for (real_clock (\<lambda>_. 0) (late_sleep (\<lambda>_ _. 0)))
      \<lparr>valve = \<lparr>maximum_capacity = 5, capacity = 2, interval = 0\<rparr>, clock_state = real_default 7\<rparr> 3
    = Some (Inr (), st') \<and> valve_inv (valve st') \<and>
     (valve st' = snd (request \<lparr>maximum_capacity = 5, capacity = 2, interval = 0\<rparr> 0 3) \<or>
      capacity (valve st') = 5 - 3 \<and> unat (interval (valve st')) = tick_interval 1000000)"
  using stable_wait_for_returns
    [of "\<lparr>valve = \<lparr>maximum_capacity = 5, capacity = 2, interval = 0\<rparr>, clock_state = real_default 7\<rparr>" 3
        "\<lambda>_. 0" 0 "real_default 7" "\<lambda>_ _. 0" 1000000 "\<lparr>start = 7, since_start = 1000000000\<rparr>"]
  by (simp add: valve_inv_def real_default_def real_pos_def real_ticks_elapsed_def real_wait_def
      late_sleep_def instant_now_def umax_def INTERVAL_TICKS_def)

text \<open>
  \<open>Valve::request\<close>, branch by branch, on a valve whose capacity is within its maximum:
  it errs exactly when the request exceeds the maximum capacity, and then changes
  nothing; otherwise it answers zero exactly when the capacity available at that tick covers the
  request, which is then deducted, and else answers the ticks left to the next roll-over,
  at least one and at most a whole interval, deducting nothing.
\<close>

theorem request_cases:
  assumes "valve_inv v"
  shows "(fst (request v t r) = Inl Capacity \<longleftrightarrow> maximum_capacity v < r) \<and>
     (maximum_capacity v < r \<longrightarrow> snd (request v t r) = v) \<and>
     (r \<le> maximum_capacity v \<longrightarrow> (fst (request v t r) = Inr 0 \<longleftrightarrow> r \<le> capacity (rolled v t))) \<and>
     (fst (request v t r) = Inr 0 \<longrightarrow>
        unat (capacity (snd (request v t r))) + unat r = unat (capacity (rolled v t))) \<and>
     (\<forall>s. fst (request v t r) = Inr s \<and> s \<noteq> 0 \<longrightarrow>
        unat s = 1000000 - unat t mod 1000000 \<and> snd (request v t r) = rolled v t) \<and>
     valve_inv (snd (request v t r))"
  using assms request_keeps_inv [OF assms, of t r] slop_nonzero [of t]
  by (auto simp: request_rolled unat_slop unat_sub word_le_nat_alt not_less leD split: if_splits)

theorem request_cases_witness:
  "fst (request (Valve_new 5) 3 9) = Inl Capacity \<and> snd (request (Valve_new 5) 3 9) = Valve_new 5 \<and>
   fst (request (Valve_new 5) 3 4) = Inr 0 \<and>
   unat (capacity (snd (request (Valve_new 5) 3 4))) + unat (4 :: 32 word) = 5"
proof -
  have cap: "capacity (rolled (Valve_new 5) 3) = 5" and max: "maximum_capacity (Valve_new 5) = 5"
    by (simp_all add: rolled_def Valve_new_def)
  show ?thesis
    using request_cases [OF Valve_new_inv, of 5 3 9] request_cases [OF Valve_new_inv, of 5 3 4]
    by (simp add: cap max)
qed

end
