(* ===== verification/Pacing.thy ===== *)
theory Pacing
  imports Throttle Block
begin

text \<open>
  What every generator shares: the \<open>PeekableReceiver\<close> of \<^verbatim>\<open>lading/src/common.rs\<close> over the channel
  that \<open>Cache::spin\<close> feeds, and the turn of a generator's loop, which peeks at a block,
  waits on the throttle for its size and takes it. The lemmas say how fast a generator emits and
  in which order.
\<close>

section \<open>The receiver\<close>

text \<open>
  The thread behind the channel runs \<open>Cache::spin\<close>, so the message to come is the cache's next
  block; the channel ends only when that thread panics, and then the callers' \<open>expect\<close> does too.
\<close>

record PeekableReceiver =
  receiver :: Cache
  buffer :: "Block option"

definition receiver_new :: "Cache \<Rightarrow> PeekableReceiver" where
  "receiver_new c = \<lparr>receiver = c, buffer = None\<rparr>"

definition receiver_next :: "PeekableReceiver \<Rightarrow> (Block \<times> PeekableReceiver) option" where
  "receiver_next r =
     (case buffer r of
        Some t \<Rightarrow> Some (t, r\<lparr>buffer := None\<rparr>)
      | None \<Rightarrow> map_option (\<lambda>(t, c). (t, r\<lparr>receiver := c\<rparr>)) (next_block (receiver r)))"

definition receiver_peek :: "PeekableReceiver \<Rightarrow> (Block \<times> PeekableReceiver) option" where
  "receiver_peek r =
     (case buffer r of
        Some t \<Rightarrow> Some (t, r)
      | None \<Rightarrow> map_option (\<lambda>(t, c). (t, \<lparr>receiver = c, buffer = Some t\<rparr>)) (next_block (receiver r)))"

text \<open>The blocks still to come, and a receiver in working order.\<close>

definition cache_stream :: "Cache \<Rightarrow> nat \<Rightarrow> Block" where
  "cache_stream c i = blocks c ! ((idx c + i) mod length (blocks c))"

definition stream_of :: "PeekableReceiver \<Rightarrow> nat \<Rightarrow> Block" where
  "stream_of r i =
     (case buffer r of
        None \<Rightarrow> cache_stream (receiver r) i
      | Some b \<Rightarrow> (case i of 0 \<Rightarrow> b | Suc j \<Rightarrow> cache_stream (receiver r) j))"

definition receiver_ok :: "Block list \<Rightarrow> PeekableReceiver \<Rightarrow> bool" where
  "receiver_ok bs r \<longleftrightarrow> cache_ok (receiver r) \<and> blocks (receiver r) = bs \<and> (\<forall>b. buffer r = Some b \<longrightarrow> b \<in> set bs)"

lemma next_block_stream:
  assumes "cache_ok c"
  obtains c' where "next_block c = Some (cache_stream c 0, c')" "cache_ok c'" "blocks c' = blocks c"
    "\<And>i. cache_stream c' i = cache_stream c (Suc i)"
proof
  let ?c' = "Fixed ((idx c + 1) mod length (blocks c)) (blocks c) (total_cycle_size c)"
  have lt: "idx c < length (blocks c)" using assms by (simp add: cache_ok_def)
  then show "next_block c = Some (cache_stream c 0, ?c')" by (simp add: next_block_def cache_stream_def)
  show "cache_ok ?c'" using assms lt by (simp add: cache_ok_def) (metis gr_implies_not_zero list.size(3) mod_less_divisor neq0_conv)
  show "cache_stream ?c' i = cache_stream c (Suc i)" for i by (simp add: cache_stream_def mod_simps)
qed simp

lemma cache_stream_in: "cache_ok c \<Longrightarrow> cache_stream c i \<in> set (blocks c)"
  unfolding cache_ok_def cache_stream_def
  by (metis gr_implies_not_zero length_0_conv length_greater_0_conv mod_less_divisor nth_mem)

lemma receiver_new_ok [simp]: "cache_ok c \<Longrightarrow> receiver_ok (blocks c) (receiver_new c)"
  by (simp add: receiver_ok_def receiver_new_def)

lemma stream_of_new [simp]: "stream_of (receiver_new c) = cache_stream c"
  by (simp add: stream_of_def receiver_new_def fun_eq_iff)

lemma stream_of_in: "receiver_ok bs r \<Longrightarrow> stream_of r i \<in> set bs"
  using cache_stream_in [of "receiver r"] by (auto simp: stream_of_def receiver_ok_def split: option.splits nat.splits)

text \<open>Peeking changes nothing of what is to come; the next block is the one peeked at.\<close>

lemma receiver_peek_stream:
  assumes "receiver_ok bs r"
  obtains r' where "receiver_peek r = Some (stream_of r 0, r')" "receiver_ok bs r'" "stream_of r' = stream_of r"
    "buffer r' = Some (stream_of r 0)"
proof (cases "buffer r")
  case None
  from assms have ok: "cache_ok (receiver r)" "blocks (receiver r) = bs" by (simp_all add: receiver_ok_def)
  from next_block_stream [OF ok(1)] obtain c' where c': "next_block (receiver r) = Some (cache_stream (receiver r) 0, c')" "cache_ok c'"
    "blocks c' = blocks (receiver r)" "\<And>i. cache_stream c' i = cache_stream (receiver r) (Suc i)" by blast
  show thesis
  proof (rule that)
    show "receiver_peek r = Some (stream_of r 0, \<lparr>receiver = c', buffer = Some (stream_of r 0)\<rparr>)"
      using None c' by (simp add: receiver_peek_def stream_of_def)
    show "receiver_ok bs \<lparr>receiver = c', buffer = Some (stream_of r 0)\<rparr>"
      using c' ok stream_of_in [OF assms, of 0] by (simp add: receiver_ok_def)
    show "stream_of \<lparr>receiver = c', buffer = Some (stream_of r 0)\<rparr> = stream_of r"
      using None c' by (auto simp: stream_of_def fun_eq_iff split: nat.splits)
  qed simp
next
  case (Some b)
  show thesis by (rule that [of r]) (use Some assms in \<open>simp_all add: receiver_peek_def stream_of_def\<close>)
qed

lemma receiver_next_stream:
  assumes "receiver_ok bs r"
  obtains r' where "receiver_next r = Some (stream_of r 0, r')" "receiver_ok bs r'" "\<And>i. stream_of r' i = stream_of r (Suc i)"
proof (cases "buffer r")
  case None
  from assms have ok: "cache_ok (receiver r)" "blocks (receiver r) = bs" by (simp_all add: receiver_ok_def)
  from next_block_stream [OF ok(1)] obtain c' where c': "next_block (receiver r) = Some (cache_stream (receiver r) 0, c')" "cache_ok c'"
    "blocks c' = blocks (receiver r)" "\<And>i. cache_stream c' i = cache_stream (receiver r) (Suc i)" by blast
  show thesis
    by (rule that [of "r\<lparr>receiver := c'\<rparr>"])
      (use None c' ok in \<open>simp_all add: receiver_next_def stream_of_def receiver_ok_def\<close>)
next
  case (Some b)
  show thesis
    by (rule that [of "r\<lparr>buffer := None\<rparr>"]) (use Some assms in \<open>simp_all add: receiver_next_def stream_of_def receiver_ok_def\<close>)
qed

section \<open>A turn\<close>

text \<open>
  The part of a generator's state that paces it. \<open>emitted\<close> is a history of the blocks taken, each
  with the throttle as it was when the wait for it was over.
\<close>

record 'c spinner =
  throttle :: "'c Throttle"
  rcv :: PeekableReceiver
  emitted :: "('c Throttle \<times> Block) list"

definition spinner_new :: "Cache \<Rightarrow> 'c Throttle \<Rightarrow> 'c spinner" where
  "spinner_new c t = \<lparr>throttle = t, rcv = receiver_new c, emitted = []\<rparr>"

definition spinner_peek :: "('c, 'z) spinner_scheme \<Rightarrow> (Block \<times> ('c, 'z) spinner_scheme) option" where
  "spinner_peek g = map_option (\<lambda>(blk, r). (blk, g\<lparr>rcv := r\<rparr>)) (receiver_peek (rcv g))"

text \<open>
  Peek, wait for the block's size, take the block. The loops bind the outcome of \<open>wait_for\<close> to
  \<open>_\<close>, so an error does not keep the block back. \<open>None\<close> is a wait that never ends or a panic.
\<close>

definition turn :: "'c clock \<Rightarrow> ('c, 'z) spinner_scheme \<Rightarrow> (Block \<times> ('c, 'z) spinner_scheme) option" where
  "turn clk g =
     (case spinner_peek g of
        None \<Rightarrow> None
      | Some (blk, g) \<Rightarrow>
          (case throttle_wait_for clk (throttle g) (of_nat (total_bytes blk)) of
             None \<Rightarrow> None
           | Some (_, t) \<Rightarrow>
               (case receiver_next (rcv g) of
                  None \<Rightarrow> None
                | Some (blk, r) \<Rightarrow> Some (blk, g\<lparr>throttle := t, rcv := r, emitted := emitted g @ [(t, blk)]\<rparr>))))"

section \<open>How much is emitted in an interval\<close>

fun throttle_pos :: "('c \<Rightarrow> nat) \<Rightarrow> 'c Throttle \<Rightarrow> nat" where
  "throttle_pos pos (Throttle_Stable st) = pos (clock_state st)"
| "throttle_pos pos Throttle_AllOut = 0"

definition emitted_in :: "('c \<Rightarrow> nat) \<Rightarrow> nat \<Rightarrow> ('c Throttle \<times> Block) list \<Rightarrow> nat" where
  "emitted_in pos k es = sum_list (map (\<lambda>(t, b). if throttle_pos pos t div 1000000 = k then total_bytes b else 0) es)"

lemma emitted_in_snoc [simp]:
  "emitted_in pos k (es @ [(t, b)]) = emitted_in pos k es + (if throttle_pos pos t div 1000000 = k then total_bytes b else 0)"
  by (simp add: emitted_in_def)

text \<open>The valve is never ahead of the clock.\<close>

definition stable_ok :: "('c \<Rightarrow> nat) \<Rightarrow> 'c Stable \<Rightarrow> bool" where
  "stable_ok pos st \<longleftrightarrow> valve_inv (valve st) \<and> unat (interval (valve st)) \<le> pos (clock_state st) div 1000000"

context ticking_clock
begin

lemma request_reading:
  assumes ok: "stable_ok pos st" and rd: "ticks_elapsed clk (clock_state st) = Some (now, c)"
    and req: "request (valve st) now r = (x, v)"
  shows "stable_ok pos \<lparr>valve = v, clock_state = c\<rparr>" "maximum_capacity v = maximum_capacity (valve st)"
    "(if pos c div 1000000 = k \<and> x = Inr 0 then unat r else 0) + headroom k v \<le> headroom k (valve st)"
proof -
  from reading [OF rd] have now: "tick_interval now = pos c div 1000000" "pos (clock_state st) \<le> pos c"
    by (simp_all add: tick_interval_def)
  have le: "unat (interval (valve st)) \<le> tick_interval now"
    using ok now div_le_mono [OF now(2), of 1000000] by (simp add: stable_ok_def)
  show "stable_ok pos \<lparr>valve = v, clock_state = c\<rparr>"
    using request_keeps_inv [of "valve st" now r] request_frame [OF req] ok req le now by (simp add: stable_ok_def)
  show "maximum_capacity v = maximum_capacity (valve st)" using request_frame [OF req] by simp
  show "(if pos c div 1000000 = k \<and> x = Inr 0 then unat r else 0) + headroom k v \<le> headroom k (valve st)"
    using headroom_request [OF _ le req, of k] ok now by (simp add: stable_ok_def)
qed

lemma stable_ok_wait: "stable_ok pos \<lparr>valve = v, clock_state = c\<rparr> \<Longrightarrow> stable_ok pos \<lparr>valve = v, clock_state = clock_wait clk s c\<rparr>"
  using waiting [of c s] div_le_mono [of "pos c" "pos (clock_wait clk s c)" 1000000] by (simp add: stable_ok_def)

lemma wait_for_grants:
  assumes ret: "stable_wait_for clk st r = Some (res, st')" and ok: "stable_ok pos st"
    and fits: "r \<le> maximum_capacity (valve st)"
  shows "stable_ok pos st' \<and> maximum_capacity (valve st') = maximum_capacity (valve st) \<and>
    (if pos (clock_state st') div 1000000 = k then unat r else 0) + headroom k (valve st') \<le> headroom k (valve st)"
    (is "?Q st st'")
proof -
  have "clk' = clk \<longrightarrow> r' = r \<longrightarrow> stable_ok pos st \<longrightarrow> r \<le> maximum_capacity (valve st) \<longrightarrow> ?Q st (snd y)"
    if "stable_wait_for clk' st r' = Some y" for clk' st r' y
  proof (rule stable_wait_for.raw_induct [OF _ that], intro impI)
    fix f clk' st r' y
    assume IH: "\<And>clk' st r' y. f clk' st r' = Some y \<Longrightarrow> clk' = clk \<longrightarrow> r' = r \<longrightarrow> stable_ok pos st \<longrightarrow>
        r \<le> maximum_capacity (valve st) \<longrightarrow> ?Q st (snd y)"
      and step: "(case ticks_elapsed clk' (clock_state st) of None \<Rightarrow> None
        | Some (now, c) \<Rightarrow> case request (valve st) now r' of
            (Inl e, v) \<Rightarrow> Some (Inl e, \<lparr>valve = v, clock_state = c\<rparr>)
          | (Inr slop, v) \<Rightarrow> if slop = 0 then Some (Inr (), \<lparr>valve = v, clock_state = c\<rparr>)
              else f clk' \<lparr>valve = v, clock_state = clock_wait clk' slop c\<rparr> r') = Some y"
      and eqs: "clk' = clk" "r' = r" and ok: "stable_ok pos st" and fits: "r \<le> maximum_capacity (valve st)"
    from step eqs obtain now c where rd: "ticks_elapsed clk (clock_state st) = Some (now, c)"
      by (auto split: option.splits)
    obtain x v where req: "request (valve st) now r = (x, v)" by force
    note next_ok = request_reading [OF ok rd req]
    have "x \<noteq> Inl e" for e using req fits by (auto simp: request_rolled split: if_splits)
    then obtain slop where x: "x = Inr slop" by (cases x) auto
    show "?Q st (snd y)"
    proof (cases "slop = 0")
      case True
      with step eqs rd req x have "snd y = \<lparr>valve = v, clock_state = c\<rparr>" by auto
      with next_ok(1,2) next_ok(3) [of k] x True show ?thesis by simp
    next
      case False
      with step eqs rd req x have "f clk \<lparr>valve = v, clock_state = clock_wait clk slop c\<rparr> r = Some y" by simp
      from IH [OF this] stable_ok_wait [OF next_ok(1), of slop] next_ok(2) next_ok(3) [of k] fits x False show ?thesis by auto
    qed
  qed
  with ret ok fits show ?thesis by fastforce
qed

end

section \<open>Machines that emit by turns\<close>

definition in_order :: "Cache \<Rightarrow> ('c, 'z) spinner_scheme \<Rightarrow> bool" where
  "in_order c g \<longleftrightarrow>
     receiver_ok (blocks c) (rcv g) \<and>
     (\<forall>i. stream_of (rcv g) i = cache_stream c (length (emitted g) + i)) \<and>
     map snd (emitted g) = map (cache_stream c) [0..<length (emitted g)]"

fun paced :: "('c \<Rightarrow> nat) \<Rightarrow> 32 word \<Rightarrow> 'c Throttle \<Rightarrow> ('c Throttle \<times> Block) list \<Rightarrow> bool" where
  "paced pos cap (Throttle_Stable st) es \<longleftrightarrow>
     stable_ok pos st \<and> maximum_capacity (valve st) = cap \<and> (\<forall>k. emitted_in pos k es + headroom k (valve st) \<le> unat cap)"
| "paced pos cap Throttle_AllOut es \<longleftrightarrow> False"

definition moved :: "'c clock \<Rightarrow> 'c spinner \<Rightarrow> 'c spinner \<Rightarrow> bool" where
  "moved clk g g' \<longleftrightarrow> g' = g \<or> (\<exists>b. spinner_peek g = Some (b, g')) \<or> (\<exists>b. turn clk g = Some (b, g'))"

lemma moved_refl [simp]: "moved clk g g" by (simp add: moved_def)
lemma moved_peek: "spinner_peek g = Some (b, g') \<Longrightarrow> moved clk g g'" by (auto simp: moved_def)
lemma moved_turn: "turn clk g = Some (b, g') \<Longrightarrow> moved clk g g'" by (auto simp: moved_def)

lemma spinner_peek_parts:
  assumes "in_order c g" "spinner_peek g = Some (b, g')"
  shows "in_order c g' \<and> throttle g' = throttle g \<and> emitted g' = emitted g \<and> b = cache_stream c (length (emitted g)) \<and>
    spinner.more g' = spinner.more g"
proof -
  from assms(1) have "receiver_ok (blocks c) (rcv g)" by (simp add: in_order_def)
  from receiver_peek_stream [OF this] obtain r' where "receiver_peek (rcv g) = Some (stream_of (rcv g) 0, r')"
    "receiver_ok (blocks c) r'" "stream_of r' = stream_of (rcv g)" by blast
  moreover from assms(1) have "stream_of (rcv g) 0 = cache_stream c (length (emitted g))" by (simp add: in_order_def)
  ultimately show ?thesis using assms by (simp add: spinner_peek_def in_order_def) force
qed

lemma turn_parts:
  assumes ord: "in_order c g" and t: "turn clk g = Some (b, g')"
  shows "in_order c g' \<and> b = cache_stream c (length (emitted g)) \<and> emitted g' = emitted g @ [(throttle g', b)] \<and>
    (\<exists>res. throttle_wait_for clk (throttle g) (of_nat (total_bytes b)) = Some (res, throttle g')) \<and>
    spinner.more g' = spinner.more g"
proof -
  from t obtain blk g1 where p: "spinner_peek g = Some (blk, g1)" by (auto simp: turn_def split: option.splits)
  note g1 = spinner_peek_parts [OF ord p]
  from g1 have "receiver_ok (blocks c) (rcv g1)" by (simp add: in_order_def)
  from receiver_next_stream [OF this] obtain r' where r': "receiver_next (rcv g1) = Some (stream_of (rcv g1) 0, r')"
    "receiver_ok (blocks c) r'" "\<And>i. stream_of r' i = stream_of (rcv g1) (Suc i)" by blast
  have st: "stream_of (rcv g1) i = cache_stream c (length (emitted g) + i)" for i using g1 by (simp add: in_order_def)
  from t p r'(1) obtain res th where w: "throttle_wait_for clk (throttle g) (of_nat (total_bytes blk)) = Some (res, th)"
    and b: "b = stream_of (rcv g1) 0" and g': "g' = g1\<lparr>throttle := th, rcv := r', emitted := emitted g @ [(th, b)]\<rparr>"
    using g1 by (auto simp: turn_def split: option.splits)
  have blk: "b = blk" "b = cache_stream c (length (emitted g))" using b st [of 0] g1 by simp_all
  have "map snd (emitted g) = map (cache_stream c) [0..<length (emitted g)]" using ord by (simp add: in_order_def)
  then have "in_order c g'" using g' blk r'(2,3) st by (simp add: in_order_def)
  with w g' g1 blk show ?thesis by simp
qed

lemma in_order_moved: "moved clk g g' \<Longrightarrow> in_order c g \<Longrightarrow> in_order c g'"
  unfolding moved_def using spinner_peek_parts turn_parts by blast

lemma in_order_new [simp]: "cache_ok c \<Longrightarrow> in_order c (spinner_new c t)"
  by (simp add: in_order_def spinner_new_def)

context ticking_clock
begin

lemma paced_new [simp]: "paced pos cap (Throttle_Stable (with_clock cap c0)) []"
  by (simp add: stable_ok_def with_clock_def emitted_in_def Valve_new_def valve_inv_def headroom_def)

lemma paced_turn:
  assumes "in_order c g" "paced pos cap (throttle g) (emitted g)" "\<forall>b \<in> set (blocks c). total_bytes b \<le> unat cap"
    and "turn clk g = Some (b, g')"
  shows "paced pos cap (throttle g') (emitted g')"
proof -
  obtain st where st: "throttle g = Throttle_Stable st" using assms(2) by (cases "throttle g") auto
  note p = turn_parts [OF assms(1,4)]
  have "cache_stream c i \<in> set (blocks c)" for i
    using stream_of_in [of "blocks c" "rcv g" 0] assms(1) cache_stream_in [of "receiver (rcv g)"]
    by (auto simp: in_order_def receiver_ok_def cache_stream_def cache_ok_def)
       (metis gr_implies_not_zero length_0_conv length_greater_0_conv mod_less_divisor nth_mem)
  then have small: "total_bytes b \<le> unat cap" using p assms(3) by blast
  then have r: "unat (of_nat (total_bytes b) :: 32 word) = total_bytes b"
    using unsigned_less [where 'a = nat, of cap] by (simp add: unat_of_nat)
  from p st obtain res st' where w: "stable_wait_for clk st (of_nat (total_bytes b)) = Some (res, st')" "throttle g' = Throttle_Stable st'"
    by auto
  have "of_nat (total_bytes b) \<le> maximum_capacity (valve st)" using assms(2) st small r by (simp add: word_le_nat_alt)
  with assms(2) st have g: "stable_ok pos st' \<and> maximum_capacity (valve st') = cap \<and>
      (if pos (clock_state st') div 1000000 = k then total_bytes b else 0) + headroom k (valve st') \<le> headroom k (valve st)" for k
    using wait_for_grants [OF w(1), of k] unfolding r by simp
  have "emitted_in pos k (emitted g') + headroom k (valve st') \<le> unat cap" for k
  proof -
    have "emitted_in pos k (emitted g) + headroom k (valve st) \<le> unat cap" using assms(2) st by simp
    moreover have "emitted g' = emitted g @ [(Throttle_Stable st', b)]" using p w(2) by simp
    ultimately show ?thesis using g [of k] by simp
  qed
  with g w(2) show ?thesis by simp
qed

lemma paced_moved:
  assumes "moved clk g g'" "in_order c g" "paced pos cap (throttle g) (emitted g)" "\<forall>b \<in> set (blocks c). total_bytes b \<le> unat cap"
  shows "paced pos cap (throttle g') (emitted g')"
proof -
  from assms(1) consider "g' = g" | b where "spinner_peek g = Some (b, g')" | b where "turn clk g = Some (b, g')"
    unfolding moved_def by blast
  then show ?thesis
  proof cases
    case 1
    with assms(3) show ?thesis by simp
  next
    case (2 b)
    from spinner_peek_parts [OF assms(2) 2] assms(3) show ?thesis by simp
  next
    case (3 b)
    from paced_turn [OF assms(2-4) 3] show ?thesis .
  qed
qed

end

text \<open>
  The contract of a generator with the parts that pace it: each of its steps leaves the spinner
  alone, peeks at the next block, or takes one turn.
\<close>

locale turning_machine =
  fixes step :: "'op \<Rightarrow> 's \<Rightarrow> ('r \<times> 's) option" and clk :: "'c clock" and spin_of :: "'s \<Rightarrow> 'c spinner"
    and ok :: "'s \<Rightarrow> bool"
  assumes by_turns: "ok s \<Longrightarrow> step op s = Some (r, s') \<Longrightarrow> moved clk (spin_of s) (spin_of s') \<and> ok s'"
begin

lemma stays_ok: "reaches step guard s0 s \<Longrightarrow> ok s0 \<Longrightarrow> ok s"
  by (induction rule: reaches.induct) (auto dest: by_turns)

lemma emits_in_order:
  assumes "reaches step guard s0 s" "ok s0" "in_order c (spin_of s0)"
  shows "in_order c (spin_of s)"
  using assms
proof (induction rule: reaches.induct)
  case (reaches_step s op r s')
  from by_turns [OF stays_ok [OF reaches_step.hyps(1) reaches_step.prems(1)] reaches_step.hyps(3)] reaches_step show ?case
    by (auto intro: in_order_moved)
qed simp

end

locale paced_machine = turning_machine step clk spin_of ok + ticking_clock clk pos
  for step :: "'op \<Rightarrow> 's \<Rightarrow> ('r \<times> 's) option" and clk :: "'c clock" and spin_of :: "'s \<Rightarrow> 'c spinner"
    and ok :: "'s \<Rightarrow> bool" and pos :: "'c \<Rightarrow> nat"
begin

lemma stays_paced:
  assumes "reaches step guard s0 s" "ok s0" "in_order c (spin_of s0)" "paced pos cap (throttle (spin_of s0)) (emitted (spin_of s0))"
    and "\<forall>b \<in> set (blocks c). total_bytes b \<le> unat cap"
  shows "paced pos cap (throttle (spin_of s)) (emitted (spin_of s))"
  using assms
proof (induction rule: reaches.induct)
  case (reaches_step s op r s')
  show ?case
    by (rule paced_moved [OF conjunct1 [OF by_turns [OF stays_ok [OF reaches_step.hyps(1)] reaches_step.hyps(3)]]
          emits_in_order [OF reaches_step.hyps(1)]])
      (use reaches_step in auto)
qed simp

lemma emission_rate:
  assumes "reaches step guard s0 s" "ok s0" "spin_of s0 = spinner_new c (Throttle_Stable (with_clock cap c0))" "cache_ok c"
    and "\<forall>b \<in> set (blocks c). total_bytes b \<le> unat cap"
  shows "emitted_in pos k (emitted (spin_of s)) \<le> unat cap \<and>
    map snd (emitted (spin_of s)) = map (cache_stream c) [0..<length (emitted (spin_of s))]"
proof -
  have s0: "in_order c (spin_of s0)" "paced pos cap (throttle (spin_of s0)) (emitted (spin_of s0))"
    using assms(3,4) paced_new [of cap c0] by (simp_all add: spinner_new_def [of c "Throttle_Stable (with_clock cap c0)"] del: paced.simps)
      (simp add: in_order_def)
  from stays_paced [OF assms(1,2) s0 assms(5)]
  have "emitted_in pos k (emitted (spin_of s)) \<le> unat cap"
    by (cases "throttle (spin_of s)") (auto dest: spec [of _ k])
  moreover from emits_in_order [OF assms(1,2) s0(1)]
  have "map snd (emitted (spin_of s)) = map (cache_stream c) [0..<length (emitted (spin_of s))]" by (simp add: in_order_def)
  ultimately show ?thesis by simp
qed

end

end
