(* ===== verification/Generator_Net.thy ===== *)
theory Generator_Net
  imports Pacing
begin

text \<open>
  The loops of the generators that write blocks one after the other: \<^verbatim>\<open>tcp.rs\<close>, \<^verbatim>\<open>udp.rs\<close>,
  \<^verbatim>\<open>unix_stream.rs\<close>, \<^verbatim>\<open>unix_datagram.rs\<close>, \<^verbatim>\<open>grpc.rs\<close> and \<^verbatim>\<open>passthru_file.rs\<close> of
  \<^verbatim>\<open>lading/src/generator\<close>. A loop is a machine. An event says how the awaited future came out:
  which branch of a \<open>select!\<close> won and what the operating system answered. A guard says which
  events are awaited in a state; a step is \<open>None\<close> when the code panics or the wait never ends.
\<close>

section \<open>Loops with one connection\<close>

record 'c net_gen = "'c spinner" +
  connected :: bool
  returned :: bool

definition net_gen_new :: "Cache \<Rightarrow> 'c Throttle \<Rightarrow> 'c net_gen" where
  "net_gen_new c t = spinner.extend (spinner_new c t) \<lparr>connected = False, returned = False\<rparr>"

datatype net_event =
    Ev_Connect bool
  | Ev_Write bool
  | Ev_Shutdown

text \<open>
  TCP connects outside of the \<open>select!\<close>, before it looks at the shutdown signal. A failed write
  drops the connection.
\<close>

fun connect_first :: "net_event \<Rightarrow> ('c, 'z) net_gen_scheme \<Rightarrow> bool" where
  "connect_first (Ev_Connect ok) g \<longleftrightarrow> \<not> returned g \<and> \<not> connected g"
| "connect_first (Ev_Write ok) g \<longleftrightarrow> \<not> returned g \<and> connected g"
| "connect_first Ev_Shutdown g \<longleftrightarrow> \<not> returned g \<and> connected g"

fun tcp_act :: "'c clock \<Rightarrow> net_event \<Rightarrow> 'c net_gen \<Rightarrow> (Block option \<times> 'c net_gen) option" where
  "tcp_act clk (Ev_Connect ok) g = Some (None, g\<lparr>connected := ok\<rparr>)"
| "tcp_act clk (Ev_Write ok) g = map_option (\<lambda>(blk, g). (Some blk, g\<lparr>connected := ok\<rparr>)) (turn clk g)"
| "tcp_act clk Ev_Shutdown g = map_option (\<lambda>(_, g). (None, g\<lparr>returned := True\<rparr>)) (spinner_peek g)"

text \<open>UDP binds in the \<open>select!\<close>, after the peek, so the shutdown signal is always awaited.\<close>

fun udp_guard :: "net_event \<Rightarrow> ('c, 'z) net_gen_scheme \<Rightarrow> bool" where
  "udp_guard (Ev_Connect ok) g \<longleftrightarrow> \<not> returned g \<and> \<not> connected g"
| "udp_guard (Ev_Write ok) g \<longleftrightarrow> \<not> returned g \<and> connected g"
| "udp_guard Ev_Shutdown g \<longleftrightarrow> \<not> returned g"

fun udp_act :: "'c clock \<Rightarrow> net_event \<Rightarrow> 'c net_gen \<Rightarrow> (Block option \<times> 'c net_gen) option" where
  "udp_act clk (Ev_Connect ok) g = map_option (\<lambda>(_, g). (None, g\<lparr>connected := ok\<rparr>)) (spinner_peek g)"
| "udp_act clk (Ev_Write ok) g = map_option (\<lambda>(blk, g). (Some blk, g\<lparr>connected := ok\<rparr>)) (turn clk g)"
| "udp_act clk Ev_Shutdown g = map_option (\<lambda>(_, g). (None, g\<lparr>returned := True\<rparr>)) (spinner_peek g)"

text \<open>The others connect, or open their file, once, and keep the connection when a write fails.\<close>

fun unix_datagram_act :: "'c clock \<Rightarrow> net_event \<Rightarrow> 'c net_gen \<Rightarrow> (Block option \<times> 'c net_gen) option" where
  "unix_datagram_act clk (Ev_Connect ok) g = Some (None, g\<lparr>connected := ok\<rparr>)"
| "unix_datagram_act clk (Ev_Write ok) g = map_option (\<lambda>(blk, g). (Some blk, g)) (turn clk g)"
| "unix_datagram_act clk Ev_Shutdown g = map_option (\<lambda>(_, g). (None, g\<lparr>returned := True\<rparr>)) (spinner_peek g)"

fun grpc_act :: "'c clock \<Rightarrow> net_event \<Rightarrow> 'c net_gen \<Rightarrow> (Block option \<times> 'c net_gen) option" where
  "grpc_act clk (Ev_Connect ok) g = Some (None, g\<lparr>connected := ok\<rparr>)"
| "grpc_act clk (Ev_Write ok) g = map_option (\<lambda>(blk, g). (Some blk, g)) (turn clk g)"
| "grpc_act clk Ev_Shutdown g = map_option (\<lambda>(_, g). (None, g\<lparr>returned := True\<rparr>)) (spinner_peek g)"

fun passthru_file_act :: "'c clock \<Rightarrow> net_event \<Rightarrow> 'c net_gen \<Rightarrow> (Block option \<times> 'c net_gen) option" where
  "passthru_file_act clk (Ev_Connect ok) g = Some (None, g\<lparr>connected := ok\<rparr>)"
| "passthru_file_act clk (Ev_Write ok) g = map_option (\<lambda>(blk, g). (Some blk, g)) (turn clk g)"
| "passthru_file_act clk Ev_Shutdown g = map_option (\<lambda>(_, g). (None, g\<lparr>returned := True\<rparr>)) (spinner_peek g)"

section \<open>The Unix stream\<close>

text \<open>
  \<open>writing\<close> is the block being written with \<open>blk_offset\<close>, while the inner loop runs. Two histories: \<open>wire\<close> is
  what the socket of the present connection accepted, and \<open>past_wires\<close> has, for each connection that
  broke, the number of blocks taken by then and what its socket had accepted. Readiness that fails
  ends the generator with an error, a broken pipe leaves the rest of the block behind, any other
  failure is tried again.
\<close>

record 'c unix_stream = "'c net_gen" +
  writing :: "(Block \<times> nat) option"
  wire :: Bytes
  past_wires :: "(nat \<times> Bytes) list"

definition unix_stream_new :: "Cache \<Rightarrow> 'c Throttle \<Rightarrow> 'c unix_stream" where
  "unix_stream_new c t = net_gen.extend (net_gen_new c t) \<lparr>writing = None, wire = [], past_wires = []\<rparr>"

datatype stream_event =
    St_Connect bool
  | St_Turn
  | St_Shutdown
  | St_ReadyErr
  | St_NotWritable
  | St_Wrote nat
  | St_WouldBlock
  | St_BrokenPipe
  | St_WriteErr

fun unix_stream_guard :: "stream_event \<Rightarrow> 'c unix_stream \<Rightarrow> bool" where
  "unix_stream_guard (St_Connect ok) g \<longleftrightarrow> \<not> returned g \<and> \<not> connected g"
| "unix_stream_guard St_Turn g \<longleftrightarrow> \<not> returned g \<and> connected g \<and> writing g = None"
| "unix_stream_guard St_Shutdown g \<longleftrightarrow> \<not> returned g \<and> connected g \<and> writing g = None"
| "unix_stream_guard (St_Wrote n) g \<longleftrightarrow>
     \<not> returned g \<and> (case writing g of Some (blk, off) \<Rightarrow> n \<le> length (bytes blk) - off | None \<Rightarrow> False)"
| "unix_stream_guard ev g \<longleftrightarrow> \<not> returned g \<and> writing g \<noteq> None"

definition write_rest :: "Block \<Rightarrow> nat \<Rightarrow> (Block \<times> nat) option" where
  "write_rest blk blk_offset = (if blk_offset < total_bytes blk then Some (blk, blk_offset) else None)"

fun unix_stream_act :: "'c clock \<Rightarrow> stream_event \<Rightarrow> 'c unix_stream \<Rightarrow> (Block option \<times> 'c unix_stream) option" where
  "unix_stream_act clk (St_Connect ok) g = Some (None, g\<lparr>connected := ok\<rparr>)"
| "unix_stream_act clk St_Turn g = map_option (\<lambda>(blk, g). (Some blk, g\<lparr>writing := write_rest blk 0\<rparr>)) (turn clk g)"
| "unix_stream_act clk St_Shutdown g = map_option (\<lambda>(_, g). (None, g\<lparr>returned := True\<rparr>)) (spinner_peek g)"
| "unix_stream_act clk St_ReadyErr g = Some (None, g\<lparr>returned := True\<rparr>)"
| "unix_stream_act clk (St_Wrote n) g =
     (case writing g of
        Some (blk, off) \<Rightarrow>
          (if length (bytes blk) < off then None
           else Some (None, g\<lparr>writing := write_rest blk (off + n), wire := wire g @ take n (drop off (bytes blk))\<rparr>))
      | None \<Rightarrow> None)"
| "unix_stream_act clk St_BrokenPipe g =
     Some (None, g\<lparr>connected := False, writing := None, wire := [], past_wires := past_wires g @ [(length (emitted g), wire g)]\<rparr>)"
| "unix_stream_act clk St_NotWritable g = Some (None, g)"
| "unix_stream_act clk St_WouldBlock g = Some (None, g)"
| "unix_stream_act clk St_WriteErr g = Some (None, g)"

section \<open>Turns\<close>

lemma truncate_peek: "spinner_peek g = Some (b, g') \<Longrightarrow> spinner_peek (spinner.truncate g) = Some (b, spinner.truncate g')"
  by (auto simp: spinner_peek_def spinner.truncate_def)

lemma truncate_turn: "turn clk g = Some (b, g') \<Longrightarrow> turn clk (spinner.truncate g) = Some (b, spinner.truncate g')"
  by (auto simp: turn_def spinner_peek_def spinner.truncate_def split: option.splits prod.splits)

lemmas moved_truncate = moved_peek [OF truncate_peek] moved_turn [OF truncate_turn]

lemma truncate_net [simp]:
  "spinner.truncate (g\<lparr>connected := x\<rparr>) = spinner.truncate g" "spinner.truncate (g\<lparr>returned := y\<rparr>) = spinner.truncate g"
  by (simp_all add: spinner.truncate_def)

lemma truncate_stream [simp]:
  "spinner.truncate (g\<lparr>writing := x\<rparr>) = spinner.truncate g" "spinner.truncate (g\<lparr>wire := y\<rparr>) = spinner.truncate g"
  "spinner.truncate (g\<lparr>past_wires := z\<rparr>) = spinner.truncate g"
  by (simp_all add: spinner.truncate_def)

lemma truncate_new [simp]:
  "spinner.truncate (net_gen_new c t) = spinner_new c t" "spinner.truncate (unix_stream_new c t) = spinner_new c t"
  by (simp_all add: net_gen_new_def unix_stream_new_def spinner_new_def spinner.truncate_def spinner.extend_def net_gen.extend_def)

interpretation tcp: turning_machine "tcp_act clk" clk spinner.truncate "\<lambda>_. True" for clk
proof
  show "moved clk (spinner.truncate s) (spinner.truncate s') \<and> True" if "tcp_act clk op s = Some (r, s')" for op s r s'
    using that by (cases op) (auto intro: moved_truncate)
qed

interpretation udp: turning_machine "udp_act clk" clk spinner.truncate "\<lambda>_. True" for clk
proof
  show "moved clk (spinner.truncate s) (spinner.truncate s') \<and> True" if "udp_act clk op s = Some (r, s')" for op s r s'
    using that by (cases op) (auto intro: moved_truncate)
qed

interpretation unix_datagram: turning_machine "unix_datagram_act clk" clk spinner.truncate "\<lambda>_. True" for clk
proof
  show "moved clk (spinner.truncate s) (spinner.truncate s') \<and> True" if "unix_datagram_act clk op s = Some (r, s')" for op s r s'
    using that by (cases op) (auto intro: moved_truncate)
qed

interpretation grpc: turning_machine "grpc_act clk" clk spinner.truncate "\<lambda>_. True" for clk
proof
  show "moved clk (spinner.truncate s) (spinner.truncate s') \<and> True" if "grpc_act clk op s = Some (r, s')" for op s r s'
    using that by (cases op) (auto intro: moved_truncate)
qed

interpretation passthru_file: turning_machine "passthru_file_act clk" clk spinner.truncate "\<lambda>_. True" for clk
proof
  show "moved clk (spinner.truncate s) (spinner.truncate s') \<and> True" if "passthru_file_act clk op s = Some (r, s')" for op s r s'
    using that by (cases op) (auto intro: moved_truncate)
qed

interpretation unix_stream: turning_machine "unix_stream_act clk" clk spinner.truncate "\<lambda>_. True" for clk
proof
  show "moved clk (spinner.truncate s) (spinner.truncate s') \<and> True" if "unix_stream_act clk op s = Some (r, s')" for op s r s'
    using that by (cases op) (auto intro: moved_truncate split: option.splits if_splits)
qed

section \<open>What a stream carries\<close>

text \<open>
  The blocks a connection was given: those from the number taken when the one before broke. A past
  connection has carried them byte for byte, up to a rest of the last.
\<close>

definition blocks_from :: "Cache \<Rightarrow> nat \<Rightarrow> nat \<Rightarrow> Bytes" where
  "blocks_from c a b = concat (map (bytes \<circ> cache_stream c) [a..<b])"

definition carried :: "Cache \<Rightarrow> nat \<Rightarrow> nat \<Rightarrow> Bytes \<Rightarrow> bool" where
  "carried c a b w \<longleftrightarrow> (\<exists>rest. w @ rest = blocks_from c a b \<and> a < b \<and> rest \<noteq> [] \<and> length rest \<le> length (bytes (cache_stream c (b - 1))))"

definition starts :: "'c unix_stream \<Rightarrow> nat list" where
  "starts g = 0 # map fst (past_wires g)"

definition stream_inv :: "Cache \<Rightarrow> 'c unix_stream \<Rightarrow> bool" where
  "stream_inv c g \<longleftrightarrow>
     in_order c (spinner.truncate g) \<and> last (starts g) \<le> length (emitted g) \<and>
     (\<forall>j < length (past_wires g). carried c (starts g ! j) (starts g ! Suc j) (snd (past_wires g ! j))) \<and>
     (case writing g of
        None \<Rightarrow> wire g = blocks_from c (last (starts g)) (length (emitted g))
      | Some (blk, off) \<Rightarrow>
          off < length (bytes blk) \<and> total_bytes blk = length (bytes blk) \<and>
          last (starts g) < length (emitted g) \<and> blk = cache_stream c (length (emitted g) - 1) \<and>
          wire g @ drop off (bytes blk) = blocks_from c (last (starts g)) (length (emitted g)))"

lemma blocks_from_Suc: "a \<le> b \<Longrightarrow> blocks_from c a (Suc b) = blocks_from c a b @ bytes (cache_stream c b)"
  by (simp add: blocks_from_def)

lemma starts_same [simp]:
  "starts (g\<lparr>writing := x\<rparr>) = starts g" "starts (g\<lparr>wire := y\<rparr>) = starts g" "starts (g\<lparr>connected := d\<rparr>) = starts g" "starts (g\<lparr>returned := e\<rparr>) = starts g"
  by (simp_all add: starts_def)

lemma in_order_stream: "in_order c (spinner.truncate g) \<longleftrightarrow> in_order c g"
  by (simp add: in_order_def spinner.truncate_def)

lemma in_order_block:
  assumes "in_order c g"
  shows "block_ok (cache_stream c i)"
proof -
  from assms have "receiver_ok (blocks c) (rcv g)" "\<forall>i. stream_of (rcv g) i = cache_stream c (length (emitted g) + i)"
    by (simp_all add: in_order_def)
  then have b: "list_all block_ok (blocks c)" "blocks c \<noteq> []" by (auto simp: receiver_ok_def cache_ok_def)
  then show ?thesis by (simp add: cache_stream_def list_all_length)
qed

text \<open>When a connection breaks, it has carried its blocks up to the rest of the one being written.\<close>

lemma broken_pipe_inv:
  assumes inv: "stream_inv c g" and "writing g \<noteq> None"
    and g': "g' = g\<lparr>connected := False, writing := None, wire := [], past_wires := past_wires g @ [(length (emitted g), wire g)]\<rparr>"
  shows "stream_inv c g'"
proof -
  obtain blk off where w: "writing g = Some (blk, off)" using assms(2) by auto
  let ?n = "length (past_wires g)"
  have length_starts: "length (starts g) = Suc ?n" by (simp add: starts_def)
  have last: "last (starts g) = starts g ! ?n" by (simp add: starts_def last_conv_nth)
  have "carried c (starts g ! ?n) (length (emitted g)) (wire g)"
    using inv w unfolding carried_def last by (intro exI [of _ "drop off (bytes blk)"]) (auto simp: stream_inv_def last)
  moreover have s: "starts g' = starts g @ [length (emitted g)]" by (simp add: g' starts_def)
  ultimately have "\<forall>j < Suc ?n. carried c (starts g' ! j) (starts g' ! Suc j) (snd (past_wires g' ! j))"
    using inv unfolding s by (auto simp: stream_inv_def g' nth_append less_Suc_eq length_starts)
  with inv show ?thesis unfolding stream_inv_def s by (simp add: g' blocks_from_def)
qed

interpretation whole_blocks: invariant_machine "unix_stream_act clk" unix_stream_guard "stream_inv c" for clk c
proof
  fix g op r g'
  assume inv: "stream_inv c g" and guard: "unix_stream_guard op g" and act: "unix_stream_act clk op g = Some (r, g')"
  have ord: "in_order c (spinner.truncate g')"
    using in_order_moved [OF conjunct1 [OF unix_stream.by_turns [OF TrueI act]]] inv by (simp add: stream_inv_def)
  show "stream_inv c g'"
  proof (cases op)
    case St_Turn
    with act obtain blk g1 where t: "turn clk g = Some (blk, g1)" and g': "g' = g1\<lparr>writing := write_rest blk 0\<rparr>" by auto
    have o: "in_order c g" using inv by (simp add: stream_inv_def in_order_stream)
    note p = turn_parts [OF o t]
    have "block_ok blk" using in_order_block [OF o] p by simp
    moreover have "wire g1 = wire g" "past_wires g1 = past_wires g" using t by (auto simp: turn_def spinner_peek_def split: option.splits)
    moreover from this have "starts g1 = starts g" by (simp add: starts_def)
    ultimately show ?thesis
      using ord inv p g' guard St_Turn by (simp add: stream_inv_def write_rest_def block_ok_def blocks_from_Suc)
  next
    case (St_Wrote n)
    with guard obtain blk off where w: "writing g = Some (blk, off)" "n \<le> length (bytes blk) - off" by (auto split: option.splits)
    have "take n (drop off (bytes blk)) @ drop (off + n) (bytes blk) = drop off (bytes blk)"
      by (simp add: add.commute flip: drop_drop)
    with inv ord act St_Wrote w show ?thesis
      by (auto simp: stream_inv_def write_rest_def split: if_splits)
  next
    case St_Shutdown
    with act inv ord guard show ?thesis by (auto simp: stream_inv_def spinner_peek_def starts_def)
  next
    case St_BrokenPipe
    with act guard broken_pipe_inv [OF inv, of g'] show ?thesis by simp
  qed (use act inv ord guard in \<open>auto simp: stream_inv_def split: option.splits\<close>)
qed

section \<open>Properties\<close>

text \<open>
  C21. What a Unix stream carries. Over any run, whatever sizes the socket accepts, however often it
  refuses and however often a connection breaks: every connection carries consecutive blocks of the cache in
  round-robin order, byte for byte, from the start of a block. A connection that broke carried all its
  blocks up to a rest of the last, which is lost, and the next one starts with the block after it; so a broken
  pipe costs part of one block, and nothing is sent twice. On the present connection nothing is missing but
  the unsent rest of the block being written, and no write slices past a block's end.
\<close>

theorem unix_stream_carries_blocks:
  assumes "cache_ok c" "reaches (unix_stream_act clk) unix_stream_guard (unix_stream_new c t) g"
  shows "(\<forall>j < length (past_wires g). carried c (starts g ! j) (starts g ! Suc j) (snd (past_wires g ! j))) \<and>
    (\<exists>rest. wire g @ rest = blocks_from c (last (starts g)) (length (emitted g)) \<and> (writing g = None \<longrightarrow> rest = [])) \<and>
    (\<forall>n. unix_stream_guard (St_Wrote n) g \<longrightarrow> unix_stream_act clk (St_Wrote n) g \<noteq> None)"
proof -
  have "stream_inv c (unix_stream_new c t)"
    using in_order_new [OF assms(1), of t]
    by (simp add: stream_inv_def) (simp add: unix_stream_new_def net_gen_new_def spinner_new_def net_gen.extend_def spinner.extend_def
      starts_def blocks_from_def)
  from whole_blocks.reaches_inv [OF assms(2) this] have inv: "stream_inv c g" .
  then have "\<exists>rest. wire g @ rest = blocks_from c (last (starts g)) (length (emitted g)) \<and> (writing g = None \<longrightarrow> rest = [])"
    by (cases "writing g") (auto simp: stream_inv_def)
  with inv show ?thesis by (cases "writing g") (auto simp: stream_inv_def)
qed

definition demo_blocks :: Cache where
  "demo_blocks = Fixed 0 [\<lparr>total_bytes = 3, bytes = ''abc''\<rparr>, \<lparr>total_bytes = 2, bytes = ''de''\<rparr>] 5"

text \<open>A connection that breaks one byte into the first block, and the next one after the second block.\<close>

definition demo_stream :: "nat unix_stream" where
  "demo_stream =
     \<lparr>throttle = Throttle_AllOut,
      rcv = \<lparr>receiver = Fixed 0 [\<lparr>total_bytes = 3, bytes = ''abc''\<rparr>, \<lparr>total_bytes = 2, bytes = ''de''\<rparr>] 5, buffer = None\<rparr>,
      emitted = [(Throttle_AllOut, \<lparr>total_bytes = 3, bytes = ''abc''\<rparr>), (Throttle_AllOut, \<lparr>total_bytes = 2, bytes = ''de''\<rparr>)],
      connected = True, returned = False, writing = None, wire = ''de'', past_wires = [(1, ''a'')]\<rparr>"

fun run_events :: "('op \<Rightarrow> 's \<Rightarrow> ('r \<times> 's) option) \<Rightarrow> ('op \<Rightarrow> 's \<Rightarrow> bool) \<Rightarrow> 'op list \<Rightarrow> 's \<Rightarrow> 's option" where
  "run_events step guard [] s = Some s"
| "run_events step guard (op # ops) s =
     (if guard op s then case step op s of Some (r, s') \<Rightarrow> run_events step guard ops s' | None \<Rightarrow> None else None)"

lemma run_events_reaches: "run_events step guard ops s = Some s' \<Longrightarrow> reaches step guard s0 s \<Longrightarrow> reaches step guard s0 s'"
  by (induction ops arbitrary: s) (auto split: if_splits option.splits intro: reaches_step)

lemma demo_stream_reached:
  "reaches (unix_stream_act clk) unix_stream_guard (unix_stream_new demo_blocks Throttle_AllOut) demo_stream"
  by (rule run_events_reaches [OF _ reaches_start,
        where ops = "[St_Connect False, St_Connect True, St_Turn, St_Wrote 1, St_WouldBlock, St_BrokenPipe, St_Connect True, St_Turn, St_Wrote 2]"])
    (simp add: unix_stream_new_def net_gen_new_def spinner_new_def net_gen.extend_def spinner.extend_def
      receiver_new_def demo_blocks_def turn_def spinner_peek_def receiver_peek_def next_block_def receiver_next_def
      write_rest_def demo_stream_def)

theorem unix_stream_carries_blocks_witness:
  "carried demo_blocks 0 1 ''a'' \<and> wire demo_stream = blocks_from demo_blocks 1 2"
proof -
  have "cache_ok demo_blocks" by (simp add: demo_blocks_def cache_ok_def block_ok_def)
  from unix_stream_carries_blocks [OF this demo_stream_reached] show ?thesis by (simp add: demo_stream_def starts_def numeral_2_eq_2)
qed

end
