(* ===== verification/Generator_Http.thy ===== *)
theory Generator_Http
  imports Generator_Net "HOL-Library.AList"
begin

text \<open>
  The generators that send requests in parallel: \<^verbatim>\<open>http.rs\<close>, \<^verbatim>\<open>splunk_hec.rs\<close> and
  \<^verbatim>\<open>splunk_hec/acknowledgements.rs\<close> of \<^verbatim>\<open>lading/src/generator\<close>. A semaphore limits the requests in
  flight: its permits, the tasks that carry a request and the loop that spawns them are separate parts of the
  state. What the target answers is an event; a step is \<open>None\<close> when its wait does not end.
\<close>

section \<open>Tasks that hold a permit\<close>

text \<open>
  The semaphore counts its free permits. The loop acquires one, and the task it spawns owns it: the task
  sends its request, whose end (an answer, an error or a time-out) it sees, and then drops the permit.
  Finished tasks stay in the list, as a history of all requests.
\<close>

datatype request_state = Sending | Answered | Finished

record 'q pool =
  semaphore :: nat
  tasks :: "('q \<times> request_state) list"

definition pool_new :: "nat \<Rightarrow> 'q pool" where
  "pool_new n = \<lparr>semaphore = n, tasks = []\<rparr>"

definition spawn_request :: "'q \<Rightarrow> 'q pool \<Rightarrow> 'q pool option" where
  "spawn_request q p = map_option (\<lambda>free. p\<lparr>semaphore := free, tasks := tasks p @ [(q, Sending)]\<rparr>) (checked_sub (semaphore p) 1)"

definition request_ends :: "nat \<Rightarrow> 'q pool \<Rightarrow> 'q pool option" where
  "request_ends i p =
     (if i < length (tasks p) \<and> snd (tasks p ! i) = Sending
      then Some (p\<lparr>tasks := (tasks p)[i := (fst (tasks p ! i), Answered)]\<rparr>)
      else None)"

definition drop_permit :: "nat \<Rightarrow> 'q pool \<Rightarrow> 'q pool option" where
  "drop_permit i p =
     (if i < length (tasks p) \<and> snd (tasks p ! i) = Answered
      then Some (p\<lparr>semaphore := semaphore p + 1, tasks := (tasks p)[i := (fst (tasks p ! i), Finished)]\<rparr>)
      else None)"

text \<open>The requests in flight, and the invariant: every task that is not finished owns one permit.\<close>

definition in_flight :: "'q pool \<Rightarrow> nat" where
  "in_flight p = length (filter (\<lambda>t. snd t = Sending) (tasks p))"

definition pool_inv :: "nat \<Rightarrow> 'q pool \<Rightarrow> bool" where
  "pool_inv n p \<longleftrightarrow> semaphore p + length (filter (\<lambda>t. snd t \<noteq> Finished) (tasks p)) = n"

lemma length_filter_update:
  "i < length xs \<Longrightarrow> length (filter P (xs[i := x])) + (if P (xs ! i) then 1 else 0) = length (filter P xs) + (if P x then 1 else 0)"
proof (induction xs arbitrary: i)
  case (Cons y ys)
  then show ?case by (cases i) auto
qed simp

lemma pool_inv_new [simp]: "pool_inv n (pool_new n)"
  by (simp add: pool_inv_def pool_new_def)

lemma pool_steps:
  assumes "pool_inv n p"
  shows "spawn_request q p = Some p' \<Longrightarrow> pool_inv n p' \<and> map fst (tasks p') = map fst (tasks p) @ [q]"
    and "request_ends i p = Some p' \<Longrightarrow> pool_inv n p' \<and> map fst (tasks p') = map fst (tasks p)"
    and "drop_permit i p = Some p' \<Longrightarrow> pool_inv n p' \<and> map fst (tasks p') = map fst (tasks p)"
proof -
  show "pool_inv n p' \<and> map fst (tasks p') = map fst (tasks p) @ [q]" if "spawn_request q p = Some p'"
    using assms that by (auto simp: spawn_request_def pool_inv_def checked_sub_def split: if_splits)
  have keep: "map fst ((tasks p)[i := (fst (tasks p ! i), st)]) = map fst (tasks p)" for st
    by (metis fst_conv list_update_beyond list_update_id map_update not_le nth_map)
  show "pool_inv n p' \<and> map fst (tasks p') = map fst (tasks p)" if "request_ends i p = Some p'"
    using assms that length_filter_update [of i "tasks p" "\<lambda>t. snd t \<noteq> Finished" "(fst (tasks p ! i), Answered)"]
    by (auto simp: request_ends_def pool_inv_def keep split: if_splits)
  show "pool_inv n p' \<and> map fst (tasks p') = map fst (tasks p)" if "drop_permit i p = Some p'"
    using assms that length_filter_update [of i "tasks p" "\<lambda>t. snd t \<noteq> Finished" "(fst (tasks p ! i), Finished)"]
    by (auto simp: drop_permit_def pool_inv_def keep split: if_splits)
qed

lemma in_flight_le: "pool_inv n p \<Longrightarrow> in_flight p \<le> n"
proof -
  assume "pool_inv n p"
  moreover have "length (filter (\<lambda>t. snd t = Sending) ts) \<le> length (filter (\<lambda>t. snd t \<noteq> Finished) ts)" for ts :: "('q \<times> request_state) list"
    by (induction ts) auto
  from this [of "tasks p"] calculation show ?thesis by (simp add: in_flight_def pool_inv_def)
qed

lemma all_permits_free: "pool_inv n p \<Longrightarrow> checked_sub (semaphore p) n \<noteq> None \<Longrightarrow> \<forall>t \<in> set (tasks p). snd t = Finished"
  by (auto simp: pool_inv_def checked_sub_def filter_empty_conv split: if_splits) (metis snd_conv)

lemma finished_stay: "\<forall>t \<in> set (tasks p). snd t = Finished \<Longrightarrow> request_ends i p = None \<and> drop_permit i p = None"
  by (auto simp: request_ends_def drop_permit_def)

section \<open>HTTP\<close>

text \<open>
  The loop takes a block before it waits, so the block is held while the \<open>select!\<close> runs, then
  waits for a permit, and only then spawns the request. On shutdown it acquires
  \<open>parallel_connections\<close> permits, which it gives back when it returns, and the block held is dropped.
\<close>

datatype http_phase =
    H_Loop
  | H_Select Block
  | H_Permit Block
  | H_Closing Block
  | H_Returned Block

record 'c http_gen = "'c spinner" +
  phase :: http_phase
  parallel_connections :: nat
  http_pool :: "Block pool"

definition http_gen_new :: "nat \<Rightarrow> Cache \<Rightarrow> 'c Throttle \<Rightarrow> 'c http_gen" where
  "http_gen_new n c t = spinner.extend (spinner_new c t) \<lparr>phase = H_Loop, parallel_connections = n, http_pool = pool_new n\<rparr>"

datatype http_event = Ht_Next | Ht_Turn | Ht_Permit | Ht_Reply nat | Ht_Drop nat | Ht_Shutdown | Ht_Closed

fun http_act :: "'c clock \<Rightarrow> http_event \<Rightarrow> 'c http_gen \<Rightarrow> (Block option \<times> 'c http_gen) option" where
  "http_act clk Ht_Next g =
     (case phase g of
        H_Loop \<Rightarrow> map_option (\<lambda>(blk, r). (None, g\<lparr>rcv := r, phase := H_Select blk\<rparr>)) (receiver_next (rcv g))
      | _ \<Rightarrow> None)"
| "http_act clk Ht_Turn g =
     (case phase g of
        H_Select blk \<Rightarrow>
          map_option (\<lambda>(_, t). (None, g\<lparr>throttle := t, emitted := emitted g @ [(t, blk)], phase := H_Permit blk\<rparr>))
            (throttle_wait_for clk (throttle g) (of_nat (total_bytes blk)))
      | _ \<Rightarrow> None)"
| "http_act clk Ht_Permit g =
     (case phase g of
        H_Permit blk \<Rightarrow> map_option (\<lambda>p. (Some blk, g\<lparr>phase := H_Loop, http_pool := p\<rparr>)) (spawn_request blk (http_pool g))
      | _ \<Rightarrow> None)"
| "http_act clk (Ht_Reply i) g = map_option (\<lambda>p. (None, g\<lparr>http_pool := p\<rparr>)) (request_ends i (http_pool g))"
| "http_act clk (Ht_Drop i) g = map_option (\<lambda>p. (None, g\<lparr>http_pool := p\<rparr>)) (drop_permit i (http_pool g))"
| "http_act clk Ht_Shutdown g = (case phase g of H_Select blk \<Rightarrow> Some (None, g\<lparr>phase := H_Closing blk\<rparr>) | _ \<Rightarrow> None)"
| "http_act clk Ht_Closed g =
     (case phase g of
        H_Closing blk \<Rightarrow>
          map_option (\<lambda>_. (None, g\<lparr>phase := H_Returned blk\<rparr>)) (checked_sub (semaphore (http_pool g)) (parallel_connections g))
      | _ \<Rightarrow> None)"

text \<open>
  The headers of a request. Draining a header map yields the name of a header with its first
  value only and \<open>None\<close> with every further value, and the loop skips those.
\<close>

definition http_headers :: "(string option \<times> string) list \<Rightarrow> nat \<Rightarrow> (string \<times> string) list" where
  "http_headers headers block_length =
     fold (\<lambda>(k, v) hs. case k of Some k \<Rightarrow> AList.update k v hs | None \<Rightarrow> hs) headers
       [(''content-length'', show_nat block_length)]"

section \<open>Splunk HEC\<close>

datatype Channel = Channel_Ack string | Channel_NoAck string

fun channel_id :: "Channel \<Rightarrow> string" where
  "channel_id (Channel_Ack i) = i"
| "channel_id (Channel_NoAck i) = i"

definition channels_new :: "nat \<Rightarrow> Channel list" where
  "channels_new num_channels =
     map (\<lambda>i. Channel_NoAck (show_nat (10000000 + i) @ ''-1111-1111-1111-111111111111'')) [0..<num_channels]"

text \<open>\<open>None\<close> is the \<open>unreachable!\<close> for a channel that acknowledges already.\<close>

fun enable_acknowledgements :: "Channel list \<Rightarrow> Channel list option" where
  "enable_acknowledgements [] = Some []"
| "enable_acknowledgements (Channel_NoAck i # cs) = map_option ((#) (Channel_Ack i)) (enable_acknowledgements cs)"
| "enable_acknowledgements (Channel_Ack i # cs) = None"

text \<open>
  The loop picks the next channel of the cycle, peeks, waits, takes the block, and then waits for a
  permit. On shutdown it returns at once and leaves its tasks behind.
\<close>

record 'c splunk_gen = "'c spinner" +
  channels :: "Channel list"
  next_channel :: nat
  pending :: "(Channel \<times> Block) option"
  hec_pool :: "(Channel \<times> Block) pool"
  hec_returned :: bool

definition splunk_gen_new :: "Channel list \<Rightarrow> nat \<Rightarrow> Cache \<Rightarrow> 'c Throttle \<Rightarrow> 'c splunk_gen" where
  "splunk_gen_new cs n c t =
     spinner.extend (spinner_new c t)
       \<lparr>channels = cs, next_channel = 0, pending = None, hec_pool = pool_new n, hec_returned = False\<rparr>"

datatype hec_event = Hec_Turn | Hec_Permit | Hec_Reply nat | Hec_Drop nat | Hec_Shutdown

definition pick_channel :: "'c splunk_gen \<Rightarrow> (Channel \<times> 'c splunk_gen) option" where
  "pick_channel g =
     (if channels g = [] then None
      else Some (channels g ! next_channel g, g\<lparr>next_channel := (next_channel g + 1) mod length (channels g)\<rparr>))"

fun splunk_act :: "'c clock \<Rightarrow> hec_event \<Rightarrow> 'c splunk_gen \<Rightarrow> ((Channel \<times> Block) option \<times> 'c splunk_gen) option" where
  "splunk_act clk Hec_Turn g =
     (if hec_returned g \<or> pending g \<noteq> None then None
      else case pick_channel g of
        None \<Rightarrow> None
      | Some (channel, g) \<Rightarrow> map_option (\<lambda>(blk, g). (None, g\<lparr>pending := Some (channel, blk)\<rparr>)) (turn clk g))"
| "splunk_act clk Hec_Permit g =
     (case pending g of
        Some req \<Rightarrow> map_option (\<lambda>p. (Some req, g\<lparr>pending := None, hec_pool := p\<rparr>)) (spawn_request req (hec_pool g))
      | None \<Rightarrow> None)"
| "splunk_act clk (Hec_Reply i) g = map_option (\<lambda>p. (None, g\<lparr>hec_pool := p\<rparr>)) (request_ends i (hec_pool g))"
| "splunk_act clk (Hec_Drop i) g = map_option (\<lambda>p. (None, g\<lparr>hec_pool := p\<rparr>)) (drop_permit i (hec_pool g))"
| "splunk_act clk Hec_Shutdown g =
     (if hec_returned g \<or> pending g \<noteq> None then None
      else case pick_channel g of
        None \<Rightarrow> None
      | Some (channel, g) \<Rightarrow> map_option (\<lambda>(_, g). (None, g\<lparr>hec_returned := True\<rparr>)) (spinner_peek g))"

section \<open>Acknowledgements\<close>

text \<open>
  The task behind an acknowledging channel: the identifiers that wait for an acknowledgement, each
  with the queries it may still fail. A query that times out, fails, answers another status or a
  body that does not parse changes nothing. \<open>ack_retries\<close> is \<open>None\<close> where the division panics.
\<close>

definition ack_retries :: "nat \<Rightarrow> nat \<Rightarrow> nat option" where
  "ack_retries ack_timeout_seconds ack_query_interval_seconds =
     (if ack_query_interval_seconds = 0 then None else Some (ack_timeout_seconds div ack_query_interval_seconds))"

datatype ack_response = Ack_Failed | Ack_Status "nat \<rightharpoonup> bool"

definition ack_request :: "ack_response \<Rightarrow> (nat \<rightharpoonup> nat) \<Rightarrow> (nat \<rightharpoonup> nat)" where
  "ack_request resp ack_ids =
     (case resp of
        Ack_Failed \<Rightarrow> ack_ids
      | Ack_Status acks \<Rightarrow>
          (\<lambda>i. if acks i = Some True then None else Option.bind (ack_ids i) (\<lambda>retries. checked_sub retries 1)))"

datatype ack_event = Ack_Received nat | Ack_Tick ack_response | Ack_Closed

record ack_service =
  ack_ids :: "nat \<rightharpoonup> nat"
  ack_finished :: bool

fun ack_guard :: "ack_event \<Rightarrow> ack_service \<Rightarrow> bool" where
  "ack_guard (Ack_Tick resp) a \<longleftrightarrow> \<not> ack_finished a \<and> ack_ids a \<noteq> Map.empty"
| "ack_guard ev a \<longleftrightarrow> \<not> ack_finished a"

fun ack_act :: "nat \<Rightarrow> ack_event \<Rightarrow> ack_service \<Rightarrow> (unit \<times> ack_service) option" where
  "ack_act retries (Ack_Received i) a = Some ((), a\<lparr>ack_ids := (ack_ids a)(i \<mapsto> retries)\<rparr>)"
| "ack_act retries (Ack_Tick resp) a = Some ((), a\<lparr>ack_ids := ack_request resp (ack_ids a)\<rparr>)"
| "ack_act retries Ack_Closed a = Some ((), a\<lparr>ack_finished := True\<rparr>)"

section \<open>Turns of the parallel generators\<close>

text \<open>HTTP's spinner as the others have it: the block held counts as peeked at.\<close>

fun held :: "http_phase \<Rightarrow> Block option" where
  "held (H_Select blk) = Some blk"
| "held (H_Closing blk) = Some blk"
| "held (H_Returned blk) = Some blk"
| "held _ = None"

definition http_spinner :: "'c http_gen \<Rightarrow> 'c spinner" where
  "http_spinner g = \<lparr>throttle = throttle g, rcv = \<lparr>receiver = receiver (rcv g), buffer = held (phase g)\<rparr>, emitted = emitted g\<rparr>"

definition http_ok :: "'c http_gen \<Rightarrow> bool" where
  "http_ok g \<longleftrightarrow> buffer (rcv g) = None"

interpretation http: turning_machine "http_act clk" clk http_spinner http_ok for clk
proof
  fix op g r g'
  assume ok: "http_ok g" and act: "http_act clk op g = Some (r, g')"
  show "moved clk (http_spinner g) (http_spinner g') \<and> http_ok g'"
  proof (cases op)
    case Ht_Next
    with ok act have "spinner_peek (http_spinner g) = Some (the (held (phase g')), http_spinner g')" "http_ok g'"
      by (auto simp: http_ok_def http_spinner_def receiver_next_def spinner_peek_def receiver_peek_def split: http_phase.splits)
    then show ?thesis by (auto intro: moved_peek)
  next
    case Ht_Turn
    with ok act have "turn clk (http_spinner g) = Some (snd (last (emitted g')), http_spinner g')" "http_ok g'"
      by (auto simp: http_ok_def http_spinner_def turn_def spinner_peek_def receiver_peek_def receiver_next_def
          split: http_phase.splits)
    then show ?thesis by (auto intro: moved_turn)
  qed (use ok act in \<open>auto simp: http_ok_def http_spinner_def split: http_phase.splits\<close>)
qed

lemma truncate_hec [simp]:
  "spinner.truncate (g\<lparr>next_channel := a\<rparr>) = spinner.truncate g" "spinner.truncate (g\<lparr>pending := b\<rparr>) = spinner.truncate g"
  "spinner.truncate (g\<lparr>hec_pool := d\<rparr>) = spinner.truncate g"
  "spinner.truncate (g\<lparr>hec_returned := f\<rparr>) = spinner.truncate g"
  by (simp_all add: spinner.truncate_def)

lemma pick_channel_truncate: "pick_channel g = Some (ch, g') \<Longrightarrow> spinner.truncate g' = spinner.truncate g"
  by (auto simp: pick_channel_def split: if_splits)

interpretation splunk_hec: turning_machine "splunk_act clk" clk spinner.truncate "\<lambda>_. True" for clk
proof
  show "moved clk (spinner.truncate s) (spinner.truncate s') \<and> True" if "splunk_act clk op s = Some (r, s')" for op s r s'
    using that
    by (cases op) (auto dest!: pick_channel_truncate moved_truncate split: option.splits if_splits)
qed

section \<open>Invariants\<close>

definition http_inv :: "nat \<Rightarrow> Cache \<Rightarrow> 'c http_gen \<Rightarrow> bool" where
  "http_inv n c g \<longleftrightarrow>
     http_ok g \<and> in_order c (http_spinner g) \<and> parallel_connections g = n \<and> pool_inv n (http_pool g) \<and>
     map fst (tasks (http_pool g)) @ (case phase g of H_Permit blk \<Rightarrow> [blk] | _ \<Rightarrow> []) = map snd (emitted g) \<and>
     ((\<exists>b. phase g = H_Returned b) \<longrightarrow> (\<forall>t \<in> set (tasks (http_pool g)). snd t = Finished))"

interpretation permits_kept: invariant_machine "http_act clk" "\<lambda>_ _. True" "http_inv n c" for clk n c
proof
  fix g op r g'
  assume inv: "http_inv n c g" and act: "http_act clk op g = Some (r, g')"
  have moved: "in_order c (http_spinner g')" "http_ok g'"
    using http.by_turns [OF _ act] inv by (auto simp: http_inv_def intro: in_order_moved)
  have pool: "pool_inv n (http_pool g)" using inv by (simp add: http_inv_def)
  show "http_inv n c g'"
  proof (cases op)
    case Ht_Closed
    then have "\<forall>t \<in> set (tasks (http_pool g)). snd t = Finished"
      using inv act all_permits_free [OF pool] by (auto simp: http_inv_def split: http_phase.splits)
    with Ht_Closed inv act moved show ?thesis by (auto simp: http_inv_def split: http_phase.splits)
  next
    case Ht_Permit
    with inv act moved pool_steps(1) [OF pool] show ?thesis by (auto simp: http_inv_def split: http_phase.splits)
  next
    case (Ht_Reply i)
    with inv act moved pool_steps(2) [OF pool] finished_stay show ?thesis by (fastforce simp: http_inv_def split: http_phase.splits)
  next
    case (Ht_Drop i)
    with inv act moved pool_steps(3) [OF pool] finished_stay show ?thesis by (fastforce simp: http_inv_def split: http_phase.splits)
  qed (use inv act moved in \<open>auto simp: http_inv_def split: http_phase.splits\<close>)
qed

definition hec_request :: "Channel list \<Rightarrow> Cache \<Rightarrow> nat \<Rightarrow> Channel \<times> Block" where
  "hec_request cs c i = (cs ! (i mod length cs), cache_stream c i)"

definition splunk_inv :: "Channel list \<Rightarrow> nat \<Rightarrow> Cache \<Rightarrow> 'c splunk_gen \<Rightarrow> bool" where
  "splunk_inv cs n c g \<longleftrightarrow>
     in_order c g \<and> channels g = cs \<and> pool_inv n (hec_pool g) \<and>
     (\<not> hec_returned g \<longrightarrow> next_channel g = length (emitted g) mod length cs) \<and>
     map fst (tasks (hec_pool g)) @ (case pending g of Some req \<Rightarrow> [req] | None \<Rightarrow> []) = map (hec_request cs c) [0..<length (emitted g)]"

lemma turn_keeps:
  assumes "turn clk g = Some (b, g')"
  shows "channels g' = channels g" "hec_pool g' = hec_pool g"
    "next_channel g' = next_channel g" "hec_returned g' = hec_returned g" "pending g' = pending g"
  using assms by (auto simp: turn_def spinner_peek_def split: option.splits)

lemma in_order_hec [simp]:
  "in_order c (g\<lparr>next_channel := i\<rparr>) \<longleftrightarrow> in_order c g" "in_order c (g\<lparr>pending := p\<rparr>) \<longleftrightarrow> in_order c g"
  by (simp_all add: in_order_def)

interpretation hec_requests: invariant_machine "splunk_act clk" "\<lambda>_ _. True" "splunk_inv cs n c" for clk cs n c
proof
  fix g op r g'
  assume inv: "splunk_inv cs n c g" and act: "splunk_act clk op g = Some (r, g')"
  have pool: "pool_inv n (hec_pool g)" using inv by (simp add: splunk_inv_def)
  let ?g = "g\<lparr>next_channel := (next_channel g + 1) mod length (channels g)\<rparr>"
  have ord: "in_order c ?g" using inv by (simp add: splunk_inv_def)
  show "splunk_inv cs n c g'"
  proof (cases op)
    case Hec_Turn
    from Hec_Turn act obtain blk g1 where cs: "channels g \<noteq> []" and t: "turn clk ?g = Some (blk, g1)"
      and g': "g' = g1\<lparr>pending := Some (channels g ! next_channel g, blk)\<rparr>" and go: "pending g = None" "\<not> hec_returned g"
      by (auto simp: pick_channel_def simp del: not_None_eq split: option.splits if_splits)
    note p = turn_parts [OF ord t] and k = turn_keeps [OF t]
    have "in_order c g'" using p by (simp add: g')
    with inv p k cs go show ?thesis by (auto simp: splunk_inv_def g' hec_request_def mod_simps)
  next
    case Hec_Permit
    with inv act pool_steps(1) [OF pool] show ?thesis by (auto simp: splunk_inv_def in_order_def split: option.splits)
  next
    case (Hec_Reply i)
    with inv act pool_steps(2) [OF pool] show ?thesis by (auto simp: splunk_inv_def in_order_def)
  next
    case (Hec_Drop i)
    with inv act pool_steps(3) [OF pool] show ?thesis by (auto simp: splunk_inv_def in_order_def)
  next
    case Hec_Shutdown
    from Hec_Shutdown act obtain blk g1 where t: "spinner_peek ?g = Some (blk, g1)" and g': "g' = g1\<lparr>hec_returned := True\<rparr>"
      by (auto simp: pick_channel_def split: option.splits if_splits)
    note p = spinner_peek_parts [OF ord t]
    have "channels g1 = channels g" "hec_pool g1 = hec_pool g" "pending g1 = pending g" using t by (auto simp: spinner_peek_def)
    with p inv show ?thesis by (auto simp: splunk_inv_def g' in_order_def)
  qed
qed

section \<open>Properties\<close>

text \<open>
  C23. Parallel requests. The permits of the semaphore bound the requests: at no point of a run are more
  requests in flight than \<open>parallel_connections\<close>, for HTTP and for Splunk HEC, whatever the order in which
  requests end and tasks drop their permits; an HTTP generator that has returned has no task left; and
  the requests carry the cache's blocks in order, each once, for Splunk over the channels in rotation.
\<close>

theorem requests_in_flight_bounded:
  assumes "cache_ok c"
  shows "(\<forall>g. reaches (http_act clk) (\<lambda>_ _. True) (http_gen_new n c t) g \<longrightarrow>
        in_flight (http_pool g) \<le> n \<and> ((\<exists>b. phase g = H_Returned b) \<longrightarrow> (\<forall>task \<in> set (tasks (http_pool g)). snd task = Finished)) \<and>
        map fst (tasks (http_pool g)) = map (cache_stream c) [0..<length (tasks (http_pool g))]) \<and>
     (\<forall>g. reaches (splunk_act clk) (\<lambda>_ _. True) (splunk_gen_new cs n c t) g \<longrightarrow>
        in_flight (hec_pool g) \<le> n \<and> map fst (tasks (hec_pool g)) = map (hec_request cs c) [0..<length (tasks (hec_pool g))])"
proof -
  have prefix: "xs = map f [0..<length xs]" if "xs @ ys = map f [0..<m]" for xs ys :: "'b list" and f m
    using arg_cong [OF that, of "take (length xs)"] arg_cong [OF that, of length] by (simp add: take_map)
  have "http_inv n c (http_gen_new n c t)"
    using in_order_new [OF assms, of t]
    by (simp add: http_inv_def http_gen_new_def spinner.extend_def http_ok_def http_spinner_def in_order_def spinner_new_def receiver_new_def pool_new_def pool_inv_def)
  from permits_kept.reaches_inv [OF _ this]
  have h: "http_inv n c g" if "reaches (http_act clk) (\<lambda>_ _. True) (http_gen_new n c t) g" for g using that by blast
  have "map fst (tasks (http_pool g)) = map (cache_stream c) [0..<length (tasks (http_pool g))]"
    if "reaches (http_act clk) (\<lambda>_ _. True) (http_gen_new n c t) g" for g
  proof -
    have "map fst (tasks (http_pool g)) @ (case phase g of H_Permit blk \<Rightarrow> [blk] | _ \<Rightarrow> []) = map (cache_stream c) [0..<length (emitted g)]"
      using h [OF that] by (simp add: http_inv_def in_order_def http_spinner_def)
    from prefix [OF this] show ?thesis by simp
  qed
  moreover have "splunk_inv cs n c (splunk_gen_new cs n c t)"
    using in_order_new [OF assms, of t]
    by (simp add: splunk_inv_def splunk_gen_new_def spinner.extend_def in_order_def spinner_new_def pool_new_def pool_inv_def)
  from hec_requests.reaches_inv [OF _ this]
  have inv: "splunk_inv cs n c g" if "reaches (splunk_act clk) (\<lambda>_ _. True) (splunk_gen_new cs n c t) g" for g using that by blast
  have "map fst (tasks (hec_pool g)) = map (hec_request cs c) [0..<length (tasks (hec_pool g))]"
    if "reaches (splunk_act clk) (\<lambda>_ _. True) (splunk_gen_new cs n c t) g" for g
  proof -
    have "map fst (tasks (hec_pool g)) @ (case pending g of Some req \<Rightarrow> [req] | None \<Rightarrow> []) = map (hec_request cs c) [0..<length (emitted g)]"
      using inv [OF that] by (simp add: splunk_inv_def)
    from prefix [OF this] show ?thesis by simp
  qed
  ultimately show ?thesis using h inv by (auto simp: http_inv_def splunk_inv_def intro: in_flight_le)
qed

definition demo_hec :: "nat splunk_gen" where
  "demo_hec =
     \<lparr>throttle = Throttle_AllOut, rcv = receiver_new demo_blocks,
      emitted = [(Throttle_AllOut, \<lparr>total_bytes = 3, bytes = ''abc''\<rparr>), (Throttle_AllOut, \<lparr>total_bytes = 2, bytes = ''de''\<rparr>)],
      channels = [Channel_NoAck ''x''], next_channel = 0, pending = None,
      hec_pool = \<lparr>semaphore = 0, tasks = [((Channel_NoAck ''x'', \<lparr>total_bytes = 3, bytes = ''abc''\<rparr>), Finished),
        ((Channel_NoAck ''x'', \<lparr>total_bytes = 2, bytes = ''de''\<rparr>), Sending)]\<rparr>,
      hec_returned = False\<rparr>"

lemma demo_hec_reached:
  "reaches (splunk_act clk) (\<lambda>_ _. True) (splunk_gen_new [Channel_NoAck ''x''] 1 demo_blocks Throttle_AllOut) demo_hec"
  by (rule run_events_reaches [OF _ reaches_start, where ops = "[Hec_Turn, Hec_Permit, Hec_Turn, Hec_Reply 0, Hec_Drop 0, Hec_Permit]"])
    (simp add: splunk_gen_new_def spinner_new_def spinner.extend_def receiver_new_def demo_blocks_def turn_def spinner_peek_def
      receiver_peek_def next_block_def receiver_next_def pick_channel_def demo_hec_def pool_new_def spawn_request_def request_ends_def
      drop_permit_def checked_sub_def)

theorem requests_in_flight_bounded_witness:
  "in_flight (hec_pool demo_hec) \<le> 1 \<and>
   map fst (tasks (hec_pool demo_hec)) = map (hec_request [Channel_NoAck ''x''] demo_blocks) [0..<length (tasks (hec_pool demo_hec))]"
proof -
  have "cache_ok demo_blocks" by (simp add: demo_blocks_def cache_ok_def block_ok_def)
  from requests_in_flight_bounded [OF this] demo_hec_reached show ?thesis by blast
qed

fun acked :: "nat \<Rightarrow> ack_response \<Rightarrow> bool" where
  "acked i (Ack_Status acks) \<longleftrightarrow> acks i = Some True"
| "acked i Ack_Failed \<longleftrightarrow> False"

text \<open>
  Acknowledgements do not pile up. An identifier registered with \<open>r\<close> retries is forgotten
  as soon as a query answers that it is acknowledged, and otherwise by the query after
  \<open>r\<close> answered ones; until then each answered query costs one retry, and a query that fails
  costs none.
\<close>

theorem ack_ids_expire:
  assumes "ids i = Some r"
  shows "fold ack_request resps ids i =
     (let answered = length (filter (\<lambda>resp. resp \<noteq> Ack_Failed) resps)
      in if list_ex (acked i) resps \<or> r < answered then None else Some (r - answered))"
proof -
  have gone: "fold ack_request resps ids i = None" if "ids i = None" for ids :: "nat \<rightharpoonup> nat" and resps
    using that by (induction resps arbitrary: ids) (auto simp: ack_request_def split: ack_response.splits)
  show ?thesis using assms
  proof (induction resps arbitrary: ids r)
    case (Cons resp resps)
    show ?case
    proof (cases resp)
      case Ack_Failed
      with Cons.IH [of ids r, OF Cons.prems] show ?thesis by (simp add: ack_request_def Let_def)
    next
      case (Ack_Status acks)
      show ?thesis
      proof (cases "acks i = Some True \<or> r = 0")
        case True
        then have "ack_request resp ids i = None" using Cons.prems Ack_Status by (auto simp: ack_request_def checked_sub_def)
        from gone [of "ack_request resp ids", OF this] show ?thesis using True Ack_Status by (auto simp: Let_def)
      next
        case False
        then have "ack_request resp ids i = Some (r - 1)" using Cons.prems Ack_Status by (simp add: ack_request_def checked_sub_def)
        from Cons.IH [of "ack_request resp ids" "r - 1", OF this] False Ack_Status show ?thesis by (auto simp: Let_def)
      qed
    qed
  qed simp
qed

theorem ack_ids_expire_witness:
  "fold ack_request [Ack_Status Map.empty, Ack_Failed, Ack_Status [8 \<mapsto> True]] [7 \<mapsto> 2] 7 = Some 0 \<and>
   fold ack_request [Ack_Status Map.empty, Ack_Status [7 \<mapsto> True]] [7 \<mapsto> 2] 7 = None"
  using ack_ids_expire [of "[7 \<mapsto> 2]" 7 2 "[Ack_Status Map.empty, Ack_Failed, Ack_Status [8 \<mapsto> True]]"]
    ack_ids_expire [of "[7 \<mapsto> 2]" 7 2 "[Ack_Status Map.empty, Ack_Status [7 \<mapsto> True]]"]
  by (simp add: Let_def)

end
