(* ===== verification/Generator_File.thy ===== *)
theory Generator_File
  imports Generator_Net
begin

text \<open>
  The generators that write log files to disk: \<^verbatim>\<open>logrotate.rs\<close> and \<^verbatim>\<open>traditional.rs\<close> of
  \<^verbatim>\<open>lading/src/generator/file_gen\<close>. A path is its list of components. The disk maps paths to contents,
  among them what an open \<open>BufWriter\<close> still holds, which the code flushes before it rotates or
  stops; no one else touches these files. An event names the operation that fails, if one does.
\<close>

type_synonym path = "string list"
type_synonym disk = "path \<rightharpoonup> Bytes"

section \<open>Rotating by renaming\<close>

datatype IoOp = TryExists | RemoveFile | CreateDirAll | OpenOp

datatype lr_error =
    LR_Io path IoOp
  | LR_IoRename path path
  | LR_IoWriteAll
  | LR_IoFlush
  | LR_NameWithNoParent

text \<open>Writing at a position of a file, and opening for writing without truncation.\<close>

definition write_at :: "nat \<Rightarrow> Bytes \<Rightarrow> Bytes \<Rightarrow> Bytes" where
  "write_at pos bs contents = take pos contents @ bs @ drop (pos + length bs) contents"

definition open_keep :: "path \<Rightarrow> disk \<Rightarrow> disk" where
  "open_keep p d = d(p \<mapsto> (case d p of Some c \<Rightarrow> c | None \<Rightarrow> []))"

fun shift_names :: "lr_error option \<Rightarrow> path list \<Rightarrow> nat \<Rightarrow> disk \<Rightarrow> (lr_error + unit) \<times> disk" where
  "shift_names fault ns 0 d = (Inr (), d)"
| "shift_names fault ns (Suc i) d =
     (let from = ns ! i; to = ns ! (i + 1) in
      if fault = Some (LR_Io from TryExists) then (Inl (LR_Io from TryExists), d)
      else if d from = None then shift_names fault ns i d
      else if fault = Some (LR_IoRename from to) then (Inl (LR_IoRename from to), d)
      else shift_names fault ns i (d(to := d from, from := None)))"

text \<open>The rotation at the end of \<open>write_bytes\<close>, once the limit is passed.\<close>

definition rotate_logs :: "lr_error option \<Rightarrow> path list \<Rightarrow> disk \<Rightarrow> (lr_error + unit) \<times> disk" where
  "rotate_logs fault ns d =
     (let last_name = last ns in
      if fault = Some LR_IoFlush then (Inl LR_IoFlush, d)
      else if fault = Some (LR_Io last_name TryExists) then (Inl (LR_Io last_name TryExists), d)
      else if d last_name \<noteq> None \<and> fault = Some (LR_Io last_name RemoveFile) then (Inl (LR_Io last_name RemoveFile), d)
      else
        (case shift_names fault ns (length ns - 1) (d(last_name := None)) of
           (Inl e, d) \<Rightarrow> (Inl e, d)
         | (Inr _, d) \<Rightarrow>
             (if fault = Some (LR_Io (ns ! 0) OpenOp) then (Inl (LR_Io (ns ! 0) OpenOp), d)
              else (Inr (), open_keep (ns ! 0) d))))"

definition write_bytes ::
    "lr_error option \<Rightarrow> Block \<Rightarrow> nat \<Rightarrow> path list \<Rightarrow> nat \<times> disk \<Rightarrow> (lr_error + unit) \<times> nat \<times> disk" where
  "write_bytes fault blk maximum_bytes_per_log ns = (\<lambda>(total_bytes_written, d).
     if fault = Some LR_IoWriteAll then (Inl LR_IoWriteAll, total_bytes_written, d)
     else
       let d = d(ns ! 0 := map_option (write_at total_bytes_written (bytes blk)) (d (ns ! 0)));
           total_bytes_written = total_bytes_written + total_bytes blk
       in if maximum_bytes_per_log < total_bytes_written
          then (case rotate_logs fault ns d of
                  (Inl e, d) \<Rightarrow> (Inl e, total_bytes_written, d)
                | (Inr _, d) \<Rightarrow> (Inr (), 0, d))
          else (Inr (), total_bytes_written, d))"

record 'c logrotate_child = "'c spinner" +
  names :: "path list"
  maximum_bytes_per_log :: nat
  total_bytes_written :: nat
  disk_of :: disk
  outcome :: "(lr_error + unit) option"

text \<open>\<open>Child::new\<close>: the log's own name and one name per rotation.\<close>

definition rotation_names :: "path \<Rightarrow> nat \<Rightarrow> path list" where
  "rotation_names basename total_rotations =
     basename # map (\<lambda>i. butlast basename @ [last basename @ ''.'' @ show_nat i]) [0..<total_rotations]"

text \<open>\<open>Child::spin\<close> up to its loop: the directory is made and the log opened, truncated.\<close>

definition logrotate_child_start ::
    "lr_error option \<Rightarrow> path \<Rightarrow> nat \<Rightarrow> nat \<Rightarrow> Cache \<Rightarrow> 'c Throttle \<Rightarrow> disk \<Rightarrow> lr_error + 'c logrotate_child" where
  "logrotate_child_start fault basename total_rotations limit c t d =
     (let ns = rotation_names basename total_rotations in
      if basename = [] then Inl LR_NameWithNoParent
      else if fault = Some (LR_Io (butlast basename) CreateDirAll) then Inl (LR_Io (butlast basename) CreateDirAll)
      else if fault = Some (LR_Io (butlast basename) OpenOp) then Inl (LR_Io (butlast basename) OpenOp)
      else Inr (spinner.extend (spinner_new c t)
        \<lparr>names = ns, maximum_bytes_per_log = limit, total_bytes_written = 0, disk_of = d(basename \<mapsto> []), outcome = None\<rparr>))"

datatype lr_event = Lr_Turn "lr_error option" | Lr_Shutdown "lr_error option"

definition lr_guard :: "lr_event \<Rightarrow> 'c logrotate_child \<Rightarrow> bool" where
  "lr_guard ev g \<longleftrightarrow> outcome g = None"

fun logrotate_act :: "'c clock \<Rightarrow> lr_event \<Rightarrow> 'c logrotate_child \<Rightarrow> (Block option \<times> 'c logrotate_child) option" where
  "logrotate_act clk (Lr_Turn fault) g =
     map_option (\<lambda>(blk, g).
       case write_bytes fault blk (maximum_bytes_per_log g) (names g) (total_bytes_written g, disk_of g) of
         (res, n, d) \<Rightarrow>
           (Some blk, g\<lparr>total_bytes_written := n, disk_of := d, outcome := (case res of Inl e \<Rightarrow> Some (Inl e) | Inr _ \<Rightarrow> None)\<rparr>))
       (turn clk g)"
| "logrotate_act clk (Lr_Shutdown fault) g =
     map_option (\<lambda>(_, g). (None, g\<lparr>outcome := Some (if fault = Some LR_IoFlush then Inl LR_IoFlush else Inr ())\<rparr>)) (spinner_peek g)"

section \<open>Rotating by index\<close>

text \<open>\<open>path_from_template\<close>: the index, padded to four digits, in place of each \<open>%NNN%\<close>.\<close>

definition show_index :: "nat \<Rightarrow> string" where
  "show_index i = (let s = show_nat i in replicate (4 - length s) (CHR ''0'') @ s)"

function replace_marker :: "string \<Rightarrow> string \<Rightarrow> string" where
  "replace_marker fidx s =
     (if take 5 s = ''%NNN%'' then fidx @ replace_marker fidx (drop 5 s)
      else case s of [] \<Rightarrow> [] | ch # rest \<Rightarrow> ch # replace_marker fidx rest)"
  by pat_completeness auto
termination
proof (relation "measure (\<lambda>(fidx, s). length s)")
  show "((fidx, drop 5 s), fidx, s) \<in> measure (\<lambda>(fidx, s). length s)" if "take 5 s = ''%NNN%''" for fidx s :: string
    using that by (cases s) auto
qed auto

declare replace_marker.simps [simp del]

definition path_from_template :: "string \<Rightarrow> nat \<Rightarrow> path" where
  "path_from_template path_template i = [replace_marker (show_index i) path_template]"

datatype tr_error = TR_Write | TR_Flush | TR_Remove | TR_Open

text \<open>
  One child. \<open>file_index\<close> counts up a \<open>u32\<close> that the children share; the event says by how much the
  others advanced it meanwhile.
\<close>

record 'c traditional_child = "'c spinner" +
  path_template :: string
  maximum_bytes_per_file :: nat
  rotate_files :: bool
  file_index :: nat
  current_path :: path
  bytes_in_file :: nat
  tr_disk :: disk
  tr_outcome :: "(tr_error + unit) option"

definition traditional_child_start ::
    "bool \<Rightarrow> string \<Rightarrow> nat \<Rightarrow> bool \<Rightarrow> nat \<Rightarrow> Cache \<Rightarrow> 'c Throttle \<Rightarrow> disk \<Rightarrow> tr_error + 'c traditional_child" where
  "traditional_child_start open_fails template limit rot index c t d =
     (let path = path_from_template template index in
      if open_fails then Inl TR_Open
      else Inr (spinner.extend (spinner_new c t)
        \<lparr>path_template = template, maximum_bytes_per_file = limit, rotate_files = rot, file_index = wrapping_add 32 index 1,
         current_path = path, bytes_in_file = 0, tr_disk = d(path \<mapsto> []), tr_outcome = None\<rparr>))"

datatype tr_event = Tr_Turn "tr_error option" nat | Tr_Shutdown "tr_error option"

definition tr_guard :: "tr_event \<Rightarrow> 'c traditional_child \<Rightarrow> bool" where
  "tr_guard ev g \<longleftrightarrow> tr_outcome g = None"

definition tr_write :: "tr_error option \<Rightarrow> nat \<Rightarrow> Block \<Rightarrow> 'c traditional_child \<Rightarrow> 'c traditional_child" where
  "tr_write fault others blk g =
     (if fault = Some TR_Write then g\<lparr>tr_outcome := Some (Inl TR_Write)\<rparr>
      else
        let d = (tr_disk g)(current_path g := map_option (write_at (bytes_in_file g) (bytes blk)) (tr_disk g (current_path g)));
            g = g\<lparr>tr_disk := d, bytes_in_file := bytes_in_file g + total_bytes blk\<rparr>
        in if maximum_bytes_per_file g < bytes_in_file g
           then if fault = Some TR_Flush then g\<lparr>tr_outcome := Some (Inl TR_Flush)\<rparr>
                else if rotate_files g \<and> fault = Some TR_Remove then g\<lparr>tr_outcome := Some (Inl TR_Remove)\<rparr>
                else
                  let d = (if rotate_files g then (tr_disk g)(current_path g := None) else tr_disk g);
                      index = wrapping_add 32 (file_index g) others;
                      path = path_from_template (path_template g) index;
                      g = g\<lparr>tr_disk := d, file_index := wrapping_add 32 index 1, current_path := path\<rparr>
                  in if fault = Some TR_Open then g\<lparr>tr_outcome := Some (Inl TR_Open)\<rparr>
                     else g\<lparr>tr_disk := open_keep path d, bytes_in_file := 0\<rparr>
           else g)"

fun traditional_act :: "'c clock \<Rightarrow> tr_event \<Rightarrow> 'c traditional_child \<Rightarrow> (Block option \<times> 'c traditional_child) option" where
  "traditional_act clk (Tr_Turn fault others) g = map_option (\<lambda>(blk, g). (Some blk, tr_write fault others blk g)) (turn clk g)"
| "traditional_act clk (Tr_Shutdown fault) g =
     map_option (\<lambda>(_, g). (None, g\<lparr>tr_outcome := Some (if fault = Some TR_Flush then Inl TR_Flush else Inr ())\<rparr>)) (spinner_peek g)"

section \<open>Turns\<close>

lemma truncate_logrotate [simp]:
  "spinner.truncate (g\<lparr>total_bytes_written := a\<rparr>) = spinner.truncate g" "spinner.truncate (g\<lparr>disk_of := b\<rparr>) = spinner.truncate g"
  "spinner.truncate (g\<lparr>outcome := e\<rparr>) = spinner.truncate g"
  by (simp_all add: spinner.truncate_def)

lemma truncate_tr_write [simp]: "spinner.truncate (tr_write fault others blk g) = spinner.truncate g"
  by (simp add: tr_write_def spinner.truncate_def Let_def)

lemma truncate_tr [simp]: "spinner.truncate (g\<lparr>tr_outcome := e\<rparr>) = spinner.truncate g"
  by (simp add: spinner.truncate_def)

interpretation logrotate: turning_machine "logrotate_act clk" clk spinner.truncate "\<lambda>_. True" for clk
proof
  show "moved clk (spinner.truncate s) (spinner.truncate s') \<and> True" if "logrotate_act clk op s = Some (r, s')" for op s r s'
    using that by (cases op) (auto simp: split_beta intro: moved_truncate)
qed

interpretation traditional: turning_machine "traditional_act clk" clk spinner.truncate "\<lambda>_. True" for clk
proof
  show "moved clk (spinner.truncate s) (spinner.truncate s') \<and> True" if "traditional_act clk op s = Some (r, s')" for op s r s'
    using that by (cases op) (auto intro: moved_truncate)
qed

section \<open>What a rotation leaves on disk\<close>

text \<open>
  The log holds \<open>cur\<close>, and the rotated names hold the finished pieces, the newest first, as far as the
  names reach.
\<close>

definition log_chain :: "path list \<Rightarrow> Bytes list \<Rightarrow> Bytes \<Rightarrow> disk \<Rightarrow> bool" where
  "log_chain ns pieces cur d \<longleftrightarrow>
     d (ns ! 0) = Some cur \<and>
     (\<forall>i. Suc i < length ns \<longrightarrow> d (ns ! Suc i) = (if i < length pieces then Some (pieces ! i) else None))"

lemma shift_names_moves:
  assumes "shift_names fault ns k d = (Inr (), d')" "distinct ns" "k < length ns" "d (ns ! k) = None"
  shows "d' (ns ! 0) = None \<and> (\<forall>i < k. d' (ns ! Suc i) = d (ns ! i)) \<and> (\<forall>p. p \<notin> set (take (Suc k) ns) \<longrightarrow> d' p = d p)"
  using assms
proof (induction k arbitrary: d)
  case (Suc k)
  let ?d = "if d (ns ! k) = None then d else d(ns ! Suc k := d (ns ! k), ns ! k := None)"
  from Suc.prems have sh: "shift_names fault ns k ?d = (Inr (), d')" by (auto simp: Let_def split: if_splits)
  have ne: "ns ! Suc k \<noteq> ns ! k" using Suc.prems by (simp add: nth_eq_iff_index_eq)
  have "?d (ns ! k) = None" by simp
  from Suc.IH [OF sh Suc.prems(2) _ this] Suc.prems(3)
  have IH: "d' (ns ! 0) = None" "\<And>i. i < k \<Longrightarrow> d' (ns ! Suc i) = ?d (ns ! i)" "\<And>p. p \<notin> set (take (Suc k) ns) \<Longrightarrow> d' p = ?d p"
    by auto
  have "?d (ns ! i) = d (ns ! i)" if "i < k" for i
    using that Suc.prems(2,3) by (auto simp: nth_eq_iff_index_eq)
  moreover have "ns ! Suc k \<notin> set (take (Suc k) ns)"
    using Suc.prems(2,3) by (auto simp: in_set_conv_nth nth_eq_iff_index_eq)
  then have "d' (ns ! Suc k) = d (ns ! k)" using IH(3) Suc.prems(4) ne by auto
  moreover have "d' p = d p" if "p \<notin> set (take (Suc (Suc k)) ns)" for p
  proof -
    from that Suc.prems(3) have "p \<notin> set (take (Suc k) ns)" "p \<noteq> ns ! Suc k" "p \<noteq> ns ! k"
      by (auto simp: take_Suc_conv_app_nth)
    with IH(3) show ?thesis by auto
  qed
  ultimately show ?case using IH(1,2) by (auto simp: less_Suc_eq)
qed simp

lemma distinct_nth_Suc: "distinct ns \<Longrightarrow> Suc i < length ns \<Longrightarrow> ns ! Suc i \<noteq> ns ! 0"
  by (cases ns) auto

lemma rotate_logs_chain:
  assumes "rotate_logs fault ns d = (Inr (), d')" "distinct ns" "ns \<noteq> []" "log_chain ns pieces cur d"
  shows "log_chain ns (cur # pieces) [] d' \<and> (\<forall>p. p \<notin> set ns \<longrightarrow> d' p = d p)"
proof -
  let ?d = "d(last ns := None)" and ?k = "length ns - 1"
  from assms(1) obtain d1 where s: "shift_names fault ns ?k ?d = (Inr (), d1)" and d': "d' = open_keep (ns ! 0) d1"
    by (auto simp: rotate_logs_def Let_def split: if_splits prod.splits sum.splits)
  have last: "last ns = ns ! ?k" using assms(3) by (simp add: last_conv_nth)
  from shift_names_moves [OF s assms(2)] assms(3) last
  have m: "d1 (ns ! 0) = None" "\<And>i. i < ?k \<Longrightarrow> d1 (ns ! Suc i) = ?d (ns ! i)" "\<And>p. p \<notin> set ns \<Longrightarrow> d1 p = ?d p" by auto
  have old: "?d (ns ! i) = d (ns ! i)" if "i < ?k" for i
    using that assms(2,3) last by (simp add: nth_eq_iff_index_eq)
  have "d' (ns ! Suc i) = (if i < length (cur # pieces) then Some ((cur # pieces) ! i) else None)" if i: "Suc i < length ns" for i
  proof -
    have "ns ! Suc i \<noteq> ns ! 0" by (rule distinct_nth_Suc [OF assms(2) i])
    then have "d' (ns ! Suc i) = d (ns ! i)" using m(2) [of i] old [of i] i by (simp add: d' open_keep_def)
    with assms(4) i show ?thesis by (cases i) (auto simp: log_chain_def)
  qed
  moreover have "d' (ns ! 0) = Some []" using m(1) by (simp add: d' open_keep_def)
  moreover have "d' p = d p" if "p \<notin> set ns" for p
    using that m(3) [OF that] assms(3) by (auto simp: d' open_keep_def)
  ultimately show ?thesis by (simp add: log_chain_def)
qed

lemma write_at_end [simp]: "write_at (length c) bs c = c @ bs"
  by (simp add: write_at_def)

definition logs_ok :: "nat \<Rightarrow> nat \<Rightarrow> path list \<Rightarrow> Bytes \<Rightarrow> nat \<Rightarrow> disk \<Rightarrow> bool" where
  "logs_ok m limit ns stream n d \<longleftrightarrow>
     (\<exists>pieces cur. log_chain ns pieces cur d \<and> length cur = n \<and> n \<le> limit \<and>
        (\<forall>p \<in> set pieces. limit < length p \<and> length p \<le> limit + m) \<and> concat (rev pieces) @ cur = stream)"

lemma write_bytes_logs:
  assumes "write_bytes fault blk limit ns (n, d) = (Inr (), n', d')" "distinct ns" "ns \<noteq> []" "logs_ok m limit ns stream n d"
    and "total_bytes blk = length (bytes blk)" "total_bytes blk \<le> m"
  shows "logs_ok m limit ns (stream @ bytes blk) n' d' \<and> (\<forall>p. p \<notin> set ns \<longrightarrow> d' p = d p)"
proof -
  from assms(4) obtain pieces cur where chain: "log_chain ns pieces cur d" "length cur = n" "n \<le> limit"
    "\<forall>p \<in> set pieces. limit < length p \<and> length p \<le> limit + m" "concat (rev pieces) @ cur = stream"
    by (auto simp: logs_ok_def)
  let ?d = "d(ns ! 0 := map_option (write_at n (bytes blk)) (d (ns ! 0)))"
  have "ns ! Suc i \<noteq> ns ! 0" if "Suc i < length ns" for i by (rule distinct_nth_Suc [OF assms(2) that])
  with chain have chain': "log_chain ns pieces (cur @ bytes blk) ?d" by (auto simp: log_chain_def)
  have other: "?d p = d p" if "p \<notin> set ns" for p using that assms(3) by auto
  show ?thesis
  proof (cases "limit < n + total_bytes blk")
    case True
    with assms(1) have "rotate_logs fault ns ?d = (Inr (), d')" "n' = 0"
      by (auto simp: write_bytes_def Let_def split: if_splits prod.splits sum.splits)
    with rotate_logs_chain [OF this(1) assms(2,3) chain'] other
    have "log_chain ns ((cur @ bytes blk) # pieces) [] d'" "n' = 0" "\<forall>p. p \<notin> set ns \<longrightarrow> d' p = d p" by auto
    moreover from this(1,2) have "logs_ok m limit ns (stream @ bytes blk) n' d'"
      unfolding logs_ok_def using chain True assms(5,6)
      by (intro exI [of _ "(cur @ bytes blk) # pieces"] exI [of _ "[] :: Bytes"]) auto
    ultimately show ?thesis by blast
  next
    case False
    with assms(1) have "d' = ?d" "n' = n + total_bytes blk" by (auto simp: write_bytes_def Let_def split: if_splits)
    with chain chain' False assms(5) other show ?thesis
      by (auto simp: logs_ok_def intro!: exI [of _ pieces] exI [of _ "cur @ bytes blk"])
  qed
qed

lemma in_order_logrotate [simp]:
  "in_order c (g\<lparr>total_bytes_written := a\<rparr>) \<longleftrightarrow> in_order c g" "in_order c (g\<lparr>disk_of := b\<rparr>) \<longleftrightarrow> in_order c g"
  "in_order c (g\<lparr>outcome := e\<rparr>) \<longleftrightarrow> in_order c g"
  by (simp_all add: in_order_def)

definition emitted_bytes :: "('c, 'z) spinner_scheme \<Rightarrow> Bytes" where
  "emitted_bytes g = concat (map (bytes \<circ> snd) (emitted g))"

lemma emitted_bytes_outcome [simp]: "emitted_bytes (g\<lparr>outcome := e\<rparr>) = emitted_bytes g"
  by (simp add: emitted_bytes_def)

definition lr_inv :: "Cache \<Rightarrow> nat \<Rightarrow> nat \<Rightarrow> path list \<Rightarrow> disk \<Rightarrow> 'c logrotate_child \<Rightarrow> bool" where
  "lr_inv c m limit ns d0 g \<longleftrightarrow>
     in_order c g \<and> names g = ns \<and> maximum_bytes_per_log g = limit \<and>
     (outcome g \<in> {None, Some (Inr ())} \<longrightarrow>
        logs_ok m limit ns (emitted_bytes g) (total_bytes_written g) (disk_of g) \<and> (\<forall>p. p \<notin> set ns \<longrightarrow> disk_of g p = d0 p))"

lemma turn_keeps_logrotate:
  assumes "turn clk g = Some (b, g')"
  shows "names g' = names g" "maximum_bytes_per_log g' = maximum_bytes_per_log g" "total_bytes_written g' = total_bytes_written g"
    "disk_of g' = disk_of g" "outcome g' = outcome g"
  using assms by (auto simp: turn_def spinner_peek_def split: option.splits)

lemma peek_keeps_logrotate:
  assumes "spinner_peek g = Some (b, g')"
  shows "names g' = names g" "maximum_bytes_per_log g' = maximum_bytes_per_log g" "total_bytes_written g' = total_bytes_written g"
    "disk_of g' = disk_of g" "outcome g' = outcome g"
  using assms by (auto simp: spinner_peek_def)

definition blocks_below :: "nat \<Rightarrow> Cache \<Rightarrow> bool" where
  "blocks_below m c \<longleftrightarrow> (\<forall>b \<in> set (blocks c). total_bytes b \<le> m)"

lemma emitted_block:
  assumes "in_order c g" "blocks_below m c" "turn clk g = Some (b, g')"
  shows "total_bytes b = length (bytes b)" "total_bytes b \<le> m" "emitted_bytes g' = emitted_bytes g @ bytes b"
proof -
  note p = turn_parts [OF assms(1,3)]
  have "cache_stream c (length (emitted g)) \<in> set (blocks c)"
    using assms(1) stream_of_in [of "blocks c" "rcv g" 0] by (simp add: in_order_def)
  then show "total_bytes b = length (bytes b)" "total_bytes b \<le> m" "emitted_bytes g' = emitted_bytes g @ bytes b"
    using p in_order_block [OF assms(1)] assms(2) by (auto simp: block_ok_def blocks_below_def emitted_bytes_def)
qed

lemma lr_turn_inv:
  assumes "distinct ns" "ns \<noteq> []" "blocks_below m c" "lr_inv c m limit ns d0 g" "outcome g = None"
    and "logrotate_act clk (Lr_Turn fault) g = Some (r, g')"
  shows "lr_inv c m limit ns d0 g'"
proof -
  from assms(6) obtain blk g1 where t: "turn clk g = Some (blk, g1)" by auto
  note k = turn_keeps_logrotate [OF t]
  obtain res n d where w: "write_bytes fault blk limit ns (total_bytes_written g, disk_of g) = (res, n, d)" by (metis prod_cases3)
  have o: "in_order c g" and ns: "names g = ns" "maximum_bytes_per_log g = limit" using assms(4) by (simp_all add: lr_inv_def)
  have g': "g' = g1\<lparr>total_bytes_written := n, disk_of := d, outcome := (case res of Inl e \<Rightarrow> Some (Inl e) | Inr _ \<Rightarrow> None)\<rparr>"
    using assms(6) t w k ns by simp
  have "in_order c g'" using turn_parts [OF o t] by (simp add: g')
  moreover have "logs_ok m limit ns (emitted_bytes g1) n d \<and> (\<forall>p. p \<notin> set ns \<longrightarrow> d p = d0 p)" if "res = Inr u" for u
  proof -
    have "write_bytes fault blk limit ns (total_bytes_written g, disk_of g) = (Inr (), n, d)" using w that by simp
    from write_bytes_logs [OF this assms(1,2) _ emitted_block(1,2) [OF o assms(3) t]] emitted_block(3) [OF o assms(3) t] assms(4,5)
    show ?thesis by (auto simp: lr_inv_def)
  qed
  moreover have "emitted_bytes g' = emitted_bytes g1" by (simp add: g' emitted_bytes_def)
  ultimately show ?thesis using k ns by (cases res) (auto simp: lr_inv_def g')
qed

lemma lr_act_inv:
  assumes "distinct ns" "ns \<noteq> []" "blocks_below m c" "lr_inv c m limit ns d0 g" "outcome g = None" "logrotate_act clk op g = Some (r, g')"
  shows "lr_inv c m limit ns d0 g'"
proof (cases op)
  case (Lr_Turn fault)
  with assms lr_turn_inv show ?thesis by blast
next
  case (Lr_Shutdown fault)
  with assms(6) obtain blk g1 where p: "spinner_peek g = Some (blk, g1)"
    and g': "g' = g1\<lparr>outcome := Some (if fault = Some LR_IoFlush then Inl LR_IoFlush else Inr ())\<rparr>" by auto
  have "in_order c g" using assms(4) by (simp add: lr_inv_def)
  note q = spinner_peek_parts [OF this p]
  have "in_order c g'" using q by (simp add: g')
  moreover have "emitted_bytes g1 = emitted_bytes g" using q by (simp add: emitted_bytes_def)
  ultimately show ?thesis using assms(4,5) peek_keeps_logrotate [OF p] by (simp add: lr_inv_def g')
qed

lemma rotation_names_distinct: "basename \<noteq> [] \<Longrightarrow> distinct (rotation_names basename n)"
proof -
  assume ne: "basename \<noteq> []"
  have "basename \<noteq> butlast basename @ [last basename @ ''.'' @ show_nat i]" for i
  proof
    assume "basename = butlast basename @ [last basename @ ''.'' @ show_nat i]"
    from arg_cong [OF this, of last] show False by simp
  qed
  moreover have "distinct (map (\<lambda>i. butlast basename @ [last basename @ ''.'' @ show_nat i]) [0..<n])"
    by (simp add: distinct_map inj_on_def)
  ultimately show ?thesis by (auto simp: rotation_names_def)
qed

section \<open>Properties\<close>

text \<open>
  C6. Log rotation on disk. Over any run of the logrotate generator in which no operation failed, into a directory without
  earlier rotations, the log and its rotated names hold consecutive pieces of the stream of blocks,
  the newest piece in the log and older ones at higher numbers, so that with the pieces rotated
  away in front they are exactly the bytes emitted. The log never exceeds its limit, each
  rotated piece does, but by no more than one block, and no other file is touched.
\<close>

theorem logrotate_keeps_latest_pieces:
  assumes "cache_ok c" "blocks_below m c"
    and start: "logrotate_child_start fault basename n limit c t d = Inr g0"
    and fresh: "\<forall>i < n. d (rotation_names basename n ! Suc i) = None"
    and run: "reaches (logrotate_act clk) lr_guard g0 g" and ok: "outcome g \<in> {None, Some (Inr ())}"
  shows "\<exists>pieces cur. disk_of g basename = Some cur \<and> length cur \<le> limit \<and>
      (\<forall>i < n. disk_of g (rotation_names basename n ! Suc i) = (if i < length pieces then Some (pieces ! i) else None)) \<and>
      (\<forall>p \<in> set pieces. limit < length p \<and> length p \<le> limit + m) \<and>
      concat (rev pieces) @ cur = concat (map (bytes \<circ> cache_stream c) [0..<length (emitted g)]) \<and>
      (\<forall>p. p \<notin> set (rotation_names basename n) \<longrightarrow> disk_of g p = d p)"
proof -
  let ?ns = "rotation_names basename n"
  from start have ne: "basename \<noteq> []" by (auto simp: logrotate_child_start_def Let_def split: if_splits)
  have ns: "distinct ?ns" "?ns \<noteq> []" "?ns ! 0 = basename" "length ?ns = Suc n"
    using rotation_names_distinct [OF ne] by (simp_all add: rotation_names_def)
  have other: "?ns ! Suc i \<noteq> basename" if "i < n" for i using distinct_nth_Suc [OF ns(1), of i] ns that by simp
  have "logs_ok m limit ?ns [] 0 (d(basename \<mapsto> []))"
    unfolding logs_ok_def log_chain_def using ns fresh other by (intro exI [of _ "[]"]) auto
  moreover have "basename \<in> set ?ns" by (simp add: rotation_names_def)
  ultimately have "lr_inv c m limit ?ns d g0"
    using start in_order_new [OF assms(1), of t]
    by (auto simp: logrotate_child_start_def Let_def lr_inv_def spinner.extend_def spinner_new_def emitted_bytes_def in_order_def split: if_splits)
  with run have "lr_inv c m limit ?ns d g"
    by (induction rule: reaches.induct) (auto simp: lr_guard_def intro: lr_act_inv [OF ns(1,2) assms(2)])
  then have inv: "in_order c g" "logs_ok m limit ?ns (emitted_bytes g) (total_bytes_written g) (disk_of g)"
    "\<forall>p. p \<notin> set ?ns \<longrightarrow> disk_of g p = d p"
    using ok by (auto simp: lr_inv_def)
  have "emitted_bytes g = concat (map (bytes \<circ> cache_stream c) [0..<length (emitted g)])"
    using inv(1) by (metis emitted_bytes_def in_order_def map_map)
  with inv(2,3) ns show ?thesis by (auto simp: logs_ok_def log_chain_def)
qed

definition demo_log :: path where
  "demo_log = [''logs'', ''7.log'']"

definition demo_child :: "RealClock logrotate_child" where
  "demo_child =
     spinner.extend (spinner_new demo_blocks Throttle_AllOut)
       \<lparr>names = rotation_names demo_log 1, maximum_bytes_per_log = 4, total_bytes_written = 0, disk_of = Map.empty(demo_log \<mapsto> []),
        outcome = None\<rparr>"

definition demo_run :: "RealClock logrotate_child option" where
  "demo_run = run_events (logrotate_act (real_clock (\<lambda>_. 0) (late_sleep (\<lambda>_ _. 0)))) lr_guard [Lr_Turn None, Lr_Turn None, Lr_Turn None] demo_child"

lemma demo_run_ok: "demo_run = Some (the demo_run) \<and> outcome (the demo_run) = None \<and> length (emitted (the demo_run)) = 3"
  by (simp add: demo_run_def demo_child_def lr_guard_def turn_def spinner_new_def spinner.extend_def spinner_peek_def receiver_peek_def
      receiver_new_def next_block_def receiver_next_def demo_blocks_def write_bytes_def rotate_logs_def rotation_names_def
      demo_log_def show_nat.simps Let_def)

theorem logrotate_keeps_latest_pieces_witness:
  "let g = the demo_run
   in \<exists>pieces cur. disk_of g demo_log = Some cur \<and> length cur \<le> 4 \<and>
      (\<forall>i < 1. disk_of g (rotation_names demo_log 1 ! Suc i) = (if i < length pieces then Some (pieces ! i) else None)) \<and>
      (\<forall>p \<in> set pieces. 4 < length p \<and> length p \<le> 4 + 3) \<and>
      concat (rev pieces) @ cur = concat (map (bytes \<circ> cache_stream demo_blocks) [0..<length (emitted g)]) \<and>
      (\<forall>p. p \<notin> set (rotation_names demo_log 1) \<longrightarrow> disk_of g p = None)"
proof -
  have c: "cache_ok demo_blocks" "blocks_below 3 demo_blocks" by (simp_all add: demo_blocks_def cache_ok_def block_ok_def blocks_below_def)
  have s: "logrotate_child_start None demo_log 1 4 demo_blocks (Throttle_AllOut :: RealClock Throttle) Map.empty = Inr demo_child"
    by (simp add: logrotate_child_start_def demo_child_def demo_log_def)
  from demo_run_ok have "run_events (logrotate_act (real_clock (\<lambda>_. 0) (late_sleep (\<lambda>_ _. 0)))) lr_guard
      [Lr_Turn None, Lr_Turn None, Lr_Turn None] demo_child = Some (the demo_run)" by (simp add: demo_run_def)
  from run_events_reaches [OF this reaches_start]
  have "reaches (logrotate_act (real_clock (\<lambda>_. 0) (late_sleep (\<lambda>_ _. 0)))) lr_guard demo_child (the demo_run)" .
  from logrotate_keeps_latest_pieces [OF c s _ this] demo_run_ok show ?thesis by (simp add: Let_def)
qed

function markers :: "string \<Rightarrow> nat" where
  "markers s =
     (if take 5 s = ''%NNN%'' then Suc (markers (drop 5 s)) else case s of [] \<Rightarrow> 0 | ch # rest \<Rightarrow> markers rest)"
  by pat_completeness auto
termination
proof (relation "measure length")
  show "(drop 5 s, s) \<in> measure length" if "take 5 s = ''%NNN%''" for s :: string using that by (cases s) auto
qed auto

declare markers.simps [simp del]

lemma marker_steps:
  "replace_marker f [] = []" "markers [] = 0"
  "take 5 (ch # rest) \<noteq> ''%NNN%'' \<Longrightarrow> replace_marker f (ch # rest) = ch # replace_marker f rest"
  "take 5 (ch # rest) \<noteq> ''%NNN%'' \<Longrightarrow> markers (ch # rest) = markers rest"
  by (auto simp: replace_marker.simps [of _ "[]"] markers.simps [of "[]"] replace_marker.simps [of _ "ch # rest"]
      markers.simps [of "ch # rest"])

lemma replace_marker_length: "length (replace_marker f s) = length (replace_marker [] s) + markers s * length f"
proof (induction s rule: markers.induct)
  case (1 s)
  show ?case
  proof (cases "take 5 s = ''%NNN%''")
    case True
    with "1.IH"(1) show ?thesis
      by (simp add: replace_marker.simps [of _ s] markers.simps [of s])
  next
    case False
    with "1.IH"(2) show ?thesis by (cases s) (simp_all add: marker_steps)
  qed
qed

lemma replace_marker_inj:
  "replace_marker f s = replace_marker f' s \<Longrightarrow> length f = length f' \<Longrightarrow> markers s \<noteq> 0 \<Longrightarrow> f = f'"
proof (induction s rule: markers.induct)
  case (1 s)
  show ?case
  proof (cases "take 5 s = ''%NNN%''")
    case True
    with "1.prems" show ?thesis by (simp add: replace_marker.simps [of _ s])
  next
    case False
    with "1.prems" "1.IH"(2) show ?thesis by (cases s) (simp_all add: marker_steps)
  qed
qed

lemma show_index_inject:
  assumes "show_index i = show_index j"
  shows "i = j"
proof -
  have v: "digits_val 0 (show_index n) = n" for n
  proof -
    have "digits_val 0 (replicate k (CHR ''0'') @ show_nat n) = n" for k
      using digits_val_show_nat [of n] by (induction k) (simp_all add: digits_val_def digit_val_def)
    then show ?thesis by (simp add: show_index_def Let_def)
  qed
  from arg_cong [OF assms, of "digits_val 0"] show ?thesis by (simp add: v)
qed

text \<open>
  Children of the file generator never share a file: a template with the marker \<open>%NNN%\<close>, once or
  several times and whatever surrounds it, gives different paths for different indices.
\<close>

theorem file_paths_distinct:
  assumes "markers template \<noteq> 0" "i \<noteq> j"
  shows "path_from_template template i \<noteq> path_from_template template j"
proof
  assume "path_from_template template i = path_from_template template j"
  then have eq: "replace_marker (show_index i) template = replace_marker (show_index j) template"
    by (simp add: path_from_template_def)
  with arg_cong [OF eq, of length] replace_marker_length [of "show_index i" template] replace_marker_length [of "show_index j" template] assms(1)
  have "length (show_index i) = length (show_index j)" by simp
  from show_index_inject [OF replace_marker_inj [OF eq this assms(1)]] assms(2) show False by simp
qed

theorem file_paths_distinct_witness:
  "path_from_template ''/tmp/a%NNN%.log'' 12 \<noteq> path_from_template ''/tmp/a%NNN%.log'' 120000"
  by (rule file_paths_distinct) (simp_all add: markers.simps)

end
