(* ===== verification/Text.thy ===== *)
theory Text
  imports Prelude
begin

text \<open>
  The string functions of Rust's standard library that the printers and parsers use, on ASCII
  text: numbers in a radix and with padding, cutting at a character or at white space,
  lines, and parsing numbers at a width, where \<open>None\<close> is a \<open>ParseIntError\<close>. The lemmas are the
  round trips between printing and parsing.
\<close>

definition newline :: char where
  "newline = CHR 0x0A"

section \<open>Printing numbers\<close>

definition show_int :: "int \<Rightarrow> string" where
  "show_int i = (if i < 0 then CHR ''-'' # show_nat (nat (- i)) else show_nat (nat i))"

definition radix_char :: "nat \<Rightarrow> char" where
  "radix_char d = (if d < 10 then digit_char d else char_of (87 + d))"

text \<open>\<^verbatim>\<open>{:x}\<close> is radix 16 and \<^verbatim>\<open>{:o}\<close> radix 8.\<close>

fun show_radix :: "nat \<Rightarrow> nat \<Rightarrow> string" where
  "show_radix b n = (if n < b \<or> b < 2 then [radix_char n] else show_radix b (n div b) @ [radix_char (n mod b)])"

declare show_radix.simps [simp del]

definition pad_left :: "char \<Rightarrow> nat \<Rightarrow> string \<Rightarrow> string" where
  "pad_left c w s = replicate (w - length s) c @ s"

lemma show_nat_radix: "show_nat n = show_radix 10 n"
proof (induction n rule: show_nat.induct)
  case (1 n)
  then show ?case by (subst show_nat.simps, subst show_radix.simps) (simp add: radix_char_def)
qed

section \<open>Cutting\<close>

fun split_on :: "char \<Rightarrow> string \<Rightarrow> string list" where
  "split_on d [] = [[]]"
| "split_on d (c # cs) =
     (if c = d then [] # split_on d cs
      else case split_on d cs of [] \<Rightarrow> [[c]] | x # xs \<Rightarrow> (c # x) # xs)"

lemma split_on_none [simp]: "d \<notin> set w \<Longrightarrow> split_on d w = [w]"
  by (induction w) auto

lemma split_on_append [simp]: "d \<notin> set w \<Longrightarrow> split_on d (w @ d # rest) = w # split_on d rest"
  by (induction w) auto

lemma split_on_nonempty [simp]: "split_on d s \<noteq> []"
  by (induction s) (auto split: list.splits)

lemma split_on_append_general: "split_on d (v @ d # rest) = split_on d v @ split_on d rest"
proof (induction v)
  case (Cons c v)
  then show ?case using split_on_nonempty [of d v] by (auto split: list.splits)
qed simp

fun join :: "char \<Rightarrow> string list \<Rightarrow> string" where
  "join d [] = []"
| "join d [w] = w"
| "join d (w # ws) = w @ d # join d ws"

lemma split_on_join: "ws \<noteq> [] \<Longrightarrow> \<forall>w \<in> set ws. d \<notin> set w \<Longrightarrow> split_on d (join d ws) = ws"
  by (induction d ws rule: join.induct) auto

lemma join_mem: "x \<in> set (join d ws) \<Longrightarrow> x = d \<or> (\<exists>w \<in> set ws. x \<in> set w)"
  by (induction d ws rule: join.induct) auto

lemma join_Cons: "ws \<noteq> [] \<Longrightarrow> join d (w # ws) = w @ d # join d ws"
  by (cases ws) simp_all

text \<open>\<^verbatim>\<open>str::lines\<close>: a line ends in a newline, with or without a carriage return before it.\<close>

definition strip_cr :: "string \<Rightarrow> string" where
  "strip_cr l = (if l \<noteq> [] \<and> last l = CHR 0x0D then butlast l else l)"

definition text_lines :: "string \<Rightarrow> string list" where
  "text_lines s =
     (let parts = split_on newline s
      in map strip_cr (butlast parts) @ (if last parts = [] then [] else [last parts]))"

lemma split_on_lines:
  "\<forall>l \<in> set ls. d \<notin> set l \<Longrightarrow> split_on d (concat (map (\<lambda>l. l @ [d]) ls)) = ls @ [[]]"
  by (induction ls) simp_all

lemma text_lines_lines:
  assumes "\<forall>l \<in> set ls. newline \<notin> set l \<and> CHR 0x0D \<notin> set l"
  shows "text_lines (concat (map (\<lambda>l. l @ [newline]) ls)) = ls"
proof -
  have "strip_cr l = l" if "l \<in> set ls" for l
    using assms that last_in_set [of l] unfolding strip_cr_def by metis
  then have "map strip_cr ls = ls" by (simp add: map_idI)
  with assms show ?thesis by (simp add: text_lines_def split_on_lines)
qed

definition is_whitespace :: "char \<Rightarrow> bool" where
  "is_whitespace c \<longleftrightarrow> (of_char c :: nat) = 32 \<or> 9 \<le> (of_char c :: nat) \<and> (of_char c :: nat) \<le> 13"

definition word :: "string \<Rightarrow> bool" where
  "word w \<longleftrightarrow> w \<noteq> [] \<and> list_all (\<lambda>c. \<not> is_whitespace c) w"

lemma word_append [simp]: "word v \<Longrightarrow> word w \<Longrightarrow> word (v @ w)"
  by (simp add: word_def)

function split_whitespace :: "string \<Rightarrow> string list" where
  "split_whitespace s =
     (let s = dropWhile is_whitespace s
      in if s = [] then []
         else takeWhile (\<lambda>c. \<not> is_whitespace c) s # split_whitespace (dropWhile (\<lambda>c. \<not> is_whitespace c) s))"
  by pat_completeness auto
termination
proof (relation "measure length", simp)
  fix s x :: string
  assume x: "x = dropWhile is_whitespace s" "x \<noteq> []"
  then have "\<not> is_whitespace (hd x)" by (metis hd_dropWhile)
  then have "length (dropWhile (\<lambda>c. \<not> is_whitespace c) x) < length x"
    using x(2) by (cases x) (simp_all add: length_dropWhile_le less_Suc_eq_le)
  moreover have "length x \<le> length s" unfolding x(1) by (rule length_dropWhile_le)
  ultimately show "(dropWhile (\<lambda>c. \<not> is_whitespace c) x, s) \<in> measure length" by simp
qed

declare split_whitespace.simps [simp del]

lemma take_word:
  assumes "list_all (\<lambda>c. \<not> is_whitespace c) w" "rest = [] \<or> is_whitespace (hd rest)"
  shows "takeWhile (\<lambda>c. \<not> is_whitespace c) (w @ rest) = w" "dropWhile (\<lambda>c. \<not> is_whitespace c) (w @ rest) = rest"
  using assms by (induction w; cases rest; simp)+

lemma split_whitespace_space: "is_whitespace c \<Longrightarrow> split_whitespace (c # s) = split_whitespace s"
  by (subst (1 2) split_whitespace.simps) simp

lemma split_whitespace_word:
  assumes "word w" "rest = [] \<or> is_whitespace (hd rest)"
  shows "split_whitespace (w @ rest) = w # split_whitespace rest"
proof -
  have "dropWhile is_whitespace (w @ rest) = w @ rest" using assms(1) by (cases w) (auto simp: word_def)
  with assms take_word [of w rest] show ?thesis
    by (subst split_whitespace.simps) (simp add: word_def)
qed

lemma split_whitespace_Nil [simp]: "split_whitespace [] = []"
  by (subst split_whitespace.simps) simp

lemma split_whitespace_join:
  assumes "is_whitespace d" "\<forall>w \<in> set ws. word w"
  shows "split_whitespace (join d ws) = ws"
  using assms
proof (induction d ws rule: join.induct)
  case (2 d w)
  then show ?case using split_whitespace_word [of w "[]"] by simp
next
  case (3 d w v ws)
  then show ?case using split_whitespace_word [of w "d # join d (v # ws)"] by (simp add: split_whitespace_space)
qed simp

text \<open>Text that stays on one line.\<close>

definition plain :: "string \<Rightarrow> bool" where
  "plain v \<longleftrightarrow> newline \<notin> set v \<and> CHR 0x0D \<notin> set v"

lemma plain_append [simp]: "plain (v @ w) \<longleftrightarrow> plain v \<and> plain w"
  by (auto simp: plain_def)

lemma plain_Cons [simp]: "plain (c # w) \<longleftrightarrow> c \<noteq> newline \<and> c \<noteq> CHR 0x0D \<and> plain w"
  by (auto simp: plain_def)

lemma plain_Nil [simp]: "plain []"
  by (simp add: plain_def)

lemma plain_word: "word w \<Longrightarrow> plain w"
  by (auto simp: plain_def word_def list_all_iff is_whitespace_def newline_def)

lemma plain_join: "c \<noteq> newline \<Longrightarrow> c \<noteq> CHR 0x0D \<Longrightarrow> \<forall>w \<in> set ws. plain w \<Longrightarrow> plain (join c ws)"
  by (induction c ws rule: join.induct) simp_all

lemma plain_pad: "c \<noteq> newline \<Longrightarrow> c \<noteq> CHR 0x0D \<Longrightarrow> plain w \<Longrightarrow> plain (pad_left c n w)"
  by (auto simp: pad_left_def plain_def)

definition split_once :: "char \<Rightarrow> string \<Rightarrow> (string \<times> string) option" where
  "split_once d s = (if d \<in> set s then Some (takeWhile (\<lambda>c. c \<noteq> d) s, tl (dropWhile (\<lambda>c. c \<noteq> d) s)) else None)"

definition trim :: "string \<Rightarrow> string" where
  "trim s = rev (dropWhile is_whitespace (rev (dropWhile is_whitespace s)))"

section \<open>Paths\<close>

definition starts_with :: "string \<Rightarrow> string \<Rightarrow> bool" where
  "starts_with p s \<longleftrightarrow> take (length p) s = p"

text \<open>\<open>Path::join\<close>: an absolute path replaces the first.\<close>

definition path_join :: "string \<Rightarrow> string \<Rightarrow> string" where
  "path_join a b =
     (if starts_with ''/'' b then b else if a = [] \<or> last a = CHR ''/'' then a @ b else a @ ''/'' @ b)"

text \<open>The last component, which \<open>..\<close> is not.\<close>

definition file_name :: "string \<Rightarrow> string option" where
  "file_name path =
     (let parts = filter (\<lambda>p. p \<noteq> [] \<and> p \<noteq> ''.'') (split_on (CHR ''/'') path)
      in if parts = [] \<or> last parts = ''..'' then None else Some (last parts))"

text \<open>The name before its last dot and what follows it; a dot at the start does not count.\<close>

definition cut_extension :: "string \<Rightarrow> string \<times> string option" where
  "cut_extension name =
     (let ext = rev (takeWhile (\<lambda>c. c \<noteq> CHR ''.'') (rev name)); stem = butlast (take (length name - length ext) name)
      in if CHR ''.'' \<notin> set name \<or> stem = [] then (name, None) else (stem, Some ext))"

definition extension :: "string \<Rightarrow> string option" where
  "extension path = Option.bind (file_name path) (snd \<circ> cut_extension)"

text \<open>\<open>set_extension\<close> on a path that ends in its last component.\<close>

definition set_extension :: "string \<Rightarrow> string \<Rightarrow> string" where
  "set_extension path ext =
     (case file_name path of
        None \<Rightarrow> path
      | Some name \<Rightarrow> take (length path - length name) path @ fst (cut_extension name) @ ''.'' @ ext)"

text \<open>\<open>Path::parent\<close>: the root and the empty path have none.\<close>

definition path_parent :: "string \<Rightarrow> string option" where
  "path_parent path =
     (let t = dropWhile (\<lambda>c. c = CHR ''/'') (rev path); u = dropWhile (\<lambda>c. c \<noteq> CHR ''/'') t; v = dropWhile (\<lambda>c. c = CHR ''/'') u
      in if t = [] then None else if v = [] \<and> u \<noteq> [] then Some ''/'' else Some (rev v))"

section \<open>Parsing numbers\<close>

definition to_digit :: "nat \<Rightarrow> char \<Rightarrow> nat option" where
  "to_digit radix c =
     (let n = of_char c :: nat;
          d = (if 48 \<le> n \<and> n \<le> 57 then n - 48 else if 97 \<le> n \<and> n \<le> 122 then n - 87
               else if 65 \<le> n \<and> n \<le> 90 then n - 55 else radix)
      in if d < radix then Some d else None)"

fun digits_in :: "nat \<Rightarrow> nat \<Rightarrow> string \<Rightarrow> nat option" where
  "digits_in radix acc [] = Some acc"
| "digits_in radix acc (c # cs) =
     (case to_digit radix c of None \<Rightarrow> None | Some d \<Rightarrow> digits_in radix (radix * acc + d) cs)"

text \<open>
  \<open>from_str_radix\<close> at an unsigned width takes an optional plus and at least one digit; \<open>parse\<close> is
  radix 10. A signed width also takes a minus.
\<close>

definition from_str_radix :: "nat \<Rightarrow> nat \<Rightarrow> string \<Rightarrow> nat option" where
  "from_str_radix w radix s =
     (let ds = (if s \<noteq> [] \<and> hd s = CHR ''+'' then tl s else s)
      in if ds = [] then None
         else Option.bind (digits_in radix 0 ds) (\<lambda>n. if n < 2 ^ w then Some n else None))"

definition parse_unsigned :: "nat \<Rightarrow> string \<Rightarrow> nat option" where
  "parse_unsigned w s = from_str_radix w 10 s"

definition parse_signed :: "nat \<Rightarrow> string \<Rightarrow> int option" where
  "parse_signed w s =
     (if s \<noteq> [] \<and> hd s = CHR ''-'' then
        if tl s = [] then None
        else Option.bind (digits_in 10 0 (tl s)) (\<lambda>n. if n \<le> 2 ^ (w - 1) then Some (- int n) else None)
      else map_option int (from_str_radix (w - 1) 10 s))"

lemma digits_in_append:
  "digits_in radix acc (xs @ ys) = Option.bind (digits_in radix acc xs) (\<lambda>n. digits_in radix n ys)"
  by (induction xs arbitrary: acc) (auto split: option.splits)

lemma to_digit_radix_char: "d < radix \<Longrightarrow> radix \<le> 36 \<Longrightarrow> to_digit radix (radix_char d) = Some d"
  by (auto simp: to_digit_def radix_char_def digit_char_of)

lemma digits_in_show_radix: "2 \<le> b \<Longrightarrow> b \<le> 36 \<Longrightarrow> digits_in b 0 (show_radix b n) = Some n"
proof (induction b n rule: show_radix.induct)
  case (1 b n)
  show ?case
  proof (cases "n < b")
    case True
    with 1 show ?thesis by (subst show_radix.simps) (simp add: to_digit_radix_char)
  next
    case False
    with 1 have "digits_in b 0 (show_radix b (n div b)) = Some (n div b)" by simp
    with False 1 show ?thesis by (subst show_radix.simps) (simp add: digits_in_append to_digit_radix_char)
  qed
qed

lemma show_radix_nonempty [simp]: "show_radix b n \<noteq> []"
  by (subst show_radix.simps) simp

lemma radix_char_word: "d < 36 \<Longrightarrow> \<not> is_whitespace (radix_char d) \<and> radix_char d \<noteq> CHR ''+'' \<and> radix_char d \<noteq> CHR ''-''"
proof -
  assume "d < 36"
  then have "(of_char (radix_char d) :: nat) = (if d < 10 then 48 + d else 87 + d)"
    by (simp add: radix_char_def digit_char_of)
  then show ?thesis by (auto simp: is_whitespace_def split: if_splits)
qed

lemma show_radix_chars:
  assumes "2 \<le> b" "b \<le> 36" "c \<in> set (show_radix b n)"
  shows "\<exists>d < b. c = radix_char d"
  using assms
proof (induction b n rule: show_radix.induct)
  case (1 b n)
  show ?case
  proof (cases "n < b")
    case True
    with "1.prems" show ?thesis by (subst (asm) show_radix.simps) auto
  next
    case False
    with "1.prems" have "c = radix_char (n mod b) \<or> c \<in> set (show_radix b (n div b))" by (subst (asm) show_radix.simps) auto
    moreover have "n mod b < b" using "1.prems"(1) by simp
    ultimately show ?thesis using "1.IH" False "1.prems"(1,2) by (metis not_less)
  qed
qed

lemma show_radix_word:
  assumes "2 \<le> b" "b \<le> 36"
  shows "word (show_radix b n)" "hd (show_radix b n) \<noteq> CHR ''+''" "hd (show_radix b n) \<noteq> CHR ''-''"
proof -
  have *: "\<not> is_whitespace c \<and> c \<noteq> CHR ''+'' \<and> c \<noteq> CHR ''-''" if "c \<in> set (show_radix b n)" for c
    using show_radix_chars [OF assms that] assms radix_char_word by force
  then show "word (show_radix b n)" by (simp add: word_def list_all_iff)
  from * [OF hd_in_set [OF show_radix_nonempty]]
  show "hd (show_radix b n) \<noteq> CHR ''+''" "hd (show_radix b n) \<noteq> CHR ''-''" by simp_all
qed

lemma from_str_radix_show: "2 \<le> b \<Longrightarrow> b \<le> 36 \<Longrightarrow> n < 2 ^ w \<Longrightarrow> from_str_radix w b (show_radix b n) = Some n"
  by (simp add: from_str_radix_def digits_in_show_radix show_radix_word)

lemma show_nat_word [simp]: "word (show_nat n)"
  by (simp add: show_nat_radix show_radix_word)

lemma parse_unsigned_show [simp]: "n < 2 ^ w \<Longrightarrow> parse_unsigned w (show_nat n) = Some n"
  by (simp add: parse_unsigned_def show_nat_radix from_str_radix_show)

lemma show_int_word [simp]: "word (show_int i)"
  using show_nat_word [of "nat i"] show_nat_word [of "nat (- i)"]
  by (auto simp: show_int_def word_def is_whitespace_def)

lemma parse_signed_show:
  assumes "- (2 ^ (w - 1)) \<le> i" "i < 2 ^ (w - 1)"
  shows "parse_signed w (show_int i) = Some i"
proof (cases "i < 0")
  case True
  then have "nat (- i) \<le> 2 ^ (w - 1)" using assms(1) by (simp add: nat_le_iff)
  with True show ?thesis by (simp add: parse_signed_def show_int_def show_nat_radix digits_in_show_radix)
next
  case False
  then have "nat i < 2 ^ (w - 1)" using assms(2) by (simp add: nat_less_iff)
  with False show ?thesis
    by (simp add: parse_signed_def show_int_def show_nat_radix from_str_radix_show show_radix_word)
qed

end
