(* ===== verification/Payload.thy ===== *)
theory Payload
  imports Block Text "HOL-Library.State_Monad"
begin

text \<open>
  What the payload generators of \<^verbatim>\<open>lading_payload\<close> share: sampling from the random number
  generator in the state monad, the pool of random strings
  (\<^verbatim>\<open>lading_payload/src/common/strings.rs\<close>), the errors of \<^verbatim>\<open>lading_payload/src/lib.rs\<close>, and
  the two loops by which payloads fill a byte budget: line by line, and by searching for
  a number of members whose encoding fits.
\<close>

section \<open>Sampling\<close>

definition sample_bits :: "'r rng \<Rightarrow> nat \<Rightarrow> ('r, nat) state" where
  "sample_bits R w = State (gen_bits R w)"

definition sample_range :: "'r rng \<Rightarrow> nat \<Rightarrow> nat \<Rightarrow> ('r, nat) state" where
  "sample_range R lo hi = State (gen_range R lo hi)"

text \<open>\<^verbatim>\<open>xs.choose(rng).expect(..)\<close> on a constant array, which is not empty.\<close>

definition sample_pick :: "'r rng \<Rightarrow> 'a list \<Rightarrow> ('r, 'a) state" where
  "sample_pick R xs = do { i \<leftarrow> sample_range R 0 (length xs); State_Monad.return (xs ! i) }"

fun sample_many :: "nat \<Rightarrow> ('r, 'a) state \<Rightarrow> ('r, 'a list) state" where
  "sample_many 0 g = State_Monad.return []"
| "sample_many (Suc n) g = do { x \<leftarrow> g; xs \<leftarrow> sample_many n g; State_Monad.return (x # xs) }"

lemma run_return [simp]: "run_state (State_Monad.return x) s = (x, s)"
  by (simp add: State_Monad.return_def)

lemma run_bind [simp]: "run_state (State_Monad.bind m f) s = (let (x, s') = run_state m s in run_state (f x) s')"
  by (simp add: State_Monad.bind_def)

lemma run_sample [simp]:
  "run_state (sample_bits R w) = gen_bits R w" "run_state (sample_range R lo hi) = gen_range R lo hi"
  by (simp_all add: sample_bits_def sample_range_def)

lemma sample_pick_in:
  assumes "rng_ok R" "xs \<noteq> []" "run_state (sample_pick R xs) s = (x, s')"
  shows "x \<in> set xs"
  using assms gen_range_bounds [of R 0 "length xs" s] by (auto simp: sample_pick_def Let_def split: prod.splits)

lemma sample_many_length: "run_state (sample_many n g) s = (xs, s') \<Longrightarrow> length xs = n"
  by (induction n arbitrary: s xs s') (auto simp: Let_def split: prod.splits)

lemma sample_many_all:
  assumes g: "\<And>s x s'. run_state g s = (x, s') \<Longrightarrow> P x"
  shows "run_state (sample_many n g) s = (xs, s') \<Longrightarrow> \<forall>x \<in> set xs. P x"
proof (induction n arbitrary: s xs s')
  case (Suc n)
  then show ?case by (auto simp: Let_def split: prod.splits dest: g)
qed simp

section \<open>Errors\<close>

datatype payload_error =
    Error_MsgPack | Error_Json | Error_Io | Error_StringGenerate | Error_Serialize | Error_Weights

section \<open>The string pool\<close>

definition ALPHANUM :: string where
  "ALPHANUM = ''abcdefghijklmnopqrstuvwxyzABCDEFGHIJKLMNOPQRSTUVWXYZ0123456789''"

record Pool =
  inner :: string

type_synonym Handle = "nat \<times> nat"

fun fill_pool :: "'r rng \<Rightarrow> string \<Rightarrow> nat \<Rightarrow> nat \<Rightarrow> ('r, string) state" where
  "fill_pool R alphabet 0 ix = State_Monad.return []"
| "fill_pool R alphabet (Suc n) ix = do {
     let c = alphabet ! (ix mod length alphabet);
     step \<leftarrow> sample_bits R 64;
     cs \<leftarrow> fill_pool R alphabet n (wrapping_add 64 ix step);
     State_Monad.return (c # cs)
   }"

definition with_size_and_alphabet :: "'r rng \<Rightarrow> nat \<Rightarrow> string \<Rightarrow> ('r, Pool) state" where
  "with_size_and_alphabet R n alphabet = do {
     ix \<leftarrow> sample_bits R 64;
     if alphabet = [] then State_Monad.return \<lparr>inner = []\<rparr>
     else do { cs \<leftarrow> fill_pool R alphabet n ix; State_Monad.return \<lparr>inner = cs\<rparr> }
   }"

definition with_size :: "'r rng \<Rightarrow> nat \<Rightarrow> ('r, Pool) state" where
  "with_size R n = with_size_and_alphabet R n ALPHANUM"

definition of_size_with_handle :: "'r rng \<Rightarrow> Pool \<Rightarrow> nat \<Rightarrow> ('r, (string \<times> Handle) option) state" where
  "of_size_with_handle R pool n =
     (if length (inner pool) \<le> n then State_Monad.return None
      else do {
        lower_idx \<leftarrow> sample_range R 0 (length (inner pool) - n);
        State_Monad.return (Some (take n (drop lower_idx (inner pool)), (lower_idx, n)))
      })"

definition of_size :: "'r rng \<Rightarrow> Pool \<Rightarrow> nat \<Rightarrow> ('r, string option) state" where
  "of_size R pool n =
     (if length (inner pool) \<le> n then State_Monad.return None
      else do {
        lower_idx \<leftarrow> sample_range R 0 (length (inner pool) - n);
        State_Monad.return (Some (take n (drop lower_idx (inner pool))))
      })"

definition of_size_range :: "'r rng \<Rightarrow> Pool \<Rightarrow> nat \<Rightarrow> nat \<Rightarrow> ('r, string option) state" where
  "of_size_range R pool lo hi = do { n \<leftarrow> sample_range R lo hi; of_size R pool n }"

definition using_handle :: "Pool \<Rightarrow> Handle \<Rightarrow> string option" where
  "using_handle pool = (\<lambda>(offset, len).
     if offset + len < length (inner pool) then Some (take len (drop offset (inner pool))) else None)"

lemma fill_pool_chars:
  "alphabet \<noteq> [] \<Longrightarrow> run_state (fill_pool R alphabet n ix) s = (cs, s') \<Longrightarrow>
   length cs = n \<and> set cs \<subseteq> set alphabet"
proof (induction n arbitrary: ix s cs s')
  case (Suc n)
  obtain step s1 where st: "gen_bits R 64 s = (step, s1)" by force
  obtain ds s2 where ds: "run_state (fill_pool R alphabet n (wrapping_add 64 ix step)) s1 = (ds, s2)" by force
  have "cs = alphabet ! (ix mod length alphabet) # ds" using Suc.prems(2) st ds by simp
  moreover have "alphabet ! (ix mod length alphabet) \<in> set alphabet" using Suc.prems(1) by simp
  ultimately show ?case using Suc.IH [OF Suc.prems(1) ds] by simp
qed simp

lemma with_size_pool:
  "run_state (with_size R n) s = (pool, s') \<Longrightarrow> length (inner pool) = n \<and> set (inner pool) \<subseteq> set ALPHANUM"
  by (auto simp: with_size_def with_size_and_alphabet_def ALPHANUM_def Let_def split: prod.splits
      dest!: fill_pool_chars [rotated])

text \<open>
  The contract clients rely on: a request below the pool's size is met with a string of
  that size over the pool's characters.
\<close>

lemma of_size_Some:
  assumes "rng_ok R" "n < length (inner pool)"
  obtains str s' where "run_state (of_size R pool n) s = (Some str, s')" "length str = n" "set str \<subseteq> set (inner pool)"
proof -
  obtain i s' where i: "gen_range R 0 (length (inner pool) - n) s = (i, s')" by force
  have "i < length (inner pool) - n" using gen_range_bounds [OF assms(1) _ i] assms(2) by simp
  then show thesis
    using assms(2) i set_take_subset [of n "drop i (inner pool)"] set_drop_subset [of i "inner pool"]
    by (intro that [of "take n (drop i (inner pool))" s']) (auto simp: of_size_def)
qed

lemma of_size_range_Some:
  assumes "rng_ok R" "lo < hi" "hi \<le> length (inner pool)"
  obtains str s' where "run_state (of_size_range R pool lo hi) s = (Some str, s')" "lo \<le> length str" "length str < hi"
    "set str \<subseteq> set (inner pool)"
proof -
  obtain n s1 where n: "gen_range R lo hi s = (n, s1)" by force
  have b: "lo \<le> n" "n < hi" using gen_range_bounds [OF assms(1,2) n] by simp_all
  obtain str s' where "run_state (of_size R pool n) s1 = (Some str, s')" "length str = n" "set str \<subseteq> set (inner pool)"
    using of_size_Some [OF assms(1), of n pool s1] b assms(3) by auto
  then show thesis using n b by (intro that [of str s']) (auto simp: of_size_range_def)
qed

section \<open>Filling a budget line by line\<close>

text \<open>
  The \<open>loop\<close> that line-oriented payloads share: generate, and write while the line and its
  newline still fit.
\<close>

function write_lines :: "('r, 'e + string) state \<Rightarrow> nat \<Rightarrow> 'r \<Rightarrow> Bytes \<Rightarrow> ('e + Bytes) \<times> 'r" where
  "write_lines gen bytes_remaining s written =
     (case run_state gen s of
        (Inl e, s) \<Rightarrow> (Inl e, s)
      | (Inr encoding, s) \<Rightarrow>
          let line_length = length encoding + 1 in
          case checked_sub bytes_remaining line_length of
            Some remainder \<Rightarrow> write_lines gen remainder s (written @ encoding @ [newline])
          | None \<Rightarrow> (Inr written, s))"
  by pat_completeness auto
termination
  by (relation "measure (\<lambda>(gen, n, s, w). n)") (auto simp: checked_sub_def split: if_splits)

declare write_lines.simps [simp del]

lemma write_lines_step:
  assumes "run_state gen s = (Inr l, s1)"
  shows "write_lines gen n s w = (if length l + 1 \<le> n then write_lines gen (n - (length l + 1)) s1 (w @ l @ [newline])
    else (Inr w, s1))"
  using assms by (subst write_lines.simps) (simp add: checked_sub_def)

lemma write_lines_budget:
  "write_lines gen n s w = (Inr bs, s') \<Longrightarrow> length bs \<le> length w + n"
proof (induction n arbitrary: s w rule: less_induct)
  case (less n)
  obtain r s1 where r: "run_state gen s = (r, s1)" by force
  show ?case
  proof (cases r)
    case (Inl e)
    then show ?thesis using less.prems r by (subst (asm) write_lines.simps) simp
  next
    case (Inr l)
    show ?thesis
    proof (cases "length l + 1 \<le> n")
      case True
      then show ?thesis
        using less.IH [of "n - (length l + 1)" s1 "w @ l @ [newline]"] less.prems write_lines_step [of gen s l s1 n w] r Inr by auto
    next
      case False
      then show ?thesis using less.prems write_lines_step [of gen s l s1 n w] r Inr by auto
    qed
  qed
qed

text \<open>What was written is a sequence of generated lines.\<close>

definition lines_of :: "string list \<Rightarrow> Bytes" where
  "lines_of ls = concat (map (\<lambda>l. l @ [newline]) ls)"

lemma lines_of_simps [simp]: "lines_of [] = []" "lines_of (l # ls) = l @ newline # lines_of ls"
  by (simp_all add: lines_of_def)

lemma write_lines_lines:
  assumes good: "\<And>s r s'. run_state gen s = (r, s') \<Longrightarrow> \<exists>l. r = Inr l \<and> P l"
  shows "\<exists>ls s'. write_lines gen n s w = (Inr (w @ lines_of ls), s') \<and> (\<forall>l \<in> set ls. P l) \<and> length (lines_of ls) \<le> n"
proof (induction n arbitrary: s w rule: less_induct)
  case (less n)
  obtain r s1 where r: "run_state gen s = (r, s1)" by force
  obtain l where l: "r = Inr l" "P l" using good [OF r] by blast
  have step: "write_lines gen n s w = (if length l + 1 \<le> n then write_lines gen (n - (length l + 1)) s1 (w @ l @ [newline])
    else (Inr w, s1))" by (rule write_lines_step) (use r l in simp)
  show ?case
  proof (cases "length l + 1 \<le> n")
    case True
    have "n - (length l + 1) < n" using True by simp
    from less.IH [OF this, of s1 "w @ l @ [newline]"] obtain ls s' where
      ls: "write_lines gen (n - (length l + 1)) s1 (w @ l @ [newline]) = (Inr ((w @ l @ [newline]) @ lines_of ls), s')"
      "\<forall>l \<in> set ls. P l" "length (lines_of ls) \<le> n - (length l + 1)" by blast
    then have "write_lines gen n s w = (Inr (w @ lines_of (l # ls)), s')" using step True by simp
    with ls l True show ?thesis by (intro exI [of _ "l # ls"] exI [of _ s']) simp
  next
    case False
    then have "write_lines gen n s w = (Inr (w @ lines_of []), s1)" using step by simp
    then show ?thesis by (intro exI [of _ "[]"] exI [of _ s1]) simp
  qed
qed

section \<open>Searching for an encoding that fits\<close>

text \<open>
  The loop of the payloads that encode a whole list of members: halve the number of members
  until their encoding fits, and write nothing when none does. \<open>encode\<close> is the encoder applied
  to a prefix.
\<close>

function shrink_to_fit :: "(nat \<Rightarrow> 'e + Bytes) \<Rightarrow> nat \<Rightarrow> nat \<Rightarrow> 'e + Bytes" where
  "shrink_to_fit encode max_bytes high =
     (if high = 0 then Inr []
      else case encode high of
             Inl e \<Rightarrow> Inl e
           | Inr encoding \<Rightarrow>
               if max_bytes < length encoding then shrink_to_fit encode max_bytes (high div 2)
               else Inr encoding)"
  by pat_completeness auto
termination
  by (relation "measure (\<lambda>(e, m, h). h)") auto

declare shrink_to_fit.simps [simp del]

lemma shrink_to_fit_cases:
  "shrink_to_fit encode m h = Inr bs \<Longrightarrow> bs = [] \<or> (\<exists>k. 0 < k \<and> k \<le> h \<and> encode k = Inr bs \<and> length bs \<le> m)"
proof (induction encode m h rule: shrink_to_fit.induct)
  case (1 encode m h)
  show ?case
  proof (cases "h = 0")
    case True
    with "1.prems" show ?thesis by (simp add: shrink_to_fit.simps)
  next
    case False
    show ?thesis
    proof (cases "encode h")
      case (Inl e)
      with "1.prems" False show ?thesis by (simp add: shrink_to_fit.simps)
    next
      case (Inr enc)
      show ?thesis
      proof (cases "m < length enc")
        case True
        from "1.prems" False Inr True have "shrink_to_fit encode m (h div 2) = Inr bs" by (subst (asm) shrink_to_fit.simps) simp
        from "1.IH" [OF False Inr True this] show ?thesis by (metis div_le_dividend le_trans)
      next
        case False
        with "1.prems" \<open>h \<noteq> 0\<close> Inr show ?thesis by (subst (asm) shrink_to_fit.simps) auto
      qed
    qed
  qed
qed

lemma shrink_to_fit_budget: "shrink_to_fit encode m h = Inr bs \<Longrightarrow> length bs \<le> m"
  using shrink_to_fit_cases [of encode m h bs] by auto

end
