(* ===== verification/Payload_Text.thy ===== *)
theory Payload_Text
  imports Payload
begin

text \<open>
  The line-oriented payloads: \<^verbatim>\<open>ascii.rs\<close>, \<^verbatim>\<open>json.rs\<close>, \<^verbatim>\<open>syslog.rs\<close>,
  \<^verbatim>\<open>apache_common.rs\<close> and \<^verbatim>\<open>statik.rs\<close> of \<^verbatim>\<open>lading_payload/src\<close>. \<open>serde_json\<close> is an argument
  of the definitions that use it, as is the clock of the syslog payload, which reads the
  environment. A floating point number is the bit pattern it was drawn with; only the JSON
  encoder looks at it. Each payload keeps to its budget: the interpretations of
  \<open>bounded_serializer\<close>.
\<close>

section \<open>ASCII\<close>

definition MAX_LENGTH :: nat where
  "MAX_LENGTH = 6144"

record Ascii =
  ascii_pool :: Pool

definition ascii_new :: "'r rng \<Rightarrow> ('r, Ascii) state" where
  "ascii_new R = do { pool \<leftarrow> with_size R (MAX_LENGTH * 4); State_Monad.return \<lparr>ascii_pool = pool\<rparr> }"

definition ascii_line :: "'r rng \<Rightarrow> Ascii \<Rightarrow> ('r, payload_error + string) state" where
  "ascii_line R a = do {
     n \<leftarrow> sample_range R 1 MAX_LENGTH;
     encoding \<leftarrow> of_size R (ascii_pool a) n;
     State_Monad.return (case encoding of Some e \<Rightarrow> Inr e | None \<Rightarrow> Inl Error_StringGenerate)
   }"

definition ascii_to_bytes :: "'r rng \<Rightarrow> Ascii \<Rightarrow> (payload_error, 'r) serializer" where
  "ascii_to_bytes R a max_bytes s = Some (write_lines (ascii_line R a) max_bytes s [])"

section \<open>JSON\<close>

definition SIZES :: "nat list" where
  "SIZES = [0, 1, 2, 4, 8, 16, 32, 64, 128, 256, 512, 1024, 2048]"

record json_member =
  jm_id :: nat
  jm_name :: nat
  jm_seed :: nat
  jm_byte_parade :: "nat list"

definition json_member_sample :: "'r rng \<Rightarrow> ('r, json_member) state" where
  "json_member_sample R = do {
     max_len \<leftarrow> sample_pick R SIZES;
     i \<leftarrow> sample_bits R 64;
     nm \<leftarrow> sample_bits R 64;
     sd \<leftarrow> sample_bits R 16;
     bytes \<leftarrow> sample_many max_len (sample_bits R 8);
     State_Monad.return \<lparr>jm_id = i, jm_name = nm, jm_seed = sd, jm_byte_parade = bytes\<rparr>
   }"

definition json_to_bytes :: "(json_member \<Rightarrow> payload_error + string) \<Rightarrow> 'r rng \<Rightarrow> (payload_error, 'r) serializer" where
  "json_to_bytes to_string R max_bytes s =
     Some (write_lines (do { m \<leftarrow> json_member_sample R; State_Monad.return (to_string m) }) max_bytes s [])"

section \<open>Syslog\<close>

definition HOSTNAMES :: "string list" where
  "HOSTNAMES = [''troutwine.us'', ''vector.dev'', ''skullmountain.us'', ''zombo.com'']"

definition APP_NAMES :: "string list" where
  "APP_NAMES = [''vector'', ''cernan'', ''lading'', ''execsnoop'']"

record syslog_message =
  sm_eccentricity :: nat
  sm_semimajor_axis :: nat
  sm_inclination :: nat
  sm_longitude_of_ascending_node :: nat
  sm_periapsis :: nat
  sm_true_anomaly :: nat

definition syslog_message_sample :: "'r rng \<Rightarrow> ('r, syslog_message) state" where
  "syslog_message_sample R = do {
     ec \<leftarrow> sample_bits R 32;
     ax \<leftarrow> sample_bits R 32;
     inc \<leftarrow> sample_bits R 32;
     lon \<leftarrow> sample_bits R 32;
     per \<leftarrow> sample_bits R 64;
     an \<leftarrow> sample_bits R 8;
     State_Monad.return \<lparr>sm_eccentricity = ec, sm_semimajor_axis = ax, sm_inclination = inc,
       sm_longitude_of_ascending_node = lon, sm_periapsis = per, sm_true_anomaly = an\<rparr>
   }"

record syslog_member =
  sy_priority :: nat
  sy_syslog_version :: nat
  sy_timestamp :: string
  sy_hostname :: string
  sy_app_name :: string
  sy_procid :: nat
  sy_msgid :: nat
  sy_message :: string

text \<open>\<open>now_rfc3339\<close> reads the wall clock and formats it.\<close>

definition syslog_member_sample ::
    "(syslog_message \<Rightarrow> string) \<Rightarrow> ('r, string) state \<Rightarrow> 'r rng \<Rightarrow> ('r, syslog_member) state" where
  "syslog_member_sample to_string now_rfc3339 R = do {
     pr \<leftarrow> sample_range R 0 192;
     ver \<leftarrow> sample_range R 1 4;
     ts \<leftarrow> now_rfc3339;
     host \<leftarrow> sample_pick R HOSTNAMES;
     app \<leftarrow> sample_pick R APP_NAMES;
     pid \<leftarrow> sample_range R 100 10000;
     mid \<leftarrow> sample_range R 1 1000;
     msg \<leftarrow> syslog_message_sample R;
     State_Monad.return \<lparr>sy_priority = pr, sy_syslog_version = ver, sy_timestamp = ts, sy_hostname = host,
       sy_app_name = app, sy_procid = pid, sy_msgid = mid, sy_message = to_string msg\<rparr>
   }"

definition into_string :: "syslog_member \<Rightarrow> string" where
  "into_string m =
     ''<'' @ show_nat (sy_priority m) @ ''>'' @ show_nat (sy_syslog_version m) @ '' '' @ sy_timestamp m @ '' '' @
     sy_hostname m @ '' '' @ sy_app_name m @ '' '' @ show_nat (sy_procid m) @ '' ID'' @ show_nat (sy_msgid m) @
     '' - '' @ sy_message m"

function syslog_loop :: "('r, syslog_member) state \<Rightarrow> nat \<Rightarrow> nat \<Rightarrow> 'r \<Rightarrow> Bytes \<Rightarrow> Bytes \<times> 'r" where
  "syslog_loop gen max_bytes written_bytes s written =
     (let (member, s) = run_state gen s;
          encoded = into_string member
      in if max_bytes < length encoded + 1 + written_bytes then (written, s)
         else syslog_loop gen max_bytes (written_bytes + 1 + length encoded) s (written @ encoded @ [newline]))"
  by pat_completeness auto
termination
  by (relation "measure (\<lambda>(gen, m, n, s, w). m - n)") auto

declare syslog_loop.simps [simp del]

definition syslog_to_bytes ::
    "(syslog_message \<Rightarrow> string) \<Rightarrow> ('r, string) state \<Rightarrow> 'r rng \<Rightarrow> (payload_error, 'r) serializer" where
  "syslog_to_bytes to_string now_rfc3339 R max_bytes s =
     (if max_bytes < 2 then Some (Inr [], s)
      else let (w, s) = syslog_loop (syslog_member_sample to_string now_rfc3339 R) max_bytes 0 s [] in Some (Inr w, s))"

section \<open>Apache common log\<close>

definition PATH_NAMES :: "string list" where
  "PATH_NAMES = [''alfa'', ''bravo'', ''charlie'', ''delta'', ''echo'', ''foxtrot'', ''golf'', ''hotel'', ''india'',
     ''juliett'', ''kilo'', ''lima'', ''mike'', ''november'', ''oscar'', ''papa'', ''quebec'', ''romeo'', ''sierra'',
     ''tango'', ''uniform'', ''victor'', ''xray'', ''yankee'', ''zulu'']"

definition STATUS_CODES :: "nat list" where
  "STATUS_CODES = [100, 101, 102, 103, 200, 201, 202, 203, 204, 205, 206, 207, 208, 226, 300, 301, 302, 303, 304,
     305, 306, 307, 308, 400, 401, 402, 403, 404, 405, 406, 407, 408, 409, 410, 411, 412, 413, 414,
     415, 416, 417, 418, 421, 422, 423, 424, 425, 426, 428, 429, 431, 451, 500, 501, 502, 503, 504,
     505, 506, 507, 508, 509, 510, 511]"

datatype Protocol = Http10 | Http11 | Http12 | Http20 | Http21 | Http22

definition protocol_sample :: "'r rng \<Rightarrow> ('r, Protocol) state" where
  "protocol_sample R = do {
     i \<leftarrow> sample_range R 0 6;
     State_Monad.return ([Http10, Http11, Http12, Http20, Http21, Http22] ! i)
   }"

fun show_protocol :: "Protocol \<Rightarrow> string" where
  "show_protocol Http10 = ''HTTP/1.0''"
| "show_protocol Http11 = ''HTTP/1.1''"
| "show_protocol Http12 = ''HTTP/1.2''"
| "show_protocol Http20 = ''HTTP/2.0''"
| "show_protocol Http21 = ''HTTP/2.1''"
| "show_protocol Http22 = ''HTTP/2.2''"

text \<open>The components of a path: 16 places, the first \<open>total_components\<close> of them filled.\<close>

definition path_sample :: "'r rng \<Rightarrow> ('r, string option list) state" where
  "path_sample R = do {
     total_components \<leftarrow> sample_range R 1 17;
     names \<leftarrow> sample_many total_components (sample_pick R PATH_NAMES);
     State_Monad.return (map Some names @ replicate (16 - total_components) None)
   }"

definition show_path :: "string option list \<Rightarrow> string" where
  "show_path components = concat (map (\<lambda>c. case c of Some nm \<Rightarrow> ''/'' @ nm | None \<Rightarrow> []) components)"

datatype Month = January | February | March | April | May | June | July | August | September | October
  | November | December

definition month_sample :: "'r rng \<Rightarrow> ('r, Month) state" where
  "month_sample R = do {
     i \<leftarrow> sample_range R 0 12;
     State_Monad.return ([January, February, March, April, May, June, July, August, September, October, November, December] ! i)
   }"

fun show_month :: "Month \<Rightarrow> string" where
  "show_month January = ''Jan''"
| "show_month February = ''Feb''"
| "show_month March = ''Mar''"
| "show_month April = ''Apr''"
| "show_month May = ''May''"
| "show_month June = ''Jun''"
| "show_month July = ''Jul''"
| "show_month August = ''Aug''"
| "show_month September = ''Sep''"
| "show_month October = ''Oct''"
| "show_month November = ''Nov''"
| "show_month December = ''Dec''"

record Timestamp =
  ts_day :: nat
  ts_month :: Month
  ts_year :: int
  ts_hour :: nat
  ts_minute :: nat
  ts_second :: nat
  ts_timezone :: nat

text \<open>An \<open>i8\<close> from its eight bits.\<close>

definition as_i8 :: "nat \<Rightarrow> int" where
  "as_i8 n = (if n < 128 then int n else int n - 256)"

definition timestamp_sample :: "'r rng \<Rightarrow> ('r, Timestamp) state" where
  "timestamp_sample R = do {
     day \<leftarrow> sample_bits R 8;
     month \<leftarrow> month_sample R;
     year \<leftarrow> sample_bits R 8;
     hour \<leftarrow> sample_bits R 8;
     minute \<leftarrow> sample_bits R 8;
     second \<leftarrow> sample_bits R 8;
     timezone \<leftarrow> sample_bits R 8;
     State_Monad.return \<lparr>ts_day = day, ts_month = month, ts_year = as_i8 year, ts_hour = hour, ts_minute = minute,
       ts_second = second, ts_timezone = timezone\<rparr>
   }"

text \<open>Padding with zeros to a width, \<^verbatim>\<open>{n:02}\<close>, and the remainder of Rust, which has the sign of the dividend.\<close>

definition show_padded :: "nat \<Rightarrow> nat \<Rightarrow> string" where
  "show_padded w n = replicate (w - length (show_nat n)) (CHR ''0'') @ show_nat n"

definition rem_trunc :: "int \<Rightarrow> int \<Rightarrow> int" where
  "rem_trunc a b = sgn a * (\<bar>a\<bar> mod \<bar>b\<bar>)"

definition show_timestamp :: "Timestamp \<Rightarrow> string" where
  "show_timestamp t =
     (let day = ts_day t mod 27 + 1;
          month = show_month (ts_month t);
          year = 2022 - rem_trunc (ts_year t) 40;
          hour = ts_hour t mod 24;
          minute = ts_minute t mod 60;
          second = ts_second t mod 60;
          timezone = ts_timezone t mod 24
      in show_padded 2 day @ ''/'' @ month @ ''/'' @ show_nat (nat year) @ '':'' @ show_padded 2 hour @ '':'' @
         show_padded 2 minute @ '':'' @ show_padded 2 second @ '' '' @ show_padded 4 timezone)"

record IpV4 =
  ip_zero :: nat
  ip_one :: nat
  ip_two :: nat
  ip_three :: nat

definition ipv4_sample :: "'r rng \<Rightarrow> ('r, IpV4) state" where
  "ipv4_sample R = do {
     a \<leftarrow> sample_bits R 8;
     b \<leftarrow> sample_bits R 8;
     c \<leftarrow> sample_bits R 8;
     d \<leftarrow> sample_bits R 8;
     State_Monad.return \<lparr>ip_zero = a, ip_one = b, ip_two = c, ip_three = d\<rparr>
   }"

definition show_ipv4 :: "IpV4 \<Rightarrow> string" where
  "show_ipv4 ip = show_nat (ip_zero ip) @ ''.'' @ show_nat (ip_one ip) @ ''.'' @ show_nat (ip_two ip) @ ''.'' @ show_nat (ip_three ip)"

datatype Method = Get | Put | Post | Delete | Patch

definition method_sample :: "'r rng \<Rightarrow> ('r, Method) state" where
  "method_sample R = do { i \<leftarrow> sample_range R 0 5; State_Monad.return ([Get, Put, Post, Delete, Patch] ! i) }"

fun show_method :: "Method \<Rightarrow> string" where
  "show_method Get = ''GET''"
| "show_method Put = ''PUT''"
| "show_method Post = ''POST''"
| "show_method Delete = ''DELETE''"
| "show_method Patch = ''PATCH''"

record apache_member =
  am_host :: IpV4
  am_user :: string
  am_timestamp :: Timestamp
  am_method :: Method
  am_path :: "string option list"
  am_protocol :: Protocol
  am_status_code :: nat
  am_bytes_out :: nat

definition show_apache_member :: "apache_member \<Rightarrow> string" where
  "show_apache_member m =
     show_ipv4 (am_host m) @ '' - '' @ am_user m @ '' ['' @ show_timestamp (am_timestamp m) @ ''] '' @
     [CHR 0x22] @ show_method (am_method m) @ '' '' @ show_path (am_path m) @ '' '' @ show_protocol (am_protocol m) @
     [CHR 0x22] @ '' '' @ show_nat (am_status_code m) @ '' '' @ show_nat (am_bytes_out m)"

record ApacheCommon =
  apache_pool :: Pool

definition apache_new :: "'r rng \<Rightarrow> ('r, ApacheCommon) state" where
  "apache_new R = do { pool \<leftarrow> with_size R 1000000; State_Monad.return \<lparr>apache_pool = pool\<rparr> }"

definition apache_generate :: "'r rng \<Rightarrow> ApacheCommon \<Rightarrow> ('r, payload_error + apache_member) state" where
  "apache_generate R a = do {
     host \<leftarrow> ipv4_sample R;
     user \<leftarrow> of_size_range R (apache_pool a) 1 16;
     case user of
       None \<Rightarrow> State_Monad.return (Inl Error_StringGenerate)
     | Some u \<Rightarrow> do {
         timestamp \<leftarrow> timestamp_sample R;
         method \<leftarrow> method_sample R;
         path \<leftarrow> path_sample R;
         protocol \<leftarrow> protocol_sample R;
         status_code \<leftarrow> sample_pick R STATUS_CODES;
         bytes_out \<leftarrow> sample_bits R 16;
         State_Monad.return (Inr \<lparr>am_host = host, am_user = u, am_timestamp = timestamp, am_method = method,
           am_path = path, am_protocol = protocol, am_status_code = status_code, am_bytes_out = bytes_out\<rparr>)
       }
   }"

definition apache_to_bytes :: "'r rng \<Rightarrow> ApacheCommon \<Rightarrow> (payload_error, 'r) serializer" where
  "apache_to_bytes R a max_bytes s =
     Some (write_lines (do { m \<leftarrow> apache_generate R a; State_Monad.return (map_sum id show_apache_member m) }) max_bytes s [])"

section \<open>Splunk HEC\<close>

definition PARTITIONS :: "string list" where
  "PARTITIONS = [''eu'', ''eu2'', ''ap1'', ''us1'']"

definition STAGES :: "string list" where
  "STAGES = [''production'', ''performance'', ''noprod'', ''staging'']"

definition CONTAINER_TYPES :: "string list" where
  "CONTAINER_TYPES = [''ingress'']"

definition EVENT_TYPES :: "string list" where
  "EVENT_TYPES = [''service'']"

definition SYSTEM_IDS :: "string list" where
  "SYSTEM_IDS = [''one'', ''two'', ''three'', ''four'']"

definition SERVICES :: "string list" where
  "SERVICES = [''tablet'', ''phone'', ''phone2'', ''laptop'', ''desktop'', ''monitor'', ''bigger-monitor'']"

text \<open>The messages, in UTF-8.\<close>

definition MESSAGES :: "string list" where
  "MESSAGES = [
     ''Es war ein Mann im Lande Uz, der hie'' @ [CHR 0xC3, CHR 0x9F] @
       '' Hiob. Derselbe war schlecht und recht, gottesf'' @ [CHR 0xC3, CHR 0xBC] @ ''rchtig und mied das B'' @
       [CHR 0xC3, CHR 0xB6] @ ''se.'',
     ''Und zeugte sieben S'' @ [CHR 0xC3, CHR 0xB6] @ ''hne und drei T'' @ [CHR 0xC3, CHR 0xB6] @ ''chter;'',
     ''und seines Viehs waren siebentausend Schafe, dreitausend Kamele, f'' @ [CHR 0xC3, CHR 0xBC] @
       ''nfhundert Joch Rinder und f'' @ [CHR 0xC3, CHR 0xBC] @
       ''nfhundert Eselinnen, und er hatte viel Gesinde; und er war herrlicher denn alle, die gegen Morgen wohnten.'',
     ''Und seine S'' @ [CHR 0xC3, CHR 0xB6] @
       ''hne gingen und machten ein Mahl, ein jeglicher in seinem Hause auf seinen Tag, und sandten hin und luden ihre drei Schwestern, mit ihnen zu essen und zu trinken'',
     ''Und wenn die Tage des Mahls um waren, sandte Hiob hin und heiligte sie und machte sich des Morgens fr'' @
       [CHR 0xC3, CHR 0xBC] @ ''h auf und opferte Brandopfer nach ihrer aller Zahl; denn Hiob gedachte: Meine S'' @
       [CHR 0xC3, CHR 0xB6] @ ''hne m'' @ [CHR 0xC3, CHR 0xB6] @ ''chten ges'' @ [CHR 0xC3, CHR 0xBC] @
       ''ndigt und Gott abgesagt haben in ihrem Herzen. Also tat Hiob allezeit.'']"

record splunk_attrs =
  sa_system_id :: string
  sa_stage :: string
  sa_event_type :: string
  sa_c2c_service :: string
  sa_c2c_partition :: string
  sa_c2c_stage :: string
  sa_c2c_container_type :: string
  sa_aws_account :: string

definition splunk_attrs_sample :: "'r rng \<Rightarrow> ('r, splunk_attrs) state" where
  "splunk_attrs_sample R = do {
     system_id \<leftarrow> sample_pick R SYSTEM_IDS;
     stage \<leftarrow> sample_pick R STAGES;
     event_type \<leftarrow> sample_pick R EVENT_TYPES;
     service \<leftarrow> sample_pick R SERVICES;
     partition \<leftarrow> sample_pick R PARTITIONS;
     c2c_stage \<leftarrow> sample_pick R STAGES;
     container_type \<leftarrow> sample_pick R CONTAINER_TYPES;
     State_Monad.return \<lparr>sa_system_id = system_id, sa_stage = stage, sa_event_type = event_type, sa_c2c_service = service,
       sa_c2c_partition = partition, sa_c2c_stage = c2c_stage, sa_c2c_container_type = container_type,
       sa_aws_account = ''verymodelofthemodernmajor''\<rparr>
   }"

text \<open>The event's time stamp is a constant; it is kept as it is displayed.\<close>

record splunk_event =
  se_timestamp :: string
  se_message :: string
  se_attrs :: splunk_attrs

definition splunk_event_sample :: "'r rng \<Rightarrow> ('r, splunk_event) state" where
  "splunk_event_sample R = do {
     message \<leftarrow> sample_pick R MESSAGES;
     attrs \<leftarrow> splunk_attrs_sample R;
     State_Monad.return \<lparr>se_timestamp = ''1606215269.333915'', se_message = message, se_attrs = attrs\<rparr>
   }"

record splunk_member =
  sp_event :: splunk_event
  sp_time :: nat
  sp_host :: string
  sp_index :: string

definition splunk_member_sample :: "'r rng \<Rightarrow> ('r, splunk_member) state" where
  "splunk_member_sample R = do {
     event \<leftarrow> splunk_event_sample R;
     time \<leftarrow> sample_bits R 64;
     host \<leftarrow> sample_pick R SYSTEM_IDS;
     ix \<leftarrow> sample_pick R PARTITIONS;
     State_Monad.return \<lparr>sp_event = event, sp_time = time, sp_host = host, sp_index = ix\<rparr>
   }"

datatype SplunkEncoding = Splunk_Text | Splunk_Json

definition default_splunk_encoding :: SplunkEncoding where
  "default_splunk_encoding = Splunk_Json"

definition splunk_encode ::
    "(splunk_attrs \<Rightarrow> payload_error + string) \<Rightarrow> (splunk_member \<Rightarrow> payload_error + string) \<Rightarrow> SplunkEncoding
      \<Rightarrow> splunk_member \<Rightarrow> payload_error + string" where
  "splunk_encode attrs_to_string member_to_string encoding m =
     (case encoding of
        Splunk_Text \<Rightarrow>
          map_sum id (\<lambda>attrs. se_timestamp (sp_event m) @ '' '' @ se_message (sp_event m) @ '' '' @ attrs)
            (attrs_to_string (se_attrs (sp_event m)))
      | Splunk_Json \<Rightarrow> member_to_string m)"

definition splunk_to_bytes ::
    "(splunk_attrs \<Rightarrow> payload_error + string) \<Rightarrow> (splunk_member \<Rightarrow> payload_error + string) \<Rightarrow> 'r rng \<Rightarrow> SplunkEncoding
      \<Rightarrow> (payload_error, 'r) serializer" where
  "splunk_to_bytes attrs_to_string member_to_string R encoding max_bytes s =
     Some (write_lines
       (do { m \<leftarrow> splunk_member_sample R;
             State_Monad.return (splunk_encode attrs_to_string member_to_string encoding m) }) max_bytes s [])"

section \<open>Static files\<close>

text \<open>
  The file system is an argument: what \<open>fs::metadata\<close> says of a path, the entries of a
  directory with the length of those that can be opened, and the contents a path opens to.
  A buffered reader fills its buffer once, with at most \<open>DEFAULT_BUF_SIZE\<close> bytes.
\<close>

datatype metadata = Meta_File nat | Meta_Dir "(string \<times> nat option) list" | Meta_Other

record Source =
  src_byte_size :: nat
  src_path :: string

record Static =
  sources :: "Source list"

definition static_new :: "(string \<Rightarrow> metadata option) \<Rightarrow> string \<Rightarrow> payload_error + Static" where
  "static_new metadata path =
     (case metadata path of
        None \<Rightarrow> Inl Error_Io
      | Some (Meta_File byte_size) \<Rightarrow> Inr \<lparr>sources = [\<lparr>src_byte_size = byte_size, src_path = path\<rparr>]\<rparr>
      | Some (Meta_Dir entries) \<Rightarrow>
          Inr \<lparr>sources = concat (map (\<lambda>(entry_pth, opened).
             case opened of Some byte_size \<Rightarrow> [\<lparr>src_byte_size = byte_size, src_path = entry_pth\<rparr>] | None \<Rightarrow> []) entries)\<rparr>
      | Some Meta_Other \<Rightarrow> Inr \<lparr>sources = []\<rparr>)"

definition DEFAULT_BUF_SIZE :: nat where
  "DEFAULT_BUF_SIZE = 8192"

definition static_to_bytes ::
    "(string \<Rightarrow> Bytes option) \<Rightarrow> 'r rng \<Rightarrow> Static \<Rightarrow> (payload_error, 'r) serializer" where
  "static_to_bytes open_file R st max_bytes s =
     (case slice_choose R (filter (\<lambda>src. src_byte_size src < max_bytes) (sources st)) s of
        (Some source, s) \<Rightarrow>
          (case open_file (src_path source) of
             None \<Rightarrow> Some (Inl Error_Io, s)
           | Some contents \<Rightarrow> Some (Inr (take DEFAULT_BUF_SIZE contents), s))
      | (None, s) \<Rightarrow> Some (Inr [], s))"

section \<open>Budgets\<close>

lemma lines_within_budget: "Some (write_lines gen n s []) = Some (Inr bs, s') \<Longrightarrow> length bs \<le> n"
  using write_lines_budget [of gen n s "[]" bs s'] by simp

lemma syslog_loop_budget:
  "n \<le> m \<Longrightarrow> length w = n \<Longrightarrow> syslog_loop gen m n s w = (bs, s') \<Longrightarrow> length bs \<le> m"
proof (induction "m - n" arbitrary: n s w rule: less_induct)
  case less
  obtain mem s1 where mem: "run_state gen s = (mem, s1)" by force
  let ?e = "into_string mem"
  show ?case
  proof (cases "m < length ?e + 1 + n")
    case True
    with less.prems show ?thesis by (subst (asm) syslog_loop.simps) (simp add: mem)
  next
    case False
    have "syslog_loop gen m (n + 1 + length ?e) s1 (w @ ?e @ [newline]) = (bs, s')"
      using less.prems(3) False by (subst (asm) syslog_loop.simps) (simp add: mem Let_def)
    then show ?thesis by (intro less.hyps [of "n + 1 + length ?e" "w @ ?e @ [newline]" s1]) (use False less.prems in auto)
  qed
qed

interpretation ascii: bounded_serializer "ascii_to_bytes R a" for R a
  by unfold_locales (auto simp: ascii_to_bytes_def intro: lines_within_budget)

interpretation json: bounded_serializer "json_to_bytes to_string R" for to_string R
  by unfold_locales (auto simp: json_to_bytes_def intro: lines_within_budget)

interpretation apache: bounded_serializer "apache_to_bytes R a" for R a
  by unfold_locales (auto simp: apache_to_bytes_def intro: lines_within_budget)

interpretation splunk: bounded_serializer "splunk_to_bytes ats mts R enc" for ats mts R enc
  by unfold_locales (auto simp: splunk_to_bytes_def intro: lines_within_budget)

interpretation syslog: bounded_serializer "syslog_to_bytes to_string clk R" for to_string clk R
  by unfold_locales
    (auto simp: syslog_to_bytes_def Let_def split: if_splits prod.splits intro: syslog_loop_budget [where n = 0 and w = "[]"])

text \<open>A static payload keeps to its budget as long as its files do not grow after it was made.\<close>

lemma static_within_budget:
  assumes "rng_ok R" "static_to_bytes open_file R st n s = Some (Inr bs, s')"
    and unchanged: "\<And>src contents. src \<in> set (sources st) \<Longrightarrow> open_file (src_path src) = Some contents \<Longrightarrow>
      length contents \<le> src_byte_size src"
  shows "length bs \<le> n"
proof (cases "slice_choose R (filter (\<lambda>src. src_byte_size src < n) (sources st)) s")
  case (Pair c s1)
  show ?thesis
  proof (cases c)
    case None
    then show ?thesis using assms(2) Pair by (simp add: static_to_bytes_def)
  next
    case (Some src)
    then have "src \<in> set (filter (\<lambda>src. src_byte_size src < n) (sources st))"
      using slice_choose_in [OF assms(1)] Pair by metis
    then show ?thesis
      using assms(2) Pair Some unchanged [of src] by (fastforce simp: static_to_bytes_def split: option.splits)
  qed
qed

section \<open>What the lines hold\<close>

lemma ALPHANUM_chars: "c \<in> set ALPHANUM \<Longrightarrow> is_alphanumeric c"
  by (auto simp: ALPHANUM_def is_alphanumeric_def is_digit_def)

lemma newline_not_alphanumeric: "is_alphanumeric c \<Longrightarrow> c \<noteq> newline"
  by (auto simp: is_alphanumeric_def is_digit_def newline_def)

lemma ascii_line_good:
  assumes R: "rng_ok R" and a: "run_state (ascii_new R) s0 = (a, s1)" and run: "run_state (ascii_line R a) s = (r, s')"
  shows "\<exists>l. r = Inr l \<and> l \<noteq> [] \<and> length l < MAX_LENGTH \<and> list_all is_alphanumeric l"
proof -
  have pool: "length (inner (ascii_pool a)) = MAX_LENGTH * 4" "set (inner (ascii_pool a)) \<subseteq> set ALPHANUM"
    using a with_size_pool [of R "MAX_LENGTH * 4" s0] by (auto simp: ascii_new_def Let_def split: prod.splits)
  obtain n s2 where n: "gen_range R 1 MAX_LENGTH s = (n, s2)" by force
  have b: "1 \<le> n" "n < MAX_LENGTH" using gen_range_bounds [OF R _ n] by (simp_all add: MAX_LENGTH_def)
  obtain str s3 where str: "run_state (of_size R (ascii_pool a) n) s2 = (Some str, s3)" "length str = n"
    "set str \<subseteq> set (inner (ascii_pool a))"
    using of_size_Some [OF R, of n "ascii_pool a" s2] b pool(1) by (metis less_le_trans mult.commute mult_le_mono1 mult_1 one_le_numeral)
  then have "r = Inr str" using run n by (simp add: ascii_line_def)
  with str b pool(2) ALPHANUM_chars show ?thesis by (auto simp: list_all_iff)
qed

lemma show_nat_no_newline [simp]: "newline \<notin> set (show_nat n)"
  using show_nat_digits [of n] by (auto simp: list_all_iff is_digit_def newline_def)

lemma show_protocol_no_newline [simp]: "newline \<notin> set (show_protocol p)"
  by (cases p) (simp_all add: newline_def)

lemma show_month_no_newline [simp]: "newline \<notin> set (show_month m)"
  by (cases m) (simp_all add: newline_def)

lemma show_method_no_newline [simp]: "newline \<notin> set (show_method m)"
  by (cases m) (simp_all add: newline_def)

lemmas no_newline = show_nat_no_newline show_protocol_no_newline show_month_no_newline show_method_no_newline

lemma PATH_NAMES_no_newline: "nm \<in> set PATH_NAMES \<Longrightarrow> newline \<notin> set nm"
  by (auto simp: PATH_NAMES_def newline_def)

lemma show_path_no_newline: "\<forall>c \<in> set cs. \<forall>nm. c = Some nm \<longrightarrow> newline \<notin> set nm \<Longrightarrow> newline \<notin> set (show_path cs)"
  by (auto simp: show_path_def newline_def split: option.splits)

lemma show_timestamp_no_newline: "newline \<notin> set (show_timestamp t)"
  using no_newline
  by (auto simp: show_timestamp_def show_padded_def Let_def) (simp_all add: newline_def)

lemma path_sample_no_newline:
  assumes "rng_ok R" "run_state (path_sample R) s = (cs, s')"
  shows "newline \<notin> set (show_path cs)"
proof -
  obtain n s1 where n: "gen_range R 1 17 s = (n, s1)" by force
  obtain names s2 where nm: "run_state (sample_many n (sample_pick R PATH_NAMES)) s1 = (names, s2)" by force
  have "cs = map Some names @ replicate (16 - n) None" using assms(2) n nm by (simp add: path_sample_def)
  moreover have "\<forall>x \<in> set names. newline \<notin> set x"
  proof (rule sample_many_all [OF _ nm])
    show "newline \<notin> set x" if "run_state (sample_pick R PATH_NAMES) s = (x, s')" for s x s'
      using sample_pick_in [OF assms(1) _ that] by (intro PATH_NAMES_no_newline) (simp add: PATH_NAMES_def)
  qed
  ultimately show ?thesis by (intro show_path_no_newline) auto
qed

lemma apache_generate_good:
  assumes R: "rng_ok R" and a: "run_state (apache_new R) s0 = (a, s1)" and run: "run_state (apache_generate R a) s = (r, s')"
  shows "\<exists>m. r = Inr m \<and> newline \<notin> set (show_apache_member m)"
proof -
  have pool: "length (inner (apache_pool a)) = 1000000" "set (inner (apache_pool a)) \<subseteq> set ALPHANUM"
    using a with_size_pool [of R 1000000 s0] by (auto simp: apache_new_def Let_def split: prod.splits)
  obtain host s2 where host: "run_state (ipv4_sample R) s = (host, s2)" by force
  obtain u s3 where u: "run_state (of_size_range R (apache_pool a) 1 16) s2 = (Some u, s3)"
    "set u \<subseteq> set (inner (apache_pool a))"
    by (rule of_size_range_Some [OF R, of 1 16 "apache_pool a" s2]) (use pool(1) in auto)
  have user: "newline \<notin> set u" using u(2) pool(2) ALPHANUM_chars newline_not_alphanumeric by blast
  obtain t s4 where t: "run_state (timestamp_sample R) s3 = (t, s4)" by force
  obtain me s5 where me: "run_state (method_sample R) s4 = (me, s5)" by force
  obtain pa s6 where pa: "run_state (path_sample R) s5 = (pa, s6)" by force
  obtain pr s7 where pr: "run_state (protocol_sample R) s6 = (pr, s7)" by force
  obtain sc s8 where sc: "run_state (sample_pick R STATUS_CODES) s7 = (sc, s8)" by force
  obtain bo s9 where bo: "gen_bits R 16 s8 = (bo, s9)" by force
  let ?m = "\<lparr>am_host = host, am_user = u, am_timestamp = t, am_method = me, am_path = pa, am_protocol = pr,
    am_status_code = sc, am_bytes_out = bo\<rparr>"
  have "r = Inr ?m" using run host u(1) t me pa pr sc bo by (simp add: apache_generate_def)
  moreover have "newline \<notin> set (show_apache_member ?m)"
    using user path_sample_no_newline [OF R pa] show_timestamp_no_newline [of t] no_newline
    by (auto simp: show_apache_member_def show_ipv4_def) (simp_all add: newline_def)
  ultimately show ?thesis by blast
qed

section \<open>Properties\<close>

text \<open>
  C17. The ASCII payload. Whatever the budget, a payload made by \<open>Ascii::new\<close> serializes without
  an error into lines of one to 6143 alphanumeric characters, within the budget.
\<close>

theorem ascii_payload_lines:
  assumes "rng_ok R" "run_state (ascii_new R) s0 = (a, s1)"
  shows "\<exists>ls s'. ascii_to_bytes R a max_bytes s = Some (Inr (lines_of ls), s') \<and> length (lines_of ls) \<le> max_bytes \<and>
     (\<forall>l \<in> set ls. l \<noteq> [] \<and> length l < 6144 \<and> list_all is_alphanumeric l)"
  using write_lines_lines [of "ascii_line R a" "\<lambda>l. l \<noteq> [] \<and> length l < MAX_LENGTH \<and> list_all is_alphanumeric l" max_bytes s "[]"]
    ascii_line_good [OF assms] by (auto simp: ascii_to_bytes_def MAX_LENGTH_def)

theorem ascii_payload_lines_witness:
  "\<exists>ls s'. ascii_to_bytes counter_rng (fst (run_state (ascii_new counter_rng) 0)) 100 5 = Some (Inr (lines_of ls), s') \<and>
     length (lines_of ls) \<le> 100 \<and> (\<forall>l \<in> set ls. l \<noteq> [] \<and> length l < 6144 \<and> list_all is_alphanumeric l)"
  by (rule ascii_payload_lines [OF counter_rng_ok surjective_pairing])

text \<open>
  The Apache payload. A payload made by \<open>ApacheCommon::new\<close> serializes without an error into
  one log line per member, within the budget: no member's text contains a newline.
\<close>

theorem apache_payload_lines:
  assumes "rng_ok R" "run_state (apache_new R) s0 = (a, s1)"
  shows "\<exists>ms s'. apache_to_bytes R a max_bytes s = Some (Inr (lines_of (map show_apache_member ms)), s') \<and>
     length (lines_of (map show_apache_member ms)) \<le> max_bytes \<and>
     (\<forall>m \<in> set ms. newline \<notin> set (show_apache_member m))"
proof -
  let ?gen = "do { m \<leftarrow> apache_generate R a; State_Monad.return (map_sum id show_apache_member m) }"
  let ?P = "\<lambda>l. \<exists>m. l = show_apache_member m \<and> newline \<notin> set l"
  have good: "\<exists>l. r = Inr l \<and> ?P l" if "run_state ?gen s = (r, s')" for s r s'
    using that apache_generate_good [OF assms, of s] by (auto simp: Let_def split: prod.splits)
  have "\<exists>ls s'. write_lines ?gen max_bytes s [] = (Inr ([] @ lines_of ls), s') \<and> (\<forall>l \<in> set ls. ?P l) \<and>
      length (lines_of ls) \<le> max_bytes"
    by (rule write_lines_lines) (rule good)
  then obtain ls s' where
    ls: "apache_to_bytes R a max_bytes s = Some (Inr (lines_of ls), s')" "\<forall>l \<in> set ls. ?P l" "length (lines_of ls) \<le> max_bytes"
    by (auto simp: apache_to_bytes_def)
  from ls(2) obtain ms where "ls = map show_apache_member ms" using ex_map_conv [of ls show_apache_member] by blast
  with ls show ?thesis by auto
qed

theorem apache_payload_lines_witness:
  "\<exists>ms s'. apache_to_bytes counter_rng (fst (run_state (apache_new counter_rng) 0)) 500 5 =
       Some (Inr (lines_of (map show_apache_member ms)), s') \<and>
     length (lines_of (map show_apache_member ms)) \<le> 500 \<and>
     (\<forall>m \<in> set ms. newline \<notin> set (show_apache_member m))"
  by (rule apache_payload_lines [OF counter_rng_ok surjective_pairing])

lemma length_show_nat_2: "n < 100 \<Longrightarrow> length (show_nat n) = (if n < 10 then 1 else 2)"
  by (subst show_nat.simps) (auto, subst show_nat.simps, simp add: div_less_iff_less_mult)

lemma length_show_nat_4: "1000 \<le> n \<Longrightarrow> n < 10000 \<Longrightarrow> length (show_nat n) = 4"
  by (subst show_nat.simps, subst show_nat.simps) (auto simp: length_show_nat_2)

lemma length_show_padded_2: "n < 100 \<Longrightarrow> length (show_padded 2 n) = 2"
  by (simp add: show_padded_def length_show_nat_2)

lemma length_show_padded_4: "n < 100 \<Longrightarrow> length (show_padded 4 n) = 4"
  by (simp add: show_padded_def length_show_nat_2)

lemma length_show_month [simp]: "length (show_month m) = 3"
  by (cases m) simp_all

lemma rem_trunc_bounds:
  assumes "0 < b"
  shows "- b < rem_trunc a b \<and> rem_trunc a b < b"
proof -
  have "0 \<le> \<bar>a\<bar> mod \<bar>b\<bar>" "\<bar>a\<bar> mod \<bar>b\<bar> < b" using assms by simp_all
  moreover have "rem_trunc a b = 0 \<or> rem_trunc a b = \<bar>a\<bar> mod \<bar>b\<bar> \<or> rem_trunc a b = - (\<bar>a\<bar> mod \<bar>b\<bar>)"
    by (auto simp: rem_trunc_def sgn_if)
  ultimately show ?thesis using assms by linarith
qed

text \<open>
  The Apache time stamp. For every sampled time stamp the printed one has the fixed width of
  the common log format, \<^verbatim>\<open>dd/Mon/yyyy:hh:mm:ss zzzz\<close>, as day, hour, minute, second and zone are
  brought into range and the year lies between 1983 and 2061.
\<close>

theorem apache_timestamp_width:
  "length (show_timestamp t) = 25 \<and> (1983 \<le> 2022 - rem_trunc (ts_year t) 40 \<and> 2022 - rem_trunc (ts_year t) 40 \<le> 2061)"
proof -
  have y: "1983 \<le> 2022 - rem_trunc (ts_year t) 40" "2022 - rem_trunc (ts_year t) 40 \<le> 2061"
    using rem_trunc_bounds [of 40 "ts_year t"] by simp_all
  then have "length (show_nat (nat (2022 - rem_trunc (ts_year t) 40))) = 4" by (intro length_show_nat_4) auto
  moreover have "ts_day t mod 27 + 1 < 100" "ts_hour t mod 24 < 100" "ts_minute t mod 60 < 100" "ts_second t mod 60 < 100"
    "ts_timezone t mod 24 < 100"
    using mod_less_divisor [of 27 "ts_day t"] mod_less_divisor [of 24 "ts_hour t"] mod_less_divisor [of 60 "ts_minute t"]
      mod_less_divisor [of 60 "ts_second t"] mod_less_divisor [of 24 "ts_timezone t"] by linarith+
  ultimately show ?thesis
    using y length_show_padded_2 length_show_padded_4 by (simp add: show_timestamp_def Let_def)
qed

definition syslog_member_ok :: "syslog_member \<Rightarrow> bool" where
  "syslog_member_ok m \<longleftrightarrow> sy_priority m \<le> 191 \<and> 1 \<le> sy_syslog_version m \<and> sy_syslog_version m \<le> 3 \<and>
     100 \<le> sy_procid m \<and> sy_procid m \<le> 9999 \<and> 1 \<le> sy_msgid m \<and> sy_msgid m \<le> 999 \<and>
     sy_hostname m \<in> set HOSTNAMES \<and> sy_app_name m \<in> set APP_NAMES"

lemma syslog_member_sample_ok:
  assumes R: "rng_ok R" and run: "run_state (syslog_member_sample to_string clk R) s = (m, s')"
  shows "syslog_member_ok m"
proof -
  obtain pr s1 where pr: "gen_range R 0 192 s = (pr, s1)" by force
  obtain ver s2 where ver: "gen_range R 1 4 s1 = (ver, s2)" by force
  obtain ts s3 where ts: "run_state clk s2 = (ts, s3)" by force
  obtain host s4 where host: "run_state (sample_pick R HOSTNAMES) s3 = (host, s4)" by force
  obtain app s5 where app: "run_state (sample_pick R APP_NAMES) s4 = (app, s5)" by force
  obtain pid s6 where pid: "gen_range R 100 10000 s5 = (pid, s6)" by force
  obtain mid s7 where mid: "gen_range R 1 1000 s6 = (mid, s7)" by force
  obtain msg s8 where msg: "run_state (syslog_message_sample R) s7 = (msg, s8)" by force
  have "m = \<lparr>sy_priority = pr, sy_syslog_version = ver, sy_timestamp = ts, sy_hostname = host,
       sy_app_name = app, sy_procid = pid, sy_msgid = mid, sy_message = to_string msg\<rparr>"
    using run pr ver ts host app pid mid msg by (simp add: syslog_member_sample_def)
  then show ?thesis
    using gen_range_bounds [OF R _ pr] gen_range_bounds [OF R _ ver] gen_range_bounds [OF R _ pid] gen_range_bounds [OF R _ mid]
      sample_pick_in [OF R _ host] sample_pick_in [OF R _ app]
    by (simp add: syslog_member_ok_def HOSTNAMES_def APP_NAMES_def)
qed

lemma syslog_loop_members:
  assumes good: "\<And>s m s'. run_state gen s = (m, s') \<Longrightarrow> P m"
  shows "\<exists>ms s'. syslog_loop gen m n s w = (w @ lines_of (map into_string ms), s') \<and> (\<forall>m \<in> set ms. P m)"
proof (induction "m - n" arbitrary: n s w rule: less_induct)
  case less
  obtain x s1 where x: "run_state gen s = (x, s1)" by force
  show ?case
  proof (cases "m < length (into_string x) + 1 + n")
    case True
    then have "syslog_loop gen m n s w = (w @ lines_of (map into_string []), s1)"
      by (subst syslog_loop.simps) (simp add: x Let_def)
    then show ?thesis by (intro exI [of _ "[]"]) auto
  next
    case False
    let ?n = "n + 1 + length (into_string x)" and ?w = "w @ into_string x @ [newline]"
    have "m - ?n < m - n" using False by linarith
    from less.hyps [OF this, of s1 ?w] obtain ms s' where
      ms: "syslog_loop gen m ?n s1 ?w = (?w @ lines_of (map into_string ms), s')" "\<forall>m \<in> set ms. P m" by blast
    have "syslog_loop gen m n s w = syslog_loop gen m ?n s1 ?w"
      using False by (subst syslog_loop.simps) (simp add: x Let_def)
    with ms good [OF x] show ?thesis by (intro exI [of _ "x # ms"] exI [of _ s']) simp
  qed
qed

text \<open>
  The syslog payload writes whole messages only: it never fails, its bytes are lines each of
  which is a member's RFC 5424 text, within the budget, and the priority, version, process
  and message identifiers of every member lie in the ranges its fields document.
\<close>

theorem syslog_payload_lines:
  assumes "rng_ok R"
  shows "\<exists>ms s'. syslog_to_bytes to_string clk R max_bytes s = Some (Inr (lines_of (map into_string ms)), s') \<and>
     length (lines_of (map into_string ms)) \<le> max_bytes \<and> (\<forall>m \<in> set ms. syslog_member_ok m)"
proof (cases "max_bytes < 2")
  case True
  then have "syslog_to_bytes to_string clk R max_bytes s = Some (Inr (lines_of (map into_string [])), s)"
    by (simp add: syslog_to_bytes_def)
  then show ?thesis by (intro exI [of _ "[]"]) auto
next
  case False
  have "\<exists>ms s'. syslog_loop (syslog_member_sample to_string clk R) max_bytes 0 s [] = ([] @ lines_of (map into_string ms), s') \<and>
      (\<forall>m \<in> set ms. syslog_member_ok m)"
    by (rule syslog_loop_members) (rule syslog_member_sample_ok [OF assms])
  then obtain ms s' where ms: "syslog_to_bytes to_string clk R max_bytes s = Some (Inr (lines_of (map into_string ms)), s')"
    "\<forall>m \<in> set ms. syslog_member_ok m" using False by (auto simp: syslog_to_bytes_def)
  with syslog.within_budget [OF ms(1)] show ?thesis by blast
qed

theorem syslog_payload_lines_witness:
  "\<exists>ms s'. syslog_to_bytes (\<lambda>m. ''{}'') (State_Monad.return ''2024-01-01T00:00:00Z'') counter_rng 300 7 =
       Some (Inr (lines_of (map into_string ms)), s') \<and>
     length (lines_of (map into_string ms)) \<le> 300 \<and> (\<forall>m \<in> set ms. syslog_member_ok m)"
  by (rule syslog_payload_lines) simp

text \<open>
  A static file is cut off. When the one source of a static payload is a file of more than
  8 KiB and fits the budget, the payload sends the first 8 KiB of it only, since the buffered
  reader is filled once.
\<close>

theorem static_truncates:
  assumes "rng_ok R" "sources st = [src]" "src_byte_size src < max_bytes" "open_file (src_path src) = Some contents"
    and "8192 < length contents"
  shows "\<exists>s'. static_to_bytes open_file R st max_bytes s = Some (Inr (take 8192 contents), s') \<and> take 8192 contents \<noteq> contents"
proof -
  obtain s' where "slice_choose R [src] s = (Some src, s')"
    using slice_choose_Some [of "[src]" R s] slice_choose_in [OF assms(1), of "[src]" s] by (metis list.distinct(1) set_ConsD empty_iff empty_set)
  then have "static_to_bytes open_file R st max_bytes s = Some (Inr (take 8192 contents), s')"
    using assms(2-4) by (simp add: static_to_bytes_def DEFAULT_BUF_SIZE_def)
  moreover have "length (take 8192 contents) \<noteq> length contents" using assms(5) by simp
  ultimately show ?thesis by metis
qed

theorem static_truncates_witness:
  "\<exists>s'. static_to_bytes (\<lambda>p. Some (replicate 9000 (CHR ''x''))) counter_rng
       \<lparr>sources = [\<lparr>src_byte_size = 9000, src_path = ''f''\<rparr>]\<rparr> 10000 3 = Some (Inr (take 8192 (replicate 9000 (CHR ''x''))), s') \<and>
     take 8192 (replicate 9000 (CHR ''x'')) \<noteq> replicate 9000 (CHR ''x'')"
  by (rule static_truncates [where src = "\<lparr>src_byte_size = 9000, src_path = ''f''\<rparr>"]) simp_all

end
