(* ===== verification/Payload_Search.thy ===== *)
theory Payload_Search
  imports Payload
begin

text \<open>
  The payloads that encode a list of members as a whole and search for how many fit:
  \<^verbatim>\<open>datadog_logs.rs\<close>, \<^verbatim>\<open>fluent.rs\<close> and \<^verbatim>\<open>trace_agent.rs\<close> of \<^verbatim>\<open>lading_payload/src\<close>. The
  encoders (\<open>serde_json\<close>, \<open>rmp_serde\<close>) are arguments, as is \<open>choose_multiple\<close> of the \<open>rand\<close>
  crate. A \<open>None\<close> sampled is the panic of an \<open>expect\<close>; hash maps are association lists.
\<close>

text \<open>Going on with a sampled value unless it was a panic.\<close>

definition and_then :: "('r, 'a option) state \<Rightarrow> ('a \<Rightarrow> ('r, 'b option) state) \<Rightarrow> ('r, 'b option) state" where
  "and_then m f = do { x \<leftarrow> m; case x of None \<Rightarrow> State_Monad.return None | Some y \<Rightarrow> f y }"

section \<open>Datadog logs\<close>

definition DD_STATUSES :: "string list" where
  "DD_STATUSES = [''notice'', ''info'', ''warning'']"

definition DD_HOSTNAMES :: "string list" where
  "DD_HOSTNAMES = [''alpha'', ''beta'', ''gamma'', ''localhost'']"

definition DD_SERVICES :: "string list" where
  "DD_SERVICES = [''vector'', ''lading'', ''cernan'', ''agent'']"

definition DD_SOURCES :: "string list" where
  "DD_SOURCES = [''bergman'', ''keaton'', ''kurosawa'', ''lynch'', ''waters'', ''tarkovsky'', ''herzog'']"

definition DD_TAG_OPTIONS :: "string list" where
  "DD_TAG_OPTIONS = ['''', ''env:prod'', ''env:dev'', ''env:prod,version:1.1'']"

record dd_structured =
  dd_proportional :: nat
  dd_integral :: nat
  dd_derivative :: nat
  dd_vegetable :: nat

definition dd_structured_sample :: "'r rng \<Rightarrow> ('r, dd_structured) state" where
  "dd_structured_sample R = do {
     p \<leftarrow> sample_bits R 32;
     i \<leftarrow> sample_bits R 64;
     d \<leftarrow> sample_bits R 64;
     v \<leftarrow> sample_bits R 16;
     State_Monad.return \<lparr>dd_proportional = p, dd_integral = i, dd_derivative = d, dd_vegetable = v\<rparr>
   }"

datatype dd_message = Unstructured string | Structured string

definition dd_message_sample ::
    "(dd_structured \<Rightarrow> string) \<Rightarrow> 'r rng \<Rightarrow> Pool \<Rightarrow> ('r, dd_message option) state" where
  "dd_message_sample structured_to_string R pool = do {
     k \<leftarrow> sample_range R 0 2;
     if k = 0
     then and_then (of_size_range R pool 1 16) (\<lambda>str. State_Monad.return (Some (Unstructured str)))
     else do { st \<leftarrow> dd_structured_sample R; State_Monad.return (Some (Structured (structured_to_string st))) }
   }"

record dd_member =
  ddm_message :: dd_message
  ddm_status :: string
  ddm_timestamp :: nat
  ddm_hostname :: string
  ddm_service :: string
  ddm_ddsource :: string
  ddm_ddtags :: string

record DatadogLog =
  dd_pool :: Pool

definition dd_new :: "'r rng \<Rightarrow> ('r, DatadogLog) state" where
  "dd_new R = do { pool \<leftarrow> with_size R 1000000; State_Monad.return \<lparr>dd_pool = pool\<rparr> }"

definition dd_generate ::
    "(dd_structured \<Rightarrow> string) \<Rightarrow> 'r rng \<Rightarrow> DatadogLog \<Rightarrow> ('r, dd_member option) state" where
  "dd_generate structured_to_string R dd =
     and_then (dd_message_sample structured_to_string R (dd_pool dd)) (\<lambda>message. do {
       status \<leftarrow> sample_pick R DD_STATUSES;
       timestamp \<leftarrow> sample_bits R 32;
       hostname \<leftarrow> sample_pick R DD_HOSTNAMES;
       service \<leftarrow> sample_pick R DD_SERVICES;
       ddsource \<leftarrow> sample_pick R DD_SOURCES;
       ddtags \<leftarrow> sample_pick R DD_TAG_OPTIONS;
       State_Monad.return (Some \<lparr>ddm_message = message, ddm_status = status, ddm_timestamp = timestamp,
         ddm_hostname = hostname, ddm_service = service, ddm_ddsource = ddsource, ddm_ddtags = ddtags\<rparr>)
     })"

definition dd_to_bytes ::
    "(dd_structured \<Rightarrow> string) \<Rightarrow> (dd_member list \<Rightarrow> payload_error + string) \<Rightarrow> 'r rng \<Rightarrow> DatadogLog
      \<Rightarrow> (payload_error, 'r) serializer" where
  "dd_to_bytes structured_to_string to_string R dd max_bytes s =
     (let approx_member_encoded_size = 220 in
      if max_bytes < approx_member_encoded_size then Some (Inr [], s)
      else
        let cap = max_bytes div approx_member_encoded_size + 100;
            (members, s) = run_state (sample_many cap (dd_generate structured_to_string R dd)) s
        in case those members of
             None \<Rightarrow> None
           | Some members \<Rightarrow>
               Some (shrink_to_fit (\<lambda>high. to_string (take high members)) max_bytes (length members), s))"

section \<open>Fluent\<close>

datatype RecordValue = RV_String string | RV_Object "(string \<times> nat) list"

fun object_sample :: "nat \<Rightarrow> 'r rng \<Rightarrow> Pool \<Rightarrow> (string \<times> nat) list \<Rightarrow> ('r, (string \<times> nat) list option) state" where
  "object_sample 0 R pool obj = State_Monad.return (Some obj)"
| "object_sample (Suc n) R pool obj =
     and_then (of_size_range R pool 1 16) (\<lambda>key. do {
       val \<leftarrow> sample_bits R 8;
       object_sample n R pool (AList.update key val obj)
     })"

definition record_value :: "'r rng \<Rightarrow> Pool \<Rightarrow> ('r, RecordValue option) state" where
  "record_value R pool = do {
     k \<leftarrow> sample_range R 0 2;
     if k = 0
     then and_then (of_size_range R pool 1 16) (\<lambda>str. State_Monad.return (Some (RV_String str)))
     else do {
       n \<leftarrow> sample_range R 0 128;
       and_then (object_sample n R pool []) (\<lambda>obj. State_Monad.return (Some (RV_Object obj)))
     }
   }"

fun record_entries ::
    "nat \<Rightarrow> 'r rng \<Rightarrow> Pool \<Rightarrow> (string \<times> RecordValue) list \<Rightarrow> ('r, (string \<times> RecordValue) list option) state" where
  "record_entries 0 R pool rec = State_Monad.return (Some rec)"
| "record_entries (Suc n) R pool rec =
     and_then (of_size_range R pool 1 16) (\<lambda>key.
     and_then (record_value R pool) (\<lambda>val.
       record_entries n R pool (AList.update key val rec)))"

record fluent_entry =
  fe_time :: nat
  fe_record :: "(string \<times> RecordValue) list"

datatype fluent_member =
    Fluent_Message string nat "(string \<times> RecordValue) list"
  | Fluent_Forward string "fluent_entry list"

definition message_record :: "'r rng \<Rightarrow> Pool \<Rightarrow> ('r, (string \<times> RecordValue) list option) state" where
  "message_record R pool =
     and_then (record_value R pool) (\<lambda>v. do {
       n \<leftarrow> sample_range R 0 128;
       record_entries n R pool [(''message'', v)]
     })"

definition forward_entry :: "'r rng \<Rightarrow> Pool \<Rightarrow> ('r, fluent_entry option) state" where
  "forward_entry R pool =
     and_then (record_value R pool) (\<lambda>v.
     and_then (record_value R pool) (\<lambda>w. do {
       n \<leftarrow> sample_range R 0 128;
       and_then (record_entries n R pool (AList.update ''event'' w [(''message'', v)])) (\<lambda>rec. do {
         t \<leftarrow> sample_bits R 32;
         State_Monad.return (Some \<lparr>fe_time = t, fe_record = rec\<rparr>)
       })
     }))"

fun forward_entries :: "nat \<Rightarrow> 'r rng \<Rightarrow> Pool \<Rightarrow> ('r, fluent_entry list option) state" where
  "forward_entries 0 R pool = State_Monad.return (Some [])"
| "forward_entries (Suc n) R pool =
     and_then (forward_entry R pool) (\<lambda>e.
     and_then (forward_entries n R pool) (\<lambda>es. State_Monad.return (Some (e # es))))"

record Fluent =
  fl_pool :: Pool

definition fluent_new :: "'r rng \<Rightarrow> ('r, Fluent) state" where
  "fluent_new R = do { pool \<leftarrow> with_size R 1000000; State_Monad.return \<lparr>fl_pool = pool\<rparr> }"

text \<open>
  \<open>Fluent::generate\<close>, whose \<open>StringGenerate\<close> error its caller turns into a panic as well.
\<close>

definition fluent_generate :: "'r rng \<Rightarrow> Fluent \<Rightarrow> ('r, fluent_member option) state" where
  "fluent_generate R fl = do {
     k \<leftarrow> sample_range R 0 2;
     if k = 0
     then and_then (message_record R (fl_pool fl)) (\<lambda>rec.
          and_then (of_size_range R (fl_pool fl) 1 16) (\<lambda>tag. do {
            t \<leftarrow> sample_bits R 32;
            State_Monad.return (Some (Fluent_Message tag t rec))
          }))
     else and_then (forward_entries 32 R (fl_pool fl)) (\<lambda>es.
          and_then (of_size_range R (fl_pool fl) 1 16) (\<lambda>tag.
            State_Monad.return (Some (Fluent_Forward tag es))))
   }"

text \<open>Ten members more, each encoded.\<close>

definition fluent_batch ::
    "(fluent_member \<Rightarrow> Bytes option) \<Rightarrow> 'r rng \<Rightarrow> Fluent \<Rightarrow> 'r \<Rightarrow> (Bytes list \<times> 'r) option" where
  "fluent_batch to_vec R fl s =
     (let (ms, s) = run_state (sample_many 10 (fluent_generate R fl)) s
      in map_option (\<lambda>es. (es, s)) (Option.bind (those ms) (\<lambda>ms. those (map to_vec ms))))"

definition fluent_grow ::
    "(fluent_member \<Rightarrow> Bytes option) \<Rightarrow> 'r rng \<Rightarrow> Fluent \<Rightarrow> nat \<Rightarrow> Bytes list \<times> 'r
      \<Rightarrow> (Bytes list \<times> 'r, Bytes list \<times> 'r) pass option" where
  "fluent_grow to_vec R fl max_bytes = (\<lambda>(members, s).
     if max_bytes < length (concat members) then Some (Break (members, s))
     else map_option (\<lambda>(more, s). Again (members @ more, s)) (fluent_batch to_vec R fl s))"

definition fluent_shrink :: "nat \<Rightarrow> Bytes list \<Rightarrow> nat \<Rightarrow> (nat, Bytes) pass option" where
  "fluent_shrink max_bytes members high =
     (let encoding = concat (take high members)
      in Some (if max_bytes < length encoding then Again (high div 2) else Break encoding))"

definition fluent_to_bytes ::
    "(fluent_member \<Rightarrow> Bytes option) \<Rightarrow> 'r rng \<Rightarrow> Fluent \<Rightarrow> (payload_error, 'r) serializer" where
  "fluent_to_bytes to_vec R fl max_bytes s =
     (if max_bytes < 16 then Some (Inr [], s)
      else do {
        (members, s) \<leftarrow> fluent_batch to_vec R fl s;
        (members, s) \<leftarrow> loop (fluent_grow to_vec R fl max_bytes) (members, s);
        encoding \<leftarrow> loop (fluent_shrink max_bytes members) (length members);
        Some (Inr encoding, s)
      })"

section \<open>Trace agent\<close>

definition TA_SERVICES :: "string list" where
  "TA_SERVICES = [''tablet'', ''phone'', ''phone2'', ''laptop'', ''desktop'', ''monitor'', ''bigger-monitor'']"

definition TA_TAG_NAMES :: "string list" where
  "TA_TAG_NAMES = [''one'', ''two'', ''three'', ''four'', ''five'', ''six'', ''seven'', ''eight'']"

definition TA_SERVICE_KIND :: "string list" where
  "TA_SERVICE_KIND = [''web'', ''db'', ''lambda'', ''cicd'']"

record Span =
  sp_service :: string
  sp_name :: string
  sp_resource :: string
  sp_trace_id :: nat
  sp_span_id :: nat
  sp_parent_id :: nat
  sp_start :: nat
  sp_duration :: nat
  sp_error :: nat
  sp_meta :: "(string \<times> string) list"
  sp_metrics :: "(string \<times> nat) list"
  sp_kind :: string
  sp_meta_struct :: "(string \<times> nat list) list"

datatype TraceEncoding = Trace_Json | Trace_MsgPack

record TraceAgent =
  ta_encoding :: TraceEncoding
  ta_pool :: Pool

definition ta_json :: "'r rng \<Rightarrow> ('r, TraceAgent) state" where
  "ta_json R = do { pool \<leftarrow> with_size R 1000000; State_Monad.return \<lparr>ta_encoding = Trace_Json, ta_pool = pool\<rparr> }"

definition ta_msg_pack :: "'r rng \<Rightarrow> ('r, TraceAgent) state" where
  "ta_msg_pack R = do { pool \<leftarrow> with_size R 1000000; State_Monad.return \<lparr>ta_encoding = Trace_MsgPack, ta_pool = pool\<rparr> }"

fun metrics_sample :: "'r rng \<Rightarrow> string list \<Rightarrow> (string \<times> nat) list \<Rightarrow> ('r, (string \<times> nat) list) state" where
  "metrics_sample R [] metrics = State_Monad.return metrics"
| "metrics_sample R (k # ks) metrics = do { v \<leftarrow> sample_bits R 64; metrics_sample R ks (AList.update k v metrics) }"

definition ta_generate ::
    "(string list \<Rightarrow> nat \<Rightarrow> ('r, string list) state) \<Rightarrow> 'r rng \<Rightarrow> TraceAgent \<Rightarrow> ('r, Span option) state" where
  "ta_generate choose_multiple R ta = do {
     total_metrics \<leftarrow> sample_range R 0 6;
     names \<leftarrow> choose_multiple TA_TAG_NAMES total_metrics;
     metrics \<leftarrow> metrics_sample R names [];
     and_then (of_size_range R (ta_pool ta) 1 16) (\<lambda>name.
     and_then (of_size_range R (ta_pool ta) 1 8) (\<lambda>resource. do {
       service \<leftarrow> sample_pick R TA_SERVICES;
       trace_id \<leftarrow> sample_bits R 64;
       span_id \<leftarrow> sample_bits R 64;
       parent_id \<leftarrow> sample_bits R 64;
       start \<leftarrow> sample_bits R 64;
       duration \<leftarrow> sample_bits R 64;
       err \<leftarrow> sample_range R 0 2;
       kind \<leftarrow> sample_pick R TA_SERVICE_KIND;
       State_Monad.return (Some \<lparr>sp_service = service, sp_name = name, sp_resource = resource, sp_trace_id = trace_id,
         sp_span_id = span_id, sp_parent_id = parent_id, sp_start = start, sp_duration = duration, sp_error = err,
         sp_meta = [], sp_metrics = metrics, sp_kind = kind, sp_meta_struct = []\<rparr>)
     }))
   }"

definition ta_spans ::
    "(string list \<Rightarrow> nat \<Rightarrow> ('r, string list) state) \<Rightarrow> 'r rng \<Rightarrow> TraceAgent \<Rightarrow> nat \<Rightarrow> 'r \<Rightarrow> (Span list \<times> 'r) option" where
  "ta_spans choose_multiple R ta n s =
     (let (spans, s) = run_state (sample_many n (ta_generate choose_multiple R ta)) s
      in map_option (\<lambda>spans. (spans, s)) (those spans))"

definition ta_fill ::
    "(string list \<Rightarrow> nat \<Rightarrow> ('r, string list) state) \<Rightarrow> 'r rng \<Rightarrow> TraceAgent \<Rightarrow> nat \<times> Span list list \<times> 'r
      \<Rightarrow> (nat \<times> Span list list \<times> 'r, Span list list \<times> 'r) pass option" where
  "ta_fill choose_multiple R ta = (\<lambda>(remaining, members, s).
     if remaining = 0 then Some (Break (members, s))
     else
       let (total_spans, s) = gen_range R 0 (remaining + 1) s
       in map_option (\<lambda>(spans, s). Again (remaining - total_spans, members @ [spans], s))
            (ta_spans choose_multiple R ta total_spans s))"

definition ta_grow ::
    "(TraceEncoding \<Rightarrow> Span list list \<Rightarrow> payload_error + Bytes) \<Rightarrow> (string list \<Rightarrow> nat \<Rightarrow> ('r, string list) state)
      \<Rightarrow> 'r rng \<Rightarrow> TraceAgent \<Rightarrow> nat \<Rightarrow> Span list list \<times> 'r
      \<Rightarrow> (Span list list \<times> 'r, (payload_error + Span list list) \<times> 'r) pass option" where
  "ta_grow encode choose_multiple R ta max_bytes = (\<lambda>(members, s).
     case encode (ta_encoding ta) members of
       Inl e \<Rightarrow> Some (Break (Inl e, s))
     | Inr encoding \<Rightarrow>
         if max_bytes < length encoding then Some (Break (Inr members, s))
         else map_option (\<lambda>(spans, s). Again (members @ [spans], s)) (ta_spans choose_multiple R ta 5000 s))"

definition ta_shrink ::
    "(TraceEncoding \<Rightarrow> Span list list \<Rightarrow> payload_error + Bytes) \<Rightarrow> TraceAgent \<Rightarrow> nat \<Rightarrow> Span list list \<Rightarrow> nat
      \<Rightarrow> (nat, payload_error + Bytes) pass option" where
  "ta_shrink encode ta max_bytes members high =
     Some (case encode (ta_encoding ta) (take high members) of
             Inl e \<Rightarrow> Break (Inl e)
           | Inr encoding \<Rightarrow> if max_bytes < length encoding then Again (high div 2) else Break (Inr encoding))"

definition ta_to_bytes ::
    "(TraceEncoding \<Rightarrow> Span list list \<Rightarrow> payload_error + Bytes) \<Rightarrow> (string list \<Rightarrow> nat \<Rightarrow> ('r, string list) state)
      \<Rightarrow> 'r rng \<Rightarrow> TraceAgent \<Rightarrow> (payload_error, 'r) serializer" where
  "ta_to_bytes encode choose_multiple R ta max_bytes s = do {
     (members, s) \<leftarrow> loop (ta_fill choose_multiple R ta) (10000, [], s);
     (grown, s) \<leftarrow> loop (ta_grow encode choose_multiple R ta max_bytes) (members, s);
     case grown of
       Inl e \<Rightarrow> Some (Inl e, s)
     | Inr members \<Rightarrow> do {
         result \<leftarrow> loop (ta_shrink encode ta max_bytes members) (length members);
         Some (result, s)
       }
   }"

section \<open>Budgets\<close>

lemma dd_within_budget: "dd_to_bytes sts ts R dd n s = Some (Inr bs, s') \<Longrightarrow> length bs \<le> n"
  by (auto simp: dd_to_bytes_def Let_def split: if_splits prod.splits option.splits dest: shrink_to_fit_budget)

interpretation datadog: bounded_serializer "dd_to_bytes sts ts R dd" for sts ts R dd
  by unfold_locales (rule dd_within_budget)

lemma fluent_shrink_result:
  assumes "loop (fluent_shrink n members) h = Some bs"
  shows "\<exists>k. bs = concat (take k members) \<and> length bs \<le> n"
  by (rule loop_invariant [OF assms, where I = "\<lambda>_. True"]) (auto simp: fluent_shrink_def Let_def split: if_splits)

lemma fluent_to_bytes_result:
  assumes "fluent_to_bytes to_vec R fl n s = Some (r, s')"
  shows "\<exists>ms k. r = Inr (concat (take k ms)) \<and> length (concat (take k ms)) \<le> n"
proof (cases "n < 16")
  case True
  then have "r = Inr (concat (take 0 []))" using assms by (simp add: fluent_to_bytes_def)
  then show ?thesis by (intro exI [of _ "[]"] exI [of _ 0]) simp
next
  case False
  then obtain ms bs where bs: "loop (fluent_shrink n ms) (length ms) = Some bs" "r = Inr bs"
    using assms by (auto simp: fluent_to_bytes_def split: bind_splits)
  from fluent_shrink_result [OF bs(1)] bs(2) show ?thesis by blast
qed

lemma fluent_within_budget: "fluent_to_bytes to_vec R fl n s = Some (Inr bs, s') \<Longrightarrow> length bs \<le> n"
  using fluent_to_bytes_result [of to_vec R fl n s "Inr bs" s'] by auto

interpretation fluent: bounded_serializer "fluent_to_bytes to_vec R fl" for to_vec R fl
  by unfold_locales (rule fluent_within_budget)

lemma ta_shrink_result:
  assumes "loop (ta_shrink encode ta n members) h = Some r"
  shows "\<forall>bs. r = Inr bs \<longrightarrow> (\<exists>k. encode (ta_encoding ta) (take k members) = Inr bs) \<and> length bs \<le> n"
  by (rule loop_invariant [OF assms, where I = "\<lambda>_. True"]) (auto simp: ta_shrink_def split: sum.splits if_splits)

lemma ta_to_bytes_result:
  assumes "ta_to_bytes encode cm R ta n s = Some (Inr bs, s')"
  shows "\<exists>ms. encode (ta_encoding ta) ms = Inr bs \<and> length bs \<le> n"
proof -
  from assms obtain ms where "loop (ta_shrink encode ta n ms) (length ms) = Some (Inr bs)"
    by (auto simp: ta_to_bytes_def split: bind_splits prod.splits sum.splits)
  from ta_shrink_result [OF this] show ?thesis by blast
qed

lemma ta_within_budget: "ta_to_bytes encode cm R ta n s = Some (Inr bs, s') \<Longrightarrow> length bs \<le> n"
  using ta_to_bytes_result [of encode cm R ta n s bs s'] by auto

interpretation trace_agent: bounded_serializer "ta_to_bytes encode cm R ta" for encode cm R ta
  by unfold_locales (rule ta_within_budget)

section \<open>Properties\<close>

text \<open>
  The Datadog payload never truncates a document: what it writes is nothing, or the JSON encoding
  of one or more whole members that fits the budget.
\<close>

theorem datadog_whole_documents:
  assumes "dd_to_bytes sts ts R dd max_bytes s = Some (Inr bs, s')"
  shows "length bs \<le> max_bytes \<and> (bs = [] \<or> (\<exists>ms. ms \<noteq> [] \<and> ts ms = Inr bs))"
proof (cases "max_bytes < 220")
  case True
  then show ?thesis using assms by (simp add: dd_to_bytes_def)
next
  case False
  then obtain ms where ms: "shrink_to_fit (\<lambda>high. ts (take high ms)) max_bytes (length ms) = Inr bs"
    using assms by (auto simp: dd_to_bytes_def Let_def split: prod.splits option.splits)
  from shrink_to_fit_cases [OF ms] show ?thesis
  proof
    assume "\<exists>k. 0 < k \<and> k \<le> length ms \<and> ts (take k ms) = Inr bs \<and> length bs \<le> max_bytes"
    then obtain k where "0 < k" "k \<le> length ms" "ts (take k ms) = Inr bs" "length bs \<le> max_bytes" by blast
    moreover from this have "take k ms \<noteq> []" by auto
    ultimately show ?thesis by blast
  qed simp
qed

theorem datadog_whole_documents_witness:
  "dd_to_bytes (\<lambda>_. ''x'') (\<lambda>ms. Inr ''[]'') counter_rng \<lparr>dd_pool = \<lparr>inner = []\<rparr>\<rparr> 100 0 = Some (Inr [], 0) \<and>
   length ([] :: string) \<le> 100 \<and>
   ([] = ([] :: string) \<or> (\<exists>ms :: dd_member list. ms \<noteq> [] \<and> (Inr ''[]'' :: payload_error + string) = Inr []))"
proof -
  have run: "dd_to_bytes (\<lambda>_. ''x'') (\<lambda>ms. Inr ''[]'') counter_rng \<lparr>dd_pool = \<lparr>inner = []\<rparr>\<rparr> 100 0 = Some (Inr [], 0)"
    by (simp add: dd_to_bytes_def)
  with datadog_whole_documents [OF run] show ?thesis by simp
qed

text \<open>
  The trace agent payload hangs on a zero budget. No encoding of a list of traces is empty, so
  with \<open>max_bytes\<close> 0, which the block cache may ask for, its last loop halves the number of
  members down to zero and then goes round for ever.
\<close>

theorem trace_agent_zero_budget_hangs:
  assumes "\<And>ms. \<exists>bs. encode (ta_encoding ta) ms = Inr bs \<and> bs \<noteq> []"
  shows "ta_to_bytes encode cm R ta 0 s = None"
proof (rule ccontr)
  assume "ta_to_bytes encode cm R ta 0 s \<noteq> None"
  then obtain r s' where run: "ta_to_bytes encode cm R ta 0 s = Some (r, s')" by auto
  have "r \<noteq> Inr bs" for bs
  proof
    assume "r = Inr bs"
    with ta_to_bytes_result [of encode cm R ta 0 s bs s'] run obtain ms where "encode (ta_encoding ta) ms = Inr bs" "bs = []" by auto
    with assms [of ms] show False by auto
  qed
  moreover have "\<exists>bs. r = Inr bs"
  proof -
    have no_error: "\<forall>e. g \<noteq> Inl e" if "loop (ta_grow encode cm R ta 0) st = Some (g, s'')" for st g s''
    proof -
      have "case (g, s'') of (g, _) \<Rightarrow> \<forall>e. g \<noteq> Inl e"
      proof (rule loop_invariant [OF that, where I = "\<lambda>_. True"])
        show "case q of (g, _) \<Rightarrow> \<forall>e. g \<noteq> Inl e" if "ta_grow encode cm R ta 0 st = Some (Break q)" for st q
          using that assms [of "fst st"] by (auto simp: ta_grow_def split: prod.splits sum.splits if_splits)
      qed simp_all
      then show ?thesis by simp
    qed
    have no_error': "\<forall>e. q \<noteq> Inl e" if "loop (ta_shrink encode ta 0 ms) h = Some q" for ms h q
    proof (rule loop_invariant [OF that, where I = "\<lambda>_. True"])
      show "\<forall>e. q \<noteq> Inl e" if "ta_shrink encode ta 0 ms h = Some (Break q)" for h q
        using that assms [of "take h ms"] by (auto simp: ta_shrink_def split: sum.splits if_splits)
    qed simp_all
    have "loop (ta_grow encode cm R ta 0) st \<noteq> Some (Inl e, s'')" for st e s'' using no_error by blast
    moreover have "loop (ta_shrink encode ta 0 ms) h \<noteq> Some (Inl e)" for ms h e using no_error' by blast
    ultimately show ?thesis
      using run by (cases r) (auto simp: ta_to_bytes_def split: bind_splits prod.splits sum.splits)
  qed
  ultimately show False by blast
qed

theorem trace_agent_zero_budget_hangs_witness:
  "ta_to_bytes (\<lambda>enc ms. Inr ''[]'') (\<lambda>xs n. State_Monad.return []) counter_rng
     \<lparr>ta_encoding = Trace_Json, ta_pool = \<lparr>inner = ''abc''\<rparr>\<rparr> 0 5 = None"
  by (rule trace_agent_zero_budget_hangs) simp

text \<open>A generator that never fails and whose value has a property, with a rule for each way the payloads compose.\<close>

definition delivers :: "('r, 'a option) state \<Rightarrow> ('a \<Rightarrow> bool) \<Rightarrow> bool" where
  "delivers m P \<longleftrightarrow> (\<forall>s. \<exists>x. fst (run_state m s) = Some x \<and> P x)"

lemma delivers_return: "P x \<Longrightarrow> delivers (State_Monad.return (Some x)) P"
  by (simp add: delivers_def)

lemma delivers_bind: "(\<And>x. delivers (f x) P) \<Longrightarrow> delivers (State_Monad.bind m f) P"
  by (simp add: delivers_def split: prod.splits)

lemma delivers_and_then: "delivers m Q \<Longrightarrow> (\<And>x. Q x \<Longrightarrow> delivers (f x) P) \<Longrightarrow> delivers (and_then m f) P"
proof -
  assume m: "delivers m Q" and f: "\<And>x. Q x \<Longrightarrow> delivers (f x) P"
  have "\<exists>x. fst (run_state (and_then m f) s) = Some x \<and> P x" for s
  proof (cases "run_state m s")
    case (Pair x s')
    moreover from Pair m obtain y where "x = Some y" "Q y" unfolding delivers_def by (metis fst_conv)
    ultimately show ?thesis using f [of y] by (simp add: and_then_def delivers_def)
  qed
  then show ?thesis by (simp add: delivers_def)
qed

lemma delivers_if: "delivers m P \<Longrightarrow> delivers m' P \<Longrightarrow> delivers (if b then m else m') P"
  by simp

text \<open>
  What a member of the payload must be: its tag has 1 to 15 characters; a message's record has the key
  \<open>message\<close>; a forward has 32 entries, each with the keys \<open>message\<close> and \<open>event\<close>.
\<close>

fun fluent_ok :: "fluent_member \<Rightarrow> bool" where
  "fluent_ok (Fluent_Message tag t rec) \<longleftrightarrow> 1 \<le> length tag \<and> length tag < 16 \<and> ''message'' \<in> fst ` set rec"
| "fluent_ok (Fluent_Forward tag es) \<longleftrightarrow>
     1 \<le> length tag \<and> length tag < 16 \<and> length es = 32 \<and> (\<forall>e \<in> set es. {''message'', ''event''} \<subseteq> fst ` set (fe_record e))"

lemma fluent_generate_delivers:
  assumes R: "rng_ok R" and pool: "16 \<le> length (inner (fl_pool fl))"
  shows "delivers (fluent_generate R fl) fluent_ok"
proof -
  let ?p = "fl_pool fl"
  have str: "delivers (of_size_range R ?p 1 16) (\<lambda>s. 1 \<le> length s \<and> length s < 16)"
    unfolding delivers_def using of_size_range_Some [OF R, of 1 16 ?p] pool by (metis fst_conv numeral_less_iff one_less_numeral_iff semiring_norm(76))
  have obj: "delivers (object_sample n R ?p obj) (\<lambda>_. True)" for n obj
    by (induction n arbitrary: obj) (auto intro: delivers_return delivers_and_then [OF str [unfolded One_nat_def]] delivers_bind)
  have val: "delivers (record_value R ?p) (\<lambda>_. True)"
    unfolding record_value_def by (intro delivers_bind delivers_if delivers_and_then [OF str] delivers_and_then [OF obj] delivers_return) simp_all
  have entries: "ks \<subseteq> fst ` set rec \<Longrightarrow> delivers (record_entries n R ?p rec) (\<lambda>rec. ks \<subseteq> fst ` set rec)" for ks n rec
  proof (induction n arbitrary: rec)
    case (Suc n)
    then show ?case
      by (simp only: record_entries.simps) (intro delivers_and_then [OF str] delivers_and_then [OF val] Suc.IH, auto simp: AList.dom_update)
  qed (simp add: delivers_return)
  have entry: "delivers (forward_entry R ?p) (\<lambda>e. {''message'', ''event''} \<subseteq> fst ` set (fe_record e))"
    unfolding forward_entry_def
    by (intro delivers_bind delivers_and_then [OF val] delivers_and_then [OF entries [of "{''message'', ''event''}"]] delivers_return) simp_all
  have forward: "delivers (forward_entries n R ?p) (\<lambda>es. length es = n \<and> (\<forall>e \<in> set es. {''message'', ''event''} \<subseteq> fst ` set (fe_record e)))" for n
  proof (induction n)
    case (Suc n)
    show ?case by (simp only: forward_entries.simps) (intro delivers_and_then [OF entry] delivers_and_then [OF Suc.IH] delivers_return, auto)
  qed (simp add: delivers_return)
  show ?thesis unfolding fluent_generate_def message_record_def
    by (intro delivers_bind delivers_if delivers_and_then [OF val] delivers_and_then [OF forward] delivers_and_then [OF str]
        delivers_and_then [where Q = "\<lambda>rec. {''message''} \<subseteq> fst ` set rec"] entries delivers_return) auto
qed

text \<open>The encodings of members, one after the other.\<close>

definition fluent_encoding :: "(fluent_member \<Rightarrow> Bytes option) \<Rightarrow> fluent_member list \<Rightarrow> Bytes" where
  "fluent_encoding to_vec ms = concat (map (\<lambda>m. the (to_vec m)) ms)"

lemma fluent_batch_total:
  assumes "delivers (fluent_generate R fl) fluent_ok" "\<And>m. \<exists>bs. to_vec m = Some bs \<and> bs \<noteq> []"
  shows "\<exists>ms s'. fluent_batch to_vec R fl s = Some (map (\<lambda>m. the (to_vec m)) ms, s') \<and> length ms = 10 \<and> (\<forall>m \<in> set ms. fluent_ok m)"
proof -
  obtain xs s' where run: "run_state (sample_many 10 (fluent_generate R fl)) s = (xs, s')" by force
  have "\<forall>x \<in> set xs. \<exists>m. x = Some m \<and> fluent_ok m"
    by (rule sample_many_all [OF _ run]) (metis assms(1) fst_conv delivers_def)
  then obtain f where f: "\<forall>x \<in> set xs. x = Some (f x) \<and> fluent_ok (f x)" by metis
  then have xs: "xs = map Some (map f xs)" by (induction xs) auto
  have "those (map Some ys) = Some ys" for ys :: "fluent_member list" by (induction ys) auto
  with xs have "those xs = Some (map f xs)" by metis
  moreover have "those (map to_vec ms) = Some (map (\<lambda>m. the (to_vec m)) ms)" for ms
  proof (induction ms)
    case (Cons m ms)
    obtain bs where "to_vec m = Some bs" using assms(2) by blast
    with Cons show ?case by simp
  qed simp
  ultimately show ?thesis using run f sample_many_length [OF run] by (intro exI [of _ "map f xs"] exI [of _ s']) (simp add: fluent_batch_def)
qed

text \<open>Too many members are found, after whole batches, and then the half, the quarter and so on until they fit.\<close>

lemma fluent_grow_total:
  assumes batch: "\<And>s. \<exists>ms s'. fluent_batch to_vec R fl s = Some (map (\<lambda>m. the (to_vec m)) ms, s') \<and> length ms = 10 \<and> (\<forall>m \<in> set ms. fluent_ok m)"
    and vec: "\<And>m. \<exists>bs. to_vec m = Some bs \<and> bs \<noteq> []" and ms: "\<forall>m \<in> set ms. fluent_ok m"
  shows "\<exists>r. loop (fluent_grow to_vec R fl n) (map (\<lambda>m. the (to_vec m)) ms, s) = Some r \<and>
    (\<exists>ms s'. r = (map (\<lambda>m. the (to_vec m)) ms, s') \<and> (\<forall>m \<in> set ms. fluent_ok m) \<and> n < length (fluent_encoding to_vec ms))"
proof (rule loop_total [where I = "\<lambda>(es, _). \<exists>ms. es = map (\<lambda>m. the (to_vec m)) ms \<and> (\<forall>m \<in> set ms. fluent_ok m)"
      and f = "\<lambda>(es, _). Suc n - length (concat es)"])
  have long: "length ms \<le> length (concat (map (\<lambda>m. the (to_vec m)) ms))" for ms
  proof (induction ms)
    case (Cons m ms)
    obtain bs where "to_vec m = Some bs" "bs \<noteq> []" using vec by blast
    then have "1 \<le> length (the (to_vec m))" by (simp add: Suc_le_eq)
    with Cons show ?case by simp
  qed simp
  fix st :: "Bytes list \<times> 'a"
  assume "case st of (es, _) \<Rightarrow> \<exists>ms. es = map (\<lambda>m. the (to_vec m)) ms \<and> (\<forall>m \<in> set ms. fluent_ok m)"
  then obtain ks s where st: "st = (map (\<lambda>m. the (to_vec m)) ks, s)" "\<forall>m \<in> set ks. fluent_ok m" by (cases st) auto
  from batch [of s] obtain ls s' where b: "fluent_batch to_vec R fl s = Some (map (\<lambda>m. the (to_vec m)) ls, s')" "length ls = 10" "\<forall>m \<in> set ls. fluent_ok m" by blast
  have all: "map (\<lambda>m. the (to_vec m)) ks @ map (\<lambda>m. the (to_vec m)) ls = map (\<lambda>m. the (to_vec m)) (ks @ ls)" "\<forall>m \<in> set (ks @ ls). fluent_ok m"
    using b(3) st(2) by auto
  show "(\<exists>r. fluent_grow to_vec R fl n st = Some (Break r) \<and>
      (\<exists>ms s'. r = (map (\<lambda>m. the (to_vec m)) ms, s') \<and> (\<forall>m \<in> set ms. fluent_ok m) \<and> n < length (fluent_encoding to_vec ms))) \<or>
    (\<exists>st'. fluent_grow to_vec R fl n st = Some (Again st') \<and>
      (case st' of (es, _) \<Rightarrow> \<exists>ms. es = map (\<lambda>m. the (to_vec m)) ms \<and> (\<forall>m \<in> set ms. fluent_ok m)) \<and>
      (case st' of (es, _) \<Rightarrow> Suc n - length (concat es)) < (case st of (es, _) \<Rightarrow> Suc n - length (concat es)))"
  proof (cases "n < length (concat (map (\<lambda>m. the (to_vec m)) ks))")
    case True
    with st show ?thesis by (auto simp: fluent_grow_def fluent_encoding_def)
  next
    case False
    have "fluent_grow to_vec R fl n st = Some (Again (map (\<lambda>m. the (to_vec m)) (ks @ ls), s'))"
      using False st(1) b(1) all(1) by (simp add: fluent_grow_def)
    with False st(1) b(2) long [of ls] all(2) show ?thesis
      by (intro disjI2 exI [of _ "(map (\<lambda>m. the (to_vec m)) (ks @ ls), s')"]) (auto intro!: exI [of _ "ks @ ls"])
  qed
qed (use ms in auto)

lemma fluent_shrink_halves:
  "\<exists>bs. loop (fluent_shrink n es) (length es) = Some bs \<and>
     (\<exists>j. bs = concat (take (length es div 2 ^ j) es) \<and> length bs \<le> n \<and> (\<forall>i < j. n < length (concat (take (length es div 2 ^ i) es))))"
proof (rule loop_total [where f = "\<lambda>h. h"
      and I = "\<lambda>h. \<exists>j. h = length es div 2 ^ j \<and> (\<forall>i < j. n < length (concat (take (length es div 2 ^ i) es)))"])
  fix h
  assume "\<exists>j. h = length es div 2 ^ j \<and> (\<forall>i < j. n < length (concat (take (length es div 2 ^ i) es)))"
  then obtain j where j: "h = length es div 2 ^ j" "\<forall>i < j. n < length (concat (take (length es div 2 ^ i) es))" by blast
  show "(\<exists>bs. fluent_shrink n es h = Some (Break bs) \<and>
      (\<exists>j. bs = concat (take (length es div 2 ^ j) es) \<and> length bs \<le> n \<and> (\<forall>i < j. n < length (concat (take (length es div 2 ^ i) es))))) \<or>
    (\<exists>h'. fluent_shrink n es h = Some (Again h') \<and>
      (\<exists>j. h' = length es div 2 ^ j \<and> (\<forall>i < j. n < length (concat (take (length es div 2 ^ i) es)))) \<and> h' < h)"
  proof (cases "n < length (concat (take h es))")
    case True
    then have "h \<noteq> 0" by (cases h) auto
    moreover have "h div 2 = length es div 2 ^ Suc j" by (simp add: j(1) mult.commute flip: div_mult2_eq)
    moreover have "\<forall>i < Suc j. n < length (concat (take (length es div 2 ^ i) es))" using j True by (auto simp: less_Suc_eq)
    ultimately show ?thesis using True by (intro disjI2 exI [of _ "h div 2"] conjI exI [of _ "Suc j"]) (auto simp: fluent_shrink_def Let_def)
  next
    case False
    with j show ?thesis by (intro disjI1 exI [of _ "concat (take h es)"]) (auto simp: fluent_shrink_def Let_def)
  qed
qed (auto intro: exI [of _ 0])

text \<open>
  C24. The Fluent payload is always written, and it is whole members. Whatever the random numbers and
  whatever the budget, a payload made by \<open>Fluent::new\<close> generates every member it asks for (with a tag
  of 1 to 15 characters, a message's record with the key \<open>message\<close>, a forward of 32 entries with the keys
  \<open>message\<close> and \<open>event\<close>), its search for too many members ends because each encoding has at least one byte,
  and its search for a fitting prefix ends because the prefix is halved. What is written are
  the encodings of the first members, whole and in order, within the budget: of more members than fit the
  first half, quarter and so on that does; nothing for a budget below 16. The encoder must only return
  some bytes for every member.
\<close>

theorem fluent_payload_returns:
  assumes "rng_ok R" "run_state (fluent_new R) s0 = (fl, s1)" "\<And>m. \<exists>bs. to_vec m = Some bs \<and> bs \<noteq> []"
  shows "\<exists>ms j s'. fluent_to_bytes to_vec R fl max_bytes s = Some (Inr (fluent_encoding to_vec (take (length ms div 2 ^ j) ms)), s') \<and>
    (\<forall>m \<in> set ms. fluent_ok m) \<and> length (fluent_encoding to_vec (take (length ms div 2 ^ j) ms)) \<le> max_bytes \<and>
    (if max_bytes < 16 then ms = []
     else max_bytes < length (fluent_encoding to_vec ms) \<and> (\<forall>i < j. max_bytes < length (fluent_encoding to_vec (take (length ms div 2 ^ i) ms))))"
proof (cases "max_bytes < 16")
  case True
  then show ?thesis by (intro exI [of _ "[]"]) (simp add: fluent_to_bytes_def fluent_encoding_def)
next
  case False
  let ?enc = "map (\<lambda>m. the (to_vec m))"
  have "length (inner (fl_pool fl)) = 1000000"
    using assms(2) with_size_pool by (fastforce simp: fluent_new_def Let_def split: prod.splits)
  then have "delivers (fluent_generate R fl) fluent_ok" using fluent_generate_delivers [OF assms(1)] by simp
  note batch = fluent_batch_total [where to_vec = to_vec, OF this assms(3)]
  obtain es s2 where e: "fluent_batch to_vec R fl s = Some (?enc es, s2)" "\<forall>m \<in> set es. fluent_ok m" using batch by blast
  obtain ms s3 where g: "loop (fluent_grow to_vec R fl max_bytes) (?enc es, s2) = Some (?enc ms, s3)" "\<forall>m \<in> set ms. fluent_ok m"
    "max_bytes < length (fluent_encoding to_vec ms)"
    using fluent_grow_total [OF batch assms(3) e(2), of max_bytes s2] by blast
  have take: "concat (take k (?enc ms)) = fluent_encoding to_vec (take k ms)" for k by (simp add: fluent_encoding_def take_map)
  obtain j where j: "loop (fluent_shrink max_bytes (?enc ms)) (length (?enc ms)) = Some (fluent_encoding to_vec (take (length ms div 2 ^ j) ms))"
    "length (fluent_encoding to_vec (take (length ms div 2 ^ j) ms)) \<le> max_bytes"
    "\<forall>i < j. max_bytes < length (fluent_encoding to_vec (take (length ms div 2 ^ i) ms))"
    using fluent_shrink_halves [of max_bytes "?enc ms"] unfolding take length_map by blast
  with False e(1) g show ?thesis by (intro exI [of _ ms] exI [of _ j] exI [of _ s3]) (simp add: fluent_to_bytes_def)
qed

theorem fluent_payload_returns_witness:
  "\<exists>k s'. fluent_to_bytes (\<lambda>m. Some ''m'') counter_rng (fst (run_state (fluent_new counter_rng) 0)) 100 7 = Some (Inr (replicate k CHR ''m''), s') \<and> k \<le> 100"
proof -
  have enc: "fluent_encoding (\<lambda>m. Some ''m'') ms = replicate (length ms) CHR ''m''" for ms by (induction ms) (simp_all add: fluent_encoding_def)
  have "\<exists>ms j s'. fluent_to_bytes (\<lambda>m. Some ''m'') counter_rng (fst (run_state (fluent_new counter_rng) 0)) 100 7 =
      Some (Inr (fluent_encoding (\<lambda>m. Some ''m'') (take (length ms div 2 ^ j) ms)), s') \<and>
      (\<forall>m \<in> set ms. fluent_ok m) \<and> length (fluent_encoding (\<lambda>m. Some ''m'') (take (length ms div 2 ^ j) ms)) \<le> 100 \<and>
      (if (100 :: nat) < 16 then ms = []
       else 100 < length (fluent_encoding (\<lambda>m. Some ''m'') ms) \<and> (\<forall>i < j. 100 < length (fluent_encoding (\<lambda>m. Some ''m'') (take (length ms div 2 ^ i) ms))))"
    by (rule fluent_payload_returns [OF counter_rng_ok prod.collapse [symmetric]]) simp
  then show ?thesis unfolding enc by (metis length_replicate)
qed

end
