(* ===== verification/Payload_Otel.thy ===== *)
theory Payload_Otel
  imports Payload
begin

text \<open>
  The OpenTelemetry payloads: \<^verbatim>\<open>opentelemetry_trace.rs\<close>, \<^verbatim>\<open>opentelemetry_log.rs\<close> and
  \<^verbatim>\<open>opentelemetry_metric.rs\<close> of \<^verbatim>\<open>lading_payload/src\<close>. The three share their way of filling a
  budget: reserve room for the envelope, then add members while their encoded length plus a
  guessed two bytes fits. The Protocol Buffers encoder is an argument. A field that the code
  always leaves empty or zero (attributes, events, links, exemplars, flags and the dropped
  counts) is encoded as nothing and has no field in the records.
\<close>

section \<open>Members\<close>

record otel_span =
  os_trace_id :: "nat list"
  os_span_id :: "nat list"
  os_trace_state :: string
  os_parent_span_id :: "nat list"
  os_name :: string
  os_kind :: nat
  os_start_time_unix_nano :: nat
  os_end_time_unix_nano :: nat

record OpentelemetryTraces =
  ot_pool :: Pool

definition otel_traces_new :: "'r rng \<Rightarrow> ('r, OpentelemetryTraces) state" where
  "otel_traces_new R = do { pool \<leftarrow> with_size R 1000000; State_Monad.return \<lparr>ot_pool = pool\<rparr> }"

definition span_generate :: "'r rng \<Rightarrow> OpentelemetryTraces \<Rightarrow> ('r, payload_error + otel_span) state" where
  "span_generate R t = do {
     trace_id \<leftarrow> sample_many 16 (sample_bits R 8);
     span_id \<leftarrow> sample_many 8 (sample_bits R 8);
     start_time \<leftarrow> sample_bits R 64;
     end_time \<leftarrow> sample_range R start_time (2 ^ 64);
     name \<leftarrow> of_size_range R (ot_pool t) 1 16;
     case name of
       None \<Rightarrow> State_Monad.return (Inl Error_StringGenerate)
     | Some name \<Rightarrow> do {
         kind \<leftarrow> sample_range R 0 6;
         State_Monad.return (Inr
           \<lparr>os_trace_id = trace_id, os_span_id = span_id, os_trace_state = [], os_parent_span_id = replicate 8 0, os_name = name,
            os_kind = kind, os_start_time_unix_nano = start_time, os_end_time_unix_nano = end_time\<rparr>)
       }
   }"

record otel_log =
  ol_time_unix_nano :: nat
  ol_observed_time_unix_nano :: nat
  ol_severity_number :: nat
  ol_severity_text :: string
  ol_body :: string

record OpentelemetryLogs =
  ol_pool :: Pool

definition otel_logs_new :: "'r rng \<Rightarrow> ('r, OpentelemetryLogs) state" where
  "otel_logs_new R = do { pool \<leftarrow> with_size R 1000000; State_Monad.return \<lparr>ol_pool = pool\<rparr> }"

definition log_generate :: "'r rng \<Rightarrow> OpentelemetryLogs \<Rightarrow> ('r, payload_error + otel_log) state" where
  "log_generate R t = do {
     body \<leftarrow> of_size_range R (ol_pool t) 1 16;
     case body of
       None \<Rightarrow> State_Monad.return (Inl Error_StringGenerate)
     | Some body \<Rightarrow> do {
         time \<leftarrow> sample_bits R 64;
         observed \<leftarrow> sample_bits R 64;
         severity \<leftarrow> sample_range R 1 25;
         State_Monad.return (Inr
           \<lparr>ol_time_unix_nano = time, ol_observed_time_unix_nano = observed, ol_severity_number = severity,
            ol_severity_text = [], ol_body = body\<rparr>)
       }
   }"

text \<open>A double is sampled as a multiple of \<open>2 ^ - 53\<close>; an integer by its 64 bits.\<close>

datatype data_value = AsDouble nat | AsInt nat

record NumberDataPoint =
  dp_start_time_unix_nano :: nat
  dp_time_unix_nano :: nat
  dp_value :: data_value

definition data_point_sample :: "'r rng \<Rightarrow> ('r, NumberDataPoint) state" where
  "data_point_sample R = do {
     k \<leftarrow> sample_range R 0 2;
     v \<leftarrow> (if k = 0 then do { x \<leftarrow> sample_bits R 53; State_Monad.return (AsDouble x) }
           else do { x \<leftarrow> sample_bits R 64; State_Monad.return (AsInt x) });
     start_time \<leftarrow> sample_bits R 64;
     time \<leftarrow> sample_bits R 64;
     State_Monad.return \<lparr>dp_start_time_unix_nano = start_time, dp_time_unix_nano = time, dp_value = v\<rparr>
   }"

datatype metric_data =
    Data_Gauge "NumberDataPoint list"
  | Data_Sum "NumberDataPoint list" nat bool

definition gauge_sample :: "'r rng \<Rightarrow> ('r, metric_data) state" where
  "gauge_sample R = do {
     n \<leftarrow> sample_range R 0 64;
     points \<leftarrow> sample_many n (data_point_sample R);
     State_Monad.return (Data_Gauge points)
   }"

definition sum_sample :: "'r rng \<Rightarrow> ('r, metric_data) state" where
  "sum_sample R = do {
     temporality \<leftarrow> sample_pick R [1, 2];
     monotonic \<leftarrow> sample_bits R 1;
     n \<leftarrow> sample_range R 0 64;
     points \<leftarrow> sample_many n (data_point_sample R);
     State_Monad.return (Data_Sum points temporality (monotonic = 1))
   }"

record otel_metric =
  om_name :: string
  om_description :: string
  om_unit :: string
  om_data :: metric_data

record OpentelemetryMetrics =
  om_pool :: Pool

definition otel_metrics_new :: "'r rng \<Rightarrow> ('r, OpentelemetryMetrics) state" where
  "otel_metrics_new R = do { pool \<leftarrow> with_size R 1000000; State_Monad.return \<lparr>om_pool = pool\<rparr> }"

definition otel_metric_generate :: "'r rng \<Rightarrow> OpentelemetryMetrics \<Rightarrow> ('r, payload_error + otel_metric) state" where
  "otel_metric_generate R t = do {
     k \<leftarrow> sample_range R 0 2;
     data \<leftarrow> (if k = 0 then gauge_sample R else sum_sample R);
     name \<leftarrow> of_size_range R (om_pool t) 1 16;
     case name of
       None \<Rightarrow> State_Monad.return (Inl Error_StringGenerate)
     | Some name \<Rightarrow> do {
         description \<leftarrow> of_size_range R (om_pool t) 1 16;
         case description of
           None \<Rightarrow> State_Monad.return (Inl Error_StringGenerate)
         | Some description \<Rightarrow> do {
             u \<leftarrow> of_size_range R (om_pool t) 1 16;
             case u of
               None \<Rightarrow> State_Monad.return (Inl Error_StringGenerate)
             | Some u \<Rightarrow>
                 State_Monad.return (Inr \<lparr>om_name = name, om_description = description, om_unit = u, om_data = data\<rparr>)
           }
       }
   }"

section \<open>Filling a request\<close>

definition div_ceil :: "nat \<Rightarrow> nat \<Rightarrow> nat" where
  "div_ceil a b = (a + (b - 1)) div b"

function otel_fill ::
    "('r, payload_error + 'm) state \<Rightarrow> ('m \<Rightarrow> nat) \<Rightarrow> nat \<Rightarrow> 'm list \<Rightarrow> 'r \<Rightarrow> (payload_error + 'm list) \<times> 'r" where
  "otel_fill gen encoded_len bytes_remaining acc s =
     (case run_state gen s of
        (Inl e, s) \<Rightarrow> (Inl e, s)
      | (Inr member, s) \<Rightarrow>
          (case checked_sub bytes_remaining (encoded_len member + 2) of
             Some remainder \<Rightarrow> otel_fill gen encoded_len remainder (acc @ [member]) s
           | None \<Rightarrow> (Inr acc, s)))"
  by pat_completeness auto
termination
  by (relation "measure (\<lambda>(g, e, n, acc, s). n)") (auto simp: checked_sub_def split: if_splits)

declare otel_fill.simps [simp del]

definition otel_to_bytes ::
    "('r, payload_error + 'm) state \<Rightarrow> ('m \<Rightarrow> nat) \<Rightarrow> ('m list \<Rightarrow> Bytes) \<Rightarrow> (payload_error, 'r) serializer" where
  "otel_to_bytes gen encoded_len encode max_bytes s =
     (case checked_sub max_bytes (5 + div_ceil max_bytes 127) of
        None \<Rightarrow> Some (Inr [], s)
      | Some bytes_remaining \<Rightarrow>
          (case otel_fill gen encoded_len bytes_remaining [] s of
             (Inl e, s) \<Rightarrow> Some (Inl e, s)
           | (Inr acc, s) \<Rightarrow> Some (Inr (encode acc), s)))"

definition otel_traces_to_bytes ::
    "(otel_span \<Rightarrow> nat) \<Rightarrow> (otel_span list \<Rightarrow> Bytes) \<Rightarrow> 'r rng \<Rightarrow> OpentelemetryTraces \<Rightarrow> (payload_error, 'r) serializer" where
  "otel_traces_to_bytes encoded_len encode R t = otel_to_bytes (span_generate R t) encoded_len encode"

definition otel_logs_to_bytes ::
    "(otel_log \<Rightarrow> nat) \<Rightarrow> (otel_log list \<Rightarrow> Bytes) \<Rightarrow> 'r rng \<Rightarrow> OpentelemetryLogs \<Rightarrow> (payload_error, 'r) serializer" where
  "otel_logs_to_bytes encoded_len encode R t = otel_to_bytes (log_generate R t) encoded_len encode"

definition otel_metrics_to_bytes ::
    "(otel_metric \<Rightarrow> nat) \<Rightarrow> (otel_metric list \<Rightarrow> Bytes) \<Rightarrow> 'r rng \<Rightarrow> OpentelemetryMetrics \<Rightarrow> (payload_error, 'r) serializer" where
  "otel_metrics_to_bytes encoded_len encode R t = otel_to_bytes (otel_metric_generate R t) encoded_len encode"

section \<open>The Protocol Buffers wire format\<close>

text \<open>
  What the format documents: a length is a varint of seven bits per byte, and a nested message
  of field number below 16 is a tag byte, its length and its bytes. A request nests its members
  in one library entry of one resource entry.
\<close>

fun varint_len :: "nat \<Rightarrow> nat" where
  "varint_len n = (if n < 128 then 1 else 1 + varint_len (n div 128))"

declare varint_len.simps [simp del]

definition delimited_len :: "nat \<Rightarrow> nat" where
  "delimited_len n = 1 + varint_len n + n"

definition wire_ok :: "('m \<Rightarrow> nat) \<Rightarrow> ('m list \<Rightarrow> Bytes) \<Rightarrow> bool" where
  "wire_ok encoded_len encode \<longleftrightarrow>
     (\<forall>ms. length (encode ms) = delimited_len (delimited_len (sum_list (map (\<lambda>m. delimited_len (encoded_len m)) ms))))"

lemma varint_len_pos: "1 \<le> varint_len n"
  by (subst varint_len.simps) simp

lemma varint_len_lower: "128 ^ (varint_len n - 1) \<le> max n 1"
proof (induction n rule: varint_len.induct)
  case (1 n)
  show ?case
  proof (cases "n < 128")
    case False
    then have "128 ^ (varint_len (n div 128) - 1) \<le> n div 128" using 1 by (simp add: max_def split: if_splits)
    moreover have "varint_len n = Suc (Suc (varint_len (n div 128) - 1))"
      using False varint_len_pos [of "n div 128"] by (subst varint_len.simps) simp
    ultimately show ?thesis by (auto simp: max_def)
  qed (simp add: varint_len.simps)
qed

lemma varint_len_mono: "a \<le> b \<Longrightarrow> varint_len a \<le> varint_len b"
proof (induction a arbitrary: b rule: varint_len.induct)
  case (1 a)
  show ?case
  proof (cases "a < 128")
    case True
    then show ?thesis using varint_len_pos [of b] by (simp add: varint_len.simps)
  next
    case False
    with "1.IH" [OF False, of "b div 128"] "1.prems" show ?thesis
      by (simp add: div_le_mono varint_len.simps [of a] varint_len.simps [of b])
  qed
qed

text \<open>The guessed two bytes are one short for a member of 128 bytes or more; each such shortfall is paid for.\<close>

lemma power_paid: "1 \<le> k \<Longrightarrow> 130 * k \<le> 128 ^ k + (2 :: nat)"
proof (induction k rule: nat_induct_at_least)
  case (Suc k)
  have "(128 :: nat) \<le> 128 ^ k" using Suc.hyps self_le_power [of "128 :: nat" k] by simp
  with Suc show ?case by simp
qed simp

lemma varint_len_paid: "130 * (varint_len n - 1) \<le> n + 2"
proof (cases "n < 128")
  case False
  let ?k = "varint_len n - 1"
  have k: "128 ^ ?k \<le> n" using varint_len_lower [of n] False by simp
  have "1 \<le> ?k" using False varint_len_pos [of "n div 128"] by (subst varint_len.simps) simp
  from power_paid [OF this] have "130 * ?k \<le> 128 ^ ?k + 2" .
  with k show ?thesis by linarith
qed (simp add: varint_len.simps)


lemma power_large: "3 \<le> k \<Longrightarrow> 524288 * (k + 1) \<le> (128 :: nat) ^ k"
  by (induction k rule: nat_induct_at_least) simp_all

text \<open>The envelope: with the members' overhead paid, the reserve covers the two outer lengths.\<close>

lemma envelope_fits:
  fixes S E C M :: nat
  assumes C: "M \<le> 127 * C" and budget: "S + 5 + C \<le> M" and paid: "130 * E \<le> S"
  shows "delimited_len (delimited_len (S + E)) \<le> M"
proof -
  let ?T = "S + E" and ?v = "varint_len (S + E)"
  let ?L = "1 + ?v + ?T"
  let ?w = "varint_len ?L"
  have vw: "?v \<le> ?w" by (rule varint_len_mono) simp
  have C': "S + 5 \<le> 126 * C" using C budget by linarith
  have low: "128 ^ (?w - 1) \<le> max ?L 1" by (rule varint_len_lower)
  have goal: "E + ?v + ?w \<le> 3 + C"
  proof -
    consider "?w = 1" | "?w = 2" | "?w = 3" | "4 \<le> ?w" using varint_len_pos [of ?L] by linarith
    then show ?thesis
    proof cases
      case 1
      then show ?thesis using vw varint_len_pos [of ?T] C' paid by linarith
    next
      case 2
      then show ?thesis using vw C' paid by linarith
    next
      case 3
      then have "16384 \<le> ?L" using low by simp
      then show ?thesis using 3 vw C' paid by linarith
    next
      case 4
      then have "524288 * (?w - 1 + 1) \<le> 128 ^ (?w - 1)" by (intro power_large) simp
      then have "524288 * ?w \<le> ?L" using 4 low by simp
      then show ?thesis using 4 vw C' paid by linarith
    qed
  qed
  then show ?thesis using budget by (simp add: delimited_len_def)
qed

lemma members_overhead:
  "sum_list (map (\<lambda>m. delimited_len (f m)) ms) =
   sum_list (map (\<lambda>m. f m + 2) ms) + sum_list (map (\<lambda>m. varint_len (f m) - 1) ms)"
proof (induction ms)
  case (Cons m ms)
  then show ?case using varint_len_pos [of "f m"] by (simp add: delimited_len_def)
qed simp

lemma members_paid: "130 * sum_list (map (\<lambda>m. varint_len (f m) - 1) ms) \<le> sum_list (map (\<lambda>m. f m + 2) ms)"
proof (induction ms)
  case (Cons m ms)
  then show ?case using varint_len_paid [of "f m"] by simp
qed simp

lemma otel_fill_budget:
  "otel_fill gen encoded_len n acc s = (Inr ms, s') \<Longrightarrow>
   \<exists>new. ms = acc @ new \<and> sum_list (map (\<lambda>m. encoded_len m + 2) new) \<le> n"
proof (induction gen encoded_len n acc s arbitrary: ms s' rule: otel_fill.induct)
  case (1 gen encoded_len n acc s)
  from "1.prems" obtain m s1 where m: "run_state gen s = (Inr m, s1)"
    by (subst (asm) otel_fill.simps) (auto split: prod.splits sum.splits)
  show ?case
  proof (cases "encoded_len m + 2 \<le> n")
    case True
    then have sub: "checked_sub n (encoded_len m + 2) = Some (n - (encoded_len m + 2))" by (simp add: checked_sub_def)
    from "1.prems" m sub have "otel_fill gen encoded_len (n - (encoded_len m + 2)) (acc @ [m]) s1 = (Inr ms, s')"
      by (subst (asm) otel_fill.simps) simp
    from "1.IH" [OF m [symmetric] _ sub this] True show ?thesis by auto
  next
    case False
    with "1.prems" m show ?thesis by (subst (asm) otel_fill.simps) (auto simp: checked_sub_def)
  qed
qed

lemma otel_within_budget:
  assumes "wire_ok encoded_len encode" "otel_to_bytes gen encoded_len encode max_bytes s = Some (Inr bs, s')"
  shows "length bs \<le> max_bytes"
proof (cases "checked_sub max_bytes (5 + div_ceil max_bytes 127)")
  case None
  with assms(2) show ?thesis by (simp add: otel_to_bytes_def)
next
  case (Some n)
  then have n: "5 + div_ceil max_bytes 127 \<le> max_bytes" "n = max_bytes - (5 + div_ceil max_bytes 127)"
    by (simp_all add: checked_sub_Some_iff)
  from assms(2) Some obtain ms where f: "otel_fill gen encoded_len n [] s = (Inr ms, s')" and bs: "bs = encode ms"
    by (auto simp: otel_to_bytes_def split: prod.splits sum.splits)
  from otel_fill_budget [OF f] have "sum_list (map (\<lambda>m. encoded_len m + 2) ms) \<le> n" by simp
  moreover have "max_bytes \<le> 127 * div_ceil max_bytes 127" by (simp add: div_ceil_def)
  ultimately show ?thesis
    using envelope_fits [of max_bytes "div_ceil max_bytes 127", OF _ _ members_paid [of encoded_len ms]] n assms(1) bs
    by (simp add: wire_ok_def members_overhead)
qed

section \<open>The encoder's contract\<close>

text \<open>
  An encoder of the wire format makes a serializer that keeps its budget, whatever the members.
  The contract holds of the wire format itself over any encoding of the members.
\<close>

locale otlp_encoder =
  fixes encoded_len :: "'m \<Rightarrow> nat" and encode :: "'m list \<Rightarrow> Bytes"
  assumes wire: "wire_ok encoded_len encode"

sublocale otlp_encoder \<subseteq> bounded_serializer "otel_to_bytes gen encoded_len encode" for gen
  by unfold_locales (rule otel_within_budget [OF wire])

fun varint :: "nat \<Rightarrow> Bytes" where
  "varint n = (if n < 128 then [char_of n] else char_of (128 + n mod 128) # varint (n div 128))"

declare varint.simps [simp del]

definition delimited :: "nat \<Rightarrow> Bytes \<Rightarrow> Bytes" where
  "delimited field_number bs = char_of (8 * field_number + 2) # varint (length bs) @ bs"

definition export_request :: "('m \<Rightarrow> Bytes) \<Rightarrow> 'm list \<Rightarrow> Bytes" where
  "export_request enc ms = delimited 1 (delimited 2 (concat (map (\<lambda>m. delimited 2 (enc m)) ms)))"

lemma length_varint [simp]: "length (varint n) = varint_len n"
  by (induction n rule: varint.induct) (simp add: varint.simps varint_len.simps)

lemma length_delimited [simp]: "length (delimited k bs) = delimited_len (length bs)"
  by (simp add: delimited_def delimited_len_def)

lemma export_request_wire: "wire_ok (\<lambda>m. length (enc m)) (export_request enc)"
  by (simp add: wire_ok_def export_request_def length_concat comp_def)

interpretation otlp: otlp_encoder "\<lambda>m. length (enc m)" "export_request enc" for enc
  by unfold_locales (rule export_request_wire)

section \<open>Properties\<close>

definition span_ok :: "otel_span \<Rightarrow> bool" where
  "span_ok m \<longleftrightarrow>
     length (os_trace_id m) = 16 \<and> length (os_span_id m) = 8 \<and> os_start_time_unix_nano m \<le> os_end_time_unix_nano m \<and>
     os_end_time_unix_nano m < 2 ^ 64 \<and> os_kind m \<le> 5 \<and> os_name m \<noteq> []"

definition log_ok :: "otel_log \<Rightarrow> bool" where
  "log_ok m \<longleftrightarrow> 1 \<le> ol_severity_number m \<and> ol_severity_number m \<le> 24 \<and> ol_body m \<noteq> []"

definition otel_metric_ok :: "otel_metric \<Rightarrow> bool" where
  "otel_metric_ok m \<longleftrightarrow>
     om_name m \<noteq> [] \<and> om_unit m \<noteq> [] \<and>
     (case om_data m of
        Data_Gauge points \<Rightarrow> length points < 64
      | Data_Sum points temporality monotonic \<Rightarrow> length points < 64 \<and> temporality \<in> {1, 2})"

lemma otel_fill_all:
  assumes "\<And>s. \<exists>m s'. run_state gen s = (Inr m, s') \<and> P m"
  shows "\<exists>ms s'. otel_fill gen encoded_len n acc s = (Inr (acc @ ms), s') \<and> (\<forall>m \<in> set ms. P m)"
proof (induction n arbitrary: acc s rule: less_induct)
  case (less n)
  obtain m s1 where m: "run_state gen s = (Inr m, s1)" "P m" using assms by blast
  show ?case
  proof (cases "encoded_len m + 2 \<le> n")
    case True
    with less.IH [of "n - (encoded_len m + 2)" "acc @ [m]" s1] obtain ms s' where
      "otel_fill gen encoded_len (n - (encoded_len m + 2)) (acc @ [m]) s1 = (Inr ((acc @ [m]) @ ms), s')" "\<forall>m \<in> set ms. P m"
      by (auto simp del: append_assoc)
    with m True show ?thesis
      by (subst otel_fill.simps) (auto simp: checked_sub_def intro!: exI [of _ "m # ms"])
  next
    case False
    with m show ?thesis by (subst otel_fill.simps) (simp add: checked_sub_def)
  qed
qed

lemma otel_to_bytes_all:
  assumes "wire_ok encoded_len encode" "\<And>s. \<exists>m s'. run_state gen s = (Inr m, s') \<and> P m"
  shows "\<exists>bs s'. otel_to_bytes gen encoded_len encode n s = Some (Inr bs, s') \<and> length bs \<le> n \<and>
    (bs = [] \<or> (\<exists>ms. bs = encode ms \<and> (\<forall>m \<in> set ms. P m)))"
proof -
  obtain bs s' where "otel_to_bytes gen encoded_len encode n s = Some (Inr bs, s')"
    "bs = [] \<or> (\<exists>ms. bs = encode ms \<and> (\<forall>m \<in> set ms. P m))"
  proof (cases "checked_sub n (5 + div_ceil n 127)")
    case (Some k)
    from otel_fill_all [of gen P, OF assms(2), of encoded_len k "[]" s] obtain ms s' where
      "otel_fill gen encoded_len k [] s = (Inr ms, s')" "\<forall>m \<in> set ms. P m" by auto
    with Some show ?thesis using that by (auto simp: otel_to_bytes_def)
  qed (use that in \<open>simp add: otel_to_bytes_def\<close>)
  with otel_within_budget [OF assms(1) this(1)] show ?thesis by simp
qed

lemma span_generate_ok:
  assumes R: "rng_ok R" and pool: "16 \<le> length (inner (ot_pool t))"
  shows "\<exists>m s'. run_state (span_generate R t) s = (Inr m, s') \<and> span_ok m"
proof -
  obtain ti s1 where ti: "run_state (sample_many 16 (sample_bits R 8)) s = (ti, s1)" by force
  obtain si s2 where si: "run_state (sample_many 8 (sample_bits R 8)) s1 = (si, s2)" by force
  obtain st s3 where st: "gen_bits R 64 s2 = (st, s3)" by force
  obtain en s4 where en: "gen_range R st (2 ^ 64) s3 = (en, s4)" by force
  obtain str s5 where str: "run_state (of_size_range R (ot_pool t) 1 16) s4 = (Some str, s5)" "1 \<le> length str"
    by (rule of_size_range_Some [OF R _ pool, of 1]) simp_all
  obtain k s6 where k: "gen_range R 0 6 s5 = (k, s6)" by force
  have "st \<le> en" "en < 2 ^ 64" using gen_range_bounds [OF R _ en] gen_bits_bound [OF R st] by auto
  moreover have "k < 6" using gen_range_bounds [OF R _ k] by simp
  moreover have "length ti = 16" by (rule sample_many_length [OF ti])
  moreover have "length si = 8" by (rule sample_many_length [OF si])
  moreover have "str \<noteq> []" using str(2) by auto
  ultimately show ?thesis
    using ti si st en str(1) k by (simp add: span_generate_def span_ok_def Let_def)
qed

lemma log_generate_ok:
  assumes R: "rng_ok R" and pool: "16 \<le> length (inner (ol_pool t))"
  shows "\<exists>m s'. run_state (log_generate R t) s = (Inr m, s') \<and> log_ok m"
proof -
  obtain str s1 where str: "run_state (of_size_range R (ol_pool t) 1 16) s = (Some str, s1)" "1 \<le> length str"
    by (rule of_size_range_Some [OF R _ pool, of 1]) simp_all
  obtain a s2 where a: "gen_bits R 64 s1 = (a, s2)" by force
  obtain b s3 where b: "gen_bits R 64 s2 = (b, s3)" by force
  obtain k s4 where k: "gen_range R 1 25 s3 = (k, s4)" by force
  have "1 \<le> k" "k < 25" using gen_range_bounds [OF R _ k] by simp_all
  moreover have "str \<noteq> []" using str(2) by auto
  ultimately show ?thesis using str(1) a b k by (simp add: log_generate_def log_ok_def Let_def)
qed

lemma gauge_sample_ok: "rng_ok R \<Longrightarrow> \<exists>ps. fst (run_state (gauge_sample R) s) = Data_Gauge ps \<and> length ps < 64"
  using gen_range_bounds [of R 0 64 s] sample_many_length
  by (fastforce simp: gauge_sample_def Let_def split: prod.splits)

lemma sum_sample_ok:
  assumes R: "rng_ok R"
  shows "\<exists>ps t m. fst (run_state (sum_sample R) s) = Data_Sum ps t m \<and> length ps < 64 \<and> t \<in> {1, 2}"
proof -
  obtain t s1 where t: "run_state (sample_pick R [1, 2 :: nat]) s = (t, s1)" by force
  obtain m s2 where m: "gen_bits R 1 s1 = (m, s2)" by force
  obtain n s3 where n: "gen_range R 0 64 s2 = (n, s3)" by force
  obtain ps s4 where ps: "run_state (sample_many n (data_point_sample R)) s3 = (ps, s4)" by force
  have "t \<in> {1, 2}" using sample_pick_in [OF R _ t] by simp
  moreover have "length ps < 64" using gen_range_bounds [OF R _ n] sample_many_length [OF ps] by simp
  ultimately show ?thesis using t m n ps by (simp add: sum_sample_def Let_def)
qed

lemma otel_metric_generate_ok:
  assumes R: "rng_ok R" and pool: "16 \<le> length (inner (om_pool t))"
  shows "\<exists>m s'. run_state (otel_metric_generate R t) s = (Inr m, s') \<and> otel_metric_ok m"
proof -
  obtain k s1 where k: "gen_range R 0 2 s = (k, s1)" by force
  obtain d s2 where d: "run_state (if k = 0 then gauge_sample R else sum_sample R) s1 = (d, s2)" by force
  obtain name s3 where name: "run_state (of_size_range R (om_pool t) 1 16) s2 = (Some name, s3)" "1 \<le> length name"
    by (rule of_size_range_Some [OF R _ pool, of 1]) simp_all
  obtain desc s4 where desc: "run_state (of_size_range R (om_pool t) 1 16) s3 = (Some desc, s4)"
    by (rule of_size_range_Some [OF R _ pool, of 1]) simp_all
  obtain u s5 where u: "run_state (of_size_range R (om_pool t) 1 16) s4 = (Some u, s5)" "1 \<le> length u"
    by (rule of_size_range_Some [OF R _ pool, of 1]) simp_all
  have "case d of Data_Gauge points \<Rightarrow> length points < 64
      | Data_Sum points temporality monotonic \<Rightarrow> length points < 64 \<and> temporality \<in> {1, 2}"
    using d gauge_sample_ok [OF R, of s1] sum_sample_ok [OF R, of s1] by (cases "k = 0") (auto split: metric_data.splits)
  moreover have "name \<noteq> []" "u \<noteq> []" using name(2) u(2) by auto
  ultimately show ?thesis
    using k d name(1) desc u(1) by (simp add: otel_metric_generate_def otel_metric_ok_def Let_def)
qed

text \<open>
  The OpenTelemetry payloads keep their budget: although the code only guesses the size of
  a member's header, and reserves for the envelope by a rule of thumb, the encoded request is
  never longer than \<open>max_bytes\<close>, for traces, logs and metrics and whatever the encoder of the
  members. Generation does not fail, spans end after they start, and severities, kinds and
  aggregation temporalities are legal values.
\<close>

theorem otel_payloads_within_budget:
  assumes "rng_ok R" "wire_ok len_t enc_t" "wire_ok len_l enc_l" "wire_ok len_m enc_m"
    and "run_state (otel_traces_new R) s = (traces, s1)" "run_state (otel_logs_new R) s = (logs, s2)"
    and "run_state (otel_metrics_new R) s = (metrics, s3)"
  shows "(\<exists>bs s'. otel_traces_to_bytes len_t enc_t R traces n r = Some (Inr bs, s') \<and> length bs \<le> n \<and>
      (bs = [] \<or> (\<exists>ms. bs = enc_t ms \<and> (\<forall>m \<in> set ms. span_ok m)))) \<and>
    (\<exists>bs s'. otel_logs_to_bytes len_l enc_l R logs n r = Some (Inr bs, s') \<and> length bs \<le> n \<and>
      (bs = [] \<or> (\<exists>ms. bs = enc_l ms \<and> (\<forall>m \<in> set ms. log_ok m)))) \<and>
    (\<exists>bs s'. otel_metrics_to_bytes len_m enc_m R metrics n r = Some (Inr bs, s') \<and> length bs \<le> n \<and>
      (bs = [] \<or> (\<exists>ms. bs = enc_m ms \<and> (\<forall>m \<in> set ms. otel_metric_ok m))))"
proof -
  have "length (inner (ot_pool traces)) = 1000000" "length (inner (ol_pool logs)) = 1000000"
    "length (inner (om_pool metrics)) = 1000000"
    using assms(5-7) with_size_pool [of R 1000000 s]
    by (auto simp: otel_traces_new_def otel_logs_new_def otel_metrics_new_def Let_def split: prod.splits)
  then have p: "16 \<le> length (inner (ot_pool traces))" "16 \<le> length (inner (ol_pool logs))" "16 \<le> length (inner (om_pool metrics))"
    by simp_all
  show ?thesis
    using otel_to_bytes_all [OF assms(2) span_generate_ok [OF assms(1) p(1)], of n r]
      otel_to_bytes_all [OF assms(3) log_generate_ok [OF assms(1) p(2)], of n r]
      otel_to_bytes_all [OF assms(4) otel_metric_generate_ok [OF assms(1) p(3)], of n r]
    unfolding otel_traces_to_bytes_def otel_logs_to_bytes_def otel_metrics_to_bytes_def by blast
qed

theorem otel_payloads_within_budget_witness:
  "let t = fst (run_state (otel_traces_new counter_rng) 0);
       l = fst (run_state (otel_logs_new counter_rng) 0);
       m = fst (run_state (otel_metrics_new counter_rng) 0)
   in (\<exists>bs s'. otel_traces_to_bytes (\<lambda>m. length (os_name m)) (export_request os_name) counter_rng t 300 7 = Some (Inr bs, s') \<and>
        length bs \<le> 300 \<and> (bs = [] \<or> (\<exists>ms. bs = export_request os_name ms \<and> (\<forall>m \<in> set ms. span_ok m)))) \<and>
      (\<exists>bs s'. otel_logs_to_bytes (\<lambda>m. length (ol_body m)) (export_request ol_body) counter_rng l 300 7 = Some (Inr bs, s') \<and>
        length bs \<le> 300 \<and> (bs = [] \<or> (\<exists>ms. bs = export_request ol_body ms \<and> (\<forall>m \<in> set ms. log_ok m)))) \<and>
      (\<exists>bs s'. otel_metrics_to_bytes (\<lambda>m. length (om_name m)) (export_request om_name) counter_rng m 300 7 = Some (Inr bs, s') \<and>
        length bs \<le> 300 \<and> (bs = [] \<or> (\<exists>ms. bs = export_request om_name ms \<and> (\<forall>m \<in> set ms. otel_metric_ok m))))"
  unfolding Let_def
  by (rule otel_payloads_within_budget [OF counter_rng_ok export_request_wire export_request_wire export_request_wire
        surjective_pairing surjective_pairing surjective_pairing])

end
