(* ===== verification/Floats.thy ===== *)
theory Floats
  imports Text Complex_Main "HOL-Library.Log_Nat"
begin

text \<open>
  Floating point. A finite \<open>f32\<close> or \<open>f64\<close> is the rational number it stands for, so comparisons are
  exact; where the code computes with one the result is rounded to the significand's width.
  Division, multiplication and \<open>parse\<close> are those of an \<open>f64\<close>, with its infinities, its signed zeros
  and its subnormal numbers.
\<close>

section \<open>Values and rounding\<close>

datatype float_num = Fin rat | NegZero | PosInf | NegInf | NaN

text \<open>The order on floats: both zeros are equal, and a NaN is related to nothing.\<close>

fun unsigned_zero :: "float_num \<Rightarrow> float_num" where
  "unsigned_zero NegZero = Fin 0"
| "unsigned_zero x = x"

definition float_less :: "float_num \<Rightarrow> float_num \<Rightarrow> bool" where
  "float_less x y \<longleftrightarrow>
     (case (unsigned_zero x, unsigned_zero y) of
        (Fin a, Fin b) \<Rightarrow> a < b
      | (NaN, _) \<Rightarrow> False
      | (_, NaN) \<Rightarrow> False
      | (NegInf, y) \<Rightarrow> y \<noteq> NegInf
      | (x, PosInf) \<Rightarrow> x \<noteq> PosInf
      | _ \<Rightarrow> False)"

definition float_le :: "float_num \<Rightarrow> float_num \<Rightarrow> bool" where
  "float_le x y \<longleftrightarrow> x \<noteq> NaN \<and> y \<noteq> NaN \<and> (float_less x y \<or> unsigned_zero x = unsigned_zero y)"

lemma float_le_Fin [simp]: "float_le (Fin a) (Fin b) \<longleftrightarrow> a \<le> b"
  by (auto simp: float_le_def float_less_def)

lemma float_less_Fin [simp]: "float_less (Fin a) (Fin b) \<longleftrightarrow> a < b"
  by (simp add: float_less_def)

text \<open>Round to the nearest number with a significand of \<open>p\<close> bits, ties to even.\<close>

definition round_half_even :: "rat \<Rightarrow> int" where
  "round_half_even q =
     (let n = \<lfloor>q\<rfloor>; f = q - of_int n
      in if f < 1 / 2 \<or> (f = 1 / 2 \<and> even n) then n else n + 1)"

definition round_sig :: "nat \<Rightarrow> rat \<Rightarrow> rat" where
  "round_sig p q =
     (if q = 0 then 0
      else
        let j = (if \<bar>q\<bar> < 1 then floorlog 2 (nat \<lceil>1 / \<bar>q\<bar>\<rceil>) else 0);
            a = \<bar>q\<bar> * 2 ^ j;
            k = floorlog 2 (nat \<lfloor>a\<rfloor>);
            m = round_half_even (a * 2 ^ p / 2 ^ k)
        in sgn q * of_int m * 2 ^ k / 2 ^ p / 2 ^ j)"

definition f32 :: "rat \<Rightarrow> float_num" where
  "f32 q = Fin (round_sig 24 q)"

definition f64 :: "rat \<Rightarrow> float_num" where
  "f64 q = Fin (round_sig 53 q)"

lemma f32_one [simp]: "f32 1 = Fin 1"
  by (simp add: f32_def round_sig_def round_half_even_def floorlog_def Let_def)

lemma floorlog_values: "floorlog 2 (Suc 0) = 1" "floorlog 2 100 = 7"
  by (simp_all add: compute_floorlog)

lemma floor_numeral_div [simp]: "\<lfloor>numeral a / numeral b :: rat\<rfloor> = numeral a div numeral b"
  using floor_divide_of_int_eq [where ?'a = rat, of "numeral a" "numeral b"] by simp

lemma f32_percent [simp]: "f32 (1 / 100) = Fin (10737418 / 1073741824)"
  by (simp add: f32_def round_sig_def round_half_even_def floorlog_values Let_def)

text \<open>\<open>as u32\<close>: towards zero, saturating, and zero for a NaN.\<close>

fun float_as_u32 :: "float_num \<Rightarrow> nat" where
  "float_as_u32 (Fin q) = min (nat \<lfloor>q\<rfloor>) (umax 32)"
| "float_as_u32 NegZero = 0"
| "float_as_u32 PosInf = umax 32"
| "float_as_u32 NegInf = 0"
| "float_as_u32 NaN = 0"

text \<open>\<open>f32::clamp(0.0, 1.0)\<close>, which keeps a NaN.\<close>

definition clamp01 :: "float_num \<Rightarrow> float_num" where
  "clamp01 x = (if float_less x (Fin 0) then Fin 0 else if float_less (Fin 1) x then Fin 1 else x)"

section \<open>Arithmetic of \<open>f64\<close>\<close>

fun sign_bit :: "float_num \<Rightarrow> bool" where
  "sign_bit (Fin q) = (q < 0)"
| "sign_bit NegZero = True"
| "sign_bit PosInf = False"
| "sign_bit NegInf = True"
| "sign_bit NaN = False"

definition signed_zero :: "bool \<Rightarrow> float_num" where
  "signed_zero neg = (if neg then NegZero else Fin 0)"

definition signed_inf :: "bool \<Rightarrow> float_num" where
  "signed_inf neg = (if neg then NegInf else PosInf)"

text \<open>The nearest \<open>f64\<close> to a number, where \<open>neg\<close> is the sign of a zero.\<close>

definition nearest_f64 :: "bool \<Rightarrow> rat \<Rightarrow> float_num" where
  "nearest_f64 neg q =
     (if \<bar>q\<bar> \<ge> 2 ^ 1024 - 2 ^ 970 then signed_inf (q < 0)
      else
        let r = (if \<bar>q\<bar> < 1 / 2 ^ 1022 then of_int (round_half_even (q * 2 ^ 1074)) / 2 ^ 1074 else round_sig 53 q)
        in if r = 0 then signed_zero neg else Fin r)"

definition as_f64 :: "nat \<Rightarrow> float_num" where
  "as_f64 n = nearest_f64 False (of_nat n)"

definition f64_div :: "float_num \<Rightarrow> float_num \<Rightarrow> float_num" where
  "f64_div x y =
     (let neg = (sign_bit x \<noteq> sign_bit y) in
      case (unsigned_zero x, unsigned_zero y) of
        (NaN, _) \<Rightarrow> NaN
      | (_, NaN) \<Rightarrow> NaN
      | (Fin a, Fin b) \<Rightarrow>
          if b = 0 then if a = 0 then NaN else signed_inf neg
          else nearest_f64 neg (a / b)
      | (Fin _, _) \<Rightarrow> signed_zero neg
      | (_, Fin _) \<Rightarrow> signed_inf neg
      | _ \<Rightarrow> NaN)"

definition f64_mul :: "float_num \<Rightarrow> float_num \<Rightarrow> float_num" where
  "f64_mul x y =
     (let neg = (sign_bit x \<noteq> sign_bit y) in
      case (unsigned_zero x, unsigned_zero y) of
        (NaN, _) \<Rightarrow> NaN
      | (_, NaN) \<Rightarrow> NaN
      | (Fin a, Fin b) \<Rightarrow> nearest_f64 neg (a * b)
      | (Fin a, _) \<Rightarrow> if a = 0 then NaN else signed_inf neg
      | (_, Fin b) \<Rightarrow> if b = 0 then NaN else signed_inf neg
      | _ \<Rightarrow> signed_inf neg)"

text \<open>\<open>round() as u64\<close>: halves away from zero, then saturating.\<close>

fun round_as_u64 :: "float_num \<Rightarrow> nat" where
  "round_as_u64 (Fin q) = min (nat \<lfloor>q + 1 / 2\<rfloor>) (umax 64)"
| "round_as_u64 PosInf = umax 64"
| "round_as_u64 x = 0"

definition f64_MAX :: float_num where
  "f64_MAX = Fin (2 ^ 1024 - 2 ^ 971)"

section \<open>Parsing\<close>

definition lowercase :: "char \<Rightarrow> char" where
  "lowercase c = (let n = of_char c :: nat in if 65 \<le> n \<and> n \<le> 90 then char_of (n + 32) else c)"

text \<open>An optional sign, and whether it is a minus.\<close>

definition cut_sign :: "string \<Rightarrow> bool \<times> string" where
  "cut_sign s = (if s \<noteq> [] \<and> (hd s = CHR ''-'' \<or> hd s = CHR ''+'') then (hd s = CHR ''-'', tl s) else (False, s))"

text \<open>What follows the digits: nothing, or an exponent with at least one digit.\<close>

definition parse_exponent :: "string \<Rightarrow> int option" where
  "parse_exponent s =
     (case s of
        [] \<Rightarrow> Some 0
      | c # rest \<Rightarrow>
          let (neg, ds) = cut_sign rest in
          if lowercase c \<noteq> CHR ''e'' \<or> ds = [] then None
          else map_option (\<lambda>n. if neg then - int n else int n) (digits_in 10 0 ds))"

definition parse_f64 :: "string \<Rightarrow> float_num option" where
  "parse_f64 s =
     (let (neg, body) = cut_sign s; name = map lowercase body in
      if name = ''inf'' \<or> name = ''infinity'' then Some (signed_inf neg)
      else if name = ''nan'' then Some NaN
      else
        let whole = takeWhile is_digit body;
            rest = dropWhile is_digit body;
            (frac, rest) =
              (if rest \<noteq> [] \<and> hd rest = CHR ''.'' then (takeWhile is_digit (tl rest), dropWhile is_digit (tl rest)) else ([], rest))
        in
          if whole = [] \<and> frac = [] then None
          else
            case (digits_in 10 0 (whole @ frac), parse_exponent rest) of
              (Some n, Some e) \<Rightarrow>
                let k = e - int (length frac);
                    q = (if k < 0 then of_nat n / 10 ^ nat (- k) else of_nat n * 10 ^ nat k)
                in Some (nearest_f64 neg (if neg then - q else q))
            | _ \<Rightarrow> None)"

end
