(* ===== verification/Dogstatsd.thy ===== *)
theory Dogstatsd
  imports Payload Floats
begin

text \<open>
  The DogStatsD payload, first part: its configuration and the validation of it
  (\<^verbatim>\<open>lading_payload/src/dogstatsd.rs\<close>), the numbers that metrics carry and their sample rates
  (\<^verbatim>\<open>lading_payload/src/dogstatsd/common.rs\<close>).

  Floating point numbers are those of \<^verbatim>\<open>Floats\<close>. Distributions over floats, \<open>WeightedIndex\<close> and the shortest decimal rendering of a float
  are arguments.
\<close>

section \<open>Sampling\<close>

text \<open>
  A generator call: its result or its error with the new state, or a panic. \<open>bind_gen\<close> is the
  \<open>?\<close> operator.
\<close>

type_synonym ('s, 'a) gen = "'s \<Rightarrow> ((payload_error + 'a) \<times> 's) option"

definition return_gen :: "'a \<Rightarrow> ('s, 'a) gen" where
  "return_gen x s = Some (Inr x, s)"

definition error_gen :: "payload_error \<Rightarrow> ('s, 'a) gen" where
  "error_gen e s = Some (Inl e, s)"

definition panic_gen :: "('s, 'a) gen" where
  "panic_gen s = None"

definition bind_gen :: "('s, 'a) gen \<Rightarrow> ('a \<Rightarrow> ('s, 'b) gen) \<Rightarrow> ('s, 'b) gen" where
  "bind_gen m f s =
     (case m s of
        None \<Rightarrow> None
      | Some (Inl e, s) \<Rightarrow> Some (Inl e, s)
      | Some (Inr x, s) \<Rightarrow> f x s)"

definition lift_gen :: "('s, 'a) state \<Rightarrow> ('s, 'a) gen" where
  "lift_gen m s = (let (x, s) = run_state m s in Some (Inr x, s))"

text \<open>\<open>ok_or(Error::StringGenerate)?\<close> and \<open>expect\<close> on an option.\<close>

definition ok_or_string :: "('s, 'a option) gen \<Rightarrow> ('s, 'a) gen" where
  "ok_or_string m = bind_gen m (\<lambda>x. case x of Some x \<Rightarrow> return_gen x | None \<Rightarrow> error_gen Error_StringGenerate)"

definition expect :: "('s, 'a option) gen \<Rightarrow> ('s, 'a) gen" where
  "expect m = bind_gen m (\<lambda>x. case x of Some x \<Rightarrow> return_gen x | None \<Rightarrow> panic_gen)"

fun repeat_gen :: "nat \<Rightarrow> ('s, 'a) gen \<Rightarrow> ('s, 'a list) gen" where
  "repeat_gen 0 g = return_gen []"
| "repeat_gen (Suc n) g = bind_gen g (\<lambda>x. bind_gen (repeat_gen n g) (\<lambda>xs. return_gen (x # xs)))"

text \<open>
  What the \<open>rand\<close> crate offers beyond integers: \<open>OpenClosed01\<close>, uniform floats and \<open>i64\<close>s on
  an inclusive range, and \<open>WeightedIndex::sample\<close> over weights of which one is positive.
\<close>

record 'r num_rng =
  base :: "'r rng"
  open_closed01 :: "'r \<Rightarrow> rat \<times> 'r"
  uniform_f32 :: "float_num \<Rightarrow> float_num \<Rightarrow> 'r \<Rightarrow> float_num \<times> 'r"
  uniform_f64 :: "float_num \<Rightarrow> float_num \<Rightarrow> 'r \<Rightarrow> float_num \<times> 'r"
  uniform_i64 :: "int \<Rightarrow> int \<Rightarrow> 'r \<Rightarrow> int \<times> 'r"
  weighted_index :: "nat list \<Rightarrow> 'r \<Rightarrow> nat \<times> 'r"

definition num_rng_ok :: "'r num_rng \<Rightarrow> bool" where
  "num_rng_ok N \<longleftrightarrow>
     rng_ok (base N) \<and>
     (\<forall>s. 0 < fst (open_closed01 N s) \<and> fst (open_closed01 N s) \<le> 1) \<and>
     (\<forall>a b s. float_le a b \<longrightarrow> float_le a (fst (uniform_f32 N a b s)) \<and> float_le (fst (uniform_f32 N a b s)) b) \<and>
     (\<forall>a b s. float_le a b \<longrightarrow> float_le a (fst (uniform_f64 N a b s)) \<and> float_le (fst (uniform_f64 N a b s)) b) \<and>
     (\<forall>a b s. a \<le> b \<longrightarrow> a \<le> fst (uniform_i64 N a b s) \<and> fst (uniform_i64 N a b s) \<le> b) \<and>
     (\<forall>ws s. (\<exists>w \<in> set ws. 0 < w) \<longrightarrow>
        fst (weighted_index N ws s) < length ws \<and> 0 < ws ! fst (weighted_index N ws s))"

lemma num_rng_base [simp]: "num_rng_ok N \<Longrightarrow> rng_ok (base N)"
  by (simp add: num_rng_ok_def)

lemma weighted_index_positive:
  assumes "num_rng_ok N" "\<exists>w \<in> set ws. 0 < w"
  shows "fst (weighted_index N ws s) < length ws" "0 < ws ! fst (weighted_index N ws s)"
  using assms by (simp_all add: num_rng_ok_def)

section \<open>Configuration\<close>

record KindWeights =
  kw_metric :: nat
  kw_event :: nat
  kw_service_check :: nat

definition KindWeights_new :: "nat \<Rightarrow> nat \<Rightarrow> nat \<Rightarrow> KindWeights" where
  "KindWeights_new metric event service_check = \<lparr>kw_metric = metric, kw_event = event, kw_service_check = service_check\<rparr>"

definition default_kind_weights :: KindWeights where
  "default_kind_weights = \<lparr>kw_metric = 80, kw_event = 10, kw_service_check = 10\<rparr>"

record MetricWeights =
  mw_count :: nat
  mw_gauge :: nat
  mw_timer :: nat
  mw_distribution :: nat
  mw_set :: nat
  mw_histogram :: nat

definition MetricWeights_new :: "nat \<Rightarrow> nat \<Rightarrow> nat \<Rightarrow> nat \<Rightarrow> nat \<Rightarrow> nat \<Rightarrow> MetricWeights" where
  "MetricWeights_new count gauge timer distribution set_weight histogram =
     \<lparr>mw_count = count, mw_gauge = gauge, mw_timer = timer, mw_distribution = distribution, mw_set = set_weight,
      mw_histogram = histogram\<rparr>"

definition default_metric_weights :: MetricWeights where
  "default_metric_weights =
     \<lparr>mw_count = 34, mw_gauge = 34, mw_timer = 5, mw_distribution = 1, mw_set = 1, mw_histogram = 25\<rparr>"

datatype 'a ConfRange = CR_Constant 'a | CR_Inclusive 'a 'a

text \<open>\<open>valid\<close>, with the order of the type as an argument: floats have one of their own.\<close>

fun range_valid :: "('a \<Rightarrow> 'a \<Rightarrow> bool) \<Rightarrow> 'a ConfRange \<Rightarrow> bool \<times> string" where
  "range_valid lt (CR_Constant c) = (True, '''')"
| "range_valid lt (CR_Inclusive lo hi) = (lt lo hi, ''min must be less than max'')"

fun range_start :: "'a ConfRange \<Rightarrow> 'a" where
  "range_start (CR_Constant c) = c"
| "range_start (CR_Inclusive lo hi) = lo"

fun range_end :: "'a ConfRange \<Rightarrow> 'a" where
  "range_end (CR_Constant c) = c"
| "range_end (CR_Inclusive lo hi) = hi"

text \<open>
  \<open>sample\<close> on unsigned integers and on floats; \<open>gen_range\<close> panics on an empty range, and on
  floats also when the width of the range is no finite \<open>f32\<close>, which it is below the first
  number that rounds to infinity.
\<close>

definition f32_width_finite :: "float_num \<Rightarrow> float_num \<Rightarrow> bool" where
  "f32_width_finite lo hi \<longleftrightarrow>
     (case (unsigned_zero lo, unsigned_zero hi) of (Fin a, Fin b) \<Rightarrow> b - a < 2 ^ 128 - 2 ^ 103 | _ \<Rightarrow> False)"

lemma f32_width_finite_Fin [simp]: "f32_width_finite (Fin a) (Fin b) \<longleftrightarrow> b - a < 2 ^ 128 - 2 ^ 103"
  by (simp add: f32_width_finite_def)

fun range_sample :: "'r rng \<Rightarrow> nat ConfRange \<Rightarrow> ('r, nat) gen" where
  "range_sample R (CR_Constant c) = return_gen c"
| "range_sample R (CR_Inclusive lo hi) = (if lo \<le> hi then lift_gen (sample_range R lo (hi + 1)) else panic_gen)"

fun range_sample_f32 :: "'r num_rng \<Rightarrow> float_num ConfRange \<Rightarrow> ('r, float_num) gen" where
  "range_sample_f32 N (CR_Constant c) = return_gen c"
| "range_sample_f32 N (CR_Inclusive lo hi) =
     (if float_le lo hi \<and> f32_width_finite lo hi then (\<lambda>s. let (x, s) = uniform_f32 N lo hi s in Some (Inr x, s))
      else panic_gen)"

record ValueConf =
  float_probability :: float_num
  value_range :: "int ConfRange"

definition ValueConf_new :: "float_num \<Rightarrow> int ConfRange \<Rightarrow> ValueConf" where
  "ValueConf_new p r = \<lparr>float_probability = p, value_range = r\<rparr>"

definition value_valid :: "ValueConf \<Rightarrow> bool \<times> string" where
  "value_valid v = range_valid (<) (value_range v)"

definition default_value_conf :: ValueConf where
  "default_value_conf = \<lparr>float_probability = f32 (1 / 2), value_range = CR_Inclusive (- (2 ^ 63)) (2 ^ 63 - 1)\<rparr>"

record dsd_config =
  dc_contexts :: "nat ConfRange"
  dc_service_check_names :: "nat ConfRange"
  dc_name_length :: "nat ConfRange"
  dc_tag_length :: "nat ConfRange"
  dc_tags_per_msg :: "nat ConfRange"
  dc_multivalue_pack_probability :: float_num
  dc_multivalue_count :: "nat ConfRange"
  dc_sampling_range :: "float_num ConfRange"
  dc_sampling_probability :: float_num
  dc_kind_weights :: KindWeights
  dc_metric_weights :: MetricWeights
  dc_value_conf :: ValueConf
  dc_length_prefix_framed :: bool
  dc_unique_tag_ratio :: float_num
  dc_prefix_metric_names :: bool

definition default_dsd_config :: dsd_config where
  "default_dsd_config =
     \<lparr>dc_contexts = CR_Inclusive 5000 10000, dc_service_check_names = CR_Inclusive 1 10000,
      dc_name_length = CR_Inclusive 1 200, dc_tag_length = CR_Inclusive 3 100, dc_tags_per_msg = CR_Inclusive 2 50,
      dc_multivalue_pack_probability = f32 (8 / 100), dc_multivalue_count = CR_Inclusive 2 32,
      dc_sampling_range = CR_Inclusive (f32 (1 / 10)) (f32 1), dc_sampling_probability = f32 (1 / 2),
      dc_kind_weights = default_kind_weights, dc_metric_weights = default_metric_weights, dc_value_conf = default_value_conf,
      dc_length_prefix_framed = False, dc_unique_tag_ratio = f32 (11 / 100), dc_prefix_metric_names = False\<rparr>"

definition MAX_CONTEXTS :: nat where
  "MAX_CONTEXTS = 1000000"

definition MAX_NAME_LENGTH :: nat where
  "MAX_NAME_LENGTH = 4096"

definition dsd_valid :: "dsd_config \<Rightarrow> string + unit" where
  "dsd_valid c =
     (let (contexts_valid, reason) = range_valid (<) (dc_contexts c) in
      if \<not> contexts_valid then Inl (''Contexts value is invalid: '' @ reason)
      else if range_start (dc_contexts c) = 0 then Inl ''Contexts start value cannot be 0''
      else if MAX_CONTEXTS < range_end (dc_contexts c)
      then Inl (''Contexts end value is greater than the maximum allowed value of '' @ show_nat MAX_CONTEXTS)
      else
        let (service_check_names_valid, reason) = range_valid (<) (dc_service_check_names c) in
        if \<not> service_check_names_valid then Inl (''Service check names value is invalid: '' @ reason)
        else
          let (tag_length_valid, reason) = range_valid (<) (dc_tag_length c) in
          if \<not> tag_length_valid then Inl (''Tag length value is invalid: '' @ reason)
          else if range_start (dc_tag_length c) = 0 then Inl ''Tag length start value cannot be 0''
          else
            let (name_length_valid, reason) = range_valid (<) (dc_name_length c) in
            if \<not> name_length_valid then Inl (''Name length value is invalid: '' @ reason)
            else if range_start (dc_name_length c) = 0 then Inl ''Name length start value cannot be 0''
            else if MAX_NAME_LENGTH < range_end (dc_name_length c) then Inl ''Name length end value cannot be 0''
            else
              let (tags_per_msg_valid, reason) = range_valid (<) (dc_tags_per_msg c) in
              if \<not> tags_per_msg_valid then Inl (''Tags per msg value is invalid: '' @ reason)
              else
                let (multivalue_count_valid, reason) = range_valid (<) (dc_multivalue_count c) in
                if \<not> multivalue_count_valid then Inl (''Multivalue count value is invalid: '' @ reason)
                else
                  let (value_valid, reason) = value_valid (dc_value_conf c) in
                  if \<not> value_valid then Inl (''Value configuration is invalid: '' @ reason)
                  else Inr ())"

section \<open>Choices and strings\<close>

definition sample_bool :: "'r rng \<Rightarrow> ('r, bool) gen" where
  "sample_bool R s = (let (b, s) = gen_bits R 1 s in Some (Inr (b = 1), s))"

definition choose_or_not_ref :: "'r rng \<Rightarrow> 'a list \<Rightarrow> ('r, 'a option) gen" where
  "choose_or_not_ref R pool =
     bind_gen (sample_bool R) (\<lambda>b. if b then lift_gen (State (slice_choose R pool)) else return_gen None)"

definition choose_or_not_fn :: "'r rng \<Rightarrow> ('r, 'a option) gen \<Rightarrow> ('r, 'a option) gen" where
  "choose_or_not_fn R f = bind_gen (sample_bool R) (\<lambda>b. if b then f else return_gen None)"

definition random_strings_with_length_range ::
    "'r rng \<Rightarrow> Pool \<Rightarrow> nat \<Rightarrow> nat ConfRange \<Rightarrow> ('r, string list) gen" where
  "random_strings_with_length_range R pool n_total length_range =
     repeat_gen n_total (bind_gen (range_sample R length_range) (\<lambda>sz. expect (lift_gen (of_size R pool sz))))"

definition random_strings_with_length ::
    "'r rng \<Rightarrow> Pool \<Rightarrow> nat \<Rightarrow> nat \<Rightarrow> nat \<Rightarrow> ('r, string list) gen" where
  "random_strings_with_length R pool lo hi max_length =
     bind_gen (lift_gen (sample_range R lo hi)) (\<lambda>n_total.
       random_strings_with_length_range R pool n_total (CR_Inclusive 1 max_length))"

section \<open>Values\<close>

datatype NumValue = Num_Int int | Num_Float float_num

datatype NumValueGenerator =
    NVG_Constant float_num int float_num
  | NVG_Uniform float_num "int \<times> int" "float_num \<times> float_num"

fun NumValueGenerator_new :: "ValueConf \<Rightarrow> NumValueGenerator" where
  "NumValueGenerator_new conf =
     (case value_range conf of
        CR_Constant c \<Rightarrow> NVG_Constant (float_probability conf) c (f64 (of_int c))
      | CR_Inclusive lo hi \<Rightarrow> NVG_Uniform (float_probability conf) (lo, hi) (f64 (of_int lo), f64 (of_int hi)))"

fun num_value_generate :: "'r num_rng \<Rightarrow> NumValueGenerator \<Rightarrow> 'r \<Rightarrow> NumValue \<times> 'r" where
  "num_value_generate N (NVG_Constant p c f) s =
     (let (prob, s) = open_closed01 N s
      in if float_less (Fin prob) p then (Num_Float f, s) else (Num_Int c, s))"
| "num_value_generate N (NVG_Uniform p (lo, hi) (flo, fhi)) s =
     (let (prob, s) = open_closed01 N s
      in if float_less (Fin prob) p
         then (let (x, s) = uniform_f64 N flo fhi s in (Num_Float x, s))
         else (let (x, s) = uniform_i64 N lo hi s in (Num_Int x, s)))"

fun show_num_value :: "(float_num \<Rightarrow> string) \<Rightarrow> NumValue \<Rightarrow> string" where
  "show_num_value show_f64 (Num_Int v) = show_int v"
| "show_num_value show_f64 (Num_Float v) = show_f64 v"

datatype ZeroToOne = ZTO_One | ZTO_Frac nat

datatype ZeroToOneError = ZTO_OutOfRange

text \<open>
  \<open>TryFrom<f32>\<close>. The difference to one is exact whenever it can be below \<open>f32::EPSILON\<close>;
  \<open>1.0 / value\<close> is rounded, and is infinite for a zero, with its sign.
\<close>

definition zero_to_one :: "float_num \<Rightarrow> ZeroToOneError + ZeroToOne" where
  "zero_to_one x =
     (if (case x of Fin q \<Rightarrow> \<bar>q - 1\<bar> < 1 / 2 ^ 23 | _ \<Rightarrow> False) then Inr ZTO_One
      else if \<not> (float_le (Fin 0) x \<and> float_le x (Fin 1)) then Inl ZTO_OutOfRange
      else Inr (ZTO_Frac (float_as_u32 (case x of Fin q \<Rightarrow> if q = 0 then PosInf else f32 (1 / q) | NegZero \<Rightarrow> NegInf | y \<Rightarrow> y))))"

definition zero_to_one_sample :: "'r rng \<Rightarrow> ('r, ZeroToOne) state" where
  "zero_to_one_sample R = do {
     k \<leftarrow> sample_range R 0 2;
     if k = 0 then State_Monad.return ZTO_One
     else do { n \<leftarrow> sample_bits R 32; State_Monad.return (ZTO_Frac n) }
   }"

fun show_zero_to_one :: "(float_num \<Rightarrow> string) \<Rightarrow> ZeroToOne \<Rightarrow> string" where
  "show_zero_to_one show_f64 ZTO_One = ''1''"
| "show_zero_to_one show_f64 (ZTO_Frac n) = (if n = 0 then ''0'' else show_f64 (f64 (1 / of_nat n)))"

end
