(* ===== verification/Dogstatsd_Tags.thy ===== *)
theory Dogstatsd_Tags
  imports Dogstatsd
begin

text \<open>
  The tag generator of DogStatsD payloads, \<^verbatim>\<open>lading_payload/src/dogstatsd/common/tags.rs\<close>. It
  owns a random number generator and reseeds it after \<open>num_tagsets\<close> calls; the cells of the
  code are fields of the state the operations pass on. \<open>SmallRng::seed_from_u64\<close> is the
  argument \<open>seed_from\<close>.
\<close>

section \<open>The generator\<close>

definition MIN_UNIQUE_TAG_RATIO :: float_num where
  "MIN_UNIQUE_TAG_RATIO = f32 (1 / 100)"

definition MAX_UNIQUE_TAG_RATIO :: float_num where
  "MAX_UNIQUE_TAG_RATIO = f32 1"

definition MIN_TAG_LENGTH :: nat where
  "MIN_TAG_LENGTH = 3"

type_synonym Tagset = "string list"

record 'q tags_gen =
  tg_seed :: nat
  tg_rng :: 'q
  tg_produced :: nat
  tg_num_tagsets :: nat
  tg_tags_per_msg :: "nat ConfRange"
  tg_tag_length :: "nat ConfRange"
  tg_pool :: Pool
  tg_unique_probability :: float_num
  tg_unique_tags :: "(Handle \<times> Handle) list"

datatype tags_error = InvalidConstruction string

definition tags_new ::
    "(nat \<Rightarrow> 'q) \<Rightarrow> nat \<Rightarrow> nat ConfRange \<Rightarrow> nat ConfRange \<Rightarrow> nat \<Rightarrow> Pool \<Rightarrow> float_num
      \<Rightarrow> tags_error + 'q tags_gen" where
  "tags_new seed_from seed tags_per_msg tag_length num_tagsets pool p =
     (let (tag_length_valid, msg) = range_valid (<) tag_length in
      if \<not> tag_length_valid then Inl (InvalidConstruction (''Invalid tag length: '' @ msg))
      else if range_start tag_length < MIN_TAG_LENGTH
      then Inl (InvalidConstruction
             (''Tag length must be at least '' @ show_nat MIN_TAG_LENGTH @ '', found '' @ show_nat (range_start tag_length)))
      else if \<not> (float_le MIN_UNIQUE_TAG_RATIO p \<and> float_le p MAX_UNIQUE_TAG_RATIO)
      then Inl (InvalidConstruction ''Unique tag ratio must be between 0.01 and 1'')
      else Inr \<lparr>tg_seed = seed, tg_rng = seed_from seed, tg_produced = 0, tg_num_tagsets = num_tagsets,
             tg_tags_per_msg = tags_per_msg, tg_tag_length = tag_length, tg_pool = pool,
             tg_unique_probability = p, tg_unique_tags = []\<rparr>)"

definition get_existing_tag :: "'q rng \<Rightarrow> Pool \<Rightarrow> (Handle \<times> Handle) list \<Rightarrow> 'q \<Rightarrow> string option \<times> 'q" where
  "get_existing_tag Q pool unique_tags s =
     (case slice_choose Q unique_tags s of
        (Some (key_handle, value_handle), s) \<Rightarrow>
          (case (using_handle pool key_handle, using_handle pool value_handle) of
             (Some key, Some val) \<Rightarrow> (Some (key @ '':'' @ val), s)
           | _ \<Rightarrow> (None, s))
      | (None, s) \<Rightarrow> (None, s))"

text \<open>A new tag: its length is split at random between key and value.\<close>

definition new_tag ::
    "'q rng \<Rightarrow> Pool \<Rightarrow> nat ConfRange \<Rightarrow> 'q \<Rightarrow> ((string \<times> Handle \<times> Handle) \<times> 'q) option" where
  "new_tag Q pool tag_length s =
     (case range_sample Q tag_length s of
        Some (Inr sz, s) \<Rightarrow>
          (let desired_size = sz - 1 in
           if sz = 0 \<or> desired_size \<le> 1 then None
           else
             let (key_size, s) = gen_range Q 1 desired_size s;
                 value_size = desired_size - key_size;
                 (k, s) = run_state (of_size_with_handle Q pool key_size) s;
                 (v, s) = run_state (of_size_with_handle Q pool value_size) s
             in case (k, v) of
                  (Some (key, key_handle), Some (val, value_handle)) \<Rightarrow>
                    Some ((key @ '':'' @ val, key_handle, value_handle), s)
                | _ \<Rightarrow> None)
      | _ \<Rightarrow> None)"

text \<open>One turn of the loop of \<open>generate\<close>: the tag, the unique tags and the internal generator.\<close>

definition tag_turn ::
    "'q num_rng \<Rightarrow> 'q tags_gen \<Rightarrow> (Handle \<times> Handle) list \<Rightarrow> 'q \<Rightarrow> (string \<times> (Handle \<times> Handle) list \<times> 'q) option" where
  "tag_turn N tg unique_tags s =
     (let (prob, s) = open_closed01 N s;
          (attempted_tag, s) =
            (if float_less (tg_unique_probability tg) (Fin prob)
             then get_existing_tag (base N) (tg_pool tg) unique_tags s else (None, s))
      in case attempted_tag of
           Some tag \<Rightarrow> Some (tag, unique_tags, s)
         | None \<Rightarrow>
             map_option (\<lambda>((tag, key_handle, value_handle), s). (tag, unique_tags @ [(key_handle, value_handle)], s))
               (new_tag (base N) (tg_pool tg) (tg_tag_length tg) s))"

fun tag_turns ::
    "nat \<Rightarrow> 'q num_rng \<Rightarrow> 'q tags_gen \<Rightarrow> (Handle \<times> Handle) list \<Rightarrow> 'q
      \<Rightarrow> (Tagset \<times> (Handle \<times> Handle) list \<times> 'q) option" where
  "tag_turns 0 N tg unique_tags s = Some ([], unique_tags, s)"
| "tag_turns (Suc n) N tg unique_tags s =
     (case tag_turn N tg unique_tags s of
        None \<Rightarrow> None
      | Some (tag, unique_tags, s) \<Rightarrow>
          map_option (\<lambda>(tags, r). (tag # tags, r)) (tag_turns n N tg unique_tags s))"

definition tags_generate ::
    "'q num_rng \<Rightarrow> (nat \<Rightarrow> 'q) \<Rightarrow> 'q tags_gen \<Rightarrow> (Tagset \<times> 'q tags_gen) option" where
  "tags_generate N seed_from tg =
     (let tg = (if tg_num_tagsets tg \<le> tg_produced tg
                then tg\<lparr>tg_rng := seed_from (tg_seed tg), tg_produced := 0\<rparr> else tg)
      in case range_sample (base N) (tg_tags_per_msg tg) (tg_rng tg) of
           Some (Inr tags_count, s) \<Rightarrow>
             map_option
               (\<lambda>(tagset, unique_tags, s).
                  (tagset, tg\<lparr>tg_rng := s, tg_unique_tags := unique_tags, tg_produced := tg_produced tg + 1\<rparr>))
               (tag_turns tags_count N tg (tg_unique_tags tg) s)
         | _ \<Rightarrow> None)"

text \<open>A run of calls.\<close>

fun tags_run :: "nat \<Rightarrow> 'q num_rng \<Rightarrow> (nat \<Rightarrow> 'q) \<Rightarrow> 'q tags_gen \<Rightarrow> (Tagset list \<times> 'q tags_gen) option" where
  "tags_run 0 N seed_from tg = Some ([], tg)"
| "tags_run (Suc n) N seed_from tg =
     (case tags_generate N seed_from tg of
        None \<Rightarrow> None
      | Some (tags, tg) \<Rightarrow> map_option (\<lambda>(ts, tg). (tags # ts, tg)) (tags_run n N seed_from tg))"

section \<open>Well-formed tags\<close>

definition handle_ok :: "Pool \<Rightarrow> Handle \<Rightarrow> bool" where
  "handle_ok pool h \<longleftrightarrow> 0 < snd h \<and> fst h + snd h < length (inner pool)"

definition range_has :: "nat ConfRange \<Rightarrow> nat \<Rightarrow> bool" where
  "range_has r n \<longleftrightarrow> range_start r \<le> n \<and> n \<le> range_end r"

definition tag_ok :: "Pool \<Rightarrow> nat ConfRange \<Rightarrow> string \<Rightarrow> bool" where
  "tag_ok pool tag_length tag \<longleftrightarrow>
     (\<exists>key val. tag = key @ '':'' @ val \<and> key \<noteq> [] \<and> val \<noteq> [] \<and> set (key @ val) \<subseteq> set (inner pool)) \<and>
     range_has tag_length (length tag)"

definition tags_inv :: "'q tags_gen \<Rightarrow> bool" where
  "tags_inv tg \<longleftrightarrow>
     fst (range_valid (<) (tg_tag_length tg)) \<and> 3 \<le> range_start (tg_tag_length tg) \<and>
     range_end (tg_tag_length tg) < length (inner (tg_pool tg)) \<and>
     fst (range_valid (<) (tg_tags_per_msg tg)) \<and>
     (\<forall>(k, v) \<in> set (tg_unique_tags tg).
        handle_ok (tg_pool tg) k \<and> handle_ok (tg_pool tg) v \<and> range_has (tg_tag_length tg) (snd k + 1 + snd v))"

lemma range_sample_in:
  assumes "rng_ok R" "fst (range_valid (<) r)"
  obtains n s' where "range_sample R r s = Some (Inr n, s')" "range_has r n"
proof (cases r)
  case (CR_Constant c)
  then show thesis by (intro that [of c s]) (simp_all add: return_gen_def range_has_def)
next
  case (CR_Inclusive lo hi)
  obtain x s' where x: "gen_range R lo (hi + 1) s = (x, s')" by force
  have "lo < hi" using assms(2) CR_Inclusive by simp
  with gen_range_bounds [OF assms(1) _ x] have "lo \<le> x" "x \<le> hi" by auto
  with x \<open>lo < hi\<close> CR_Inclusive show thesis by (intro that [of x s']) (simp_all add: lift_gen_def range_has_def)
qed

lemma of_size_with_handle_in:
  assumes "rng_ok R" "0 < n" "n < length (inner pool)"
  obtains str h s' where "run_state (of_size_with_handle R pool n) s = (Some (str, h), s')"
    "handle_ok pool h" "snd h = n" "length str = n" "using_handle pool h = Some str"
proof -
  obtain i s' where i: "gen_range R 0 (length (inner pool) - n) s = (i, s')" by force
  have "i < length (inner pool) - n" using gen_range_bounds [OF assms(1) _ i] assms(3) by simp
  with i assms show thesis
    by (intro that [of "take n (drop i (inner pool))" "(i, n)" s']) (auto simp: of_size_with_handle_def handle_ok_def using_handle_def)
qed

lemma using_handle_ok:
  assumes "handle_ok pool h"
  obtains str where "using_handle pool h = Some str" "length str = snd h" "set str \<subseteq> set (inner pool)"
  using assms by (cases h) (auto simp: handle_ok_def using_handle_def intro!: that dest: in_set_takeD in_set_dropD)

lemma tag_of_handles:
  assumes "handle_ok pool k" "handle_ok pool v" "range_has len (snd k + 1 + snd v)"
  obtains key val where "using_handle pool k = Some key" "using_handle pool v = Some val" "tag_ok pool len (key @ '':'' @ val)"
proof -
  obtain key where key: "using_handle pool k = Some key" "length key = snd k" "set key \<subseteq> set (inner pool)"
    by (rule using_handle_ok [OF assms(1)])
  obtain val where val: "using_handle pool v = Some val" "length val = snd v" "set val \<subseteq> set (inner pool)"
    by (rule using_handle_ok [OF assms(2)])
  have "key \<noteq> []" "val \<noteq> []" using key(2) val(2) assms(1,2) by (auto simp: handle_ok_def)
  with key val assms(3) show thesis by (intro that [of key val]) (auto simp: tag_ok_def)
qed

lemma new_tag_ok:
  assumes "rng_ok Q" "fst (range_valid (<) len)" "3 \<le> range_start len" "range_end len < length (inner pool)"
  obtains tag k v s' where "new_tag Q pool len s = Some ((tag, k, v), s')"
    "handle_ok pool k" "handle_ok pool v" "range_has len (snd k + 1 + snd v)" "tag_ok pool len tag"
proof -
  obtain sz s1 where sz: "range_sample Q len s = Some (Inr sz, s1)" "range_has len sz"
    by (rule range_sample_in [OF assms(1,2)])
  have b: "3 \<le> sz" "sz < length (inner pool)" using sz(2) assms(3,4) by (auto simp: range_has_def)
  obtain ks s2 where ks: "gen_range Q 1 (sz - 1) s1 = (ks, s2)" by force
  have kb: "1 \<le> ks" "ks < sz - 1" using gen_range_bounds [OF assms(1) _ ks] b by auto
  obtain key k s3 where k: "run_state (of_size_with_handle Q pool ks) s2 = (Some (key, k), s3)"
    "handle_ok pool k" "snd k = ks" "length key = ks" "using_handle pool k = Some key"
    by (rule of_size_with_handle_in [OF assms(1), of ks pool s2]) (use kb b in auto)
  obtain val v s4 where v: "run_state (of_size_with_handle Q pool (sz - 1 - ks)) s3 = (Some (val, v), s4)"
    "handle_ok pool v" "snd v = sz - 1 - ks" "length val = sz - 1 - ks" "using_handle pool v = Some val"
    by (rule of_size_with_handle_in [OF assms(1), of "sz - 1 - ks" pool s3]) (use kb b in auto)
  have r: "range_has len (snd k + 1 + snd v)" using k(3) v(3) kb sz(2) by simp
  have "tag_ok pool len (key @ '':'' @ val)"
    by (rule tag_of_handles [OF k(2) v(2) r]) (use k(5) v(5) in auto)
  moreover have "new_tag Q pool len s = Some ((key @ '':'' @ val, k, v), s4)"
    using sz(1) b ks k(1) v(1) by (simp add: new_tag_def Let_def)
  ultimately show thesis using k(2) v(2) r by (intro that)
qed

lemma get_existing_tag_ok:
  assumes "rng_ok Q"
    and "\<forall>(k, v) \<in> set us. handle_ok pool k \<and> handle_ok pool v \<and> range_has len (snd k + 1 + snd v)"
    and "get_existing_tag Q pool us s = (Some tag, s')"
  shows "tag_ok pool len tag"
proof -
  obtain k v s1 where c: "slice_choose Q us s = (Some (k, v), s1)"
    using assms(3) by (auto simp: get_existing_tag_def split: prod.splits option.splits)
  from slice_choose_in [OF assms(1) c] have "(k, v) \<in> set us" .
  with assms(2) have h: "handle_ok pool k" "handle_ok pool v" "range_has len (snd k + 1 + snd v)" by auto
  obtain key val where "using_handle pool k = Some key" "using_handle pool v = Some val"
    "tag_ok pool len (key @ '':'' @ val)" by (rule tag_of_handles [OF h])
  with assms(3) c show ?thesis by (auto simp: get_existing_tag_def)
qed

lemma tag_turn_ok:
  assumes "num_rng_ok N" "tags_inv (tg\<lparr>tg_unique_tags := us\<rparr>)"
  obtains tag us' s' where "tag_turn N tg us s = Some (tag, us', s')" "tags_inv (tg\<lparr>tg_unique_tags := us'\<rparr>)"
    "tag_ok (tg_pool tg) (tg_tag_length tg) tag"
proof -
  note inv = assms(2) [unfolded tags_inv_def, simplified]
  note Q = num_rng_base [OF assms(1)]
  obtain p s1 where p: "open_closed01 N s = (p, s1)" by force
  obtain t s2 where t: "(if float_less (tg_unique_probability tg) (Fin p)
      then get_existing_tag (base N) (tg_pool tg) us s1 else (None, s1)) = (t, s2)" by force
  show thesis
  proof (cases t)
    case None
    obtain tag k v s3 where new: "new_tag (base N) (tg_pool tg) (tg_tag_length tg) s2 = Some ((tag, k, v), s3)"
      "handle_ok (tg_pool tg) k" "handle_ok (tg_pool tg) v" "range_has (tg_tag_length tg) (snd k + 1 + snd v)"
      "tag_ok (tg_pool tg) (tg_tag_length tg) tag"
      by (rule new_tag_ok [OF Q]) (use inv in auto)
    have "tag_turn N tg us s = Some (tag, us @ [(k, v)], s3)" using p t None new(1) by (simp add: tag_turn_def)
    with new inv show thesis by (intro that [of tag "us @ [(k, v)]" s3]) (auto simp: tags_inv_def)
  next
    case (Some tag)
    then have "get_existing_tag (base N) (tg_pool tg) us s1 = (Some tag, s2)" using t by (auto split: if_splits)
    then have "tag_ok (tg_pool tg) (tg_tag_length tg) tag"
      by (rule get_existing_tag_ok [OF Q, rotated]) (use inv in auto)
    moreover have "tag_turn N tg us s = Some (tag, us, s2)" using p t Some by (simp add: tag_turn_def)
    ultimately show thesis using assms(2) by (intro that [of tag us s2])
  qed
qed

lemma tag_turns_ok:
  assumes "num_rng_ok N"
  shows "tags_inv (tg\<lparr>tg_unique_tags := us\<rparr>) \<Longrightarrow>
    \<exists>tags us' s'. tag_turns n N tg us s = Some (tags, us', s') \<and> tags_inv (tg\<lparr>tg_unique_tags := us'\<rparr>) \<and>
      length tags = n \<and> (\<forall>tag \<in> set tags. tag_ok (tg_pool tg) (tg_tag_length tg) tag)"
proof (induction n arbitrary: us s)
  case (Suc n)
  obtain tag us1 s1 where t: "tag_turn N tg us s = Some (tag, us1, s1)" "tags_inv (tg\<lparr>tg_unique_tags := us1\<rparr>)"
    "tag_ok (tg_pool tg) (tg_tag_length tg) tag" by (rule tag_turn_ok [OF assms Suc.prems])
  from Suc.IH [OF t(2), of s1] obtain tags us2 s2 where "tag_turns n N tg us1 s1 = Some (tags, us2, s2)"
    "tags_inv (tg\<lparr>tg_unique_tags := us2\<rparr>)" "length tags = n"
    "\<forall>tag \<in> set tags. tag_ok (tg_pool tg) (tg_tag_length tg) tag" by blast
  with t show ?case by simp
qed simp

text \<open>What a call leaves alone.\<close>

definition same_conf :: "'q tags_gen \<Rightarrow> 'q tags_gen \<Rightarrow> bool" where
  "same_conf tg tg' \<longleftrightarrow>
     tg_seed tg' = tg_seed tg \<and> tg_num_tagsets tg' = tg_num_tagsets tg \<and> tg_tags_per_msg tg' = tg_tags_per_msg tg \<and>
     tg_tag_length tg' = tg_tag_length tg \<and> tg_pool tg' = tg_pool tg \<and>
     tg_unique_probability tg' = tg_unique_probability tg"

definition restart :: "(nat \<Rightarrow> 'q) \<Rightarrow> 'q tags_gen \<Rightarrow> 'q tags_gen" where
  "restart seed_from tg =
     (if tg_num_tagsets tg \<le> tg_produced tg then tg\<lparr>tg_rng := seed_from (tg_seed tg), tg_produced := 0\<rparr> else tg)"

lemma restart_fields [simp]:
  "tg_pool (restart sf tg) = tg_pool tg" "tg_tag_length (restart sf tg) = tg_tag_length tg"
  "tg_unique_tags (restart sf tg) = tg_unique_tags tg" "tg_tags_per_msg (restart sf tg) = tg_tags_per_msg tg"
  "same_conf tg (restart sf tg)" "tags_inv (restart sf tg) = tags_inv tg"
  by (auto simp: restart_def same_conf_def tags_inv_def)

lemma tags_generate_ok:
  assumes "num_rng_ok N" "tags_inv tg"
  obtains tags tg' where "tags_generate N seed_from tg = Some (tags, tg')" "tags_inv tg'" "same_conf tg tg'"
    "range_has (tg_tags_per_msg tg) (length tags)"
    "\<forall>tag \<in> set tags. tag_ok (tg_pool tg) (tg_tag_length tg) tag"
    "tg_produced tg' = Suc (tg_produced (restart seed_from tg))"
proof -
  let ?tg = "restart seed_from tg"
  have v: "fst (range_valid (<) (tg_tags_per_msg tg))" using assms(2) by (simp add: tags_inv_def)
  obtain n s where n: "range_sample (base N) (tg_tags_per_msg tg) (tg_rng ?tg) = Some (Inr n, s)"
    "range_has (tg_tags_per_msg tg) n" by (rule range_sample_in [OF num_rng_base [OF assms(1)] v])
  have "tags_inv (?tg\<lparr>tg_unique_tags := tg_unique_tags tg\<rparr>)" using assms(2) by (simp add: tags_inv_def)
  from tag_turns_ok [OF assms(1) this, of n s] obtain tags us s' where
    ts: "tag_turns n N ?tg (tg_unique_tags tg) s = Some (tags, us, s')" "tags_inv (?tg\<lparr>tg_unique_tags := us\<rparr>)"
    "length tags = n" "\<forall>tag \<in> set tags. tag_ok (tg_pool tg) (tg_tag_length tg) tag" by auto
  let ?tg' = "?tg\<lparr>tg_rng := s', tg_unique_tags := us, tg_produced := tg_produced ?tg + 1\<rparr>"
  have "tags_generate N seed_from tg = Some (tags, ?tg')"
    using n(1) ts(1) by (simp add: tags_generate_def restart_def [symmetric] Let_def)
  moreover have "tags_inv ?tg'" using ts(2) by (simp add: tags_inv_def)
  moreover have "same_conf tg ?tg'" using restart_fields(5) [of tg seed_from] by (simp add: same_conf_def)
  ultimately show thesis using n(2) ts(3,4) by (intro that [of tags ?tg']) auto
qed

section \<open>The cycle of tagsets\<close>

text \<open>
  With a ratio of one no tag is reused, so a call depends on the internal generator and the
  configuration alone: generators that agree on those stay so and answer alike.
\<close>

definition same_run :: "'q tags_gen \<Rightarrow> 'q tags_gen \<Rightarrow> bool" where
  "same_run tg tg' \<longleftrightarrow> same_conf tg tg' \<and> tg_rng tg' = tg_rng tg \<and> tg_produced tg' = tg_produced tg"

lemma tag_turn_always_new:
  assumes "num_rng_ok N" "float_le (Fin 1) (tg_unique_probability tg)" "same_conf tg tg'"
  shows "map_option (\<lambda>(tag, us, s). (tag, s)) (tag_turn N tg us s) =
    map_option (\<lambda>(tag, us, s). (tag, s)) (tag_turn N tg' us' s)"
proof -
  obtain p s1 where p: "open_closed01 N s = (p, s1)" by force
  have "p \<le> 1" using assms(1) p by (metis num_rng_ok_def fst_conv)
  then have "\<not> float_less (tg_unique_probability tg) (Fin p)"
    using assms(2) by (cases "tg_unique_probability tg") (auto simp: float_le_def float_less_def)
  with p assms(3) show ?thesis
    by (simp add: tag_turn_def same_conf_def option.map_comp comp_def split_beta)
qed

lemma tag_turns_always_new:
  assumes "num_rng_ok N" "float_le (Fin 1) (tg_unique_probability tg)" "same_conf tg tg'"
  shows "map_option (\<lambda>(tags, us, s). (tags, s)) (tag_turns n N tg us s) =
    map_option (\<lambda>(tags, us, s). (tags, s)) (tag_turns n N tg' us' s)"
proof (induction n arbitrary: us us' s)
  case (Suc n)
  from tag_turn_always_new [OF assms, of us s us'] show ?case
  proof (cases "tag_turn N tg us s")
    case None
    with tag_turn_always_new [OF assms, of us s us'] show ?thesis by simp
  next
    case (Some x)
    then obtain tag us1 s1 where x: "tag_turn N tg us s = Some (tag, us1, s1)" by (cases x) auto
    with tag_turn_always_new [OF assms, of us s us'] obtain us2 where x': "tag_turn N tg' us' s = Some (tag, us2, s1)"
      by (cases "tag_turn N tg' us' s") auto
    from Suc [of us1 s1 us2] x x' show ?thesis
      by (cases "tag_turns n N tg us1 s1"; cases "tag_turns n N tg' us2 s1") auto
  qed
qed simp

lemma same_run_restart: "same_run tg tg' \<Longrightarrow> same_run (restart sf tg) (restart sf tg')"
  by (auto simp: same_run_def same_conf_def restart_def)

lemma tags_generate_same:
  assumes "num_rng_ok N" "float_le (Fin 1) (tg_unique_probability tg)" "same_run (restart sf tg) (restart sf tg')"
    and "tags_generate N sf tg = Some (tags, tg1)"
  shows "\<exists>tg1'. tags_generate N sf tg' = Some (tags, tg1') \<and> same_run tg1 tg1'"
proof -
  let ?t = "restart sf tg" and ?t' = "restart sf tg'"
  have q: "float_le (Fin 1) (tg_unique_probability ?t)" using assms(2) by (simp add: restart_def)
  have c: "same_conf ?t ?t'" using assms(3) by (simp add: same_run_def)
  obtain n s us s' where n: "range_sample (base N) (tg_tags_per_msg ?t) (tg_rng ?t) = Some (Inr n, s)"
    and ts: "tag_turns n N ?t (tg_unique_tags ?t) s = Some (tags, us, s')"
    and tg1: "tg1 = ?t\<lparr>tg_rng := s', tg_unique_tags := us, tg_produced := tg_produced ?t + 1\<rparr>"
    using assms(4) unfolding tags_generate_def restart_def [symmetric] Let_def
    by (auto split: option.splits prod.splits sum.splits)
  from tag_turns_always_new [OF assms(1) q c, of n "tg_unique_tags ?t" s "tg_unique_tags ?t'"] ts obtain us' where
    ts': "tag_turns n N ?t' (tg_unique_tags ?t') s = Some (tags, us', s')"
    by (cases "tag_turns n N ?t' (tg_unique_tags ?t') s") auto
  have "range_sample (base N) (tg_tags_per_msg ?t') (tg_rng ?t') = Some (Inr n, s)"
    using n assms(3) by (simp add: same_run_def same_conf_def)
  with ts' have "tags_generate N sf tg' =
      Some (tags, ?t'\<lparr>tg_rng := s', tg_unique_tags := us', tg_produced := tg_produced ?t' + 1\<rparr>)"
    unfolding tags_generate_def restart_def [symmetric] Let_def by simp
  with assms(3) tg1 show ?thesis by (auto simp: same_run_def same_conf_def)
qed

lemma tags_run_same:
  assumes "num_rng_ok N"
  shows "float_le (Fin 1) (tg_unique_probability tg) \<Longrightarrow> tags_inv tg \<Longrightarrow> same_run (restart sf tg) (restart sf tg') \<Longrightarrow>
    tags_run n N sf tg = Some (ts, tg1) \<Longrightarrow> \<exists>tg1'. tags_run n N sf tg' = Some (ts, tg1') \<and> (0 < n \<longrightarrow> same_run tg1 tg1')"
proof (induction n arbitrary: tg tg' ts)
  case (Suc n)
  obtain tags tg2 where g: "tags_generate N sf tg = Some (tags, tg2)" "tags_inv tg2" "same_conf tg tg2"
    by (rule tags_generate_ok [OF assms Suc.prems(2)])
  from tags_generate_same [OF assms Suc.prems(1,3) g(1)] obtain tg2' where
    g': "tags_generate N sf tg' = Some (tags, tg2')" "same_run tg2 tg2'" by blast
  obtain ts2 where r: "tags_run n N sf tg2 = Some (ts2, tg1)" "ts = tags # ts2"
    using Suc.prems(4) g(1) by (auto split: option.splits)
  have "float_le (Fin 1) (tg_unique_probability tg2)" using Suc.prems(1) g(3) by (simp add: same_conf_def)
  from Suc.IH [OF this g(2) same_run_restart [OF g'(2)] r(1)] obtain tg1' where
    "tags_run n N sf tg2' = Some (ts2, tg1')" "0 < n \<longrightarrow> same_run tg1 tg1'" by blast
  moreover have "same_run tg1 tg1'" if "n = 0" using that r(1) \<open>tags_run n N sf tg2' = _\<close> g'(2) by simp
  ultimately show ?case using g'(1) r(2) by auto
qed simp

lemma tags_run_ok:
  assumes "num_rng_ok N"
  shows "tags_inv tg \<Longrightarrow> tg_produced tg + n \<le> tg_num_tagsets tg \<Longrightarrow>
    \<exists>ts tg'. tags_run n N sf tg = Some (ts, tg') \<and> length ts = n \<and> tags_inv tg' \<and> same_conf tg tg' \<and>
      tg_produced tg' = tg_produced tg + n"
proof (induction n arbitrary: tg)
  case 0
  then show ?case by (simp add: same_conf_def)
next
  case (Suc n)
  obtain tags tg2 where g: "tags_generate N sf tg = Some (tags, tg2)" "tags_inv tg2" "same_conf tg tg2"
    "tg_produced tg2 = Suc (tg_produced (restart sf tg))"
    by (rule tags_generate_ok [OF assms Suc.prems(1)])
  have p: "tg_produced tg2 = Suc (tg_produced tg)" using g(4) Suc.prems(2) by (simp add: restart_def)
  then have "tg_produced tg2 + n \<le> tg_num_tagsets tg2" using Suc.prems(2) g(3) by (simp add: same_conf_def)
  from Suc.IH [OF g(2) this] obtain ts tg' where "tags_run n N sf tg2 = Some (ts, tg')" "length ts = n" "tags_inv tg'"
    "same_conf tg2 tg'" "tg_produced tg' = tg_produced tg2 + n" by blast
  with g p show ?case by (auto simp: same_conf_def)
qed

lemma tags_run_add:
  "tags_run (m + n) N sf tg =
   (case tags_run m N sf tg of
      None \<Rightarrow> None
    | Some (ts, tg) \<Rightarrow> map_option (\<lambda>(ts', tg). (ts @ ts', tg)) (tags_run n N sf tg))"
proof (induction m arbitrary: tg)
  case 0
  show ?case by (cases "tags_run n N sf tg") auto
next
  case (Suc m)
  then show ?case
    by (auto simp: option.map_comp comp_def split_beta split: option.splits)
qed

lemma tags_run_total:
  assumes "num_rng_ok N"
  shows "tags_inv tg \<Longrightarrow>
    \<exists>ts tg'. tags_run n N sf tg = Some (ts, tg') \<and> length ts = n \<and>
      (\<forall>tags \<in> set ts. range_has (tg_tags_per_msg tg) (length tags) \<and>
        (\<forall>tag \<in> set tags. tag_ok (tg_pool tg) (tg_tag_length tg) tag))"
proof (induction n arbitrary: tg)
  case (Suc n)
  obtain tags tg2 where g: "tags_generate N sf tg = Some (tags, tg2)" "tags_inv tg2" "same_conf tg tg2"
    "range_has (tg_tags_per_msg tg) (length tags)" "\<forall>tag \<in> set tags. tag_ok (tg_pool tg) (tg_tag_length tg) tag"
    by (rule tags_generate_ok [OF assms Suc.prems])
  from Suc.IH [OF g(2)] obtain ts tg' where "tags_run n N sf tg2 = Some (ts, tg')" "length ts = n"
    "\<forall>tags \<in> set ts. range_has (tg_tags_per_msg tg2) (length tags) \<and>
        (\<forall>tag \<in> set tags. tag_ok (tg_pool tg2) (tg_tag_length tg2) tag)" by blast
  with g show ?case by (auto simp: same_conf_def)
qed simp

lemma tags_new_inv:
  assumes "tags_new sf seed tpm len n pool p = Inr tg" "fst (range_valid (<) tpm)" "range_end len < length (inner pool)"
  shows "tags_inv tg" and "restart sf tg = (if n = 0 then tg else tg)" and "tg_produced tg = 0" "tg_num_tagsets tg = n"
    and "tg_pool tg = pool" "tg_tag_length tg = len" "tg_tags_per_msg tg = tpm" "tg_unique_probability tg = p"
    and "tg_rng tg = sf seed" "tg_seed tg = seed"
  using assms by (auto simp: tags_new_def tags_inv_def restart_def MIN_TAG_LENGTH_def split: if_splits prod.splits)

lemma tags_cycle:
  assumes N: "num_rng_ok N" and inv: "tags_inv tg" and one: "float_le (Fin 1) (tg_unique_probability tg)"
    and start: "tg_produced tg = 0" "tg_rng tg = sf (tg_seed tg)" and n: "0 < tg_num_tagsets tg"
    and run: "tags_run (tg_num_tagsets tg) N sf tg = Some (ts, tg1)"
  shows "\<exists>tg'. tags_run (k * tg_num_tagsets tg) N sf tg = Some (concat (replicate k ts), tg') \<and>
    same_run (restart sf tg) (restart sf tg')"
proof (induction k)
  case 0
  then show ?case by (simp add: same_run_def same_conf_def)
next
  case (Suc k)
  let ?n = "tg_num_tagsets tg"
  from Suc obtain tg' where k: "tags_run (k * ?n) N sf tg = Some (concat (replicate k ts), tg')"
    and same: "same_run (restart sf tg) (restart sf tg')" by blast
  from tags_run_same [OF N one inv same run] n obtain tg1' where
    r: "tags_run ?n N sf tg' = Some (ts, tg1')" "same_run tg1 tg1'" by auto
  from tags_run_ok [OF N inv, of ?n sf] start run have "same_conf tg tg1" "tg_produced tg1 = ?n" by auto
  then have "same_run (restart sf tg) (restart sf tg1)"
    using start n by (auto simp: same_run_def same_conf_def restart_def)
  with same_run_restart [OF r(2), of sf] have "same_run (restart sf tg) (restart sf tg1')"
    by (auto simp: same_run_def same_conf_def)
  moreover have "tags_run (k * ?n + ?n) N sf tg = Some (concat (replicate k ts) @ ts, tg1')"
    using k r(1) by (simp add: tags_run_add)
  moreover have "concat (replicate k ts) @ ts = concat (replicate (Suc k) ts)"
    by (induction k) simp_all
  ultimately show ?case by (simp add: add.commute)
qed

section \<open>Properties\<close>

text \<open>
  C20. Tag generation never panics, and every tagset is well formed: its size is in
  \<open>tags_per_msg\<close>, and each tag is a nonempty key and value of pool characters joined by a colon,
  with a total length in \<open>tag_length\<close>, however many calls and reseedings came before.
\<close>

theorem tagsets_well_formed:
  assumes "num_rng_ok N" "tags_new seed_from seed tpm len n pool p = Inr tg" "fst (range_valid (<) tpm)"
    and "range_end len < length (inner pool)"
  shows "\<exists>ts tg'. tags_run k N seed_from tg = Some (ts, tg') \<and> length ts = k \<and>
    (\<forall>tags \<in> set ts. range_has tpm (length tags) \<and> (\<forall>tag \<in> set tags. tag_ok pool len tag))"
  using tags_run_total [OF assms(1) tags_new_inv(1) [OF assms(2-4)], of k seed_from] tags_new_inv(5,6,7) [OF assms(2-4)]
  by simp

definition demo_pool :: Pool where
  "demo_pool = \<lparr>inner = ''abcdefghijklmnop''\<rparr>"

definition demo_num_rng :: "nat num_rng" where
  "demo_num_rng =
     \<lparr>base = counter_rng, open_closed01 = (\<lambda>s. (if s = 0 then 1 else 1 / 4, Suc s)),
      uniform_f32 = (\<lambda>a b s. (a, Suc s)), uniform_f64 = (\<lambda>a b s. (a, Suc s)), uniform_i64 = (\<lambda>a b s. (a, Suc s)),
      weighted_index = (\<lambda>ws s. (length (takeWhile (\<lambda>w. w = 0) ws), Suc s))\<rparr>"

lemma demo_num_rng_ok [simp]: "num_rng_ok demo_num_rng"
proof -
  have "length (takeWhile (\<lambda>w. w = 0) ws) < length ws \<and> 0 < ws ! length (takeWhile (\<lambda>w. w = 0) ws)"
    if "w \<in> set ws" "0 < w" for ws and w :: nat
    using that by (induction ws) auto
  then show ?thesis by (auto simp: num_rng_ok_def demo_num_rng_def float_le_def)
qed

definition demo_tags :: "float_num \<Rightarrow> nat tags_gen" where
  "demo_tags p =
     \<lparr>tg_seed = 0, tg_rng = 0, tg_produced = 0, tg_num_tagsets = 1, tg_tags_per_msg = CR_Constant 2,
      tg_tag_length = CR_Constant 4, tg_pool = demo_pool, tg_unique_probability = p, tg_unique_tags = []\<rparr>"

lemma demo_tags_new: "p = Fin 1 \<or> p = Fin (1 / 2) \<Longrightarrow>
  tags_new (\<lambda>s. s) 0 (CR_Constant 2) (CR_Constant 4) 1 demo_pool p = Inr (demo_tags p)"
  by (auto simp: tags_new_def demo_tags_def MIN_TAG_LENGTH_def MIN_UNIQUE_TAG_RATIO_def MAX_UNIQUE_TAG_RATIO_def)

theorem tagsets_well_formed_witness:
  "\<exists>ts tg'. tags_run 5 demo_num_rng (\<lambda>s. s) (demo_tags (Fin (1 / 2))) = Some (ts, tg') \<and> length ts = 5 \<and>
    (\<forall>tags \<in> set ts. range_has (CR_Constant 2) (length tags) \<and> (\<forall>tag \<in> set tags. tag_ok demo_pool (CR_Constant 4) tag))"
  by (rule tagsets_well_formed [OF demo_num_rng_ok demo_tags_new]) (simp_all add: demo_pool_def)

text \<open>
  With a unique tag ratio of one the tagsets come in a cycle: after \<open>num_tagsets\<close> calls the
  generator reseeds itself, and any number of further rounds repeat the same tagsets.
\<close>

theorem tagsets_repeat:
  assumes "num_rng_ok N" "tags_new seed_from seed tpm len n pool (Fin 1) = Inr tg" "fst (range_valid (<) tpm)"
    and "range_end len < length (inner pool)" "0 < n"
  shows "\<exists>ts. length ts = n \<and> (\<forall>k. \<exists>tg'. tags_run (k * n) N seed_from tg = Some (concat (replicate k ts), tg'))"
proof -
  note tg = tags_new_inv [OF assms(2-4)]
  from tags_run_ok [OF assms(1) tg(1), of n seed_from] tg(3,4) obtain ts tg1 where
    "tags_run n N seed_from tg = Some (ts, tg1)" "length ts = n" by auto
  moreover have "\<exists>tg'. tags_run (k * n) N seed_from tg = Some (concat (replicate k ts), tg')" for k
    using tags_cycle [OF assms(1) tg(1), of seed_from ts tg1 k] calculation tg(3,4,8-10) assms(5) by auto
  ultimately show ?thesis by blast
qed

theorem tagsets_repeat_witness:
  "\<exists>ts. length ts = 1 \<and>
     (\<forall>k. \<exists>tg'. tags_run (k * 1) demo_num_rng (\<lambda>s. s) (demo_tags (Fin 1)) = Some (concat (replicate k ts), tg'))"
  by (rule tagsets_repeat [OF demo_num_rng_ok demo_tags_new]) (simp_all add: demo_pool_def)

text \<open>
  Below one they need not: the tags to reuse are not forgotten when the generator reseeds
  itself, so the second round, drawing the same numbers, picks from tags the first did not have.
\<close>

theorem tagsets_do_not_repeat:
  "tags_new (\<lambda>s. s) 0 (CR_Constant 2) (CR_Constant 4) 1 demo_pool (Fin (1 / 2)) = Inr (demo_tags (Fin (1 / 2))) \<and>
   map_option fst (tags_run 2 demo_num_rng (\<lambda>s. s) (demo_tags (Fin (1 / 2)))) =
     Some [[''cd:d'', ''gh:h''], [''gh:h'', ''ef:f'']]"
  by code_simp

end
