(* ===== verification/Dogstatsd_Member.thy ===== *)
theory Dogstatsd_Member
  imports Dogstatsd_Tags
begin

text \<open>
  The members of a DogStatsD payload: metrics with their templates
  (\<^verbatim>\<open>dogstatsd/metric.rs\<close>, \<^verbatim>\<open>dogstatsd/metric/template.rs\<close>), events (\<^verbatim>\<open>dogstatsd/event.rs\<close>), service
  checks (\<^verbatim>\<open>dogstatsd/service_check.rs\<close>), their generators, and the serializer of
  \<^verbatim>\<open>dogstatsd.rs\<close> with and without length-prefix framing, all under \<^verbatim>\<open>lading_payload/src\<close>.

  The event and the service check generator each own a clone of the tag generator, which a
  call through a shared reference changes; those clones are part of the state.
\<close>

section \<open>Combining states\<close>

text \<open>A generator over the random state, and the tag generator, on a state that holds both.\<close>

definition on_rng :: "('r, 'a) gen \<Rightarrow> ('r \<times> 't, 'a) gen" where
  "on_rng g = (\<lambda>(r, t). map_option (\<lambda>(x, r). (x, (r, t))) (g r))"

definition on_tags :: "'q num_rng \<Rightarrow> (nat \<Rightarrow> 'q) \<Rightarrow> ('r \<times> 'q tags_gen, Tagset) gen" where
  "on_tags Q seed_from = (\<lambda>(r, tg). map_option (\<lambda>(tags, tg). (Inr tags, (r, tg))) (tags_generate Q seed_from tg))"

definition maybe_tags :: "'r rng \<Rightarrow> 'q num_rng \<Rightarrow> (nat \<Rightarrow> 'q) \<Rightarrow> ('r \<times> 'q tags_gen, Tagset option) gen" where
  "maybe_tags R Q seed_from =
     bind_gen (on_rng (sample_bool R)) (\<lambda>b.
       if b then bind_gen (on_tags Q seed_from) (\<lambda>tags. return_gen (Some tags)) else return_gen None)"

text \<open>\<open>rng.gen::<Option<T>>()\<close>.\<close>

definition sample_option :: "'r rng \<Rightarrow> ('r, 'a) state \<Rightarrow> ('r, 'a option) gen" where
  "sample_option R g = bind_gen (sample_bool R) (\<lambda>b. if b then bind_gen (lift_gen g) (\<lambda>x. return_gen (Some x)) else return_gen None)"

section \<open>Metrics\<close>

datatype Template =
    T_Count string Tagset
  | T_Gauge string Tagset
  | T_Timer string Tagset
  | T_Histogram string Tagset
  | T_Set string Tagset
  | T_Distribution string Tagset

text \<open>Fields: name, values, sample rate where the type has one, tags, container id.\<close>

datatype Metric =
    M_Count string "NumValue list" "ZeroToOne option" Tagset "string option"
  | M_Gauge string "NumValue list" Tagset "string option"
  | M_Timer string "NumValue list" "ZeroToOne option" Tagset "string option"
  | M_Histogram string "NumValue list" "ZeroToOne option" Tagset "string option"
  | M_Set string NumValue Tagset "string option"
  | M_Distribution string "NumValue list" "ZeroToOne option" Tagset "string option"

record MetricGenerator =
  mg_container_ids :: "string list"
  mg_templates :: "Template list"
  mg_multivalue_count :: "nat ConfRange"
  mg_multivalue_pack_probability :: float_num
  mg_sampling :: "float_num ConfRange"
  mg_sampling_probability :: float_num
  mg_num_value_generator :: NumValueGenerator

fun make_template :: "nat \<Rightarrow> string \<Rightarrow> Tagset \<Rightarrow> Template option" where
  "make_template k name tags =
     (if k = 0 then Some (T_Count name tags)
      else if k = 1 then Some (T_Gauge name tags)
      else if k = 2 then Some (T_Timer name tags)
      else if k = 3 then Some (T_Distribution name tags)
      else if k = 4 then Some (T_Set name tags)
      else if k = 5 then Some (T_Histogram name tags)
      else None)"

definition lift_num :: "('r \<Rightarrow> 'a \<times> 'r) \<Rightarrow> ('r, 'a) gen" where
  "lift_num f s = (let (x, s) = f s in Some (Inr x, s))"

definition new_template ::
    "'r num_rng \<Rightarrow> 'q num_rng \<Rightarrow> (nat \<Rightarrow> 'q) \<Rightarrow> nat ConfRange \<Rightarrow> nat list \<Rightarrow> Pool \<Rightarrow> string
      \<Rightarrow> ('r \<times> 'q tags_gen, Template) gen" where
  "new_template N Q seed_from name_length weights pool prefix =
     bind_gen (on_tags Q seed_from) (\<lambda>tags.
     bind_gen (on_rng (range_sample (base N) name_length)) (\<lambda>name_sz.
     bind_gen (on_rng (ok_or_string (lift_gen (of_size (base N) pool name_sz)))) (\<lambda>strpool_name.
     bind_gen (on_rng (lift_num (weighted_index N weights))) (\<lambda>k.
       case make_template k (if prefix = [] then strpool_name else prefix @ strpool_name) tags of
         Some t \<Rightarrow> return_gen t
       | None \<Rightarrow> panic_gen))))"

definition MetricGenerator_new ::
    "'r num_rng \<Rightarrow> 'q num_rng \<Rightarrow> (nat \<Rightarrow> 'q) \<Rightarrow> nat \<Rightarrow> dsd_config \<Rightarrow> nat list \<Rightarrow> string list \<Rightarrow> Pool \<Rightarrow> string
      \<Rightarrow> ('r \<times> 'q tags_gen, MetricGenerator) gen" where
  "MetricGenerator_new N Q seed_from num_contexts c weights container_ids pool prefix =
     bind_gen (repeat_gen num_contexts (new_template N Q seed_from (dc_name_length c) weights pool prefix)) (\<lambda>templates.
       return_gen \<lparr>mg_container_ids = container_ids, mg_templates = templates,
         mg_multivalue_count = dc_multivalue_count c, mg_multivalue_pack_probability = dc_multivalue_pack_probability c,
         mg_sampling = dc_sampling_range c, mg_sampling_probability = dc_sampling_probability c,
         mg_num_value_generator = NumValueGenerator_new (dc_value_conf c)\<rparr>)"

definition sample_rate_generate :: "'r num_rng \<Rightarrow> MetricGenerator \<Rightarrow> ('r, ZeroToOne option) gen" where
  "sample_rate_generate N mg =
     bind_gen (lift_num (open_closed01 N)) (\<lambda>prob.
       if float_less (Fin prob) (mg_sampling_probability mg)
       then bind_gen (range_sample_f32 N (mg_sampling mg)) (\<lambda>rate.
              case zero_to_one (clamp01 rate) of Inr z \<Rightarrow> return_gen (Some z) | Inl e \<Rightarrow> panic_gen)
       else return_gen None)"

definition values_generate :: "'r num_rng \<Rightarrow> MetricGenerator \<Rightarrow> ('r, NumValue list) gen" where
  "values_generate N mg =
     (let g = lift_num (num_value_generate N (mg_num_value_generator mg)) in
      bind_gen g (\<lambda>v.
      bind_gen (lift_num (open_closed01 N)) (\<lambda>prob.
        if float_less (Fin prob) (mg_multivalue_pack_probability mg)
        then bind_gen (range_sample (base N) (mg_multivalue_count mg)) (\<lambda>n.
             bind_gen (repeat_gen (n - 1) g) (\<lambda>more. return_gen (v # more)))
        else return_gen [v])))"

fun metric_of_template :: "Template \<Rightarrow> NumValue list \<Rightarrow> ZeroToOne option \<Rightarrow> string option \<Rightarrow> Metric option" where
  "metric_of_template (T_Count name tags) vs rate cid = Some (M_Count name vs rate tags cid)"
| "metric_of_template (T_Gauge name tags) vs rate cid = Some (M_Gauge name vs tags cid)"
| "metric_of_template (T_Distribution name tags) vs rate cid = Some (M_Distribution name vs rate tags cid)"
| "metric_of_template (T_Histogram name tags) vs rate cid = Some (M_Histogram name vs rate tags cid)"
| "metric_of_template (T_Timer name tags) vs rate cid = Some (M_Timer name vs rate tags cid)"
| "metric_of_template (T_Set name tags) vs rate cid = (if vs = [] then None else Some (M_Set name (last vs) tags cid))"

definition metric_generate :: "'r num_rng \<Rightarrow> MetricGenerator \<Rightarrow> ('r, Metric) gen" where
  "metric_generate N mg =
     bind_gen (expect (lift_gen (State (slice_choose (base N) (mg_templates mg))))) (\<lambda>template.
     bind_gen (choose_or_not_ref (base N) (mg_container_ids mg)) (\<lambda>container_id.
     bind_gen (sample_rate_generate N mg) (\<lambda>rate.
     bind_gen (values_generate N mg) (\<lambda>vs.
       case metric_of_template template vs rate container_id of Some m \<Rightarrow> return_gen m | None \<Rightarrow> panic_gen))))"

text \<open>
  The displays. Tags are written in a loop that counts the commas still to come.
\<close>

fun show_tags_loop :: "nat \<Rightarrow> Tagset \<Rightarrow> string" where
  "show_tags_loop commas_remaining [] = []"
| "show_tags_loop commas_remaining (tag # tags) =
     tag @ (if commas_remaining \<noteq> 0 then '','' @ show_tags_loop (commas_remaining - 1) tags
            else show_tags_loop commas_remaining tags)"

definition show_tags :: "Tagset \<Rightarrow> string" where
  "show_tags tags = (if tags = [] then [] else ''|#'' @ show_tags_loop (length tags - 1) tags)"

definition show_opt :: "string \<Rightarrow> ('a \<Rightarrow> string) \<Rightarrow> 'a option \<Rightarrow> string" where
  "show_opt prefix f x = (case x of None \<Rightarrow> [] | Some y \<Rightarrow> prefix @ f y)"

definition show_values :: "(float_num \<Rightarrow> string) \<Rightarrow> NumValue list \<Rightarrow> string" where
  "show_values show_f64 vs = concat (map (\<lambda>v. '':'' @ show_num_value show_f64 v) vs)"

definition show_count :: "(float_num \<Rightarrow> string) \<Rightarrow> string \<Rightarrow> NumValue list \<Rightarrow> ZeroToOne option \<Rightarrow> Tagset \<Rightarrow> string option \<Rightarrow> string" where
  "show_count show_f64 name vs rate tags cid =
     name @ show_values show_f64 vs @ ''|c'' @ show_opt ''|@'' (show_zero_to_one show_f64) rate @ show_tags tags @
     show_opt ''|c:'' (\<lambda>s. s) cid"

definition show_gauge :: "(float_num \<Rightarrow> string) \<Rightarrow> string \<Rightarrow> NumValue list \<Rightarrow> Tagset \<Rightarrow> string option \<Rightarrow> string" where
  "show_gauge show_f64 name vs tags cid =
     name @ show_values show_f64 vs @ ''|g'' @ show_tags tags @ show_opt ''|c:'' (\<lambda>s. s) cid"

definition show_timer :: "(float_num \<Rightarrow> string) \<Rightarrow> string \<Rightarrow> NumValue list \<Rightarrow> ZeroToOne option \<Rightarrow> Tagset \<Rightarrow> string option \<Rightarrow> string" where
  "show_timer show_f64 name vs rate tags cid =
     name @ show_values show_f64 vs @ ''|ms'' @ show_opt ''|@'' (show_zero_to_one show_f64) rate @ show_tags tags @
     show_opt ''|c:'' (\<lambda>s. s) cid"

definition show_dist :: "(float_num \<Rightarrow> string) \<Rightarrow> string \<Rightarrow> NumValue list \<Rightarrow> ZeroToOne option \<Rightarrow> Tagset \<Rightarrow> string option \<Rightarrow> string" where
  "show_dist show_f64 name vs rate tags cid =
     name @ show_values show_f64 vs @ ''|d'' @ show_opt ''|@'' (show_zero_to_one show_f64) rate @ show_tags tags @
     show_opt ''|c:'' (\<lambda>s. s) cid"

definition show_set :: "(float_num \<Rightarrow> string) \<Rightarrow> string \<Rightarrow> NumValue \<Rightarrow> Tagset \<Rightarrow> string option \<Rightarrow> string" where
  "show_set show_f64 name v tags cid =
     name @ '':'' @ show_num_value show_f64 v @ ''|s'' @ show_tags tags @ show_opt ''|c:'' (\<lambda>s. s) cid"

definition show_histogram :: "(float_num \<Rightarrow> string) \<Rightarrow> string \<Rightarrow> NumValue list \<Rightarrow> ZeroToOne option \<Rightarrow> Tagset \<Rightarrow> string option \<Rightarrow> string" where
  "show_histogram show_f64 name vs rate tags cid =
     name @ show_values show_f64 vs @ ''|h'' @ show_opt ''|@'' (show_zero_to_one show_f64) rate @ show_tags tags @
     show_opt ''|c:'' (\<lambda>s. s) cid"

lemmas show_metric_defs = show_count_def show_gauge_def show_timer_def show_dist_def show_set_def show_histogram_def

fun show_metric :: "(float_num \<Rightarrow> string) \<Rightarrow> Metric \<Rightarrow> string" where
  "show_metric show_f64 (M_Count name vs rate tags cid) = show_count show_f64 name vs rate tags cid"
| "show_metric show_f64 (M_Gauge name vs tags cid) = show_gauge show_f64 name vs tags cid"
| "show_metric show_f64 (M_Timer name vs rate tags cid) = show_timer show_f64 name vs rate tags cid"
| "show_metric show_f64 (M_Histogram name vs rate tags cid) = show_histogram show_f64 name vs rate tags cid"
| "show_metric show_f64 (M_Set name v tags cid) = show_set show_f64 name v tags cid"
| "show_metric show_f64 (M_Distribution name vs rate tags cid) = show_dist show_f64 name vs rate tags cid"

section \<open>Events\<close>

datatype Priority = Priority_Normal | Priority_Low

definition priority_sample :: "'r rng \<Rightarrow> ('r, Priority) state" where
  "priority_sample R = do { k \<leftarrow> sample_range R 0 2; State_Monad.return (if k = 0 then Priority_Low else Priority_Normal) }"

fun show_priority :: "Priority \<Rightarrow> string" where
  "show_priority Priority_Normal = ''normal''"
| "show_priority Priority_Low = ''low''"

datatype Alert = Alert_Error | Alert_Warning | Alert_Info | Alert_Success

definition alert_sample :: "'r rng \<Rightarrow> ('r, Alert) state" where
  "alert_sample R = do { k \<leftarrow> sample_range R 0 4; State_Monad.return ([Alert_Error, Alert_Warning, Alert_Info, Alert_Success] ! k) }"

fun show_alert :: "Alert \<Rightarrow> string" where
  "show_alert Alert_Error = ''error''"
| "show_alert Alert_Warning = ''warning''"
| "show_alert Alert_Info = ''info''"
| "show_alert Alert_Success = ''success''"

record Event =
  ev_title :: string
  ev_text :: string
  ev_title_utf8_length :: nat
  ev_text_utf8_length :: nat
  ev_timestamp_second :: "nat option"
  ev_hostname :: "string option"
  ev_aggregation_key :: "string option"
  ev_priority :: "Priority option"
  ev_source_type_name :: "string option"
  ev_alert_type :: "Alert option"
  ev_tags :: "Tagset option"

record EventGenerator =
  eg_title_length :: "nat ConfRange"
  eg_texts_or_messages_length_range :: "nat \<times> nat"
  eg_small_strings_length_range :: "nat \<times> nat"
  eg_pool :: Pool

definition event_generate ::
    "'r rng \<Rightarrow> 'q num_rng \<Rightarrow> (nat \<Rightarrow> 'q) \<Rightarrow> EventGenerator \<Rightarrow> ('r \<times> 'q tags_gen, Event) gen" where
  "event_generate R Q seed_from eg =
     (let small = choose_or_not_fn R (lift_gen
            (of_size_range R (eg_pool eg) (fst (eg_small_strings_length_range eg)) (snd (eg_small_strings_length_range eg)))) in
      bind_gen (on_rng (range_sample R (eg_title_length eg))) (\<lambda>title_sz.
      bind_gen (on_rng (ok_or_string (lift_gen (of_size R (eg_pool eg) title_sz)))) (\<lambda>title.
      bind_gen (on_rng (ok_or_string (lift_gen
        (of_size_range R (eg_pool eg) (fst (eg_texts_or_messages_length_range eg)) (snd (eg_texts_or_messages_length_range eg)))))) (\<lambda>text.
      bind_gen (maybe_tags R Q seed_from) (\<lambda>tags.
      bind_gen (on_rng (sample_option R (sample_bits R 32))) (\<lambda>timestamp.
      bind_gen (on_rng small) (\<lambda>hostname.
      bind_gen (on_rng small) (\<lambda>aggregation_key.
      bind_gen (on_rng (sample_option R (priority_sample R))) (\<lambda>priority.
      bind_gen (on_rng small) (\<lambda>source_type_name.
      bind_gen (on_rng (sample_option R (alert_sample R))) (\<lambda>alert_type.
        return_gen \<lparr>ev_title = title, ev_text = text, ev_title_utf8_length = length title, ev_text_utf8_length = length text,
          ev_timestamp_second = timestamp, ev_hostname = hostname, ev_aggregation_key = aggregation_key,
          ev_priority = priority, ev_source_type_name = source_type_name, ev_alert_type = alert_type, ev_tags = tags\<rparr>)))))))))))"

definition show_event :: "Event \<Rightarrow> string" where
  "show_event e =
     ''_e{'' @ show_nat (ev_title_utf8_length e) @ '','' @ show_nat (ev_text_utf8_length e) @ ''}:'' @ ev_title e @ ''|'' @ ev_text e @
     show_opt ''|d:'' show_nat (ev_timestamp_second e) @ show_opt ''|h:'' (\<lambda>s. s) (ev_hostname e) @
     show_opt ''|p:'' show_priority (ev_priority e) @ show_opt ''|t:'' show_alert (ev_alert_type e) @
     show_opt ''|k:'' (\<lambda>s. s) (ev_aggregation_key e) @ show_opt ''|s:'' (\<lambda>s. s) (ev_source_type_name e) @
     show_opt [] show_tags (ev_tags e)"

section \<open>Service checks\<close>

datatype Status = Status_Ok | Status_Warning | Status_Critical | Status_Unknown

definition status_sample :: "'r rng \<Rightarrow> ('r, Status) state" where
  "status_sample R = do { k \<leftarrow> sample_range R 0 4; State_Monad.return ([Status_Ok, Status_Warning, Status_Critical, Status_Unknown] ! k) }"

fun show_status :: "Status \<Rightarrow> string" where
  "show_status Status_Ok = ''0''"
| "show_status Status_Warning = ''1''"
| "show_status Status_Critical = ''2''"
| "show_status Status_Unknown = ''3''"

record ServiceCheck =
  sc_name :: string
  sc_status :: Status
  sc_timestamp_second :: "nat option"
  sc_hostname :: "string option"
  sc_tags :: "Tagset option"
  sc_message :: "string option"

record ServiceCheckGenerator =
  sg_names :: "string list"
  sg_small_strings :: "string list"
  sg_texts_or_messages :: "string list"

definition service_check_generate ::
    "'r rng \<Rightarrow> 'q num_rng \<Rightarrow> (nat \<Rightarrow> 'q) \<Rightarrow> ServiceCheckGenerator \<Rightarrow> ('r \<times> 'q tags_gen, ServiceCheck) gen" where
  "service_check_generate R Q seed_from sg =
     bind_gen (on_rng (expect (lift_gen (State (slice_choose R (sg_names sg)))))) (\<lambda>name.
     bind_gen (on_rng (choose_or_not_ref R (sg_small_strings sg))) (\<lambda>hostname.
     bind_gen (on_rng (choose_or_not_ref R (sg_texts_or_messages sg))) (\<lambda>message.
     bind_gen (maybe_tags R Q seed_from) (\<lambda>tags.
     bind_gen (on_rng (lift_gen (status_sample R))) (\<lambda>status.
     bind_gen (on_rng (sample_option R (sample_bits R 32))) (\<lambda>timestamp.
       return_gen \<lparr>sc_name = name, sc_status = status, sc_timestamp_second = timestamp, sc_hostname = hostname,
         sc_tags = tags, sc_message = message\<rparr>))))))"

definition show_service_check :: "ServiceCheck \<Rightarrow> string" where
  "show_service_check c =
     ''_sc|'' @ sc_name c @ ''|'' @ show_status (sc_status c) @ show_opt ''|d:'' show_nat (sc_timestamp_second c) @
     show_opt ''|h:'' (\<lambda>s. s) (sc_hostname c) @ show_opt [] show_tags (sc_tags c) @ show_opt ''|m:'' (\<lambda>s. s) (sc_message c)"

section \<open>Members\<close>

datatype dsd_member = Member_Metric Metric | Member_Event Event | Member_ServiceCheck ServiceCheck

fun show_dsd_member :: "(float_num \<Rightarrow> string) \<Rightarrow> dsd_member \<Rightarrow> string" where
  "show_dsd_member show_f64 (Member_Metric m) = show_metric show_f64 m"
| "show_dsd_member show_f64 (Member_Event e) = show_event e"
| "show_dsd_member show_f64 (Member_ServiceCheck c) = show_service_check c"

record MemberGenerator =
  kind_choices :: "nat list"
  event_generator :: EventGenerator
  service_check_generator :: ServiceCheckGenerator
  metric_generator :: MetricGenerator

text \<open>The state of generation: the caller's random state and the tag generators of events and of service checks.\<close>

type_synonym ('r, 'q) dsd_state = "'r \<times> 'q tags_gen \<times> 'q tags_gen"

definition on_event :: "('r \<times> 'q tags_gen, 'a) gen \<Rightarrow> (('r, 'q) dsd_state, 'a) gen" where
  "on_event g = (\<lambda>(r, te, tc). map_option (\<lambda>(x, r, te). (x, (r, te, tc))) (g (r, te)))"

definition on_check :: "('r \<times> 'q tags_gen, 'a) gen \<Rightarrow> (('r, 'q) dsd_state, 'a) gen" where
  "on_check g = (\<lambda>(r, te, tc). map_option (\<lambda>(x, r, tc). (x, (r, te, tc))) (g (r, tc)))"

definition member_generate ::
    "'r num_rng \<Rightarrow> 'q num_rng \<Rightarrow> (nat \<Rightarrow> 'q) \<Rightarrow> MemberGenerator \<Rightarrow> (('r, 'q) dsd_state, dsd_member) gen" where
  "member_generate N Q seed_from g =
     bind_gen (on_rng (lift_num (weighted_index N (kind_choices g)))) (\<lambda>k.
       if k = 0 then bind_gen (on_rng (metric_generate N (metric_generator g))) (\<lambda>m. return_gen (Member_Metric m))
       else if k = 1
       then bind_gen (on_event (event_generate (base N) Q seed_from (event_generator g))) (\<lambda>e. return_gen (Member_Event e))
       else if k = 2
       then bind_gen (on_check (service_check_generate (base N) Q seed_from (service_check_generator g)))
              (\<lambda>c. return_gen (Member_ServiceCheck c))
       else panic_gen)"

text \<open>\<open>WeightedIndex::new\<close> refuses weights that are all zero.\<close>

definition weighted_new :: "nat list \<Rightarrow> ('s, nat list) gen" where
  "weighted_new ws = (if \<exists>w \<in> set ws. 0 < w then return_gen ws else error_gen Error_Weights)"

definition metric_choices :: "MetricWeights \<Rightarrow> nat list" where
  "metric_choices w = [mw_count w, mw_gauge w, mw_timer w, mw_distribution w, mw_set w, mw_histogram w]"

definition member_choices :: "KindWeights \<Rightarrow> nat list" where
  "member_choices w = [kw_metric w, kw_event w, kw_service_check w]"

text \<open>
  \<open>MemberGenerator::new\<close>. The result is the generator and the tag generator that events and
  service checks start from; the metric templates are built with a third copy of it.
\<close>

definition MemberGenerator_new ::
    "'r num_rng \<Rightarrow> 'q num_rng \<Rightarrow> (nat \<Rightarrow> 'q) \<Rightarrow> dsd_config \<Rightarrow> string \<Rightarrow> ('r, MemberGenerator \<times> 'q tags_gen) gen" where
  "MemberGenerator_new N Q seed_from c prefix =
     (let R = base N in
      bind_gen (lift_gen (with_size R 8000000)) (\<lambda>pool.
      bind_gen (range_sample R (dc_contexts c)) (\<lambda>num_contexts.
      bind_gen (lift_gen (sample_bits R 64)) (\<lambda>seed.
      bind_gen (case tags_new seed_from seed (dc_tags_per_msg c) (dc_tag_length c) num_contexts pool (dc_unique_tag_ratio c) of
                  Inr tg \<Rightarrow> return_gen tg
                | Inl e \<Rightarrow> error_gen Error_StringGenerate) (\<lambda>tg.
      bind_gen (bind_gen (range_sample R (dc_service_check_names c)) (\<lambda>n.
                  random_strings_with_length_range R pool n (dc_name_length c))) (\<lambda>titles.
      bind_gen (random_strings_with_length R pool 4 128 1024) (\<lambda>texts_or_messages.
      bind_gen (random_strings_with_length R pool 16 1024 8) (\<lambda>small_strings.
      bind_gen (weighted_new (metric_choices (dc_metric_weights c))) (\<lambda>weights.
      \<lambda>r. (case MetricGenerator_new N Q seed_from num_contexts c weights small_strings pool prefix (r, tg) of
              None \<Rightarrow> None
            | Some (mg, (r, _)) \<Rightarrow>
                bind_gen (weighted_new (member_choices (dc_kind_weights c))) (\<lambda>kinds.
                  case mg of
                    Inl e \<Rightarrow> error_gen e
                  | Inr mg \<Rightarrow>
                      return_gen
                        (\<lparr>kind_choices = kinds,
                          event_generator =
                            \<lparr>eg_title_length = dc_name_length c, eg_texts_or_messages_length_range = (1, 1024),
                             eg_small_strings_length_range = (1, 8), eg_pool = pool\<rparr>,
                          service_check_generator =
                            \<lparr>sg_names = titles, sg_small_strings = small_strings, sg_texts_or_messages = texts_or_messages\<rparr>,
                          metric_generator = mg\<rparr>, tg)) r))))))))))"

record DogStatsD =
  member_generator :: MemberGenerator
  framed :: bool

definition DogStatsD_new ::
    "'r num_rng \<Rightarrow> 'q num_rng \<Rightarrow> (nat \<Rightarrow> 'q) \<Rightarrow> dsd_config \<Rightarrow> ('r, DogStatsD \<times> 'q tags_gen) gen" where
  "DogStatsD_new N Q seed_from c =
     (let prefix = (if dc_prefix_metric_names c then ''smp.'' else [])
      in bind_gen (MemberGenerator_new N Q seed_from c prefix) (\<lambda>(g, tg).
           return_gen (\<lparr>member_generator = g, framed = dc_length_prefix_framed c\<rparr>, tg)))"

definition DogStatsD_default :: "'r num_rng \<Rightarrow> 'q num_rng \<Rightarrow> (nat \<Rightarrow> 'q) \<Rightarrow> ('r, DogStatsD \<times> 'q tags_gen) gen" where
  "DogStatsD_default N Q seed_from = DogStatsD_new N Q seed_from default_dsd_config"

section \<open>The serializer\<close>

text \<open>Generate members while they and their newlines fit.\<close>

function dsd_fill ::
    "('s, string) gen \<Rightarrow> nat \<Rightarrow> string list \<Rightarrow> ('s, string list \<times> nat) gen" where
  "dsd_fill g bytes_remaining members s =
     (case g s of
        None \<Rightarrow> None
      | Some (Inl e, s) \<Rightarrow> Some (Inl e, s)
      | Some (Inr encoding, s) \<Rightarrow>
          (case checked_sub bytes_remaining (length encoding + 1) of
             Some remainder \<Rightarrow> dsd_fill g remainder (members @ [encoding]) s
           | None \<Rightarrow> Some (Inr (members, bytes_remaining), s)))"
  by pat_completeness auto
termination
  by (relation "measure (\<lambda>(g, n, ms, s). n)") (auto simp: checked_sub_def split: if_splits)

declare dsd_fill.simps [simp del]

definition encoded_member ::
    "(float_num \<Rightarrow> string) \<Rightarrow> 'r num_rng \<Rightarrow> 'q num_rng \<Rightarrow> (nat \<Rightarrow> 'q) \<Rightarrow> DogStatsD \<Rightarrow> (('r, 'q) dsd_state, string) gen" where
  "encoded_member show_f64 N Q seed_from d =
     bind_gen (member_generate N Q seed_from (member_generator d)) (\<lambda>m. return_gen (show_dsd_member show_f64 m))"

definition to_bytes_plain ::
    "(float_num \<Rightarrow> string) \<Rightarrow> 'r num_rng \<Rightarrow> 'q num_rng \<Rightarrow> (nat \<Rightarrow> 'q) \<Rightarrow> DogStatsD \<Rightarrow> (payload_error, ('r, 'q) dsd_state) serializer" where
  "to_bytes_plain show_f64 N Q seed_from d max_bytes =
     bind_gen (dsd_fill (encoded_member show_f64 N Q seed_from d) max_bytes []) (\<lambda>(members, _). return_gen (lines_of members))"

definition to_le_bytes :: "nat \<Rightarrow> Bytes" where
  "to_le_bytes n = [char_of (n mod 256), char_of (n div 256 mod 256), char_of (n div 65536 mod 256), char_of (n div 16777216 mod 256)]"

definition to_bytes_length_prefix_framed ::
    "(float_num \<Rightarrow> string) \<Rightarrow> 'r num_rng \<Rightarrow> 'q num_rng \<Rightarrow> (nat \<Rightarrow> 'q) \<Rightarrow> DogStatsD \<Rightarrow> (payload_error, ('r, 'q) dsd_state) serializer" where
  "to_bytes_length_prefix_framed show_f64 N Q seed_from d max_bytes =
     bind_gen (dsd_fill (encoded_member show_f64 N Q seed_from d) max_bytes []) (\<lambda>(members, bytes_remaining).
       if bytes_remaining = max_bytes then return_gen []
       else if umax 32 < max_bytes then panic_gen
       else return_gen (to_le_bytes (max_bytes - bytes_remaining) @ lines_of members))"

definition dsd_to_bytes ::
    "(float_num \<Rightarrow> string) \<Rightarrow> 'r num_rng \<Rightarrow> 'q num_rng \<Rightarrow> (nat \<Rightarrow> 'q) \<Rightarrow> DogStatsD \<Rightarrow> (payload_error, ('r, 'q) dsd_state) serializer" where
  "dsd_to_bytes show_f64 N Q seed_from d =
     (if framed d then to_bytes_length_prefix_framed show_f64 N Q seed_from d else to_bytes_plain show_f64 N Q seed_from d)"

end
