(* ===== verification/Dogstatsd_Props.thy ===== *)
theory Dogstatsd_Props
  imports Dogstatsd_Member
begin

text \<open>
  What holds of the DogStatsD payload: when construction and generation succeed, that the
  members are well formed and can be read back from the wire, and what the two framings write.
\<close>

section \<open>Generators that succeed\<close>

definition gives :: "('s, 'a) gen \<Rightarrow> 's \<Rightarrow> ('a \<Rightarrow> 's \<Rightarrow> bool) \<Rightarrow> bool" where
  "gives g s P \<longleftrightarrow> (\<exists>x s'. g s = Some (Inr x, s') \<and> P x s')"

named_theorems gives_rules \<open>success of the generators, one rule per combinator\<close>

lemma gives_mono: "gives g s P \<Longrightarrow> (\<And>x s'. P x s' \<Longrightarrow> Q x s') \<Longrightarrow> gives g s Q"
  by (auto simp: gives_def)

lemma gives_return [simp]: "gives (return_gen x) s P \<longleftrightarrow> P x s"
  by (simp add: gives_def return_gen_def)

lemma gives_bind:
  assumes "gives g s P" "\<And>x s'. P x s' \<Longrightarrow> gives (f x) s' Q"
  shows "gives (bind_gen g f) s Q"
proof -
  obtain x s1 where x: "g s = Some (Inr x, s1)" "P x s1" using assms(1) by (auto simp: gives_def)
  from assms(2) [OF x(2)] x(1) show ?thesis by (simp add: gives_def bind_gen_def)
qed

lemma gives_lift [simp]: "gives (lift_gen m) s P \<longleftrightarrow> P (fst (run_state m s)) (snd (run_state m s))"
  by (simp add: gives_def lift_gen_def split_beta)

lemma gives_lift_num [simp]: "gives (lift_num f) s P \<longleftrightarrow> P (fst (f s)) (snd (f s))"
  by (simp add: gives_def lift_num_def split_beta)

lemma gives_on_rng:
  assumes "gives g r P" "\<And>x r'. P x r' \<Longrightarrow> Q x (r', t)"
  shows "gives (on_rng g) (r, t) Q"
  using assms by (auto simp: gives_def on_rng_def)

lemma gives_repeat:
  assumes "I s" "\<And>s. I s \<Longrightarrow> gives g s (\<lambda>x s'. P x \<and> I s')"
  shows "gives (repeat_gen n g) s (\<lambda>xs s'. length xs = n \<and> (\<forall>x \<in> set xs. P x) \<and> I s')"
  using assms(1)
proof (induction n arbitrary: s)
  case (Suc n)
  show ?case unfolding repeat_gen.simps
    by (rule gives_bind [OF assms(2) [OF Suc.prems]], rule gives_bind [OF Suc.IH]) auto
qed simp

text \<open>A generator over the random state alone gives its result whatever the state.\<close>

definition yields :: "('r, 'a) gen \<Rightarrow> ('a \<Rightarrow> bool) \<Rightarrow> bool" where
  "yields g P \<longleftrightarrow> (\<forall>s. gives g s (\<lambda>x s'. P x))"

lemma yields_gives: "yields g P \<Longrightarrow> gives g s (\<lambda>x s'. P x)"
  by (simp add: yields_def)

lemma yields_mono: "yields g P \<Longrightarrow> (\<And>x. P x \<Longrightarrow> Q x) \<Longrightarrow> yields g Q"
  by (auto simp: yields_def intro: gives_mono)

lemma yields_return [simp]: "yields (return_gen x) P \<longleftrightarrow> P x"
  by (simp add: yields_def)

lemma yields_bind: "yields g P \<Longrightarrow> (\<And>x. P x \<Longrightarrow> yields (f x) Q) \<Longrightarrow> yields (bind_gen g f) Q"
  unfolding yields_def by (blast intro: gives_bind)

lemma yields_repeat: "yields g P \<Longrightarrow> yields (repeat_gen n g) (\<lambda>xs. length xs = n \<and> (\<forall>x \<in> set xs. P x))"
  unfolding yields_def using gives_repeat [where I = "\<lambda>s. True" and g = g and P = P and n = n] by simp

lemma yields_on_rng: "yields g P \<Longrightarrow> gives (on_rng g) (r, t) (\<lambda>x s. P x \<and> snd s = t)"
  by (auto simp: yields_def intro: gives_on_rng)

section \<open>Samplers\<close>

lemma yields_bool: "yields (sample_bool R) (\<lambda>b. True)"
  by (simp add: yields_def gives_def sample_bool_def split_beta)

lemma yields_range: "rng_ok R \<Longrightarrow> fst (range_valid (<) r) \<Longrightarrow> yields (range_sample R r) (range_has r)"
  unfolding yields_def gives_def by (metis range_sample_in)

lemma yields_lift_range: "rng_ok R \<Longrightarrow> lo < hi \<Longrightarrow> yields (lift_gen (sample_range R lo hi)) (\<lambda>n. lo \<le> n \<and> n < hi)"
  by (auto simp: yields_def rng_ok_def)

definition pool_str :: "Pool \<Rightarrow> string \<Rightarrow> bool" where
  "pool_str pool str \<longleftrightarrow> set str \<subseteq> set (inner pool)"

lemma of_size_value:
  assumes "rng_ok R" "n < length (inner pool)"
  shows "\<exists>str. fst (run_state (of_size R pool n) s) = Some str \<and> length str = n \<and> pool_str pool str"
  by (rule of_size_Some [OF assms, of s]) (auto simp: pool_str_def)

lemma yields_of_size:
  assumes "rng_ok R" "n < length (inner pool)"
  shows "yields (ok_or_string (lift_gen (of_size R pool n))) (\<lambda>str. length str = n \<and> pool_str pool str)"
    and "yields (expect (lift_gen (of_size R pool n))) (\<lambda>str. length str = n \<and> pool_str pool str)"
  using of_size_value [OF assms] unfolding yields_def ok_or_string_def expect_def
  by (auto intro!: gives_bind [where P = "\<lambda>x s. \<exists>str. x = Some str \<and> length str = n \<and> pool_str pool str"])

lemma of_size_range_value:
  assumes "rng_ok R" "lo < hi" "hi \<le> length (inner pool)"
  shows "\<exists>str. fst (run_state (of_size_range R pool lo hi) s) = Some str \<and> pool_str pool str"
  by (rule of_size_range_Some [OF assms, of s]) (auto simp: pool_str_def)

lemma yields_of_size_range:
  assumes "rng_ok R" "lo < hi" "hi \<le> length (inner pool)"
  shows "yields (ok_or_string (lift_gen (of_size_range R pool lo hi))) (pool_str pool)"
    and "yields (lift_gen (of_size_range R pool lo hi)) (\<lambda>x. \<forall>str. x = Some str \<longrightarrow> pool_str pool str)"
  using of_size_range_value [OF assms] unfolding yields_def ok_or_string_def
  by (auto intro!: gives_bind [where P = "\<lambda>x s. \<exists>str. x = Some str \<and> pool_str pool str"]) (metis option.inject)

lemma yields_choose:
  assumes "rng_ok R"
  shows "xs \<noteq> [] \<Longrightarrow> yields (expect (lift_gen (State (slice_choose R xs)))) (\<lambda>x. x \<in> set xs)"
    and "yields (choose_or_not_ref R xs) (\<lambda>x. \<forall>y. x = Some y \<longrightarrow> y \<in> set xs)"
proof -
  have in_set: "fst (slice_choose R xs s) = Some x \<Longrightarrow> x \<in> set xs" for s x
    using slice_choose_in [OF assms] by (metis prod.collapse)
  show "yields (expect (lift_gen (State (slice_choose R xs)))) (\<lambda>x. x \<in> set xs)" if ne: "xs \<noteq> []"
    unfolding yields_def expect_def
  proof
    fix s
    obtain x s' where x: "slice_choose R xs s = (Some x, s')" using slice_choose_Some [OF ne, of R s] by blast
    with slice_choose_in [OF assms x] show
      "gives (bind_gen (lift_gen (State (slice_choose R xs))) (\<lambda>x. case x of None \<Rightarrow> panic_gen | Some x \<Rightarrow> return_gen x)) s
         (\<lambda>x s'. x \<in> set xs)"
      by (intro gives_bind [where P = "\<lambda>y t. y = Some x"]) auto
  qed
  show "yields (choose_or_not_ref R xs) (\<lambda>x. \<forall>y. x = Some y \<longrightarrow> y \<in> set xs)"
    unfolding choose_or_not_ref_def by (rule yields_bind [OF yields_bool]) (auto simp: yields_def in_set)
qed

lemma yields_option: "(\<And>s. P (fst (run_state g s))) \<Longrightarrow> yields (sample_option R g) (\<lambda>x. \<forall>y. x = Some y \<longrightarrow> P y)"
  unfolding sample_option_def
  by (rule yields_bind [OF yields_bool]) (auto simp: yields_def intro!: gives_bind [where P = "\<lambda>x s. P x"])

lemma yields_option_any: "yields (sample_option R g) (\<lambda>x. True)"
  by (rule yields_mono [OF yields_option [where P = "\<lambda>x. True"]]) auto

lemma yields_choose_fn:
  "yields g (\<lambda>x. \<forall>y. x = Some y \<longrightarrow> P y) \<Longrightarrow> yields (choose_or_not_fn R g) (\<lambda>x. \<forall>y. x = Some y \<longrightarrow> P y)"
  unfolding choose_or_not_fn_def by (rule yields_bind [OF yields_bool]) auto

section \<open>Well-formed members\<close>

text \<open>The characters the wire format gives a meaning to.\<close>

definition safe_str :: "string \<Rightarrow> bool" where
  "safe_str str \<longleftrightarrow> CHR ''|'' \<notin> set str \<and> CHR '':'' \<notin> set str \<and> CHR '','' \<notin> set str \<and> newline \<notin> set str"

definition tag_str :: "string \<Rightarrow> bool" where
  "tag_str tag \<longleftrightarrow> CHR ''|'' \<notin> set tag \<and> CHR '','' \<notin> set tag \<and> newline \<notin> set tag \<and> tag \<noteq> []"

definition alnum_pool :: "Pool \<Rightarrow> bool" where
  "alnum_pool pool \<longleftrightarrow> set (inner pool) \<subseteq> set ALPHANUM"

lemma ALPHANUM_safe: "safe_str ALPHANUM" "newline \<noteq> CHR '':''"
  by (simp_all add: safe_str_def ALPHANUM_def newline_def)

lemma pool_str_safe: "alnum_pool pool \<Longrightarrow> pool_str pool str \<Longrightarrow> safe_str str"
  using ALPHANUM_safe(1) by (auto simp: alnum_pool_def pool_str_def safe_str_def)

lemma tag_ok_str: "alnum_pool pool \<Longrightarrow> tag_ok pool len tag \<Longrightarrow> tag_str tag"
  using pool_str_safe [of pool] ALPHANUM_safe(2) by (fastforce simp: tag_ok_def tag_str_def safe_str_def pool_str_def)

definition opt_safe :: "string option \<Rightarrow> bool" where
  "opt_safe x \<longleftrightarrow> (\<forall>str. x = Some str \<longrightarrow> safe_str str)"

definition tags_str :: "Tagset \<Rightarrow> bool" where
  "tags_str tags \<longleftrightarrow> (\<forall>tag \<in> set tags. tag_str tag)"

fun template_ok :: "Template \<Rightarrow> bool" where
  "template_ok (T_Count name tags) \<longleftrightarrow> safe_str name \<and> tags_str tags"
| "template_ok (T_Gauge name tags) \<longleftrightarrow> safe_str name \<and> tags_str tags"
| "template_ok (T_Timer name tags) \<longleftrightarrow> safe_str name \<and> tags_str tags"
| "template_ok (T_Histogram name tags) \<longleftrightarrow> safe_str name \<and> tags_str tags"
| "template_ok (T_Set name tags) \<longleftrightarrow> safe_str name \<and> tags_str tags"
| "template_ok (T_Distribution name tags) \<longleftrightarrow> safe_str name \<and> tags_str tags"

fun metric_ok :: "Metric \<Rightarrow> bool" where
  "metric_ok (M_Count name vs rate tags cid) \<longleftrightarrow> safe_str name \<and> vs \<noteq> [] \<and> tags_str tags \<and> opt_safe cid"
| "metric_ok (M_Gauge name vs tags cid) \<longleftrightarrow> safe_str name \<and> vs \<noteq> [] \<and> tags_str tags \<and> opt_safe cid"
| "metric_ok (M_Timer name vs rate tags cid) \<longleftrightarrow> safe_str name \<and> vs \<noteq> [] \<and> tags_str tags \<and> opt_safe cid"
| "metric_ok (M_Histogram name vs rate tags cid) \<longleftrightarrow> safe_str name \<and> vs \<noteq> [] \<and> tags_str tags \<and> opt_safe cid"
| "metric_ok (M_Set name v tags cid) \<longleftrightarrow> safe_str name \<and> tags_str tags \<and> opt_safe cid"
| "metric_ok (M_Distribution name vs rate tags cid) \<longleftrightarrow> safe_str name \<and> vs \<noteq> [] \<and> tags_str tags \<and> opt_safe cid"

definition event_ok :: "Event \<Rightarrow> bool" where
  "event_ok e \<longleftrightarrow>
     safe_str (ev_title e) \<and> safe_str (ev_text e) \<and> ev_title_utf8_length e = length (ev_title e) \<and>
     ev_text_utf8_length e = length (ev_text e) \<and> opt_safe (ev_hostname e) \<and> opt_safe (ev_aggregation_key e) \<and>
     opt_safe (ev_source_type_name e) \<and> (\<forall>tags. ev_tags e = Some tags \<longrightarrow> tags_str tags)"

definition check_ok :: "ServiceCheck \<Rightarrow> bool" where
  "check_ok c \<longleftrightarrow>
     safe_str (sc_name c) \<and> opt_safe (sc_hostname c) \<and> opt_safe (sc_message c) \<and>
     (\<forall>tags. sc_tags c = Some tags \<longrightarrow> tags_str tags)"

fun member_ok :: "dsd_member \<Rightarrow> bool" where
  "member_ok (Member_Metric m) \<longleftrightarrow> metric_ok m"
| "member_ok (Member_Event e) \<longleftrightarrow> event_ok e"
| "member_ok (Member_ServiceCheck c) \<longleftrightarrow> check_ok c"

section \<open>Generation\<close>

text \<open>What the generators need of their configuration.\<close>

fun sampling_ok :: "float_num ConfRange \<Rightarrow> bool" where
  "sampling_ok (CR_Constant x) \<longleftrightarrow> x \<noteq> NaN"
| "sampling_ok (CR_Inclusive lo hi) \<longleftrightarrow> float_le lo hi \<and> f32_width_finite lo hi"

definition mg_inv :: "MetricGenerator \<Rightarrow> bool" where
  "mg_inv mg \<longleftrightarrow>
     mg_templates mg \<noteq> [] \<and> (\<forall>t \<in> set (mg_templates mg). template_ok t) \<and>
     (\<forall>cid \<in> set (mg_container_ids mg). safe_str cid) \<and>
     fst (range_valid (<) (mg_multivalue_count mg)) \<and> sampling_ok (mg_sampling mg)"

lemma clamp01_zero_to_one: "x \<noteq> NaN \<Longrightarrow> \<exists>z. zero_to_one (clamp01 x) = Inr z"
  by (cases x) (auto simp: zero_to_one_def clamp01_def float_le_def float_less_def)

lemma yields_sample_f32: "num_rng_ok N \<Longrightarrow> sampling_ok r \<Longrightarrow> yields (range_sample_f32 N r) (\<lambda>x. x \<noteq> NaN)"
proof (cases r)
  case (CR_Inclusive lo hi)
  assume "num_rng_ok N" "sampling_ok r"
  then have "float_le lo (fst (uniform_f32 N lo hi s))" for s using CR_Inclusive by (auto simp: num_rng_ok_def)
  then have "fst (uniform_f32 N lo hi s) \<noteq> NaN" for s by (auto simp: float_le_def)
  with CR_Inclusive \<open>sampling_ok r\<close> show ?thesis by (simp add: yields_def gives_def split_beta)
qed simp

lemma yields_sample_rate:
  assumes "num_rng_ok N" "sampling_ok (mg_sampling mg)"
  shows "yields (sample_rate_generate N mg) (\<lambda>r. True)"
  unfolding sample_rate_generate_def
proof (rule yields_bind [where P = "\<lambda>x. True"])
  fix prob
  show "yields (if float_less (Fin prob) (mg_sampling_probability mg)
     then bind_gen (range_sample_f32 N (mg_sampling mg))
            (\<lambda>rate. case zero_to_one (clamp01 rate) of Inl e \<Rightarrow> panic_gen | Inr z \<Rightarrow> return_gen (Some z))
     else return_gen None) (\<lambda>r. True)"
    by (auto intro!: yields_bind [OF yields_sample_f32 [OF assms]] split: sum.splits dest: clamp01_zero_to_one)
qed (simp add: yields_def)

lemma yields_values:
  assumes "num_rng_ok N" "fst (range_valid (<) (mg_multivalue_count mg))"
  shows "yields (values_generate N mg) (\<lambda>vs. vs \<noteq> [])"
  unfolding values_generate_def Let_def
proof (rule yields_bind [where P = "\<lambda>x. True"])
  have g: "yields (lift_num (num_value_generate N (mg_num_value_generator mg))) (\<lambda>x. True)" by (simp add: yields_def)
  show "yields (lift_num (num_value_generate N (mg_num_value_generator mg))) (\<lambda>x. True)" by (rule g)
  show "yields (bind_gen (lift_num (open_closed01 N)) (\<lambda>prob.
      if float_less (Fin prob) (mg_multivalue_pack_probability mg)
      then bind_gen (range_sample (base N) (mg_multivalue_count mg)) (\<lambda>n.
             bind_gen (repeat_gen (n - 1) (lift_num (num_value_generate N (mg_num_value_generator mg))))
               (\<lambda>more. return_gen (v # more)))
      else return_gen [v])) (\<lambda>vs. vs \<noteq> [])" for v
    by (rule yields_bind [where P = "\<lambda>x. True"])
      (auto simp: yields_def [of "lift_num _"] intro!: yields_bind [OF yields_range [OF num_rng_base [OF assms(1)] assms(2)]]
        yields_bind [OF yields_repeat [OF g]])
qed

lemma metric_of_template_ok:
  "template_ok t \<Longrightarrow> vs \<noteq> [] \<Longrightarrow> opt_safe cid \<Longrightarrow> \<exists>m. metric_of_template t vs rate cid = Some m \<and> metric_ok m"
  by (cases t) auto

lemma yields_metric:
  assumes "num_rng_ok N" "mg_inv mg"
  shows "yields (metric_generate N mg) metric_ok"
  unfolding metric_generate_def
proof (rule yields_bind [OF yields_choose(1) [OF num_rng_base [OF assms(1)]]])
  show "mg_templates mg \<noteq> []" using assms(2) by (simp add: mg_inv_def)
  fix t
  assume "t \<in> set (mg_templates mg)"
  then have t: "template_ok t" using assms(2) by (simp add: mg_inv_def)
  show "yields (bind_gen (choose_or_not_ref (base N) (mg_container_ids mg)) (\<lambda>cid.
      bind_gen (sample_rate_generate N mg) (\<lambda>rate. bind_gen (values_generate N mg) (\<lambda>vs.
        case metric_of_template t vs rate cid of None \<Rightarrow> panic_gen | Some m \<Rightarrow> return_gen m)))) metric_ok"
  proof (rule yields_bind [OF yields_choose(2) [OF num_rng_base [OF assms(1)]]])
    have samp: "sampling_ok (mg_sampling mg)" using assms(2) by (simp add: mg_inv_def)
    fix cid
    assume "\<forall>y. cid = Some y \<longrightarrow> y \<in> set (mg_container_ids mg)"
    then have cid: "opt_safe cid" using assms(2) by (auto simp: opt_safe_def mg_inv_def)
    have "yields (bind_gen (values_generate N mg) (\<lambda>vs.
        case metric_of_template t vs rate cid of None \<Rightarrow> panic_gen | Some m \<Rightarrow> return_gen m)) metric_ok" for rate
    proof (rule yields_bind [OF yields_values [OF assms(1)]])
      show "fst (range_valid (<) (mg_multivalue_count mg))" using assms(2) by (simp add: mg_inv_def)
      show "yields (case metric_of_template t vs rate cid of None \<Rightarrow> panic_gen | Some m \<Rightarrow> return_gen m) metric_ok" if "vs \<noteq> []" for vs
        using metric_of_template_ok [OF t that cid, of rate] by auto
    qed
    then show "yields (bind_gen (sample_rate_generate N mg) (\<lambda>rate. bind_gen (values_generate N mg) (\<lambda>vs.
        case metric_of_template t vs rate cid of None \<Rightarrow> panic_gen | Some m \<Rightarrow> return_gen m))) metric_ok"
      by (rule yields_bind [OF yields_sample_rate [OF assms(1) samp]])
  qed
qed

text \<open>Binding a generator over the random state, and the optional tags, on the combined state.\<close>

definition tagger_ok :: "'q tags_gen \<Rightarrow> bool" where
  "tagger_ok tg \<longleftrightarrow> tags_inv tg \<and> alnum_pool (tg_pool tg)"

lemma gives_bind_rng:
  assumes "yields g P" "\<And>x r'. P x \<Longrightarrow> gives (f x) (r', t) Q"
  shows "gives (bind_gen (on_rng g) f) (r, t) Q"
  by (rule gives_bind [OF yields_on_rng [OF assms(1)]]) (use assms(2) in auto)

lemma gives_on_tags:
  assumes "num_rng_ok Q" "tagger_ok tg"
  shows "gives (on_tags Q seed_from) (r, tg) (\<lambda>tags s. tags_str tags \<and> tagger_ok (snd s))"
proof -
  obtain tags tg' where t: "tags_generate Q seed_from tg = Some (tags, tg')" "tags_inv tg'" "same_conf tg tg'"
    "\<forall>tag \<in> set tags. tag_ok (tg_pool tg) (tg_tag_length tg) tag"
    by (rule tags_generate_ok [OF assms(1)]) (use assms(2) in \<open>auto simp: tagger_ok_def\<close>)
  have "tags_str tags" using t(4) assms(2) by (auto simp: tags_str_def tagger_ok_def intro: tag_ok_str)
  with t assms(2) show ?thesis by (auto simp: gives_def on_tags_def tagger_ok_def same_conf_def)
qed

lemma gives_bind_tags:
  assumes "num_rng_ok Q" "tagger_ok tg"
    and "\<And>x r' tg'. (\<forall>tags. x = Some tags \<longrightarrow> tags_str tags) \<Longrightarrow> tagger_ok tg' \<Longrightarrow> gives (f x) (r', tg') P"
  shows "gives (bind_gen (maybe_tags R Q seed_from) f) (r, tg) P"
proof (rule gives_bind [where P = "\<lambda>x s. (\<forall>tags. x = Some tags \<longrightarrow> tags_str tags) \<and> tagger_ok (snd s)"])
  show "gives (maybe_tags R Q seed_from) (r, tg) (\<lambda>x s. (\<forall>tags. x = Some tags \<longrightarrow> tags_str tags) \<and> tagger_ok (snd s))"
    unfolding maybe_tags_def
    by (rule gives_bind_rng [OF yields_bool])
      (use assms(2) in \<open>auto intro!: gives_bind [OF gives_on_tags [OF assms(1,2)]]\<close>)
qed (use assms(3) in auto)

definition eg_inv :: "EventGenerator \<Rightarrow> bool" where
  "eg_inv eg \<longleftrightarrow>
     alnum_pool (eg_pool eg) \<and> fst (range_valid (<) (eg_title_length eg)) \<and>
     range_end (eg_title_length eg) < length (inner (eg_pool eg)) \<and>
     eg_texts_or_messages_length_range eg = (1, 1024) \<and> eg_small_strings_length_range eg = (1, 8) \<and>
     1024 \<le> length (inner (eg_pool eg))"

lemma gives_event:
  assumes "num_rng_ok N" "num_rng_ok Q" "eg_inv eg" "tagger_ok tg"
  shows "gives (event_generate (base N) Q seed_from eg) (r, tg) (\<lambda>e s. event_ok e \<and> tagger_ok (snd s))"
proof -
  note R = num_rng_base [OF assms(1)]
  note eg = assms(3) [unfolded eg_inv_def]
  have small: "yields (choose_or_not_fn (base N) (lift_gen (of_size_range (base N) (eg_pool eg) 1 8))) opt_safe"
    unfolding opt_safe_def
    by (rule yields_choose_fn, rule yields_mono [OF yields_of_size_range(2) [OF R]]) (use eg in \<open>auto intro: pool_str_safe\<close>)
  have small': "yields (choose_or_not_fn (base N) (lift_gen (of_size_range (base N) (eg_pool eg)
      (fst (eg_small_strings_length_range eg)) (snd (eg_small_strings_length_range eg))))) opt_safe"
    using small eg by simp
  show ?thesis
    unfolding event_generate_def Let_def
    apply (rule gives_bind_rng [OF yields_range [OF R]])
    subgoal using eg by simp
    apply (rule gives_bind_rng [OF yields_of_size(1) [OF R]])
    subgoal using eg by (auto simp: range_has_def)
    apply (rule gives_bind_rng [OF yields_of_size_range(1) [OF R]])
    subgoal using eg by simp
    subgoal using eg by simp
    apply (rule gives_bind_tags [OF assms(2,4)])
    apply (rule gives_bind_rng [OF yields_option_any], rule gives_bind_rng [OF small'], rule gives_bind_rng [OF small'])
    apply (rule gives_bind_rng [OF yields_option_any], rule gives_bind_rng [OF small'], rule gives_bind_rng [OF yields_option_any])
    using eg by (auto simp: event_ok_def intro: pool_str_safe)
qed

definition sg_inv :: "ServiceCheckGenerator \<Rightarrow> bool" where
  "sg_inv sg \<longleftrightarrow>
     sg_names sg \<noteq> [] \<and> (\<forall>str \<in> set (sg_names sg) \<union> set (sg_small_strings sg) \<union> set (sg_texts_or_messages sg). safe_str str)"

lemma gives_service_check:
  assumes "num_rng_ok N" "num_rng_ok Q" "sg_inv sg" "tagger_ok tg"
  shows "gives (service_check_generate (base N) Q seed_from sg) (r, tg) (\<lambda>c s. check_ok c \<and> tagger_ok (snd s))"
proof -
  note R = num_rng_base [OF assms(1)]
  note sg = assms(3) [unfolded sg_inv_def]
  have status: "yields (lift_gen (status_sample (base N))) (\<lambda>x. True)" by (simp add: yields_def)
  show ?thesis
    unfolding service_check_generate_def
    apply (rule gives_bind_rng [OF yields_choose(1) [OF R]])
    subgoal using sg by simp
    apply (rule gives_bind_rng [OF yields_choose(2) [OF R]], rule gives_bind_rng [OF yields_choose(2) [OF R]])
    apply (rule gives_bind_tags [OF assms(2,4)], rule gives_bind_rng [OF status], rule gives_bind_rng [OF yields_option_any])
    using sg by (auto simp: check_ok_def opt_safe_def)
qed

definition dsd_inv :: "MemberGenerator \<Rightarrow> bool" where
  "dsd_inv g \<longleftrightarrow>
     (\<exists>w \<in> set (kind_choices g). 0 < w) \<and> length (kind_choices g) = 3 \<and>
     eg_inv (event_generator g) \<and> sg_inv (service_check_generator g) \<and> mg_inv (metric_generator g)"

definition taggers_ok :: "('r, 'q) dsd_state \<Rightarrow> bool" where
  "taggers_ok s \<longleftrightarrow> tagger_ok (fst (snd s)) \<and> tagger_ok (snd (snd s))"

lemma gives_on_event:
  assumes "gives g (r, te) (\<lambda>x s. P x \<and> tagger_ok (snd s))" "tagger_ok tc"
  shows "gives (on_event g) (r, te, tc) (\<lambda>x s. P x \<and> taggers_ok s)"
  using assms by (auto simp: gives_def on_event_def taggers_ok_def)

lemma gives_on_check:
  assumes "gives g (r, tc) (\<lambda>x s. P x \<and> tagger_ok (snd s))" "tagger_ok te"
  shows "gives (on_check g) (r, te, tc) (\<lambda>x s. P x \<and> taggers_ok s)"
  using assms by (auto simp: gives_def on_check_def taggers_ok_def)

lemma gives_member:
  assumes N: "num_rng_ok N" and Q: "num_rng_ok Q" and g: "dsd_inv g" and s: "taggers_ok s"
  shows "gives (member_generate N Q seed_from g) s (\<lambda>m s. member_ok m \<and> taggers_ok s)"
proof -
  obtain r te tc where st: "s = (r, te, tc)" by (cases s) auto
  have t: "tagger_ok te" "tagger_ok tc" using s st by (simp_all add: taggers_ok_def)
  note inv = g [unfolded dsd_inv_def]
  have k: "yields (lift_num (weighted_index N (kind_choices g))) (\<lambda>k. k < 3)"
    using N inv unfolding yields_def num_rng_ok_def by auto
  have m: "gives (bind_gen (on_rng (metric_generate N (metric_generator g))) (\<lambda>m. return_gen (Member_Metric m))) (r', te, tc)
      (\<lambda>m s. member_ok m \<and> taggers_ok s)" for r'
    by (rule gives_bind_rng [OF yields_metric [OF N]]) (use inv t in \<open>auto simp: taggers_ok_def\<close>)
  have e: "gives (bind_gen (on_event (event_generate (base N) Q seed_from (event_generator g))) (\<lambda>e. return_gen (Member_Event e)))
      (r', te, tc) (\<lambda>m s. member_ok m \<and> taggers_ok s)" for r'
    by (rule gives_bind [OF gives_on_event [OF gives_event [OF N Q _ t(1)] t(2)]]) (use inv in auto)
  have c: "gives (bind_gen (on_check (service_check_generate (base N) Q seed_from (service_check_generator g)))
      (\<lambda>c. return_gen (Member_ServiceCheck c))) (r', te, tc) (\<lambda>m s. member_ok m \<and> taggers_ok s)" for r'
    by (rule gives_bind [OF gives_on_check [OF gives_service_check [OF N Q _ t(2)] t(1)]]) (use inv in auto)
  show ?thesis
    unfolding member_generate_def st by (rule gives_bind_rng [OF k]) (use m e c in auto)
qed

section \<open>Construction\<close>

lemma dsd_valid_ok:
  assumes "dsd_valid c = Inr ()"
  shows "fst (range_valid (<) (dc_contexts c))" "0 < range_start (dc_contexts c)"
    "fst (range_valid (<) (dc_service_check_names c))" "fst (range_valid (<) (dc_tag_length c))"
    "fst (range_valid (<) (dc_name_length c))" "0 < range_start (dc_name_length c)" "range_end (dc_name_length c) \<le> 4096"
    "fst (range_valid (<) (dc_tags_per_msg c))" "fst (range_valid (<) (dc_multivalue_count c))"
    "fst (value_valid (dc_value_conf c))"
  using assms by (auto simp: dsd_valid_def MAX_NAME_LENGTH_def split: if_splits prod.splits)

lemma make_template_ok:
  assumes "k < 6" "safe_str name" "tags_str tags"
  shows "\<exists>t. make_template k name tags = Some t \<and> template_ok t"
  using assms by (auto simp: numeral_eq_Suc less_Suc_eq)

lemma gives_new_template:
  assumes N: "num_rng_ok N" and Q: "num_rng_ok Q" and pool: "alnum_pool pool" "4096 < length (inner pool)"
    and len: "fst (range_valid (<) len)" "range_end len \<le> 4096" and ws: "\<exists>w \<in> set ws. 0 < w" "length ws = 6"
    and prefix: "safe_str prefix" and tg: "tagger_ok (snd s)"
  shows "gives (new_template N Q seed_from len ws pool prefix) s (\<lambda>t s'. template_ok t \<and> tagger_ok (snd s'))"
proof -
  note R = num_rng_base [OF N]
  have k: "yields (lift_num (weighted_index N ws)) (\<lambda>k. k < 6)"
    using N ws unfolding yields_def num_rng_ok_def by auto
  obtain r t where s: "s = (r, t)" by (cases s)
  have t: "tagger_ok t" using tg s by simp
  have name: "safe_str (if prefix = [] then str else prefix @ str)" if "pool_str pool str" for str
    using pool_str_safe [OF pool(1) that] prefix by (auto simp: safe_str_def)
  show ?thesis
    unfolding new_template_def s
  proof (rule gives_bind [OF gives_on_tags [OF Q t]])
    fix tags and s' :: "'a \<times> 'b tags_gen"
    assume tags: "tags_str tags \<and> tagger_ok (snd s')"
    obtain r' t' where s': "s' = (r', t')" by (cases s')
    show "gives (bind_gen (on_rng (range_sample (base N) len)) (\<lambda>name_sz.
        bind_gen (on_rng (ok_or_string (lift_gen (of_size (base N) pool name_sz)))) (\<lambda>strpool_name.
        bind_gen (on_rng (lift_num (weighted_index N ws))) (\<lambda>k.
          case make_template k (if prefix = [] then strpool_name else prefix @ strpool_name) tags of
            None \<Rightarrow> panic_gen | Some t \<Rightarrow> return_gen t)))) s' (\<lambda>t s'. template_ok t \<and> tagger_ok (snd s'))"
      unfolding s'
      apply (rule gives_bind_rng [OF yields_range [OF R len(1)]])
      apply (rule gives_bind_rng [OF yields_of_size(1) [OF R]])
      subgoal using len(2) pool(2) by (auto simp: range_has_def)
      apply (rule gives_bind_rng [OF k])
      subgoal for sz r1 str r2 j r3
        using make_template_ok [of j "if prefix = [] then str else prefix @ str" tags] name [of str] tags s'
        by (auto simp del: make_template.simps)
      done
  qed
qed

definition dsd_built :: "dsd_config \<Rightarrow> MemberGenerator \<Rightarrow> bool" where
  "dsd_built c g \<longleftrightarrow>
     kind_choices g = member_choices (dc_kind_weights c) \<and> (\<exists>w \<in> set (kind_choices g). 0 < w) \<and>
     eg_inv (event_generator g) \<and>
     range_has (dc_service_check_names c) (length (sg_names (service_check_generator g))) \<and>
     (\<forall>str \<in> set (sg_names (service_check_generator g)) \<union> set (sg_small_strings (service_check_generator g)) \<union>
        set (sg_texts_or_messages (service_check_generator g)). safe_str str) \<and>
     mg_templates (metric_generator g) \<noteq> [] \<and> (\<forall>t \<in> set (mg_templates (metric_generator g)). template_ok t) \<and>
     (\<forall>cid \<in> set (mg_container_ids (metric_generator g)). safe_str cid) \<and>
     fst (range_valid (<) (mg_multivalue_count (metric_generator g))) \<and>
     mg_sampling (metric_generator g) = dc_sampling_range c"

text \<open>What \<open>valid\<close> does not ask but the construction needs.\<close>

definition dsd_buildable :: "dsd_config \<Rightarrow> bool" where
  "dsd_buildable c \<longleftrightarrow>
     dsd_valid c = Inr () \<and> 3 \<le> range_start (dc_tag_length c) \<and> range_end (dc_tag_length c) < 65536 \<and>
     float_le MIN_UNIQUE_TAG_RATIO (dc_unique_tag_ratio c) \<and> float_le (dc_unique_tag_ratio c) MAX_UNIQUE_TAG_RATIO \<and>
     (\<exists>w \<in> set (metric_choices (dc_metric_weights c)). 0 < w) \<and> (\<exists>w \<in> set (member_choices (dc_kind_weights c)). 0 < w)"

lemma yields_strings:
  assumes "rng_ok R" "alnum_pool pool" "fst (range_valid (<) len)" "range_end len < length (inner pool)"
  shows "yields (random_strings_with_length_range R pool n len) (\<lambda>strs. length strs = n \<and> (\<forall>str \<in> set strs. safe_str str))"
  unfolding random_strings_with_length_range_def
proof (rule yields_repeat, rule yields_bind [OF yields_range [OF assms(1,3)]])
  fix sz assume "range_has len sz"
  then have "sz < length (inner pool)" using assms(4) by (simp add: range_has_def)
  from yields_of_size(2) [OF assms(1) this] show "yields (expect (lift_gen (of_size R pool sz))) safe_str"
    by (rule yields_mono) (auto intro: pool_str_safe [OF assms(2)])
qed

lemma yields_strings_total:
  assumes "rng_ok R" "alnum_pool pool" "lo < hi" "1 < m" "m < length (inner pool)"
  shows "yields (random_strings_with_length R pool lo hi m) (\<lambda>strs. \<forall>str \<in> set strs. safe_str str)"
  unfolding random_strings_with_length_def
  by (rule yields_bind [OF yields_lift_range [OF assms(1,3)]], rule yields_mono [OF yields_strings [OF assms(1,2)]])
    (use assms(4,5) in auto)

lemma gives_weighted: "\<exists>w \<in> set ws. 0 < w \<Longrightarrow> gives (weighted_new ws) s (\<lambda>x s'. x = ws \<and> s' = s)"
  by (simp add: weighted_new_def gives_def return_gen_def)

lemma gives_MetricGenerator_new:
  assumes N: "num_rng_ok N" and Q: "num_rng_ok Q" and pool: "alnum_pool pool" "4096 < length (inner pool)"
    and c: "dsd_valid c = Inr ()" and ws: "\<exists>w \<in> set ws. 0 < w" "length ws = 6" and prefix: "safe_str prefix"
    and tg: "tagger_ok tg" and n: "0 < n" and ids: "\<forall>str \<in> set ids. safe_str str"
  shows "gives (MetricGenerator_new N Q seed_from n c ws ids pool prefix) (r, tg)
    (\<lambda>mg s. mg_templates mg \<noteq> [] \<and> (\<forall>t \<in> set (mg_templates mg). template_ok t) \<and>
       (\<forall>cid \<in> set (mg_container_ids mg). safe_str cid) \<and> fst (range_valid (<) (mg_multivalue_count mg)) \<and>
       mg_sampling mg = dc_sampling_range c)"
  unfolding MetricGenerator_new_def
proof (rule gives_bind [OF gives_repeat [where I = "\<lambda>s. tagger_ok (snd s)" and P = template_ok]])
  show "gives (new_template N Q seed_from (dc_name_length c) ws pool prefix) s (\<lambda>t s'. template_ok t \<and> tagger_ok (snd s'))"
    if "tagger_ok (snd s)" for s
    by (rule gives_new_template [OF N Q pool dsd_valid_ok(5,7) [OF c] ws prefix that])
qed (use tg n ids dsd_valid_ok(9) [OF c] in auto)

lemma tags_new_built:
  assumes c: "dsd_buildable c" and p: "alnum_pool pool" "length (inner pool) = 8000000"
  shows "\<exists>tg. tags_new seed_from seed (dc_tags_per_msg c) (dc_tag_length c) n pool (dc_unique_tag_ratio c) = Inr tg \<and> tagger_ok tg"
proof -
  have valid: "dsd_valid c = Inr ()" using c by (simp add: dsd_buildable_def)
  note v = dsd_valid_ok [OF valid]
  obtain tg where tg: "tags_new seed_from seed (dc_tags_per_msg c) (dc_tag_length c) n pool (dc_unique_tag_ratio c) = Inr tg"
    using c v(4) by (cases "range_valid (<) (dc_tag_length c)") (auto simp: dsd_buildable_def tags_new_def MIN_TAG_LENGTH_def)
  have "range_end (dc_tag_length c) < length (inner pool)" using c p by (simp add: dsd_buildable_def)
  from tags_new_inv(1,5) [OF tg v(8) this] p tg show ?thesis by (auto simp: tagger_ok_def)
qed

text \<open>The last part of \<open>MemberGenerator::new\<close>, once pool, tags and strings are drawn.\<close>

lemma gives_member_parts:
  assumes N: "num_rng_ok N" and Q: "num_rng_ok Q" and c: "dsd_buildable c" and prefix: "safe_str prefix"
    and p: "alnum_pool pool" "length (inner pool) = 8000000" and n: "0 < n" and tg: "tagger_ok tg"
    and strs: "\<forall>str \<in> set titles. safe_str str" "\<forall>str \<in> set texts. safe_str str" "\<forall>str \<in> set smalls. safe_str str"
    and titles: "range_has (dc_service_check_names c) (length titles)"
  shows "gives
      (\<lambda>r. case MetricGenerator_new N Q seed_from n c (metric_choices (dc_metric_weights c)) smalls pool prefix (r, tg) of
         None \<Rightarrow> None
       | Some (mg, r, _) \<Rightarrow>
           bind_gen (weighted_new (member_choices (dc_kind_weights c))) (\<lambda>kinds.
             case mg of Inl e \<Rightarrow> error_gen e
             | Inr mg \<Rightarrow> return_gen
                 (\<lparr>kind_choices = kinds,
                   event_generator = \<lparr>eg_title_length = dc_name_length c, eg_texts_or_messages_length_range = (1, 1024),
                      eg_small_strings_length_range = (1, 8), eg_pool = pool\<rparr>,
                   service_check_generator = \<lparr>sg_names = titles, sg_small_strings = smalls, sg_texts_or_messages = texts\<rparr>,
                   metric_generator = mg\<rparr>, tg)) r)
      r' (\<lambda>(g, tg) r'. dsd_built c g \<and> tagger_ok tg)"
proof -
  have valid: "dsd_valid c = Inr ()" using c by (simp add: dsd_buildable_def)
  note v = dsd_valid_ok [OF valid]
  have ws: "\<exists>w \<in> set (metric_choices (dc_metric_weights c)). 0 < w" "length (metric_choices (dc_metric_weights c)) = 6"
    using c by (simp_all add: dsd_buildable_def metric_choices_def)
  have big: "4096 < length (inner pool)" using p(2) by simp
  from gives_MetricGenerator_new [OF N Q p(1) big valid ws prefix tg n strs(3), of seed_from r'] obtain mg r2 t2 where
    mg: "MetricGenerator_new N Q seed_from n c (metric_choices (dc_metric_weights c)) smalls pool prefix (r', tg) = Some (Inr mg, r2, t2)"
    "mg_templates mg \<noteq> []" "\<forall>t \<in> set (mg_templates mg). template_ok t" "\<forall>cid \<in> set (mg_container_ids mg). safe_str cid"
    "fst (range_valid (<) (mg_multivalue_count mg))" "mg_sampling mg = dc_sampling_range c"
    by (auto simp: gives_def)
  have k: "\<exists>w \<in> set (member_choices (dc_kind_weights c)). 0 < w" using c by (simp add: dsd_buildable_def)
  then show ?thesis
    using mg strs titles tg p v(5,7)
    by (auto simp: gives_def weighted_new_def bind_gen_def return_gen_def dsd_built_def eg_inv_def)
qed

lemma gives_MemberGenerator_new:
  assumes N: "num_rng_ok N" and Q: "num_rng_ok Q" and c: "dsd_buildable c" and prefix: "safe_str prefix"
  shows "gives (MemberGenerator_new N Q seed_from c prefix) r (\<lambda>(g, tg) r'. dsd_built c g \<and> tagger_ok tg)"
proof -
  note R = num_rng_base [OF N]
  have valid: "dsd_valid c = Inr ()" using c by (simp add: dsd_buildable_def)
  note v = dsd_valid_ok [OF valid]
  have pool: "yields (lift_gen (with_size (base N) 8000000)) (\<lambda>pool. alnum_pool pool \<and> length (inner pool) = 8000000)"
    using with_size_pool [of "base N" 8000000] by (simp add: yields_def alnum_pool_def prod_eq_iff)
  have bits: "yields (lift_gen (sample_bits (base N) 64)) (\<lambda>x. True)" by (simp add: yields_def)
  show ?thesis
    unfolding MemberGenerator_new_def Let_def
    apply (rule gives_bind [OF yields_gives [OF pool]])
    apply (rule gives_bind [OF yields_gives [OF yields_range [OF R v(1)]]])
    apply (rule gives_bind [OF yields_gives [OF bits]])
    apply (rule gives_bind [where P = "\<lambda>tg s. tagger_ok tg"])
    subgoal for pool r1 n r2 seed r3 using tags_new_built [OF c, of pool seed_from seed n] by auto
    apply (rule gives_bind [where P = "\<lambda>ts s. range_has (dc_service_check_names c) (length ts) \<and> (\<forall>str \<in> set ts. safe_str str)"])
    subgoal for pool r1 n r2 seed r3 tg r4
      by (rule gives_bind [OF yields_gives [OF yields_range [OF R v(3)]]], rule gives_mono [OF yields_gives [OF yields_strings [OF R]]])
        (use v(5,7) in auto)
    apply (rule gives_bind [OF yields_gives [OF yields_strings_total [OF R]]], blast, simp, simp, simp)
    apply (rule gives_bind [OF yields_gives [OF yields_strings_total [OF R]]], blast, simp, simp, simp)
    apply (rule gives_bind [OF gives_weighted])
    subgoal using c by (simp add: dsd_buildable_def)
    subgoal for pool r1 n r2 seed r3 tg r4 titles r5 texts r6 smalls r7 ws r8
      using gives_member_parts [OF N Q c prefix, of pool n tg titles texts smalls seed_from r8] v(2) by (auto simp: range_has_def)
    done
qed

lemma dsd_built_inv:
  assumes "dsd_built c g" "1 \<le> range_start (dc_service_check_names c)" "sampling_ok (dc_sampling_range c)"
  shows "dsd_inv g"
  using assms by (auto simp: dsd_built_def dsd_inv_def sg_inv_def mg_inv_def member_choices_def range_has_def)

lemma gives_DogStatsD_new:
  assumes "num_rng_ok N" "num_rng_ok Q" "dsd_buildable c"
  shows "gives (DogStatsD_new N Q seed_from c) r
    (\<lambda>(d, tg) r'. framed d = dc_length_prefix_framed c \<and> dsd_built c (member_generator d) \<and> tagger_ok tg)"
proof -
  have "safe_str (if dc_prefix_metric_names c then ''smp.'' else [])" by (simp add: safe_str_def newline_def)
  from gives_MemberGenerator_new [OF assms this, of seed_from r] show ?thesis
    unfolding DogStatsD_new_def Let_def by (rule gives_bind) auto
qed

section \<open>Filling a block\<close>

lemma dsd_fill_gives:
  assumes "\<And>s. I s \<Longrightarrow> gives g s (\<lambda>l s'. P l \<and> I s')" "I s"
  shows "\<exists>ls rem s'. dsd_fill g n ms s = Some (Inr (ms @ ls, rem), s') \<and> (\<forall>l \<in> set ls. P l) \<and> I s' \<and>
    length (lines_of ls) + rem = n"
  using assms(2)
proof (induction n arbitrary: ms s rule: less_induct)
  case (less n)
  obtain l s1 where l: "g s = Some (Inr l, s1)" "P l" "I s1" using assms(1) [OF less.prems] by (auto simp: gives_def)
  show ?case
  proof (cases "length l + 1 \<le> n")
    case True
    from less.IH [of "n - (length l + 1)" s1 "ms @ [l]"] True l(3) obtain ls rem s' where
      "dsd_fill g (n - (length l + 1)) (ms @ [l]) s1 = Some (Inr ((ms @ [l]) @ ls, rem), s')" "\<forall>l \<in> set ls. P l" "I s'"
      "length (lines_of ls) + rem = n - (length l + 1)" by (auto simp del: append_assoc)
    with l True show ?thesis
      by (subst dsd_fill.simps) (auto simp: checked_sub_def intro!: exI [of _ "l # ls"])
  next
    case False
    with l show ?thesis by (subst dsd_fill.simps) (auto simp: checked_sub_def intro!: exI [of _ "[]"])
  qed
qed

lemma dsd_fill_lines:
  "dsd_fill g n ms s = Some (Inr (ls, rem), s') \<Longrightarrow> \<exists>new. ls = ms @ new \<and> length (lines_of new) + rem = n"
proof (induction g n ms s arbitrary: ls rem s' rule: dsd_fill.induct)
  case (1 g n ms s)
  from "1.prems" obtain l s1 where l: "g s = Some (Inr l, s1)"
    by (subst (asm) dsd_fill.simps) (auto split: option.splits sum.splits prod.splits)
  show ?case
  proof (cases "length l + 1 \<le> n")
    case True
    then have sub: "checked_sub n (length l + 1) = Some (n - (length l + 1))" by (simp add: checked_sub_def)
    from "1.prems" l sub have "dsd_fill g (n - (length l + 1)) (ms @ [l]) s1 = Some (Inr (ls, rem), s')"
      by (subst (asm) dsd_fill.simps) simp
    from "1.IH" [OF l _ _ sub this] True show ?thesis by auto
  next
    case False
    with "1.prems" l show ?thesis by (subst (asm) dsd_fill.simps) (auto simp: checked_sub_def)
  qed
qed

definition dsd_payload :: "bool \<Rightarrow> string list \<Rightarrow> Bytes" where
  "dsd_payload fr ls =
     (if \<not> fr then lines_of ls else if ls = [] then [] else to_le_bytes (length (lines_of ls)) @ lines_of ls)"

lemma dsd_to_bytes_payload:
  assumes "dsd_fill (encoded_member show_f64 N Q sf d) n [] s = Some (Inr (ls, rem), s')" "n \<le> umax 32"
  shows "dsd_to_bytes show_f64 N Q sf d n s = Some (Inr (dsd_payload (framed d) ls), s')"
proof -
  from dsd_fill_lines [OF assms(1)] have len: "length (lines_of ls) + rem = n" by simp
  moreover have "ls = [] \<longleftrightarrow> rem = n" using len by (cases ls) auto
  ultimately show ?thesis
    using assms by (auto simp: dsd_to_bytes_def to_bytes_plain_def to_bytes_length_prefix_framed_def bind_gen_def
        return_gen_def dsd_payload_def)
qed

section \<open>Properties\<close>

text \<open>
  C18. The DogStatsD payload works for every configuration that passes \<open>valid\<close> and five further
  conditions (tags of at least three characters, a ratio in range, some positive weight of
  each kind, at least one service check name, a sampling range that is not empty and
  whose width is a finite \<open>f32\<close>): construction
  succeeds, and every later block, of any size and after any blocks before it, is written
  without error or panic. It consists of whole members, each well formed, framed by the length
  of the lines where the configuration asks for it, and its lines keep the budget.
\<close>

theorem dogstatsd_serves:
  assumes "num_rng_ok N" "num_rng_ok Q" "dsd_buildable c" "1 \<le> range_start (dc_service_check_names c)"
    and "sampling_ok (dc_sampling_range c)"
  shows "\<exists>d tg r'. DogStatsD_new N Q seed_from c r = Some (Inr (d, tg), r') \<and> taggers_ok (r', tg, tg) \<and>
    (\<forall>max_bytes s. max_bytes \<le> umax 32 \<and> taggers_ok s \<longrightarrow>
      (\<exists>ms s'. dsd_to_bytes show_f64 N Q seed_from d max_bytes s =
           Some (Inr (dsd_payload (dc_length_prefix_framed c) (map (show_dsd_member show_f64) ms)), s') \<and>
         taggers_ok s' \<and> (\<forall>m \<in> set ms. member_ok m) \<and>
         length (lines_of (map (show_dsd_member show_f64) ms)) \<le> max_bytes))"
proof -
  from gives_DogStatsD_new [OF assms(1-3), of seed_from r] obtain d tg r' where
    d: "DogStatsD_new N Q seed_from c r = Some (Inr (d, tg), r')" "framed d = dc_length_prefix_framed c"
    "dsd_built c (member_generator d)" "tagger_ok tg" by (auto simp: gives_def)
  have inv: "dsd_inv (member_generator d)" by (rule dsd_built_inv [OF d(3) assms(4,5)])
  have enc: "gives (encoded_member show_f64 N Q seed_from d) s (\<lambda>l s'. (\<exists>m. l = show_dsd_member show_f64 m \<and> member_ok m) \<and> taggers_ok s')"
    if "taggers_ok s" for s
    unfolding encoded_member_def by (rule gives_bind [OF gives_member [OF assms(1,2) inv that]]) auto
  have "\<exists>ms s'. dsd_to_bytes show_f64 N Q seed_from d n s =
      Some (Inr (dsd_payload (dc_length_prefix_framed c) (map (show_dsd_member show_f64) ms)), s') \<and>
      taggers_ok s' \<and> (\<forall>m \<in> set ms. member_ok m) \<and> length (lines_of (map (show_dsd_member show_f64) ms)) \<le> n"
    if "n \<le> umax 32" "taggers_ok s" for n s
  proof -
    from dsd_fill_gives [where I = taggers_ok, OF enc that(2), of n "[]"] obtain ls rem s' where
      f: "dsd_fill (encoded_member show_f64 N Q seed_from d) n [] s = Some (Inr (ls, rem), s')"
      "\<forall>l \<in> set ls. \<exists>m. l = show_dsd_member show_f64 m \<and> member_ok m" "taggers_ok s'" "length (lines_of ls) + rem = n" by auto
    from f(2) obtain h where h: "\<forall>l \<in> set ls. l = show_dsd_member show_f64 (h l) \<and> member_ok (h l)" by metis
    then have "map (show_dsd_member show_f64) (map h ls) = ls" by (simp add: map_idI)
    with dsd_to_bytes_payload [OF f(1) that(1)] d(2) f(3,4) h show ?thesis by (intro exI [of _ "map h ls"]) auto
  qed
  with d show ?thesis by (auto simp: taggers_ok_def)
qed

lemma floorlog_small: "floorlog 2 10 = 4" "floorlog 2 2 = 2"
  by (simp_all add: compute_floorlog)

lemma ceiling_numeral_div [simp]: "\<lceil>numeral a / numeral b :: rat\<rceil> = - (- numeral a div numeral b)"
  using floor_divide_of_int_eq [where ?'a = rat, of "- numeral a" "numeral b"] by (simp add: ceiling_def)

lemma f32_literals: "f32 (1 / 10) = Fin (13421773 / 134217728)" "f32 (11 / 100) = Fin (14763950 / 134217728)"
  by (simp_all add: f32_def round_sig_def round_half_even_def floorlog_small floorlog_values Let_def)

lemmas config_defs = dsd_buildable_def default_dsd_config_def dsd_valid_def MAX_CONTEXTS_def MAX_NAME_LENGTH_def value_valid_def
  default_value_conf_def MIN_UNIQUE_TAG_RATIO_def MAX_UNIQUE_TAG_RATIO_def f32_literals metric_choices_def
  member_choices_def default_metric_weights_def default_kind_weights_def

lemma default_buildable:
  "dsd_buildable default_dsd_config" "sampling_ok (dc_sampling_range default_dsd_config)"
  by (auto simp: config_defs)

theorem dogstatsd_serves_witness:
  "\<exists>d tg r'. DogStatsD_new demo_num_rng demo_num_rng (\<lambda>s. s) default_dsd_config 0 = Some (Inr (d, tg), r') \<and> taggers_ok (r', tg, tg) \<and>
    (\<forall>max_bytes s. max_bytes \<le> umax 32 \<and> taggers_ok s \<longrightarrow>
      (\<exists>ms s'. dsd_to_bytes (\<lambda>x. ''0.5'') demo_num_rng demo_num_rng (\<lambda>s. s) d max_bytes s =
           Some (Inr (dsd_payload (dc_length_prefix_framed default_dsd_config) (map (show_dsd_member (\<lambda>x. ''0.5'')) ms)), s') \<and>
         taggers_ok s' \<and> (\<forall>m \<in> set ms. member_ok m) \<and>
         length (lines_of (map (show_dsd_member (\<lambda>x. ''0.5'')) ms)) \<le> max_bytes))"
  by (rule dogstatsd_serves [OF demo_num_rng_ok demo_num_rng_ok default_buildable(1) _ default_buildable(2)])
    (simp add: default_dsd_config_def)

definition from_le_bytes :: "Bytes \<Rightarrow> nat" where
  "from_le_bytes bs = foldr (\<lambda>b n. of_char b + 256 * n) bs 0"

lemma le_bytes_round_trip:
  assumes "n < 2 ^ 32"
  shows "from_le_bytes (to_le_bytes n) = n"
proof -
  have "n = n mod 256 + 256 * (n div 256 mod 256 + 256 * (n div 256 div 256 mod 256 + 256 * (n div 256 div 256 div 256)))"
    by (metis mod_mult_div_eq mult.commute)
  moreover have "n div 16777216 mod 256 = n div 16777216" using assms by (simp add: div_less_iff_less_mult)
  ultimately show ?thesis by (simp add: from_le_bytes_def to_le_bytes_def div_mult2_eq [symmetric] take_bit_eq_mod)
qed

text \<open>
  Framing: a framed block starts with the length of the rest as four little-endian bytes,
  so a reader recovers the lines. The prefix is not part of the budget: the block is four
  bytes longer than the lines that were fitted into it.
\<close>

theorem framed_payload_round_trip:
  assumes "framed d" "dsd_to_bytes show_f64 N Q seed_from d max_bytes s = Some (Inr bs, s')" "bs \<noteq> []"
  shows "\<exists>ls. bs = to_le_bytes (length (lines_of ls)) @ lines_of ls \<and> from_le_bytes (take 4 bs) = length (drop 4 bs) \<and>
    length bs = length (lines_of ls) + 4 \<and> length (lines_of ls) \<le> max_bytes"
proof -
  from assms obtain ls rem s1 where f: "dsd_fill (encoded_member show_f64 N Q seed_from d) max_bytes [] s = Some (Inr (ls, rem), s1)"
    and m: "max_bytes \<le> umax 32" and bs: "bs = to_le_bytes (max_bytes - rem) @ lines_of ls"
    by (auto simp: dsd_to_bytes_def to_bytes_length_prefix_framed_def bind_gen_def return_gen_def panic_gen_def
        split: option.splits sum.splits prod.splits if_splits)
  from dsd_fill_lines [OF f] have len: "length (lines_of ls) + rem = max_bytes" by simp
  then have n: "max_bytes - rem = length (lines_of ls)" by simp
  have "length (lines_of ls) < 2 ^ 32" using len m by (simp add: umax_def)
  from le_bytes_round_trip [OF this] bs n len show ?thesis
    by (intro exI [of _ ls]) (auto simp: to_le_bytes_def)
qed

definition demo_checks :: DogStatsD where
  "demo_checks =
     \<lparr>member_generator =
        \<lparr>kind_choices = [0, 0, 1],
         event_generator =
           \<lparr>eg_title_length = CR_Constant 1, eg_texts_or_messages_length_range = (1, 1024),
            eg_small_strings_length_range = (1, 8), eg_pool = demo_pool\<rparr>,
         service_check_generator = \<lparr>sg_names = [''a''], sg_small_strings = [], sg_texts_or_messages = []\<rparr>,
         metric_generator =
           \<lparr>mg_container_ids = [], mg_templates = [], mg_multivalue_count = CR_Constant 1,
            mg_multivalue_pack_probability = Fin 0, mg_sampling = CR_Constant (Fin 1), mg_sampling_probability = Fin 0,
            mg_num_value_generator = NVG_Constant (Fin 0) 0 (Fin 0)\<rparr>\<rparr>,
      framed = True\<rparr>"

text \<open>The counting generator, but every coin comes up tails.\<close>

definition tails_rng :: "nat num_rng" where
  "tails_rng = demo_num_rng\<lparr>base := counter_rng\<lparr>gen_bits := (\<lambda>w s. (0, Suc s))\<rparr>\<rparr>"

abbreviation demo_checks_state :: "(nat, nat) dsd_state" where
  "demo_checks_state \<equiv> (0, demo_tags (Fin 1), demo_tags (Fin 1))"

lemma demo_checks_bytes:
  obtains s' where "dsd_to_bytes (\<lambda>x. ''0.5'') tails_rng tails_rng (\<lambda>s. s) demo_checks 8 demo_checks_state =
   Some (Inr (to_le_bytes 8 @ lines_of [''_sc|a|1'']), s')"
proof -
  have "map_option fst (dsd_fill (encoded_member (\<lambda>x. ''0.5'') tails_rng tails_rng (\<lambda>s. s) demo_checks) 8 []
      demo_checks_state) = Some (Inr ([''_sc|a|1''], 0))" by code_simp
  then obtain s' where "dsd_fill (encoded_member (\<lambda>x. ''0.5'') tails_rng tails_rng (\<lambda>s. s) demo_checks) 8 []
      demo_checks_state = Some (Inr ([''_sc|a|1''], 0), s')" by (auto simp del: split_paired_Ex split_paired_All)
  from dsd_to_bytes_payload [OF this] have "dsd_to_bytes (\<lambda>x. ''0.5'') tails_rng tails_rng (\<lambda>s. s) demo_checks 8 demo_checks_state =
      Some (Inr (dsd_payload (framed demo_checks) [''_sc|a|1'']), s')" by (simp add: umax_def)
  moreover have "dsd_payload (framed demo_checks) [''_sc|a|1''] = to_le_bytes 8 @ lines_of [''_sc|a|1'']"
    by (simp add: dsd_payload_def demo_checks_def eval_nat_numeral)
  ultimately show thesis by (intro that) simp
qed

theorem framed_payload_round_trip_witness:
  "\<exists>bs s'. dsd_to_bytes (\<lambda>x. ''0.5'') tails_rng tails_rng (\<lambda>s. s) demo_checks 8 demo_checks_state = Some (Inr bs, s') \<and>
     (\<exists>ls. bs = to_le_bytes (length (lines_of ls)) @ lines_of ls \<and> from_le_bytes (take 4 bs) = length (drop 4 bs) \<and>
       length bs = length (lines_of ls) + 4 \<and> length (lines_of ls) \<le> 8)"
proof -
  obtain s' where s': "dsd_to_bytes (\<lambda>x. ''0.5'') tails_rng tails_rng (\<lambda>s. s) demo_checks 8 demo_checks_state =
      Some (Inr (to_le_bytes 8 @ lines_of [''_sc|a|1'']), s')" by (rule demo_checks_bytes)
  have "framed demo_checks" "to_le_bytes 8 @ lines_of [''_sc|a|1''] \<noteq> []" by (simp_all add: demo_checks_def to_le_bytes_def)
  from framed_payload_round_trip [OF this(1) s' this(2)] s' show ?thesis by blast
qed

text \<open>
  The prefix is not counted: asked for 8 bytes, the framed serializer of one short service
  check writes 12.
\<close>

theorem framed_payload_exceeds_budget:
  "\<exists>bs s'. dsd_to_bytes (\<lambda>x. ''0.5'') tails_rng tails_rng (\<lambda>s. s) demo_checks 8 demo_checks_state = Some (Inr bs, s') \<and>
     length bs = 12"
  by (rule demo_checks_bytes, intro exI conjI, assumption) (simp add: to_le_bytes_def)

text \<open>
  \<open>valid\<close> does not protect service checks: a valid configuration with zero service check
  names and only service checks to generate is built without complaint, and then every
  attempt to write a block panics.
\<close>

theorem valid_config_panics:
  assumes "num_rng_ok N" "num_rng_ok Q" "dsd_buildable c" "dc_service_check_names c = CR_Constant 0"
    and "kw_metric (dc_kind_weights c) = 0" "kw_event (dc_kind_weights c) = 0"
  shows "dsd_valid c = Inr () \<and> (\<exists>d tg r'. DogStatsD_new N Q seed_from c r = Some (Inr (d, tg), r') \<and>
    (\<forall>max_bytes s. dsd_to_bytes show_f64 N Q seed_from d max_bytes s = None))"
proof -
  from gives_DogStatsD_new [OF assms(1-3), of seed_from r] obtain d tg r' where
    d: "DogStatsD_new N Q seed_from c r = Some (Inr (d, tg), r')" "dsd_built c (member_generator d)" by (auto simp: gives_def)
  let ?g = "member_generator d"
  have k: "kind_choices ?g = [0, 0, kw_service_check (dc_kind_weights c)]" "0 < kw_service_check (dc_kind_weights c)"
    and names: "sg_names (service_check_generator ?g) = []"
    using d(2) assms(4-6) by (auto simp: dsd_built_def member_choices_def range_has_def)
  have w: "fst (weighted_index N (kind_choices ?g) r0) = 2" for r0
  proof -
    have "fst (weighted_index N (kind_choices ?g) r0) < length (kind_choices ?g)"
      "0 < kind_choices ?g ! fst (weighted_index N (kind_choices ?g) r0)"
      using weighted_index_positive [OF assms(1), of "kind_choices ?g" r0] k by auto
    with k show ?thesis by (auto simp: less_Suc_eq numeral_2_eq_2 numeral_3_eq_3)
  qed
  have none: "encoded_member show_f64 N Q seed_from d s = None" for s
  proof -
    obtain r0 te tc where s: "s = (r0, te, tc)" by (cases s) auto
    obtain r1 where "weighted_index N (kind_choices ?g) r0 = (2, r1)" using w [of r0] by (metis prod.collapse)
    with names s show ?thesis
      by (simp add: encoded_member_def member_generate_def bind_gen_def on_rng_def lift_num_def on_check_def
          service_check_generate_def expect_def lift_gen_def slice_choose_def panic_gen_def)
  qed
  have "dsd_to_bytes show_f64 N Q seed_from d n s = None" for n s
    using none [of s] dsd_fill.simps [of "encoded_member show_f64 N Q seed_from d" n "[]" s]
    by (simp add: dsd_to_bytes_def to_bytes_plain_def to_bytes_length_prefix_framed_def bind_gen_def)
  with d(1) assms(3) show ?thesis by (auto simp: dsd_buildable_def)
qed

definition checks_only :: dsd_config where
  "checks_only = default_dsd_config\<lparr>dc_service_check_names := CR_Constant 0, dc_kind_weights := KindWeights_new 0 0 1\<rparr>"

theorem valid_config_panics_witness:
  "dsd_valid checks_only = Inr () \<and> (\<exists>d tg r'. DogStatsD_new demo_num_rng demo_num_rng (\<lambda>s. s) checks_only 0 = Some (Inr (d, tg), r') \<and>
    (\<forall>max_bytes s. dsd_to_bytes (\<lambda>x. ''0.5'') demo_num_rng demo_num_rng (\<lambda>s. s) d max_bytes s = None))"
proof (rule valid_config_panics)
  show "dsd_buildable checks_only"
    by (auto simp: checks_only_def KindWeights_new_def config_defs)
qed (simp_all add: checks_only_def KindWeights_new_def)

section \<open>Reading a metric back\<close>

lemma show_tags_join: "tags \<noteq> [] \<Longrightarrow> show_tags_loop (length tags - 1) tags = join (CHR '','') tags"
  by (induction "CHR '',''" tags rule: join.induct) auto

text \<open>
  What a receiver does: cut the datagram at the bars, the first field at the colons; the others
  are told apart by their first character.
\<close>

definition field :: "char \<Rightarrow> string list \<Rightarrow> string option" where
  "field c fs = (case filter (\<lambda>f. f \<noteq> [] \<and> hd f = c) fs of [] \<Rightarrow> None | f # _ \<Rightarrow> Some (tl f))"

definition read_metric :: "string \<Rightarrow> string list \<times> string \<times> string option \<times> Tagset \<times> string option" where
  "read_metric str =
     (let fs = split_on (CHR ''|'') str; opts = drop 2 fs in
      (split_on (CHR '':'') (fs ! 0), fs ! 1, field (CHR ''@'') opts,
       (case field (CHR ''#'') opts of None \<Rightarrow> [] | Some ts \<Rightarrow> split_on (CHR '','') ts),
       map_option tl (field (CHR ''c'') opts)))"

fun metric_parts :: "(float_num \<Rightarrow> string) \<Rightarrow> Metric \<Rightarrow> string list \<times> string \<times> string option \<times> Tagset \<times> string option" where
  "metric_parts sf (M_Count name vs rate tags cid) =
     (name # map (show_num_value sf) vs, ''c'', map_option (show_zero_to_one sf) rate, tags, cid)"
| "metric_parts sf (M_Gauge name vs tags cid) = (name # map (show_num_value sf) vs, ''g'', None, tags, cid)"
| "metric_parts sf (M_Timer name vs rate tags cid) =
     (name # map (show_num_value sf) vs, ''ms'', map_option (show_zero_to_one sf) rate, tags, cid)"
| "metric_parts sf (M_Histogram name vs rate tags cid) =
     (name # map (show_num_value sf) vs, ''h'', map_option (show_zero_to_one sf) rate, tags, cid)"
| "metric_parts sf (M_Set name v tags cid) = ([name, show_num_value sf v], ''s'', None, tags, cid)"
| "metric_parts sf (M_Distribution name vs rate tags cid) =
     (name # map (show_num_value sf) vs, ''d'', map_option (show_zero_to_one sf) rate, tags, cid)"

text \<open>The decimal rendering of a float has none of the separators.\<close>

definition float_text :: "(float_num \<Rightarrow> string) \<Rightarrow> bool" where
  "float_text show_f64 \<longleftrightarrow> (\<forall>x. safe_str (show_f64 x))"

lemma show_nat_safe: "safe_str (show_nat n)"
  using show_nat_digits [of n] by (auto simp: safe_str_def list_all_iff is_digit_def newline_def)

lemma show_num_value_safe: "float_text sf \<Longrightarrow> safe_str (show_num_value sf v)"
  using show_nat_safe by (cases v) (auto simp: float_text_def show_int_def safe_str_def newline_def)

lemma show_zero_to_one_safe: "float_text sf \<Longrightarrow> safe_str (show_zero_to_one sf z)"
  by (cases z) (auto simp: float_text_def safe_str_def newline_def)

lemma show_values_join: "name @ show_values sf vs = join (CHR '':'') (name # map (show_num_value sf) vs)"
proof (induction vs arbitrary: name)
  case (Cons a vs)
  have "show_values sf (a # vs) = CHR '':'' # show_num_value sf a @ show_values sf vs" by (simp add: show_values_def)
  then show ?case using Cons.IH [of "show_num_value sf a"] by simp
qed (simp add: show_values_def)

definition opt_fields :: "string option \<Rightarrow> Tagset \<Rightarrow> string option \<Rightarrow> string list" where
  "opt_fields rate tags cid =
     (case rate of None \<Rightarrow> [] | Some r \<Rightarrow> [CHR ''@'' # r]) @
     (if tags = [] then [] else [CHR ''#'' # join (CHR '','') tags]) @
     (case cid of None \<Rightarrow> [] | Some c \<Rightarrow> [''c:'' @ c])"

lemma read_fields:
  assumes names: "\<forall>str \<in> set (name # vals). safe_str str" and ty: "CHR ''|'' \<notin> set ty"
    and rate: "opt_safe rate" and tags: "tags_str tags" and cid: "opt_safe cid"
    and str: "str = join (CHR '':'') (name # vals) @ ''|'' @ ty @ concat (map (\<lambda>f. CHR ''|'' # f) (opt_fields rate tags cid))"
  shows "read_metric str = (name # vals, ty, rate, tags, cid)"
proof -
  have bar: "CHR ''|'' \<notin> set (join (CHR '':'') (name # vals))"
    using names by (auto dest!: join_mem simp: safe_str_def)
  have tag_bar: "CHR ''|'' \<notin> set (join (CHR '','') tags)" using tags by (auto dest!: join_mem simp: tags_str_def tag_str_def)
  have cut: "split_on (CHR ''|'') (w @ concat (map (\<lambda>f. CHR ''|'' # f) fs)) = w # fs"
    if "\<forall>f \<in> set (w # fs). CHR ''|'' \<notin> set f" for w fs
    using that by (induction fs arbitrary: w) auto
  have "\<forall>f \<in> set (ty # opt_fields rate tags cid). CHR ''|'' \<notin> set f"
    using ty rate cid tag_bar by (auto simp: opt_fields_def opt_safe_def safe_str_def split: option.splits)
  from cut [OF this] bar have fs: "split_on (CHR ''|'') str = join (CHR '':'') (name # vals) # ty # opt_fields rate tags cid"
    unfolding str by simp
  have nv: "split_on (CHR '':'') (join (CHR '':'') (name # vals)) = name # vals"
    by (rule split_on_join) (use names in \<open>auto simp: safe_str_def\<close>)
  have ts: "tags \<noteq> [] \<Longrightarrow> split_on (CHR '','') (join (CHR '','') tags) = tags"
    by (rule split_on_join) (use tags in \<open>auto simp: tags_str_def tag_str_def\<close>)
  show ?thesis
    using nv ts by (cases rate; cases cid) (auto simp: read_metric_def fs Let_def opt_fields_def field_def)
qed

text \<open>
  C19. What goes over the wire can be read back. For every well-formed metric, and that is what
  the generator makes, cutting the datagram at its separators recovers the name, every value,
  the type, the sample rate, the tags in order and the container id. The type is \<open>c\<close> for a count,
  \<open>g\<close> for a gauge, \<open>ms\<close> for a timer, \<open>d\<close> for a distribution, \<open>s\<close> for a set and \<open>h\<close> for a histogram;
  the format comments in the \<open>fmt\<close> of counts, gauges and timers show a \<open>d\<close> there.
\<close>

theorem metric_wire_round_trip:
  assumes "float_text show_f64" "metric_ok m"
  shows "read_metric (show_metric show_f64 m) = metric_parts show_f64 m"
proof -
  note safe = show_num_value_safe [OF assms(1)] show_zero_to_one_safe [OF assms(1)]
  have opts: "show_opt ''|@'' (show_zero_to_one show_f64) r @ show_tags tags @ show_opt ''|c:'' (\<lambda>s. s) cid =
      concat (map (\<lambda>f. CHR ''|'' # f) (opt_fields (map_option (show_zero_to_one show_f64) r) tags cid))" for r tags cid
    by (cases r; cases cid) (auto simp: show_opt_def show_tags_def show_tags_join [simplified] opt_fields_def)
  have opts_none: "show_tags tags @ show_opt ''|c:'' (\<lambda>s. s) cid =
      concat (map (\<lambda>f. CHR ''|'' # f) (opt_fields None tags cid))" for tags cid
    using opts [of None tags cid] by (simp add: show_opt_def [of "''|@''"])
  have rate: "opt_safe (map_option (show_zero_to_one show_f64) r)" for r using safe(2) by (auto simp: opt_safe_def)
  have vs: "show_values show_f64 [v] = '':'' @ show_num_value show_f64 v" for v by (simp add: show_values_def)
  show ?thesis
    using assms(2) safe(1) rate
    by (cases m; simp add: show_metric_defs; intro read_fields)
      (auto simp: opts_none opts [unfolded opts_none] show_values_join [symmetric] vs opt_safe_def)
qed


theorem metric_wire_round_trip_witness:
  "read_metric (show_metric (\<lambda>x. ''0.5'') (M_Count ''hits'' [Num_Int 3, Num_Float (Fin (1 / 2))] (Some (ZTO_Frac 2)) [''a:b'', ''c:d''] (Some ''x''))) =
   metric_parts (\<lambda>x. ''0.5'') (M_Count ''hits'' [Num_Int 3, Num_Float (Fin (1 / 2))] (Some (ZTO_Frac 2)) [''a:b'', ''c:d''] (Some ''x''))"
  by (rule metric_wire_round_trip)
    (simp_all add: float_text_def safe_str_def tags_str_def tag_str_def opt_safe_def newline_def)

end
