(* ===== verification/Payload_Config.thy ===== *)
theory Payload_Config
  imports Payload_Text Payload_Search Payload_Otel Dogstatsd_Props
begin

text \<open>
  The choice of a payload: \<open>Config\<close> of \<^verbatim>\<open>lading_payload/src/lib.rs\<close>, and \<open>Cache::fixed\<close> of
  \<^verbatim>\<open>lading_payload/src/block.rs\<close>, which makes the payload a configuration names and fills a block
  cache from it. What the payloads take from other crates and from the file system is
  gathered in one record.
\<close>

section \<open>The configuration\<close>

datatype payload_config =
    Config_Fluent
  | Config_Syslog5424
  | Config_SplunkHec SplunkEncoding
  | Config_DatadogLog
  | Config_Static string
  | Config_Ascii
  | Config_Json
  | Config_ApacheCommon
  | Config_OpentelemetryTraces
  | Config_OpentelemetryLogs
  | Config_OpentelemetryMetrics
  | Config_DogStatsD dsd_config
  | Config_TraceAgent TraceEncoding

record 'r externs =
  x_fluent_to_vec :: "fluent_member \<Rightarrow> Bytes option"
  x_syslog_to_string :: "syslog_message \<Rightarrow> string"
  x_now_rfc3339 :: "('r, string) state"
  x_attrs_to_string :: "splunk_attrs \<Rightarrow> payload_error + string"
  x_hec_to_string :: "splunk_member \<Rightarrow> payload_error + string"
  x_structured_to_string :: "dd_structured \<Rightarrow> string"
  x_dd_to_string :: "dd_member list \<Rightarrow> payload_error + string"
  x_metadata :: "string \<Rightarrow> metadata option"
  x_open_file :: "string \<Rightarrow> Bytes option"
  x_json_to_string :: "json_member \<Rightarrow> payload_error + string"
  x_span_len :: "otel_span \<Rightarrow> nat"
  x_traces_encode :: "otel_span list \<Rightarrow> Bytes"
  x_log_len :: "otel_log \<Rightarrow> nat"
  x_logs_encode :: "otel_log list \<Rightarrow> Bytes"
  x_metric_len :: "otel_metric \<Rightarrow> nat"
  x_metrics_encode :: "otel_metric list \<Rightarrow> Bytes"
  x_show_f64 :: "float_num \<Rightarrow> string"
  x_trace_encode :: "TraceEncoding \<Rightarrow> Span list list \<Rightarrow> payload_error + Bytes"
  x_choose_multiple :: "string list \<Rightarrow> nat \<Rightarrow> ('r, string list) state"

section \<open>Filling a cache\<close>

text \<open>A generator seen as the first part of a larger state.\<close>

definition rng_fst :: "'r rng \<Rightarrow> ('r \<times> 'x) rng" where
  "rng_fst R =
     \<lparr>gen_range = (\<lambda>lo hi (s, x). let (n, s) = gen_range R lo hi s in (n, (s, x))),
      gen_bits = (\<lambda>w (s, x). let (n, s) = gen_bits R w s in (n, (s, x))),
      gen_alphanumeric = (\<lambda>(s, x). let (c, s) = gen_alphanumeric R s in (c, (s, x)))\<rparr>"

lemma rng_fst_ok [simp]: "rng_ok R \<Longrightarrow> rng_ok (rng_fst R)"
  by (simp add: rng_ok_def rng_fst_def split_beta)

text \<open>
  The DogStatsD arm: a configuration that is not valid is refused, one that cannot be built is
  an error, and the tag generators live beside the random state while blocks are built.
\<close>

definition fixed_dogstatsd ::
    "'r num_rng \<Rightarrow> 'q num_rng \<Rightarrow> (nat \<Rightarrow> 'q) \<Rightarrow> (float_num \<Rightarrow> string) \<Rightarrow> nat \<Rightarrow> nat \<Rightarrow> dsd_config \<Rightarrow> 'r
      \<Rightarrow> ((payload_error cache_error + Cache) \<times> 'r) option" where
  "fixed_dogstatsd N Q seed_from show_f64 requested_bytes maximum_block_bytes conf s =
     (case dsd_valid conf of
        Inl e \<Rightarrow> Some (Inl (Error_InvalidConfig e), s)
      | Inr _ \<Rightarrow>
          (case DogStatsD_new N Q seed_from conf s of
             None \<Rightarrow> None
           | Some (Inl e, s) \<Rightarrow> Some (Inl (Error_Deserialize e), s)
           | Some (Inr (serializer, tg), s) \<Rightarrow>
               map_option (\<lambda>(r, s, _). (r, s))
                 (fixed_with (rng_fst (base N)) (dsd_to_bytes show_f64 N Q seed_from serializer)
                    requested_bytes maximum_block_bytes (s, tg, tg))))"

definition cache_fixed ::
    "'r num_rng \<Rightarrow> 'q num_rng \<Rightarrow> (nat \<Rightarrow> 'q) \<Rightarrow> 'r externs \<Rightarrow> nat \<Rightarrow> nat \<Rightarrow> payload_config \<Rightarrow> 'r
      \<Rightarrow> ((payload_error cache_error + Cache) \<times> 'r) option" where
  "cache_fixed N Q seed_from X requested_bytes maximum_block_bytes payload s =
     (if umax 32 < maximum_block_bytes \<or> requested_bytes < maximum_block_bytes
      then Some (Inl Error_MaximumBlock, s)
      else
        let R = base N;
            build = (\<lambda>ser s. fixed_with R ser requested_bytes maximum_block_bytes s)
        in case payload of
             Config_TraceAgent enc \<Rightarrow>
               (let (ta, s) = run_state (case enc of Trace_Json \<Rightarrow> ta_json R | Trace_MsgPack \<Rightarrow> ta_msg_pack R) s
                in build (ta_to_bytes (x_trace_encode X) (x_choose_multiple X) R ta) s)
           | Config_Syslog5424 \<Rightarrow> build (syslog_to_bytes (x_syslog_to_string X) (x_now_rfc3339 X) R) s
           | Config_DogStatsD conf \<Rightarrow>
               fixed_dogstatsd N Q seed_from (x_show_f64 X) requested_bytes maximum_block_bytes conf s
           | Config_Fluent \<Rightarrow>
               (let (pyld, s) = run_state (fluent_new R) s in build (fluent_to_bytes (x_fluent_to_vec X) R pyld) s)
           | Config_SplunkHec encoding \<Rightarrow>
               build (splunk_to_bytes (x_attrs_to_string X) (x_hec_to_string X) R encoding) s
           | Config_ApacheCommon \<Rightarrow> (let (pyld, s) = run_state (apache_new R) s in build (apache_to_bytes R pyld) s)
           | Config_Ascii \<Rightarrow> (let (pyld, s) = run_state (ascii_new R) s in build (ascii_to_bytes R pyld) s)
           | Config_DatadogLog \<Rightarrow>
               (let (pyld, s) = run_state (dd_new R) s
                in build (dd_to_bytes (x_structured_to_string X) (x_dd_to_string X) R pyld) s)
           | Config_Json \<Rightarrow> build (json_to_bytes (x_json_to_string X) R) s
           | Config_Static static_path \<Rightarrow>
               (case static_new (x_metadata X) static_path of
                  Inl e \<Rightarrow> Some (Inl (Error_Static e), s)
                | Inr st \<Rightarrow> build (static_to_bytes (x_open_file X) R st) s)
           | Config_OpentelemetryTraces \<Rightarrow>
               (let (pyld, s) = run_state (otel_traces_new R) s
                in build (otel_traces_to_bytes (x_span_len X) (x_traces_encode X) R pyld) s)
           | Config_OpentelemetryLogs \<Rightarrow>
               (let (pyld, s) = run_state (otel_logs_new R) s
                in build (otel_logs_to_bytes (x_log_len X) (x_logs_encode X) R pyld) s)
           | Config_OpentelemetryMetrics \<Rightarrow>
               (let (pyld, s) = run_state (otel_metrics_new R) s
                in build (otel_metrics_to_bytes (x_metric_len X) (x_metrics_encode X) R pyld) s))"

section \<open>What a cache holds\<close>

text \<open>
  What the externs document: the Protocol Buffers encoders write the wire format, and no file is
  longer than what its metadata said.
\<close>

definition files_as_measured :: "(string \<Rightarrow> metadata option) \<Rightarrow> (string \<Rightarrow> Bytes option) \<Rightarrow> bool" where
  "files_as_measured meta open_file \<longleftrightarrow>
     (\<forall>path n contents. meta path = Some (Meta_File n) \<longrightarrow> open_file path = Some contents \<longrightarrow> length contents \<le> n) \<and>
     (\<forall>path entries p n contents. meta path = Some (Meta_Dir entries) \<longrightarrow> (p, Some n) \<in> set entries \<longrightarrow>
        open_file p = Some contents \<longrightarrow> length contents \<le> n)"

definition externs_ok :: "'r externs \<Rightarrow> bool" where
  "externs_ok X \<longleftrightarrow>
     wire_ok (x_span_len X) (x_traces_encode X) \<and> wire_ok (x_log_len X) (x_logs_encode X) \<and>
     wire_ok (x_metric_len X) (x_metrics_encode X) \<and> files_as_measured (x_metadata X) (x_open_file X)"

text \<open>
  By how many bytes a block may exceed the budget it was built with: the length prefix of framed
  DogStatsD is not counted against it, and every other payload keeps to its budget.
\<close>

fun slack_of :: "payload_config \<Rightarrow> nat" where
  "slack_of (Config_DogStatsD conf) = (if dc_length_prefix_framed conf then 4 else 0)"
| "slack_of _ = 0"

definition within_blocks :: "nat \<Rightarrow> nat \<Rightarrow> nat \<Rightarrow> Cache \<Rightarrow> bool" where
  "within_blocks requested m slack c \<longleftrightarrow>
     cache_ok c \<and> (\<forall>b \<in> set (blocks c). total_bytes b < m + slack) \<and> total_cycle_size c < requested + m + slack"

lemma fixed_within_slack:
  assumes "slack_serializer ser slack" "rng_ok R" "0 < m" "fixed_with R ser requested m s = Some (Inr c, s')"
  shows "within_blocks requested m slack c"
  using slack_serializer.fixed_cache_ok [OF assms] by (simp add: within_blocks_def)

lemma fixed_within:
  assumes "bounded_serializer ser" "rng_ok R" "0 < m" "fixed_with R ser requested m s = Some (Inr c, s')"
  shows "within_blocks requested m 0 c"
  using fixed_within_slack [OF _ assms(2-4)] assms(1)
  by (simp add: slack_serializer_def bounded_serializer_def)

lemma static_bounded:
  assumes "rng_ok R" "files_as_measured meta open_file" "static_new meta path = Inr st"
  shows "bounded_serializer (static_to_bytes open_file R st)"
proof
  fix n s bs s'
  assume "static_to_bytes open_file R st n s = Some (Inr bs, s')"
  from static_within_budget [OF assms(1) this] show "length bs \<le> n"
    using assms(2,3) unfolding files_as_measured_def static_new_def
    by (fastforce split: option.splits metadata.splits if_splits)
qed

interpretation dsd: slack_serializer "dsd_to_bytes show_f64 N Q seed_from d" "if framed d then 4 else 0"
  for show_f64 N Q seed_from d
proof
  fix n s bs s'
  assume "dsd_to_bytes show_f64 N Q seed_from d n s = Some (Inr bs, s')"
  then obtain ls rem where f: "dsd_fill (encoded_member show_f64 N Q seed_from d) n [] s = Some (Inr (ls, rem), s')"
    and "length bs \<le> length (lines_of ls) + (if framed d then 4 else 0)"
    by (auto simp: dsd_to_bytes_def to_bytes_plain_def to_bytes_length_prefix_framed_def to_le_bytes_def bind_gen_def
        return_gen_def panic_gen_def split: option.splits sum.splits if_splits)
  with dsd_fill_lines [OF f] show "length bs \<le> n + (if framed d then 4 else 0)" by simp
qed

lemma otel_bounded:
  assumes "wire_ok l e"
  shows "bounded_serializer (otel_to_bytes gen l e)"
  by unfold_locales (rule otel_within_budget [OF assms])

lemma DogStatsD_new_framed:
  "DogStatsD_new N Q seed_from conf s = Some (Inr (d, tg), s') \<Longrightarrow> framed d = dc_length_prefix_framed conf"
  by (auto simp: DogStatsD_new_def Let_def bind_gen_def [of "MemberGenerator_new N Q seed_from conf p" for p] return_gen_def
      split: option.splits sum.splits)

lemma fixed_dogstatsd_Inr:
  assumes "fixed_dogstatsd N Q seed_from show_f64 requested m conf s = Some (Inr c, s')"
  obtains d tg s1 x where "DogStatsD_new N Q seed_from conf s = Some (Inr (d, tg), s1)"
    "fixed_with (rng_fst (base N)) (dsd_to_bytes show_f64 N Q seed_from d) requested m (s1, tg, tg) = Some (Inr c, x)"
proof (cases "DogStatsD_new N Q seed_from conf s")
  case None
  with assms show thesis by (simp add: fixed_dogstatsd_def split: sum.splits)
next
  case (Some z)
  obtain r s1 where z: "z = (r, s1)" by force
  show thesis
  proof (cases r)
    case (Inl e)
    with assms Some z show thesis by (simp add: fixed_dogstatsd_def split: sum.splits)
  next
    case (Inr y)
    then obtain d tg where y: "r = Inr (d, tg)" by (cases y) simp
    from assms Some z y have "map_option (\<lambda>(r, s, _). (r, s)) (fixed_with (rng_fst (base N)) (dsd_to_bytes show_f64 N Q seed_from d)
        requested m (s1, tg, tg)) = Some (Inr c, s')"
      by (simp add: fixed_dogstatsd_def split: sum.splits)
    with Some z y that show thesis by fastforce
  qed
qed

lemma cache_fixed_within:
  assumes N: "rng_ok (base N)" and X: "externs_ok X" and m: "0 < m"
    and ret: "cache_fixed N Q seed_from X requested m payload s = Some (Inr c, s')"
  shows "within_blocks requested m (slack_of payload) c"
proof (cases payload)
  case (Config_Static path)
  with ret obtain st where st: "static_new (x_metadata X) path = Inr st"
    "fixed_with (base N) (static_to_bytes (x_open_file X) (base N) st) requested m s = Some (Inr c, s')"
    by (auto simp: cache_fixed_def Let_def split: if_splits sum.splits)
  from X have "files_as_measured (x_metadata X) (x_open_file X)" by (simp add: externs_ok_def)
  from fixed_within [OF static_bounded [OF N this st(1)] N m st(2)] Config_Static show ?thesis by simp
next
  case (Config_DogStatsD conf)
  with ret have "fixed_dogstatsd N Q seed_from (x_show_f64 X) requested m conf s = Some (Inr c, s')"
    by (auto simp: cache_fixed_def Let_def split: if_splits)
  from fixed_dogstatsd_Inr [OF this] obtain d tg s1 x where d: "DogStatsD_new N Q seed_from conf s = Some (Inr (d, tg), s1)"
    and c: "fixed_with (rng_fst (base N)) (dsd_to_bytes (x_show_f64 X) N Q seed_from d) requested m (s1, tg, tg) = Some (Inr c, x)" .
  from fixed_within_slack [OF dsd.slack_serializer_axioms rng_fst_ok [OF N] m c] DogStatsD_new_framed [OF d] Config_DogStatsD
  show ?thesis by simp
next
  case Config_OpentelemetryTraces
  with ret X show ?thesis
    by (auto simp: cache_fixed_def otel_traces_to_bytes_def externs_ok_def Let_def split: if_splits prod.splits
        intro: fixed_within [OF otel_bounded N m])
next
  case Config_OpentelemetryLogs
  with ret X show ?thesis
    by (auto simp: cache_fixed_def otel_logs_to_bytes_def externs_ok_def Let_def split: if_splits prod.splits
        intro: fixed_within [OF otel_bounded N m])
next
  case Config_OpentelemetryMetrics
  with ret X show ?thesis
    by (auto simp: cache_fixed_def otel_metrics_to_bytes_def externs_ok_def Let_def split: if_splits prod.splits
        intro: fixed_within [OF otel_bounded N m])
qed (use ret in \<open>auto simp: cache_fixed_def Let_def split: if_splits prod.splits
      intro: fixed_within [OF ascii.bounded_serializer_axioms N m] fixed_within [OF json.bounded_serializer_axioms N m]
        fixed_within [OF apache.bounded_serializer_axioms N m] fixed_within [OF splunk.bounded_serializer_axioms N m]
        fixed_within [OF syslog.bounded_serializer_axioms N m] fixed_within [OF datadog.bounded_serializer_axioms N m]
        fixed_within [OF fluent.bounded_serializer_axioms N m] fixed_within [OF trace_agent.bounded_serializer_axioms N m]\<close>)

section \<open>Properties\<close>

text \<open>
  C8. Whatever payload a configuration names, framed DogStatsD included, the cache that
  \<open>Cache::fixed\<close> builds is well formed: at least one block, no empty block, every block below the
  maximum block size plus the payload's slack, and a cycle that exceeds the bytes asked for by less
  than such a block. The slack is 4 for DogStatsD with length prefixes, whose prefix is not part of the
  budget, and 0 for every other payload. A maximum block size above the bytes asked for is
  refused before anything is built. The hypotheses are that the generator draws within its
  ranges, that the Protocol Buffers encoders write as many bytes as their wire format documents,
  and that no static file is longer when it is read than when it was measured.
\<close>

theorem cache_fixed_blocks:
  assumes "rng_ok (base N)" "externs_ok X" "0 < maximum_block_bytes"
    and "cache_fixed N Q seed_from X requested maximum_block_bytes payload s = Some (r, s')"
  shows "(\<forall>c. r = Inr c \<longrightarrow> maximum_block_bytes \<le> requested \<and> cache_ok c \<and>
        (\<forall>b \<in> set (blocks c). total_bytes b < maximum_block_bytes + slack_of payload) \<and>
        total_cycle_size c < requested + maximum_block_bytes + slack_of payload) \<and>
     (requested < maximum_block_bytes \<longrightarrow> r = Inl Error_MaximumBlock \<and> s' = s)"
proof -
  have "within_blocks requested maximum_block_bytes (slack_of payload) c \<and> maximum_block_bytes \<le> requested"
    if "r = Inr c" for c
    using cache_fixed_within [OF assms(1-3) assms(4) [unfolded that]] assms(4) that
    by (auto simp: cache_fixed_def split: if_splits)
  moreover have "r = Inl Error_MaximumBlock \<and> s' = s" if "requested < maximum_block_bytes"
    using assms(4) that by (simp add: cache_fixed_def)
  ultimately show ?thesis by (auto simp: within_blocks_def)
qed

definition demo_externs :: "nat externs" where
  "demo_externs =
     \<lparr>x_fluent_to_vec = (\<lambda>_. None), x_syslog_to_string = (\<lambda>_. []), x_now_rfc3339 = State_Monad.return [],
      x_attrs_to_string = (\<lambda>_. Inr []), x_hec_to_string = (\<lambda>_. Inr []), x_structured_to_string = (\<lambda>_. []),
      x_dd_to_string = (\<lambda>_. Inr []), x_metadata = (\<lambda>_. Some (Meta_File 4)), x_open_file = (\<lambda>_. Some ''abcd''),
      x_json_to_string = (\<lambda>_. Inr []), x_span_len = (\<lambda>m. length (os_name m)), x_traces_encode = export_request os_name,
      x_log_len = (\<lambda>m. length (ol_body m)), x_logs_encode = export_request ol_body,
      x_metric_len = (\<lambda>m. length (om_name m)), x_metrics_encode = export_request om_name,
      x_show_f64 = (\<lambda>_. []), x_trace_encode = (\<lambda>_ _. Inr []), x_choose_multiple = (\<lambda>_ _. State_Monad.return [])\<rparr>"

lemma demo_externs_ok: "externs_ok demo_externs"
  by (simp add: externs_ok_def demo_externs_def export_request_wire files_as_measured_def)

lemma demo_static_cache:
  "cache_fixed demo_num_rng demo_num_rng (\<lambda>n. n) demo_externs 6 6 (Config_Static ''f'') 5 =
     Some (Inr (Fixed 0 [\<lparr>total_bytes = 4, bytes = ''abcd''\<rparr>, \<lparr>total_bytes = 4, bytes = ''abcd''\<rparr>] 8), 26)"
  by (simp add: cache_fixed_def demo_externs_def static_new_def fixed_with_def construct_block_cache_inner_def loop.simps
      construct_pass_def construct_block_def static_to_bytes_def slice_choose_def demo_num_rng_def counter_rng_def
      DEFAULT_BUF_SIZE_def umax_def Let_def)

theorem cache_fixed_blocks_witness:
  "let c = Fixed 0 [\<lparr>total_bytes = 4, bytes = ''abcd''\<rparr>, \<lparr>total_bytes = 4, bytes = ''abcd''\<rparr>] 8
   in cache_ok c \<and> (\<forall>b \<in> set (blocks c). total_bytes b < 6) \<and> total_cycle_size c < 6 + 6"
  using cache_fixed_blocks [OF _ demo_externs_ok _ demo_static_cache] by (simp add: demo_num_rng_def)

end
