(* ===== verification/Generator.thy ===== *)
theory Generator
  imports Generator_Http Generator_File Payload_Config
begin

text \<open>
  \<^verbatim>\<open>lading/src/generator.rs\<close> and the constructors of the generators: from a configuration to a
  running generator, and from any running generator to its steps. The environment of the
  constructors is one record: the random number generators, the encoders, the clock a throttle starts
  with, name resolution and URIs, and the disk.
\<close>

section \<open>Configuration\<close>

record gen_config =
  g_seed :: "nat list"
  g_variant :: payload_config
  g_bytes_per_second :: nat
  g_maximum_block_size :: nat
  g_maximum_prebuild_cache_size_bytes :: nat
  g_throttle :: throttle_config

definition udp_maximum_block_size :: nat where
  "udp_maximum_block_size = 65507"

record AckSettings =
  ack_query_interval_seconds :: nat
  ack_timeout_seconds :: nat

datatype Inner =
    Inner_Tcp gen_config string
  | Inner_Udp gen_config string
  | Inner_Http gen_config nat
  | Inner_SplunkHec gen_config SplunkEncoding string "AckSettings option" nat
  | Inner_Grpc gen_config string
  | Inner_UnixStream gen_config
  | Inner_UnixDatagram gen_config nat
  | Inner_PassthruFile gen_config
  | Inner_Traditional gen_config string nat nat bool
  | Inner_Logrotate gen_config path nat nat nat nat

text \<open>The Splunk generator makes its own payload configuration from the format.\<close>

fun inner_config :: "Inner \<Rightarrow> gen_config" where
  "inner_config (Inner_Tcp c _) = c"
| "inner_config (Inner_Udp c _) = c"
| "inner_config (Inner_Http c _) = c"
| "inner_config (Inner_SplunkHec c format _ _ _) = c\<lparr>g_variant := Config_SplunkHec format\<rparr>"
| "inner_config (Inner_Grpc c _) = c"
| "inner_config (Inner_UnixStream c) = c"
| "inner_config (Inner_UnixDatagram c _) = c"
| "inner_config (Inner_PassthruFile c) = c"
| "inner_config (Inner_Traditional c _ _ _ _) = c"
| "inner_config (Inner_Logrotate c _ _ _ _ _) = c"

record ('r, 'q, 'c) gen_env =
  e_num :: "'r num_rng"
  e_tags :: "'q num_rng"
  e_seed_from :: "nat \<Rightarrow> 'q"
  e_ext :: "'r externs"
  e_from_seed :: "nat list \<Rightarrow> 'r"
  e_clock :: 'c
  e_resolve :: "string \<Rightarrow> string list option"
  e_authority :: "string \<Rightarrow> string option"
  e_rpc_path :: "string \<Rightarrow> string option"
  e_disk :: disk

datatype new_error =
    New_Zero
  | New_Block "payload_error cache_error"
  | New_EmptyAuthorityURI

text \<open>A constructor returns, with its value or an error, or panics. \<open>try_new\<close> is the \<open>?\<close> operator.\<close>

type_synonym 'a attempt = "(new_error + 'a) option"

definition try_new :: "'a attempt \<Rightarrow> ('a \<Rightarrow> 'b attempt) \<Rightarrow> 'b attempt" where
  "try_new x f = (case x of None \<Rightarrow> None | Some (Inl e) \<Rightarrow> Some (Inl e) | Some (Inr y) \<Rightarrow> f y)"

lemma try_new_Inr: "try_new x f = Some (Inr z) \<longleftrightarrow> (\<exists>y. x = Some (Inr y) \<and> f y = Some (Inr z))"
  by (auto simp: try_new_def split: option.splits sum.splits)

text \<open>\<open>NonZeroU32::new(n as u32).ok_or(Error::Zero)\<close>: the cast keeps the low 32 bits.\<close>

definition as_u32 :: "nat \<Rightarrow> nat" where
  "as_u32 n = n mod 2 ^ 32"

definition nonzero_u32 :: "nat \<Rightarrow> nat attempt" where
  "nonzero_u32 n = (if as_u32 n = 0 then Some (Inl New_Zero) else Some (Inr (as_u32 n)))"

section \<open>Construction\<close>

text \<open>A throttle and a block cache, from the random state as it is by then.\<close>

definition paced_parts :: "('r, 'q, 'c) gen_env \<Rightarrow> gen_config \<Rightarrow> nat \<Rightarrow> 'r \<Rightarrow> (Cache \<times> 'c Throttle \<times> 'r) attempt" where
  "paced_parts E conf bytes_per_second s =
     try_new (nonzero_u32 (g_maximum_prebuild_cache_size_bytes conf)) (\<lambda>requested.
       case cache_fixed (e_num E) (e_tags E) (e_seed_from E) (e_ext E) requested (g_maximum_block_size conf) (g_variant conf) s of
         None \<Rightarrow> None
       | Some (Inl e, s) \<Rightarrow> Some (Inl (New_Block e))
       | Some (Inr c, s) \<Rightarrow> Some (Inr (c, new_with_config (g_throttle conf) (of_nat bytes_per_second) (e_clock E), s)))"

definition one_paced :: "('r, 'q, 'c) gen_env \<Rightarrow> gen_config \<Rightarrow> (Cache \<times> 'c Throttle) attempt" where
  "one_paced E conf =
     try_new (nonzero_u32 (g_bytes_per_second conf)) (\<lambda>bps.
     try_new (paced_parts E conf bps (e_from_seed E (g_seed conf))) (\<lambda>(c, t, s). Some (Inr (c, t))))"

text \<open>\<open>to_socket_addrs\<close> and its first address, both with \<open>expect\<close>.\<close>

definition resolve_first :: "('r, 'q, 'c) gen_env \<Rightarrow> string \<Rightarrow> string option" where
  "resolve_first E addr = (case e_resolve E addr of Some (a # rest) \<Rightarrow> Some a | _ \<Rightarrow> None)"

definition tcp_new :: "('r, 'q, 'c) gen_env \<Rightarrow> gen_config \<Rightarrow> string \<Rightarrow> 'c net_gen attempt" where
  "tcp_new E conf addr =
     try_new (one_paced E conf) (\<lambda>(c, t).
       map_option (\<lambda>a. Inr (net_gen_new c t)) (resolve_first E addr))"

definition udp_new :: "('r, 'q, 'c) gen_env \<Rightarrow> gen_config \<Rightarrow> string \<Rightarrow> 'c net_gen attempt" where
  "udp_new E conf addr =
     try_new (one_paced E conf) (\<lambda>(c, t).
       map_option (\<lambda>a. Inr (net_gen_new c t)) (resolve_first E addr))"

definition passthru_file_new :: "('r, 'q, 'c) gen_env \<Rightarrow> gen_config \<Rightarrow> 'c net_gen attempt" where
  "passthru_file_new E conf = try_new (one_paced E conf) (\<lambda>(c, t). Some (Inr (net_gen_new c t)))"

definition unix_stream_gen_new :: "('r, 'q, 'c) gen_env \<Rightarrow> gen_config \<Rightarrow> 'c unix_stream attempt" where
  "unix_stream_gen_new E conf = try_new (one_paced E conf) (\<lambda>(c, t). Some (Inr (unix_stream_new c t)))"

definition grpc_new :: "('r, 'q, 'c) gen_env \<Rightarrow> gen_config \<Rightarrow> string \<Rightarrow> 'c net_gen attempt" where
  "grpc_new E conf target_uri =
     try_new (one_paced E conf) (\<lambda>(c, t).
       map_option (\<lambda>p. Inr (net_gen_new c t)) (e_rpc_path E target_uri))"

text \<open>
  The semaphores of HTTP and Splunk are process-wide cells that can be set once; setting one
  again panics.
\<close>

record statics =
  http_semaphore :: "nat option"
  hec_semaphore :: "nat option"

definition http_new :: "('r, 'q, 'c) gen_env \<Rightarrow> gen_config \<Rightarrow> nat \<Rightarrow> statics \<Rightarrow> ('c http_gen \<times> statics) attempt" where
  "http_new E conf parallel st =
     (if nonzero_u32 (g_bytes_per_second conf) = Some (Inl New_Zero) then None
      else try_new (one_paced E conf) (\<lambda>(c, t).
        if http_semaphore st \<noteq> None then None
        else Some (Inr (http_gen_new parallel c t, st\<lparr>http_semaphore := Some parallel\<rparr>))))"

definition splunk_new ::
    "('r, 'q, 'c) gen_env \<Rightarrow> gen_config \<Rightarrow> string \<Rightarrow> AckSettings option \<Rightarrow> nat \<Rightarrow> statics \<Rightarrow> ('c splunk_gen \<times> statics) attempt" where
  "splunk_new E conf target_uri acks parallel st =
     try_new (nonzero_u32 (g_bytes_per_second conf)) (\<lambda>bps.
     try_new (case e_authority E target_uri of Some a \<Rightarrow> Some (Inr a) | None \<Rightarrow> Some (Inl New_EmptyAuthorityURI)) (\<lambda>authority.
     try_new (paced_parts E conf bps (e_from_seed E (g_seed conf))) (\<lambda>(c, t, s).
       case (case acks of Some _ \<Rightarrow> enable_acknowledgements (channels_new parallel) | None \<Rightarrow> Some (channels_new parallel)) of
         None \<Rightarrow> None
       | Some cs \<Rightarrow>
           (if hec_semaphore st \<noteq> None then None
            else Some (Inr (splunk_gen_new cs parallel c t, st\<lparr>hec_semaphore := Some parallel\<rparr>))))))"

text \<open>Generators with several children build a cache for each, one after the other.\<close>

fun many_new ::
    "('r, 'q, 'c) gen_env \<Rightarrow> gen_config \<Rightarrow> nat \<Rightarrow> (nat \<Rightarrow> Cache \<Rightarrow> 'c Throttle \<Rightarrow> 'r \<Rightarrow> ('g \<times> 'r) option) \<Rightarrow> nat \<Rightarrow> nat \<Rightarrow> 'r
      \<Rightarrow> 'g list attempt" where
  "many_new E conf bps child i 0 s = Some (Inr [])"
| "many_new E conf bps child i (Suc n) s =
     try_new (paced_parts E conf bps s) (\<lambda>(c, t, s).
       case child i c t s of
         None \<Rightarrow> None
       | Some (g, s) \<Rightarrow> try_new (many_new E conf bps child (i + 1) n s) (\<lambda>gs. Some (Inr (g # gs))))"

definition unix_datagram_new :: "('r, 'q, 'c) gen_env \<Rightarrow> gen_config \<Rightarrow> nat \<Rightarrow> 'c net_gen list attempt" where
  "unix_datagram_new E conf parallel =
     try_new (nonzero_u32 (g_bytes_per_second conf)) (\<lambda>bps.
       many_new E conf bps (\<lambda>i c t s. Some (net_gen_new c t, s)) 0 parallel (e_from_seed E (g_seed conf)))"

text \<open>The children of the file generators are spawned, so their files are opened here.\<close>

definition traditional_new ::
    "('r, 'q, 'c) gen_env \<Rightarrow> gen_config \<Rightarrow> string \<Rightarrow> nat \<Rightarrow> nat \<Rightarrow> bool \<Rightarrow> 'c traditional_child list attempt" where
  "traditional_new E conf template maximum_bytes duplicates rot =
     try_new (nonzero_u32 (g_bytes_per_second conf)) (\<lambda>bps.
     try_new (nonzero_u32 maximum_bytes) (\<lambda>limit.
       many_new E conf bps
         (\<lambda>i c t s. case traditional_child_start False template limit rot i c t (e_disk E) of
             Inr g \<Rightarrow> Some (g, s) | Inl _ \<Rightarrow> None) 0 duplicates (e_from_seed E (g_seed conf))))"

text \<open>The random path of a log; \<open>gen_range(0..max_depth)\<close> panics on an empty range.\<close>

definition logrotate_basename :: "'r rng \<Rightarrow> path \<Rightarrow> nat \<Rightarrow> 'r \<Rightarrow> (path \<times> 'r) option" where
  "logrotate_basename R root_path max_depth s =
     (if max_depth = 0 then None
      else
        let (depth, s) = gen_range R 0 max_depth s;
            (dirs, s) = run_state (sample_many depth (sample_bits R 16)) s;
            (n, s) = gen_bits R 64 s
        in Some (root_path @ map show_nat dirs @ [show_nat n @ ''.log''], s))"

definition logrotate_new ::
    "('r, 'q, 'c) gen_env \<Rightarrow> gen_config \<Rightarrow> path \<Rightarrow> nat \<Rightarrow> nat \<Rightarrow> nat \<Rightarrow> nat \<Rightarrow> 'c logrotate_child list attempt" where
  "logrotate_new E conf root_path concurrent_logs maximum_bytes total_rotations max_depth =
     (if nonzero_u32 (g_bytes_per_second conf) = Some (Inl New_Zero) then None
      else
        try_new (nonzero_u32 (g_bytes_per_second conf)) (\<lambda>bps.
        try_new (nonzero_u32 maximum_bytes) (\<lambda>limit.
          many_new E conf bps
            (\<lambda>i c t s. case logrotate_basename (base (e_num E)) root_path max_depth s of
                None \<Rightarrow> None
              | Some (basename, s) \<Rightarrow>
                  (case logrotate_child_start None basename total_rotations limit c t (e_disk E) of
                     Inr g \<Rightarrow> Some (g, s) | Inl _ \<Rightarrow> None)) 0 concurrent_logs (e_from_seed E (g_seed conf)))))"

section \<open>The server\<close>

datatype 'c Server =
    Server_Tcp "'c net_gen"
  | Server_Udp "'c net_gen"
  | Server_Http "'c http_gen"
  | Server_SplunkHec "'c splunk_gen"
  | Server_Grpc "'c net_gen"
  | Server_UnixStream "'c unix_stream"
  | Server_UnixDatagram "'c net_gen list"
  | Server_PassthruFile "'c net_gen"
  | Server_Traditional "'c traditional_child list"
  | Server_Logrotate "'c logrotate_child list"

definition map_attempt :: "('a \<Rightarrow> 'b) \<Rightarrow> 'a attempt \<Rightarrow> 'b attempt" where
  "map_attempt f = map_option (map_sum id f)"

fun server_new :: "('r, 'q, 'c) gen_env \<Rightarrow> Inner \<Rightarrow> statics \<Rightarrow> ('c Server \<times> statics) attempt" where
  "server_new E (Inner_Tcp conf addr) st = map_attempt (\<lambda>g. (Server_Tcp g, st)) (tcp_new E conf addr)"
| "server_new E (Inner_Udp conf addr) st = map_attempt (\<lambda>g. (Server_Udp g, st)) (udp_new E conf addr)"
| "server_new E (Inner_Http conf n) st = map_attempt (\<lambda>(g, st). (Server_Http g, st)) (http_new E conf n st)"
| "server_new E (Inner_SplunkHec conf format uri acks n) st =
     map_attempt (\<lambda>(g, st). (Server_SplunkHec g, st))
       (splunk_new E (conf\<lparr>g_variant := Config_SplunkHec format\<rparr>) uri acks n st)"
| "server_new E (Inner_Grpc conf uri) st = map_attempt (\<lambda>g. (Server_Grpc g, st)) (grpc_new E conf uri)"
| "server_new E (Inner_UnixStream conf) st = map_attempt (\<lambda>g. (Server_UnixStream g, st)) (unix_stream_gen_new E conf)"
| "server_new E (Inner_UnixDatagram conf n) st = map_attempt (\<lambda>gs. (Server_UnixDatagram gs, st)) (unix_datagram_new E conf n)"
| "server_new E (Inner_PassthruFile conf) st = map_attempt (\<lambda>g. (Server_PassthruFile g, st)) (passthru_file_new E conf)"
| "server_new E (Inner_Traditional conf template limit n rot) st =
     map_attempt (\<lambda>gs. (Server_Traditional gs, st)) (traditional_new E conf template limit n rot)"
| "server_new E (Inner_Logrotate conf root_path n limit rotations depth) st =
     map_attempt (\<lambda>gs. (Server_Logrotate gs, st)) (logrotate_new E conf root_path n limit rotations depth)"

datatype server_event =
    Sv_Net net_event
  | Sv_Http http_event
  | Sv_Hec hec_event
  | Sv_Stream stream_event
  | Sv_Datagram nat net_event
  | Sv_Traditional nat tr_event
  | Sv_Logrotate nat lr_event

text \<open>A step of a child in a list of children.\<close>

definition child_act :: "('g \<Rightarrow> ('r \<times> 'g) option) \<Rightarrow> nat \<Rightarrow> 'g list \<Rightarrow> 'g list option" where
  "child_act f i gs = (if i < length gs then map_option (\<lambda>(_, g). gs[i := g]) (f (gs ! i)) else None)"

text \<open>A step of a server: an event of another kind of server is no step of it.\<close>

definition net_step :: "(net_event \<Rightarrow> 'g \<Rightarrow> ('r \<times> 'g) option) \<Rightarrow> ('g \<Rightarrow> 'c Server) \<Rightarrow> server_event \<Rightarrow> 'g \<Rightarrow> (unit \<times> 'c Server) option" where
  "net_step act srv ev g = (case ev of Sv_Net e \<Rightarrow> map_option (\<lambda>(_, g). ((), srv g)) (act e g) | _ \<Rightarrow> None)"

fun server_act :: "'c clock \<Rightarrow> server_event \<Rightarrow> 'c Server \<Rightarrow> (unit \<times> 'c Server) option" where
  "server_act clk ev (Server_Tcp g) = net_step (tcp_act clk) Server_Tcp ev g"
| "server_act clk ev (Server_Udp g) = net_step (udp_act clk) Server_Udp ev g"
| "server_act clk ev (Server_Grpc g) = net_step (grpc_act clk) Server_Grpc ev g"
| "server_act clk ev (Server_PassthruFile g) = net_step (passthru_file_act clk) Server_PassthruFile ev g"
| "server_act clk ev (Server_Http g) =
     (case ev of Sv_Http e \<Rightarrow> map_option (\<lambda>(_, g). ((), Server_Http g)) (http_act clk e g) | _ \<Rightarrow> None)"
| "server_act clk ev (Server_SplunkHec g) =
     (case ev of Sv_Hec e \<Rightarrow> map_option (\<lambda>(_, g). ((), Server_SplunkHec g)) (splunk_act clk e g) | _ \<Rightarrow> None)"
| "server_act clk ev (Server_UnixStream g) =
     (case ev of Sv_Stream e \<Rightarrow> map_option (\<lambda>(_, g). ((), Server_UnixStream g)) (unix_stream_act clk e g) | _ \<Rightarrow> None)"
| "server_act clk ev (Server_UnixDatagram gs) =
     (case ev of Sv_Datagram i e \<Rightarrow> map_option (\<lambda>gs. ((), Server_UnixDatagram gs)) (child_act (unix_datagram_act clk e) i gs) | _ \<Rightarrow> None)"
| "server_act clk ev (Server_Traditional gs) =
     (case ev of Sv_Traditional i e \<Rightarrow> map_option (\<lambda>gs. ((), Server_Traditional gs)) (child_act (traditional_act clk e) i gs) | _ \<Rightarrow> None)"
| "server_act clk ev (Server_Logrotate gs) =
     (case ev of Sv_Logrotate i e \<Rightarrow> map_option (\<lambda>gs. ((), Server_Logrotate gs)) (child_act (logrotate_act clk e) i gs) | _ \<Rightarrow> None)"

fun server_guard :: "server_event \<Rightarrow> 'c Server \<Rightarrow> bool" where
  "server_guard ev (Server_Tcp g) \<longleftrightarrow> (case ev of Sv_Net e \<Rightarrow> connect_first e g | _ \<Rightarrow> False)"
| "server_guard ev (Server_Udp g) \<longleftrightarrow> (case ev of Sv_Net e \<Rightarrow> udp_guard e g | _ \<Rightarrow> False)"
| "server_guard ev (Server_Grpc g) \<longleftrightarrow> (case ev of Sv_Net e \<Rightarrow> connect_first e g | _ \<Rightarrow> False)"
| "server_guard ev (Server_PassthruFile g) \<longleftrightarrow> (case ev of Sv_Net e \<Rightarrow> connect_first e g | _ \<Rightarrow> False)"
| "server_guard ev (Server_Http g) \<longleftrightarrow> (case ev of Sv_Http e \<Rightarrow> True | _ \<Rightarrow> False)"
| "server_guard ev (Server_SplunkHec g) \<longleftrightarrow> (case ev of Sv_Hec e \<Rightarrow> True | _ \<Rightarrow> False)"
| "server_guard ev (Server_UnixStream g) \<longleftrightarrow> (case ev of Sv_Stream e \<Rightarrow> unix_stream_guard e g | _ \<Rightarrow> False)"
| "server_guard ev (Server_UnixDatagram gs) \<longleftrightarrow>
     (case ev of Sv_Datagram i e \<Rightarrow> i < length gs \<and> connect_first e (gs ! i) | _ \<Rightarrow> False)"
| "server_guard ev (Server_Traditional gs) \<longleftrightarrow>
     (case ev of Sv_Traditional i e \<Rightarrow> i < length gs \<and> tr_guard e (gs ! i) | _ \<Rightarrow> False)"
| "server_guard ev (Server_Logrotate gs) \<longleftrightarrow>
     (case ev of Sv_Logrotate i e \<Rightarrow> i < length gs \<and> lr_guard e (gs ! i) | _ \<Rightarrow> False)"

section \<open>Turns of a server\<close>

fun spinners :: "'c Server \<Rightarrow> 'c spinner list" where
  "spinners (Server_Tcp g) = [spinner.truncate g]"
| "spinners (Server_Udp g) = [spinner.truncate g]"
| "spinners (Server_Http g) = [http_spinner g]"
| "spinners (Server_SplunkHec g) = [spinner.truncate g]"
| "spinners (Server_Grpc g) = [spinner.truncate g]"
| "spinners (Server_UnixStream g) = [spinner.truncate g]"
| "spinners (Server_UnixDatagram gs) = map spinner.truncate gs"
| "spinners (Server_PassthruFile g) = [spinner.truncate g]"
| "spinners (Server_Traditional gs) = map spinner.truncate gs"
| "spinners (Server_Logrotate gs) = map spinner.truncate gs"

fun server_ok :: "'c Server \<Rightarrow> bool" where
  "server_ok (Server_Http g) \<longleftrightarrow> http_ok g"
| "server_ok _ \<longleftrightarrow> True"

definition each_moved :: "'c clock \<Rightarrow> 'c spinner list \<Rightarrow> 'c spinner list \<Rightarrow> bool" where
  "each_moved clk gs gs' \<longleftrightarrow> list_all2 (moved clk) gs gs'"

lemma each_moved_one [simp]: "each_moved clk [g] [g'] \<longleftrightarrow> moved clk g g'"
  by (simp add: each_moved_def)

lemma child_act_moved:
  assumes "child_act f i gs = Some gs'" "\<And>g r g'. f g = Some (r, g') \<Longrightarrow> moved clk (view g) (view g')"
  shows "each_moved clk (map view gs) (map view gs')"
  using assms by (auto simp: child_act_def each_moved_def list_all2_conv_all_nth nth_list_update split: if_splits)

lemma net_step_moved:
  assumes "net_step act srv ev g = Some (r, s')"
  shows "\<exists>e x g'. act e g = Some (x, g') \<and> s' = srv g'"
  using assms by (auto simp: net_step_def split: server_event.splits)

lemma server_moved:
  assumes "server_ok s" "server_act clk ev s = Some (r, s')"
  shows "each_moved clk (spinners s) (spinners s') \<and> server_ok s'"
proof (cases s)
  case (Server_Tcp g)
  then have "net_step (tcp_act clk) Server_Tcp ev g = Some (r, s')" using assms by simp
  from net_step_moved [OF this] show ?thesis using Server_Tcp by (auto dest: tcp.by_turns [OF TrueI])
next
  case (Server_Udp g)
  then have "net_step (udp_act clk) Server_Udp ev g = Some (r, s')" using assms by simp
  from net_step_moved [OF this] show ?thesis using Server_Udp by (auto dest: udp.by_turns [OF TrueI])
next
  case (Server_Grpc g)
  then have "net_step (grpc_act clk) Server_Grpc ev g = Some (r, s')" using assms by simp
  from net_step_moved [OF this] show ?thesis using Server_Grpc by (auto dest: grpc.by_turns [OF TrueI])
next
  case (Server_PassthruFile g)
  then have "net_step (passthru_file_act clk) Server_PassthruFile ev g = Some (r, s')" using assms by simp
  from net_step_moved [OF this] show ?thesis using Server_PassthruFile by (auto dest: passthru_file.by_turns [OF TrueI])
next
  case (Server_UnixDatagram gs)
  with assms obtain i e gs' where "child_act (unix_datagram_act clk e) i gs = Some gs'" "s' = Server_UnixDatagram gs'"
    by (auto split: server_event.splits)
  with child_act_moved [OF this(1) conjunct1 [OF unix_datagram.by_turns [OF TrueI]]] Server_UnixDatagram show ?thesis by simp
next
  case (Server_Traditional gs)
  with assms obtain i e gs' where "child_act (traditional_act clk e) i gs = Some gs'" "s' = Server_Traditional gs'"
    by (auto split: server_event.splits)
  with child_act_moved [OF this(1) conjunct1 [OF traditional.by_turns [OF TrueI]]] Server_Traditional show ?thesis by simp
next
  case (Server_Logrotate gs)
  with assms obtain i e gs' where "child_act (logrotate_act clk e) i gs = Some gs'" "s' = Server_Logrotate gs'"
    by (auto split: server_event.splits)
  with child_act_moved [OF this(1) conjunct1 [OF logrotate.by_turns [OF TrueI]]] Server_Logrotate show ?thesis by simp
qed (use assms in \<open>auto dest: http.by_turns splunk_hec.by_turns [OF TrueI] unix_stream.by_turns [OF TrueI] split: server_event.splits\<close>)

definition has_spinner :: "nat \<Rightarrow> 'c Server \<Rightarrow> bool" where
  "has_spinner i s \<longleftrightarrow> server_ok s \<and> i < length (spinners s)"

interpretation server: turning_machine "server_act clk" clk "\<lambda>s. spinners s ! i" "has_spinner i" for clk i
proof
  show "moved clk (spinners s ! i) (spinners s' ! i) \<and> has_spinner i s'"
    if "has_spinner i s" "server_act clk op s = Some (r, s')" for op s r s'
    using server_moved [OF _ that(2)] that(1) by (auto simp: has_spinner_def each_moved_def list_all2_conv_all_nth)
qed

interpretation real_server: paced_machine "server_act (real_clock drift (late_sleep late))" "real_clock drift (late_sleep late)"
  "\<lambda>s. spinners s ! i" "has_spinner i" real_pos for drift late i
  by unfold_locales

lemma spinners_kept:
  "reaches (server_act clk) guard s0 s \<Longrightarrow> server_ok s0 \<Longrightarrow> server_ok s \<and> length (spinners s) = length (spinners s0)"
proof (induction rule: reaches.induct)
  case (reaches_step s op r s')
  then have "server_ok s" "length (spinners s) = length (spinners s0)" by simp_all
  with server_moved [OF this(1) reaches_step.hyps(3)] show ?case by (auto simp: each_moved_def dest: list_all2_lengthD)
qed simp

section \<open>What a constructor builds\<close>

definition cache_of :: "('r, 'q, 'c) gen_env \<Rightarrow> gen_config \<Rightarrow> Cache \<Rightarrow> bool" where
  "cache_of E conf c \<longleftrightarrow>
     (\<exists>requested s s'. cache_fixed (e_num E) (e_tags E) (e_seed_from E) (e_ext E) requested (g_maximum_block_size conf)
        (g_variant conf) s = Some (Inr c, s'))"

definition fresh_spinner :: "('r, 'q, 'c) gen_env \<Rightarrow> gen_config \<Rightarrow> 'c spinner \<Rightarrow> bool" where
  "fresh_spinner E conf g \<longleftrightarrow>
     (\<exists>c. cache_of E conf c \<and>
        g = spinner_new c (new_with_config (g_throttle conf) (of_nat (as_u32 (g_bytes_per_second conf))) (e_clock E)))"

lemma nonzero_u32_Inr: "nonzero_u32 n = Some (Inr w) \<longleftrightarrow> w = as_u32 n \<and> w \<noteq> 0"
  by (auto simp: nonzero_u32_def)

lemma paced_parts_Inr:
  "paced_parts E conf (as_u32 (g_bytes_per_second conf)) s = Some (Inr (c, t, s')) \<Longrightarrow> fresh_spinner E conf (spinner_new c t)"
proof -
  assume "paced_parts E conf (as_u32 (g_bytes_per_second conf)) s = Some (Inr (c, t, s'))"
  then obtain requested where r: "(case cache_fixed (e_num E) (e_tags E) (e_seed_from E) (e_ext E) requested (g_maximum_block_size conf)
        (g_variant conf) s of
         None \<Rightarrow> None
       | Some (Inl e, s) \<Rightarrow> Some (Inl (New_Block e))
       | Some (Inr c, s) \<Rightarrow> Some (Inr (c, new_with_config (g_throttle conf) (of_nat (as_u32 (g_bytes_per_second conf))) (e_clock E), s)))
      = Some (Inr (c, t, s'))"
    by (auto simp: paced_parts_def try_new_Inr)
  then obtain x s1 where x: "cache_fixed (e_num E) (e_tags E) (e_seed_from E) (e_ext E) requested (g_maximum_block_size conf)
      (g_variant conf) s = Some (x, s1)"
    by (auto split: option.split_asm)
  with r have "x = Inr c" "t = new_with_config (g_throttle conf) (of_nat (as_u32 (g_bytes_per_second conf))) (e_clock E)"
    by (auto split: sum.split_asm)
  with x have "cache_fixed (e_num E) (e_tags E) (e_seed_from E) (e_ext E) requested (g_maximum_block_size conf)
      (g_variant conf) s = Some (Inr c, s1)" "t = new_with_config (g_throttle conf) (of_nat (as_u32 (g_bytes_per_second conf))) (e_clock E)"
    by simp_all
  then show ?thesis unfolding fresh_spinner_def cache_of_def by blast
qed

lemma one_paced_Inr: "one_paced E conf = Some (Inr (c, t)) \<Longrightarrow> fresh_spinner E conf (spinner_new c t)"
  by (auto simp: one_paced_def try_new_Inr nonzero_u32_Inr dest!: paced_parts_Inr)

lemma many_new_Inr:
  assumes "many_new E conf (as_u32 (g_bytes_per_second conf)) child i n s = Some (Inr gs)"
    and "\<And>i c t s g s'. child i c t s = Some (g, s') \<Longrightarrow> view g = spinner_new c t"
  shows "\<forall>g \<in> set gs. fresh_spinner E conf (view g)"
  using assms(1)
proof (induction n arbitrary: i s gs)
  case (Suc n)
  then obtain c t s1 g s2 gs' where "paced_parts E conf (as_u32 (g_bytes_per_second conf)) s = Some (Inr (c, t, s1))"
    "child i c t s1 = Some (g, s2)" "many_new E conf (as_u32 (g_bytes_per_second conf)) child (i + 1) n s2 = Some (Inr gs')" "gs = g # gs'"
    by (auto simp: try_new_Inr split: option.splits)
  with Suc.IH assms(2) paced_parts_Inr show ?case by fastforce
qed simp

lemma truncate_children [simp]:
  "spinner.truncate (http_gen_new n c t) = spinner_new c t" "spinner.truncate (splunk_gen_new cs n c t) = spinner_new c t"
  by (simp_all add: http_gen_new_def splunk_gen_new_def spinner_new_def spinner.truncate_def spinner.extend_def)

lemma http_spinner_new [simp]: "http_spinner (http_gen_new n c t) = spinner_new c t" "http_ok (http_gen_new n c t)"
  by (simp_all add: http_spinner_def http_ok_def http_gen_new_def spinner_new_def spinner.extend_def receiver_new_def)

lemma traditional_start_spinner:
  "traditional_child_start f template limit rot i c t d = Inr g \<Longrightarrow> spinner.truncate g = spinner_new c t"
  by (auto simp: traditional_child_start_def Let_def spinner_new_def spinner.truncate_def spinner.extend_def split: if_splits)

lemma logrotate_start_spinner:
  "logrotate_child_start f basename n limit c t d = Inr g \<Longrightarrow> spinner.truncate g = spinner_new c t"
  by (auto simp: logrotate_child_start_def Let_def spinner_new_def spinner.truncate_def spinner.extend_def split: if_splits)

lemma map_attempt_Inr: "map_attempt f x = Some (Inr z) \<longleftrightarrow> (\<exists>y. x = Some (Inr y) \<and> z = f y)"
  by (auto simp: map_attempt_def map_sum_def split: sum.splits) (metis sum.exhaust_sel)

lemmas new_defs = tcp_new_def udp_new_def grpc_new_def passthru_file_new_def unix_stream_gen_new_def http_new_def splunk_new_def

lemma one_paced_spinners:
  "tcp_new E conf a = Some (Inr g) \<Longrightarrow> fresh_spinner E conf (spinner.truncate g)"
  "udp_new E conf a = Some (Inr g) \<Longrightarrow> fresh_spinner E conf (spinner.truncate g)"
  "grpc_new E conf a = Some (Inr g) \<Longrightarrow> fresh_spinner E conf (spinner.truncate g)"
  "passthru_file_new E conf = Some (Inr g) \<Longrightarrow> fresh_spinner E conf (spinner.truncate g)"
  "unix_stream_gen_new E conf = Some (Inr u) \<Longrightarrow> fresh_spinner E conf (spinner.truncate u)"
  by (auto simp: new_defs try_new_Inr dest!: one_paced_Inr split: option.split_asm list.split_asm)

lemma request_spinners:
  "http_new E conf n st = Some (Inr (h, st')) \<Longrightarrow> fresh_spinner E conf (http_spinner h) \<and> http_ok h"
  "splunk_new E conf uri acks n st = Some (Inr (g, st')) \<Longrightarrow> fresh_spinner E conf (spinner.truncate g)"
  by (auto simp: new_defs try_new_Inr nonzero_u32_Inr dest!: one_paced_Inr paced_parts_Inr split: option.split_asm if_split_asm)

lemma children_spinners:
  "unix_datagram_new E conf n = Some (Inr gs) \<Longrightarrow> \<forall>g \<in> set gs. fresh_spinner E conf (spinner.truncate g)"
  "traditional_new E conf template limit n rot = Some (Inr ts) \<Longrightarrow> \<forall>g \<in> set ts. fresh_spinner E conf (spinner.truncate g)"
  by (auto simp: unix_datagram_new_def traditional_new_def try_new_Inr nonzero_u32_Inr
      dest!: many_new_Inr [where view = spinner.truncate] dest: traditional_start_spinner
      split: if_split_asm option.split_asm sum.split_asm)

lemma logrotate_spinners:
  assumes "logrotate_new E conf root_path n limit k depth = Some (Inr ls)"
  shows "\<forall>g \<in> set ls. fresh_spinner E conf (spinner.truncate g)"
proof -
  let ?child = "\<lambda>i c t s. case logrotate_basename (base (e_num E)) root_path depth s of
                None \<Rightarrow> None
              | Some (basename, s) \<Rightarrow>
                  (case logrotate_child_start None basename k (as_u32 limit) c t (e_disk E) of
                     Inr g \<Rightarrow> Some (g, s) | Inl _ \<Rightarrow> None)"
  have "many_new E conf (as_u32 (g_bytes_per_second conf)) ?child 0 n (e_from_seed E (g_seed conf)) = Some (Inr ls)"
    using assms by (auto simp: logrotate_new_def try_new_Inr nonzero_u32_Inr split: if_split_asm)
  then show ?thesis
  proof (rule many_new_Inr)
    show "spinner.truncate g = spinner_new c t" if "?child i c t s = Some (g, s')" for i c t s g s'
      using that by (auto split: option.split_asm sum.split_asm intro: logrotate_start_spinner)
  qed
qed

lemma server_new_fresh:
  assumes "server_new E cfg st = Some (Inr (srv, st'))"
  shows "server_ok srv \<and> (\<forall>g \<in> set (spinners srv). fresh_spinner E (inner_config cfg) g)"
  using assms
  by (cases cfg) (auto simp: map_attempt_Inr dest: one_paced_spinners request_spinners children_spinners [THEN bspec] logrotate_spinners [THEN bspec])

text \<open>
  How many tasks send, each from a cache of its own and paced by a throttle of its own: the
  connections of the datagram generator, the files of the file generators, and one task elsewhere.
\<close>

fun sending_tasks :: "Inner \<Rightarrow> nat" where
  "sending_tasks (Inner_UnixDatagram conf n) = n"
| "sending_tasks (Inner_Traditional conf template limit n rot) = n"
| "sending_tasks (Inner_Logrotate conf root_path n limit rotations depth) = n"
| "sending_tasks _ = 1"

lemma many_new_length: "many_new E conf bps child i n s = Some (Inr gs) \<Longrightarrow> length gs = n"
  by (induction n arbitrary: i s gs) (auto simp: try_new_Inr split: option.splits)

lemma server_new_tasks: "server_new E cfg st = Some (Inr (srv, st')) \<Longrightarrow> length (spinners srv) = sending_tasks cfg"
  by (cases cfg) (auto simp: map_attempt_Inr unix_datagram_new_def traditional_new_def logrotate_new_def try_new_Inr
      dest: many_new_length split: if_split_asm)

lemma spinner_rate_limit:
  assumes E: "rng_ok (base (e_num E))" "externs_ok (e_ext E)"
    and srv: "server_new E cfg st = Some (Inr (srv, st'))"
    and conf: "conf = inner_config cfg" "g_throttle conf = Config_Stable" "0 < g_maximum_block_size conf"
      "g_maximum_block_size conf + slack_of (g_variant conf) \<le> as_u32 (g_bytes_per_second conf)"
    and run: "reaches (server_act (real_clock drift (late_sleep late))) server_guard srv srv'"
    and g: "g \<in> set (spinners srv')"
  shows "emitted_in real_pos k (emitted g) \<le> as_u32 (g_bytes_per_second conf) \<and>
    (\<exists>c. cache_ok c \<and> (\<forall>b \<in> set (blocks c). total_bytes b < g_maximum_block_size conf + slack_of (g_variant conf)) \<and>
       map snd (emitted g) = map (cache_stream c) [0..<length (emitted g)])"
proof -
  from g obtain i where i: "i < length (spinners srv')" "g = spinners srv' ! i" by (auto simp: in_set_conv_nth)
  from server_new_fresh [OF srv] conf(1) have ok: "server_ok srv" "\<forall>g \<in> set (spinners srv). fresh_spinner E conf g" by simp_all
  from spinners_kept [OF run ok(1)] i have i': "i < length (spinners srv)" by simp
  with ok(2) have "fresh_spinner E conf (spinners srv ! i)" by simp
  then obtain c where c: "cache_of E conf c"
    and s0: "spinners srv ! i = spinner_new c (Throttle_Stable (with_clock (of_nat (as_u32 (g_bytes_per_second conf))) (e_clock E)))"
    using conf(2) by (auto simp: fresh_spinner_def new_with_config_def)
  from c obtain requested where "within_blocks requested (g_maximum_block_size conf) (slack_of (g_variant conf)) c"
    unfolding cache_of_def using cache_fixed_within [OF E conf(3)] by blast
  then have w: "cache_ok c" "\<forall>b \<in> set (blocks c). total_bytes b < g_maximum_block_size conf + slack_of (g_variant conf)"
    by (simp_all add: within_blocks_def)
  have cap: "unat (of_nat (as_u32 (g_bytes_per_second conf)) :: 32 word) = as_u32 (g_bytes_per_second conf)"
    by (simp add: unat_of_nat as_u32_def)
  have "has_spinner i srv" using ok(1) i' by (simp add: has_spinner_def)
  from real_server.emission_rate [OF run this s0 w(1), of k] w(2) conf(4) cap
  have "emitted_in real_pos k (emitted g) \<le> as_u32 (g_bytes_per_second conf) \<and>
      map snd (emitted g) = map (cache_stream c) [0..<length (emitted g)]"
    unfolding i(2) by fastforce
  with w show ?thesis by blast
qed

section \<open>Properties\<close>

text \<open>
  C1. The rate of the generators that send blocks: TCP, UDP, HTTP, Splunk HEC, gRPC, unix stream,
  unix datagram, passthru file, traditional file and logrotate file (the file tree, process tree, procfs and
  FUSE generators send none and are modelled apart). Take such a generator as its
  constructor builds it, with a stable throttle and blocks, length prefix included, no larger than
  \<open>bytes_per_second\<close>, and any run of it on the real-time clock. It has as many sending tasks
  as its configuration asks for; each of them takes at most \<open>bytes_per_second\<close> bytes in any
  one-second interval, so that all of them together take at most that many times the number of tasks;
  and the blocks a task takes are those of a well-formed cache in round-robin order.
\<close>

theorem generator_rate_limit:
  assumes E: "rng_ok (base (e_num E))" "externs_ok (e_ext E)"
    and srv: "server_new E cfg st = Some (Inr (srv, st'))"
    and conf: "conf = inner_config cfg" "g_throttle conf = Config_Stable" "0 < g_maximum_block_size conf"
      "g_maximum_block_size conf + slack_of (g_variant conf) \<le> as_u32 (g_bytes_per_second conf)"
    and run: "reaches (server_act (real_clock drift (late_sleep late))) server_guard srv srv'"
  shows "length (spinners srv') = sending_tasks cfg \<and>
    (\<forall>g \<in> set (spinners srv'). emitted_in real_pos k (emitted g) \<le> as_u32 (g_bytes_per_second conf) \<and>
       (\<exists>c. cache_ok c \<and> (\<forall>b \<in> set (blocks c). total_bytes b < g_maximum_block_size conf + slack_of (g_variant conf)) \<and>
          map snd (emitted g) = map (cache_stream c) [0..<length (emitted g)])) \<and>
    (\<Sum>g \<leftarrow> spinners srv'. emitted_in real_pos k (emitted g)) \<le> sending_tasks cfg * as_u32 (g_bytes_per_second conf)"
proof -
  have n: "length (spinners srv') = sending_tasks cfg"
    using spinners_kept [OF run] server_new_fresh [OF srv] server_new_tasks [OF srv] by simp
  note each = spinner_rate_limit [OF E srv conf run]
  have "(\<Sum>g \<leftarrow> spinners srv'. emitted_in real_pos k (emitted g)) \<le> (\<Sum>g \<leftarrow> spinners srv'. as_u32 (g_bytes_per_second conf))"
    by (rule sum_list_mono) (use each in blast)
  also have "\<dots> = sending_tasks cfg * as_u32 (g_bytes_per_second conf)" using n by (simp add: sum_list_triv)
  finally show ?thesis using n each by blast
qed

definition demo_env :: "(nat, nat, RealClock) gen_env" where
  "demo_env =
     \<lparr>e_num = demo_num_rng, e_tags = demo_num_rng, e_seed_from = (\<lambda>n. n), e_ext = demo_externs, e_from_seed = (\<lambda>s. 5),
      e_clock = real_default 0, e_resolve = (\<lambda>a. Some [a]), e_authority = (\<lambda>u. Some u), e_rpc_path = (\<lambda>u. Some u),
      e_disk = Map.empty\<rparr>"

definition demo_config :: gen_config where
  "demo_config =
     \<lparr>g_seed = [], g_variant = Config_Static ''f'', g_bytes_per_second = 7, g_maximum_block_size = 6,
      g_maximum_prebuild_cache_size_bytes = 6, g_throttle = Config_Stable\<rparr>"

definition demo_statics :: statics where
  "demo_statics = \<lparr>http_semaphore = None, hec_semaphore = None\<rparr>"

definition demo_server :: "RealClock Server" where
  "demo_server =
     Server_Tcp (net_gen_new (Fixed 0 [\<lparr>total_bytes = 4, bytes = ''abcd''\<rparr>, \<lparr>total_bytes = 4, bytes = ''abcd''\<rparr>] 8)
       (Throttle_Stable (with_clock 7 (real_default 0))))"

lemma demo_paced:
  "one_paced demo_env demo_config =
     Some (Inr (Fixed 0 [\<lparr>total_bytes = 4, bytes = ''abcd''\<rparr>, \<lparr>total_bytes = 4, bytes = ''abcd''\<rparr>] 8,
       Throttle_Stable (with_clock 7 (real_default 0))))"
  using demo_static_cache
  by (simp add: one_paced_def paced_parts_def demo_env_def demo_config_def try_new_def nonzero_u32_def as_u32_def new_with_config_def)

lemma demo_server_new: "server_new demo_env (Inner_Tcp demo_config ''host'') demo_statics = Some (Inr (demo_server, demo_statics))"
  by (simp add: tcp_new_def demo_paced try_new_def map_attempt_def resolve_first_def demo_server_def) (simp add: demo_env_def)

definition demo_clock :: "RealClock clock" where
  "demo_clock = real_clock (\<lambda>_. 0) (late_sleep (\<lambda>_ _. 0))"

definition demo_sent :: "RealClock Server option" where
  "demo_sent = run_events (server_act demo_clock) server_guard [Sv_Net (Ev_Connect True), Sv_Net (Ev_Write True)] demo_server"

lemma demo_sent_runs: "demo_sent \<noteq> None \<and> map (length \<circ> emitted) (spinners (the demo_sent)) = [1]"
  by (simp add: demo_sent_def demo_server_def net_gen_new_def spinner_new_def spinner.extend_def net_step_def turn_def spinner_peek_def
      receiver_peek_def receiver_new_def next_block_def receiver_next_def stable_wait_for.simps demo_clock_def real_clock_def
      real_ticks_elapsed_def instant_now_def real_default_def with_clock_def Valve_new_def request_def INTERVAL_TICKS_def umax_def
      Let_def spinner.truncate_def)

theorem generator_rate_limit_witness:
  "\<exists>g. spinners (the demo_sent) = [g] \<and> length (emitted g) = 1 \<and> emitted_in real_pos 0 (emitted g) \<le> 7"
proof -
  have E: "rng_ok (base (e_num demo_env))" "externs_ok (e_ext demo_env)"
    by (simp_all add: demo_env_def demo_num_rng_def demo_externs_ok)
  have c: "g_throttle demo_config = Config_Stable" "0 < g_maximum_block_size demo_config"
    "g_maximum_block_size demo_config + slack_of (g_variant demo_config) \<le> as_u32 (g_bytes_per_second demo_config)"
    and bps: "as_u32 (g_bytes_per_second demo_config) = 7"
    by (simp_all add: demo_config_def as_u32_def)
  from demo_sent_runs obtain g where g: "spinners (the demo_sent) = [g]" "length (emitted g) = 1" by auto
  from demo_sent_runs have "run_events (server_act demo_clock) server_guard [Sv_Net (Ev_Connect True), Sv_Net (Ev_Write True)] demo_server
      = Some (the demo_sent)" by (simp add: demo_sent_def)
  from run_events_reaches [OF this reaches_start]
  have "reaches (server_act demo_clock) server_guard demo_server (the demo_sent)" .
  from generator_rate_limit [OF E demo_server_new _ c this [unfolded demo_clock_def], of 0] g bps show ?thesis by simp
qed

end
