(* ===== verification/Payloadtool.thy ===== *)
theory Payloadtool
  imports Generator
begin

text \<open>
  \<^verbatim>\<open>bin/payloadtool.rs\<close>: it builds the block cache of each generator of a configuration file and warns if
  the cache does not have exactly the bytes asked for. The result of a check is whether it
  warned; \<open>None\<close> is a panic or a construction that does not return. The file tree, process tree and procfs
  generators, which have no payload, panic like the other unsupported ones.
\<close>

section \<open>The checks\<close>

definition UDP_PACKET_LIMIT_BYTES :: nat where
  "UDP_PACKET_LIMIT_BYTES = 65507"

datatype tool_error = Tool_InvalidArgs | Tool_Io | Tool_Block "payload_error cache_error" | Tool_Byte | Tool_Deserialize

definition generate_and_check ::
    "('r, 'q, 'c) gen_env \<Rightarrow> payload_config \<Rightarrow> nat list \<Rightarrow> nat \<Rightarrow> nat \<Rightarrow> (tool_error + bool) option" where
  "generate_and_check E conf seed requested_bytes max_block_size =
     (case cache_fixed (e_num E) (e_tags E) (e_seed_from E) (e_ext E) requested_bytes max_block_size conf (e_from_seed E seed) of
        None \<Rightarrow> None
      | Some (Inl e, s) \<Rightarrow> Some (Inl (Tool_Block e))
      | Some (Inr c, s) \<Rightarrow>
          let total_generated_bytes = fold (\<lambda>b n. wrapping_add 32 n (total_bytes b)) (blocks c) 0
          in Some (Inr (requested_bytes \<noteq> total_generated_bytes)))"

text \<open>\<open>NonZeroU32::new\<close> with \<open>expect\<close>: a size of zero panics.\<close>

definition check_cache :: "('r, 'q, 'c) gen_env \<Rightarrow> gen_config \<Rightarrow> nat \<Rightarrow> (tool_error + bool) option" where
  "check_cache E g max_block_size =
     (if as_u32 (g_maximum_prebuild_cache_size_bytes g) = 0 then None
      else generate_and_check E (g_variant g) (g_seed g) (as_u32 (g_maximum_prebuild_cache_size_bytes g)) max_block_size)"

fun check_generator :: "('r, 'q, 'c) gen_env \<Rightarrow> Inner \<Rightarrow> (tool_error + bool) option" where
  "check_generator E (Inner_Traditional _ _ _ _ _) = None"
| "check_generator E (Inner_Logrotate _ _ _ _ _ _) = None"
| "check_generator E (Inner_UnixDatagram g _) = check_cache E g UDP_PACKET_LIMIT_BYTES"
| "check_generator E (Inner_Tcp g _) = check_cache E g (g_maximum_block_size g)"
| "check_generator E (Inner_Udp g _) = check_cache E g UDP_PACKET_LIMIT_BYTES"
| "check_generator E (Inner_Http g _) = check_cache E g (g_maximum_block_size g)"
| "check_generator E (Inner_SplunkHec _ _ _ _ _) = None"
| "check_generator E (Inner_Grpc g _) = check_cache E g (g_maximum_block_size g)"
| "check_generator E (Inner_UnixStream g) = check_cache E g (g_maximum_block_size g)"
| "check_generator E (Inner_PassthruFile g) = check_cache E g (g_maximum_block_size g)"

fun check_generators :: "('r, 'q, 'c) gen_env \<Rightarrow> Inner list \<Rightarrow> (tool_error + bool list) option" where
  "check_generators E [] = Some (Inr [])"
| "check_generators E (g # gs) =
     (case check_generator E g of
        None \<Rightarrow> None
      | Some (Inl e) \<Rightarrow> Some (Inl e)
      | Some (Inr w) \<Rightarrow> map_option (map_sum id ((#) w)) (check_generators E gs))"

text \<open>
  \<open>main\<close>, over the file (\<open>None\<close> cannot be opened, \<open>Some None\<close> cannot be read), the YAML parser, which
  gives the generators with their identifiers, and the option that names one generator.
\<close>

definition payloadtool_main ::
    "('r, 'q, 'c) gen_env \<Rightarrow> (string \<Rightarrow> (string option \<times> Inner) list option) \<Rightarrow> string option option \<Rightarrow> string option
      \<Rightarrow> (tool_error + bool list) option" where
  "payloadtool_main E from_yaml contents generator_id =
     (case contents of
        None \<Rightarrow> None
      | Some None \<Rightarrow> Some (Inl Tool_Io)
      | Some (Some text) \<Rightarrow>
          (case from_yaml text of
             None \<Rightarrow> Some (Inl Tool_Deserialize)
           | Some gs \<Rightarrow>
               (case generator_id of
                  None \<Rightarrow> check_generators E (map snd gs)
                | Some i \<Rightarrow>
                    (case find (\<lambda>g. fst g = Some i) gs of
                       None \<Rightarrow> Some (Inl Tool_InvalidArgs)
                     | Some g \<Rightarrow> check_generators E [snd g]))))"

section \<open>Agreement with the generators\<close>

text \<open>The generators whose configured block size the tool uses.\<close>

fun own_block_size :: "Inner \<Rightarrow> bool" where
  "own_block_size (Inner_Tcp _ _) \<longleftrightarrow> True"
| "own_block_size (Inner_Http _ _) \<longleftrightarrow> True"
| "own_block_size (Inner_Grpc _ _) \<longleftrightarrow> True"
| "own_block_size (Inner_UnixStream _) \<longleftrightarrow> True"
| "own_block_size (Inner_PassthruFile _) \<longleftrightarrow> True"
| "own_block_size _ \<longleftrightarrow> False"

definition tool_verdict :: "gen_config \<Rightarrow> Cache \<Rightarrow> bool" where
  "tool_verdict conf c \<longleftrightarrow> sum_list (map total_bytes (blocks c)) mod 2 ^ 32 \<noteq> as_u32 (g_maximum_prebuild_cache_size_bytes conf)"

lemma fold_wrapping_add: "n < 2 ^ w \<Longrightarrow> fold (\<lambda>b n. wrapping_add w n (f b)) bs n = (n + sum_list (map f bs)) mod 2 ^ w"
  by (induction bs arbitrary: n) (simp_all add: wrapping_add_def add.assoc mod_add_left_eq)

lemma check_cache_one_paced:
  assumes "as_u32 (g_bytes_per_second conf) \<noteq> 0" "as_u32 (g_maximum_prebuild_cache_size_bytes conf) \<noteq> 0"
  shows "check_cache E conf (g_maximum_block_size conf) =
     (case one_paced E conf of
        None \<Rightarrow> None
      | Some (Inl (New_Block e)) \<Rightarrow> Some (Inl (Tool_Block e))
      | Some (Inl _) \<Rightarrow> None
      | Some (Inr (c, t)) \<Rightarrow> Some (Inr (tool_verdict conf c)))"
  using assms
  by (auto simp: check_cache_def generate_and_check_def one_paced_def paced_parts_def try_new_def nonzero_u32_def
      fold_wrapping_add tool_verdict_def split: option.splits sum.splits)

lemma own_block_size_check: "own_block_size g \<Longrightarrow> check_generator E g = check_cache E (inner_config g) (g_maximum_block_size (inner_config g))"
  by (cases g) simp_all

text \<open>A generator of this kind is built if its cache is and the rest of its configuration is good.\<close>

lemma own_block_size_new:
  assumes "own_block_size g" "as_u32 (g_bytes_per_second (inner_config g)) \<noteq> 0"
  shows "case one_paced E (inner_config g) of
      None \<Rightarrow> server_new E g st = None
    | Some (Inl e) \<Rightarrow> server_new E g st = Some (Inl e)
    | Some (Inr (c, t)) \<Rightarrow> \<forall>srv st'. server_new E g st = Some (Inr (srv, st')) \<longrightarrow> spinners srv = [spinner_new c t]"
  using assms
  by (cases g) (auto simp: tcp_new_def http_new_def grpc_new_def unix_stream_gen_new_def passthru_file_new_def try_new_def map_attempt_def
      nonzero_u32_def split: option.splits sum.splits if_splits)

lemma one_paced_error:
  assumes "one_paced E conf = Some (Inl e)" "as_u32 (g_bytes_per_second conf) \<noteq> 0" "as_u32 (g_maximum_prebuild_cache_size_bytes conf) \<noteq> 0"
  shows "\<exists>b. e = New_Block b"
  using assms by (auto simp: one_paced_def paced_parts_def try_new_def nonzero_u32_def split: option.splits sum.splits)

text \<open>
  C40. The payload tool builds the cache that the generator will use: for a TCP, HTTP, gRPC, Unix stream or
  passthru file generator whose rate and cache size are not zero, a generator that is built has
  the cache the tool's verdict is about; an error of the tool is the error of the generator's
  constructor, and when the tool panics or does not return, neither does the constructor. For UDP and
  Unix datagrams this fails: there the tool puts the packet limit in place of the configured block
  size, and refuses every smaller cache.
\<close>

theorem payloadtool_predicts_construction:
  assumes "own_block_size g" "as_u32 (g_bytes_per_second (inner_config g)) \<noteq> 0"
    and "as_u32 (g_maximum_prebuild_cache_size_bytes (inner_config g)) \<noteq> 0"
  shows "(\<forall>srv st'. server_new E g st = Some (Inr (srv, st')) \<longrightarrow>
        (\<exists>c t. spinners srv = [spinner_new c t] \<and> check_generator E g = Some (Inr (tool_verdict (inner_config g) c)))) \<and>
    (\<forall>e. check_generator E g = Some (Inl e) \<longrightarrow> (\<exists>b. e = Tool_Block b \<and> server_new E g st = Some (Inl (New_Block b)))) \<and>
    (check_generator E g = None \<longrightarrow> server_new E g st = None) \<and>
    (0 < as_u32 (g_maximum_prebuild_cache_size_bytes conf) \<longrightarrow> as_u32 (g_maximum_prebuild_cache_size_bytes conf) < UDP_PACKET_LIMIT_BYTES \<longrightarrow>
        check_generator E (Inner_Udp conf addr) = Some (Inl (Tool_Block Error_MaximumBlock)))"
proof -
  note check = own_block_size_check [OF assms(1), of E] check_cache_one_paced [OF assms(2,3), of E]
  have "check_generator E (Inner_Udp conf addr) = Some (Inl (Tool_Block Error_MaximumBlock))"
    if "0 < as_u32 (g_maximum_prebuild_cache_size_bytes conf)" "as_u32 (g_maximum_prebuild_cache_size_bytes conf) < UDP_PACKET_LIMIT_BYTES"
    using that by (simp add: check_cache_def generate_and_check_def cache_fixed_def)
  moreover have "case one_paced E (inner_config g) of
      None \<Rightarrow> server_new E g st = None \<and> check_generator E g = None
    | Some (Inl e) \<Rightarrow> server_new E g st = Some (Inl e) \<and> (\<exists>b. e = New_Block b \<and> check_generator E g = Some (Inl (Tool_Block b)))
    | Some (Inr (c, t)) \<Rightarrow> (\<forall>srv st'. server_new E g st = Some (Inr (srv, st')) \<longrightarrow> spinners srv = [spinner_new c t]) \<and>
        check_generator E g = Some (Inr (tool_verdict (inner_config g) c))"
    using own_block_size_new [OF assms(1,2), of E st] one_paced_error [OF _ assms(2,3), of E]
    by (auto simp: check split: option.splits sum.splits)
  ultimately show ?thesis by (fastforce split: option.splits sum.splits)
qed

theorem payloadtool_predicts_construction_witness:
  "server_new demo_env (Inner_Tcp demo_config ''host'') demo_statics = Some (Inr (demo_server, demo_statics)) \<and>
   (\<exists>c t. spinners demo_server = [spinner_new c t] \<and>
      check_generator demo_env (Inner_Tcp demo_config ''host'') = Some (Inr (tool_verdict demo_config c))) \<and>
   check_generator demo_env (Inner_Udp demo_config ''host'') = Some (Inl (Tool_Block Error_MaximumBlock))"
proof -
  have "own_block_size (Inner_Tcp demo_config ''host'')" "as_u32 (g_bytes_per_second (inner_config (Inner_Tcp demo_config ''host''))) \<noteq> 0"
    "as_u32 (g_maximum_prebuild_cache_size_bytes (inner_config (Inner_Tcp demo_config ''host''))) \<noteq> 0"
    by (simp_all add: demo_config_def as_u32_def)
  from payloadtool_predicts_construction [OF this, of demo_env demo_statics demo_config "''host''"] demo_server_new
  show ?thesis by (auto simp: as_u32_def demo_config_def UDP_PACKET_LIMIT_BYTES_def)
qed

end
