(* ===== verification/Procfs.thy ===== *)
theory Procfs
  imports Payload "HOL-Library.Word"
begin

unbundle bit_operations_syntax

text \<open>
  The fake processes of \<^verbatim>\<open>lading_payload/src/procfs.rs\<close> and \<^verbatim>\<open>procfs/proc.rs\<close>: the records behind the
  files of a \<^verbatim>\<open>/proc/{pid}\<close> directory, how they are drawn and how they are printed. The newtypes
  around an integer are that integer; a drawn signed integer reads the drawn bits in
  two's complement.
\<close>

section \<open>Constants\<close>

definition PID_MAX_LIMIT :: nat where
  "PID_MAX_LIMIT = 4194304"

definition TASK_COMM_LEN :: nat where
  "TASK_COMM_LEN = 16"

definition TASK_NAME_LEN :: nat where
  "TASK_NAME_LEN = 64"

definition UMASK_MAX :: nat where
  "UMASK_MAX = 4096"

definition NGROUPS_MAX :: nat where
  "NGROUPS_MAX = 65536"

definition NAME_MAX :: nat where
  "NAME_MAX = 254"

definition SECCOMP_FILTER_MAX :: nat where
  "SECCOMP_FILTER_MAX = 6553"

definition ASSUMED_NPROC :: nat where
  "ASSUMED_NPROC = 8"

definition ASSUMED_THREAD_MAX :: nat where
  "ASSUMED_THREAD_MAX = 32"

definition ASSUMED_NGROUPS_MAX :: nat where
  "ASSUMED_NGROUPS_MAX = 32"

lemmas proc_constants = PID_MAX_LIMIT_def TASK_COMM_LEN_def TASK_NAME_LEN_def UMASK_MAX_def NGROUPS_MAX_def NAME_MAX_def
  SECCOMP_FILTER_MAX_def ASSUMED_NPROC_def ASSUMED_THREAD_MAX_def ASSUMED_NGROUPS_MAX_def

definition sample_signed :: "'r rng \<Rightarrow> nat \<Rightarrow> ('r, int) state" where
  "sample_signed R w = do {
     n \<leftarrow> sample_bits R w;
     State_Monad.return (if n < 2 ^ (w - 1) then int n else int n - 2 ^ w)
   }"

section \<open>Fields\<close>

record ProcIo =
  io_rchar :: nat
  io_wchar :: nat
  io_syscr :: nat
  io_syscw :: nat
  io_read_bytes :: nat
  io_write_bytes :: nat
  io_cancelled_write_bytes :: nat

definition io_sample :: "'r rng \<Rightarrow> ('r, ProcIo) state" where
  "io_sample R = do {
     rchar \<leftarrow> sample_bits R 64;
     wchar \<leftarrow> sample_bits R 64;
     syscr \<leftarrow> sample_bits R 64;
     syscw \<leftarrow> sample_bits R 64;
     read_bytes \<leftarrow> sample_bits R 64;
     write_bytes \<leftarrow> sample_bits R 64;
     cancelled_write_bytes \<leftarrow> sample_bits R 64;
     State_Monad.return \<lparr>io_rchar = rchar, io_wchar = wchar, io_syscr = syscr, io_syscw = syscw, io_read_bytes = read_bytes,
       io_write_bytes = write_bytes, io_cancelled_write_bytes = cancelled_write_bytes\<rparr>
   }"

definition show_io :: "ProcIo \<Rightarrow> string" where
  "show_io io = join newline
     [''rchar: '' @ show_nat (io_rchar io), ''wchar: '' @ show_nat (io_wchar io), ''syscr: '' @ show_nat (io_syscr io),
      ''syscw: '' @ show_nat (io_syscw io), ''read_bytes: '' @ show_nat (io_read_bytes io),
      ''write_bytes: '' @ show_nat (io_write_bytes io),
      ''cancelled_write_bytes: '' @ show_nat (io_cancelled_write_bytes io)]"

datatype TaskState =
    TS_Running | TS_Sleeping | TS_DiskSleep | TS_Stopped | TS_TracingStop | TS_Dead | TS_Zombie | TS_Parked | TS_Idle

fun as_status_code :: "TaskState \<Rightarrow> string" where
  "as_status_code TS_Running = ''R (running)''"
| "as_status_code TS_Sleeping = ''S (sleeping)''"
| "as_status_code TS_DiskSleep = ''D (disk sleep)''"
| "as_status_code TS_Stopped = ''T (stopped)''"
| "as_status_code TS_TracingStop = ''t (tracing stop)''"
| "as_status_code TS_Dead = ''X (dead)''"
| "as_status_code TS_Zombie = ''Z (zombie)''"
| "as_status_code TS_Parked = ''P (parked)''"
| "as_status_code TS_Idle = ''I (idle)''"

fun as_stat_code :: "TaskState \<Rightarrow> string" where
  "as_stat_code TS_Running = ''R''"
| "as_stat_code TS_Sleeping = ''S''"
| "as_stat_code TS_DiskSleep = ''D''"
| "as_stat_code TS_Stopped = ''T''"
| "as_stat_code TS_TracingStop = ''t''"
| "as_stat_code TS_Dead = ''X''"
| "as_stat_code TS_Zombie = ''Z''"
| "as_stat_code TS_Parked = ''P''"
| "as_stat_code TS_Idle = ''I''"

definition task_state_sample :: "'r rng \<Rightarrow> ('r, TaskState) state" where
  "task_state_sample R = sample_pick R
     [TS_Running, TS_Sleeping, TS_DiskSleep, TS_Stopped, TS_TracingStop, TS_Dead, TS_Zombie, TS_Parked, TS_Idle]"

record Statm =
  sm_size :: nat
  sm_resident :: nat
  sm_shared :: nat
  sm_trs :: nat
  sm_lrs :: nat
  sm_drs :: nat
  sm_dt :: nat

definition statm_sample :: "'r rng \<Rightarrow> ('r, Statm) state" where
  "statm_sample R = do {
     sz \<leftarrow> sample_bits R 64;
     resident \<leftarrow> sample_bits R 64;
     shared \<leftarrow> sample_bits R 64;
     trs \<leftarrow> sample_bits R 64;
     drs \<leftarrow> sample_bits R 64;
     State_Monad.return \<lparr>sm_size = sz, sm_resident = resident, sm_shared = shared, sm_trs = trs, sm_lrs = 0, sm_drs = drs, sm_dt = 0\<rparr>
   }"

definition show_statm :: "Statm \<Rightarrow> string" where
  "show_statm m = join (CHR '' '') (map show_nat [sm_size m, sm_resident m, sm_shared m, sm_trs m, sm_lrs m, sm_drs m, sm_dt m])"

type_synonym Umask = nat
type_synonym DeviceMask = "32 word"
type_synonym Pid = nat
type_synonym Uid = nat
type_synonym Gid = nat
type_synonym MemSize = nat

definition umask_sample :: "'r rng \<Rightarrow> ('r, Umask) state" where
  "umask_sample R = sample_range R 0 UMASK_MAX"

definition show_umask :: "Umask \<Rightarrow> string" where
  "show_umask m = pad_left (CHR ''0'') 4 (show_radix 8 m)"

fun device_bits :: "'r rng \<Rightarrow> nat list \<Rightarrow> DeviceMask \<Rightarrow> ('r, DeviceMask) state" where
  "device_bits R [] m = State_Monad.return m"
| "device_bits R (index # indices) m = do {
     bt \<leftarrow> sample_range R 0 2;
     device_bits R indices (m OR push_bit index (of_nat bt))
   }"

definition device_mask_sample :: "'r rng \<Rightarrow> ('r, DeviceMask) state" where
  "device_mask_sample R = do { m \<leftarrow> device_bits R [0..<16] 0; device_bits R [20..<32] m }"

definition show_device_mask :: "DeviceMask \<Rightarrow> string" where
  "show_device_mask m = show_int (sint m)"

definition pid_sample :: "'r rng \<Rightarrow> ('r, Pid) state" where
  "pid_sample R = sample_range R 1 PID_MAX_LIMIT"

text \<open>\<open>Groups\<close> and \<open>NamespaceIdHierarchy\<close> print their ids alike.\<close>

definition show_ids :: "nat list \<Rightarrow> string" where
  "show_ids ids = join (CHR '' '') (map show_nat ids)"

definition show_mem_size :: "MemSize \<Rightarrow> string" where
  "show_mem_size size_in_bytes = pad_left (CHR '' '') 8 (show_nat (drop_bit 10 size_in_bytes)) @ '' kB''"

definition boolean_sample :: "'r rng \<Rightarrow> ('r, bool) state" where
  "boolean_sample R = do { b \<leftarrow> sample_bits R 1; State_Monad.return (b = 1) }"

definition show_boolean :: "bool \<Rightarrow> string" where
  "show_boolean b = show_nat (if b then 1 else 0)"

record SigQ =
  signals_queued :: nat
  max_number_for_queue :: nat

definition sigq_sample :: "'r rng \<Rightarrow> ('r, SigQ) state" where
  "sigq_sample R = do {
     queued \<leftarrow> sample_bits R 32;
     max_queued \<leftarrow> sample_bits R 64;
     State_Monad.return \<lparr>signals_queued = queued, max_number_for_queue = max_queued\<rparr>
   }"

definition show_sigq :: "SigQ \<Rightarrow> string" where
  "show_sigq q = show_nat (signals_queued q) @ ''/'' @ show_nat (max_number_for_queue q)"

text \<open>\<^verbatim>\<open>{:#016x}\<close>, where the width of 16 counts the prefix.\<close>

definition show_mask :: "nat \<Rightarrow> string" where
  "show_mask m = ''0x'' @ pad_left (CHR ''0'') 14 (show_radix 16 m)"

datatype SeccompMode = Seccomp_Disabled | Seccomp_Strict | Seccomp_Filter

definition seccomp_sample :: "'r rng \<Rightarrow> ('r, SeccompMode) state" where
  "seccomp_sample R = sample_pick R [Seccomp_Disabled, Seccomp_Strict, Seccomp_Filter]"

fun show_seccomp :: "SeccompMode \<Rightarrow> string" where
  "show_seccomp Seccomp_Disabled = ''0''"
| "show_seccomp Seccomp_Strict = ''1''"
| "show_seccomp Seccomp_Filter = ''2''"

definition show_mask_collection :: "nat list \<Rightarrow> string" where
  "show_mask_collection masks = join (CHR '','') (map (show_radix 16) masks)"

datatype ListEntry = LE_Single nat | LE_RangeInclusive nat nat

fun show_list_entry :: "ListEntry \<Rightarrow> string" where
  "show_list_entry (LE_Single entry) = show_nat entry"
| "show_list_entry (LE_RangeInclusive first lst) = show_nat first @ ''-'' @ show_nat lst"

definition show_list_collection :: "ListEntry list \<Rightarrow> string" where
  "show_list_collection es = join (CHR '','') (map show_list_entry es)"

datatype SpeculationStoreBypass =
    SSB_Unknown | SSB_NotVulnerable | SSB_ThreadForceMitigated | SSB_ThreadMitigated | SSB_ThreadVulnerable
  | SSB_GloballyMitigated | SSB_Vulnerable

definition store_bypass_sample :: "'r rng \<Rightarrow> ('r, SpeculationStoreBypass) state" where
  "store_bypass_sample R = sample_pick R
     [SSB_Unknown, SSB_NotVulnerable, SSB_ThreadForceMitigated, SSB_ThreadMitigated, SSB_ThreadVulnerable,
      SSB_GloballyMitigated, SSB_Vulnerable]"

fun show_store_bypass :: "SpeculationStoreBypass \<Rightarrow> string" where
  "show_store_bypass SSB_Unknown = ''unknown''"
| "show_store_bypass SSB_NotVulnerable = ''not vulnerable''"
| "show_store_bypass SSB_ThreadForceMitigated = ''thread force mitigated''"
| "show_store_bypass SSB_ThreadMitigated = ''thread mitigated''"
| "show_store_bypass SSB_ThreadVulnerable = ''thread vulnerable''"
| "show_store_bypass SSB_GloballyMitigated = ''globally mitigated''"
| "show_store_bypass SSB_Vulnerable = ''vulnerable''"

datatype SpeculationIndirectBranch =
    SIB_Unsupported | SIB_NotAffected | SIB_ConditionalForceDisabled | SIB_ConditionalDisabled | SIB_ConditionalEnabled
  | SIB_AlwaysEnabled | SIB_AlwaysDisabled | SIB_Unknown

definition indirect_branch_sample :: "'r rng \<Rightarrow> ('r, SpeculationIndirectBranch) state" where
  "indirect_branch_sample R = sample_pick R
     [SIB_Unsupported, SIB_NotAffected, SIB_ConditionalForceDisabled, SIB_ConditionalDisabled, SIB_ConditionalEnabled,
      SIB_AlwaysEnabled, SIB_AlwaysDisabled, SIB_Unknown]"

fun show_indirect_branch :: "SpeculationIndirectBranch \<Rightarrow> string" where
  "show_indirect_branch SIB_Unsupported = ''unsupported''"
| "show_indirect_branch SIB_NotAffected = ''not affected''"
| "show_indirect_branch SIB_ConditionalForceDisabled = ''conditional force disabled''"
| "show_indirect_branch SIB_ConditionalDisabled = ''conditional disabled''"
| "show_indirect_branch SIB_ConditionalEnabled = ''conditional enabled''"
| "show_indirect_branch SIB_AlwaysEnabled = ''always enabled''"
| "show_indirect_branch SIB_AlwaysDisabled = ''always disabled''"
| "show_indirect_branch SIB_Unknown = ''unknown''"

section \<open>The status file\<close>

record ProcStatus =
  su_name :: string
  su_umask :: Umask
  su_state :: TaskState
  su_tgid :: Pid
  su_ngid :: Pid
  su_pid :: Pid
  su_ppid :: Pid
  su_tracer_pid :: Pid
  su_ruid :: Uid
  su_euid :: Uid
  su_suid :: Uid
  su_fuid :: Uid
  su_rgid :: Gid
  su_egid :: Gid
  su_sgid :: Gid
  su_fgid :: Gid
  su_fd_size :: nat
  su_groups :: "Gid list"
  su_ns_tgid :: "Pid list"
  su_ns_pid :: "Pid list"
  su_ns_pgid :: "Pid list"
  su_ns_sid :: "Pid list"
  su_vm_peak :: MemSize
  su_vm_size :: MemSize
  su_vm_lck :: MemSize
  su_vm_pin :: MemSize
  su_vm_hwm :: MemSize
  su_vm_rss :: MemSize
  su_rss_anon :: MemSize
  su_rss_file :: MemSize
  su_rss_shmem :: MemSize
  su_vm_data :: MemSize
  su_vm_stk :: MemSize
  su_vm_exe :: MemSize
  su_vm_lib :: MemSize
  su_vm_pte :: MemSize
  su_vm_swap :: MemSize
  su_huge_tlb_pages :: MemSize
  su_core_dumping :: bool
  su_thp_enabled :: bool
  su_threads :: int
  su_sigq :: SigQ
  su_sig_pnd :: nat
  su_shd_pnd :: nat
  su_sig_blk :: nat
  su_sig_ign :: nat
  su_sig_cgt :: nat
  su_cap_inh :: nat
  su_cap_prm :: nat
  su_cap_eff :: nat
  su_cap_bnd :: nat
  su_cap_amb :: nat
  su_no_new_privs :: bool
  su_seccomp :: SeccompMode
  su_seccomp_filters :: int
  su_speculation_store_bypass :: SpeculationStoreBypass
  su_speculation_indirect_branch :: SpeculationIndirectBranch
  su_cpus_allowed :: "nat list"
  su_cpus_allowed_list :: "ListEntry list"
  su_mems_allowed :: "nat list"
  su_mems_allowed_list :: "ListEntry list"
  su_voluntary_ctxt_switches :: nat
  su_nonvoluntary_ctxt_switches :: nat

text \<open>
  The fields in the order they are printed, each as its name, a colon and a tab, the value and a
  newline.
\<close>

definition status_fields :: "ProcStatus \<Rightarrow> (string \<times> string) list" where
  "status_fields st =
     [(''Name'', su_name st),
      (''Umask'', show_umask (su_umask st)),
      (''State'', as_status_code (su_state st)),
      (''Tgid'', show_nat (su_tgid st)),
      (''Ngid'', show_nat (su_ngid st)),
      (''Pid'', show_nat (su_pid st)),
      (''PPid'', show_nat (su_ppid st)),
      (''TracerPid'', show_nat (su_tracer_pid st)),
      (''Uid'', join (CHR 0x09) [show_nat (su_ruid st), show_nat (su_euid st), show_nat (su_suid st), show_nat (su_fuid st)]),
      (''Gid'', join (CHR 0x09) [show_nat (su_rgid st), show_nat (su_egid st), show_nat (su_sgid st), show_nat (su_fgid st)]),
      (''FDSize'', show_nat (su_fd_size st)),
      (''Groups'', show_ids (su_groups st)),
      (''NStgid'', show_ids (su_ns_tgid st)),
      (''NSpid'', show_ids (su_ns_pid st)),
      (''NSpgid'', show_ids (su_ns_pgid st)),
      (''NSsid'', show_ids (su_ns_sid st)),
      (''VmPeak'', show_mem_size (su_vm_peak st)),
      (''VmSize'', show_mem_size (su_vm_size st)),
      (''VmLck'', show_mem_size (su_vm_lck st)),
      (''VmPin'', show_mem_size (su_vm_pin st)),
      (''VmHWM'', show_mem_size (su_vm_hwm st)),
      (''VmRSS'', show_mem_size (su_vm_rss st)),
      (''RssAnon'', show_mem_size (su_rss_anon st)),
      (''RssFile'', show_mem_size (su_rss_file st)),
      (''RssShmem'', show_mem_size (su_rss_shmem st)),
      (''VmData'', show_mem_size (su_vm_data st)),
      (''VmStk'', show_mem_size (su_vm_stk st)),
      (''VmExe'', show_mem_size (su_vm_exe st)),
      (''VmLib'', show_mem_size (su_vm_lib st)),
      (''VmPTE'', show_mem_size (su_vm_pte st)),
      (''VmSwap'', show_mem_size (su_vm_swap st)),
      (''HugetlbPages'', show_mem_size (su_huge_tlb_pages st)),
      (''CoreDumping'', show_boolean (su_core_dumping st)),
      (''THP_enabled'', show_boolean (su_thp_enabled st)),
      (''Threads'', show_int (su_threads st)),
      (''SigQ'', show_sigq (su_sigq st)),
      (''SigPnd'', show_mask (su_sig_pnd st)),
      (''ShdPnd'', show_mask (su_shd_pnd st)),
      (''SigBlk'', show_mask (su_sig_blk st)),
      (''SigIgn'', show_mask (su_sig_ign st)),
      (''SigCgt'', show_mask (su_sig_cgt st)),
      (''CapInh'', show_mask (su_cap_inh st)),
      (''CapPrm'', show_mask (su_cap_prm st)),
      (''CapEff'', show_mask (su_cap_eff st)),
      (''CapBnd'', show_mask (su_cap_bnd st)),
      (''CapAmb'', show_mask (su_cap_amb st)),
      (''NoNewPrivs'', show_boolean (su_no_new_privs st)),
      (''Seccomp'', show_seccomp (su_seccomp st)),
      (''Seccomp_filters'', show_int (su_seccomp_filters st)),
      (''Speculation_Store_Bypass'', show_store_bypass (su_speculation_store_bypass st)),
      (''SpeculationIndirectBranch'', show_indirect_branch (su_speculation_indirect_branch st)),
      (''Cpus_allowed'', show_mask_collection (su_cpus_allowed st)),
      (''Cpus_allowed_list'', show_list_collection (su_cpus_allowed_list st)),
      (''Mems_allowed'', show_mask_collection (su_mems_allowed st)),
      (''Mems_allowed_list'', show_list_collection (su_mems_allowed_list st)),
      (''voluntary_ctxt_switches'', show_nat (su_voluntary_ctxt_switches st)),
      (''nonvoluntary_ctxt_switches'', show_nat (su_nonvoluntary_ctxt_switches st))]"

definition show_status_file :: "ProcStatus \<Rightarrow> string" where
  "show_status_file st = concat (map (\<lambda>(k, v). k @ '':'' @ [CHR 0x09] @ v @ [newline]) (status_fields st))"

record StatusGenerator =
  sg_pid :: Pid
  sg_name :: string

definition StatusGenerator_new :: "Pid \<Rightarrow> string \<Rightarrow> StatusGenerator option" where
  "StatusGenerator_new pid name = (if length name \<le> TASK_NAME_LEN then Some \<lparr>sg_pid = pid, sg_name = name\<rparr> else None)"

definition cpu_mask :: nat where
  "cpu_mask = fold (\<lambda>i m. m OR push_bit i 1) [0..<ASSUMED_NPROC] 0"

text \<open>The group ids are those of the user; every processor is allowed, and memory node 0.\<close>

definition status_generate :: "'r rng \<Rightarrow> StatusGenerator \<Rightarrow> ('r, ProcStatus) state" where
  "status_generate R sg = do {
     uid \<leftarrow> sample_bits R 32;
     seccomp \<leftarrow> seccomp_sample R;
     seccomp_filters \<leftarrow> (case seccomp of Seccomp_Filter \<Rightarrow> sample_range R 1 SECCOMP_FILTER_MAX | _ \<Rightarrow> State_Monad.return 0);
     ngroups \<leftarrow> sample_range R 0 (ASSUMED_NGROUPS_MAX + 1);
     groups \<leftarrow> sample_many ngroups (sample_bits R 32);
     v_umask \<leftarrow> umask_sample R;
     v_state \<leftarrow> task_state_sample R;
     v_ppid \<leftarrow> pid_sample R;
     v_fd_size \<leftarrow> sample_bits R 64;
     v_vm_peak \<leftarrow> sample_bits R 64;
     v_vm_size \<leftarrow> sample_bits R 64;
     v_vm_lck \<leftarrow> sample_bits R 64;
     v_vm_pin \<leftarrow> sample_bits R 64;
     v_vm_hwm \<leftarrow> sample_bits R 64;
     v_vm_rss \<leftarrow> sample_bits R 64;
     v_rss_anon \<leftarrow> sample_bits R 64;
     v_rss_file \<leftarrow> sample_bits R 64;
     v_rss_shmem \<leftarrow> sample_bits R 64;
     v_vm_data \<leftarrow> sample_bits R 64;
     v_vm_stk \<leftarrow> sample_bits R 64;
     v_vm_exe \<leftarrow> sample_bits R 64;
     v_vm_lib \<leftarrow> sample_bits R 64;
     v_vm_pte \<leftarrow> sample_bits R 64;
     v_vm_swap \<leftarrow> sample_bits R 64;
     v_huge_tlb_pages \<leftarrow> sample_bits R 64;
     v_core_dumping \<leftarrow> boolean_sample R;
     v_thp_enabled \<leftarrow> boolean_sample R;
     v_threads \<leftarrow> sample_range R 1 (ASSUMED_THREAD_MAX + 1);
     v_sigq \<leftarrow> sigq_sample R;
     v_sig_pnd \<leftarrow> sample_bits R 64;
     v_shd_pnd \<leftarrow> sample_bits R 64;
     v_sig_blk \<leftarrow> sample_bits R 64;
     v_sig_ign \<leftarrow> sample_bits R 64;
     v_sig_cgt \<leftarrow> sample_bits R 64;
     v_cap_inh \<leftarrow> sample_bits R 64;
     v_cap_prm \<leftarrow> sample_bits R 64;
     v_cap_eff \<leftarrow> sample_bits R 64;
     v_cap_bnd \<leftarrow> sample_bits R 64;
     v_cap_amb \<leftarrow> sample_bits R 64;
     v_no_new_privs \<leftarrow> boolean_sample R;
     v_speculation_store_bypass \<leftarrow> store_bypass_sample R;
     v_speculation_indirect_branch \<leftarrow> indirect_branch_sample R;
     v_voluntary_ctxt_switches \<leftarrow> sample_bits R 64;
     v_nonvoluntary_ctxt_switches \<leftarrow> sample_bits R 64;
     State_Monad.return
       \<lparr>su_name = sg_name sg, su_umask = v_umask, su_state = v_state, su_tgid = sg_pid sg, su_ngid = sg_pid sg,
        su_pid = sg_pid sg, su_ppid = v_ppid, su_tracer_pid = 0, su_ruid = uid, su_euid = uid, su_suid = uid,
        su_fuid = uid, su_rgid = uid, su_egid = uid, su_sgid = uid, su_fgid = uid, su_fd_size = v_fd_size,
        su_groups = groups, su_ns_tgid = [sg_pid sg], su_ns_pid = [sg_pid sg], su_ns_pgid = [sg_pid sg],
        su_ns_sid = [sg_pid sg], su_vm_peak = v_vm_peak, su_vm_size = v_vm_size, su_vm_lck = v_vm_lck,
        su_vm_pin = v_vm_pin, su_vm_hwm = v_vm_hwm, su_vm_rss = v_vm_rss, su_rss_anon = v_rss_anon,
        su_rss_file = v_rss_file, su_rss_shmem = v_rss_shmem, su_vm_data = v_vm_data, su_vm_stk = v_vm_stk,
        su_vm_exe = v_vm_exe, su_vm_lib = v_vm_lib, su_vm_pte = v_vm_pte, su_vm_swap = v_vm_swap,
        su_huge_tlb_pages = v_huge_tlb_pages, su_core_dumping = v_core_dumping, su_thp_enabled = v_thp_enabled,
        su_threads = int v_threads, su_sigq = v_sigq, su_sig_pnd = v_sig_pnd, su_shd_pnd = v_shd_pnd,
        su_sig_blk = v_sig_blk, su_sig_ign = v_sig_ign, su_sig_cgt = v_sig_cgt, su_cap_inh = v_cap_inh,
        su_cap_prm = v_cap_prm, su_cap_eff = v_cap_eff, su_cap_bnd = v_cap_bnd, su_cap_amb = v_cap_amb,
        su_no_new_privs = v_no_new_privs, su_seccomp = seccomp, su_seccomp_filters = int seccomp_filters,
        su_speculation_store_bypass = v_speculation_store_bypass,
        su_speculation_indirect_branch = v_speculation_indirect_branch, su_cpus_allowed = [cpu_mask],
        su_cpus_allowed_list = [LE_RangeInclusive 0 (ASSUMED_NPROC - 1)], su_mems_allowed = [0],
        su_mems_allowed_list = [LE_Single 0], su_voluntary_ctxt_switches = v_voluntary_ctxt_switches,
        su_nonvoluntary_ctxt_switches = v_nonvoluntary_ctxt_switches\<rparr>
   }"

section \<open>The stat file\<close>

datatype SchedulingPolicy = SP_Normal | SP_Fifo | SP_RoundRobin | SP_Batch | SP_Idle | SP_Deadline

fun show_policy :: "SchedulingPolicy \<Rightarrow> string" where
  "show_policy SP_Normal = ''0''"
| "show_policy SP_Fifo = ''1''"
| "show_policy SP_RoundRobin = ''2''"
| "show_policy SP_Batch = ''3''"
| "show_policy SP_Idle = ''5''"
| "show_policy SP_Deadline = ''6''"

record ProcStat =
  st_pid :: Pid
  st_comm :: string
  st_state :: TaskState
  st_ppid :: Pid
  st_pgrp :: Pid
  st_session :: Pid
  st_tty_nr :: DeviceMask
  st_tpgid :: Pid
  st_flags :: nat
  st_minflt :: nat
  st_cminflt :: nat
  st_majflt :: nat
  st_cmajflt :: nat
  st_utime :: nat
  st_stime :: nat
  st_cutime :: int
  st_cstime :: int
  st_priority :: int
  st_nice :: int
  st_num_threads :: int
  st_itrealvalue :: int
  st_starttime :: nat
  st_vsize :: nat
  st_rss :: int
  st_rsslim :: nat
  st_startcode :: nat
  st_endcode :: nat
  st_startstack :: nat
  st_kstkesp :: nat
  st_kstkeip :: nat
  st_signal :: nat
  st_blocked :: nat
  st_sigignore :: nat
  st_sigcatch :: nat
  st_wchan :: nat
  st_nswap :: nat
  st_cnswap :: nat
  st_exit_signal :: int
  st_processor :: int
  st_rt_priority :: nat
  st_policy :: SchedulingPolicy
  st_delayacct_blkio_ticks :: nat
  st_guest_time :: nat
  st_cguest_time :: nat
  st_start_data :: nat
  st_end_data :: nat
  st_start_brk :: nat
  st_arg_start :: nat
  st_arg_end :: nat
  st_env_start :: nat
  st_env_end :: nat
  st_exit_code :: int

text \<open>
  After the command, one word per field, except that the format string has no space between
  \<open>start_data\<close> and \<open>end_data\<close>.
\<close>

definition stat_words :: "ProcStat \<Rightarrow> string list" where
  "stat_words st =
     [as_stat_code (st_state st), show_nat (st_ppid st), show_nat (st_pgrp st), show_nat (st_session st),
      show_device_mask (st_tty_nr st), show_nat (st_tpgid st), show_nat (st_flags st), show_nat (st_minflt st),
      show_nat (st_cminflt st), show_nat (st_majflt st), show_nat (st_cmajflt st), show_nat (st_utime st),
      show_nat (st_stime st), show_int (st_cutime st), show_int (st_cstime st), show_int (st_priority st),
      show_int (st_nice st), show_int (st_num_threads st), show_int (st_itrealvalue st), show_nat (st_starttime st),
      show_nat (st_vsize st), show_int (st_rss st), show_nat (st_rsslim st), show_nat (st_startcode st),
      show_nat (st_endcode st), show_nat (st_startstack st), show_nat (st_kstkesp st), show_nat (st_kstkeip st),
      show_nat (st_signal st), show_nat (st_blocked st), show_nat (st_sigignore st), show_nat (st_sigcatch st),
      show_nat (st_wchan st), show_nat (st_nswap st), show_nat (st_cnswap st), show_int (st_exit_signal st),
      show_int (st_processor st), show_nat (st_rt_priority st), show_policy (st_policy st),
      show_nat (st_delayacct_blkio_ticks st), show_nat (st_guest_time st), show_nat (st_cguest_time st),
      show_nat (st_start_data st) @ show_nat (st_end_data st), show_nat (st_start_brk st),
      show_nat (st_arg_start st), show_nat (st_arg_end st), show_nat (st_env_start st), show_nat (st_env_end st),
      show_int (st_exit_code st)]"

definition show_stat :: "ProcStat \<Rightarrow> string" where
  "show_stat st = show_nat (st_pid st) @ '' ('' @ st_comm st @ '') '' @ join (CHR '' '') (stat_words st)"

record StatGenerator =
  tg_pid :: Pid
  tg_comm :: string

definition StatGenerator_new :: "Pid \<Rightarrow> string \<Rightarrow> StatGenerator option" where
  "StatGenerator_new pid comm = (if length comm \<le> TASK_COMM_LEN then Some \<lparr>tg_pid = pid, tg_comm = comm\<rparr> else None)"

definition stat_generate :: "'r rng \<Rightarrow> StatGenerator \<Rightarrow> ('r, ProcStat) state" where
  "stat_generate R tg = do {
     priority \<leftarrow> sample_range R 0 40;
     v_state \<leftarrow> task_state_sample R;
     v_ppid \<leftarrow> pid_sample R;
     v_tty_nr \<leftarrow> device_mask_sample R;
     v_tpgid \<leftarrow> pid_sample R;
     v_flags \<leftarrow> sample_bits R 32;
     v_minflt \<leftarrow> sample_bits R 64;
     v_cminflt \<leftarrow> sample_bits R 64;
     v_majflt \<leftarrow> sample_bits R 64;
     v_cmajflt \<leftarrow> sample_bits R 64;
     v_utime \<leftarrow> sample_bits R 64;
     v_stime \<leftarrow> sample_bits R 64;
     v_cutime \<leftarrow> sample_signed R 64;
     v_cstime \<leftarrow> sample_signed R 64;
     v_num_threads \<leftarrow> sample_range R 1 (ASSUMED_THREAD_MAX + 1);
     v_starttime \<leftarrow> sample_bits R 64;
     v_vsize \<leftarrow> sample_bits R 64;
     v_rss \<leftarrow> sample_range R 1 (2 ^ 63 - 1);
     v_rsslim \<leftarrow> sample_bits R 64;
     v_startcode \<leftarrow> sample_bits R 64;
     v_endcode \<leftarrow> sample_bits R 64;
     v_startstack \<leftarrow> sample_bits R 64;
     v_signal \<leftarrow> sample_bits R 64;
     v_blocked \<leftarrow> sample_bits R 64;
     v_sigignore \<leftarrow> sample_bits R 64;
     v_sigcatch \<leftarrow> sample_bits R 64;
     v_wchan \<leftarrow> sample_bits R 64;
     v_exit_signal \<leftarrow> sample_signed R 32;
     v_processor \<leftarrow> sample_range R 0 ASSUMED_NPROC;
     v_delayacct_blkio_ticks \<leftarrow> sample_bits R 64;
     v_guest_time \<leftarrow> sample_bits R 64;
     v_cguest_time \<leftarrow> sample_bits R 64;
     v_start_data \<leftarrow> sample_bits R 64;
     v_end_data \<leftarrow> sample_bits R 64;
     v_start_brk \<leftarrow> sample_bits R 64;
     v_arg_start \<leftarrow> sample_bits R 64;
     v_arg_end \<leftarrow> sample_bits R 64;
     v_env_start \<leftarrow> sample_bits R 64;
     v_env_end \<leftarrow> sample_bits R 64;
     v_exit_code \<leftarrow> sample_signed R 32;
     State_Monad.return
       \<lparr>st_pid = tg_pid tg, st_comm = tg_comm tg, st_state = v_state, st_ppid = v_ppid, st_pgrp = tg_pid tg,
        st_session = tg_pid tg, st_tty_nr = v_tty_nr, st_tpgid = v_tpgid, st_flags = v_flags, st_minflt = v_minflt,
        st_cminflt = v_cminflt, st_majflt = v_majflt, st_cmajflt = v_cmajflt, st_utime = v_utime, st_stime = v_stime,
        st_cutime = v_cutime, st_cstime = v_cstime, st_priority = int priority, st_nice = int priority - 20,
        st_num_threads = int v_num_threads, st_itrealvalue = 0, st_starttime = v_starttime, st_vsize = v_vsize,
        st_rss = int v_rss, st_rsslim = v_rsslim, st_startcode = v_startcode, st_endcode = v_endcode,
        st_startstack = v_startstack, st_kstkesp = 0, st_kstkeip = 0, st_signal = v_signal, st_blocked = v_blocked,
        st_sigignore = v_sigignore, st_sigcatch = v_sigcatch, st_wchan = v_wchan, st_nswap = 0, st_cnswap = 0,
        st_exit_signal = v_exit_signal, st_processor = int v_processor, st_rt_priority = 0, st_policy = SP_Normal,
        st_delayacct_blkio_ticks = v_delayacct_blkio_ticks, st_guest_time = v_guest_time,
        st_cguest_time = v_cguest_time, st_start_data = v_start_data, st_end_data = v_end_data,
        st_start_brk = v_start_brk, st_arg_start = v_arg_start, st_arg_end = v_arg_end, st_env_start = v_env_start,
        st_env_end = v_env_end, st_exit_code = v_exit_code\<rparr>
   }"

section \<open>Processes\<close>

record Process =
  p_cmdline :: string
  p_comm :: string
  p_io :: ProcIo
  p_stat :: ProcStat
  p_statm :: Statm
  p_status :: ProcStatus
  p_pid :: Pid

record ProcessGenerator =
  pg_pool :: Pool

definition ProcessGenerator_new :: "'r rng \<Rightarrow> ('r, ProcessGenerator) state" where
  "ProcessGenerator_new R = do { pool \<leftarrow> with_size R 1000000; State_Monad.return \<lparr>pg_pool = pool\<rparr> }"

text \<open>A failed \<open>assert!\<close> of a generator's constructor is a panic, \<open>None\<close>.\<close>

definition process_generate :: "'r rng \<Rightarrow> ProcessGenerator \<Rightarrow> 'r \<Rightarrow> ((payload_error + Process) \<times> 'r) option" where
  "process_generate R pg s =
     (let (cmdline_size, s) = gen_range R 1 (NAME_MAX + 1) s;
          (cmdline, s) = run_state (of_size R (pg_pool pg) cmdline_size) s
      in case cmdline of
           None \<Rightarrow> Some (Inl Error_StringGenerate, s)
         | Some cmdline \<Rightarrow>
             let comm = take (min TASK_COMM_LEN (length cmdline)) cmdline;
                 name = take (min TASK_NAME_LEN (length cmdline)) cmdline;
                 (io, s) = run_state (io_sample R) s;
                 (statm, s) = run_state (statm_sample R) s;
                 (pid, s) = gen_range R 1 PID_MAX_LIMIT s
             in case (StatGenerator_new pid comm, StatusGenerator_new pid name) of
                  (Some tg, Some sg) \<Rightarrow>
                    let (stat, s) = run_state (stat_generate R tg) s;
                        (status, s) = run_state (status_generate R sg) s
                    in Some (Inr \<lparr>p_cmdline = cmdline, p_comm = comm, p_io = io, p_stat = stat, p_statm = statm,
                                  p_status = status, p_pid = pid\<rparr>, s)
                | _ \<Rightarrow> None)"

fun generate_all :: "'r rng \<Rightarrow> ProcessGenerator \<Rightarrow> nat \<Rightarrow> 'r \<Rightarrow> ((payload_error + Process) list \<times> 'r) option" where
  "generate_all R pg 0 s = Some ([], s)"
| "generate_all R pg (Suc n) s =
     (case process_generate R pg s of
        None \<Rightarrow> None
      | Some (p, s) \<Rightarrow> map_option (\<lambda>(ps, s). (p # ps, s)) (generate_all R pg n s))"

definition fixed_processes :: "'r rng \<Rightarrow> nat \<Rightarrow> 'r \<Rightarrow> ((payload_error + Process list) \<times> 'r) option" where
  "fixed_processes R n s =
     (let (pg, s) = run_state (ProcessGenerator_new R) s
      in map_option (\<lambda>(ps, s). (collect_results ps, s)) (generate_all R pg n s))"

section \<open>What is drawn\<close>

definition draws :: "('r, 'a) state \<Rightarrow> ('a \<Rightarrow> bool) \<Rightarrow> bool" where
  "draws m P \<longleftrightarrow> (\<forall>s. P (fst (run_state m s)))"

lemma draws_return: "P x \<Longrightarrow> draws (State_Monad.return x) P"
  by (simp add: draws_def)

lemma draws_bind: "draws m P \<Longrightarrow> (\<And>x. P x \<Longrightarrow> draws (f x) Q) \<Longrightarrow> draws (State_Monad.bind m f) Q"
  by (simp add: draws_def split_beta)

lemma draws_any: "draws m (\<lambda>x. True)"
  by (simp add: draws_def)

lemma draws_bits: "rng_ok R \<Longrightarrow> draws (sample_bits R w) (\<lambda>n. n < 2 ^ w)"
  by (simp add: draws_def rng_ok_def)

lemma draws_range: "rng_ok R \<Longrightarrow> lo < hi \<Longrightarrow> draws (sample_range R lo hi) (\<lambda>n. lo \<le> n \<and> n < hi)"
  by (simp add: draws_def rng_ok_def)

lemma draws_run: "draws m P \<Longrightarrow> run_state m s = (x, s') \<Longrightarrow> P x"
  unfolding draws_def by (metis fst_conv)

text \<open>The steps of a generator, the rest of it first: what is left at the end are the ranges.\<close>

lemma draws_steps:
  "(\<And>n. n < 2 ^ w \<Longrightarrow> draws (f n) Q) \<Longrightarrow> rng_ok R \<Longrightarrow> draws (State_Monad.bind (sample_bits R w) f) Q"
  "(\<And>n. lo \<le> n \<Longrightarrow> n < hi \<Longrightarrow> draws (f n) Q) \<Longrightarrow> rng_ok R \<Longrightarrow> lo < hi \<Longrightarrow> draws (State_Monad.bind (sample_range R lo hi) f) Q"
  "(\<And>x. draws (g x) Q) \<Longrightarrow> draws (State_Monad.bind m g) Q"
  by (rule draws_bind, erule draws_bits, simp) (rule draws_bind, erule (1) draws_range, simp, rule draws_bind, rule draws_any, simp)

definition stat_ok :: "Pid \<Rightarrow> string \<Rightarrow> ProcStat \<Rightarrow> bool" where
  "stat_ok pid comm st \<longleftrightarrow>
     st_pid st = pid \<and> st_pgrp st = pid \<and> st_session st = pid \<and> st_comm st = comm \<and>
     st_utime st < 2 ^ 64 \<and> st_stime st < 2 ^ 64 \<and> st_nice st = st_priority st - 20 \<and>
     0 \<le> st_priority st \<and> st_priority st < 40 \<and> st_num_threads st \<in> {1..32} \<and> st_processor st \<in> {0..<8} \<and> 0 < st_rss st"

lemma stat_generate_ok:
  assumes "rng_ok R"
  shows "draws (stat_generate R tg) (stat_ok (tg_pid tg) (tg_comm tg))"
  unfolding stat_generate_def
  by ((rule draws_steps)+, rule draws_return, simp add: stat_ok_def proc_constants)
    (simp_all add: assms proc_constants)

definition status_ok :: "Pid \<Rightarrow> string \<Rightarrow> ProcStatus \<Rightarrow> bool" where
  "status_ok pid name st \<longleftrightarrow>
     su_pid st = pid \<and> su_tgid st = pid \<and> su_name st = name \<and> su_euid st = su_ruid st \<and> su_rgid st = su_ruid st \<and>
     su_threads st \<in> {1..32} \<and> length (su_groups st) \<le> 32 \<and>
     (su_seccomp_filters st \<noteq> 0 \<longleftrightarrow> su_seccomp st = Seccomp_Filter)"

lemma seccomp_filters_draws:
  assumes "rng_ok R"
  shows "draws (case seccomp of Seccomp_Filter \<Rightarrow> sample_range R 1 SECCOMP_FILTER_MAX | _ \<Rightarrow> State_Monad.return 0)
    (\<lambda>n. n \<noteq> 0 \<longleftrightarrow> seccomp = Seccomp_Filter)"
proof (cases seccomp)
  case Seccomp_Filter
  have "draws (sample_range R 1 SECCOMP_FILTER_MAX) (\<lambda>n. 1 \<le> n \<and> n < SECCOMP_FILTER_MAX)"
    using assms by (rule draws_range) (simp add: proc_constants)
  then show ?thesis using Seccomp_Filter by (simp add: draws_def Suc_le_eq)
qed (simp_all add: draws_return)

lemma draws_many: "draws (sample_many n m) (\<lambda>xs. length xs = n)"
  using sample_many_length [of n m] unfolding draws_def by (metis prod.collapse)

lemma status_generate_ok:
  assumes "rng_ok R"
  shows "draws (status_generate R sg) (status_ok (sg_pid sg) (sg_name sg))"
  unfolding status_generate_def
  by (rule draws_steps, rule draws_steps(3), rule draws_bind [OF seccomp_filters_draws [OF assms]], rule draws_steps,
      rule draws_bind [OF draws_many], (rule draws_steps)+, rule draws_return, simp add: status_ok_def proc_constants)
    (simp_all add: assms proc_constants)

definition process_ok :: "Process \<Rightarrow> bool" where
  "process_ok p \<longleftrightarrow>
     1 \<le> length (p_cmdline p) \<and> length (p_cmdline p) \<le> NAME_MAX \<and> set (p_cmdline p) \<subseteq> set ALPHANUM \<and>
     p_comm p = take TASK_COMM_LEN (p_cmdline p) \<and> 1 \<le> p_pid p \<and> p_pid p < PID_MAX_LIMIT \<and>
     stat_ok (p_pid p) (p_comm p) (p_stat p) \<and> status_ok (p_pid p) (take TASK_NAME_LEN (p_cmdline p)) (p_status p)"

lemma process_generate_ok:
  assumes R: "rng_ok R" and pg: "run_state (ProcessGenerator_new R) s0 = (pg, s1)"
  shows "\<exists>p s'. process_generate R pg s = Some (Inr p, s') \<and> process_ok p"
proof -
  have pool: "length (inner (pg_pool pg)) = 1000000" "set (inner (pg_pool pg)) \<subseteq> set ALPHANUM"
    using pg with_size_pool by (fastforce simp: ProcessGenerator_new_def Let_def split: prod.splits)+
  obtain n s2 where n: "gen_range R 1 (NAME_MAX + 1) s = (n, s2)" by force
  have n_le: "1 \<le> n" "n \<le> NAME_MAX" using gen_range_bounds [OF R _ n] by (simp_all add: proc_constants)
  obtain cmd s3 where cmd: "run_state (of_size R (pg_pool pg) n) s2 = (Some cmd, s3)" "length cmd = n"
    "set cmd \<subseteq> set (inner (pg_pool pg))"
    using of_size_Some [OF R, of n "pg_pool pg" s2] n_le pool by (auto simp: proc_constants)
  obtain io s4 where io: "run_state (io_sample R) s3 = (io, s4)" by force
  obtain sm s5 where sm: "run_state (statm_sample R) s4 = (sm, s5)" by force
  obtain pid s6 where pid: "gen_range R 1 PID_MAX_LIMIT s5 = (pid, s6)" by force
  have pid_le: "1 \<le> pid" "pid < PID_MAX_LIMIT" using gen_range_bounds [OF R _ pid] by (simp_all add: proc_constants)
  let ?comm = "take TASK_COMM_LEN cmd" and ?name = "take TASK_NAME_LEN cmd"
  let ?tg = "\<lparr>tg_pid = pid, tg_comm = ?comm\<rparr>" and ?sg = "\<lparr>sg_pid = pid, sg_name = ?name\<rparr>"
  obtain st s7 where st: "run_state (stat_generate R ?tg) s6 = (st, s7)" by force
  obtain su s8 where su: "run_state (status_generate R ?sg) s7 = (su, s8)" by force
  have takes: "take (min m (length cmd)) cmd = take m cmd" for m by (simp add: min_def)
  let ?p = "\<lparr>p_cmdline = cmd, p_comm = ?comm, p_io = io, p_stat = st, p_statm = sm, p_status = su, p_pid = pid\<rparr>"
  have "process_generate R pg s = Some (Inr ?p, s8)"
    using n cmd(1) io sm pid st su
    by (simp add: process_generate_def takes StatGenerator_new_def StatusGenerator_new_def)
  moreover have "process_ok ?p"
    using n_le pid_le cmd(2,3) pool(2) draws_run [OF stat_generate_ok [OF R] st] draws_run [OF status_generate_ok [OF R] su]
    by (auto simp: process_ok_def)
  ultimately show ?thesis by blast
qed

lemma fixed_processes_ok:
  assumes R: "rng_ok R"
  shows "\<exists>ps s'. fixed_processes R n s = Some (Inr ps, s') \<and> length ps = n \<and> (\<forall>p \<in> set ps. process_ok p)"
proof -
  obtain pg s1 where pg: "run_state (ProcessGenerator_new R) s = (pg, s1)" by force
  have "\<exists>ps s'. generate_all R pg n s2 = Some (map Inr ps, s') \<and> length ps = n \<and> (\<forall>p \<in> set ps. process_ok p)" for s2
  proof (induction n arbitrary: s2)
    case (Suc n)
    obtain p s3 where p: "process_generate R pg s2 = Some (Inr p, s3)" "process_ok p"
      using process_generate_ok [OF R pg] by blast
    obtain ps s4 where "generate_all R pg n s3 = Some (map Inr ps, s4)" "length ps = n" "\<forall>p \<in> set ps. process_ok p"
      using Suc.IH by blast
    with p show ?case by (intro exI [of _ "p # ps"] exI [of _ s4]) simp
  qed simp
  then obtain ps s' where "generate_all R pg n s1 = Some (map Inr ps, s')" "length ps = n" "\<forall>p \<in> set ps. process_ok p" by blast
  with pg show ?thesis by (simp add: fixed_processes_def)
qed

section \<open>Reading the files\<close>

lemma plain_alphanumeric: "set w \<subseteq> set ALPHANUM \<Longrightarrow> plain w"
  by (auto simp: plain_def ALPHANUM_def newline_def)

lemma word_alphanumeric: "set w \<subseteq> set ALPHANUM \<Longrightarrow> w \<noteq> [] \<Longrightarrow> word w"
  by (auto simp: word_def list_all_iff is_whitespace_def ALPHANUM_def)

lemma plain_shows [simp]:
  "plain (show_nat n)" "plain (show_int i)" "plain (show_umask n)" "plain (show_ids ns)" "plain (show_mem_size n)"
  "plain (show_boolean b)" "plain (show_sigq q)" "plain (show_mask n)" "plain (show_mask_collection ns)"
  "plain (show_list_collection es)"
proof -
  have radix: "plain (show_radix b n)" if "2 \<le> b" "b \<le> 36" for b n using that by (simp add: plain_word show_radix_word)
  show nat: "plain (show_nat n)" for n by (simp add: plain_word)
  show "plain (show_int i)" by (simp add: plain_word)
  show "plain (show_umask n)" by (simp add: show_umask_def plain_pad radix newline_def)
  show "plain (show_ids ns)" by (auto simp: show_ids_def nat newline_def intro!: plain_join)
  show "plain (show_mem_size n)" by (simp add: show_mem_size_def plain_pad nat newline_def)
  show "plain (show_boolean b)" by (simp add: show_boolean_def nat)
  show "plain (show_sigq q)" by (simp add: show_sigq_def nat newline_def)
  show "plain (show_mask n)" by (simp add: show_mask_def plain_pad radix newline_def)
  show "plain (show_mask_collection ns)" by (auto simp: show_mask_collection_def radix newline_def intro!: plain_join)
  have "plain (show_list_entry e)" for e by (cases e) (simp_all add: nat newline_def)
  then show "plain (show_list_collection es)" by (auto simp: show_list_collection_def newline_def intro!: plain_join)
qed

lemma plain_enums [simp]:
  "plain (as_status_code t)" "plain (show_seccomp m)" "plain (show_store_bypass b)" "plain (show_indirect_branch i)"
  by (cases t; simp add: newline_def) (cases m; simp add: newline_def; fail | cases b; simp add: newline_def; fail | cases i; simp add: newline_def; fail)+

lemma status_values_plain: "plain (su_name st) \<Longrightarrow> \<forall>(k, v) \<in> set (status_fields st). plain v"
  by (simp add: status_fields_def plain_join newline_def)

lemma status_keys: "\<forall>(k, v) \<in> set (status_fields st). plain k \<and> CHR '':'' \<notin> set k"
  by (simp add: status_fields_def newline_def)

text \<open>A reader of the status file cuts each line at its first colon and skips the tab.\<close>

definition cut_field :: "string \<Rightarrow> string \<times> string" where
  "cut_field l = (takeWhile (\<lambda>c. c \<noteq> CHR '':'') l, drop 2 (dropWhile (\<lambda>c. c \<noteq> CHR '':'') l))"

lemma cut_field_line: "CHR '':'' \<notin> set k \<Longrightarrow> cut_field (k @ '':'' @ [CHR 0x09] @ v) = (k, v)"
  by (induction k) (auto simp: cut_field_def)

lemma read_status:
  assumes "plain (su_name st)"
  shows "map cut_field (text_lines (show_status_file st)) = status_fields st"
proof -
  let ?line = "\<lambda>(k, v). k @ '':'' @ [CHR 0x09] @ v"
  have "show_status_file st = concat (map (\<lambda>l. l @ [newline]) (map ?line (status_fields st)))"
    by (simp add: show_status_file_def comp_def case_prod_beta')
  moreover have "\<forall>l \<in> set (map ?line (status_fields st)). newline \<notin> set l \<and> CHR 0x0D \<notin> set l"
    using status_values_plain [OF assms] status_keys [of st] by (fastforce simp: plain_def newline_def)
  ultimately have "text_lines (show_status_file st) = map ?line (status_fields st)" by (simp only: text_lines_lines)
  moreover have "map (cut_field \<circ> ?line) (status_fields st) = status_fields st"
    using status_keys [of st] by (intro map_idI) (auto simp: cut_field_line [simplified])
  ultimately show ?thesis by simp
qed

lemma length_stat_words: "length (stat_words st) = 49"
  by (simp add: stat_words_def)

lemma stat_words_words: "\<forall>w \<in> set (stat_words st). word w"
proof -
  have "word (as_stat_code t)" for t by (cases t) (simp_all add: word_def is_whitespace_def)
  moreover have "word (show_policy p)" for p by (cases p) (simp_all add: word_def is_whitespace_def)
  ultimately show ?thesis by (simp add: stat_words_def show_device_mask_def)
qed

lemma split_stat:
  assumes "word comm" "st_comm st = comm"
  shows "split_whitespace (show_stat st) = show_nat (st_pid st) # (''('' @ comm @ '')'') # stat_words st"
proof -
  have "show_stat st = join (CHR '' '') (show_nat (st_pid st) # (''('' @ comm @ '')'') # stat_words st)"
    using length_stat_words [of st] assms(2) by (cases "stat_words st") (simp_all add: show_stat_def)
  moreover have "word (''('' @ comm @ '')'')" using assms(1) by (simp add: word_def is_whitespace_def)
  then have "\<forall>w \<in> set (show_nat (st_pid st) # (''('' @ comm @ '')'') # stat_words st). word w" using stat_words_words [of st] by simp
  then have "split_whitespace (join (CHR '' '') (show_nat (st_pid st) # (''('' @ comm @ '')'') # stat_words st)) =
      show_nat (st_pid st) # (''('' @ comm @ '')'') # stat_words st"
    by (rule split_whitespace_join [rotated]) (simp add: is_whitespace_def)
  ultimately show ?thesis by (simp only:)
qed

section \<open>Properties\<close>

lemma fixed_processes_readable:
  assumes "rng_ok R"
  shows "\<exists>ps s'. fixed_processes R n s = Some (Inr ps, s') \<and> length ps = n \<and>
    (\<forall>p \<in> set ps. process_ok p \<and> map cut_field (text_lines (show_status_file (p_status p))) = status_fields (p_status p))"
proof -
  have "map cut_field (text_lines (show_status_file (p_status p))) = status_fields (p_status p)" if "process_ok p" for p
  proof (rule read_status, rule plain_alphanumeric)
    show "set (su_name (p_status p)) \<subseteq> set ALPHANUM"
      using that set_take_subset [of TASK_NAME_LEN "p_cmdline p"] by (auto simp: process_ok_def status_ok_def)
  qed
  with fixed_processes_ok [OF assms, of n s] show ?thesis by blast
qed

text \<open>
  The fake processes agree with themselves. \<open>fixed\<close> never fails or panics and makes as many
  processes as asked for; in each, \<open>stat\<close> and \<open>status\<close> carry the process's own pid, the command
  and the task name are its command line cut to 16 and 64 bytes, threads, priorities, processors and
  seccomp filters are in the ranges the kernel uses, and cutting the printed status file into lines
  and at its colons gives back every field.
\<close>

theorem generated_processes_consistent:
  assumes "rng_ok R"
  shows "\<exists>ps s'. fixed_processes R n s = Some (Inr ps, s') \<and> length ps = n \<and>
    (\<forall>p \<in> set ps. process_ok p \<and> map cut_field (text_lines (show_status_file (p_status p))) = status_fields (p_status p))"
  by (rule fixed_processes_readable [OF assms])

theorem generated_processes_consistent_witness:
  "\<exists>ps s'. fixed_processes counter_rng 3 7 = Some (Inr ps, s') \<and> length ps = 3 \<and>
    (\<forall>p \<in> set ps. process_ok p \<and> map cut_field (text_lines (show_status_file (p_status p))) = status_fields (p_status p))"
  by (rule generated_processes_consistent) simp

text \<open>
  The stat file lacks a field. A stat line has 52 fields, and so has the record, but whatever
  the values, the printed line has 51 words: its 45th is \<open>start_data\<close> with \<open>end_data\<close> glued to it,
  and a reader looking for field 46 finds \<open>start_brk\<close>.
\<close>

theorem stat_line_glues_fields:
  assumes "word (st_comm st)"
  shows "length (split_whitespace (show_stat st)) = 51 \<and>
    split_whitespace (show_stat st) ! 44 = show_nat (st_start_data st) @ show_nat (st_end_data st) \<and>
    split_whitespace (show_stat st) ! 45 = show_nat (st_start_brk st)"
  unfolding split_stat [OF assms refl] by (simp add: length_stat_words) (simp add: stat_words_def)

theorem stat_line_glues_fields_witness:
  "length (split_whitespace (show_stat (fst (run_state (stat_generate counter_rng \<lparr>tg_pid = 1, tg_comm = ''init''\<rparr>) 0)))) = 51"
proof -
  have "st_comm (fst (run_state (stat_generate counter_rng \<lparr>tg_pid = 1, tg_comm = ''init''\<rparr>) 0)) = ''init''"
    using draws_run [OF stat_generate_ok [OF counter_rng_ok], of "\<lparr>tg_pid = 1, tg_comm = ''init''\<rparr>"]
    by (metis StatGenerator.select_convs(2) prod.collapse stat_ok_def)
  then show ?thesis using stat_line_glues_fields by (simp add: word_def is_whitespace_def)
qed

end
