(* ===== verification/Observer_Cpu.thy ===== *)
theory Observer_Cpu
  imports Floats Procfs
begin

text \<open>
  How the observer measures processor time: \<^verbatim>\<open>observer/linux/procfs/stat.rs\<close> and \<^verbatim>\<open>uptime.rs\<close>,
  \<^verbatim>\<open>observer/linux/cgroup/v2.rs\<close> and \<^verbatim>\<open>cgroup/v2/cpu.rs\<close>. The files of the machine, its number of
  cores, its clock tick and the readings of the clock are arguments; the files do not change during
  a call. A call that sets gauges returns them as a list of name, labels and value, in the order
  they are set. \<open>None\<close> is a panic.
\<close>

section \<open>Machine, gauges and outcomes\<close>

type_synonym labels = "(string \<times> string) list"
type_synonym gauge = "string \<times> labels \<times> float_num"

datatype entry_kind = Is_File | Not_File | Kind_Unknown

text \<open>An item of a directory: an error, or a name, which need not be UTF-8, and what its metadata say.\<close>

datatype dir_item = Dir_Error | Dir_Entry "string option" entry_kind

record host =
  read_to_string :: "string \<Rightarrow> string option"
  read_dir :: "string \<Rightarrow> dir_item list option"
  physical_cores :: nat
  clock_ticks :: nat

type_synonym ('e, 'a) outcome = "('e + 'a) option"

definition then_try :: "('e, 'a) outcome \<Rightarrow> ('a \<Rightarrow> ('e, 'b) outcome) \<Rightarrow> ('e, 'b) outcome" where
  "then_try r f = (case r of None \<Rightarrow> None | Some (Inl e) \<Rightarrow> Some (Inl e) | Some (Inr x) \<Rightarrow> f x)"

definition ok_or :: "'e \<Rightarrow> 'a option \<Rightarrow> ('e, 'a) outcome" where
  "ok_or e x = Some (case x of None \<Rightarrow> Inl e | Some y \<Rightarrow> Inr y)"

lemma then_try_simps [simp]:
  "then_try None f = None" "then_try (Some (Inl e)) f = Some (Inl e)" "then_try (Some (Inr x)) f = f x"
  "ok_or e (Some y) = Some (Inr y)" "ok_or e None = Some (Inl e)"
  by (simp_all add: then_try_def ok_or_def)

definition proc_path :: "int \<Rightarrow> string \<Rightarrow> string" where
  "proc_path pid name = ''/proc/'' @ show_int pid @ ''/'' @ name"

section \<open>Control groups\<close>

datatype cgroup_error = Cg_Io | Cg_ParseInt | Cg_ParseFloat | Cg_CgroupV2NotFound

definition strip_slash :: "string \<Rightarrow> string" where
  "strip_slash p = (if starts_with ''/'' p then tl p else p)"

fun get_path_lines :: "string list \<Rightarrow> cgroup_error + string" where
  "get_path_lines [] = Inl Cg_CgroupV2NotFound"
| "get_path_lines (line # lines) =
     (case split_on (CHR '':'') line of
        hierarchy_id # controllers # cgroup_path # _ \<Rightarrow>
          if hierarchy_id = ''0'' \<and> controllers = [] then Inr (path_join ''/sys/fs/cgroup'' (strip_slash cgroup_path))
          else get_path_lines lines
      | _ \<Rightarrow> Inl Cg_CgroupV2NotFound)"

definition get_path :: "host \<Rightarrow> int \<Rightarrow> cgroup_error + string" where
  "get_path h pid =
     (case read_to_string h (proc_path pid ''cgroup'') of
        None \<Rightarrow> Inl Cg_Io
      | Some content \<Rightarrow> get_path_lines (text_lines content))"

text \<open>Gauges set before an error stay set: \<open>kv_pairs\<close> returns them beside its result.\<close>

fun kv_pairs :: "string list \<Rightarrow> string \<Rightarrow> labels \<Rightarrow> gauge list \<times> (cgroup_error + unit)" where
  "kv_pairs [] prefix ls = ([], Inr ())"
| "kv_pairs (line # lines) prefix ls =
     (case split_whitespace line of
        key # value_str # _ \<Rightarrow>
          (case (if value_str = ''max'' then Some f64_MAX else parse_f64 value_str) of
             None \<Rightarrow> ([], Inl Cg_ParseFloat)
           | Some v \<Rightarrow> let (gs, r) = kv_pairs lines prefix ls in ((prefix @ ''.'' @ key, ls, v) # gs, r))
      | _ \<Rightarrow> ([], Inr ()))"

definition file_gauges :: "string \<Rightarrow> string \<Rightarrow> labels \<Rightarrow> gauge list" where
  "file_gauges content prefix ls =
     (let content = trim content in
      if content = ''max'' then [(prefix, ls, f64_MAX)]
      else case parse_f64 content of
        Some v \<Rightarrow> [(prefix, ls, v)]
      | None \<Rightarrow> fst (kv_pairs (text_lines content) prefix ls))"

fun item_gauges :: "host \<Rightarrow> string \<Rightarrow> labels \<Rightarrow> dir_item \<Rightarrow> gauge list" where
  "item_gauges h path ls Dir_Error = []"
| "item_gauges h path ls (Dir_Entry name kind) =
     (case (name, kind) of
        (Some s, Is_File) \<Rightarrow>
          (case read_to_string h (path_join path s) of
             Some content \<Rightarrow> file_gauges content (''cgroup.v2.'' @ s) ls
           | None \<Rightarrow> [])
      | _ \<Rightarrow> [])"

definition cgroup_v2_poll :: "host \<Rightarrow> string \<Rightarrow> labels \<Rightarrow> gauge list" where
  "cgroup_v2_poll h path ls =
     (case read_dir h path of None \<Rightarrow> [] | Some items \<Rightarrow> concat (map (item_gauges h path ls) items))"

section \<open>Processor time of a process\<close>

datatype cpu_error = Cpu_Io | Cpu_ParseFloat | Cpu_ParseInt | Cpu_StatMalformed | Cpu_Cgroup cgroup_error

record Stats =
  user_ticks :: nat
  system_ticks :: nat
  uptime_ticks :: nat

definition default_stats :: Stats where
  "default_stats = \<lparr>user_ticks = 0, system_ticks = 0, uptime_ticks = 0\<rparr>"

record CpuUtilization =
  total_cpu_percentage :: float_num
  user_cpu_percentage :: float_num
  system_cpu_percentage :: float_num
  total_cpu_millicores :: float_num
  user_cpu_millicores :: float_num
  system_cpu_millicores :: float_num

record stat_sampler =
  ticks_per_second :: float_num
  prev_stats :: Stats

definition stat_sampler_new :: "host \<Rightarrow> stat_sampler" where
  "stat_sampler_new h = \<lparr>ticks_per_second = as_f64 (clock_ticks h), prev_stats = default_stats\<rparr>"

text \<open>\<open>find\<close> and \<open>rfind\<close> of a character.\<close>

definition find_char :: "char \<Rightarrow> string \<Rightarrow> nat option" where
  "find_char c s = (if c \<in> set s then Some (length (takeWhile (\<lambda>x. x \<noteq> c) s)) else None)"

definition rfind_char :: "char \<Rightarrow> string \<Rightarrow> nat option" where
  "rfind_char c s = map_option (\<lambda>i. length s - 1 - i) (find_char c (rev s))"

text \<open>The slice that starts two characters after the last parenthesis panics when there are fewer.\<close>

definition stat_parse :: "string \<Rightarrow> (cpu_error, int \<times> nat \<times> nat) outcome" where
  "stat_parse contents =
     then_try (ok_or Cpu_StatMalformed (find_char (CHR ''('') contents)) (\<lambda>start_paren.
     then_try (ok_or Cpu_StatMalformed (rfind_char (CHR '')'') contents)) (\<lambda>end_paren.
       if length contents < end_paren + 2 then None
       else
         let before_parts = split_whitespace (take start_paren contents);
             after_parts = split_whitespace (drop (end_paren + 2) contents)
         in if before_parts = [] then Some (Inl Cpu_StatMalformed)
            else
              then_try (ok_or Cpu_ParseInt (parse_signed 32 (before_parts ! 0))) (\<lambda>pid.
              if length after_parts < 13 then Some (Inl Cpu_StatMalformed)
              else
                then_try (ok_or Cpu_ParseInt (parse_unsigned 64 (after_parts ! 11))) (\<lambda>utime.
                then_try (ok_or Cpu_ParseInt (parse_unsigned 64 (after_parts ! 12))) (\<lambda>stime.
                  Some (Inr (pid, utime, stime)))))))"

definition compute_cpu_usage :: "Stats \<Rightarrow> Stats \<Rightarrow> float_num \<Rightarrow> CpuUtilization option" where
  "compute_cpu_usage prev cur allowed_cores =
     (let delta_time = uptime_ticks cur - uptime_ticks prev in
      if delta_time = 0 then None
      else
        let delta_user_ticks = user_ticks cur - user_ticks prev;
            delta_system_ticks = system_ticks cur - system_ticks prev;
            delta_total_ticks = wrapping_add 64 delta_user_ticks delta_system_ticks;
            usage_fraction = f64_div (as_f64 delta_total_ticks) (as_f64 delta_time);
            user_fraction = f64_div (as_f64 delta_user_ticks) (as_f64 delta_time);
            system_fraction = f64_div (as_f64 delta_system_ticks) (as_f64 delta_time)
        in Some
          \<lparr>total_cpu_percentage = f64_mul (f64_div usage_fraction allowed_cores) (Fin 100),
           user_cpu_percentage = f64_mul (f64_div user_fraction allowed_cores) (Fin 100),
           system_cpu_percentage = f64_mul (f64_div system_fraction allowed_cores) (Fin 100),
           total_cpu_millicores = f64_mul usage_fraction (Fin 1000),
           user_cpu_millicores = f64_mul user_fraction (Fin 1000),
           system_cpu_millicores = f64_mul system_fraction (Fin 1000)\<rparr>)"

text \<open>The cores that \<open>cpu.max\<close> grants; indexing panics when a word is missing.\<close>

definition allowed_cores :: "host \<Rightarrow> string \<Rightarrow> (cpu_error, float_num) outcome" where
  "allowed_cores h cpu_max =
     (case split_whitespace cpu_max of
        max_str # period_str # _ \<Rightarrow>
          if max_str = ''max'' then Some (Inr (as_f64 (physical_cores h)))
          else
            then_try (ok_or Cpu_ParseFloat (parse_f64 max_str)) (\<lambda>max_val.
            then_try (ok_or Cpu_ParseFloat (parse_f64 period_str)) (\<lambda>period_val.
              Some (Inr (f64_div max_val period_val))))
      | _ \<Rightarrow> None)"

definition utilization_gauges :: "string \<Rightarrow> labels \<Rightarrow> float_num \<Rightarrow> CpuUtilization \<Rightarrow> gauge list" where
  "utilization_gauges prefix ls limit_millicores u =
     map (\<lambda>(n, v). (prefix @ n, ls, v))
       [(''total_cpu_percentage'', total_cpu_percentage u), (''cpu_percentage'', total_cpu_percentage u),
        (''user_cpu_percentage'', user_cpu_percentage u), (''kernel_cpu_percentage'', system_cpu_percentage u),
        (''system_cpu_percentage'', system_cpu_percentage u), (''total_cpu_usage_millicores'', total_cpu_millicores u),
        (''user_cpu_usage_millicores'', user_cpu_millicores u), (''kernel_cpu_usage_millicores'', system_cpu_millicores u),
        (''system_cpu_usage_millicores'', system_cpu_millicores u), (''cpu_limit_millicores'', limit_millicores)]"

definition stat_poll :: "host \<Rightarrow> int \<Rightarrow> float_num \<Rightarrow> labels \<Rightarrow> stat_sampler \<Rightarrow> (cpu_error, gauge list \<times> stat_sampler) outcome" where
  "stat_poll h pid uptime_secs ls s =
     then_try (Some (map_sum Cpu_Cgroup id (get_path h pid))) (\<lambda>group_prefix.
     then_try (ok_or Cpu_Io (read_to_string h (path_join group_prefix ''cpu.max''))) (\<lambda>cpu_max.
     then_try (allowed_cores h cpu_max) (\<lambda>allowed.
     then_try (ok_or Cpu_Io (read_to_string h (proc_path pid ''stat''))) (\<lambda>stat_contents.
     then_try (stat_parse stat_contents) (\<lambda>(cur_pid, utime_ticks, stime_ticks).
       if cur_pid \<noteq> pid then None
       else
         let cur = \<lparr>user_ticks = utime_ticks, system_ticks = stime_ticks,
                    uptime_ticks = round_as_u64 (f64_mul uptime_secs (ticks_per_second s))\<rparr>;
             gs = (case compute_cpu_usage (prev_stats s) cur allowed of
                     None \<Rightarrow> []
                   | Some u \<Rightarrow> utilization_gauges ''stat.'' ls (f64_mul allowed (Fin 1000)) u)
         in Some (Inr (gs, s\<lparr>prev_stats := cur\<rparr>)))))))"

datatype uptime_error = Up_Io | Up_Malformed | Up_ParseFloat

definition proc_uptime_inner :: "string \<Rightarrow> uptime_error + float_num" where
  "proc_uptime_inner contents =
     (case split_whitespace contents of
        [] \<Rightarrow> Inl Up_Malformed
      | fld # _ \<Rightarrow> (case parse_f64 fld of None \<Rightarrow> Inl Up_ParseFloat | Some v \<Rightarrow> Inr v))"

definition uptime_poll :: "host \<Rightarrow> uptime_error + float_num" where
  "uptime_poll h = (case read_to_string h ''/proc/uptime'' of None \<Rightarrow> Inl Up_Io | Some buf \<Rightarrow> proc_uptime_inner buf)"

section \<open>Processor time of a control group\<close>

text \<open>Instants are in microseconds.\<close>

record cgroup_stats =
  usage_usec :: nat
  user_usec :: nat
  system_usec :: nat
  last_instant :: nat

definition cgroup_sampler_new :: "nat \<Rightarrow> cgroup_stats" where
  "cgroup_sampler_new created = \<lparr>usage_usec = 0, user_usec = 0, system_usec = 0, last_instant = created\<rparr>"

fun cpu_stat_lines :: "string list \<Rightarrow> cgroup_stats \<Rightarrow> (cpu_error, cgroup_stats) outcome" where
  "cpu_stat_lines [] c = Some (Inr c)"
| "cpu_stat_lines (line # lines) c =
     (case split_whitespace line of
        key # value_str # _ \<Rightarrow>
          then_try (ok_or Cpu_ParseInt (parse_unsigned 64 value_str)) (\<lambda>v.
            cpu_stat_lines lines
              (if key = ''usage_usec'' then c\<lparr>usage_usec := v\<rparr>
               else if key = ''user_usec'' then c\<lparr>user_usec := v\<rparr>
               else if key = ''system_usec'' then c\<lparr>system_usec := v\<rparr>
               else c))
      | _ \<Rightarrow> None)"

definition cgroup_utilization :: "cgroup_stats \<Rightarrow> cgroup_stats \<Rightarrow> float_num \<Rightarrow> CpuUtilization option" where
  "cgroup_utilization prev cur allowed =
     (let delta_time = last_instant cur - last_instant prev in
      if delta_time = 0 then None
      else
        let usage_fraction = f64_div (as_f64 (usage_usec cur - usage_usec prev)) (as_f64 delta_time);
            user_fraction = f64_div (as_f64 (user_usec cur - user_usec prev)) (as_f64 delta_time);
            system_fraction = f64_div (as_f64 (system_usec cur - system_usec prev)) (as_f64 delta_time)
        in Some
          \<lparr>total_cpu_percentage = f64_mul (f64_div usage_fraction allowed) (Fin 100),
           user_cpu_percentage = f64_mul (f64_div user_fraction allowed) (Fin 100),
           system_cpu_percentage = f64_mul (f64_div system_fraction allowed) (Fin 100),
           total_cpu_millicores = f64_mul usage_fraction (Fin 1000),
           user_cpu_millicores = f64_mul user_fraction (Fin 1000),
           system_cpu_millicores = f64_mul system_fraction (Fin 1000)\<rparr>)"

definition cgroup_cpu_poll ::
    "host \<Rightarrow> nat \<Rightarrow> string \<Rightarrow> labels \<Rightarrow> cgroup_stats \<Rightarrow> (cpu_error, gauge list \<times> cgroup_stats) outcome" where
  "cgroup_cpu_poll h now group_prefix ls prev =
     then_try (ok_or Cpu_Io (read_to_string h (path_join group_prefix ''cpu.max''))) (\<lambda>cpu_max.
     then_try (allowed_cores h cpu_max) (\<lambda>allowed.
     then_try (ok_or Cpu_Io (read_to_string h (path_join group_prefix ''cpu.stat''))) (\<lambda>cpu_stat.
     then_try (cpu_stat_lines (text_lines cpu_stat) (cgroup_sampler_new now)) (\<lambda>cur.
       let gs = (case cgroup_utilization prev cur allowed of
                   None \<Rightarrow> []
                 | Some u \<Rightarrow> utilization_gauges [] ls (f64_mul allowed (Fin 1000)) u)
       in Some (Inr (gs, cur))))))"

section \<open>Reading a stat file back\<close>

lemma find_char_append: "c \<notin> set pre \<Longrightarrow> find_char c (pre @ c # rest) = Some (length pre)"
  unfolding find_char_def by (subst takeWhile_append2) auto

lemma rfind_char_append: "c \<notin> set rest \<Longrightarrow> rfind_char c (pre @ c # rest) = Some (length pre)"
  using find_char_append [of c "rev rest" "rev pre"] by (simp add: rfind_char_def)

lemma number_chars:
  "CHR ''('' \<notin> set (show_nat n)" "CHR '')'' \<notin> set (show_nat n)" "CHR '')'' \<notin> set (show_int i)"
proof -
  show paren: "CHR ''('' \<notin> set (show_nat n)" "CHR '')'' \<notin> set (show_nat n)" for n
    using show_nat_digits [of n] by (auto simp: list_all_iff is_digit_def)
  show "CHR '')'' \<notin> set (show_int i)" using paren(2) by (simp add: show_int_def)
qed

lemma stat_words_chars: "\<forall>w \<in> set (stat_words st). CHR '')'' \<notin> set w"
proof -
  have "CHR '')'' \<notin> set (as_stat_code t)" for t by (cases t) simp_all
  moreover have "CHR '')'' \<notin> set (show_policy p)" for p by (cases p) simp_all
  ultimately show ?thesis by (simp add: stat_words_def show_device_mask_def number_chars)
qed

lemma show_int_of_nat: "show_int (int n) = show_nat n"
  by (simp add: show_int_def)

lemma stat_parse_line:
  assumes "pid < 2 ^ 31" "\<forall>w \<in> set ws. word w \<and> CHR '')'' \<notin> set w" "13 \<le> length ws"
    "parse_unsigned 64 (ws ! 11) = Some utime" "parse_unsigned 64 (ws ! 12) = Some stime"
  shows "stat_parse (show_nat pid @ '' ('' @ comm @ '') '' @ join (CHR '' '') ws) = Some (Inr (int pid, utime, stime))"
proof -
  let ?rest = "join (CHR '' '') ws" and ?pid = "show_nat pid"
  let ?line = "?pid @ '' ('' @ comm @ '') '' @ ?rest"
  have open_paren: "find_char (CHR ''('') ?line = Some (length ?pid + 1)"
    using find_char_append [of "CHR ''(''" "?pid @ '' ''" "comm @ '') '' @ ?rest"] by (simp add: number_chars)
  have "CHR '')'' \<notin> set ('' '' @ ?rest)" using assms(2) join_mem [of "CHR '')''" "CHR '' ''" ws] by auto
  then have close_paren: "rfind_char (CHR '')'') ?line = Some (length ?pid + 2 + length comm)"
    using rfind_char_append [of "CHR '')''" "'' '' @ ?rest" "?pid @ '' ('' @ comm"] by simp
  have "split_whitespace (take (length ?pid + 1) ?line) = [?pid]"
    using split_whitespace_word [of ?pid "'' ''"] by (simp add: is_whitespace_def split_whitespace_space)
  moreover have "parse_signed 32 ?pid = Some (int pid)"
    using parse_signed_show [of 32 "int pid"] assms(1) by (simp add: show_int_of_nat)
  moreover have "drop (length ?pid + 2 + length comm + 2) ?line = ?rest" by (simp add: numeral_eq_Suc)
  moreover have "split_whitespace ?rest = ws" using assms(2) by (intro split_whitespace_join) (simp_all add: is_whitespace_def)
  ultimately show ?thesis
    using assms(3,4,5) unfolding stat_parse_def open_paren close_paren by (simp add: not_less)
qed

lemma stat_parse_show:
  assumes "st_pid st < 2 ^ 31" "st_utime st < 2 ^ 64" "st_stime st < 2 ^ 64"
  shows "stat_parse (show_stat st) = Some (Inr (int (st_pid st), st_utime st, st_stime st))"
  unfolding show_stat_def
proof (rule stat_parse_line [OF assms(1)])
  show "\<forall>w \<in> set (stat_words st). word w \<and> CHR '')'' \<notin> set w" using stat_words_words stat_words_chars by blast
qed (use assms(2,3) in \<open>simp_all add: stat_words_def\<close>)

text \<open>
  The observer reads the stat files that the procfs payload writes: whatever the command's
  name, with blanks and parentheses in it or not, \<open>parse\<close> returns the process's pid and its user
  and system ticks, without an error or a panic.
\<close>

theorem observer_reads_generated_stat:
  assumes "st_pid st < 2 ^ 31" "st_utime st < 2 ^ 64" "st_stime st < 2 ^ 64"
  shows "stat_parse (show_stat st) = Some (Inr (int (st_pid st), st_utime st, st_stime st))"
  by (rule stat_parse_show [OF assms])

theorem observer_reads_generated_stat_witness:
  "stat_parse (show_stat (fst (run_state (stat_generate counter_rng \<lparr>tg_pid = 7, tg_comm = ''a) (b''\<rparr>) 0))) =
     Some (Inr (7, st_utime (fst (run_state (stat_generate counter_rng \<lparr>tg_pid = 7, tg_comm = ''a) (b''\<rparr>) 0)),
                   st_stime (fst (run_state (stat_generate counter_rng \<lparr>tg_pid = 7, tg_comm = ''a) (b''\<rparr>) 0))))"
proof -
  let ?st = "fst (run_state (stat_generate counter_rng \<lparr>tg_pid = 7, tg_comm = ''a) (b''\<rparr>) 0)"
  have "stat_ok 7 ''a) (b'' ?st"
    using draws_run [OF stat_generate_ok [OF counter_rng_ok], of "\<lparr>tg_pid = 7, tg_comm = ''a) (b''\<rparr>"] by (metis StatGenerator.select_convs prod.collapse)
  then show ?thesis using observer_reads_generated_stat [of ?st] by (simp add: stat_ok_def)
qed

section \<open>Control group paths\<close>

lemma split_on_hd: "hd (split_on d s) = takeWhile (\<lambda>c. c \<noteq> d) s"
  by (induction s) (auto split: list.splits)

text \<open>
  A path is cut at its first colon: \<open>get_path\<close> splits the whole line at colons and takes the third
  field, although only the first two of a line are separators.
\<close>

theorem cgroup_path_stops_at_colon:
  "get_path_lines ((''0::/'' @ path) # lines) = Inr (path_join ''/sys/fs/cgroup'' (takeWhile (\<lambda>c. c \<noteq> CHR '':'') path))"
  using split_on_hd [of "CHR '':''" path] split_on_nonempty [of "CHR '':''" path]
  by (auto simp: strip_slash_def starts_with_def split: list.splits)

end
