(* ===== verification/Generator_Procfs.thy ===== *)
theory Generator_Procfs
  imports Observer_Cpu Procfs
begin

text \<open>
  The procfs generator (\<^verbatim>\<open>generator/procfs.rs\<close>): it writes the files of the fake processes of \<^verbatim>\<open>Procfs\<close> below
  a directory when it is built, copies some files of the host, and then waits for the shutdown. The
  disk maps paths to contents; \<open>mkdir\<close> and \<open>works\<close> say which directories and files can be made, \<open>host\<close> what
  the files of the host hold.
\<close>

section \<open>The generator\<close>

record procfs_gen_config =
  pf_root :: string
  pf_total_processes :: nat
  pf_copy_from_host :: "string list"

definition default_copy_from_host :: "string list" where
  "default_copy_from_host = [''/proc/uptime'', ''/proc/stat'']"

datatype procfs_gen_error = Pf_Io | Pf_Strip | Pf_Payload payload_error

type_synonym procfs_disk = "string \<rightharpoonup> string"

definition pid_files :: "string \<Rightarrow> Process \<Rightarrow> (string \<times> string) list" where
  "pid_files pid_root p =
     map (\<lambda>(name, content). (path_join pid_root name, content))
       [(''cmdline'', p_cmdline p), (''comm'', p_comm p), (''io'', show_io (p_io p)), (''stat'', show_stat (p_stat p)),
        (''statm'', show_statm (p_statm p)), (''status'', show_status_file (p_status p))]"

fun write_files :: "(string \<Rightarrow> bool) \<Rightarrow> (string \<times> string) list \<Rightarrow> procfs_disk \<Rightarrow> procfs_disk option" where
  "write_files works [] d = Some d"
| "write_files works ((path, content) # fs) d = (if works path then write_files works fs (d(path \<mapsto> content)) else None)"

fun write_processes :: "(string \<Rightarrow> bool) \<Rightarrow> (string \<Rightarrow> bool) \<Rightarrow> string \<Rightarrow> Process list \<Rightarrow> procfs_disk \<Rightarrow> procfs_gen_error + procfs_disk" where
  "write_processes mkdir works proot [] d = Inr d"
| "write_processes mkdir works proot (p # ps) d =
     (let pid_root = path_join proot (show_nat (p_pid p))
      in if mkdir pid_root
         then (case write_files works (pid_files pid_root p) d of None \<Rightarrow> Inl Pf_Io | Some d \<Rightarrow> write_processes mkdir works proot ps d)
         else Inl Pf_Io)"

text \<open>\<open>strip_prefix\<close> of \<open>/proc\<close>, component by component.\<close>

definition strip_proc :: "string \<Rightarrow> string option" where
  "strip_proc path =
     (let parts = filter (\<lambda>p. p \<noteq> [] \<and> p \<noteq> ''.'') (split_on (CHR ''/'') path)
      in if starts_with ''/'' path \<and> take 1 parts = [''proc''] then Some (join (CHR ''/'') (drop 1 parts)) else None)"

fun copy_files :: "(string \<rightharpoonup> string) \<Rightarrow> (string \<Rightarrow> bool) \<Rightarrow> string \<Rightarrow> string list \<Rightarrow> procfs_disk \<Rightarrow> procfs_gen_error + procfs_disk" where
  "copy_files host works proot [] d = Inr d"
| "copy_files host works proot (path # ps) d =
     (case strip_proc path of
        None \<Rightarrow> Inl Pf_Strip
      | Some base \<Rightarrow>
          let new_path = path_join proot base
          in case host path of
               None \<Rightarrow> Inl Pf_Io
             | Some content \<Rightarrow> if works new_path then copy_files host works proot ps (d(new_path \<mapsto> content)) else Inl Pf_Io)"

text \<open>\<open>ProcFs::new\<close>; \<open>None\<close> where the payload panics.\<close>

definition procfs_gen_new ::
    "'r rng \<Rightarrow> (string \<Rightarrow> bool) \<Rightarrow> (string \<Rightarrow> bool) \<Rightarrow> (string \<rightharpoonup> string) \<Rightarrow> procfs_gen_config \<Rightarrow> 'r \<Rightarrow> procfs_disk \<Rightarrow> (procfs_gen_error + procfs_disk) option" where
  "procfs_gen_new R mkdir works host c seed d =
     (case fixed_processes R (pf_total_processes c) seed of
        None \<Rightarrow> None
      | Some (Inl e, _) \<Rightarrow> Some (Inl (Pf_Payload e))
      | Some (Inr ps, _) \<Rightarrow>
          Some (case write_processes mkdir works (pf_root c) ps d of
                  Inl e \<Rightarrow> Inl e
                | Inr d \<Rightarrow> copy_files host works (pf_root c) (pf_copy_from_host c) d))"

text \<open>\<open>spin\<close> only waits for the shutdown.\<close>

definition procfs_gen_spin :: "bool \<Rightarrow> (procfs_gen_error + unit) option" where
  "procfs_gen_spin shutdown_received = (if shutdown_received then Some (Inr ()) else None)"

section \<open>What it leaves on the disk\<close>

lemma write_files_works: "\<forall>f \<in> set fs. works (fst f) \<Longrightarrow> write_files works fs d = Some (d ++ map_of (rev fs))"
  by (induction works fs d rule: write_files.induct) (auto simp: map_add_def fun_eq_iff split: option.split)

definition tree_files :: "string \<Rightarrow> Process list \<Rightarrow> (string \<times> string) list" where
  "tree_files proot ps = concat (map (\<lambda>p. pid_files (path_join proot (show_nat (p_pid p))) p) ps)"

lemma write_processes_works:
  assumes "\<And>path. mkdir path" "\<And>path. works path"
  shows "write_processes mkdir works proot ps d = Inr (d ++ map_of (rev (tree_files proot ps)))"
  using assms by (induction ps arbitrary: d) (auto simp: tree_files_def write_files_works Let_def)

definition before :: "string \<Rightarrow> string" where
  "before proot = (if proot = [] \<or> last proot = CHR ''/'' then proot else proot @ ''/'')"

lemma path_join_plain: "b \<noteq> [] \<Longrightarrow> hd b \<noteq> CHR ''/'' \<Longrightarrow> path_join proot b = before proot @ b"
  by (cases b) (auto simp: path_join_def before_def starts_with_def)

lemma show_nat_chars: "CHR ''/'' \<notin> set (show_nat n)" "hd (show_nat n) \<noteq> CHR ''/''" "is_digit (hd (show_nat n))" "last (show_nat n) \<noteq> CHR ''/''"
proof -
  have d: "is_digit c" if "c \<in> set (show_nat n)" for c using that show_nat_digits [of n] by (simp add: list_all_iff)
  moreover have "\<not> is_digit (CHR ''/'')" by (simp add: is_digit_def)
  ultimately show "CHR ''/'' \<notin> set (show_nat n)" by blast
  then show "hd (show_nat n) \<noteq> CHR ''/''" "last (show_nat n) \<noteq> CHR ''/''" using hd_in_set last_in_set show_nat_nonempty by metis+
  show "is_digit (hd (show_nat n))" using d hd_in_set show_nat_nonempty by blast
qed

lemma pid_path: "name \<noteq> [] \<Longrightarrow> hd name \<noteq> CHR ''/'' \<Longrightarrow> path_join (path_join proot (show_nat pid)) name = before proot @ show_nat pid @ ''/'' @ name"
  using show_nat_chars [of pid] by (simp add: path_join_plain) (simp add: before_def)

lemma pid_path_inject: "show_nat i @ CHR ''/'' # v = show_nat j @ CHR ''/'' # w \<longleftrightarrow> i = j \<and> v = w"
proof -
  have "split_once (CHR ''/'') (show_nat n @ CHR ''/'' # u) = Some (show_nat n, u)" for n u
  proof -
    have "takeWhile (\<lambda>c. c \<noteq> CHR ''/'') (show_nat n @ CHR ''/'' # u) = show_nat n" "dropWhile (\<lambda>c. c \<noteq> CHR ''/'') (show_nat n @ CHR ''/'' # u) = CHR ''/'' # u"
      using show_nat_chars(1) [of n] by (auto simp: takeWhile_append dropWhile_append)
    then show ?thesis by (simp add: split_once_def)
  qed
  then show ?thesis by (metis option.inject prod.inject show_nat_inject)
qed

lemma file_paths:
  "map fst (pid_files (path_join proot (show_nat pid)) p) = map (\<lambda>name. before proot @ show_nat pid @ ''/'' @ name) [''cmdline'', ''comm'', ''io'', ''stat'', ''statm'', ''status'']"
  by (simp add: pid_files_def pid_path)

text \<open>Of two processes with the same pid the files of the later one stay.\<close>

definition last_of :: "Process list \<Rightarrow> Process \<Rightarrow> bool" where
  "last_of ps p \<longleftrightarrow> (\<exists>xs ys. ps = xs @ p # ys \<and> (\<forall>q \<in> set ys. p_pid q \<noteq> p_pid p))"

lemma last_of_exists: "q \<in> set ps \<Longrightarrow> \<exists>p. last_of ps p \<and> p_pid p = p_pid q"
proof (induction ps rule: rev_induct)
  case (snoc x ps)
  show ?case
  proof (cases "p_pid x = p_pid q")
    case True
    then show ?thesis unfolding last_of_def by fastforce
  next
    case False
    with snoc obtain p xs ys where "ps = xs @ p # ys" "\<forall>r \<in> set ys. p_pid r \<noteq> p_pid p" "p_pid p = p_pid q" by (auto simp: last_of_def)
    with False show ?thesis unfolding last_of_def by (intro exI [of _ p] conjI exI [of _ xs] exI [of _ "ys @ [x]"]) auto
  qed
qed simp

lemma tree_files_lookup:
  assumes "last_of ps p" "(path, content) \<in> set (pid_files (path_join proot (show_nat (p_pid p))) p)"
  shows "map_of (rev (tree_files proot ps)) path = Some content"
proof -
  let ?files = "\<lambda>q. pid_files (path_join proot (show_nat (p_pid q))) q"
  obtain xs ys where ps: "ps = xs @ p # ys" "\<forall>q \<in> set ys. p_pid q \<noteq> p_pid p" using assms(1) by (auto simp: last_of_def)
  have "path \<in> set (map fst (?files p))" using assms(2) by force
  then obtain name where path: "path = before proot @ show_nat (p_pid p) @ ''/'' @ name" unfolding file_paths by auto
  have "path \<notin> set (map fst (?files q))" if "q \<in> set ys" for q
    using that ps(2) unfolding file_paths path by (auto simp: pid_path_inject)
  then have "path \<notin> fst ` set (tree_files proot ys)" by (auto simp: tree_files_def image_iff)
  then have "map_of (rev (tree_files proot ys)) path = None" by (simp add: map_of_eq_None_iff)
  moreover have "distinct (map fst (?files p))" unfolding file_paths by simp
  then have "map_of (rev (?files p)) path = Some content"
    using assms(2) by (intro map_of_is_SomeI) (simp_all add: rev_map [symmetric])
  ultimately show ?thesis by (simp add: ps(1) tree_files_def map_add_def)
qed

lemma copy_default:
  assumes "\<And>path. works path" "host ''/proc/uptime'' = Some u" "host ''/proc/stat'' = Some s"
  shows "copy_files host works proot default_copy_from_host d = Inr (d(path_join proot ''uptime'' \<mapsto> u, path_join proot ''stat'' \<mapsto> s))"
proof -
  have "strip_proc ''/proc/uptime'' = Some ''uptime''" "strip_proc ''/proc/stat'' = Some ''stat''" by (simp_all add: strip_proc_def starts_with_def)
  with assms show ?thesis by (simp add: default_copy_from_host_def Let_def)
qed

lemma process_readable:
  assumes "process_ok p" "map cut_field (text_lines (show_status_file (p_status p))) = status_fields (p_status p)"
    and "\<And>path content. (path, content) \<in> set (pid_files dir p) \<Longrightarrow> d path = Some content"
  shows "Option.bind (d (path_join dir ''stat'')) stat_parse = Some (Inr (int (p_pid p), st_utime (p_stat p), st_stime (p_stat p)))"
    and "map_option (\<lambda>s. map cut_field (text_lines s)) (d (path_join dir ''status'')) = Some (status_fields (p_status p))"
proof -
  have "d (path_join dir ''stat'') = Some (show_stat (p_stat p))" "d (path_join dir ''status'') = Some (show_status_file (p_status p))"
    by (rule assms(3), simp add: pid_files_def)+
  moreover have "stat_parse (show_stat (p_stat p)) = Some (Inr (int (p_pid p), st_utime (p_stat p), st_stime (p_stat p)))"
    using stat_parse_show [of "p_stat p"] assms(1) by (simp add: process_ok_def stat_ok_def proc_constants)
  ultimately show "Option.bind (d (path_join dir ''stat'')) stat_parse = Some (Inr (int (p_pid p), st_utime (p_stat p), st_stime (p_stat p)))"
    "map_option (\<lambda>s. map cut_field (text_lines s)) (d (path_join dir ''status'')) = Some (status_fields (p_status p))"
    using assms(2) by simp_all
qed

text \<open>
  C35. The observer can read what the procfs generator writes. With a disk that works and the default
  files to copy, the generator is built whatever it draws, and below its root every generated pid
  has a directory in which the stat file is parsed to that pid and the drawn ticks, the status file
  can be cut back into its fields, and the other files are those of the same process, the last one
  drawn with that pid; uptime and stat are those of the host.
\<close>

theorem procfs_generator_readable:
  assumes "rng_ok R" "\<And>path. mkdir path" "\<And>path. works path" "host ''/proc/uptime'' = Some u" "host ''/proc/stat'' = Some h"
    and "pf_copy_from_host c = default_copy_from_host"
  shows "\<exists>ps d'. fst (the (fixed_processes R (pf_total_processes c) seed)) = Inr ps \<and> length ps = pf_total_processes c \<and>
    procfs_gen_new R mkdir works host c seed d = Some (Inr d') \<and>
    d' (path_join (pf_root c) ''uptime'') = Some u \<and> d' (path_join (pf_root c) ''stat'') = Some h \<and>
    (\<forall>q \<in> set ps. \<exists>p. last_of ps p \<and> p_pid p = p_pid q \<and>
       (let dir = path_join (pf_root c) (show_nat (p_pid q))
        in Option.bind (d' (path_join dir ''stat'')) stat_parse = Some (Inr (int (p_pid q), st_utime (p_stat p), st_stime (p_stat p))) \<and>
           map_option (\<lambda>s. map cut_field (text_lines s)) (d' (path_join dir ''status'')) = Some (status_fields (p_status p)) \<and>
           (\<forall>(path, content) \<in> set (pid_files dir p). d' path = Some content)))"
proof -
  let ?r = "pf_root c"
  obtain ps s' where ps: "fixed_processes R (pf_total_processes c) seed = Some (Inr ps, s')" "length ps = pf_total_processes c"
    "\<forall>p \<in> set ps. process_ok p \<and> map cut_field (text_lines (show_status_file (p_status p))) = status_fields (p_status p)"
    using fixed_processes_readable [OF assms(1)] by blast
  define d' where "d' = (d ++ map_of (rev (tree_files ?r ps)))(path_join ?r ''uptime'' \<mapsto> u, path_join ?r ''stat'' \<mapsto> h)"
  have new: "procfs_gen_new R mkdir works host c seed d = Some (Inr d')"
    using ps(1) assms(6) by (simp add: procfs_gen_new_def write_processes_works assms(2,3) copy_default [where host = host and works = works, OF assms(3-5)] d'_def)
  have "path_join ?r ''uptime'' = before ?r @ ''uptime''" "path_join ?r ''stat'' = before ?r @ ''stat''" by (simp_all add: path_join_plain)
  moreover have "show_nat i @ CHR ''/'' # v \<noteq> ''uptime'' \<and> show_nat i @ CHR ''/'' # v \<noteq> ''stat''" for i v
    using show_nat_chars(3) [of i] by (cases "show_nat i") (auto simp: is_digit_def)
  ultimately have other: "before ?r @ show_nat i @ ''/'' @ v \<notin> {path_join ?r ''uptime'', path_join ?r ''stat''}" for i v by simp
  have files: "d' path = Some content" if "last_of ps p" "(path, content) \<in> set (pid_files (path_join ?r (show_nat (p_pid p))) p)" for p path content
  proof -
    have "path \<in> set (map fst (pid_files (path_join ?r (show_nat (p_pid p))) p))" using that(2) by force
    then have "path \<notin> {path_join ?r ''uptime'', path_join ?r ''stat''}" unfolding file_paths using other by auto
    with tree_files_lookup [OF that] show ?thesis by (simp add: d'_def)
  qed
  have "d' (path_join ?r ''uptime'') = Some u" "d' (path_join ?r ''stat'') = Some h" by (simp_all add: d'_def path_join_plain)
  moreover have "\<exists>p. last_of ps p \<and> p_pid p = p_pid q \<and> (let dir = path_join ?r (show_nat (p_pid q))
        in Option.bind (d' (path_join dir ''stat'')) stat_parse = Some (Inr (int (p_pid q), st_utime (p_stat p), st_stime (p_stat p))) \<and>
           map_option (\<lambda>s. map cut_field (text_lines s)) (d' (path_join dir ''status'')) = Some (status_fields (p_status p)) \<and>
           (\<forall>(path, content) \<in> set (pid_files dir p). d' path = Some content))" if q: "q \<in> set ps" for q
  proof -
    obtain p where p: "last_of ps p" "p_pid p = p_pid q" using last_of_exists [OF q] by blast
    have ok: "process_ok p" "map cut_field (text_lines (show_status_file (p_status p))) = status_fields (p_status p)"
      using ps(3) p(1) by (auto simp: last_of_def)
    show ?thesis using process_readable [OF ok files [OF p(1)]] files [OF p(1)] p by (intro exI [of _ p]) (auto simp: Let_def)
  qed
  ultimately show ?thesis using ps new by (intro exI [of _ ps] exI [of _ d']) simp
qed

theorem procfs_generator_readable_witness:
  "\<exists>(ps :: Process list) d'. length ps = 2 \<and> procfs_gen_new counter_rng (\<lambda>_. True) (\<lambda>_. True) (\<lambda>_. Some ''1.0 2.0'')
     \<lparr>pf_root = ''/fake'', pf_total_processes = 2, pf_copy_from_host = default_copy_from_host\<rparr> 0 Map.empty = Some (Inr d') \<and>
     (\<forall>q \<in> set ps. \<exists>t. Option.bind (d' (''/fake/'' @ show_nat (p_pid q) @ ''/stat'')) stat_parse = Some (Inr (int (p_pid q), t)))"
proof -
  let ?c = "\<lparr>pf_root = ''/fake'', pf_total_processes = 2, pf_copy_from_host = default_copy_from_host\<rparr>"
  have dir: "path_join (path_join ''/fake'' (show_nat i)) ''stat'' = ''/fake/'' @ show_nat i @ ''/stat''" for i
    by (simp add: pid_path before_def)
  have "pf_copy_from_host ?c = default_copy_from_host" by simp
  from procfs_generator_readable [where R = counter_rng and mkdir = "\<lambda>_. True" and works = "\<lambda>_. True" and host = "\<lambda>_. Some ''1.0 2.0''"
      and seed = 0 and d = Map.empty, OF counter_rng_ok TrueI TrueI refl refl this] obtain ps d' where
    r: "length ps = pf_total_processes ?c" "procfs_gen_new counter_rng (\<lambda>_. True) (\<lambda>_. True) (\<lambda>_. Some ''1.0 2.0'') ?c 0 Map.empty = Some (Inr d')"
    and read: "\<forall>q \<in> set ps. \<exists>p. last_of ps p \<and> p_pid p = p_pid q \<and>
       (let dir = path_join (pf_root ?c) (show_nat (p_pid q))
        in Option.bind (d' (path_join dir ''stat'')) stat_parse = Some (Inr (int (p_pid q), st_utime (p_stat p), st_stime (p_stat p))) \<and>
           map_option (\<lambda>s. map cut_field (text_lines s)) (d' (path_join dir ''status'')) = Some (status_fields (p_status p)) \<and>
           (\<forall>(path, content) \<in> set (pid_files dir p). d' path = Some content))" by blast
  have "\<forall>q \<in> set ps. \<exists>t. Option.bind (d' (path_join (path_join ''/fake'' (show_nat (p_pid q))) ''stat'')) stat_parse = Some (Inr (int (p_pid q), t))"
    using read unfolding Let_def procfs_gen_config.select_convs by meson
  moreover have "length ps = 2" using r(1) by simp
  moreover note r(2)
  ultimately show ?thesis unfolding dir by blast
qed

end
