(* ===== verification/File_Tree.thy ===== *)
theory File_Tree
  imports Payload Throttle
begin

text \<open>
  The file tree generator (\<^verbatim>\<open>generator/file_tree.rs\<close>): the list of paths it draws, and the loop that
  creates them one after the other, opens those that exist and renames folders back and forth. The
  disk maps paths to what they are; an operation fails when the file system would refuse it, and
  may fail for reasons of its own.
\<close>

section \<open>Configuration\<close>

record ft_config =
  ft_max_depth :: nat
  ft_max_sub_folders :: nat
  ft_max_files :: nat
  ft_max_nodes :: nat
  ft_name_len :: nat
  ft_root :: string
  ft_open_per_second :: "32 word"
  ft_rename_per_second :: "32 word"
  ft_throttle :: throttle_config

definition ft_default_config :: "string \<Rightarrow> ft_config" where
  "ft_default_config path =
     \<lparr>ft_max_depth = 10, ft_max_sub_folders = 5, ft_max_files = 5, ft_max_nodes = 100, ft_name_len = 8, ft_root = path,
      ft_open_per_second = 8, ft_rename_per_second = 1, ft_throttle = default_config\<rparr>"

datatype ft_error = Ft_Io | Ft_Parent | Ft_ToStr

section \<open>The paths\<close>

definition FILE_EXTENSION :: string where
  "FILE_EXTENSION = ''txt''"

definition is_folder :: "string \<Rightarrow> bool" where
  "is_folder node \<longleftrightarrow> extension node = None"

definition rnd_node_name :: "'r rng \<Rightarrow> string \<Rightarrow> nat \<Rightarrow> ('r, string) state" where
  "rnd_node_name R dir len = do { name \<leftarrow> sample_many len (State (gen_alphanumeric R)); State_Monad.return (path_join dir name) }"

definition rnd_file_name :: "'r rng \<Rightarrow> string \<Rightarrow> nat \<Rightarrow> ('r, string) state" where
  "rnd_file_name R dir len = do { node \<leftarrow> rnd_node_name R dir len; State_Monad.return (set_extension node FILE_EXTENSION) }"

definition separators :: "string \<Rightarrow> nat" where
  "separators path = length (filter (\<lambda>c. c = CHR ''/'') path)"

text \<open>
  A \<open>for\<close> loop that draws a path as long as the number of nodes stays below the maximum and pushes
  it: the stack with its top first, the number of nodes so far and the generator.
\<close>

fun push_nodes :: "('r, string) state \<Rightarrow> nat \<Rightarrow> nat \<Rightarrow> string list \<Rightarrow> nat \<Rightarrow> 'r \<Rightarrow> string list \<times> nat \<times> 'r" where
  "push_nodes draw limit 0 stack tot s = (stack, tot, s)"
| "push_nodes draw limit (Suc n) stack tot s =
     (if tot < limit then let (node, s) = run_state draw s in push_nodes draw limit n (node # stack) (Suc tot) s
      else push_nodes draw limit n stack tot s)"

text \<open>
  One pass of \<open>generate_tree\<close>. The code counts files and folders apart; only the sum decides. A node
  with fewer separators than the root would make the subtraction overflow, \<open>None\<close>.
\<close>

definition ft_pass ::
    "'r rng \<Rightarrow> ft_config \<Rightarrow> string list \<times> string list \<times> nat \<times> nat \<times> 'r \<Rightarrow>
     (string list \<times> string list \<times> nat \<times> nat \<times> 'r, (string list \<times> nat \<times> nat) \<times> 'r) pass option" where
  "ft_pass R c = (\<lambda>(stack, nodes, total_file, total_folder, s).
     case stack of
       [] \<Rightarrow> Some (Break ((nodes, total_file, total_folder), s))
     | node # stack \<Rightarrow>
         if is_folder node then
           let (stack, tot, s) = push_nodes (rnd_file_name R node (ft_name_len c)) (ft_max_nodes c) (ft_max_files c) stack (total_file + total_folder) s;
               total_file = tot - total_folder
           in if separators node < separators (ft_root c) then None
              else if separators node - separators (ft_root c) < ft_max_depth c then
                let (stack, tot, s) = push_nodes (rnd_node_name R node (ft_name_len c)) (ft_max_nodes c) (ft_max_sub_folders c) stack tot s
                in Some (Again (stack, nodes @ [node], total_file, tot - total_file, s))
              else Some (Again (stack, nodes @ [node], total_file, total_folder, s))
         else Some (Again (stack, nodes @ [node], total_file, total_folder, s)))"

definition ft_generate_tree :: "'r rng \<Rightarrow> ft_config \<Rightarrow> 'r \<Rightarrow> ((string list \<times> nat \<times> nat) \<times> 'r) option" where
  "ft_generate_tree R c s = loop (ft_pass R c) ([ft_root c], [], 0, 0, s)"

section \<open>The disk\<close>

datatype disk_kind = Disk_Dir | Disk_File

type_synonym tree_disk = "string \<rightharpoonup> disk_kind"

definition below :: "string \<Rightarrow> string \<Rightarrow> bool" where
  "below dir path \<longleftrightarrow> path = dir \<or> starts_with (dir @ ''/'') path"

definition parent_is_dir :: "tree_disk \<Rightarrow> string \<Rightarrow> bool" where
  "parent_is_dir d path \<longleftrightarrow> (case path_parent path of None \<Rightarrow> False | Some p \<Rightarrow> d p = Some Disk_Dir)"

definition create_dir :: "string \<Rightarrow> tree_disk \<Rightarrow> tree_disk option" where
  "create_dir path d = (if d path = None \<and> parent_is_dir d path then Some (d(path \<mapsto> Disk_Dir)) else None)"

definition create_file :: "string \<Rightarrow> tree_disk \<Rightarrow> tree_disk option" where
  "create_file path d = (if d path \<noteq> Some Disk_Dir \<and> parent_is_dir d path then Some (d(path \<mapsto> Disk_File)) else None)"

text \<open>
  \<open>rename\<close> of a directory, as POSIX has it: to its own path it does nothing; a new path that exists must be
  an empty directory, which is replaced; a directory cannot move below itself. Everything below the old path moves.
\<close>

definition empty_dir :: "tree_disk \<Rightarrow> string \<Rightarrow> bool" where
  "empty_dir d path \<longleftrightarrow> d path = Some Disk_Dir \<and> (\<forall>p. below path p \<longrightarrow> p \<noteq> path \<longrightarrow> d p = None)"

definition rename_dir :: "string \<Rightarrow> string \<Rightarrow> tree_disk \<Rightarrow> tree_disk option" where
  "rename_dir old new d =
     (if d old \<noteq> Some Disk_Dir then None
      else if new = old then Some d
      else if below old new \<or> \<not> parent_is_dir d new \<or> d new \<noteq> None \<and> \<not> empty_dir d new then None
      else Some (\<lambda>p. if below new p then d (old @ drop (length new) p) else if below old p then None else d p))"

definition create_node :: "string \<Rightarrow> tree_disk \<Rightarrow> tree_disk option" where
  "create_node node d = (if is_folder node then create_dir node d else create_file node d)"

section \<open>The generator\<close>

text \<open>\<open>replaced\<close> is a history: the paths that existed when a rename drew their names.\<close>

record ('r, 'c) file_tree =
  tree_name_len :: nat
  open_throttle :: "'c Throttle"
  rename_throttle :: "'c Throttle"
  tree_nodes :: "string list"
  tree_rng :: 'r
  node_index :: nat
  folders :: "string list"
  tree_disk :: tree_disk
  replaced :: "string list"

definition file_tree_new :: "'r rng \<Rightarrow> ft_config \<Rightarrow> 'r \<Rightarrow> 'c \<Rightarrow> 'c \<Rightarrow> tree_disk \<Rightarrow> ('r, 'c) file_tree option" where
  "file_tree_new R c seed clk1 clk2 d =
     map_option (\<lambda>((nodes, total_files, total_folder), s).
       \<lparr>tree_name_len = ft_name_len c, open_throttle = new_with_config (ft_throttle c) (ft_open_per_second c) clk1,
        rename_throttle = new_with_config (ft_throttle c) (ft_rename_per_second c) clk2, tree_nodes = nodes, tree_rng = s,
        node_index = 0, folders = [], tree_disk = d, replaced = []\<rparr>)
     (ft_generate_tree R c seed)"

text \<open>What the loop meets: one of the throttles lets it act, on a disk that works or does not, or the shutdown.\<close>

datatype ft_event = Ft_Open bool | Ft_Rename bool bool | Ft_Shutdown

datatype ft_result = Ft_Spinning | Ft_Stopped | Ft_Failed ft_error

definition open_next :: "bool \<Rightarrow> ('r, 'c) file_tree \<Rightarrow> (ft_error + ('r, 'c) file_tree) option" where
  "open_next io_ok g =
     (if tree_nodes g = [] then None
      else
        let node = tree_nodes g ! (node_index g mod length (tree_nodes g)); g = g\<lparr>node_index := Suc (node_index g)\<rparr> in
        if tree_disk g node \<noteq> None then Some (if io_ok then Inr g else Inl Ft_Io)
        else
          case (if io_ok then create_node node (tree_disk g) else None) of
            None \<Rightarrow> Some (Inl Ft_Io)
          | Some d \<Rightarrow> Some (Inr (g\<lparr>tree_disk := d, folders := folders g @ (if is_folder node then [node] else [])\<rparr>)))"

text \<open>The disk after the two renames, beside the path that was drawn.\<close>

definition rename_folder :: "'r rng \<Rightarrow> bool \<Rightarrow> bool \<Rightarrow> string \<Rightarrow> nat \<Rightarrow> tree_disk \<Rightarrow> 'r \<Rightarrow> (ft_error + tree_disk \<times> string) \<times> 'r" where
  "rename_folder R ok1 ok2 folder len d s =
     (case path_parent folder of
        None \<Rightarrow> (Inl Ft_Parent, s)
      | Some parent \<Rightarrow>
          let (dir, s) = run_state (rnd_node_name R parent len) s in
          (case (if ok1 then rename_dir folder dir d else None) of
             None \<Rightarrow> (Inl Ft_Io, s)
           | Some d \<Rightarrow> (case (if ok2 then rename_dir dir folder d else None) of None \<Rightarrow> (Inl Ft_Io, s) | Some d \<Rightarrow> (Inr (d, dir), s))))"

definition rename_some :: "'r rng \<Rightarrow> bool \<Rightarrow> bool \<Rightarrow> ('r, 'c) file_tree \<Rightarrow> ft_error + ('r, 'c) file_tree" where
  "rename_some R ok1 ok2 g =
     (case slice_choose R (folders g) (tree_rng g) of
        (None, s) \<Rightarrow> Inr (g\<lparr>tree_rng := s\<rparr>)
      | (Some folder, s) \<Rightarrow>
          (case rename_folder R ok1 ok2 folder (tree_name_len g) (tree_disk g) s of
             (Inl e, s) \<Rightarrow> Inl e
           | (Inr (d, dir), s) \<Rightarrow>
               Inr (g\<lparr>tree_disk := d, tree_rng := s,
                      replaced := replaced g @ (if dir \<noteq> folder \<and> tree_disk g dir \<noteq> None then [dir] else [])\<rparr>)))"

text \<open>
  The loop. The wait that \<open>select!\<close> drops because the other one was over first is not followed. The
  state beside a failure is the one before the turn that failed.
\<close>

fun ft_loop :: "'r rng \<Rightarrow> 'c clock \<Rightarrow> ft_event list \<Rightarrow> ('r, 'c) file_tree \<Rightarrow> (ft_result \<times> ('r, 'c) file_tree) option" where
  "ft_loop R clk [] g = Some (Ft_Spinning, g)"
| "ft_loop R clk (Ft_Shutdown # es) g = Some (Ft_Stopped, g)"
| "ft_loop R clk (Ft_Open io_ok # es) g =
     (case throttle_wait clk (open_throttle g) of
        None \<Rightarrow> None
      | Some (_, t) \<Rightarrow>
          (case open_next io_ok (g\<lparr>open_throttle := t\<rparr>) of
             None \<Rightarrow> None
           | Some (Inl e) \<Rightarrow> Some (Ft_Failed e, g)
           | Some (Inr g) \<Rightarrow> ft_loop R clk es g))"
| "ft_loop R clk (Ft_Rename ok1 ok2 # es) g =
     (case throttle_wait clk (rename_throttle g) of
        None \<Rightarrow> None
      | Some (_, t) \<Rightarrow>
          (case rename_some R ok1 ok2 (g\<lparr>rename_throttle := t\<rparr>) of
             Inl e \<Rightarrow> Some (Ft_Failed e, g)
           | Inr g \<Rightarrow> ft_loop R clk es g))"

section \<open>Paths of drawn names\<close>

definition node_name :: "string \<Rightarrow> bool" where
  "node_name w \<longleftrightarrow> w \<noteq> [] \<and> list_all is_alphanumeric w"

definition dir_path :: "string \<Rightarrow> bool" where
  "dir_path p \<longleftrightarrow> p \<noteq> [] \<and> last p \<noteq> CHR ''/''"

lemma node_name_chars: "node_name w \<Longrightarrow> c \<in> set w \<Longrightarrow> c \<noteq> CHR ''/'' \<and> c \<noteq> CHR ''.''"
  by (auto simp: node_name_def list_all_iff is_alphanumeric_def is_digit_def)

lemma path_join_name: "dir_path d \<Longrightarrow> node_name w \<Longrightarrow> path_join d w = d @ ''/'' @ w"
  using node_name_chars [of w "hd w"] by (cases w) (auto simp: path_join_def starts_with_def dir_path_def node_name_def)

lemma last_name: "w \<noteq> [] \<Longrightarrow> \<forall>c \<in> set w. c \<noteq> CHR ''/'' \<Longrightarrow> dir_path (d @ ''/'' @ w)"
  by (simp add: dir_path_def)

lemma path_parent_name:
  assumes "dir_path d" "w \<noteq> []" "\<forall>c \<in> set w. c \<noteq> CHR ''/''"
  shows "path_parent (d @ ''/'' @ w) = Some d"
proof -
  have d: "dropWhile (\<lambda>c. c = CHR ''/'') (rev d) = rev d"
    using assms(1) by (cases d rule: rev_cases) (simp_all add: dir_path_def)
  have "dropWhile (\<lambda>c. c = CHR ''/'') (rev w @ CHR ''/'' # rev d) = rev w @ CHR ''/'' # rev d"
    using assms(2,3) by (cases w rule: rev_cases) auto
  moreover have "dropWhile (\<lambda>c. c \<noteq> CHR ''/'') (rev w @ CHR ''/'' # rev d) = CHR ''/'' # rev d"
    using assms(3) by (subst dropWhile_append2) auto
  moreover have "rev d \<noteq> []" using assms(1) by (simp add: dir_path_def)
  ultimately show ?thesis unfolding path_parent_def Let_def by (simp del: dropWhile_eq_Nil_conv add: d)
qed

lemma file_name_name:
  assumes "w \<noteq> []" "w \<noteq> ''.''" "w \<noteq> ''..''" "\<forall>c \<in> set w. c \<noteq> CHR ''/''"
  shows "file_name (d @ ''/'' @ w) = Some w"
proof -
  have "split_on (CHR ''/'') (d @ CHR ''/'' # w) = split_on (CHR ''/'') d @ [w]" proof -
    have "CHR ''/'' \<notin> set w" using assms(4) by auto
    then show ?thesis by (simp add: split_on_append_general)
  qed
  with assms show ?thesis by (simp add: file_name_def Let_def)
qed

lemma cut_extension_plain: "CHR ''.'' \<notin> set w \<Longrightarrow> cut_extension w = (w, None)"
  by (simp add: cut_extension_def Let_def)

lemma cut_extension_dot:
  assumes "w \<noteq> []" "CHR ''.'' \<notin> set e"
  shows "cut_extension (w @ ''.'' @ e) = (w, Some e)"
proof -
  have "takeWhile (\<lambda>c. c \<noteq> CHR ''.'') (rev e @ CHR ''.'' # rev w) = rev e" using assms(2) by (subst takeWhile_append2) auto
  with assms(1) show ?thesis by (simp add: cut_extension_def Let_def)
qed

text \<open>What a drawn folder and a drawn file in a folder are.\<close>

definition entry_of :: "string \<Rightarrow> string \<Rightarrow> bool" where
  "entry_of d x \<longleftrightarrow> path_parent x = Some d \<and> dir_path x \<and> separators x = Suc (separators d) \<and>
     (\<exists>w. w \<noteq> [] \<and> CHR ''/'' \<notin> set w \<and> x = d @ ''/'' @ w)"

lemma separators_name: "CHR ''/'' \<notin> set w \<Longrightarrow> separators (d @ ''/'' @ w) = Suc (separators d)"
  by (auto simp: separators_def filter_empty_conv)

lemma entry_of_name:
  assumes "dir_path d" "w \<noteq> []" "CHR ''/'' \<notin> set w"
  shows "entry_of d (d @ ''/'' @ w)"
proof -
  have "\<forall>c \<in> set w. c \<noteq> CHR ''/''" using assms(3) by auto
  then show ?thesis
    unfolding entry_of_def using assms path_parent_name [of d w] last_name [of w d] separators_name [of w d] by blast
qed

lemma node_name_sample:
  assumes "rng_ok R" "1 \<le> len"
  shows "node_name (fst (run_state (sample_many len (State (gen_alphanumeric R))) s))"
proof -
  obtain w s' where w: "run_state (sample_many len (State (gen_alphanumeric R))) s = (w, s')" by force
  have alnum: "is_alphanumeric x" if "run_state (State (gen_alphanumeric R)) s = (x, s')" for s x s'
    using assms(1) that unfolding rng_ok_def by (metis fst_conv state.sel)
  have "\<forall>c \<in> set w. is_alphanumeric c" by (rule sample_many_all [OF alnum w])
  moreover have "length w = len" by (rule sample_many_length [OF w])
  ultimately show ?thesis using assms(2) by (auto simp: w node_name_def list_all_iff)
qed

lemma rnd_node_name_entry:
  assumes "rng_ok R" "1 \<le> len" "dir_path d"
  shows "entry_of d (fst (run_state (rnd_node_name R d len) s)) \<and> is_folder (fst (run_state (rnd_node_name R d len) s))"
proof -
  define w where "w = fst (run_state (sample_many len (State (gen_alphanumeric R))) s)"
  have w: "node_name w" unfolding w_def by (rule node_name_sample [OF assms(1,2)])
  have x: "fst (run_state (rnd_node_name R d len) s) = d @ ''/'' @ w"
    using path_join_name [OF assms(3) w] by (simp add: rnd_node_name_def w_def split_beta Let_def)
  have chars: "w \<noteq> []" "CHR ''/'' \<notin> set w" "CHR ''.'' \<notin> set w" using w node_name_chars [OF w] by (auto simp: node_name_def)
  then have "file_name (d @ ''/'' @ w) = Some w" by (intro file_name_name) auto
  then have "is_folder (d @ ''/'' @ w)" using chars by (simp add: is_folder_def extension_def cut_extension_plain)
  with entry_of_name [OF assms(3) chars(1,2)] show ?thesis by (simp only: x)
qed

lemma rnd_file_name_entry:
  assumes "rng_ok R" "1 \<le> len" "dir_path d"
  shows "entry_of d (fst (run_state (rnd_file_name R d len) s)) \<and> \<not> is_folder (fst (run_state (rnd_file_name R d len) s))"
proof -
  define w where "w = fst (run_state (sample_many len (State (gen_alphanumeric R))) s)"
  have w: "node_name w" unfolding w_def by (rule node_name_sample [OF assms(1,2)])
  have chars: "w \<noteq> []" "CHR ''/'' \<notin> set w" "CHR ''.'' \<notin> set w" using w node_name_chars [OF w] by (auto simp: node_name_def)
  have x: "fst (run_state (rnd_node_name R d len) s) = d @ ''/'' @ w"
    using path_join_name [OF assms(3) w] by (simp add: rnd_node_name_def w_def split_beta Let_def)
  have "file_name (d @ ''/'' @ w) = Some w" using chars by (intro file_name_name) auto
  then have named: "fst (run_state (rnd_file_name R d len) s) = d @ ''/'' @ (w @ ''.txt'')"
    using x chars by (simp add: rnd_file_name_def split_beta Let_def set_extension_def cut_extension_plain FILE_EXTENSION_def)
  have ext: "cut_extension (w @ ''.txt'') = (w, Some ''txt'')" using cut_extension_dot [of w "''txt''"] chars by simp
  have "file_name (d @ ''/'' @ (w @ ''.txt'')) = Some (w @ ''.txt'')" using chars by (intro file_name_name) auto
  then have "\<not> is_folder (d @ ''/'' @ (w @ ''.txt''))" using ext by (simp add: is_folder_def extension_def)
  moreover have "entry_of d (d @ ''/'' @ (w @ ''.txt''))" using chars by (intro entry_of_name [OF assms(3)]) simp_all
  ultimately show ?thesis unfolding named by blast
qed

section \<open>The shape of the tree\<close>

text \<open>Pushing draws what the generator draws and never passes the limit.\<close>

lemma push_nodes_ok:
  assumes draw: "\<And>s. P (fst (run_state draw s))" and push: "push_nodes draw limit n stack tot s = (stack', tot', s')" and "tot \<le> limit"
  shows "\<exists>new. stack' = new @ stack \<and> tot' = tot + length new \<and> tot' \<le> limit \<and> (\<forall>x \<in> set new. P x)"
  using push assms(3)
proof (induction n arbitrary: stack tot s)
  case (Suc n)
  show ?case
  proof (cases "tot < limit")
    case True
    obtain x s1 where x: "run_state draw s = (x, s1)" by force
    with Suc.prems True have "push_nodes draw limit n (x # stack) (Suc tot) s1 = (stack', tot', s')" by simp
    from Suc.IH [OF this] True obtain new where
      "stack' = new @ x # stack" "tot' = Suc tot + length new" "tot' \<le> limit" "\<forall>x \<in> set new. P x" by auto
    moreover have "P x" using draw [of s] x by simp
    ultimately show ?thesis by (intro exI [of _ "new @ [x]"]) auto
  next
    case False
    with Suc show ?thesis by simp
  qed
qed simp

definition in_depth :: "ft_config \<Rightarrow> string \<Rightarrow> bool" where
  "in_depth c x \<longleftrightarrow> dir_path x \<and> separators (ft_root c) \<le> separators x \<and>
     separators x \<le> separators (ft_root c) + ft_max_depth c + (if is_folder x then 0 else 1)"

definition has_parent :: "string list \<Rightarrow> string \<Rightarrow> bool" where
  "has_parent nodes x \<longleftrightarrow> (\<exists>y \<in> set nodes. is_folder y \<and> entry_of y x)"

text \<open>Every node after the first comes after the folder it is in.\<close>

fun parents_first :: "string list \<Rightarrow> string list \<Rightarrow> bool" where
  "parents_first before [] \<longleftrightarrow> True"
| "parents_first before (x # xs) \<longleftrightarrow> has_parent before x \<and> parents_first (before @ [x]) xs"

lemma parents_first_append: "parents_first before (xs @ ys) \<longleftrightarrow> parents_first before xs \<and> parents_first (before @ xs) ys"
  by (induction xs arbitrary: before) simp_all

lemma has_parent_mono: "has_parent nodes x \<Longrightarrow> set nodes \<subseteq> set nodes' \<Longrightarrow> has_parent nodes' x"
  by (auto simp: has_parent_def)

definition tree_inv :: "ft_config \<Rightarrow> string list \<times> string list \<times> nat \<times> nat \<times> 'r \<Rightarrow> bool" where
  "tree_inv c = (\<lambda>(stack, nodes, total_file, total_folder, s).
     length nodes + length stack = Suc (total_file + total_folder) \<and> total_file + total_folder \<le> ft_max_nodes c \<and>
     (\<forall>x \<in> set nodes \<union> set stack. in_depth c x) \<and>
     (nodes = [] \<and> stack = [ft_root c] \<or>
      nodes \<noteq> [] \<and> hd nodes = ft_root c \<and> (\<forall>x \<in> set stack. has_parent nodes x) \<and> parents_first [ft_root c] (tl nodes)))"

lemma entry_in_depth:
  assumes "in_depth c d" "is_folder d" "entry_of d x" "is_folder x \<Longrightarrow> separators d < separators (ft_root c) + ft_max_depth c"
  shows "in_depth c x"
  using assms by (auto simp: in_depth_def entry_of_def)

lemma tree_inv_node:
  assumes inv: "tree_inv c (node # stack, nodes, tf, td, s)"
    and new: "\<forall>x \<in> set new. is_folder node \<and> entry_of node x \<and> in_depth c x"
    and count: "tf' + td' = tf + td + length new" "tf' + td' \<le> ft_max_nodes c"
  shows "tree_inv c (new @ stack, nodes @ [node], tf', td', s')"
proof -
  have node: "nodes = [] \<and> node = ft_root c \<and> stack = [] \<or> nodes \<noteq> [] \<and> has_parent nodes node" using inv by (auto simp: tree_inv_def)
  have first: "hd (nodes @ [node]) = ft_root c" using inv by (cases nodes) (auto simp: tree_inv_def)
  have parents: "parents_first [ft_root c] (tl (nodes @ [node]))"
  proof (cases nodes)
    case (Cons x xs)
    with inv have "x = ft_root c" by (auto simp: tree_inv_def)
    with Cons inv node show ?thesis by (auto simp: tree_inv_def parents_first_append)
  qed simp
  have "\<forall>x \<in> set (new @ stack). has_parent (nodes @ [node]) x"
  proof -
    have "has_parent (nodes @ [node]) x" if "x \<in> set stack" for x
      using inv that by (auto simp: tree_inv_def intro: has_parent_mono)
    moreover have "has_parent (nodes @ [node]) x" if "x \<in> set new" for x using new that by (auto simp: has_parent_def)
    ultimately show ?thesis by auto
  qed
  with first parents inv new count show ?thesis by (auto simp: tree_inv_def)
qed

lemma ft_pass_again:
  assumes R: "rng_ok R" "1 \<le> ft_name_len c" and inv: "tree_inv c (node # stack, nodes, tf, td, s)"
  shows "\<exists>new tf' td' s'. ft_pass R c (node # stack, nodes, tf, td, s) = Some (Again (new @ stack, nodes @ [node], tf', td', s')) \<and>
    tree_inv c (new @ stack, nodes @ [node], tf', td', s') \<and> tf' + td' = tf + td + length new \<and> tf' + td' \<le> ft_max_nodes c"
proof (cases "is_folder node")
  case False
  then have pass: "ft_pass R c (node # stack, nodes, tf, td, s) = Some (Again ([] @ stack, nodes @ [node], tf, td, s))" by (simp add: ft_pass_def)
  have "tf + td \<le> ft_max_nodes c" using inv by (simp add: tree_inv_def)
  with pass tree_inv_node [OF inv, of "[]" tf td s] show ?thesis by (intro exI [of _ "[]"]) auto
next
  case folder: True
  have node: "in_depth c node" "tf + td \<le> ft_max_nodes c" using inv by (auto simp: tree_inv_def)
  then have dir: "dir_path node" "separators (ft_root c) \<le> separators node" by (simp_all add: in_depth_def)
  obtain stack1 tot1 s1 where p1: "push_nodes (rnd_file_name R node (ft_name_len c)) (ft_max_nodes c) (ft_max_files c) stack (tf + td) s = (stack1, tot1, s1)"
    by (metis prod_cases3)
  obtain files where f: "stack1 = files @ stack" "tot1 = tf + td + length files" "tot1 \<le> ft_max_nodes c"
      "\<forall>x \<in> set files. entry_of node x \<and> \<not> is_folder x"
    using push_nodes_ok [where P = "\<lambda>x. entry_of node x \<and> \<not> is_folder x", OF rnd_file_name_entry [OF R dir(1)] p1 node(2)] by blast
  have files: "\<forall>x \<in> set files. is_folder node \<and> entry_of node x \<and> in_depth c x"
    using f(4) folder entry_in_depth [OF node(1) folder] by blast
  show ?thesis
  proof (cases "separators node - separators (ft_root c) < ft_max_depth c")
    case False
    then have "ft_pass R c (node # stack, nodes, tf, td, s) = Some (Again (files @ stack, nodes @ [node], tot1 - td, td, s1))"
      using folder dir(2) f by (simp add: ft_pass_def p1)
    moreover have "tot1 - td + td = tf + td + length files" using f by simp
    ultimately show ?thesis using tree_inv_node [OF inv files, of "tot1 - td" td s1] f by (intro exI [of _ files]) auto
  next
    case deeper: True
    obtain stack2 tot2 s2 where p2: "push_nodes (rnd_node_name R node (ft_name_len c)) (ft_max_nodes c) (ft_max_sub_folders c) stack1 tot1 s1 = (stack2, tot2, s2)"
      by (metis prod_cases3)
    obtain dirs where d: "stack2 = dirs @ stack1" "tot2 = tot1 + length dirs" "tot2 \<le> ft_max_nodes c" "\<forall>x \<in> set dirs. entry_of node x \<and> is_folder x"
      using push_nodes_ok [where P = "\<lambda>x. entry_of node x \<and> is_folder x", OF rnd_node_name_entry [OF R dir(1)] p2 f(3)] by blast
    have dirs: "\<forall>x \<in> set (dirs @ files). is_folder node \<and> entry_of node x \<and> in_depth c x"
      using d(4) files folder deeper dir(2) entry_in_depth [OF node(1) folder] by auto
    have "ft_pass R c (node # stack, nodes, tf, td, s) = Some (Again ((dirs @ files) @ stack, nodes @ [node], tot1 - td, tot2 - (tot1 - td), s2))"
      using folder deeper dir(2) by (simp add: ft_pass_def p1 p2 Let_def) (simp add: d(1) f(1))
    moreover have "tot1 - td + (tot2 - (tot1 - td)) = tf + td + length (dirs @ files)" using f d by simp
    ultimately show ?thesis
      using tree_inv_node [OF inv dirs, of "tot1 - td" "tot2 - (tot1 - td)" s2] f d by (intro exI [of _ "dirs @ files"]) auto
  qed
qed

lemma ft_generate_tree_ok:
  assumes "rng_ok R" "1 \<le> ft_name_len c" "dir_path (ft_root c)"
  shows "\<exists>r. ft_generate_tree R c s = Some r \<and> (\<exists>nodes tf td s'. r = ((nodes, tf, td), s') \<and> tree_inv c ([], nodes, tf, td, s'))"
  unfolding ft_generate_tree_def
proof (rule loop_total [where I = "tree_inv c" and f = "\<lambda>(stack, nodes, tf, td, s). ft_max_nodes c - (tf + td) + length stack"])
  show "tree_inv c ([ft_root c], [], 0, 0, s)" using assms(3) by (simp add: tree_inv_def in_depth_def)
next
  fix st :: "string list \<times> string list \<times> nat \<times> nat \<times> 'a"
  assume inv: "tree_inv c st"
  obtain stack nodes tf td s where st: "st = (stack, nodes, tf, td, s)" by (metis prod_cases5)
  show "(\<exists>r. ft_pass R c st = Some (Break r) \<and> (\<exists>nodes tf td s'. r = ((nodes, tf, td), s') \<and> tree_inv c ([], nodes, tf, td, s'))) \<or>
    (\<exists>st'. ft_pass R c st = Some (Again st') \<and> tree_inv c st' \<and>
      (case st' of (stack, nodes, tf, td, s) \<Rightarrow> ft_max_nodes c - (tf + td) + length stack) <
      (case st of (stack, nodes, tf, td, s) \<Rightarrow> ft_max_nodes c - (tf + td) + length stack))"
  proof (cases stack)
    case Nil
    with inv show ?thesis by (auto simp: st ft_pass_def)
  next
    case (Cons node rest)
    with inv ft_pass_again [OF assms(1,2), of node rest nodes tf td s] show ?thesis by (auto simp: st)
  qed
qed

text \<open>
  C37. Drawing a file tree ends, within the limits. For every configuration with a root that is a path,
  \<open>generate_tree\<close> returns; the nodes start with the root and there is one for each file and folder
  counted, of which there are at most \<open>max_nodes\<close>; every other node lies directly in a folder that
  comes before it, and none lies deeper than \<open>max_depth\<close> folders and a file in the last.
\<close>

theorem file_tree_within_limits:
  assumes "rng_ok R" "1 \<le> ft_name_len c" "dir_path (ft_root c)"
  shows "\<exists>nodes files folders s'. ft_generate_tree R c s = Some ((nodes, files, folders), s') \<and>
    length nodes = Suc (files + folders) \<and> files + folders \<le> ft_max_nodes c \<and>
    hd nodes = ft_root c \<and> parents_first [ft_root c] (tl nodes) \<and> (\<forall>x \<in> set nodes. in_depth c x)"
  using ft_generate_tree_ok [OF assms, of s] by (fastforce simp: tree_inv_def)

theorem file_tree_within_limits_witness:
  "\<exists>nodes files folders s'. ft_generate_tree counter_rng (ft_default_config ''/tmp/tree'') 0 = Some ((nodes, files, folders), s') \<and>
    length nodes = Suc (files + folders) \<and> files + folders \<le> 100 \<and> hd nodes = ''/tmp/tree''"
  using file_tree_within_limits [OF counter_rng_ok, of "ft_default_config ''/tmp/tree''" 0] by (auto simp: ft_default_config_def dir_path_def)

text \<open>A root whose last component has a dot is taken for a file: nothing is ever created below it.\<close>

theorem file_tree_root_with_extension:
  assumes "extension (ft_root c) \<noteq> None"
  shows "ft_generate_tree R c s = Some (([ft_root c], 0, 0), s)"
proof -
  have "loop (ft_pass R c) ([ft_root c], [], 0, 0, s) = loop (ft_pass R c) ([], [ft_root c], 0, 0, s)"
    using assms by (intro loop_Again) (auto simp: ft_pass_def is_folder_def)
  also have "\<dots> = Some (([ft_root c], 0, 0), s)" by (rule loop_Break) (simp add: ft_pass_def)
  finally show ?thesis by (simp add: ft_generate_tree_def)
qed

section \<open>What is on the disk\<close>

text \<open>A disk on which every path lies in directories that exist.\<close>

definition disk_closed :: "tree_disk \<Rightarrow> bool" where
  "disk_closed d \<longleftrightarrow> (\<forall>p q. p \<noteq> [] \<longrightarrow> below p q \<longrightarrow> d q \<noteq> None \<longrightarrow> d p \<noteq> None)"

definition clean_disk :: "tree_disk \<Rightarrow> string \<Rightarrow> bool" where
  "clean_disk d path \<longleftrightarrow> disk_closed d \<and> d path = None \<and> parent_is_dir d path \<and> (\<forall>p. p \<noteq> [] \<longrightarrow> below p path \<longrightarrow> p \<noteq> path \<longrightarrow> d p \<noteq> None)"

definition kind_of :: "string \<Rightarrow> disk_kind" where
  "kind_of x = (if is_folder x then Disk_Dir else Disk_File)"

definition grown :: "tree_disk \<Rightarrow> string list \<Rightarrow> tree_disk" where
  "grown d xs = (\<lambda>p. if p \<in> set xs then Some (kind_of p) else d p)"

lemma below_iff: "below a p \<longleftrightarrow> p = a \<or> (\<exists>r. p = a @ ''/'' @ r)"
proof -
  have "starts_with v p \<longleftrightarrow> (\<exists>r. p = v @ r)" for v unfolding starts_with_def by (metis append_eq_conv_conj)
  then show ?thesis by (simp add: below_def)
qed

text \<open>
  What renaming a directory and back leaves: the disk as it was, less the empty directory that had the
  drawn name.
\<close>

lemma rename_back:
  assumes "disk_closed d" "new \<noteq> []" "new \<noteq> old" "rename_dir old new d = Some d1" "rename_dir new old d1 = Some d2"
  shows "d2 = d(new := None)" "disk_closed d2"
proof -
  from assms(3,4) have d1: "d1 = (\<lambda>p. if below new p then d (old @ drop (length new) p) else if below old p then None else d p)"
    and gone: "d new = None \<or> empty_dir d new" and apart: "\<not> below old new" by (auto simp: rename_dir_def split: if_splits)
  have none: "d p = None" if "below new p" "p \<noteq> new" for p
    using gone that assms(1,2) by (auto simp: disk_closed_def empty_dir_def)
  show eq: "d2 = d(new := None)"
  proof
    fix p
    from assms(3,5) have d2: "d2 p = (if below old p then d1 (new @ drop (length old) p) else if below new p then None else d1 p)"
      by (auto simp: rename_dir_def split: if_splits)
    show "d2 p = (d(new := None)) p"
    proof (cases "below old p")
      case True
      then obtain r where "p = old @ r" "below new (new @ r)" by (auto simp: below_iff)
      with True apart d2 show ?thesis by (auto simp: d1)
    next
      case False
      have "below new new" by (simp add: below_iff)
      with False none [of p] show ?thesis by (auto simp: d2 d1)
    qed
  qed
  show "disk_closed d2" unfolding eq disk_closed_def
  proof (intro allI impI)
    fix p q
    assume pq: "p \<noteq> []" "below p q" "(d(new := None)) q \<noteq> None"
    with assms(1) have "d p \<noteq> None" by (auto simp: disk_closed_def split: if_splits)
    moreover have "p \<noteq> new" using pq none [of q] by (auto split: if_splits)
    ultimately show "(d(new := None)) p \<noteq> None" by simp
  qed
qed

lemma disk_closed_add:
  assumes "disk_closed d" "entry_of y x" "d y \<noteq> None"
  shows "disk_closed (d(x \<mapsto> k))"
proof -
  obtain w where x: "x = y @ ''/'' @ w" "CHR ''/'' \<notin> set w" using assms(2) by (auto simp: entry_of_def)
  have "d p \<noteq> None" if "p \<noteq> []" "p @ ''/'' @ r = x" for p r
  proof -
    from that(2) x(1) have eq: "p @ ''/'' @ r = y @ ''/'' @ w" by simp
    then obtain u where "p = y @ u \<and> u @ CHR ''/'' # r = CHR ''/'' # w \<or> p @ u = y \<and> CHR ''/'' # r = u @ CHR ''/'' # w"
      by (auto simp: append_eq_append_conv2)
    then show ?thesis
    proof
      assume u: "p = y @ u \<and> u @ CHR ''/'' # r = CHR ''/'' # w"
      with x(2) have "u = []" by (cases u) auto
      with u assms(3) show ?thesis by simp
    next
      assume u: "p @ u = y \<and> CHR ''/'' # r = u @ CHR ''/'' # w"
      then have "below p y" by (cases u) (auto simp: below_iff)
      with assms(1,3) that(1) show ?thesis by (auto simp: disk_closed_def)
    qed
  qed
  with assms(1) show ?thesis unfolding disk_closed_def below_iff by (auto simp: fun_upd_def)
qed

lemma parents_first_nth: "parents_first before xs \<Longrightarrow> i < length xs \<Longrightarrow> has_parent (before @ take i xs) (xs ! i)"
proof (induction xs arbitrary: before i)
  case (Cons x xs)
  show ?case
  proof (cases i)
    case (Suc j)
    with Cons have "has_parent ((before @ [x]) @ take j xs) (xs ! j)" by (intro Cons.IH) auto
    with Suc show ?thesis by simp
  qed (use Cons in simp)
qed simp

text \<open>A node that is created has its parent on the disk already.\<close>

definition tree_list :: "string \<Rightarrow> string list \<Rightarrow> bool" where
  "tree_list path nodes \<longleftrightarrow> nodes \<noteq> [] \<and> hd nodes = path \<and> parents_first [path] (tl nodes)"

lemma tree_list_nth:
  assumes "tree_list path nodes" "i < length nodes"
  shows "i = 0 \<and> nodes ! i = path \<or> has_parent (take i nodes) (nodes ! i)"
proof (cases i)
  case 0
  with assms show ?thesis by (auto simp: tree_list_def hd_conv_nth)
next
  case (Suc j)
  obtain xs where n: "nodes = path # xs" using assms by (cases nodes) (auto simp: tree_list_def)
  with assms Suc have "has_parent ([path] @ take j xs) (xs ! j)" by (intro parents_first_nth) (auto simp: tree_list_def)
  with n Suc show ?thesis by simp
qed

lemma create_next:
  assumes tree: "tree_list path nodes" and d: "clean_disk d0 path" and i: "i < length nodes"
    and closed: "disk_closed (grown d0 (take i nodes))" and new: "grown d0 (take i nodes) (nodes ! i) = None"
  shows "create_node (nodes ! i) (grown d0 (take i nodes)) = Some (grown d0 (take (Suc i) nodes))"
    and "disk_closed (grown d0 (take (Suc i) nodes))"
proof -
  let ?x = "nodes ! i" and ?d = "grown d0 (take i nodes)"
  have suc: "grown d0 (take (Suc i) nodes) = ?d(?x \<mapsto> kind_of ?x)"
    using i by (auto simp: grown_def take_Suc_conv_app_nth fun_eq_iff)
  from tree_list_nth [OF tree i] have "parent_is_dir ?d ?x \<and> disk_closed (?d(?x \<mapsto> kind_of ?x))"
  proof
    assume x: "i = 0 \<and> ?x = path"
    with d have "parent_is_dir ?d ?x" by (auto simp: clean_disk_def grown_def)
    moreover have "disk_closed (?d(?x \<mapsto> kind_of ?x))"
      using d x unfolding clean_disk_def disk_closed_def by (auto simp: grown_def below_iff)
    ultimately show ?thesis ..
  next
    assume "has_parent (take i nodes) ?x"
    then obtain y where y: "y \<in> set (take i nodes)" "is_folder y" "entry_of y ?x" by (auto simp: has_parent_def)
    then have "?d y = Some Disk_Dir" by (simp add: grown_def kind_of_def)
    with y(3) disk_closed_add [OF closed y(3)] show ?thesis by (auto simp: parent_is_dir_def entry_of_def)
  qed
  with new show "create_node ?x ?d = Some (grown d0 (take (Suc i) nodes))" "disk_closed (grown d0 (take (Suc i) nodes))"
    unfolding suc by (auto simp: create_node_def create_dir_def create_file_def kind_of_def)
qed

lemma tree_list_below:
  assumes "tree_list path nodes" "i < length nodes"
  shows "below path (nodes ! i)"
  using assms(2)
proof (induction i rule: less_induct)
  case (less i)
  from tree_list_nth [OF assms(1) less.prems] show ?case
  proof
    assume "has_parent (take i nodes) (nodes ! i)"
    then obtain j where j: "j < i" "entry_of (nodes ! j) (nodes ! i)" using less.prems
      by (auto simp: has_parent_def in_set_conv_nth)
    with less have "below path (nodes ! j)" by simp
    with j(2) show ?thesis by (auto simp: below_iff entry_of_def)
  qed (auto simp: below_iff)
qed

lemma tree_list_fresh:
  assumes "tree_list path nodes" "clean_disk d0 path" "path \<noteq> []" "x \<in> set nodes"
  shows "d0 x = None"
  using assms tree_list_below [OF assms(1)] by (auto simp: clean_disk_def disk_closed_def in_set_conv_nth)

definition disk_inv :: "tree_disk \<Rightarrow> string list \<Rightarrow> ('r, 'c) file_tree \<Rightarrow> bool" where
  "disk_inv d0 nodes g \<longleftrightarrow> tree_nodes g = nodes \<and> disk_closed (tree_disk g) \<and> set (folders g) \<subseteq> set nodes \<and>
     (\<forall>p. p \<notin> set (replaced g) \<longrightarrow> tree_disk g p = grown d0 (take (node_index g) nodes) p) \<and>
     (\<forall>p \<in> set (replaced g). tree_disk g p = None \<or> p \<in> set nodes) \<and>
     (if node_index g = 0 then tree_disk g = d0 \<and> folders g = [] else tree_disk g (hd nodes) \<noteq> None)"

text \<open>As long as nothing was replaced, the next open finds its node or the parent of its node.\<close>

lemma open_next_ok:
  assumes tree: "tree_list path nodes" and d: "clean_disk d0 path" and inv: "disk_inv d0 nodes g" and "replaced g = []"
  shows "\<exists>g'. open_next True g = Some (Inr g')"
proof -
  let ?i = "node_index g" and ?n = "length nodes"
  let ?x = "nodes ! (?i mod ?n)"
  have nodes: "nodes \<noteq> []" "tree_nodes g = nodes" "tree_disk g = grown d0 (take ?i nodes)" "disk_closed (tree_disk g)"
    using tree inv assms(4) by (auto simp: tree_list_def disk_inv_def)
  have x: "?x \<in> set nodes" using nodes(1) by (simp add: mod_less_divisor)
  show ?thesis
  proof (cases "tree_disk g ?x = None")
    case True
    have i: "?i < ?n"
    proof (rule ccontr)
      assume "\<not> ?i < ?n"
      with True x nodes(3) show False by (simp add: grown_def)
    qed
    with True nodes have "grown d0 (take ?i nodes) (nodes ! ?i) = None" by simp
    from create_next(1) [OF tree d i _ this] nodes i True show ?thesis by (auto simp: open_next_def Let_def)
  qed (use nodes in \<open>simp add: open_next_def Let_def\<close>)
qed

lemma create_node_Some: "create_node x d = Some d' \<Longrightarrow> d' = d(x \<mapsto> kind_of x) \<and> parent_is_dir d x"
  by (auto simp: create_node_def create_dir_def create_file_def kind_of_def split: if_splits)

lemma create_closed:
  assumes tree: "tree_list path nodes" and d: "clean_disk d0 path" and inv: "disk_inv d0 nodes g"
    and x: "x = nodes ! (node_index g mod length nodes)" "tree_disk g x = None" "create_node x (tree_disk g) = Some d'"
  shows "disk_closed d'"
proof -
  let ?j = "node_index g mod length nodes"
  have hd: "hd nodes = path" "nodes \<noteq> []" using tree by (simp_all add: tree_list_def)
  have d': "d' = (tree_disk g)(x \<mapsto> kind_of x)" "parent_is_dir (tree_disk g) x" using create_node_Some [OF x(3)] by simp_all
  show ?thesis
  proof (cases "x = path")
    case True
    then have "tree_disk g = d0" using inv x(2) hd by (auto simp: disk_inv_def split: if_splits)
    with d True show ?thesis unfolding clean_disk_def disk_closed_def d'(1) by (auto simp: below_iff)
  next
    case False
    with tree_list_nth [OF tree, of ?j] hd x(1) obtain y where "entry_of y x" by (auto simp: has_parent_def)
    moreover from this d'(2) have "tree_disk g y \<noteq> None" by (auto simp: parent_is_dir_def entry_of_def)
    ultimately show ?thesis using disk_closed_add [of "tree_disk g" y x] inv unfolding d'(1) by (auto simp: disk_inv_def)
  qed
qed

lemma grown_next:
  assumes "nodes \<noteq> []" "x = nodes ! (i mod length nodes)"
  shows "p \<noteq> x \<Longrightarrow> grown d0 (take (Suc i) nodes) p = grown d0 (take i nodes) p" "grown d0 (take (Suc i) nodes) x = Some (kind_of x)"
proof -
  have in_nodes: "x \<in> set nodes" using assms by simp
  show "grown d0 (take (Suc i) nodes) p = grown d0 (take i nodes) p" if "p \<noteq> x"
    using that assms(2) by (cases "i < length nodes") (auto simp: grown_def take_Suc_conv_app_nth)
  show "grown d0 (take (Suc i) nodes) x = Some (kind_of x)"
    using in_nodes assms(2) by (cases "i < length nodes") (auto simp: grown_def take_Suc_conv_app_nth)
qed

lemma open_next_inv:
  assumes tree: "tree_list path nodes" and d: "clean_disk d0 path" and path: "path \<noteq> []" and inv: "disk_inv d0 nodes g"
    and nx: "open_next b g = Some (Inr g')"
  shows "disk_inv d0 nodes g'"
proof -
  let ?i = "node_index g"
  let ?x = "nodes ! (?i mod length nodes)"
  have nodes: "nodes \<noteq> []" "tree_nodes g = nodes" "hd nodes = path" using tree inv by (auto simp: tree_list_def disk_inv_def)
  have x: "?x \<in> set nodes" using nodes(1) by simp
  have first: "?x = hd nodes" if "?i = 0" using that nodes(1) by (simp add: hd_conv_nth)
  note grown = grown_next [where i = ?i and x = ?x and ?d0.0 = d0, OF nodes(1) refl]
  show ?thesis
  proof (cases "tree_disk g ?x = None")
    case True
    with nx nodes obtain d' where d': "create_node ?x (tree_disk g) = Some d'"
      and g': "g' = g\<lparr>node_index := Suc ?i, tree_disk := d', folders := folders g @ (if is_folder ?x then [?x] else [])\<rparr>"
      by (auto simp: open_next_def Let_def split: option.splits if_splits)
    from create_node_Some [OF d'] have "d' = (tree_disk g)(?x \<mapsto> kind_of ?x)" ..
    with inv create_closed [OF tree d inv refl True d'] x first grown nodes show ?thesis
      by (auto simp: disk_inv_def g' simp del: take_Suc split: if_splits)
  next
    case False
    with nx nodes have g': "g' = g\<lparr>node_index := Suc ?i\<rparr>" by (auto simp: open_next_def Let_def split: if_splits)
    have "?i \<noteq> 0" using False inv first nodes tree_list_fresh [OF tree d path x] by (auto simp: disk_inv_def split: if_splits)
    moreover have "tree_disk g ?x = Some (kind_of ?x)" if "?x \<notin> set (replaced g)"
    proof -
      have "tree_disk g ?x = grown d0 (take ?i nodes) ?x" using inv that by (simp add: disk_inv_def)
      with False tree_list_fresh [OF tree d path x] show ?thesis by (auto simp: grown_def split: if_splits)
    qed
    ultimately show ?thesis using inv grown by (auto simp: disk_inv_def g' simp del: take_Suc) metis
  qed
qed

lemma tree_list_dir_path:
  assumes "tree_list path nodes" "dir_path path" "x \<in> set nodes"
  shows "dir_path x"
  using assms tree_list_nth [OF assms(1)] by (auto simp: in_set_conv_nth has_parent_def entry_of_def)

text \<open>The drawn sibling of a folder is never the root itself, unless the folder is.\<close>

lemma drawn_not_root:
  assumes "tree_list path nodes" "dir_path path" "folder \<in> set nodes" "folder \<noteq> path" "path_parent folder = Some parent"
    and "rng_ok R" "1 \<le> len"
  shows "fst (run_state (rnd_node_name R parent len) s) \<noteq> path"
proof -
  obtain i where i: "i < length nodes" "folder = nodes ! i" using assms(3) by (auto simp: in_set_conv_nth)
  with tree_list_nth [OF assms(1) i(1)] assms(4,5) have y: "parent \<in> set nodes" by (auto simp: has_parent_def entry_of_def dest: in_set_takeD)
  then have "below path parent" using tree_list_below [OF assms(1)] by (auto simp: in_set_conv_nth)
  moreover have "entry_of parent (fst (run_state (rnd_node_name R parent len) s))"
    using rnd_node_name_entry [OF assms(6,7) tree_list_dir_path [OF assms(1,2) y]] by blast
  ultimately show ?thesis by (auto simp: below_iff entry_of_def)
qed

lemma rename_some_inv:
  assumes R: "rng_ok R" "1 \<le> tree_name_len g" and tree: "tree_list path nodes" "dir_path path"
    and inv: "disk_inv d0 nodes g" and ok: "rename_some R b1 b2 g = Inr g'"
  shows "disk_inv d0 nodes g' \<and> tree_name_len g' = tree_name_len g"
proof (cases "slice_choose R (folders g) (tree_rng g)")
  case (Pair choice s)
  show ?thesis
  proof (cases choice)
    case None
    with Pair inv ok show ?thesis by (auto simp: rename_some_def disk_inv_def)
  next
    case (Some folder)
    then have folder: "folder \<in> set nodes" "node_index g \<noteq> 0"
      using slice_choose_in [OF R(1)] Pair inv by (force simp: disk_inv_def slice_choose_def split: if_splits)+
    from Some Pair ok obtain d dir s' where d: "rename_folder R b1 b2 folder (tree_name_len g) (tree_disk g) s = (Inr (d, dir), s')"
        "g' = g\<lparr>tree_disk := d, tree_rng := s', replaced := replaced g @ (if dir \<noteq> folder \<and> tree_disk g dir \<noteq> None then [dir] else [])\<rparr>"
      by (auto simp: rename_some_def split: prod.splits sum.splits)
    then obtain parent d1 where d1: "path_parent folder = Some parent" "dir = fst (run_state (rnd_node_name R parent (tree_name_len g)) s)"
        "rename_dir folder dir (tree_disk g) = Some d1" "rename_dir dir folder d1 = Some d"
      by (auto simp: rename_folder_def split_beta Let_def split: option.splits if_splits)
    have ne: "dir \<noteq> []"
      using node_name_sample [OF R, of s] by (auto simp: d1(2) rnd_node_name_def split_beta Let_def path_join_def node_name_def)
    have closed: "disk_closed (tree_disk g)" using inv by (simp add: disk_inv_def)
    show ?thesis
    proof (cases "dir = folder")
      case True
      with d1(3,4) have "d = tree_disk g" by (auto simp: rename_dir_def split: if_splits)
      with True inv show ?thesis by (simp add: d(2) disk_inv_def)
    next
      case False
      note undone = rename_back [OF closed ne False d1(3,4)]
      have "dir \<noteq> hd nodes"
        using drawn_not_root [OF tree folder(1) _ d1(1) R, of s] False tree(1) unfolding d1(2) by (auto simp: tree_list_def)
      with undone inv folder(2) show ?thesis by (auto simp: d(2) disk_inv_def False)
    qed
  qed
qed

lemma open_next_len: "open_next b g = Some (Inr g') \<Longrightarrow> tree_name_len g' = tree_name_len g"
  by (auto simp: open_next_def Let_def split: if_splits option.splits)

lemma ft_loop_inv:
  assumes R: "rng_ok R" and tree: "tree_list path nodes" "clean_disk d0 path" "path \<noteq> []" "dir_path path"
  shows "ft_loop R clk es g = Some (r, g') \<Longrightarrow> 1 \<le> tree_name_len g \<Longrightarrow> disk_inv d0 nodes g \<Longrightarrow> disk_inv d0 nodes g'"
proof (induction es arbitrary: g)
  case (Cons e es)
  show ?case
  proof (cases e)
    case (Ft_Open b)
    then obtain t u where t: "throttle_wait clk (open_throttle g) = Some (u, t)" using Cons.prems by (auto split: option.splits)
    let ?g = "g\<lparr>open_throttle := t\<rparr>"
    have inv: "disk_inv d0 nodes ?g" using Cons.prems(3) by (simp add: disk_inv_def)
    show ?thesis
    proof (cases "\<exists>g1. open_next b ?g = Some (Inr g1)")
      case True
      then obtain g1 where g1: "open_next b ?g = Some (Inr g1)" ..
      then have "disk_inv d0 nodes g1" by (rule open_next_inv [OF tree(1-3) inv])
      moreover have "tree_name_len g1 = tree_name_len g" using open_next_len [OF g1] by simp
      ultimately show ?thesis using Cons Ft_Open t g1 by simp
    next
      case False
      with Cons.prems Ft_Open t show ?thesis by (auto split: option.splits sum.splits)
    qed
  next
    case (Ft_Rename b1 b2)
    then obtain t u where t: "throttle_wait clk (rename_throttle g) = Some (u, t)" using Cons.prems by (auto split: option.splits)
    let ?g = "g\<lparr>rename_throttle := t\<rparr>"
    have inv: "disk_inv d0 nodes ?g" "1 \<le> tree_name_len ?g" using Cons.prems(2,3) by (simp_all add: disk_inv_def)
    show ?thesis
    proof (cases "rename_some R b1 b2 ?g")
      case (Inr g1)
      from rename_some_inv [OF R inv(2) tree(1,4) inv(1) Inr] Cons Ft_Rename t Inr show ?thesis by simp
    qed (use Cons.prems Ft_Rename t in simp)
  qed (use Cons.prems in simp)
qed simp

text \<open>
  C38. What the file tree generator leaves on the disk. On a disk where the root does not exist and its
  ancestors do, whatever the order of opens and renames and however often a name is drawn twice, in every state
  it comes to before an operation fails: the disk holds its old contents and exactly the nodes the generator has
  come to, folders as directories and the rest as files, and a rename leaves no trace, except at the
  paths whose name a rename drew while they existed. Such a path, a sibling of the renamed folder, is an
  empty directory that the rename destroys (the comment in the code says that renaming twice keeps access working);
  it is gone unless it is a node that was created again. If no rename drew such a name, the
  next open succeeds when the disk works, since its node or the parent of its node is there.
\<close>

theorem file_tree_disk_contents:
  assumes "rng_ok R" "1 \<le> ft_name_len c" "dir_path (ft_root c)" "clean_disk d0 (ft_root c)"
    and "file_tree_new R c seed clk1 clk2 d0 = Some g0" "ft_loop R clk es g0 = Some (r, g)"
  shows "(\<forall>p. p \<notin> set (replaced g) \<longrightarrow> tree_disk g p = grown d0 (take (node_index g) (tree_nodes g)) p) \<and>
    (\<forall>p \<in> set (replaced g). tree_disk g p = None \<or> p \<in> set (tree_nodes g)) \<and>
    (replaced g = [] \<longrightarrow> (\<exists>g'. open_next True g = Some (Inr g')))"
proof -
  obtain nodes tf td s where gen: "ft_generate_tree R c seed = Some ((nodes, tf, td), s)" "tree_inv c ([], nodes, tf, td, s)"
    using ft_generate_tree_ok [OF assms(1-3)] by blast
  then have tree: "tree_list (ft_root c) nodes" by (auto simp: tree_inv_def tree_list_def)
  have path: "ft_root c \<noteq> []" using assms(3) by (simp add: dir_path_def)
  have g0: "disk_inv d0 nodes g0" "1 \<le> tree_name_len g0"
    using assms(2,4,5) gen by (auto simp: file_tree_new_def disk_inv_def grown_def clean_disk_def)
  have "disk_inv d0 nodes g" by (rule ft_loop_inv [OF assms(1) tree assms(4) path assms(3,6) g0(2,1)])
  then show ?thesis using open_next_ok [OF tree assms(4), of g] by (auto simp: disk_inv_def)
qed

text \<open>A tree of a folder and a file in it, which is opened, opened below, renamed and back, and opened again.\<close>

definition demo_tree :: ft_config where
  "demo_tree = \<lparr>ft_max_depth = 1, ft_max_sub_folders = 1, ft_max_files = 1, ft_max_nodes = 1, ft_name_len = 1, ft_root = ''/t'',
     ft_open_per_second = 8, ft_rename_per_second = 1, ft_throttle = Config_AllOut\<rparr>"

lemma demo_chars: "char_of (97 :: nat) = CHR ''a''" "char_of (99 :: nat) = CHR ''c''"
  by code_simp+

lemma demo_paths: "is_folder ''/t''" "\<not> is_folder ''/t/a.txt''" "set_extension ''/t/a'' ''txt'' = ''/t/a.txt''" "path_parent ''/t'' = Some ''/''" "path_parent ''/t/a.txt'' = Some ''/t''"
  "path_parent ''/c'' = Some ''/''"
  by code_simp+

lemma demo_tree_drawn: "ft_generate_tree counter_rng demo_tree 0 = Some (([''/t'', ''/t/a.txt''], 1, 0), 1)"
proof -
  have "loop (ft_pass counter_rng demo_tree) ([''/t''], [], 0, 0, 0) = loop (ft_pass counter_rng demo_tree) ([''/t/a.txt''], [''/t''], 1, 0, 1)"
    by (rule loop_Again) (simp add: ft_pass_def demo_paths demo_tree_def separators_def rnd_file_name_def rnd_node_name_def counter_rng_def
        path_join_def starts_with_def FILE_EXTENSION_def demo_chars)
  also have "\<dots> = loop (ft_pass counter_rng demo_tree) ([], [''/t'', ''/t/a.txt''], 1, 0, 1)"
    by (rule loop_Again) (simp add: ft_pass_def demo_paths)
  also have "\<dots> = Some (([''/t'', ''/t/a.txt''], 1, 0), 1)" by (rule loop_Break) (simp add: ft_pass_def)
  finally show ?thesis by (simp add: ft_generate_tree_def demo_tree_def)
qed

definition demo_events :: "ft_event list" where
  "demo_events = [Ft_Open True, Ft_Open True, Ft_Rename True True, Ft_Open True]"

lemma demo_tree_runs:
  assumes "file_tree_new counter_rng demo_tree 0 () () [''/'' \<mapsto> Disk_Dir] = Some g0"
  shows "\<exists>g. ft_loop counter_rng clk demo_events g0 = Some (Ft_Spinning, g) \<and> replaced g = [] \<and> node_index g = 3 \<and> tree_nodes g = [''/t'', ''/t/a.txt'']"
proof -
  have g0: "g0 = \<lparr>tree_name_len = 1, open_throttle = Throttle_AllOut, rename_throttle = Throttle_AllOut, tree_nodes = [''/t'', ''/t/a.txt''],
      tree_rng = 1, node_index = 0, folders = [], tree_disk = [''/'' \<mapsto> Disk_Dir], replaced = []\<rparr>"
    using assms demo_tree_drawn by (simp add: file_tree_new_def demo_tree_def new_with_config_def)
  show ?thesis
    by (simp add: g0 demo_events_def open_next_def create_node_def create_dir_def create_file_def parent_is_dir_def demo_paths rename_some_def
        slice_choose_def counter_rng_def rename_folder_def rnd_node_name_def path_join_def starts_with_def demo_chars rename_dir_def below_def Let_def)
qed

theorem file_tree_disk_contents_witness:
  "\<exists>g0 g. file_tree_new counter_rng demo_tree 0 () () [''/'' \<mapsto> Disk_Dir] = Some g0 \<and>
     ft_loop counter_rng \<lparr>ticks_elapsed = (\<lambda>c. Some (0, c)), clock_wait = (\<lambda>_ c. c)\<rparr> demo_events g0 = Some (Ft_Spinning, g) \<and>
     tree_disk g ''/t'' = Some Disk_Dir \<and> tree_disk g ''/t/a.txt'' = Some Disk_File \<and> (\<exists>g'. open_next True g = Some (Inr g'))"
proof -
  let ?clk = "\<lparr>ticks_elapsed = (\<lambda>c. Some (0, c)), clock_wait = (\<lambda>_ c. c)\<rparr> :: unit clock"
  have path: "1 \<le> ft_name_len demo_tree" "dir_path (ft_root demo_tree)" by (simp_all add: demo_tree_def dir_path_def)
  have low: "p @ CHR ''/'' # r \<noteq> ''/t'' \<and> p @ CHR ''/'' # r \<noteq> ''/''" if "p \<noteq> []" for p r :: string
  proof (cases p)
    case (Cons c p')
    then show ?thesis by (cases p') auto
  qed (use that in simp)
  have clean: "clean_disk [''/'' \<mapsto> Disk_Dir] (ft_root demo_tree)"
    unfolding clean_disk_def disk_closed_def below_iff
    by (auto simp: demo_tree_def parent_is_dir_def path_parent_def low low [THEN conjunct1, THEN not_sym] low [THEN conjunct2, THEN not_sym]
        split: if_splits)
  obtain g0 where g0: "file_tree_new counter_rng demo_tree 0 () () [''/'' \<mapsto> Disk_Dir] = Some g0"
    using demo_tree_drawn by (simp add: file_tree_new_def)
  obtain g where g: "ft_loop counter_rng ?clk demo_events g0 = Some (Ft_Spinning, g)" "replaced g = []" "node_index g = 3" "tree_nodes g = [''/t'', ''/t/a.txt'']"
    using demo_tree_runs [OF g0] by blast
  note disk = file_tree_disk_contents [OF counter_rng_ok path clean g0 g(1)]
  then have "tree_disk g = grown [''/'' \<mapsto> Disk_Dir] (take 3 [''/t'', ''/t/a.txt''])" by (auto simp: g)
  then have "tree_disk g ''/t'' = Some Disk_Dir" "tree_disk g ''/t/a.txt'' = Some Disk_File" by (simp_all add: grown_def kind_of_def demo_paths)
  with disk g0 g(1,2) show ?thesis by blast
qed

text \<open>
  A drawn name that is an empty sibling, on a concrete disk: the folder \<open>/t/a\<close> is renamed to \<open>/t/c\<close>, an empty
  folder, and back. The renames succeed, \<open>/t/c\<close> is gone, and creating a file below it fails, which
  ends the generator if that file is the next node.
\<close>

definition sibling_disk :: tree_disk where
  "sibling_disk = [''/'' \<mapsto> Disk_Dir, ''/t'' \<mapsto> Disk_Dir, ''/t/a'' \<mapsto> Disk_Dir, ''/t/c'' \<mapsto> Disk_Dir]"

theorem rename_destroys_empty_sibling:
  "\<exists>d. rename_folder counter_rng True True ''/t/a'' 1 sibling_disk 2 = (Inr (d, ''/t/c''), 3) \<and> d ''/t/a'' = Some Disk_Dir \<and>
     d ''/t/c'' = None \<and> create_node ''/t/c/x.txt'' d = None"
proof -
  have empty: "empty_dir sibling_disk ''/t/c''" by (auto simp: empty_dir_def sibling_disk_def below_def starts_with_def)
  have paths: "path_parent ''/t/a'' = Some ''/t''" "path_parent ''/t/c'' = Some ''/t''" "path_parent ''/t/c/x.txt'' = Some ''/t/c''" "\<not> is_folder ''/t/c/x.txt''"
    by code_simp+
  have draw: "run_state (rnd_node_name counter_rng ''/t'' 1) 2 = (''/t/c'', 3)"
    by (simp add: rnd_node_name_def counter_rng_def path_join_def starts_with_def demo_chars)
  let ?d = "\<lambda>p. if below ''/t/c'' p then sibling_disk (''/t/a'' @ drop (length ''/t/c'') p) else if below ''/t/a'' p then None else sibling_disk p"
  have first: "rename_dir ''/t/a'' ''/t/c'' sibling_disk = Some ?d"
    using empty by (simp add: rename_dir_def parent_is_dir_def paths) (simp add: sibling_disk_def below_def starts_with_def)
  let ?e = "\<lambda>p. if below ''/t/a'' p then ?d (''/t/c'' @ drop (length ''/t/a'') p) else if below ''/t/c'' p then None else ?d p"
  have "rename_dir ''/t/c'' ''/t/a'' ?d = Some ?e"
    by (simp add: rename_dir_def parent_is_dir_def paths) (simp add: sibling_disk_def below_def starts_with_def)
  with first have "rename_folder counter_rng True True ''/t/a'' 1 sibling_disk 2 = (Inr (?e, ''/t/c''), 3)"
    by (simp only: rename_folder_def paths draw option.case Let_def prod.case if_True)
  moreover have "?e ''/t/a'' = Some Disk_Dir" "?e ''/t/c'' = None" by (simp_all add: sibling_disk_def below_def starts_with_def)
  moreover from this(2) have "create_node ''/t/c/x.txt'' ?e = None" by (simp only: create_node_def create_file_def parent_is_dir_def paths) simp
  ultimately show ?thesis by blast
qed

end
