(* ===== verification/Observer_Memory.thy ===== *)
theory Observer_Memory
  imports Text
begin

text \<open>
  How the observer reads a target's memory (\<^verbatim>\<open>observer/linux/procfs/memory.rs\<close> and its modules
  \<^verbatim>\<open>smaps.rs\<close> and \<^verbatim>\<open>smaps_rollup.rs\<close>): tokens, the regions of \<^verbatim>\<open>/proc/{pid}/smaps\<close>, their sums by
  path name, and \<^verbatim>\<open>/proc/{pid}/smaps_rollup\<close>. The contents of a file are an argument; the texts of
  error messages are left out. Sums and products of 64-bit sizes wrap around where the code
  does not saturate, as they do in a release build.
\<close>

section \<open>Tokens\<close>

text \<open>The iterator over a line's characters is what is left of the line.\<close>

definition next_token :: "string \<Rightarrow> (string \<times> string) option" where
  "next_token s =
     (let s = dropWhile is_whitespace s
      in if s = [] then None
         else Some (takeWhile (\<lambda>c. \<not> is_whitespace c) s, dropWhile (\<lambda>c. \<not> is_whitespace c) s))"

lemma split_whitespace_token:
  "split_whitespace s = (case next_token s of None \<Rightarrow> [] | Some (t, rest) \<Rightarrow> t # split_whitespace rest)"
  by (subst split_whitespace.simps) (simp add: next_token_def Let_def)

definition BYTES_PER_KIBIBYTE :: nat where
  "BYTES_PER_KIBIBYTE = 1024"

datatype memory_error = Mem_Io | Mem_ParseInt | Mem_Parsing

definition wrapping_mul :: "nat \<Rightarrow> nat \<Rightarrow> nat \<Rightarrow> nat" where
  "wrapping_mul w a b = a * b mod 2 ^ w"

text \<open>A number and its unit, which has to be \<open>kB\<close>; \<open>smaps\<close> and \<open>smaps_rollup\<close> multiply differently.\<close>

definition value_in :: "(nat \<Rightarrow> nat \<Rightarrow> nat) \<Rightarrow> string \<Rightarrow> memory_error + nat" where
  "value_in mul rest =
     (case next_token rest of
        None \<Rightarrow> Inl Mem_Parsing
      | Some (value_token, rest) \<Rightarrow>
          (case next_token rest of
             None \<Rightarrow> Inl Mem_Parsing
           | Some (unit, rest) \<Rightarrow>
               (case parse_unsigned 64 value_token of
                  None \<Rightarrow> Inl Mem_ParseInt
                | Some numeric \<Rightarrow> if unit = ''kB'' then Inr (mul numeric BYTES_PER_KIBIBYTE) else Inl Mem_Parsing)))"

definition value_in_kibibytes :: "string \<Rightarrow> memory_error + nat" where
  "value_in_kibibytes = value_in (wrapping_mul 64)"

section \<open>Regions\<close>

record Region =
  r_pathname :: string
  r_size :: nat
  r_pss :: nat
  r_swap :: nat
  r_rss :: nat
  r_pss_dirty :: "nat option"
  r_shared_clean :: "nat option"
  r_shared_dirty :: "nat option"
  r_private_clean :: "nat option"
  r_private_dirty :: "nat option"
  r_referenced :: "nat option"
  r_anonymous :: "nat option"
  r_lazy_free :: "nat option"
  r_anon_huge_pages :: "nat option"
  r_shmem_pmd_mapped :: "nat option"
  r_file_pmd_mapped :: "nat option"
  r_shared_hugetlb :: "nat option"
  r_private_hugetlb :: "nat option"
  r_swap_pss :: "nat option"
  r_locked :: "nat option"

text \<open>The variables of \<open>from_str\<close> while it reads the first line.\<close>

record region_meta =
  m_start :: "nat option"
  m_end :: "nat option"
  m_perms :: "string option"
  m_offset :: "nat option"
  m_dev :: "string option"
  m_inode :: "nat option"
  m_pathname :: "string option"

definition no_meta :: region_meta where
  "no_meta = \<lparr>m_start = None, m_end = None, m_perms = None, m_offset = None, m_dev = None, m_inode = None, m_pathname = None\<rparr>"

definition meta_addresses :: "string \<Rightarrow> region_meta \<Rightarrow> memory_error + region_meta" where
  "meta_addresses token m =
     (if CHR ''-'' \<notin> set token then Inl Mem_Parsing
      else
        let start_str = takeWhile (\<lambda>c. c \<noteq> CHR ''-'') token; end_str = tl (dropWhile (\<lambda>c. c \<noteq> CHR ''-'') token) in
        case (from_str_radix 64 16 start_str, from_str_radix 64 16 end_str) of
          (Some a, Some b) \<Rightarrow> Inr (m\<lparr>m_start := Some a, m_end := Some b\<rparr>)
        | _ \<Rightarrow> Inl Mem_ParseInt)"

fun meta_loop :: "string list \<Rightarrow> region_meta \<Rightarrow> memory_error + region_meta" where
  "meta_loop [] m = Inr m"
| "meta_loop (token # tokens) m =
     (if m_start m = None \<and> m_end m = None then
        (case meta_addresses token m of Inl e \<Rightarrow> Inl e | Inr m \<Rightarrow> meta_loop tokens m)
      else if m_perms m = None then meta_loop tokens (m\<lparr>m_perms := Some token\<rparr>)
      else if m_offset m = None then
        (case from_str_radix 64 16 token of None \<Rightarrow> Inl Mem_ParseInt | Some n \<Rightarrow> meta_loop tokens (m\<lparr>m_offset := Some n\<rparr>))
      else if m_dev m = None then meta_loop tokens (m\<lparr>m_dev := Some token\<rparr>)
      else if m_inode m = None then
        (case parse_unsigned 64 token of None \<Rightarrow> Inl Mem_ParseInt | Some n \<Rightarrow> meta_loop tokens (m\<lparr>m_inode := Some n\<rparr>))
      else if m_pathname m = None then meta_loop tokens (m\<lparr>m_pathname := Some token\<rparr>)
      else Inr m)"

text \<open>The variables that the other lines fill, and which line fills which.\<close>

record region_values =
  v_rss :: "nat option"
  v_pss :: "nat option"
  v_size :: "nat option"
  v_swap :: "nat option"
  v_pss_dirty :: "nat option"
  v_shared_clean :: "nat option"
  v_shared_dirty :: "nat option"
  v_private_clean :: "nat option"
  v_private_dirty :: "nat option"
  v_referenced :: "nat option"
  v_anonymous :: "nat option"
  v_lazy_free :: "nat option"
  v_anon_huge_pages :: "nat option"
  v_shmem_pmd_mapped :: "nat option"
  v_file_pmd_mapped :: "nat option"
  v_shared_hugetlb :: "nat option"
  v_private_hugetlb :: "nat option"
  v_swap_pss :: "nat option"
  v_locked :: "nat option"

definition no_values :: region_values where
  "no_values =
     \<lparr>v_rss = None, v_pss = None, v_size = None, v_swap = None, v_pss_dirty = None, v_shared_clean = None, v_shared_dirty = None,
      v_private_clean = None, v_private_dirty = None, v_referenced = None, v_anonymous = None, v_lazy_free = None,
      v_anon_huge_pages = None, v_shmem_pmd_mapped = None, v_file_pmd_mapped = None, v_shared_hugetlb = None,
      v_private_hugetlb = None, v_swap_pss = None, v_locked = None\<rparr>"

definition value_fields :: "(string \<times> ((nat option \<Rightarrow> nat option) \<Rightarrow> region_values \<Rightarrow> region_values)) list" where
  "value_fields =
     [(''Rss:'', v_rss_update), (''Pss:'', v_pss_update), (''Size:'', v_size_update), (''Swap:'', v_swap_update),
      (''Pss_Dirty:'', v_pss_dirty_update), (''Shared_Clean:'', v_shared_clean_update), (''Shared_Dirty:'', v_shared_dirty_update),
      (''Private_Clean:'', v_private_clean_update), (''Private_Dirty:'', v_private_dirty_update),
      (''Referenced:'', v_referenced_update), (''Anonymous:'', v_anonymous_update), (''LazyFree:'', v_lazy_free_update),
      (''AnonHugePages:'', v_anon_huge_pages_update), (''ShmemPmdMapped:'', v_shmem_pmd_mapped_update),
      (''FilePmdMapped:'', v_file_pmd_mapped_update), (''Shared_Hugetlb:'', v_shared_hugetlb_update),
      (''Private_Hugetlb:'', v_private_hugetlb_update), (''SwapPss:'', v_swap_pss_update), (''Locked:'', v_locked_update)]"

definition value_line :: "string \<Rightarrow> region_values \<Rightarrow> memory_error + region_values" where
  "value_line line v =
     (case next_token line of
        None \<Rightarrow> Inr v
      | Some (name, rest) \<Rightarrow>
          (case map_of value_fields name of
             None \<Rightarrow> Inr v
           | Some upd \<Rightarrow> map_sum id (\<lambda>n. upd (\<lambda>_. Some n) v) (value_in_kibibytes rest)))"

fun value_lines :: "string list \<Rightarrow> region_values \<Rightarrow> memory_error + region_values" where
  "value_lines [] v = Inr v"
| "value_lines (line # lines) v = (case value_line line v of Inl e \<Rightarrow> Inl e | Inr v \<Rightarrow> value_lines lines v)"

definition region_of :: "string \<Rightarrow> nat \<Rightarrow> nat \<Rightarrow> nat \<Rightarrow> nat \<Rightarrow> region_values \<Rightarrow> Region" where
  "region_of pathname sz pss rss swap v =
     \<lparr>r_pathname = pathname, r_size = sz, r_pss = pss, r_swap = swap, r_rss = rss, r_pss_dirty = v_pss_dirty v,
      r_shared_clean = v_shared_clean v, r_shared_dirty = v_shared_dirty v, r_private_clean = v_private_clean v,
      r_private_dirty = v_private_dirty v, r_referenced = v_referenced v, r_anonymous = v_anonymous v,
      r_lazy_free = v_lazy_free v, r_anon_huge_pages = v_anon_huge_pages v, r_shmem_pmd_mapped = v_shmem_pmd_mapped v,
      r_file_pmd_mapped = v_file_pmd_mapped v, r_shared_hugetlb = v_shared_hugetlb v,
      r_private_hugetlb = v_private_hugetlb v, r_swap_pss = v_swap_pss v, r_locked = v_locked v\<rparr>"

definition region_from_str :: "string \<Rightarrow> memory_error + Region" where
  "region_from_str contents =
     (case text_lines contents of
        [] \<Rightarrow> Inl Mem_Parsing
      | metadata_line # lines \<Rightarrow>
          (case meta_loop (split_whitespace metadata_line) no_meta of
             Inl e \<Rightarrow> Inl e
           | Inr m \<Rightarrow>
               (case value_lines lines no_values of
                  Inl e \<Rightarrow> Inl e
                | Inr v \<Rightarrow>
                    (case (v_size v, v_pss v, v_rss v, v_swap v) of
                       (Some sz, Some pss, Some rss, Some swap) \<Rightarrow>
                         Inr (region_of (case m_pathname m of Some p \<Rightarrow> p | None \<Rightarrow> []) sz pss rss swap v)
                     | _ \<Rightarrow> Inl Mem_Parsing))))"

section \<open>The smaps file\<close>

text \<open>
  A region starts at the beginning of every line the regular expression matches: hexadecimal
  digits, a dash, a hexadecimal digit. What comes before the first is dropped.
\<close>

definition is_xdigit :: "char \<Rightarrow> bool" where
  "is_xdigit c \<longleftrightarrow> to_digit 16 c \<noteq> None"

definition region_start :: "string \<Rightarrow> bool" where
  "region_start line =
     (case dropWhile is_xdigit line of
        d # c # _ \<Rightarrow> line \<noteq> [] \<and> is_xdigit (hd line) \<and> d = CHR ''-'' \<and> is_xdigit c
      | _ \<Rightarrow> False)"

fun region_groups :: "string list \<Rightarrow> string list list" where
  "region_groups [] = []"
| "region_groups (l # ls) =
     (if region_start l then (l # takeWhile (\<lambda>l. \<not> region_start l) ls) # region_groups ls else region_groups ls)"

text \<open>
  The lines of the contents with their newlines, grouped: the last piece has none, and is empty when
  the contents end in a newline.
\<close>

definition split_inclusive :: "string \<Rightarrow> string list" where
  "split_inclusive s = (let parts = split_on newline s in map (\<lambda>l. l @ [newline]) (butlast parts) @ [last parts])"

definition into_region_strs :: "string \<Rightarrow> string list" where
  "into_region_strs contents = map concat (region_groups (split_inclusive contents))"

definition regions_from_str :: "string \<Rightarrow> memory_error + Region list" where
  "regions_from_str contents = collect_results (map region_from_str (into_region_strs contents))"

definition regions_from_pid :: "(int \<Rightarrow> string option) \<Rightarrow> int \<Rightarrow> memory_error + Region list" where
  "regions_from_pid smaps pid = (case smaps pid of None \<Rightarrow> Inl Mem_Io | Some contents \<Rightarrow> regions_from_str contents)"

section \<open>Sums by path name\<close>

record AggrMeasure =
  a_size :: nat
  a_pss :: nat
  a_swap :: nat
  a_rss :: nat
  a_pss_dirty :: "nat option"
  a_shared_clean :: "nat option"
  a_shared_dirty :: "nat option"
  a_private_clean :: "nat option"
  a_private_dirty :: "nat option"
  a_referenced :: "nat option"
  a_anonymous :: "nat option"
  a_lazy_free :: "nat option"
  a_anon_huge_pages :: "nat option"
  a_shmem_pmd_mapped :: "nat option"
  a_file_pmd_mapped :: "nat option"
  a_shared_hugetlb :: "nat option"
  a_private_hugetlb :: "nat option"
  a_swap_pss :: "nat option"
  a_locked :: "nat option"

definition no_measure :: AggrMeasure where
  "no_measure =
     \<lparr>a_size = 0, a_pss = 0, a_swap = 0, a_rss = 0, a_pss_dirty = None, a_shared_clean = None, a_shared_dirty = None,
      a_private_clean = None, a_private_dirty = None, a_referenced = None, a_anonymous = None, a_lazy_free = None,
      a_anon_huge_pages = None, a_shmem_pmd_mapped = None, a_file_pmd_mapped = None, a_shared_hugetlb = None,
      a_private_hugetlb = None, a_swap_pss = None, a_locked = None\<rparr>"

definition aggregate_option :: "nat option \<Rightarrow> nat option \<Rightarrow> nat option" where
  "aggregate_option aggregate val =
     (case val of
        None \<Rightarrow> aggregate
      | Some v \<Rightarrow> (case aggregate of Some a \<Rightarrow> Some (wrapping_add 64 a v) | None \<Rightarrow> Some v))"

definition add_region :: "Region \<Rightarrow> AggrMeasure \<Rightarrow> AggrMeasure" where
  "add_region r a =
     \<lparr>a_size = wrapping_add 64 (a_size a) (r_size r), a_pss = wrapping_add 64 (a_pss a) (r_pss r),
      a_swap = wrapping_add 64 (a_swap a) (r_swap r), a_rss = wrapping_add 64 (a_rss a) (r_rss r),
      a_pss_dirty = aggregate_option (a_pss_dirty a) (r_pss_dirty r),
      a_shared_clean = aggregate_option (a_shared_clean a) (r_shared_clean r),
      a_shared_dirty = aggregate_option (a_shared_dirty a) (r_shared_dirty r),
      a_private_clean = aggregate_option (a_private_clean a) (r_private_clean r),
      a_private_dirty = aggregate_option (a_private_dirty a) (r_private_dirty r),
      a_referenced = aggregate_option (a_referenced a) (r_referenced r),
      a_anonymous = aggregate_option (a_anonymous a) (r_anonymous r),
      a_lazy_free = aggregate_option (a_lazy_free a) (r_lazy_free r),
      a_anon_huge_pages = aggregate_option (a_anon_huge_pages a) (r_anon_huge_pages r),
      a_shmem_pmd_mapped = aggregate_option (a_shmem_pmd_mapped a) (r_shmem_pmd_mapped r),
      a_file_pmd_mapped = aggregate_option (a_file_pmd_mapped a) (r_file_pmd_mapped r),
      a_shared_hugetlb = aggregate_option (a_shared_hugetlb a) (r_shared_hugetlb r),
      a_private_hugetlb = aggregate_option (a_private_hugetlb a) (r_private_hugetlb r),
      a_swap_pss = aggregate_option (a_swap_pss a) (r_swap_pss r),
      a_locked = aggregate_option (a_locked a) (r_locked r)\<rparr>"

text \<open>The hash map's entries, of which the code takes a list in some order.\<close>

definition aggregate_by_pathname :: "Region list \<Rightarrow> (string \<rightharpoonup> AggrMeasure)" where
  "aggregate_by_pathname rs =
     fold (\<lambda>r acc. acc(r_pathname r \<mapsto> add_region r (case acc (r_pathname r) of Some a \<Rightarrow> a | None \<Rightarrow> no_measure))) rs Map.empty"

section \<open>The rollup\<close>

record Aggregator =
  ag_rss :: nat
  ag_pss :: nat

text \<open>
  \<open>to_snake_case\<close> of another crate is an argument. The gauges that are set are returned as a list of
  names and values, beside the aggregator as far as it got.
\<close>

definition rollup_line :: "(string \<Rightarrow> string) \<Rightarrow> string \<Rightarrow> Aggregator \<Rightarrow> memory_error + (string \<times> nat) option \<times> Aggregator" where
  "rollup_line to_snake_case line aggr =
     (case next_token line of
        None \<Rightarrow> Inr (None, aggr)
      | Some (name, rest) \<Rightarrow>
          (case value_in (saturating_mul 64) rest of
             Inl e \<Rightarrow> Inl e
           | Inr value_bytes \<Rightarrow>
               let fld = to_snake_case (butlast name);
                   aggr = (if fld = ''rss'' then aggr\<lparr>ag_rss := saturating_add 64 (ag_rss aggr) value_bytes\<rparr>
                           else if fld = ''pss'' then aggr\<lparr>ag_pss := saturating_add 64 (ag_pss aggr) value_bytes\<rparr>
                           else aggr)
               in Inr (Some (''smaps_rollup.'' @ fld, value_bytes), aggr)))"

fun rollup_lines ::
    "(string \<Rightarrow> string) \<Rightarrow> string list \<Rightarrow> Aggregator \<Rightarrow> (memory_error + unit) \<times> (string \<times> nat) list \<times> Aggregator" where
  "rollup_lines to_snake_case [] aggr = (Inr (), [], aggr)"
| "rollup_lines to_snake_case (line # lines) aggr =
     (case rollup_line to_snake_case line aggr of
        Inl e \<Rightarrow> (Inl e, [], aggr)
      | Inr (g, aggr) \<Rightarrow>
          (case rollup_lines to_snake_case lines aggr of
             (r, gs, aggr) \<Rightarrow> (r, (case g of None \<Rightarrow> gs | Some x \<Rightarrow> x # gs), aggr)))"

definition rollup_poll ::
    "(string \<Rightarrow> string) \<Rightarrow> (int \<Rightarrow> string option) \<Rightarrow> int \<Rightarrow> Aggregator \<Rightarrow> (memory_error + unit) \<times> (string \<times> nat) list \<times> Aggregator" where
  "rollup_poll to_snake_case rollup pid aggr =
     (case rollup pid of
        None \<Rightarrow> (Inl Mem_Io, [], aggr)
      | Some contents \<Rightarrow> rollup_lines to_snake_case (tl (text_lines contents)) aggr)"

section \<open>Reading what the kernel writes\<close>

text \<open>
  A region as the kernel prints it: addresses and offset in hexadecimal with at least eight digits,
  permissions, device and inode on the first line, then blanks up to a column and perhaps a path, which may
  have blanks itself; then lines with a name, a number and \<open>kB\<close>, then the lines of another form,
  \<open>THPeligible:\<close> and \<open>VmFlags:\<close>. How many blanks stand before the path (at least one) and before a number is
  not fixed; a line without a path may end in blanks.
\<close>

record smaps_entry =
  e_range :: "nat \<times> nat"
  e_perms :: string
  e_offset :: nat
  e_dev :: string
  e_inode :: nat
  e_pad :: nat
  e_path :: "string option"
  e_values :: "(string \<times> nat \<times> nat) list"
  e_others :: "string list"

definition blanks :: "nat \<Rightarrow> string" where
  "blanks k = replicate (Suc k) (CHR '' '')"

definition hex8 :: "nat \<Rightarrow> string" where
  "hex8 n = pad_left (CHR ''0'') 8 (show_radix 16 n)"

definition entry_words :: "smaps_entry \<Rightarrow> string list" where
  "entry_words e = [hex8 (fst (e_range e)) @ ''-'' @ hex8 (snd (e_range e)), e_perms e, hex8 (e_offset e), e_dev e, show_nat (e_inode e)]"

definition entry_tail :: "smaps_entry \<Rightarrow> string" where
  "entry_tail e = replicate (e_pad e) (CHR '' '') @ (case e_path e of None \<Rightarrow> [] | Some p \<Rightarrow> p)"

definition entry_header :: "smaps_entry \<Rightarrow> string" where
  "entry_header e = join (CHR '' '') (entry_words e) @ entry_tail e"

definition value_text :: "string \<times> nat \<times> nat \<Rightarrow> string" where
  "value_text = (\<lambda>(name, k, n). name @ blanks k @ show_nat n @ '' kB'')"

definition entry_lines :: "smaps_entry \<Rightarrow> string list" where
  "entry_lines e = entry_header e # map value_text (e_values e) @ e_others e"

definition smaps_text :: "smaps_entry list \<Rightarrow> string" where
  "smaps_text es = concat (map (\<lambda>l. l @ [newline]) (concat (map entry_lines es)))"

definition entry_values :: "smaps_entry \<Rightarrow> region_values" where
  "entry_values e =
     fold (\<lambda>(name, k, n) v. case map_of value_fields name of None \<Rightarrow> v | Some upd \<Rightarrow> upd (\<lambda>_. Some (n * 1024)) v) (e_values e) no_values"

text \<open>The path that is kept of an entry: its first word.\<close>

definition first_word :: "string \<Rightarrow> string" where
  "first_word = takeWhile (\<lambda>c. \<not> is_whitespace c)"

definition entry_region :: "smaps_entry \<Rightarrow> Region" where
  "entry_region e =
     (let v = entry_values e in
      region_of (case e_path e of Some p \<Rightarrow> first_word p | None \<Rightarrow> []) (the (v_size v)) (the (v_pss v)) (the (v_rss v)) (the (v_swap v)) v)"

definition entry_ok :: "smaps_entry \<Rightarrow> bool" where
  "entry_ok e \<longleftrightarrow>
     fst (e_range e) < 2 ^ 64 \<and> snd (e_range e) < 2 ^ 64 \<and> word (e_perms e) \<and> e_offset e < 2 ^ 64 \<and> word (e_dev e) \<and>
     e_inode e < 2 ^ 64 \<and> (\<forall>p. e_path e = Some p \<longrightarrow> plain p \<and> p \<noteq> [] \<and> \<not> is_whitespace (hd p) \<and> 0 < e_pad e) \<and>
     (\<forall>(name, k, n) \<in> set (e_values e). word name \<and> CHR ''-'' \<notin> set name \<and> n * 1024 < 2 ^ 64) \<and>
     {''Size:'', ''Pss:'', ''Rss:'', ''Swap:''} \<subseteq> fst ` set (e_values e) \<and>
     (\<forall>l \<in> set (e_others e). plain l \<and> l \<noteq> [] \<and> \<not> region_start (l @ [newline]) \<and>
        (case next_token l of None \<Rightarrow> True | Some (name, _) \<Rightarrow> map_of value_fields name = None))"

lemma space_whitespace [simp]: "is_whitespace (CHR '' '')"
  by (simp add: is_whitespace_def)

lemma next_token_word:
  assumes "word w" "rest = [] \<or> is_whitespace (hd rest)"
  shows "next_token (w @ rest) = Some (w, rest)" "next_token (blanks k @ w @ rest) = Some (w, rest)"
proof -
  have d: "dropWhile is_whitespace (w @ rest) = w @ rest" using assms(1) by (cases w) (auto simp: word_def)
  then have "dropWhile is_whitespace (blanks k @ w @ rest) = w @ rest" unfolding blanks_def by (induction k) simp_all
  with d assms take_word [of w rest]
  show "next_token (w @ rest) = Some (w, rest)" "next_token (blanks k @ w @ rest) = Some (w, rest)"
    by (simp_all add: next_token_def word_def)
qed

lemma value_text_read:
  assumes "n * 1024 < 2 ^ 64"
  shows "value_in_kibibytes (blanks k @ show_nat n @ '' kB'') = Inr (n * 1024)"
proof -
  have "n < 2 ^ 64" using assms by simp
  moreover have "next_token '' kB'' = Some (''kB'', [])"
    using next_token_word(2) [of "''kB''" "[]" 0] by (simp add: blanks_def word_def is_whitespace_def)
  ultimately show ?thesis
    using assms next_token_word(2) [of "show_nat n" "'' kB''" k]
    by (simp add: value_in_kibibytes_def value_in_def wrapping_mul_def BYTES_PER_KIBIBYTE_def)
qed

lemma value_line_text:
  assumes "word name" "n * 1024 < 2 ^ 64"
  shows "value_line (value_text (name, k, n)) v =
    Inr (case map_of value_fields name of None \<Rightarrow> v | Some upd \<Rightarrow> upd (\<lambda>_. Some (n * 1024)) v)"
  using value_text_read [OF assms(2)] next_token_word(1) [OF assms(1), of "blanks k @ show_nat n @ '' kB''"]
  by (auto simp: value_line_def value_text_def blanks_def split: option.splits)

lemma value_lines_text:
  assumes "\<forall>(name, k, n) \<in> set vs. word name \<and> n * 1024 < 2 ^ 64"
  shows "value_lines (map value_text vs) v =
    Inr (fold (\<lambda>(name, k, n) v. case map_of value_fields name of None \<Rightarrow> v | Some upd \<Rightarrow> upd (\<lambda>_. Some (n * 1024)) v) vs v)"
  using assms
proof (induction vs arbitrary: v)
  case (Cons x vs)
  then show ?case by (cases x) (simp add: value_line_text)
qed simp

lemma hex8_chars:
  assumes "c \<in> set (hex8 n)"
  shows "is_xdigit c \<and> \<not> is_whitespace c \<and> c \<noteq> CHR ''-'' \<and> c \<noteq> CHR ''+''"
proof -
  have zero: "is_xdigit (CHR ''0'')" "\<not> is_whitespace (CHR ''0'')" by (simp_all add: is_xdigit_def to_digit_def is_whitespace_def)
  have "is_xdigit c \<and> \<not> is_whitespace c \<and> c \<noteq> CHR ''-'' \<and> c \<noteq> CHR ''+''" if "c \<in> set (show_radix 16 n)"
  proof -
    obtain d where "d < 16" "c = radix_char d" using show_radix_chars [of 16 c n] \<open>c \<in> set (show_radix 16 n)\<close> by auto
    then show ?thesis using radix_char_word [of d] by (simp add: is_xdigit_def to_digit_radix_char)
  qed
  with zero assms show ?thesis by (auto simp: hex8_def pad_left_def)
qed

lemma hex8_nonempty [simp]: "hex8 n \<noteq> []"
  by (simp add: hex8_def pad_left_def)

lemma hex8_word [simp]: "word (hex8 n)"
  using hex8_chars by (auto simp: word_def list_all_iff)

lemma hex8_read [simp]: "n < 2 ^ 64 \<Longrightarrow> from_str_radix 64 16 (hex8 n) = Some n"
proof -
  assume "n < 2 ^ 64"
  moreover have "digits_in 16 0 (replicate k (CHR ''0'') @ s) = digits_in 16 0 s" for k s
    by (induction k) (simp_all add: to_digit_def)
  moreover have "hd (hex8 n) \<noteq> CHR ''+''" "hd (hex8 n) \<noteq> CHR ''-''" using hex8_chars [OF hd_in_set [OF hex8_nonempty]] by blast+
  ultimately show ?thesis using digits_in_show_radix [of 16 n] hex8_nonempty [of n] by (simp add: from_str_radix_def hex8_def pad_left_def)
qed

lemma entry_words_words: "entry_ok e \<Longrightarrow> \<forall>w \<in> set (entry_words e). word w"
proof -
  assume ok: "entry_ok e"
  have "word ''-''" by (simp add: word_def is_whitespace_def)
  then have "word (hex8 a @ ''-'' @ hex8 b)" for a b by (intro word_append) simp_all
  with ok show ?thesis by (simp add: entry_ok_def entry_words_def)
qed

lemma split_whitespace_join_rest:
  assumes "is_whitespace d" "\<forall>w \<in> set ws. word w" "rest = [] \<or> is_whitespace (hd rest)" "ws \<noteq> []"
  shows "split_whitespace (join d ws @ rest) = ws @ split_whitespace rest"
  using assms
proof (induction d ws rule: join.induct)
  case (3 d w v ws)
  then show ?case using split_whitespace_word [of w "d # join d (v # ws) @ rest"] by (simp add: split_whitespace_space)
qed (simp_all add: split_whitespace_word)

lemma split_whitespace_tail:
  assumes "entry_ok e"
  shows "\<exists>ws. split_whitespace (entry_tail e) = (case e_path e of None \<Rightarrow> [] | Some p \<Rightarrow> first_word p # ws)"
    and "entry_tail e = [] \<or> is_whitespace (hd (entry_tail e))"
proof -
  have pad: "split_whitespace (replicate k (CHR '' '') @ s) = split_whitespace s" for k s by (induction k) (simp_all add: split_whitespace_space)
  show "\<exists>ws. split_whitespace (entry_tail e) = (case e_path e of None \<Rightarrow> [] | Some p \<Rightarrow> first_word p # ws)"
  proof (cases "e_path e")
    case None
    with pad [of "e_pad e" "[]"] show ?thesis by (simp add: entry_tail_def)
  next
    case (Some p)
    then have p: "p \<noteq> []" "\<not> is_whitespace (hd p)" using assms by (simp_all add: entry_ok_def)
    then have "dropWhile is_whitespace p = p" by (cases p) auto
    with p Some pad [of "e_pad e" p] show ?thesis by (subst (asm) (2) split_whitespace.simps) (simp add: entry_tail_def first_word_def Let_def)
  qed
  show "entry_tail e = [] \<or> is_whitespace (hd (entry_tail e))"
    using assms by (cases "e_pad e") (auto simp: entry_tail_def entry_ok_def split: option.splits)
qed

lemma entry_meta:
  assumes "entry_ok e"
  shows "\<exists>m. meta_loop (split_whitespace (entry_header e)) no_meta = Inr m \<and> m_pathname m = map_option first_word (e_path e)"
proof -
  obtain ws where ws: "split_whitespace (entry_tail e) = (case e_path e of None \<Rightarrow> [] | Some p \<Rightarrow> first_word p # ws)"
    using split_whitespace_tail(1) [OF assms] by blast
  have "split_whitespace (entry_header e) = entry_words e @ split_whitespace (entry_tail e)"
    unfolding entry_header_def using split_whitespace_tail(2) [OF assms] entry_words_words [OF assms]
    by (intro split_whitespace_join_rest) (simp_all add: entry_words_def)
  moreover have "takeWhile (\<lambda>c. c \<noteq> CHR ''-'') (hex8 a @ CHR ''-'' # b) = hex8 a" for a b
    by (subst takeWhile_append2) (use hex8_chars in auto)
  moreover have "dropWhile (\<lambda>c. c \<noteq> CHR ''-'') (hex8 a @ CHR ''-'' # b) = CHR ''-'' # b" for a b
    by (subst dropWhile_append2) (use hex8_chars in auto)
  moreover have "meta_loop ws m = Inr m" if "m_start m \<noteq> None" "m_perms m \<noteq> None" "m_offset m \<noteq> None" "m_dev m \<noteq> None" "m_inode m \<noteq> None" "m_pathname m \<noteq> None" for m
    using that by (cases ws) auto
  ultimately show ?thesis
    using assms ws by (cases "e_path e") (simp_all add: entry_words_def entry_ok_def no_meta_def meta_addresses_def)
qed

definition value_step :: "string \<times> nat \<times> nat \<Rightarrow> region_values \<Rightarrow> region_values" where
  "value_step = (\<lambda>(name, k, n) v. case map_of value_fields name of None \<Rightarrow> v | Some upd \<Rightarrow> upd (\<lambda>_. Some (n * 1024)) v)"

lemma value_fields_keep:
  assumes "map_of value_fields name = Some upd"
  shows "v_size v \<noteq> None \<Longrightarrow> v_size (upd (\<lambda>_. Some x) v) \<noteq> None" "v_pss v \<noteq> None \<Longrightarrow> v_pss (upd (\<lambda>_. Some x) v) \<noteq> None"
    "v_rss v \<noteq> None \<Longrightarrow> v_rss (upd (\<lambda>_. Some x) v) \<noteq> None" "v_swap v \<noteq> None \<Longrightarrow> v_swap (upd (\<lambda>_. Some x) v) \<noteq> None"
  using map_of_SomeD [OF assms] unfolding value_fields_def
  by (simp only: list.set insert_iff empty_iff prod.inject, elim disjE conjE FalseE; simp)+

lemma value_fields_set:
  "map_of value_fields ''Size:'' = Some v_size_update" "map_of value_fields ''Pss:'' = Some v_pss_update"
  "map_of value_fields ''Rss:'' = Some v_rss_update" "map_of value_fields ''Swap:'' = Some v_swap_update"
  by (simp_all add: value_fields_def)

lemma value_step_sets:
  "v_size v \<noteq> None \<or> name = ''Size:'' \<Longrightarrow> v_size (value_step (name, k, n) v) \<noteq> None"
  "v_pss v \<noteq> None \<or> name = ''Pss:'' \<Longrightarrow> v_pss (value_step (name, k, n) v) \<noteq> None"
  "v_rss v \<noteq> None \<or> name = ''Rss:'' \<Longrightarrow> v_rss (value_step (name, k, n) v) \<noteq> None"
  "v_swap v \<noteq> None \<or> name = ''Swap:'' \<Longrightarrow> v_swap (value_step (name, k, n) v) \<noteq> None"
  unfolding value_step_def prod.case
  by (cases "map_of value_fields name"; elim disjE; (simp only: value_fields_set option.case value_fields_keep)?; simp add: value_fields_set value_fields_keep)+

lemma fold_value_sets:
  assumes "\<And>name k n v. get v \<noteq> None \<or> name = nm \<Longrightarrow> get (value_step (name, k, n) v) \<noteq> None"
    and "get v \<noteq> None \<or> nm \<in> fst ` set vs"
  shows "get (fold value_step vs v) \<noteq> None"
  using assms(2)
proof (induction vs arbitrary: v)
  case (Cons x vs)
  obtain name k n where x: "x = (name, k, n)" by (cases x)
  from Cons.prems have "(get v \<noteq> None \<or> name = nm) \<or> nm \<in> fst ` set vs" by (auto simp: x)
  with assms(1) [of v name k n] Cons.IH [of "value_step x v"] show ?case by (auto simp: x)
qed simp

lemma entry_values_set:
  assumes "entry_ok e"
  shows "v_size (entry_values e) \<noteq> None" "v_pss (entry_values e) \<noteq> None" "v_rss (entry_values e) \<noteq> None" "v_swap (entry_values e) \<noteq> None"
proof -
  have fold: "entry_values e = fold value_step (e_values e) no_values" by (simp add: entry_values_def value_step_def)
  have mem: "{''Size:'', ''Pss:'', ''Rss:'', ''Swap:''} \<subseteq> fst ` set (e_values e)" using assms by (simp add: entry_ok_def)
  show "v_size (entry_values e) \<noteq> None" unfolding fold
    by (rule fold_value_sets [where nm = "''Size:''"], erule value_step_sets) (use mem in simp)
  show "v_pss (entry_values e) \<noteq> None" unfolding fold
    by (rule fold_value_sets [where nm = "''Pss:''"], erule value_step_sets) (use mem in simp)
  show "v_rss (entry_values e) \<noteq> None" unfolding fold
    by (rule fold_value_sets [where nm = "''Rss:''"], erule value_step_sets) (use mem in simp)
  show "v_swap (entry_values e) \<noteq> None" unfolding fold
    by (rule fold_value_sets [where nm = "''Swap:''"], erule value_step_sets) (use mem in simp)
qed

lemma entry_lines_plain:
  assumes "entry_ok e"
  shows "\<forall>l \<in> set (entry_lines e). plain l"
proof -
  have "plain (join (CHR '' '') (entry_words e))"
    using entry_words_words [OF assms] by (intro plain_join) (auto simp: plain_word newline_def)
  moreover have "plain (entry_tail e)" using assms by (auto simp: entry_tail_def entry_ok_def plain_def newline_def split: option.splits)
  ultimately have "plain (entry_header e)" by (simp add: entry_header_def)
  moreover have "plain (value_text x)" if "x \<in> set (e_values e)" for x
  proof -
    obtain name k n where x: "x = (name, k, n)" by (cases x)
    have "word name" using that assms by (auto simp: entry_ok_def x)
    moreover have "plain (blanks k)" by (auto simp: plain_def blanks_def newline_def)
    ultimately show ?thesis by (simp add: x value_text_def plain_word) (simp add: newline_def)
  qed
  moreover have "\<forall>l \<in> set (e_others e). plain l" using assms by (simp add: entry_ok_def)
  ultimately show ?thesis by (auto simp: entry_lines_def)
qed

lemma value_lines_others:
  "\<forall>l \<in> set ls. case next_token l of None \<Rightarrow> True | Some (name, _) \<Rightarrow> map_of value_fields name = None \<Longrightarrow> value_lines ls v = Inr v"
  by (induction ls) (auto simp: value_line_def split: option.splits)

lemma value_lines_append:
  "value_lines (ls @ ls') v = (case value_lines ls v of Inl e \<Rightarrow> Inl e | Inr v \<Rightarrow> value_lines ls' v)"
  by (induction ls arbitrary: v) (simp_all split: sum.splits)

lemma region_entry:
  assumes "entry_ok e" "text_lines s = entry_lines e"
  shows "region_from_str s = Inr (entry_region e)"
proof -
  obtain m where "meta_loop (split_whitespace (entry_header e)) no_meta = Inr m" "m_pathname m = map_option first_word (e_path e)"
    using entry_meta [OF assms(1)] by blast
  moreover have "value_lines (map value_text (e_values e)) no_values = Inr (entry_values e)"
    unfolding entry_values_def using assms by (intro value_lines_text) (auto simp: entry_ok_def)
  moreover have "value_lines (e_others e) (entry_values e) = Inr (entry_values e)"
    using assms by (intro value_lines_others) (simp add: entry_ok_def)
  ultimately show ?thesis
    using entry_values_set [OF assms(1)] assms(2)
    by (cases "e_path e") (auto simp: region_from_str_def entry_lines_def entry_region_def value_lines_append Let_def)
qed

lemma region_start_entry: "region_start (entry_header e @ rest)"
proof -
  let ?a = "hex8 (fst (e_range e))" and ?b = "hex8 (snd (e_range e))"
  obtain rest' where line: "entry_header e @ rest = ?a @ ''-'' @ ?b @ rest'"
    by (simp add: entry_header_def entry_words_def)
  have dash: "\<not> is_xdigit (CHR ''-'')" by (simp add: is_xdigit_def to_digit_def)
  have "dropWhile is_xdigit (?a @ ''-'' @ ?b @ rest') = ''-'' @ ?b @ rest'"
    using hex8_chars dash by (subst dropWhile_append2) auto
  moreover have "is_xdigit (hd ?a)" using hex8_chars [OF hd_in_set [OF hex8_nonempty]] by blast
  moreover obtain c cs where b: "?b = c # cs" by (cases ?b) simp_all
  moreover from b have "is_xdigit c" using hex8_chars [of c "snd (e_range e)"] by simp
  ultimately show ?thesis unfolding line by (simp add: region_start_def)
qed

lemma region_start_append: "region_start l \<Longrightarrow> region_start (l @ rest)"
proof -
  assume l: "region_start l"
  then obtain d c cs where d: "dropWhile is_xdigit l = d # c # cs" by (auto simp: region_start_def split: list.splits)
  then obtain x where "x \<in> set l" "\<not> is_xdigit x" by (metis list.distinct(1) dropWhile_eq_Nil_conv)
  then have "dropWhile is_xdigit (l @ rest) = dropWhile is_xdigit l @ rest" by (rule dropWhile_append1)
  with l d show ?thesis by (auto simp: region_start_def)
qed

lemma region_start_value:
  assumes "word name" "CHR ''-'' \<notin> set name"
  shows "\<not> region_start (value_text (name, k, n) @ [newline])"
proof
  assume start: "region_start (value_text (name, k, n) @ [newline])"
  have line: "value_text (name, k, n) @ [newline] = name @ CHR '' '' # replicate k (CHR '' '') @ show_nat n @ '' kB'' @ [newline]"
    by (simp add: value_text_def blanks_def)
  have space: "\<not> is_xdigit (CHR '' '')" by (simp add: is_xdigit_def to_digit_def)
  have head: "hd (dropWhile is_xdigit (name @ CHR '' '' # rest)) \<in> insert (CHR '' '') (set name)" for rest
    using space by (induction name) auto
  have "CHR ''-'' \<notin> insert (CHR '' '') (set name)" using assms(2) by simp
  with head have "hd (dropWhile is_xdigit (value_text (name, k, n) @ [newline])) \<noteq> CHR ''-''" unfolding line by metis
  with start show False by (simp add: region_start_def split: list.splits)
qed

lemma region_groups_skip: "\<forall>l \<in> set ls. \<not> region_start l \<Longrightarrow> region_groups (ls @ rest) = region_groups rest"
  by (induction ls) simp_all

text \<open>The groups, where \<open>t\<close> is what follows the last newline.\<close>

lemma region_groups_entries:
  assumes "\<forall>g \<in> set gs. region_start (fst g) \<and> (\<forall>l \<in> set (snd g). \<not> region_start l)" "\<not> region_start t" "gs \<noteq> []"
  shows "map concat (region_groups (concat (map (\<lambda>(h, b). h # b) gs) @ [t])) =
    map (\<lambda>(h, b). concat (h # b)) (butlast gs) @ [(case last gs of (h, b) \<Rightarrow> concat (h # b)) @ t]"
  using assms
proof (induction gs)
  case (Cons g gs)
  obtain h b where g: "g = (h, b)" by (cases g)
  show ?case
  proof (cases gs)
    case Nil
    with Cons.prems show ?thesis by (simp add: g takeWhile_append2 region_groups_skip)
  next
    case (Cons g' gs')
    have "concat (takeWhile (\<lambda>l. \<not> region_start l) (b @ concat (map (\<lambda>(h, b). h # b) gs) @ [t])) = concat b"
      using Cons.prems Cons by (cases g') (simp add: g takeWhile_append2)
    moreover have "region_groups (b @ concat (map (\<lambda>(h, b). h # b) gs) @ [t]) = region_groups (concat (map (\<lambda>(h, b). h # b) gs) @ [t])"
      using Cons.prems by (intro region_groups_skip) (simp add: g)
    ultimately show ?thesis using Cons.IH Cons.prems Cons by (simp add: g)
  qed
qed simp

lemma split_on_rest: "\<forall>l \<in> set ls. d \<notin> set l \<Longrightarrow> d \<notin> set t \<Longrightarrow> split_on d (concat (map (\<lambda>l. l @ [d]) ls) @ t) = ls @ [t]"
  by (induction ls) simp_all

lemma text_lines_rest:
  assumes "\<forall>l \<in> set (ls @ [t]). plain l" "t \<noteq> []"
  shows "text_lines (concat (map (\<lambda>l. l @ [newline]) ls) @ t) = ls @ [t]"
proof -
  have "strip_cr l = l" if "l \<in> set ls" for l
    using assms(1) that last_in_set [of l] unfolding strip_cr_def plain_def by (metis Un_iff set_append)
  then have "map strip_cr ls = ls" by (simp add: map_idI)
  with assms show ?thesis by (simp add: text_lines_def split_on_rest plain_def)
qed

definition entry_text :: "smaps_entry \<Rightarrow> string" where
  "entry_text e = concat (map (\<lambda>l. l @ [newline]) (entry_lines e))"

lemma entry_lines_last:
  assumes "entry_ok e" "entry_lines e = ls @ [t]"
  shows "map value_text (e_values e) @ e_others e = tl ls @ [t]" "ls = entry_header e # tl ls"
  using assms by (cases ls; auto simp: entry_lines_def entry_ok_def)+

lemma entry_lines_start:
  assumes "entry_ok e" "l \<in> set (map value_text (e_values e) @ e_others e)"
  shows "\<not> region_start (l @ [newline])" "\<not> region_start l" "l \<noteq> []"
proof -
  have "\<not> region_start (l @ [newline]) \<and> l \<noteq> []"
  proof (cases "l \<in> set (e_others e)")
    case True
    with assms(1) show ?thesis by (simp add: entry_ok_def)
  next
    case False
    with assms(2) obtain name k n where x: "(name, k, n) \<in> set (e_values e)" "l = value_text (name, k, n)" by auto
    then have "word name" "CHR ''-'' \<notin> set name" using assms(1) by (auto simp: entry_ok_def)
    from region_start_value [OF this] show ?thesis by (simp add: x(2)) (simp add: value_text_def)
  qed
  then show "\<not> region_start (l @ [newline])" "\<not> region_start l" "l \<noteq> []" using region_start_append by auto
qed

text \<open>An entry's lines as one group: the header and the rest, with their newlines.\<close>

definition entry_group :: "smaps_entry \<Rightarrow> string \<times> string list" where
  "entry_group e = (entry_header e @ [newline], map (\<lambda>l. l @ [newline]) (map value_text (e_values e) @ e_others e))"

lemma entry_group_facts:
  "entry_ok e \<Longrightarrow> region_start (fst (entry_group e)) \<and> (\<forall>l \<in> set (snd (entry_group e)). \<not> region_start l)"
  "(case entry_group e of (h, b) \<Rightarrow> h # b) = map (\<lambda>l. l @ [newline]) (entry_lines e)"
  "(case entry_group e of (h, b) \<Rightarrow> concat (h # b)) = entry_text e"
  using entry_lines_start(1) [of e] by (auto simp: entry_group_def region_start_entry entry_lines_def entry_text_def)

lemma into_region_strs_entries:
  assumes "\<forall>e \<in> set es. entry_ok e" "entry_ok e" "entry_lines e = ls @ [t]"
  shows "into_region_strs (smaps_text (es @ [e])) = map entry_text (es @ [e])"
    and "into_region_strs (butlast (smaps_text (es @ [e]))) = map entry_text es @ [butlast (entry_text e)]"
proof -
  let ?nl = "\<lambda>l. l @ [newline]"
  note body = entry_lines_last [OF assms(2,3)]
  have all: "\<forall>l \<in> set (concat (map entry_lines (es @ [e]))). newline \<notin> set l"
    using assms(1,2) entry_lines_plain by (auto simp: plain_def)
  have heads: "concat (map (\<lambda>(h, b). h # b) (map entry_group es)) = map ?nl (concat (map entry_lines es))" for es
    by (simp add: map_concat comp_def entry_group_facts(2))
  have groups: "map (\<lambda>(h, b). concat (h # b)) (map entry_group es) = map entry_text es" for es
    by (simp only: map_map comp_def entry_group_facts(3))
  have cut: "butlast (smaps_text (es @ [e])) = concat (map ?nl (concat (map entry_lines es) @ ls)) @ t"
    by (simp add: smaps_text_def assms(3) butlast_append)
  have t: "newline \<notin> set t" "\<not> region_start t" using all assms(3) entry_lines_start(2) [OF assms(2), of t] body(1) by auto
  have "split_inclusive (smaps_text (es @ [e])) = concat (map (\<lambda>(h, b). h # b) (map entry_group (es @ [e]))) @ [[]]"
    using split_on_lines [OF all] unfolding smaps_text_def heads by (simp add: split_inclusive_def butlast_append)
  moreover have "\<forall>g \<in> set (map entry_group (es @ [e])). region_start (fst g) \<and> (\<forall>l \<in> set (snd g). \<not> region_start l)" "\<not> region_start []"
    using entry_group_facts(1) assms(1,2) by auto (simp add: region_start_def)
  ultimately show "into_region_strs (smaps_text (es @ [e])) = map entry_text (es @ [e])"
    using region_groups_entries [of "map entry_group (es @ [e])" "[]"] groups [of es] entry_group_facts(3) [of e]
    by (simp only: into_region_strs_def, simp add: butlast_append)
  let ?gs = "map entry_group es @ [(?nl (entry_header e), map ?nl (tl ls))]"
  have ls: "?nl (entry_header e) # map ?nl (tl ls) = map ?nl ls" by (subst (2) body(2)) simp
  have "split_inclusive (butlast (smaps_text (es @ [e]))) = concat (map (\<lambda>(h, b). h # b) ?gs) @ [t]"
    using split_on_rest [of "concat (map entry_lines es) @ ls" newline t] all t(1) assms(3) heads [of es] ls unfolding cut
    by (simp add: split_inclusive_def butlast_append)
  moreover have "\<forall>g \<in> set ?gs. region_start (fst g) \<and> (\<forall>l \<in> set (snd g). \<not> region_start l)"
    using entry_group_facts(1) assms(1) entry_lines_start(1) [OF assms(2)] body(1) by (auto simp: region_start_entry)
  ultimately have "into_region_strs (butlast (smaps_text (es @ [e]))) = map entry_text es @ [concat (?nl (entry_header e) # map ?nl (tl ls)) @ t]"
    using region_groups_entries [of ?gs t] t(2) groups [of es] by (simp add: into_region_strs_def)
  then show "into_region_strs (butlast (smaps_text (es @ [e]))) = map entry_text es @ [butlast (entry_text e)]"
    unfolding ls by (simp add: entry_text_def assms(3) butlast_append)
qed

lemma regions_entries:
  assumes "\<forall>e \<in> set es. entry_ok e"
  shows "regions_from_str (smaps_text es) = Inr (map entry_region es)" "regions_from_str (butlast (smaps_text es)) = Inr (map entry_region es)"
proof -
  have "regions_from_str (smaps_text es) = Inr (map entry_region es) \<and> regions_from_str (butlast (smaps_text es)) = Inr (map entry_region es)"
  proof (cases es rule: rev_cases)
    case Nil
    then show ?thesis by (simp add: smaps_text_def regions_from_str_def into_region_strs_def split_inclusive_def region_start_def collect_results_Inr [of "[]", simplified])
  next
    case (snoc ds e)
    then have ok: "\<forall>e \<in> set ds. entry_ok e" "entry_ok e" using assms by auto
    obtain ls t where lt: "entry_lines e = ls @ [t]" by (metis entry_lines_def list.distinct(1) rev_exhaust)
    have read: "region_from_str (entry_text d) = Inr (entry_region d)" if "entry_ok d" for d
      using region_entry [OF that] text_lines_lines entry_lines_plain [OF that] by (simp add: entry_text_def plain_def)
    have "t \<noteq> []" using entry_lines_start(3) [OF ok(2), of t] entry_lines_last(1) [OF ok(2) lt] by simp
    then have "text_lines (butlast (entry_text e)) = entry_lines e"
      using text_lines_rest [of ls t] entry_lines_plain [OF ok(2)] by (simp add: lt entry_text_def butlast_append)
    from region_entry [OF ok(2) this] have last: "region_from_str (butlast (entry_text e)) = Inr (entry_region e)" .
    have "map region_from_str (map entry_text (ds @ [e])) = map Inr (map entry_region (ds @ [e]))"
      "map region_from_str (map entry_text ds @ [butlast (entry_text e)]) = map Inr (map entry_region (ds @ [e]))"
      using ok read last by simp_all
    then show ?thesis
      unfolding snoc regions_from_str_def into_region_strs_entries [OF ok lt] by (simp only: collect_results_Inr)
  qed
  then show "regions_from_str (smaps_text es) = Inr (map entry_region es)" "regions_from_str (butlast (smaps_text es)) = Inr (map entry_region es)" by simp_all
qed

section \<open>What the sums are\<close>

lemma aggregate_fold:
  "fold (\<lambda>r acc. acc(r_pathname r \<mapsto> add_region r (case acc (r_pathname r) of Some a \<Rightarrow> a | None \<Rightarrow> no_measure))) rs acc p =
     (let qs = filter (\<lambda>r. r_pathname r = p) rs
      in if qs = [] then acc p else Some (fold add_region qs (case acc p of Some a \<Rightarrow> a | None \<Rightarrow> no_measure)))"
proof (induction rs arbitrary: acc)
  case (Cons r rs)
  then show ?case by (cases "r_pathname r = p") (simp_all add: Let_def)
qed simp

lemma aggregate_by_pathname_filter:
  "aggregate_by_pathname rs p =
     (let qs = filter (\<lambda>r. r_pathname r = p) rs in if qs = [] then None else Some (fold add_region qs no_measure))"
  unfolding aggregate_by_pathname_def aggregate_fold by (simp add: Let_def)

lemma fold_add_region:
  "a_size (fold add_region rs a) mod 2 ^ 64 = (a_size a + sum_list (map r_size rs)) mod 2 ^ 64"
  "a_pss (fold add_region rs a) mod 2 ^ 64 = (a_pss a + sum_list (map r_pss rs)) mod 2 ^ 64"
  "a_swap (fold add_region rs a) mod 2 ^ 64 = (a_swap a + sum_list (map r_swap rs)) mod 2 ^ 64"
  "a_rss (fold add_region rs a) mod 2 ^ 64 = (a_rss a + sum_list (map r_rss rs)) mod 2 ^ 64"
  by (induction rs arbitrary: a) (simp_all add: add_region_def wrapping_add_def mod_simps add.assoc)

lemma add_region_small:
  "a_size (add_region r a) < 2 ^ 64" "a_pss (add_region r a) < 2 ^ 64" "a_swap (add_region r a) < 2 ^ 64" "a_rss (add_region r a) < 2 ^ 64"
  by (simp_all add: add_region_def wrapping_add_def)

lemma fold_add_region_small:
  assumes "a_size a < 2 ^ 64" "a_pss a < 2 ^ 64" "a_swap a < 2 ^ 64" "a_rss a < 2 ^ 64"
  shows "a_size (fold add_region rs a) < 2 ^ 64" "a_pss (fold add_region rs a) < 2 ^ 64"
    "a_swap (fold add_region rs a) < 2 ^ 64" "a_rss (fold add_region rs a) < 2 ^ 64"
  using assms add_region_small by (induction rs arbitrary: a) simp_all

lemma fold_add_region_sums:
  "a_size (fold add_region rs no_measure) = sum_list (map r_size rs) mod 2 ^ 64"
  "a_pss (fold add_region rs no_measure) = sum_list (map r_pss rs) mod 2 ^ 64"
  "a_swap (fold add_region rs no_measure) = sum_list (map r_swap rs) mod 2 ^ 64"
  "a_rss (fold add_region rs no_measure) = sum_list (map r_rss rs) mod 2 ^ 64"
  using fold_add_region [of rs no_measure] fold_add_region_small [of no_measure rs] by (simp_all add: no_measure_def)


text \<open>A region as in a listing of a kernel, with a path whose last word says that the file is deleted.\<close>

definition example_entry :: "nat \<Rightarrow> string \<Rightarrow> smaps_entry" where
  "example_entry n path =
     \<lparr>e_range = (140736045010944 + 4096 * n, 140736045015040 + 4096 * n), e_perms = ''r-xp'', e_offset = 0, e_dev = ''08:01'', e_inode = 42,
      e_pad = 22, e_path = Some path,
      e_values = [(''Size:'', 17, 4), (''KernelPageSize:'', 7, 4), (''Rss:'', 18, n), (''Pss:'', 18, 1), (''Swap:'', 17, 0), (''Locked:'', 15, 2)],
      e_others = [''THPeligible:           0'', ''VmFlags:               rd ex mr'']\<rparr>"


end
