(* ===== verification/Observer.thy ===== *)
theory Observer
  imports Observer_Cpu Observer_Memory
begin

text \<open>
  The observer (\<^verbatim>\<open>observer.rs\<close>, \<^verbatim>\<open>observer/linux.rs\<close>, \<^verbatim>\<open>observer/linux/procfs.rs\<close> and
  \<^verbatim>\<open>observer/linux/cgroup.rs\<close>): it walks the tree of processes below the target and samples each, and
  the control groups they are in. What the \<open>procfs\<close> crate reports, the iteration order of a hash map
  and \<open>to_snake_case\<close> are arguments; a poll sees one state of the machine. Log lines are left out.
\<close>

section \<open>Processes\<close>

record vm_status =
  tgid :: int
  vmrss :: "nat option"
  rssanon :: "nat option"
  rssfile :: "nat option"
  rssshmem :: "nat option"
  vmdata :: "nat option"
  vmstk :: "nat option"
  vmexe :: "nat option"
  vmlib :: "nat option"

text \<open>
  \<open>is_process\<close> is whether \<open>Process::new\<close> succeeds, \<open>children_of\<close> the children of all the threads of a
  process that can be read, \<open>status_of\<close> what \<open>Process::status\<close> returns.
\<close>

record machine =
  files :: host
  is_process :: "int \<Rightarrow> bool"
  children_of :: "int \<Rightarrow> nat list"
  status_of :: "int \<Rightarrow> vm_status option"
  read_link :: "string \<Rightarrow> string option"
  hash_order :: "string list \<Rightarrow> string list"
  to_snake_case :: "string \<Rightarrow> string"

datatype observer_error = Ob_Errno | Ob_Io | Ob_Proc | Ob_Uptime uptime_error

record ProcessInfo =
  pi_cmdline :: string
  pi_exe :: string
  pi_comm :: string
  pi_pid_s :: string
  pi_stat_sampler :: stat_sampler

record proc_sampler =
  parent :: int
  process_info :: "int \<rightharpoonup> ProcessInfo"

definition proc_sampler_new :: "machine \<Rightarrow> int \<Rightarrow> observer_error + proc_sampler" where
  "proc_sampler_new h parent_pid =
     (if is_process h parent_pid then Inr \<lparr>parent = parent_pid, process_info = Map.empty\<rparr> else Inl Ob_Proc)"

text \<open>\<open>c as i32\<close> for a \<open>u32\<close>.\<close>

definition as_i32 :: "nat \<Rightarrow> int" where
  "as_i32 c = (let c = c mod 2 ^ 32 in if c < 2 ^ 31 then int c else int c - 2 ^ 32)"

definition live_children :: "machine \<Rightarrow> int \<Rightarrow> int list" where
  "live_children h p = filter (is_process h) (map as_i32 (children_of h p))"

text \<open>The back of the deque is the head of the list; the hash set is the list of its elements.\<close>

fun push_children :: "int list \<Rightarrow> int list \<Rightarrow> int list \<Rightarrow> int list \<times> int list" where
  "push_children [] processes pids = (processes, pids)"
| "push_children (c # cs) processes pids =
     (if c \<in> set pids then push_children cs processes pids else push_children cs (c # processes) (c # pids))"

definition proc_comm :: "machine \<Rightarrow> int \<Rightarrow> string option" where
  "proc_comm h pid = map_option trim (read_to_string (files h) (proc_path pid ''comm''))"

definition proc_exe :: "machine \<Rightarrow> int \<Rightarrow> string option" where
  "proc_exe h pid =
     map_option (\<lambda>exe. case file_name exe of Some basename \<Rightarrow> basename | None \<Rightarrow> []) (read_link h (proc_path pid ''exe''))"

definition proc_cmdline :: "machine \<Rightarrow> int \<Rightarrow> string option" where
  "proc_cmdline h pid =
     map_option
       (\<lambda>buf. let parts = filter (\<lambda>s. s \<noteq> []) (split_on (CHR 0x00) buf) in if parts = [] then ''zombie'' else join (CHR '' '') parts)
       (read_to_string (files h) (proc_path pid ''cmdline''))"

definition new_info :: "machine \<Rightarrow> int \<Rightarrow> ProcessInfo option" where
  "new_info h pid =
     Option.bind (proc_exe h pid) (\<lambda>exe.
     Option.bind (proc_comm h pid) (\<lambda>comm.
     Option.bind (proc_cmdline h pid) (\<lambda>cmdline.
       Some \<lparr>pi_cmdline = cmdline, pi_exe = exe, pi_comm = comm, pi_pid_s = show_int pid,
             pi_stat_sampler = stat_sampler_new (files h)\<rparr>)))"

definition info_labels :: "ProcessInfo \<Rightarrow> labels" where
  "info_labels i = [(''pid'', pi_pid_s i), (''exe'', pi_exe i), (''cmdline'', pi_cmdline i), (''comm'', pi_comm i)]"

definition optional_gauges :: "labels \<Rightarrow> (string \<times> nat option) list \<Rightarrow> gauge list" where
  "optional_gauges ls flds = List.map_filter (\<lambda>(name, v). map_option (\<lambda>n. (name, ls, as_f64 n)) v) flds"

definition report_status :: "labels \<Rightarrow> vm_status \<Rightarrow> gauge list" where
  "report_status ls status =
     optional_gauges ls
       (map (\<lambda>(fld, v). (''status.'' @ fld @ ''_bytes'', map_option (\<lambda>n. wrapping_mul 64 n BYTES_PER_KIBIBYTE) v))
          [(''vmrss'', vmrss status), (''rssanon'', rssanon status), (''rssfile'', rssfile status), (''rssshmem'', rssshmem status),
           (''vmdata'', vmdata status), (''vmstk'', vmstk status), (''vmexe'', vmexe status), (''vmlib'', vmlib status)])"

definition region_gauges :: "labels \<Rightarrow> AggrMeasure \<Rightarrow> gauge list" where
  "region_gauges ls m =
     optional_gauges ls
       (map (\<lambda>(fld, v). (''smaps.'' @ fld @ ''.by_pathname'', v))
          [(''rss'', Some (a_rss m)), (''pss'', Some (a_pss m)), (''swap'', Some (a_swap m)), (''size'', Some (a_size m)),
           (''private_clean'', a_private_clean m), (''private_dirty'', a_private_dirty m), (''shared_clean'', a_shared_clean m),
           (''shared_dirty'', a_shared_dirty m), (''referenced'', a_referenced m), (''anonymous'', a_anonymous m),
           (''lazy_free'', a_lazy_free m), (''anon_huge_pages'', a_anon_huge_pages m), (''shmem_pmd_mapped'', a_shmem_pmd_mapped m),
           (''shared_hugetlb'', a_shared_hugetlb m), (''private_hugetlb'', a_private_hugetlb m),
           (''file_pmd_mapped'', a_file_pmd_mapped m), (''locked'', a_locked m), (''swap_pss'', a_swap_pss m)])"

definition smaps_gauges :: "machine \<Rightarrow> labels \<Rightarrow> Region list \<Rightarrow> gauge list" where
  "smaps_gauges h ls rs =
     concat (map (\<lambda>p. case aggregate_by_pathname rs p of None \<Rightarrow> [] | Some m \<Rightarrow> region_gauges (ls @ [(''pathname'', p)]) m)
       (hash_order h (remdups (map r_pathname rs))))"

text \<open>What a poll changes.\<close>

record poll_state =
  ps_info :: "int \<rightharpoonup> ProcessInfo"
  ps_aggr :: Aggregator
  ps_gauges :: "gauge list"

definition add_gauges :: "gauge list \<Rightarrow> poll_state \<Rightarrow> poll_state" where
  "add_gauges gs st = st\<lparr>ps_gauges := ps_gauges st @ gs\<rparr>"

definition handle_memory :: "machine \<Rightarrow> int \<Rightarrow> labels \<Rightarrow> poll_state \<Rightarrow> poll_state" where
  "handle_memory h pid ls st =
     (case regions_from_pid (\<lambda>pid. read_to_string (files h) (proc_path pid ''smaps'')) pid of
        Inl e \<Rightarrow> st
      | Inr rs \<Rightarrow>
          let st = add_gauges (smaps_gauges h ls rs) st;
              (r, gs, aggr) = rollup_poll (to_snake_case h) (\<lambda>pid. read_to_string (files h) (proc_path pid ''smaps_rollup'')) pid (ps_aggr st)
          in (add_gauges (map (\<lambda>(n, v). (n, ls, as_f64 v)) gs) st)\<lparr>ps_aggr := aggr\<rparr>)"

definition handle_process :: "machine \<Rightarrow> int \<Rightarrow> poll_state \<Rightarrow> ((observer_error + unit) \<times> poll_state) option" where
  "handle_process h pid st =
     (case status_of h pid of
        None \<Rightarrow> Some (Inr (), st)
      | Some status \<Rightarrow>
          if tgid status \<noteq> pid then Some (Inr (), st)
          else
            case (case ps_info st pid of Some i \<Rightarrow> Some i | None \<Rightarrow> new_info h pid) of
              None \<Rightarrow> Some (Inr (), st)
            | Some pinfo \<Rightarrow>
                let ls = info_labels pinfo;
                    st = add_gauges (report_status ls status) (st\<lparr>ps_info := (ps_info st)(pid \<mapsto> pinfo)\<rparr>)
                in
                  case uptime_poll (files h) of
                    Inl e \<Rightarrow> Some (Inl (Ob_Uptime e), st)
                  | Inr uptime \<Rightarrow>
                      (case stat_poll (files h) pid uptime ls (pi_stat_sampler pinfo) of
                         None \<Rightarrow> None
                       | Some (Inl e) \<Rightarrow> Some (Inr (), st)
                       | Some (Inr (gs, sampler)) \<Rightarrow>
                           let st = add_gauges gs (st\<lparr>ps_info := (ps_info st)(pid \<mapsto> pinfo\<lparr>pi_stat_sampler := sampler\<rparr>)\<rparr>)
                           in Some (Inr (), handle_memory h pid ls st)))"

text \<open>
  The loop of \<open>poll\<close>. It ends because a pid is pushed only when it enters \<open>pids\<close>, and there are finitely
  many numbers of 32 bits.
\<close>

definition all_i32 :: "int set" where
  "all_i32 = {- (2 ^ 31)..<2 ^ 31}"

lemma as_i32_range: "as_i32 c \<in> all_i32"
proof -
  have "c mod 2 ^ 32 < 2 ^ 32" by simp
  then have "int (c mod 2 ^ 32) < int (2 ^ 32)" by (simp only: of_nat_less_iff)
  then show ?thesis by (auto simp: as_i32_def all_i32_def Let_def)
qed

lemma live_children_range: "set (live_children h p) \<subseteq> all_i32"
  using as_i32_range by (auto simp: live_children_def)

lemma push_children_measure:
  "set cs \<subseteq> all_i32 \<Longrightarrow> push_children cs processes pids = (processes', pids') \<Longrightarrow>
   card (all_i32 - set pids') + length processes' = card (all_i32 - set pids) + length processes"
proof (induction cs processes pids rule: push_children.induct)
  case (2 c cs processes pids)
  show ?case
  proof (cases "c \<in> set pids")
    case False
    have "all_i32 - set (c # pids) = (all_i32 - set pids) - {c}" by auto
    moreover have "c \<in> all_i32 - set pids" using 2 False by auto
    moreover have "finite (all_i32 - set pids)" by (simp add: all_i32_def)
    ultimately have "Suc (card (all_i32 - set (c # pids))) = card (all_i32 - set pids)"
      by (metis card_Suc_Diff1)
    with 2 False show ?thesis by simp
  qed (use 2 in simp)
qed simp

lemma push_children_decreases:
  "(processes', pids') = push_children (live_children h p) processes pids \<Longrightarrow>
   card (all_i32 - set pids') + length processes' < Suc (card (all_i32 - set pids) + length processes)"
  using push_children_measure [OF live_children_range, of h p processes pids processes' pids'] by simp

function poll_loop :: "machine \<Rightarrow> int list \<Rightarrow> int list \<Rightarrow> poll_state \<Rightarrow> poll_state option" where
  "poll_loop h [] pids st = Some st"
| "poll_loop h (process # processes) pids st =
     (case push_children (live_children h process) processes pids of
        (processes, pids) \<Rightarrow>
          (case handle_process h process (st\<lparr>ps_info := ps_info st |` set pids\<rparr>) of
             None \<Rightarrow> None
           | Some (_, st) \<Rightarrow> poll_loop h processes pids st))"
  by pat_completeness auto
termination
  by (relation "measure (\<lambda>(h, processes, pids, st). card (all_i32 - set pids) + length processes)") (auto dest: push_children_decreases)

definition proc_poll :: "machine \<Rightarrow> proc_sampler \<Rightarrow> (observer_error, gauge list \<times> proc_sampler) outcome" where
  "proc_poll h s =
     (if \<not> is_process h (parent s) then Some (Inl Ob_Proc)
      else
        case poll_loop h [parent s] [] \<lparr>ps_info = process_info s, ps_aggr = \<lparr>ag_rss = 0, ag_pss = 0\<rparr>, ps_gauges = []\<rparr> of
          None \<Rightarrow> None
        | Some st \<Rightarrow>
            Some (Inr (ps_gauges st @ [(''total_rss_bytes'', [], as_f64 (ag_rss (ps_aggr st))), (''total_pss_bytes'', [], as_f64 (ag_pss (ps_aggr st)))],
                       s\<lparr>process_info := ps_info st\<rparr>)))"

section \<open>Control groups\<close>

record cgroup_sampler =
  cg_parent :: int
  cgroup_info :: "string \<rightharpoonup> cgroup_stats"
  cg_labels :: labels

definition cg_sampler_new :: "machine \<Rightarrow> int \<Rightarrow> labels \<Rightarrow> observer_error + cgroup_sampler" where
  "cg_sampler_new h parent_pid ls =
     (if is_process h parent_pid then Inr \<lparr>cg_parent = parent_pid, cgroup_info = Map.empty, cg_labels = ls\<rparr> else Inl Ob_Proc)"

function scan_loop :: "machine \<Rightarrow> int list \<Rightarrow> int list \<Rightarrow> int list" where
  "scan_loop h [] pids = pids"
| "scan_loop h (process # processes) pids =
     (case push_children (live_children h process) processes pids of (processes, pids) \<Rightarrow> scan_loop h processes pids)"
  by pat_completeness auto
termination
  by (relation "measure (\<lambda>(h, processes, pids). card (all_i32 - set pids) + length processes)") (auto split: prod.splits intro: push_children_decreases [OF sym])

definition cgroup_pids :: "machine \<Rightarrow> int \<Rightarrow> int list" where
  "cgroup_pids h p = (if is_process h p then scan_loop h [p] [p] else [])"

text \<open>The clock's readings for a group: when its sampler is made, and when its times are read.\<close>

definition cgroup_visit ::
    "machine \<Rightarrow> (string \<Rightarrow> nat \<times> nat) \<Rightarrow> labels \<Rightarrow> string \<Rightarrow> (string \<rightharpoonup> cgroup_stats) \<times> gauge list \<Rightarrow> ((string \<rightharpoonup> cgroup_stats) \<times> gauge list) option" where
  "cgroup_visit h clock ls path = (\<lambda>(info, gs).
     let c = (case info path of Some c \<Rightarrow> c | None \<Rightarrow> cgroup_sampler_new (fst (clock path)));
         gs = gs @ cgroup_v2_poll (files h) path ls
     in case cgroup_cpu_poll (files h) (snd (clock path)) path ls c of
          None \<Rightarrow> None
        | Some (Inl e) \<Rightarrow> Some (info(path \<mapsto> c), gs)
        | Some (Inr (cpu, c)) \<Rightarrow> Some (info(path \<mapsto> c), gs @ cpu))"

fun cgroup_visits ::
    "machine \<Rightarrow> (string \<Rightarrow> nat \<times> nat) \<Rightarrow> labels \<Rightarrow> string list \<Rightarrow> (string \<rightharpoonup> cgroup_stats) \<times> gauge list \<Rightarrow> ((string \<rightharpoonup> cgroup_stats) \<times> gauge list) option" where
  "cgroup_visits h clock ls [] st = Some st"
| "cgroup_visits h clock ls (p # ps) st = Option.bind (cgroup_visit h clock ls p st) (cgroup_visits h clock ls ps)"

definition cgroup_paths :: "machine \<Rightarrow> int list \<Rightarrow> string list" where
  "cgroup_paths h pids =
     remdups (List.map_filter (\<lambda>pid. case get_path (files h) pid of Inl e \<Rightarrow> None | Inr p \<Rightarrow> Some p) pids)"

definition cgroup_poll :: "machine \<Rightarrow> (string \<Rightarrow> nat \<times> nat) \<Rightarrow> cgroup_sampler \<Rightarrow> (gauge list \<times> cgroup_sampler) option" where
  "cgroup_poll h clock s =
     map_option (\<lambda>(info, gs). (gs, s\<lparr>cgroup_info := info\<rparr>))
       (cgroup_visits h clock (cg_labels s) (hash_order h (cgroup_paths h (cgroup_pids h (cg_parent s)))) (cgroup_info s, []))"

section \<open>The server\<close>

record linux_sampler =
  procfs_sampler :: proc_sampler
  cgroup_samplers :: cgroup_sampler

definition linux_sampler_new :: "machine \<Rightarrow> int \<Rightarrow> labels \<Rightarrow> observer_error + linux_sampler" where
  "linux_sampler_new h pid ls =
     (case proc_sampler_new h pid of
        Inl e \<Rightarrow> Inl e
      | Inr p \<Rightarrow> map_sum id (\<lambda>c. \<lparr>procfs_sampler = p, cgroup_samplers = c\<rparr>) (cg_sampler_new h pid ls))"

definition linux_sample :: "machine \<Rightarrow> (string \<Rightarrow> nat \<times> nat) \<Rightarrow> linux_sampler \<Rightarrow> (observer_error, gauge list \<times> linux_sampler) outcome" where
  "linux_sample h clock s =
     then_try (proc_poll h (procfs_sampler s)) (\<lambda>(gs, p).
       case cgroup_poll h clock (cgroup_samplers s) of
         None \<Rightarrow> None
       | Some (gs', c) \<Rightarrow> Some (Inr (gs @ gs', \<lparr>procfs_sampler = p, cgroup_samplers = c\<rparr>)))"

text \<open>
  \<open>run\<close>: what \<open>select!\<close> takes, in order, a tick of the clock with the machine as it is then, or the
  shutdown. The receiver of the target's pid gives nothing when its sender is gone, and a target
  may have none: both panic.
\<close>

datatype observer_event = Sample_Tick machine "string \<Rightarrow> nat \<times> nat" | Shutdown_Received

datatype run_state_obs = Observing linux_sampler | Observer_Done | Observer_Failed observer_error | Observer_Panic

fun observe_events :: "observer_event list \<Rightarrow> gauge list \<Rightarrow> linux_sampler \<Rightarrow> gauge list \<times> run_state_obs" where
  "observe_events [] gs s = (gs, Observing s)"
| "observe_events (Shutdown_Received # es) gs s = (gs, Observer_Done)"
| "observe_events (Sample_Tick h clock # es) gs s =
     (case linux_sample h clock s of
        None \<Rightarrow> (gs, Observer_Panic)
      | Some (Inl e) \<Rightarrow> (gs, Observer_Failed e)
      | Some (Inr (gs', s)) \<Rightarrow> observe_events es (gs @ gs') s)"

definition observer_run :: "machine \<Rightarrow> int option option \<Rightarrow> observer_event list \<Rightarrow> gauge list \<times> run_state_obs" where
  "observer_run h received es =
     (case received of
        Some (Some target_pid) \<Rightarrow>
          (case linux_sampler_new h target_pid [(''focus'', ''target'')] of
             Inl e \<Rightarrow> ([], Observer_Failed e)
           | Inr s \<Rightarrow> observe_events es [] s)
      | _ \<Rightarrow> ([], Observer_Panic))"

section \<open>The walk\<close>

text \<open>
  The processes in the order the loop takes them, each with \<open>pids\<close> as it is then, and the loop as a
  fold over them.
\<close>

function visits :: "machine \<Rightarrow> int list \<Rightarrow> int list \<Rightarrow> (int \<times> int list) list" where
  "visits h [] pids = []"
| "visits h (process # processes) pids =
     (case push_children (live_children h process) processes pids of
        (processes, pids) \<Rightarrow> (process, pids) # visits h processes pids)"
  by pat_completeness auto
termination
  by (relation "measure (\<lambda>(h, processes, pids). card (all_i32 - set pids) + length processes)")
    (auto split: prod.splits intro: push_children_decreases [OF sym])

fun visit_all :: "machine \<Rightarrow> (int \<times> int list) list \<Rightarrow> poll_state \<Rightarrow> poll_state option" where
  "visit_all h [] st = Some st"
| "visit_all h ((p, pids) # vs) st =
     (case handle_process h p (st\<lparr>ps_info := ps_info st |` set pids\<rparr>) of
        None \<Rightarrow> None
      | Some (_, st) \<Rightarrow> visit_all h vs st)"

definition child_rel :: "machine \<Rightarrow> (int \<times> int) set" where
  "child_rel h = {(p, c). c \<in> set (live_children h p)}"

lemma poll_loop_visits: "poll_loop h processes pids st = visit_all h (visits h processes pids) st"
proof (induction h processes pids st rule: poll_loop.induct)
  case (2 h process processes pids st)
  then show ?case by (auto split: prod.splits option.splits)
qed simp

lemma push_children_sets:
  "push_children cs processes pids = (processes', pids') \<Longrightarrow>
   set pids' = set pids \<union> set cs \<and> set processes' = set processes \<union> (set cs - set pids)"
  by (induction cs processes pids rule: push_children.induct) (auto split: if_splits)

lemma push_children_distinct:
  "push_children cs processes pids = (processes', pids') \<Longrightarrow> distinct processes \<Longrightarrow> set processes \<subseteq> set pids \<Longrightarrow>
   distinct processes' \<and> set processes' \<subseteq> set pids'"
  by (induction cs processes pids rule: push_children.induct) (auto split: if_splits)

lemma visits_stack: "set processes \<subseteq> fst ` set (visits h processes pids)"
proof (induction h processes pids rule: visits.induct)
  case (2 h process processes pids)
  obtain st ps where push: "push_children (live_children h process) processes pids = (st, ps)" by fastforce
  with 2 push_children_sets [OF push] show ?case by auto
qed simp

lemma visits_closed:
  "p \<in> fst ` set (visits h processes pids) \<Longrightarrow> c \<in> set (live_children h p) \<Longrightarrow>
   c \<in> fst ` set (visits h processes pids) \<union> set pids"
proof (induction h processes pids arbitrary: p rule: visits.induct)
  case (2 h process processes pids)
  obtain st ps where push: "push_children (live_children h process) processes pids = (st, ps)" by fastforce
  note sets = push_children_sets [OF push]
  have stack: "set st \<subseteq> fst ` set (visits h st ps)" by (rule visits_stack)
  consider "p = process" | "p \<in> fst ` set (visits h st ps)" using "2.prems"(1) push by auto
  then show ?case
  proof cases
    case 1
    then show ?thesis using "2.prems"(2) sets stack push by auto
  next
    case 2
    then have "c \<in> fst ` set (visits h st ps) \<union> set ps" using "2.IH" [OF push [symmetric]] "2.prems"(2) by blast
    then show ?thesis using sets stack push by auto
  qed
qed simp

lemma visits_reachable: "fst ` set (visits h processes pids) \<subseteq> (child_rel h)\<^sup>* `` set processes"
proof (induction h processes pids rule: visits.induct)
  case (2 h process processes pids)
  obtain st ps where push: "push_children (live_children h process) processes pids = (st, ps)" by fastforce
  have "set st \<subseteq> (child_rel h)\<^sup>* `` set (process # processes)"
    using push_children_sets [OF push] by (auto simp: child_rel_def)
  then have "(child_rel h)\<^sup>* `` set st \<subseteq> (child_rel h)\<^sup>* `` set (process # processes)"
    by (meson Image_iff rtrancl_trans subset_iff)
  with "2.IH" [OF push [symmetric]] show ?case by (auto simp: push)
qed simp

lemma visits_distinct:
  "distinct processes \<Longrightarrow> set processes \<subseteq> set pids \<Longrightarrow>
   distinct (map fst (visits h processes pids)) \<and> fst ` set (visits h processes pids) \<inter> set pids \<subseteq> set processes"
proof (induction h processes pids rule: visits.induct)
  case (2 h process processes pids)
  obtain st ps where push: "push_children (live_children h process) processes pids = (st, ps)" by fastforce
  have "distinct st \<and> set st \<subseteq> set ps" using push_children_distinct [OF push] 2 by simp
  with "2.IH" [OF push [symmetric]]
  have "distinct (map fst (visits h st ps))" "fst ` set (visits h st ps) \<inter> set ps \<subseteq> set st" by auto
  with push_children_sets [OF push] "2.prems" push show ?case by auto
qed simp

lemma scan_loop_visits:
  "set processes \<subseteq> set pids \<Longrightarrow> set (scan_loop h processes pids) = set pids \<union> fst ` set (visits h processes pids)"
proof (induction h processes pids rule: scan_loop.induct)
  case (2 h process processes pids)
  obtain st ps where push: "push_children (live_children h process) processes pids = (st, ps)" by fastforce
  note sets = push_children_sets [OF push]
  have "set (scan_loop h st ps) = set ps \<union> fst ` set (visits h st ps)"
    using "2.IH" [OF push [symmetric]] sets "2.prems" by auto
  moreover have "set st \<subseteq> fst ` set (visits h st ps)" by (rule visits_stack)
  ultimately show ?case using sets push "2.prems" by auto
qed simp

lemma visits_tree:
  assumes "set pids \<subseteq> {p}"
  shows "fst ` set (visits h [p] pids) = (child_rel h)\<^sup>* `` {p}"
proof
  show "fst ` set (visits h [p] pids) \<subseteq> (child_rel h)\<^sup>* `` {p}" using visits_reachable [of h "[p]" pids] by simp
  have p: "p \<in> fst ` set (visits h [p] pids)" using visits_stack [of "[p]" h pids] by simp
  have "q \<in> fst ` set (visits h [p] pids)" if "(p, q) \<in> (child_rel h)\<^sup>*" for q
    using that
  proof (induction rule: rtrancl_induct)
    case (step q r)
    then have "r \<in> fst ` set (visits h [p] pids) \<union> set pids" by (intro visits_closed) (simp_all add: child_rel_def)
    then show ?case using assms p by blast
  qed (rule p)
  then show "(child_rel h)\<^sup>* `` {p} \<subseteq> fst ` set (visits h [p] pids)" by auto
qed

lemma visits_once:
  assumes "(p, p) \<notin> (child_rel h)\<^sup>+"
  shows "distinct (map fst (visits h [p] []))"
proof -
  obtain st ps where push: "push_children (live_children h p) [] [] = (st, ps)" by fastforce
  note sets = push_children_sets [OF push]
  have "distinct st \<and> set st \<subseteq> set ps" by (rule push_children_distinct [OF push]) simp_all
  then have "distinct (map fst (visits h st ps))" using visits_distinct by blast
  moreover have "p \<notin> fst ` set (visits h st ps)"
  proof
    assume "p \<in> fst ` set (visits h st ps)"
    with visits_reachable [of h st ps] obtain c where "c \<in> set st" "(c, p) \<in> (child_rel h)\<^sup>*" by auto
    moreover from this(1) sets have "(p, c) \<in> child_rel h" by (simp add: child_rel_def)
    ultimately show False using assms by (meson rtrancl_into_trancl2)
  qed
  ultimately show ?thesis by (simp add: push)
qed

text \<open>
  C26. A poll ends and visits the tree. The loop returns for every machine, even one whose processes
  list themselves as children; it handles exactly the processes that can be reached from the
  target through children, the target included, and each of them once unless the target is a
  descendant of itself. The scan for control groups finds the same processes.
\<close>

theorem poll_visits_process_tree:
  "let vs = visits h [p] [] in
   poll_loop h [p] [] st = visit_all h vs st \<and> fst ` set vs = (child_rel h)\<^sup>* `` {p} \<and>
   ((p, p) \<notin> (child_rel h)\<^sup>+ \<longrightarrow> distinct (map fst vs)) \<and>
   (is_process h p \<longrightarrow> set (cgroup_pids h p) = (child_rel h)\<^sup>* `` {p})"
proof -
  have "set (scan_loop h [p] [p]) = (child_rel h)\<^sup>* `` {p}"
    using scan_loop_visits [of "[p]" "[p]" h] visits_tree [of "[p]" p h] by auto
  then show ?thesis using visits_tree [of "[]" p h] visits_once [of p h] by (simp add: poll_loop_visits cgroup_pids_def)
qed

text \<open>A small machine: process 1 has the children 2 and 3, process 2 the child 4, which lists itself.\<close>

definition example_files :: "string \<Rightarrow> string option" where
  "example_files = map_of
     [(''/proc/uptime'', ''100.00 50.00''), (''/proc/1/comm'', ''init''), (''/proc/1/cmdline'', ''init''), (''/proc/1/cgroup'', ''0::/a''),
      (''/sys/fs/cgroup/a/cpu.max'', ''max 100000''), (''/sys/fs/cgroup/a/cpu.stat'', ''usage_usec 5000000''),
      (''/proc/1/stat'', ''1 (init) S 0 1 1 0 0 0 0 0 0 0 3 4 0'')]"

definition example_machine :: machine where
  "example_machine =
     \<lparr>files = \<lparr>read_to_string = example_files, read_dir = (\<lambda>_. None), physical_cores = 4, clock_ticks = 100\<rparr>,
      is_process = (\<lambda>p. p \<in> {1, 2, 3, 4}),
      children_of = (\<lambda>p. if p = 1 then [2, 3] else if p = 2 \<or> p = 4 then [4] else []),
      status_of = (\<lambda>p. Some \<lparr>tgid = p, vmrss = Some 8, rssanon = None, rssfile = None, rssshmem = None, vmdata = None, vmstk = None,
                              vmexe = None, vmlib = None\<rparr>),
      read_link = (\<lambda>_. Some ''/sbin/init''), hash_order = id, to_snake_case = id\<rparr>"

theorem poll_visits_process_tree_witness:
  "distinct (map fst (visits example_machine [1] [])) \<and> 4 \<in> fst ` set (visits example_machine [1] []) \<and>
   4 \<in> set (cgroup_pids example_machine 1)"
proof -
  have children: "(p, c) \<in> child_rel example_machine \<Longrightarrow> c \<in> {2, 3, 4}" for p c
    by (auto simp: child_rel_def live_children_def example_machine_def as_i32_def split: if_splits)
  have "(1, 1) \<notin> (child_rel example_machine)\<^sup>+"
  proof
    assume "(1, 1) \<in> (child_rel example_machine)\<^sup>+"
    then obtain p where "(p, 1) \<in> child_rel example_machine" by (auto elim: tranclE)
    from children [OF this] show False by simp
  qed
  moreover have "(1, 2) \<in> child_rel example_machine" "(2, 4) \<in> child_rel example_machine"
    by (simp_all add: child_rel_def live_children_def example_machine_def as_i32_def)
  then have "(1, 4) \<in> (child_rel example_machine)\<^sup>*" by (meson r_into_rtrancl rtrancl_trans)
  moreover have "is_process example_machine 1" by (simp add: example_machine_def)
  ultimately show ?thesis using poll_visits_process_tree [of example_machine 1] by (simp add: Let_def)
qed

section \<open>What a poll remembers\<close>

lemma poll_loop_first:
  "poll_loop h [p] [] (st\<lparr>ps_info := ps_info st |` set (live_children h p)\<rparr>) = poll_loop h [p] [] st"
proof -
  obtain stack pids where push: "push_children (live_children h p) [] [] = (stack, pids)" by fastforce
  then have "set pids = set (live_children h p)" using push_children_sets [OF push] by simp
  then show ?thesis by (simp add: push)
qed

text \<open>
  C27. Only the target's direct children have a history. What a poll reports and keeps depends on
  what earlier polls kept for the direct children of the target, and on nothing else: the entries
  of the target itself and of deeper descendants are dropped before they are used and made anew,
  with the zero of \<open>Stats::default\<close> as the previous sample. A target without children is measured
  from zero on every poll, so its processor time is divided by the machine's uptime instead of
  by the time since the last poll.
\<close>

theorem only_children_keep_history:
  "proc_poll h s = proc_poll h (s\<lparr>process_info := process_info s |` set (live_children h (parent s))\<rparr>) \<and>
   (live_children h (parent s) = [] \<longrightarrow> proc_poll h s = proc_poll h (s\<lparr>process_info := Map.empty\<rparr>)) \<and>
   (\<forall>pid i. new_info h pid = Some i \<longrightarrow> prev_stats (pi_stat_sampler i) = default_stats)"
proof -
  let ?s = "\<lambda>s. \<lparr>ps_info = process_info s, ps_aggr = \<lparr>ag_rss = 0, ag_pss = 0\<rparr>, ps_gauges = []\<rparr>"
  have same: "proc_poll h s = proc_poll h (s\<lparr>process_info := process_info s |` set (live_children h (parent s))\<rparr>)" for s
    using poll_loop_first [of h "parent s" "?s s"] by (simp add: proc_poll_def del: poll_loop.simps split: option.split)
  moreover have "proc_poll h s = proc_poll h (s\<lparr>process_info := Map.empty\<rparr>)" if "live_children h (parent s) = []"
    using same [of s] that by (simp add: restrict_map_def)
  moreover have "new_info h pid = Some i \<Longrightarrow> prev_stats (pi_stat_sampler i) = default_stats" for pid i
    by (auto simp: new_info_def stat_sampler_new_def split: bind_splits)
  ultimately show ?thesis by blast
qed

lemma then_try_Some:
  assumes "then_try r f = Some (Inr y)"
  obtains x where "r = Some (Inr x)" "f x = Some (Inr y)"
  using assms by (auto simp: then_try_def split: option.splits sum.splits)

lemma cpu_stat_lines_instant: "cpu_stat_lines lines c = Some (Inr c') \<Longrightarrow> last_instant c' = last_instant c"
  by (induction lines arbitrary: c) (auto split: list.splits if_splits elim!: then_try_Some)

text \<open>
  The first sample of a control group counts its whole life. A group's sampler starts from zero
  when it is first seen, and its times are read a moment later in the same poll: the reported
  percentage is the processor time the group has used since it exists over the time between
  the two readings of the clock.
\<close>

theorem first_cgroup_sample_counts_lifetime:
  assumes "info path = None" "clock path = (created, now)" "created < now"
    and "cgroup_cpu_poll (files h) now path ls (cgroup_sampler_new created) = Some (Inr (cpu, c))"
  shows "cgroup_visit h clock ls path (info, gs) = Some (info(path \<mapsto> c), gs @ cgroup_v2_poll (files h) path ls @ cpu) \<and>
    (\<exists>allowed. (''total_cpu_percentage'', ls,
       f64_mul (f64_div (f64_div (as_f64 (usage_usec c)) (as_f64 (now - created))) allowed) (Fin 100)) \<in> set cpu)"
proof
  show "cgroup_visit h clock ls path (info, gs) = Some (info(path \<mapsto> c), gs @ cgroup_v2_poll (files h) path ls @ cpu)"
    using assms by (simp add: cgroup_visit_def Let_def)
  obtain allowed lines where cur: "cpu_stat_lines lines (cgroup_sampler_new now) = Some (Inr c)"
    and cpu: "cpu = (case cgroup_utilization (cgroup_sampler_new created) c allowed of
        None \<Rightarrow> [] | Some u \<Rightarrow> utilization_gauges [] ls (f64_mul allowed (Fin 1000)) u)"
    using assms(4) by (auto simp: cgroup_cpu_poll_def Let_def elim!: then_try_Some)
  have "last_instant c = now" using cpu_stat_lines_instant [OF cur] by (simp add: cgroup_sampler_new_def)
  with cpu assms(3) show "\<exists>allowed. (''total_cpu_percentage'', ls,
       f64_mul (f64_div (f64_div (as_f64 (usage_usec c)) (as_f64 (now - created))) allowed) (Fin 100)) \<in> set cpu"
    by (auto simp: cgroup_utilization_def cgroup_sampler_new_def utilization_gauges_def Let_def)
qed

theorem only_children_keep_history_witness:
  "live_children example_machine 3 = [] \<and>
   (\<forall>i. proc_poll example_machine \<lparr>parent = 3, process_info = [3 \<mapsto> i]\<rparr> =
        proc_poll example_machine \<lparr>parent = 3, process_info = Map.empty\<rparr>)"
proof (intro conjI allI)
  show leaf: "live_children example_machine 3 = []" by (simp add: live_children_def example_machine_def)
  fix i
  show "proc_poll example_machine \<lparr>parent = 3, process_info = [3 \<mapsto> i]\<rparr> = proc_poll example_machine \<lparr>parent = 3, process_info = Map.empty\<rparr>"
    using only_children_keep_history [of example_machine "\<lparr>parent = 3, process_info = [3 \<mapsto> i]\<rparr>"] leaf by simp
qed

theorem first_cgroup_sample_counts_lifetime_witness:
  "\<exists>cpu c allowed. cgroup_cpu_poll (files example_machine) 2000 ''/sys/fs/cgroup/a'' [] (cgroup_sampler_new 1000) = Some (Inr (cpu, c)) \<and>
     usage_usec c = 5000000 \<and>
     (''total_cpu_percentage'', [], f64_mul (f64_div (f64_div (as_f64 5000000) (as_f64 1000)) allowed) (Fin 100)) \<in> set cpu"
proof -
  have "text_lines ''usage_usec 5000000'' = [''usage_usec 5000000'']" by (simp add: text_lines_def newline_def)
  moreover have "split_whitespace ''usage_usec 5000000'' = [''usage_usec'', ''5000000'']"
    by (simp add: split_whitespace.simps is_whitespace_def)
  moreover have "split_whitespace ''max 100000'' = [''max'', ''100000'']" by (simp add: split_whitespace.simps is_whitespace_def)
  moreover have "parse_unsigned 64 ''5000000'' = Some 5000000"
    by (simp add: parse_unsigned_def from_str_radix_def to_digit_def)
  ultimately have "\<exists>cpu c. cgroup_cpu_poll (files example_machine) 2000 ''/sys/fs/cgroup/a'' [] (cgroup_sampler_new 1000) = Some (Inr (cpu, c)) \<and>
      usage_usec c = 5000000"
    by (simp add: cgroup_cpu_poll_def example_machine_def example_files_def path_join_def starts_with_def allowed_cores_def
        cgroup_sampler_new_def Let_def)
  then show ?thesis
    using first_cgroup_sample_counts_lifetime [where path = "''/sys/fs/cgroup/a''" and clock = "\<lambda>_. (1000, 2000)" and info = Map.empty
        and h = example_machine and ls = "[]" and created = 1000 and now = 2000] by fastforce
qed

end
