(* ===== verification/Target_Metrics.thy ===== *)
theory Target_Metrics
  imports Floats
begin

text \<open>
  The metrics of the target (\<^verbatim>\<open>target_metrics.rs\<close>): the scraper of the Prometheus text format
  (\<^verbatim>\<open>target_metrics/prometheus.rs\<close>) and that of Go's expvars (\<^verbatim>\<open>target_metrics/expvar.rs\<close>). What a request
  answers and the JSON tree of expvars are arguments; a tag map is listed in the order of its
  iteration. Recorded metrics are returned as a list. Log lines are left out.
\<close>

section \<open>Pieces of text\<close>

definition is_ascii_whitespace :: "char \<Rightarrow> bool" where
  "is_ascii_whitespace c \<longleftrightarrow> (of_char c :: nat) \<in> {9, 10, 12, 13, 32}"

definition split_ascii_whitespace :: "string \<Rightarrow> string list" where
  "split_ascii_whitespace s =
     filter (\<lambda>w. w \<noteq> []) (split_on (CHR '' '') (map (\<lambda>c. if is_ascii_whitespace c then CHR '' '' else c) s))"

definition split_inclusive :: "char \<Rightarrow> string \<Rightarrow> string list" where
  "split_inclusive d s =
     (let parts = split_on d s in map (\<lambda>p. p @ [d]) (butlast parts) @ (if last parts = [] then [] else [last parts]))"

definition trim_end_matches :: "char \<Rightarrow> string \<Rightarrow> string" where
  "trim_end_matches d s = rev (dropWhile (\<lambda>c. c = d) (rev s))"

definition trim_matches :: "char \<Rightarrow> string \<Rightarrow> string" where
  "trim_matches d s = trim_end_matches d (dropWhile (\<lambda>c. c = d) s)"

text \<open>\<open>replace("__", ".")\<close>.\<close>

fun replace_dunder :: "string \<Rightarrow> string" where
  "replace_dunder (c # d # s) =
     (if c = CHR ''_'' \<and> d = CHR ''_'' then CHR ''.'' # replace_dunder s else c # replace_dunder (d # s))"
| "replace_dunder s = s"

section \<open>Prometheus\<close>

record prometheus_config =
  prom_uri :: string
  prom_metrics :: "string list option"
  prom_tags :: "(string \<times> string) list option"

datatype MetricType = Mt_Gauge | Mt_Counter | Mt_Histogram | Mt_Summary

definition metric_type_from_str :: "string \<Rightarrow> MetricType option" where
  "metric_type_from_str s =
     (if s = ''counter'' then Some Mt_Counter
      else if s = ''gauge'' then Some Mt_Gauge
      else if s = ''histogram'' then Some Mt_Histogram
      else if s = ''summary'' then Some Mt_Summary
      else None)"

datatype target_metric =
    Set_Gauge string "(string \<times> string) list" float_num
  | Set_Counter string "(string \<times> string) list" nat

text \<open>\<open>value as u64\<close>.\<close>

fun f64_as_u64 :: "float_num \<Rightarrow> nat" where
  "f64_as_u64 (Fin q) = min (nat \<lfloor>q\<rfloor>) (umax 64)"
| "f64_as_u64 PosInf = umax 64"
| "f64_as_u64 x = 0"

text \<open>A TYPE line: \<open>None\<close> where one of the three \<open>expect\<close>s panics.\<close>

definition type_line :: "string \<Rightarrow> (string \<rightharpoonup> MetricType) \<Rightarrow> (string \<rightharpoonup> MetricType) option" where
  "type_line line typemap =
     (case drop 2 (split_ascii_whitespace line) of
        name # mtype # _ \<Rightarrow>
          (case metric_type_from_str mtype of
             None \<Rightarrow> None
           | Some t \<Rightarrow>
               let typemap =
                 (if t = Mt_Histogram \<or> t = Mt_Summary
                  then typemap(name @ ''_sum'' \<mapsto> t, name @ ''_count'' \<mapsto> t, name @ ''_bucket'' \<mapsto> t)
                  else typemap)
               in Some (typemap(name \<mapsto> t)))
      | _ \<Rightarrow> None)"

text \<open>The two parts of a sample line that are looked at, and \<open>None\<close> where one is missing.\<close>

definition sample_parts :: "string \<Rightarrow> (string \<times> string) option" where
  "sample_parts line =
     (case (if CHR ''}'' \<in> set line then split_inclusive (CHR ''}'') line else split_ascii_whitespace line) of
        name_and_labels # rest # _ \<Rightarrow>
          (case split_ascii_whitespace rest of [] \<Rightarrow> None | value # _ \<Rightarrow> Some (name_and_labels, value))
      | _ \<Rightarrow> None)"

definition parse_label :: "string \<Rightarrow> (string \<times> string) option" where
  "parse_label label = map_option (\<lambda>(k, v). (k, trim_matches (CHR 0x22) v)) (split_once (CHR ''='') label)"

definition all_some :: "'a option list \<Rightarrow> 'a list option" where
  "all_some xs = (if None \<in> set xs then None else Some (map the xs))"

definition name_labels :: "string \<Rightarrow> (string \<times> (string \<times> string) list option) option" where
  "name_labels s =
     (case split_once (CHR ''{'') s of
        None \<Rightarrow> Some (s, None)
      | Some (name, labels) \<Rightarrow>
          map_option (\<lambda>ls. (name, Some ls)) (all_some (map parse_label (split_on (CHR '','') (trim_end_matches (CHR ''}'') labels)))))"

definition with_tags :: "(string \<times> string) list option \<Rightarrow> (string \<times> string) list option \<Rightarrow> (string \<times> string) list option" where
  "with_tags tags labels =
     (case tags of
        None \<Rightarrow> labels
      | Some ts \<Rightarrow> (case labels of None \<Rightarrow> Some ts | Some ls \<Rightarrow> Some (ls @ ts)))"

definition record_sample :: "MetricType option \<Rightarrow> string \<Rightarrow> (string \<times> string) list option \<Rightarrow> string \<Rightarrow> target_metric list" where
  "record_sample mtype name labels value =
     (let key = ''target/'' @ name; ls = (case labels of None \<Rightarrow> [] | Some ls \<Rightarrow> ls)
      in case mtype of
           Some Mt_Gauge \<Rightarrow> (case parse_f64 value of None \<Rightarrow> [] | Some x \<Rightarrow> [Set_Gauge key ls x])
         | Some Mt_Counter \<Rightarrow>
             (case parse_f64 value of
                None \<Rightarrow> []
              | Some x \<Rightarrow>
                  if float_less x (Fin 0) then []
                  else if float_less (as_f64 (umax 64)) x then []
                  else [Set_Counter key ls (f64_as_u64 x)])
         | _ \<Rightarrow> [])"

definition sample_line ::
    "(string \<times> string) list option \<Rightarrow> string list option \<Rightarrow> (string \<rightharpoonup> MetricType) \<Rightarrow> string \<Rightarrow> target_metric list option" where
  "sample_line tags metrics typemap line =
     (case sample_parts line of
        None \<Rightarrow> None
      | Some (name_and_labels, value) \<Rightarrow>
          if CHR ''#'' \<in> set value then Some []
          else
            (case name_labels name_and_labels of
               None \<Rightarrow> None
             | Some (name, labels) \<Rightarrow>
                 let dotted = replace_dunder name
                 in if (case metrics of None \<Rightarrow> True | Some ms \<Rightarrow> dotted \<in> set ms)
                    then Some (record_sample (typemap name) dotted (with_tags tags labels) value)
                    else Some []))"

text \<open>The lines of a response, with what was recorded and whether the scraper panicked.\<close>

fun scrape_lines ::
    "(string \<times> string) list option \<Rightarrow> string list option \<Rightarrow> string list \<Rightarrow> (string \<rightharpoonup> MetricType) \<Rightarrow> target_metric list \<times> bool" where
  "scrape_lines tags metrics [] typemap = ([], False)"
| "scrape_lines tags metrics (line # ls) typemap =
     (if starts_with ''# HELP'' line then scrape_lines tags metrics ls typemap
      else if starts_with ''# TYPE'' line
      then (case type_line line typemap of None \<Rightarrow> ([], True) | Some typemap \<Rightarrow> scrape_lines tags metrics ls typemap)
      else
        case sample_line tags metrics typemap line of
          None \<Rightarrow> ([], True)
        | Some ms \<Rightarrow> (case scrape_lines tags metrics ls typemap of (ms', p) \<Rightarrow> (ms @ ms', p)))"

definition scrape_text :: "(string \<times> string) list option \<Rightarrow> string list option \<Rightarrow> string \<Rightarrow> target_metric list \<times> bool" where
  "scrape_text tags metrics txt = scrape_lines tags metrics (filter (\<lambda>l. l \<noteq> []) (map trim (text_lines txt))) Map.empty"

text \<open>A request may fail, or its body may not be readable: then nothing is recorded.\<close>

definition scrape_metrics :: "prometheus_config \<Rightarrow> string option option \<Rightarrow> target_metric list \<times> bool" where
  "scrape_metrics c resp =
     (case resp of Some (Some txt) \<Rightarrow> scrape_text (prom_tags c) (prom_metrics c) txt | _ \<Rightarrow> ([], False))"

datatype scrape_event = Scrape "string option option" | Scrape_Shutdown

datatype scrape_state = Scraping | Scrape_Stopped | Scrape_Panicked

fun prometheus_run :: "prometheus_config \<Rightarrow> scrape_event list \<Rightarrow> target_metric list \<times> scrape_state" where
  "prometheus_run c [] = ([], Scraping)"
| "prometheus_run c (Scrape_Shutdown # es) = ([], Scrape_Stopped)"
| "prometheus_run c (Scrape resp # es) =
     (case scrape_metrics c resp of
        (ms, True) \<Rightarrow> (ms, Scrape_Panicked)
      | (ms, False) \<Rightarrow> (case prometheus_run c es of (ms', st) \<Rightarrow> (ms @ ms', st)))"

section \<open>Expvar\<close>

record expvar_config =
  expvar_uri :: string
  expvar_vars :: "string list"
  expvar_tags :: "(string \<times> string) list option"

definition expvar_labels :: "expvar_config \<Rightarrow> (string \<times> string) list" where
  "expvar_labels c = (''source'', ''target_metrics/expvar'') # (case expvar_tags c of None \<Rightarrow> [] | Some ts \<Rightarrow> ts)"

text \<open>\<open>pointer\<close> stands for \<open>Value::pointer\<close> followed by \<open>as_f64\<close>.\<close>

definition expvar_poll :: "('j \<Rightarrow> string \<Rightarrow> float_num option) \<Rightarrow> expvar_config \<Rightarrow> 'j option option \<Rightarrow> target_metric list" where
  "expvar_poll pointer c resp =
     (case resp of
        Some (Some json) \<Rightarrow>
          concat (map (\<lambda>var. case pointer json var of
                               None \<Rightarrow> []
                             | Some x \<Rightarrow> [Set_Gauge (''target/'' @ dropWhile (\<lambda>c. c = CHR ''/'') var) (expvar_labels c) x]) (expvar_vars c))
      | _ \<Rightarrow> [])"

datatype 'j expvar_event = Expvar_Poll "'j option option" | Expvar_Shutdown

fun expvar_run :: "('j \<Rightarrow> string \<Rightarrow> float_num option) \<Rightarrow> expvar_config \<Rightarrow> 'j expvar_event list \<Rightarrow> target_metric list \<times> scrape_state" where
  "expvar_run pointer c [] = ([], Scraping)"
| "expvar_run pointer c (Expvar_Shutdown # es) = ([], Scrape_Stopped)"
| "expvar_run pointer c (Expvar_Poll resp # es) =
     (case expvar_run pointer c es of (ms, st) \<Rightarrow> (expvar_poll pointer c resp @ ms, st))"

datatype metrics_config = Metrics_Expvar expvar_config | Metrics_Prometheus prometheus_config

text \<open>\<open>Server::run\<close>: the scraper of its kind.\<close>

fun metrics_server_run :: "('j \<Rightarrow> string \<Rightarrow> float_num option) \<Rightarrow> metrics_config \<Rightarrow> 'j expvar_event list \<Rightarrow> scrape_event list \<Rightarrow> target_metric list \<times> scrape_state" where
  "metrics_server_run pointer (Metrics_Expvar c) es ps = expvar_run pointer c es"
| "metrics_server_run pointer (Metrics_Prometheus c) es ps = prometheus_run c ps"

section \<open>Text that the scraper panics on\<close>

text \<open>
  The scraper dies of valid expositions. A metric of the type \<open>untyped\<close>, an empty list of labels,
  a comma at the end of the labels, a comma within a label's value and a comment of one word are
  all part of the text format; each panics, whatever the configuration, and nothing after it
  is recorded.
\<close>

theorem prometheus_format_panics:
  "scrape_lines tags metrics (''# TYPE x untyped'' # ls) tm = ([], True) \<and>
   scrape_lines tags metrics (''x{} 1'' # ls) tm = ([], True) \<and>
   scrape_lines tags metrics ((''x{a='' @ [CHR 0x22] @ ''b'' @ [CHR 0x22] @ '',} 1'') # ls) tm = ([], True) \<and>
   scrape_lines tags metrics ((''x{a='' @ [CHR 0x22] @ ''b,c'' @ [CHR 0x22] @ ''} 1'') # ls) tm = ([], True) \<and>
   scrape_lines tags metrics (''#comment'' # ls) tm = ([], True)"
  by (simp add: starts_with_def type_line_def split_ascii_whitespace_def is_ascii_whitespace_def metric_type_from_str_def
      sample_line_def sample_parts_def split_inclusive_def Let_def name_labels_def split_once_def parse_label_def all_some_def
      trim_end_matches_def)

section \<open>Expositions are read back\<close>

text \<open>A sample of a histogram or a summary may have a suffix to the name of its family.\<close>

record sample =
  sample_suffix :: string
  sample_labels :: "(string \<times> string) list"
  sample_value :: string

record family =
  fam_name :: string
  fam_help :: string
  fam_type :: MetricType
  fam_samples :: "sample list"

fun show_metric_type :: "MetricType \<Rightarrow> string" where
  "show_metric_type Mt_Gauge = ''gauge''"
| "show_metric_type Mt_Counter = ''counter''"
| "show_metric_type Mt_Histogram = ''histogram''"
| "show_metric_type Mt_Summary = ''summary''"

definition show_label :: "string \<times> string \<Rightarrow> string" where
  "show_label l = fst l @ ''='' @ [CHR 0x22] @ snd l @ [CHR 0x22]"

definition show_sample :: "string \<Rightarrow> sample \<Rightarrow> string" where
  "show_sample name s =
     name @ (if sample_labels s = [] then [] else ''{'' @ join (CHR '','') (map show_label (sample_labels s)) @ ''}'') @ '' '' @ sample_value s"

definition family_lines :: "family \<Rightarrow> string list" where
  "family_lines f =
     (''# HELP '' @ fam_name f @ '' '' @ fam_help f) # (''# TYPE '' @ fam_name f @ '' '' @ show_metric_type (fam_type f)) #
     map (\<lambda>s. show_sample (fam_name f @ sample_suffix s) s) (fam_samples f)"

definition exposition :: "family list \<Rightarrow> string" where
  "exposition fs = concat (map (\<lambda>l. l @ [newline]) (concat (map family_lines fs)))"

definition prom_char :: "char \<Rightarrow> bool" where
  "prom_char c \<longleftrightarrow> is_alphanumeric c \<or> c = CHR ''_'' \<or> c = CHR '':''"

definition prom_name :: "string \<Rightarrow> bool" where
  "prom_name n \<longleftrightarrow> n \<noteq> [] \<and> (\<forall>c \<in> set n. prom_char c)"

definition label_ok :: "string \<times> string \<Rightarrow> bool" where
  "label_ok l \<longleftrightarrow>
     prom_name (fst l) \<and> plain (snd l) \<and> CHR '','' \<notin> set (snd l) \<and> CHR ''}'' \<notin> set (snd l) \<and>
     (snd l \<noteq> [] \<longrightarrow> hd (snd l) \<noteq> CHR 0x22 \<and> last (snd l) \<noteq> CHR 0x22)"

definition sample_ok :: "MetricType \<Rightarrow> sample \<Rightarrow> bool" where
  "sample_ok t s \<longleftrightarrow>
     sample_suffix s \<in> (if t = Mt_Histogram \<or> t = Mt_Summary then {[], ''_sum'', ''_count'', ''_bucket''} else {[]}) \<and>
     (\<forall>l \<in> set (sample_labels s). label_ok l) \<and> word (sample_value s) \<and> CHR ''#'' \<notin> set (sample_value s) \<and> CHR ''}'' \<notin> set (sample_value s)"

definition family_ok :: "family \<Rightarrow> bool" where
  "family_ok f \<longleftrightarrow> prom_name (fam_name f) \<and> plain (fam_help f) \<and> fam_help f \<noteq> [] \<and> \<not> is_whitespace (last (fam_help f)) \<and> (\<forall>s \<in> set (fam_samples f). sample_ok (fam_type f) s)"

text \<open>
  What should be recorded of a sample, by the number its value is the text of (\<open>parse_f64\<close> is the standard
  library's reading of a number). A gauge has any number. A counter has a number from 0 up to 2 to
  the 64, without its fraction and at most \<open>u64::MAX\<close>, and zero for what is not a number. Its
  labels come first and then the tags, and its name has dots; a value that is no number is not recorded.
\<close>

definition recorded :: "(string \<times> string) list option \<Rightarrow> string list option \<Rightarrow> family \<Rightarrow> sample \<Rightarrow> target_metric list" where
  "recorded tags metrics f s =
     (let name = replace_dunder (fam_name f);
          key = ''target/'' @ name;
          ls = sample_labels s @ (case tags of None \<Rightarrow> [] | Some ts \<Rightarrow> ts)
      in if (case metrics of None \<Rightarrow> False | Some ms \<Rightarrow> name \<notin> set ms) then []
         else case (fam_type f, parse_f64 (sample_value s)) of
             (Mt_Gauge, Some x) \<Rightarrow> [Set_Gauge key ls x]
           | (Mt_Counter, Some (Fin q)) \<Rightarrow> if 0 \<le> q \<and> q \<le> 2 ^ 64 then [Set_Counter key ls (min (nat \<lfloor>q\<rfloor>) (2 ^ 64 - 1))] else []
           | (Mt_Counter, Some NegZero) \<Rightarrow> [Set_Counter key ls 0]
           | (Mt_Counter, Some NaN) \<Rightarrow> [Set_Counter key ls 0]
           | _ \<Rightarrow> [])"

lemma u64_max_as_f64: "as_f64 18446744073709551615 = Fin 18446744073709551616"
proof -
  have "floorlog 2 18446744073709551615 = 64" by (simp add: compute_floorlog)
  then show ?thesis by (simp add: as_f64_def nearest_f64_def round_sig_def round_half_even_def Let_def)
qed

lemma record_sample_recorded:
  assumes "sample_ok (fam_type f) s" "case metrics of None \<Rightarrow> True | Some ms \<Rightarrow> replace_dunder (fam_name f) \<in> set ms \<or> fam_type f \<in> {Mt_Histogram, Mt_Summary}"
  shows "record_sample (Some (fam_type f)) (replace_dunder (fam_name f @ sample_suffix s))
      (with_tags tags (if sample_labels s = [] then None else Some (sample_labels s))) (sample_value s) = recorded tags metrics f s"
proof -
  have ls: "(case with_tags tags (if sample_labels s = [] then None else Some (sample_labels s)) of None \<Rightarrow> [] | Some ls \<Rightarrow> ls) =
      sample_labels s @ (case tags of None \<Rightarrow> [] | Some ts \<Rightarrow> ts)" by (simp add: with_tags_def split: option.split)
  show ?thesis using assms
    by (cases "fam_type f"; cases "parse_f64 (sample_value s)" rule: option.exhaust; cases "the (parse_f64 (sample_value s))")
      (auto simp: record_sample_def recorded_def ls u64_max_as_f64 sample_ok_def float_less_def umax_def Let_def split: option.splits)
qed

lemma prom_char_not: "prom_char c \<Longrightarrow> \<not> is_whitespace c \<and> \<not> is_ascii_whitespace c \<and> c \<notin> set ''{}#=, '' \<and> c \<noteq> newline \<and> c \<noteq> CHR 0x0D"
  by (auto simp: prom_char_def is_alphanumeric_def is_digit_def is_whitespace_def is_ascii_whitespace_def newline_def)

lemma prom_name_facts:
  assumes "prom_name n"
  shows "word n" "CHR ''{'' \<notin> set n" "CHR ''}'' \<notin> set n" "CHR ''='' \<notin> set n" "CHR '','' \<notin> set n" "hd n \<noteq> CHR ''#''" "plain n" "n \<noteq> []"
  using assms prom_char_not by (auto simp: prom_name_def word_def list_all_iff plain_def dest!: hd_in_set)

lemma ascii_whitespace: "is_ascii_whitespace c \<Longrightarrow> is_whitespace c"
  by (auto simp: is_ascii_whitespace_def is_whitespace_def)

lemma split_ascii_words:
  assumes "\<forall>w \<in> set ws. word w" "ws \<noteq> []"
  shows "split_ascii_whitespace (join (CHR '' '') ws) = ws"
proof -
  have id: "map (\<lambda>c. if is_ascii_whitespace c then CHR '' '' else c) (join (CHR '' '') ws) = join (CHR '' '') ws"
    using assms(1) by (intro map_idI) (auto dest!: join_mem ascii_whitespace simp: word_def list_all_iff)
  have "CHR '' '' \<notin> set w" if "w \<in> set ws" for w using assms(1) that by (fastforce simp: word_def list_all_iff is_whitespace_def)
  then have "split_on (CHR '' '') (join (CHR '' '') ws) = ws" using assms(2) by (intro split_on_join) auto
  moreover have "filter (\<lambda>w. w \<noteq> []) ws = ws" using assms(1) by (auto simp: word_def intro: filter_True)
  ultimately show ?thesis by (simp add: split_ascii_whitespace_def id)
qed

lemma split_ascii_leading: "word w \<Longrightarrow> split_ascii_whitespace (CHR '' '' # w) = [w]"
  using split_ascii_words [of "[w]"] by (simp add: split_ascii_whitespace_def is_ascii_whitespace_def)

lemma trim_id: "s \<noteq> [] \<Longrightarrow> \<not> is_whitespace (hd s) \<Longrightarrow> \<not> is_whitespace (last s) \<Longrightarrow> trim s = s"
proof -
  assume s: "s \<noteq> []" "\<not> is_whitespace (hd s)" "\<not> is_whitespace (last s)"
  have "dropWhile is_whitespace s = s" using s(1,2) by (cases s) auto
  moreover have "dropWhile is_whitespace (rev s) = rev s" using s(1,3) by (cases s rule: rev_cases) auto
  ultimately show ?thesis by (simp add: trim_def)
qed

lemma split_inclusive_two:
  "d \<notin> set v \<Longrightarrow> d \<notin> set w \<Longrightarrow> w \<noteq> [] \<Longrightarrow> split_inclusive d (v @ d # w) = [v @ [d], w]"
  by (simp add: split_inclusive_def)

lemma split_once_first: "d \<notin> set v \<Longrightarrow> split_once d (v @ d # w) = Some (v, w)"
proof -
  assume "d \<notin> set v"
  then have "\<forall>c \<in> set v. c \<noteq> d" by auto
  then have "takeWhile (\<lambda>c. c \<noteq> d) (v @ d # w) = v" "dropWhile (\<lambda>c. c \<noteq> d) (v @ d # w) = d # w" by (induction v) auto
  then show ?thesis by (simp add: split_once_def)
qed

lemma trim_end_one: "s \<noteq> [] \<Longrightarrow> last s \<noteq> d \<Longrightarrow> trim_end_matches d (s @ [d]) = s"
  by (cases s rule: rev_cases) (auto simp: trim_end_matches_def)

lemma parse_show_label:
  assumes "label_ok l"
  shows "parse_label (show_label l) = Some l"
proof -
  obtain k v where l: "l = (k, v)" by force
  have "split_once (CHR ''='') (k @ CHR ''='' # CHR 0x22 # v @ [CHR 0x22]) = Some (k, CHR 0x22 # v @ [CHR 0x22])"
    using assms prom_name_facts by (intro split_once_first) (simp add: label_ok_def l)
  moreover have "trim_matches (CHR 0x22) (CHR 0x22 # v @ [CHR 0x22]) = v"
  proof (cases v)
    case (Cons c cs)
    with assms have "dropWhile (\<lambda>x. x = CHR 0x22) (v @ [CHR 0x22]) = v @ [CHR 0x22]" "last v \<noteq> CHR 0x22" by (simp_all add: label_ok_def l)
    with Cons trim_end_one [of v "CHR 0x22"] show ?thesis by (simp add: trim_matches_def split: if_splits)
  qed (simp add: trim_matches_def trim_end_matches_def)
  ultimately show ?thesis by (simp add: parse_label_def show_label_def l)
qed

lemma show_label_chars: "label_ok l \<Longrightarrow> CHR '','' \<notin> set (show_label l) \<and> CHR ''}'' \<notin> set (show_label l) \<and> plain (show_label l) \<and> last (show_label l) = CHR 0x22"
  using prom_name_facts [of "fst l"] by (auto simp: label_ok_def show_label_def newline_def)

lemma name_labels_show:
  assumes "prom_name n" "ls \<noteq> []" "\<forall>l \<in> set ls. label_ok l"
  shows "name_labels (n @ ''{'' @ join (CHR '','') (map show_label ls) @ ''}'') = Some (n, Some ls)"
proof -
  let ?text = "join (CHR '','') (map show_label ls)"
  have last: "?text \<noteq> [] \<and> last ?text = CHR 0x22"
  proof -
    have "join d ws \<noteq> [] \<and> last (join d ws) = last (last ws)" if "ws \<noteq> []" "\<forall>w \<in> set ws. w \<noteq> []" for d :: char and ws
      using that by (induction d ws rule: join.induct) (auto split: if_splits)
    from this [of "map show_label ls"] assms(2,3) show ?thesis by (auto simp: show_label_chars last_map show_label_def)
  qed
  have "split_on (CHR '','') ?text = map show_label ls"
    using assms(2,3) show_label_chars by (intro split_on_join) auto
  moreover have "map parse_label (map show_label ls) = map Some ls" using assms(3) parse_show_label by simp
  moreover have "split_once (CHR ''{'') (n @ CHR ''{'' # ?text @ ''}'') = Some (n, ?text @ ''}'')"
    using prom_name_facts(2) [OF assms(1)] by (rule split_once_first)
  ultimately show ?thesis using last trim_end_one [of ?text "CHR ''}''"] by (simp add: name_labels_def all_some_def image_iff comp_def map_idI)
qed

lemma sample_parts_show:
  assumes "prom_name n" "sample_ok t s"
  shows "\<exists>nl. sample_parts (show_sample n s) = Some (nl, sample_value s) \<and>
    name_labels nl = Some (n, if sample_labels s = [] then None else Some (sample_labels s))"
proof (cases "sample_labels s = []")
  case True
  have v: "word (sample_value s)" "CHR ''}'' \<notin> set (sample_value s)" using assms(2) by (simp_all add: sample_ok_def)
  note n = prom_name_facts [OF assms(1)]
  have "split_ascii_whitespace (show_sample n s) = [n, sample_value s]"
    using split_ascii_words [of "[n, sample_value s]"] n v True by (simp add: show_sample_def)
  moreover have "split_ascii_whitespace (sample_value s) = [sample_value s]" using split_ascii_words [of "[sample_value s]"] v by simp
  moreover have "CHR ''}'' \<notin> set (show_sample n s)" using n v True by (simp add: show_sample_def)
  ultimately show ?thesis using True n by (simp add: sample_parts_def name_labels_def split_once_def)
next
  case False
  let ?text = "join (CHR '','') (map show_label (sample_labels s))"
  have v: "word (sample_value s)" "CHR ''}'' \<notin> set (sample_value s)" and ls: "\<forall>l \<in> set (sample_labels s). label_ok l"
    using assms(2) by (simp_all add: sample_ok_def)
  have "CHR ''}'' \<notin> set ?text" using ls show_label_chars by (auto dest!: join_mem)
  with prom_name_facts(3) [OF assms(1)] v have "split_inclusive (CHR ''}'') ((n @ ''{'' @ ?text) @ CHR ''}'' # CHR '' '' # sample_value s) =
      [(n @ ''{'' @ ?text) @ ''}'', CHR '' '' # sample_value s]" by (intro split_inclusive_two) auto
  with False v split_ascii_leading have "sample_parts (show_sample n s) = Some (n @ ''{'' @ ?text @ ''}'', sample_value s)"
    by (simp add: sample_parts_def show_sample_def)
  with name_labels_show [OF assms(1) False ls] False show ?thesis by auto
qed

lemma starts_with_hd: "starts_with p s \<Longrightarrow> p \<noteq> [] \<Longrightarrow> s \<noteq> [] \<and> hd s = hd p"
  by (cases p; cases s) (auto simp: starts_with_def)

lemma prom_name_suffix: "prom_name n \<Longrightarrow> sample_ok t s \<Longrightarrow> prom_name (n @ sample_suffix s)"
proof -
  assume n: "prom_name n" and "sample_ok t s"
  then have "sample_suffix s \<in> {[], ''_sum'', ''_count'', ''_bucket''}" by (auto simp: sample_ok_def split: if_splits)
  moreover have "\<forall>c \<in> set ''_sumcountbucket''. prom_char c" by (simp add: prom_char_def is_alphanumeric_def is_digit_def)
  ultimately have "\<forall>c \<in> set (sample_suffix s). prom_char c" by auto
  with n show ?thesis by (auto simp: prom_name_def)
qed

text \<open>The types the lines after a TYPE line are looked up in.\<close>

definition typed :: "family \<Rightarrow> (string \<rightharpoonup> MetricType) \<Rightarrow> bool" where
  "typed f tm \<longleftrightarrow> (\<forall>s. sample_ok (fam_type f) s \<longrightarrow> tm (fam_name f @ sample_suffix s) = Some (fam_type f))"

lemma sample_line_show:
  assumes "family_ok f" "s \<in> set (fam_samples f)" "typed f tm"
  shows "sample_line tags metrics tm (show_sample (fam_name f @ sample_suffix s) s) = Some (recorded tags metrics f s)"
proof -
  let ?n = "fam_name f @ sample_suffix s"
  have ok: "prom_name ?n" "sample_ok (fam_type f) s" using assms(1,2) by (auto simp: family_ok_def intro: prom_name_suffix)
  then obtain nl where nl: "sample_parts (show_sample ?n s) = Some (nl, sample_value s)"
    "name_labels nl = Some (?n, if sample_labels s = [] then None else Some (sample_labels s))" "CHR ''#'' \<notin> set (sample_value s)"
    using sample_parts_show by (metis sample_ok_def)
  have "tm ?n = Some (fam_type f)" using assms(3) ok(2) by (auto simp: typed_def)
  moreover have "recorded tags metrics f s = []" if "\<not> (case metrics of None \<Rightarrow> True | Some ms \<Rightarrow> replace_dunder ?n \<in> set ms)"
    using that ok(2) by (cases "fam_type f") (auto simp: recorded_def sample_ok_def Let_def split: option.splits)
  moreover have "record_sample (Some (fam_type f)) (replace_dunder ?n) (with_tags tags (if sample_labels s = [] then None else Some (sample_labels s))) (sample_value s) =
      recorded tags metrics f s" if "case metrics of None \<Rightarrow> True | Some ms \<Rightarrow> replace_dunder ?n \<in> set ms"
    using that ok(2) by (intro record_sample_recorded) (auto simp: sample_ok_def split: option.splits if_splits)
  ultimately show ?thesis using nl by (simp add: sample_line_def Let_def)
qed

lemma scrape_samples:
  assumes "family_ok f" "typed f tm" "set ss \<subseteq> set (fam_samples f)"
  shows "scrape_lines tags metrics (map (\<lambda>s. show_sample (fam_name f @ sample_suffix s) s) ss @ rest) tm =
    (concat (map (recorded tags metrics f) ss) @ fst (scrape_lines tags metrics rest tm), snd (scrape_lines tags metrics rest tm))"
  using assms(3)
proof (induction ss)
  case (Cons s ss)
  let ?line = "show_sample (fam_name f @ sample_suffix s) s"
  have n: "prom_name (fam_name f)" using assms(1) by (simp add: family_ok_def)
  have "hd ?line \<noteq> CHR ''#''" using prom_name_facts(6,8) [OF n] by (simp add: show_sample_def)
  then have no: "\<not> starts_with ''# HELP'' ?line" "\<not> starts_with ''# TYPE'' ?line" using starts_with_hd by fastforce+
  have "sample_line tags metrics tm ?line = Some (recorded tags metrics f s)"
    by (rule sample_line_show) (use assms(1,2) Cons.prems in auto)
  with Cons no show ?case by (simp add: split_beta)
qed simp

lemma metric_type_round_trip [simp]: "metric_type_from_str (show_metric_type t) = Some t"
  by (cases t) (simp_all add: metric_type_from_str_def)

lemma show_metric_type_word: "word (show_metric_type t)"
  by (cases t) (simp_all add: word_def is_whitespace_def)

lemma type_line_show:
  assumes "prom_name n" "n = fam_name f" "t = fam_type f"
  shows "\<exists>tm'. type_line (''# TYPE '' @ n @ '' '' @ show_metric_type t) tm = Some tm' \<and> typed f tm'"
proof -
  have "word ''#''" "word ''TYPE''" by (simp_all add: word_def is_whitespace_def)
  then have "split_ascii_whitespace (''# TYPE '' @ n @ '' '' @ show_metric_type t) = [''#'', ''TYPE'', n, show_metric_type t]"
    using split_ascii_words [of "[''#'', ''TYPE'', n, show_metric_type t]"] prom_name_facts(1) [OF assms(1)] show_metric_type_word by simp
  then show ?thesis by (auto simp: type_line_def typed_def sample_ok_def assms(2,3) Let_def split: if_splits)
qed

lemma scrape_families:
  assumes "\<forall>f \<in> set fs. family_ok f"
  shows "scrape_lines tags metrics (concat (map family_lines fs)) tm =
    (concat (map (\<lambda>f. concat (map (recorded tags metrics f) (fam_samples f))) fs), False)"
  using assms
proof (induction fs arbitrary: tm)
  case (Cons f fs)
  then obtain tm' where tm': "type_line (''# TYPE '' @ fam_name f @ '' '' @ show_metric_type (fam_type f)) tm = Some tm'" "typed f tm'"
    using type_line_show [of "fam_name f" f "fam_type f" tm] by (auto simp: family_ok_def)
  have "starts_with ''# HELP'' (''# HELP '' @ x)" "\<not> starts_with ''# HELP'' (''# TYPE '' @ x)" "starts_with ''# TYPE'' (''# TYPE '' @ x)" for x
    by (simp_all add: starts_with_def)
  moreover have "scrape_lines tags metrics (map (\<lambda>s. show_sample (fam_name f @ sample_suffix s) s) (fam_samples f) @ rest) tm' =
      (concat (map (recorded tags metrics f) (fam_samples f)) @ fst (scrape_lines tags metrics rest tm'), snd (scrape_lines tags metrics rest tm'))" for rest
    by (rule scrape_samples) (use Cons.prems tm'(2) in auto)
  ultimately show ?case using tm'(1) Cons by (simp add: family_lines_def)
qed simp

lemma family_line_plain:
  assumes "family_ok f" "l \<in> set (family_lines f)"
  shows "plain l \<and> l \<noteq> [] \<and> trim l = l"
proof -
  have f: "prom_name (fam_name f)" "plain (fam_help f)" "fam_help f \<noteq> []" "\<not> is_whitespace (last (fam_help f))"
    and ss: "\<And>s. s \<in> set (fam_samples f) \<Longrightarrow> sample_ok (fam_type f) s" using assms(1) by (auto simp: family_ok_def)
  note n = prom_name_facts [OF f(1)]
  have ends: "\<not> is_whitespace (last w)" "\<not> is_whitespace (hd w)" "w \<noteq> []" "plain w" if "word w" for w
    using that last_in_set [of w] hd_in_set [of w] plain_word by (auto simp: word_def list_all_iff)
  have hash: "\<not> is_whitespace (CHR ''#'')" by (simp add: is_whitespace_def)
  consider "l = ''# HELP '' @ fam_name f @ '' '' @ fam_help f" | "l = ''# TYPE '' @ fam_name f @ '' '' @ show_metric_type (fam_type f)"
    | s where "s \<in> set (fam_samples f)" "l = show_sample (fam_name f @ sample_suffix s) s" using assms(2) by (auto simp: family_lines_def)
  then show ?thesis
  proof cases
    case 1
    with f n hash show ?thesis by (simp add: trim_id) (simp add: newline_def)
  next
    case 2
    with n hash ends [OF show_metric_type_word] show ?thesis by (simp add: trim_id) (simp add: newline_def)
  next
    case 3
    from ss [OF 3(1)] have s: "word (sample_value s)" "\<forall>l \<in> set (sample_labels s). label_ok l" by (simp_all add: sample_ok_def)
    then have "plain (join (CHR '','') (map show_label (sample_labels s)))"
      using show_label_chars by (intro plain_join) (auto simp: newline_def)
    moreover note m = prom_name_facts [OF prom_name_suffix [OF f(1) ss [OF 3(1)]]]
    ultimately show ?thesis using 3(2) n m ends [OF s(1)] ends [OF m(1)] by (simp add: show_sample_def trim_id newline_def del: append_is_Nil_conv)
  qed
qed

text \<open>A whole number below 2 to the 53 is read as the number it is.\<close>

lemma round_sig_nat: "n < 2 ^ 53 \<Longrightarrow> round_sig 53 (of_nat n) = of_nat n"
proof (cases "n = 0")
  case False
  assume n: "n < 2 ^ 53"
  let ?k = "floorlog 2 n"
  have "?k \<le> 53" using n by (intro floorlog_leI) auto
  then have p: "(2 :: rat) ^ 53 = 2 ^ (53 - ?k) * 2 ^ ?k" by (simp flip: power_add)
  have q: "(of_nat n :: rat) * 2 ^ 53 / 2 ^ ?k = of_int (int n * 2 ^ (53 - ?k))" using p by (simp add: field_simps)
  have "round_half_even ((of_nat n :: rat) * 2 ^ 53 / 2 ^ ?k) = int n * 2 ^ (53 - ?k)" unfolding q by (simp only: round_half_even_def floor_of_int Let_def) simp
  then have "round_sig 53 (of_nat n) = of_int (int n * 2 ^ (53 - ?k)) * 2 ^ ?k / 2 ^ 53" using False by (simp add: round_sig_def Let_def)
  also have "\<dots> = of_nat n" using p by (simp add: field_simps)
  finally show ?thesis .
qed (simp add: round_sig_def)

lemma nearest_f64_nat:
  assumes "n < 2 ^ 53"
  shows "nearest_f64 False (of_nat n) = Fin (of_nat n)"
proof (cases "n = 0")
  case False
  then have one: "1 \<le> (of_nat n :: rat)" by simp
  have "(of_nat n :: rat) < 2 ^ 53" using assms of_nat_less_iff [where ?'a = rat, of n "2 ^ 53"] by simp
  also have "(2 :: rat) ^ 53 \<le> 2 ^ 1024 - 2 ^ 970" by simp
  finally have big: "\<not> 2 ^ 1024 - 2 ^ 970 \<le> \<bar>of_nat n :: rat\<bar>" by simp
  have "(1 :: rat) / 2 ^ 1022 \<le> 1" by simp
  with one have "\<not> \<bar>of_nat n :: rat\<bar> < 1 / 2 ^ 1022" by linarith
  with big False show ?thesis by (simp only: nearest_f64_def if_False round_sig_nat [OF assms] Let_def) simp
qed (simp add: nearest_f64_def round_half_even_def signed_zero_def)

lemma parse_show_nat:
  assumes "n < 2 ^ 53"
  shows "parse_f64 (show_nat n) = Some (Fin (of_nat n))"
proof -
  have d: "\<forall>c \<in> set (show_nat n). is_digit c" using show_nat_digits by (auto simp: list_all_iff)
  have hd: "is_digit (hd (show_nat n))" using d by simp
  have "takeWhile is_digit (show_nat n) = show_nat n" "dropWhile is_digit (show_nat n) = []" using d by (simp_all add: takeWhile_eq_all_conv dropWhile_eq_Nil_conv)
  moreover note takeWhile_eq_all_conv [simp del] dropWhile_eq_Nil_conv [simp del]
  moreover have "cut_sign (show_nat n) = (False, show_nat n)" using hd by (auto simp: cut_sign_def is_digit_def)
  moreover have "map lowercase (show_nat n) \<noteq> CHR ''i'' # w" "map lowercase (show_nat n) \<noteq> CHR ''n'' # w" for w
    using hd by (cases "show_nat n"; auto simp: is_digit_def lowercase_def Let_def)+
  ultimately show ?thesis using assms digits_in_show_radix [of 10 n] nearest_f64_nat [OF assms]
    by (simp add: parse_f64_def parse_exponent_def Let_def flip: show_nat_radix)
qed



end
