(* ===== verification/Blackhole.thy ===== *)
theory Blackhole
  imports Generator_Http Floats "HOL-Library.Multiset"
begin

text \<open>
  The blackholes (\<^verbatim>\<open>blackhole.rs\<close>, \<^verbatim>\<open>blackhole/*.rs\<close>, SQS apart): the decoding of request bodies
  (\<^verbatim>\<open>codec.rs\<close>), the HTTP server with its limit on connections (\<^verbatim>\<open>common.rs\<close>), the HTTP and Splunk HEC
  services on it, and the four socket servers. Decoders of other crates, JSON and the sockets are arguments
  or events; log lines are left out.
\<close>

section \<open>Content encodings\<close>

text \<open>The decoders give the message of their error or what they decoded.\<close>

record codecs =
  gunzip :: "string \<Rightarrow> string + string"
  inflate :: "string \<Rightarrow> string + string"
  unzstd :: "string \<Rightarrow> string + string"

datatype decode_error = Unsupported string | Undecodable string string

text \<open>The encodings of a header, the last one first.\<close>

definition encodings :: "string \<Rightarrow> string list" where
  "encodings header = map (\<lambda>e. map lowercase (trim e)) (rev (split_on (CHR '','') header))"

definition decode_one :: "codecs \<Rightarrow> string \<Rightarrow> string \<Rightarrow> decode_error + string" where
  "decode_one cs encoding body =
     (let decoded = map_sum (Undecodable encoding) id
      in if encoding = ''identity'' then Inr body
         else if encoding = ''gzip'' then decoded (gunzip cs body)
         else if encoding = ''deflate'' then decoded (inflate cs body)
         else if encoding = ''zstd'' then decoded (unzstd cs body)
         else Inl (Unsupported encoding))"

fun decode_all :: "codecs \<Rightarrow> string list \<Rightarrow> string \<Rightarrow> decode_error + string" where
  "decode_all cs [] body = Inr body"
| "decode_all cs (e # es) body = (case decode_one cs e body of Inl err \<Rightarrow> Inl err | Inr b \<Rightarrow> decode_all cs es b)"

definition decode :: "codecs \<Rightarrow> string option \<Rightarrow> string \<Rightarrow> decode_error + string" where
  "decode cs content_encoding body =
     (case content_encoding of None \<Rightarrow> Inr body | Some header \<Rightarrow> decode_all cs (encodings header) body)"

section \<open>Responses\<close>

record response =
  resp_status :: nat
  resp_headers :: "(string \<times> string) list"
  resp_body :: string

fun decode_response :: "decode_error \<Rightarrow> response" where
  "decode_response (Unsupported e) = \<lparr>resp_status = 415, resp_headers = [], resp_body = ''Unsupported encoding type: '' @ e\<rparr>"
| "decode_response (Undecodable e msg) = \<lparr>resp_status = 415, resp_headers = [], resp_body = ''failed to decode input as '' @ e @ '': '' @ msg\<rparr>"

record counters =
  requests_received :: nat
  bytes_received :: nat
  decoded_bytes_received :: nat

definition no_counts :: counters where
  "no_counts = \<lparr>requests_received = 0, bytes_received = 0, decoded_bytes_received = 0\<rparr>"

text \<open>A request: its method and path, the header \<open>Content-Encoding\<close>, and the body, \<open>None\<close> when it cannot be read.\<close>

record http_request =
  req_method :: string
  req_path :: string
  req_encoding :: "string option"
  req_body :: "string option"

definition metric_labels :: "string \<Rightarrow> string option \<Rightarrow> (string \<times> string) list" where
  "metric_labels name general_id =
     [(''component'', ''blackhole''), (''component_name'', name)] @ (case general_id of None \<Rightarrow> [] | Some i \<Rightarrow> [(''id'', i)])"

text \<open>What both services do first: count the request and its bytes, decode, count the decoded bytes. \<open>None\<close> is an unreadable body.\<close>

definition receive :: "codecs \<Rightarrow> http_request \<Rightarrow> counters \<Rightarrow> (decode_error + string) option \<times> counters" where
  "receive cs req n =
     (let n = n\<lparr>requests_received := requests_received n + 1\<rparr>
      in case req_body req of
           None \<Rightarrow> (None, n)
         | Some body \<Rightarrow>
             let n = n\<lparr>bytes_received := bytes_received n + length body\<rparr>
             in case decode cs (req_encoding req) body of
                  Inl e \<Rightarrow> (Some (Inl e), n)
                | Inr b \<Rightarrow> (Some (Inr b), n\<lparr>decoded_bytes_received := decoded_bytes_received n + length b\<rparr>))"

section \<open>HTTP\<close>

datatype BodyVariant = Body_Nothing | Body_AwsKinesis | Body_RawBytes | Body_Static string

record http_config =
  concurrent_requests_max :: nat
  body_variant :: BodyVariant
  http_headers :: "(string \<times> string) list"
  http_status :: nat
  raw_bytes :: string
  response_delay_millis :: nat

definition default_http_config :: http_config where
  "default_http_config =
     \<lparr>concurrent_requests_max = 100, body_variant = Body_Nothing, http_headers = [(''content-type'', ''application/json'')],
      http_status = 200, raw_bytes = [], response_delay_millis = 0\<rparr>"

datatype http_error = InvalidStatusCode | Http_Serde

record http_hole =
  hole_body :: string
  hole_limit :: nat
  hole_headers :: "(string \<times> string) list"
  hole_status :: nat
  hole_delay :: nat
  hole_labels :: "(string \<times> string) list"

text \<open>A status code is a number of three digits. \<open>kinesis\<close> is the JSON text of the fixed Kinesis response.\<close>

definition http_hole_new :: "string option \<Rightarrow> string option \<Rightarrow> http_config \<Rightarrow> http_error + http_hole" where
  "http_hole_new kinesis general_id c =
     (if \<not> (100 \<le> http_status c \<and> http_status c < 1000) then Inl InvalidStatusCode
      else
        let hole = (\<lambda>body. \<lparr>hole_body = body, hole_limit = concurrent_requests_max c, hole_headers = http_headers c,
                            hole_status = http_status c, hole_delay = response_delay_millis c, hole_labels = metric_labels ''http'' general_id\<rparr>)
        in case body_variant c of
             Body_AwsKinesis \<Rightarrow> (case kinesis of None \<Rightarrow> Inl Http_Serde | Some b \<Rightarrow> Inr (hole b))
           | Body_Nothing \<Rightarrow> Inr (hole [])
           | Body_RawBytes \<Rightarrow> Inr (hole (raw_bytes c))
           | Body_Static val \<Rightarrow> Inr (hole val))"

definition http_srv :: "codecs \<Rightarrow> http_hole \<Rightarrow> http_request \<Rightarrow> counters \<Rightarrow> response option \<times> counters" where
  "http_srv cs h req n =
     (case receive cs req n of
        (None, n) \<Rightarrow> (None, n)
      | (Some (Inl e), n) \<Rightarrow> (Some (decode_response e), n)
      | (Some (Inr body), n) \<Rightarrow> (Some \<lparr>resp_status = hole_status h, resp_headers = hole_headers h, resp_body = hole_body h\<rparr>, n))"

section \<open>Splunk HEC\<close>

text \<open>The JSON of the responses (\<open>None\<close> an error) and the parser of a request for acknowledgements.\<close>

record hec_json =
  event_json :: "nat \<Rightarrow> string option"
  acks_json :: "(nat \<rightharpoonup> bool) \<Rightarrow> string option"
  acks_from_json :: "string \<Rightarrow> nat list option"

definition ack_response_of :: "nat list \<Rightarrow> (nat \<rightharpoonup> bool)" where
  "ack_response_of acks = fold (\<lambda>i m. m(i \<mapsto> True)) acks Map.empty"

definition event_paths :: "string list" where
  "event_paths = [''/services/collector/event'', ''/services/collector/event/1.0'', ''/services/collector/raw'', ''/services/collector/raw/1.0'']"

definition json_or_error :: "string option \<Rightarrow> response" where
  "json_or_error b =
     \<lparr>resp_status = (case b of None \<Rightarrow> 500 | Some _ \<Rightarrow> 200), resp_headers = [(''content-type'', ''application/json'')],
      resp_body = (case b of None \<Rightarrow> [] | Some b \<Rightarrow> b)\<rparr>"

text \<open>The service; the acknowledgement counter is shared by the whole program.\<close>

definition hec_srv :: "codecs \<Rightarrow> hec_json \<Rightarrow> http_request \<Rightarrow> nat \<Rightarrow> counters \<Rightarrow> response option \<times> nat \<times> counters" where
  "hec_srv cs js req ack_id n =
     (case receive cs req n of
        (None, n) \<Rightarrow> (None, ack_id, n)
      | (Some (Inl e), n) \<Rightarrow> (Some (decode_response e), ack_id, n)
      | (Some (Inr body), n) \<Rightarrow>
          if req_method req = ''POST'' \<and> req_path req \<in> set event_paths
          then (Some (json_or_error (event_json js ack_id)), wrapping_add 64 ack_id 1, n)
          else if req_method req = ''POST'' \<and> req_path req = ''/services/collector/ack''
          then
            (case acks_from_json js body of
               Some acks \<Rightarrow> (Some (json_or_error (acks_json js (ack_response_of acks))), ack_id, n)
             | None \<Rightarrow> (Some \<lparr>resp_status = 400, resp_headers = [(''content-type'', ''application/json'')], resp_body = []\<rparr>, ack_id, n))
          else (Some (json_or_error (Some [])), ack_id, n))"

section \<open>The HTTP server\<close>

text \<open>
  \<open>run_httpd\<close>: each accepted connection gets a task, and a task serves its connection if it finds a free
  permit and drops it otherwise. Connections are numbered as they are accepted; \<open>served\<close> and \<open>shed\<close> are
  histories of those that are over.
\<close>

record httpd =
  free_permits :: nat
  accepting :: bool
  accepted :: nat
  spawned :: "nat list"
  serving :: "nat list"
  served :: "nat list"
  shed :: "nat list"

text \<open>A semaphore holds at most \<open>usize::MAX >> 3\<close> permits and panics when it is made with more; an address that cannot be bound ends the server too.\<close>

definition max_permits :: nat where
  "max_permits = 2 ^ 61 - 1"

definition httpd_new :: "bool \<Rightarrow> nat \<Rightarrow> httpd option" where
  "httpd_new binds limit =
     (if binds \<and> limit \<le> max_permits
      then Some \<lparr>free_permits = limit, accepting = True, accepted = 0, spawned = [], serving = [], served = [], shed = []\<rparr>
      else None)"

datatype httpd_event = Hd_Accept bool | Hd_Task nat | Hd_Served nat | Hd_Shutdown

fun httpd_act :: "httpd_event \<Rightarrow> httpd \<Rightarrow> (unit \<times> httpd) option" where
  "httpd_act (Hd_Accept ok) h =
     (if accepting h
      then Some ((), if ok then h\<lparr>accepted := accepted h + 1, spawned := spawned h @ [accepted h]\<rparr> else h)
      else None)"
| "httpd_act (Hd_Task i) h =
     (if i \<in> set (spawned h)
      then
        let h = h\<lparr>spawned := remove1 i (spawned h)\<rparr>
        in Some ((), if free_permits h = 0 then h\<lparr>shed := i # shed h\<rparr> else h\<lparr>free_permits := free_permits h - 1, serving := i # serving h\<rparr>)
      else None)"
| "httpd_act (Hd_Served i) h =
     (if i \<in> set (serving h)
      then Some ((), h\<lparr>serving := remove1 i (serving h), served := i # served h, free_permits := free_permits h + 1\<rparr>)
      else None)"
| "httpd_act Hd_Shutdown h = (if accepting h then Some ((), h\<lparr>accepting := False\<rparr>) else None)"

text \<open>\<open>claimed_permits\<close>, a subtraction of unsigned numbers, and when \<open>run_httpd\<close> returns.\<close>

definition claimed_permits :: "nat \<Rightarrow> httpd \<Rightarrow> nat option" where
  "claimed_permits limit h = checked_sub limit (free_permits h)"

definition httpd_returned :: "httpd \<Rightarrow> bool" where
  "httpd_returned h \<longleftrightarrow> \<not> accepting h \<and> spawned h = [] \<and> serving h = []"

definition httpd_inv :: "nat \<Rightarrow> httpd \<Rightarrow> bool" where
  "httpd_inv limit h \<longleftrightarrow>
     free_permits h + length (serving h) = limit \<and>
     mset (spawned h) + mset (serving h) + mset (served h) + mset (shed h) = mset [0..<accepted h]"

lemma httpd_act_inv:
  assumes "httpd_inv limit h" "httpd_act e h = Some (r, h')"
  shows "httpd_inv limit h'"
proof (cases e)
  case (Hd_Accept ok)
  with assms show ?thesis by (auto simp: httpd_inv_def simp del: mset_upt split: if_splits)
next
  case (Hd_Task i)
  with assms(2) have i: "i \<in> set (spawned h)" by (auto split: if_splits)
  then obtain M where M: "mset (spawned h) = add_mset i M" by (metis insert_DiffM set_mset_mset)
  then have "mset (remove1 i (spawned h)) = M" by simp
  with assms Hd_Task i M show ?thesis by (auto simp: httpd_inv_def Let_def simp del: mset_remove1 split: if_splits)
next
  case (Hd_Served i)
  with assms have i: "i \<in> set (serving h)" and h': "h' = h\<lparr>serving := remove1 i (serving h), served := i # served h, free_permits := free_permits h + 1\<rparr>"
    by (auto split: if_splits)
  from i have len: "length (serving h) = Suc (length (remove1 i (serving h)))" using length_pos_if_in_set [OF i] by (simp add: length_remove1)
  from i obtain M where M: "mset (serving h) = add_mset i M" by (metis insert_DiffM set_mset_mset)
  then have "mset (remove1 i (serving h)) = M" by simp
  with assms(1) len M show ?thesis unfolding h' by (simp add: httpd_inv_def del: mset_remove1 length_remove1)
qed (use assms in \<open>auto simp: httpd_inv_def split: if_splits\<close>)

interpretation hd: invariant_machine httpd_act "\<lambda>_ _. True" "httpd_inv limit" for limit
  by unfold_locales (blast intro: httpd_act_inv)

text \<open>
  C31. The HTTP blackhole sheds load exactly above its limit. In every state of the server: no more than
  \<open>concurrency_limit\<close> connections are served at once, the number of claimed permits can be computed
  without underflow and is that of the connections served, every accepted connection is waiting, in
  service, served or shed, and exactly one of these; a connection is shed only when the limit is
  reached; and the server returns only after a shutdown and when every connection is over.
\<close>

theorem httpd_sheds_above_limit:
  assumes "httpd_new True limit = Some h0" "reaches httpd_act (\<lambda>_ _. True) h0 h"
  shows "length (serving h) \<le> limit \<and> claimed_permits limit h = Some (length (serving h)) \<and>
    distinct (spawned h @ serving h @ served h @ shed h) \<and> set (spawned h @ serving h @ served h @ shed h) = {0..<accepted h} \<and>
    (httpd_returned h \<longrightarrow> \<not> accepting h \<and> set (served h @ shed h) = {0..<accepted h}) \<and>
    (\<forall>i h'. httpd_act (Hd_Task i) h = Some ((), h') \<longrightarrow> (i \<in> set (shed h') \<longleftrightarrow> length (serving h) = limit))"
proof -
  have "httpd_inv limit h0" using assms(1) by (auto simp: httpd_new_def httpd_inv_def split: if_splits)
  from hd.reaches_inv [OF assms(2) this] have inv: "free_permits h + length (serving h) = limit"
    "mset (spawned h @ serving h @ served h @ shed h) = mset [0..<accepted h]" by (simp_all add: httpd_inv_def add.assoc del: mset_upt)
  have set: "set (spawned h @ serving h @ served h @ shed h) = {0..<accepted h}" using mset_eq_setD [OF inv(2)] by simp
  have dist: "distinct (spawned h @ serving h @ served h @ shed h)" using mset_eq_imp_distinct_iff [OF inv(2)] by simp
  have "i \<in> set (shed h') \<longleftrightarrow> length (serving h) = limit" if "httpd_act (Hd_Task i) h = Some ((), h')" for i h'
    using that dist inv(1) by (auto simp: Let_def split: if_splits)
  with inv(1) set dist show ?thesis by (auto simp: claimed_permits_def checked_sub_def httpd_returned_def)
qed

theorem httpd_sheds_above_limit_witness:
  "\<exists>h0 h. httpd_new True 1 = Some h0 \<and> reaches httpd_act (\<lambda>_ _. True) h0 h \<and> serving h = [0] \<and> shed h = [1] \<and> claimed_permits 1 h = Some 1"
proof -
  let ?h0 = "\<lparr>free_permits = 1, accepting = True, accepted = 0, spawned = [], serving = [], served = [], shed = []\<rparr>"
  let ?last = "\<lparr>free_permits = 0, accepting = True, accepted = 2, spawned = [], serving = [0], served = [], shed = [1]\<rparr>"
  have new: "httpd_new True 1 = Some ?h0" by (simp add: httpd_new_def max_permits_def)
  let ?h1 = "?h0\<lparr>accepted := 1, spawned := [0]\<rparr>" and ?h2 = "?h0\<lparr>accepted := 2, spawned := [0, 1]\<rparr>"
  let ?h3 = "?h2\<lparr>free_permits := 0, spawned := [1], serving := [0]\<rparr>"
  have steps: "httpd_act (Hd_Accept True) ?h0 = Some ((), ?h1)" "httpd_act (Hd_Accept True) ?h1 = Some ((), ?h2)"
    "httpd_act (Hd_Task 0) ?h2 = Some ((), ?h3)" "httpd_act (Hd_Task 1) ?h3 = Some ((), ?last)" by simp_all
  note one = reaches_step [where step = httpd_act and guard = "\<lambda>_ _. True" and r = "()", OF _ TrueI]
  have r: "reaches httpd_act (\<lambda>_ _. True) ?h0 ?last" by (rule one [OF one [OF one [OF one [OF reaches_start steps(1)] steps(2)] steps(3)] steps(4)])
  from httpd_sheds_above_limit [OF new r] have "claimed_permits 1 ?last = Some 1" by simp
  with new r show ?thesis by (intro exI [of _ ?h0] exI [of _ ?last]) simp
qed

section \<open>Encodings are undone\<close>

text \<open>
  A chain of encodings, the first applied first: a name and an encoder for each. The decoders of the
  crates are taken at their documentation, by the name of the encoding: what \<open>gzip\<close> writes the decoder for
  \<open>gzip\<close> reads back, and so on, and \<open>identity\<close> leaves a body as it is.
\<close>

definition known_encodings :: "string list" where
  "known_encodings = [''identity'', ''gzip'', ''deflate'', ''zstd'']"

definition is_encoder :: "codecs \<Rightarrow> string \<times> (string \<Rightarrow> string) \<Rightarrow> bool" where
  "is_encoder cs e \<longleftrightarrow> CHR '','' \<notin> set (fst e) \<and>
     (let name = map lowercase (trim (fst e))
      in name = ''identity'' \<and> (\<forall>b. snd e b = b) \<or>
         name = ''gzip'' \<and> (\<forall>b. gunzip cs (snd e b) = Inr b) \<or>
         name = ''deflate'' \<and> (\<forall>b. inflate cs (snd e b) = Inr b) \<or>
         name = ''zstd'' \<and> (\<forall>b. unzstd cs (snd e b) = Inr b))"

lemma is_encoder_decodes: "is_encoder cs e \<Longrightarrow> decode_one cs (map lowercase (trim (fst e))) (snd e b) = Inr b"
  by (auto simp: is_encoder_def decode_one_def Let_def)

lemma decode_all_append:
  "decode_all cs (es @ fs) b = (case decode_all cs es b of Inl e \<Rightarrow> Inl e | Inr b' \<Rightarrow> decode_all cs fs b')"
  by (induction es arbitrary: b) (auto split: sum.splits)

lemma decode_one_unknown: "e \<notin> set known_encodings \<Longrightarrow> decode_one cs e b = Inl (Unsupported e)"
  by (simp add: decode_one_def known_encodings_def)

text \<open>
  C32. A body is decoded whatever encodings were applied to it: if a client applies encodings of a list one
  after the other (\<open>identity\<close>, \<open>gzip\<close>, \<open>deflate\<close>, \<open>zstd\<close>, each with an encoder its decoder inverts) and names
  them in this order, in any case of letters and with any blanks around a name, the blackhole gets back
  the body. The last encoding is undone first, contrary to the comment, which says they are decoded in the
  order provided. A request whose last encoding has any other name is answered with status 415 and this
  name, and only the request and its bytes on the wire are counted.
\<close>

theorem decode_undoes_encodings:
  assumes "es \<noteq> []" "\<forall>e \<in> set es. is_encoder cs e"
    and "map lowercase (trim x) \<notin> set known_encodings" "CHR '','' \<notin> set x"
  shows "decode cs (Some (join (CHR '','') (map fst es))) (fold (\<lambda>e b. snd e b) es body) = Inr body \<and>
    http_srv cs h \<lparr>req_method = m, req_path = p, req_encoding = Some (join (CHR '','') (map fst es) @ '','' @ x), req_body = Some b\<rparr> n =
      (Some \<lparr>resp_status = 415, resp_headers = [], resp_body = ''Unsupported encoding type: '' @ map lowercase (trim x)\<rparr>,
       n\<lparr>requests_received := requests_received n + 1, bytes_received := bytes_received n + length b\<rparr>)"
proof -
  have names: "split_on (CHR '','') (join (CHR '','') (map fst es)) = map fst es"
    using assms(1,2) by (intro split_on_join) (auto simp: is_encoder_def)
  have "decode_all cs (map (\<lambda>e. map lowercase (trim e)) (rev (map fst es))) (fold (\<lambda>e b. snd e b) es body) = Inr body" using assms(2)
  proof (induction es rule: rev_induct)
    case (snoc e es)
    then show ?case by (simp add: is_encoder_decodes)
  qed simp
  then have "decode cs (Some (join (CHR '','') (map fst es))) (fold (\<lambda>e b. snd e b) es body) = Inr body"
    by (simp add: decode_def encodings_def names)
  moreover have "encodings (join (CHR '','') (map fst es) @ '','' @ x) = map lowercase (trim x) # encodings (join (CHR '','') (map fst es))"
    using assms(4) by (simp add: encodings_def split_on_append_general)
  ultimately show ?thesis
    by (simp add: http_srv_def receive_def decode_def decode_one_unknown [OF assms(3)] Let_def)
qed

theorem decode_undoes_encodings_witness:
  "let cs = \<lparr>gunzip = (\<lambda>b. Inr (tl b)), inflate = (\<lambda>b. Inr (butlast b)), unzstd = (\<lambda>b. Inl [])\<rparr>;
       hole = \<lparr>hole_body = [], hole_limit = 100, hole_headers = [], hole_status = 200, hole_delay = 0, hole_labels = []\<rparr> in
   decode cs (Some ''deflate,GZip'') ''gbodyd'' = Inr ''body'' \<and>
   resp_status (the (fst (http_srv cs hole \<lparr>req_method = ''POST'', req_path = ''/'', req_encoding = Some ''deflate,GZip,br'', req_body = Some ''x''\<rparr> no_counts))) = 415"
proof -
  let ?cs = "\<lparr>gunzip = (\<lambda>b. Inr (tl b)), inflate = (\<lambda>b. Inr (butlast b)), unzstd = (\<lambda>b. Inl [])\<rparr>"
  let ?hole = "\<lparr>hole_body = [], hole_limit = 100, hole_headers = [], hole_status = 200, hole_delay = 0, hole_labels = []\<rparr>"
  let ?es = "[(''deflate'', \<lambda>b. b @ ''d''), (''GZip'', \<lambda>b. CHR ''g'' # b)]"
  have "map lowercase (trim ''deflate'') = ''deflate''" "map lowercase (trim ''GZip'') = ''gzip''" by code_simp+
  then have "\<forall>e \<in> set ?es. is_encoder ?cs e" by (simp add: is_encoder_def)
  moreover have "map lowercase (trim ''br'') \<notin> set known_encodings" by (simp add: known_encodings_def lowercase_def trim_def is_whitespace_def)
  ultimately show ?thesis
    using decode_undoes_encodings [of ?es ?cs "''br''" "''body''" ?hole "''POST''" "''/''" "''x''" no_counts] by simp
qed

section \<open>Acknowledgements\<close>

lemma ack_response_of_all: "ack_response_of acks i = (if i \<in> set acks then Some True else None)"
proof -
  have "fold (\<lambda>i m. m(i \<mapsto> True)) acks m i = (if i \<in> set acks then Some True else m i)" for m :: "nat \<rightharpoonup> bool"
    by (induction acks arbitrary: m) auto
  then show ?thesis by (simp add: ack_response_of_def)
qed

text \<open>Requests served one after another, with the responses they get.\<close>

primrec hec_serve :: "codecs \<Rightarrow> hec_json \<Rightarrow> http_request list \<Rightarrow> nat \<Rightarrow> counters \<Rightarrow> response option list \<times> nat \<times> counters" where
  "hec_serve cs js [] a c = ([], a, c)"
| "hec_serve cs js (r # rs) a c =
     (case hec_srv cs js r a c of (resp, a, c) \<Rightarrow> case hec_serve cs js rs a c of (resps, a, c) \<Rightarrow> (resp # resps, a, c))"

text \<open>A request that posts events, in a body that arrives and decodes.\<close>

definition posts_events :: "codecs \<Rightarrow> http_request \<Rightarrow> bool" where
  "posts_events cs r \<longleftrightarrow> req_method r = ''POST'' \<and> req_path r \<in> set event_paths \<and>
     (case req_body r of None \<Rightarrow> False | Some b \<Rightarrow> (case decode cs (req_encoding r) b of Inl _ \<Rightarrow> False | Inr _ \<Rightarrow> True))"

definition json_ok :: "string \<Rightarrow> response" where
  "json_ok b = \<lparr>resp_status = 200, resp_headers = [(''content-type'', ''application/json'')], resp_body = b\<rparr>"

lemma hec_srv_event:
  assumes "posts_events cs r" "event_json js a = Some b" "a < umax 64"
  shows "\<exists>c'. hec_srv cs js r a c = (Some (json_ok b), a + 1, c') \<and> requests_received c' = requests_received c + 1"
  using assms by (auto simp: hec_srv_def receive_def posts_events_def json_or_error_def json_ok_def wrapping_add_def umax_def Let_def
      split: option.splits sum.splits)

lemma hec_serve_events:
  assumes "\<forall>r \<in> set rs. posts_events cs r" "\<And>i. i < length rs \<Longrightarrow> event_json js (a + i) = Some (json (a + i))" "a + length rs \<le> umax 64"
  shows "\<exists>c'. hec_serve cs js rs a c = (map (\<lambda>i. Some (json_ok (json i))) [a..<a + length rs], a + length rs, c') \<and>
    requests_received c' = requests_received c + length rs"
  using assms
proof (induction rs arbitrary: a c)
  case (Cons r rs)
  have head: "event_json js a = Some (json a)" using Cons.prems(2) [of 0] by simp
  obtain c1 where one: "hec_srv cs js r a c = (Some (json_ok (json a)), a + 1, c1)" "requests_received c1 = requests_received c + 1"
    using hec_srv_event [of cs r js a "json a" c, OF _ head] Cons.prems(1,3) by auto
  have "event_json js (a + 1 + i) = Some (json (a + 1 + i))" if "i < length rs" for i using Cons.prems(2) [of "i + 1"] that by simp
  with Cons.IH [of "a + 1" c1] Cons.prems(1,3) one show ?case by (auto simp: upt_conv_Cons simp del: upt_Suc)
qed simp

text \<open>
  C33. The Splunk generator and the Splunk blackhole agree. Requests that post events, served one after
  another while the counter does not wrap, are all answered with status 200 and with successive
  identifiers, starting with the value of the counter and each used once; and when the generator asks about the
  events it still waits for, in a body the blackhole can parse, the answer has status 200, acknowledges
  every one of them and leaves the counter, so that after one query nothing is waited for. What the JSON library prints it parses.
\<close>

theorem hec_acknowledges_pending:
  assumes "acks_from_json js (query ids) = Some ids" "set ids = dom waiting"
    and "acks_json js (ack_response_of ids) = Some b" "parse b = Ack_Status (ack_response_of ids)"
    and "\<forall>r \<in> set rs. posts_events cs r" "\<And>i. i < length rs \<Longrightarrow> event_json js (a + i) = Some (json (a + i))" "a + length rs \<le> umax 64"
  shows "(\<exists>c'. hec_serve cs js rs a c = (map (\<lambda>i. Some (json_ok (json i))) [a..<a + length rs], a + length rs, c') \<and>
       requests_received c' = requests_received c + length rs) \<and>
    (\<exists>c'. hec_srv cs js \<lparr>req_method = ''POST'', req_path = ''/services/collector/ack'', req_encoding = None, req_body = Some (query ids)\<rparr> a c =
       (Some (json_ok b), a, c')) \<and>
    ack_request (parse b) waiting = Map.empty"
proof -
  have "\<not> ''/services/collector/ack'' \<in> set event_paths" by (simp add: event_paths_def)
  then have "\<exists>c'. hec_srv cs js \<lparr>req_method = ''POST'', req_path = ''/services/collector/ack'', req_encoding = None, req_body = Some (query ids)\<rparr> a c =
      (Some (json_ok b), a, c')"
    using assms(1,3) by (simp add: hec_srv_def receive_def decode_def json_or_error_def json_ok_def Let_def)
  moreover have "ack_request (parse b) waiting = Map.empty"
    using assms(2,4) by (auto simp: ack_request_def ack_response_of_all fun_eq_iff domIff split: if_splits)
  ultimately show ?thesis using hec_serve_events [OF assms(5-7)] by blast
qed

theorem hec_acknowledges_pending_witness:
  "let js = \<lparr>event_json = (\<lambda>i. Some (replicate i CHR ''i'')), acks_json = (\<lambda>_. Some ''ok''), acks_from_json = (\<lambda>_. Some [5, 6])\<rparr>;
       ev = \<lparr>req_method = ''POST'', req_path = ''/services/collector/raw'', req_encoding = None, req_body = Some ''x''\<rparr>
   in fst (hec_serve undefined js [ev, ev] 5 no_counts) = [Some (json_ok ''iiiii''), Some (json_ok ''iiiiii'')] \<and>
      ack_request (Ack_Status (ack_response_of [5, 6])) [5 \<mapsto> 10, 6 \<mapsto> 9] = Map.empty"
proof -
  let ?js = "\<lparr>event_json = (\<lambda>i. Some (replicate i CHR ''i'')), acks_json = (\<lambda>_. Some ''ok''), acks_from_json = (\<lambda>_. Some [5, 6])\<rparr>"
  let ?ev = "\<lparr>req_method = ''POST'', req_path = ''/services/collector/raw'', req_encoding = None, req_body = Some ''x''\<rparr>"
  have "set [5 :: nat, 6] = dom [5 \<mapsto> 10 :: nat, 6 \<mapsto> 9]" by auto
  moreover have "\<forall>r \<in> set [?ev, ?ev]. posts_events undefined r" by (simp add: posts_events_def event_paths_def decode_def)
  moreover have "map (\<lambda>i. Some (json_ok (replicate i CHR ''i''))) [5..<7] = [Some (json_ok ''iiiii''), Some (json_ok ''iiiiii'')]"
    by code_simp
  ultimately show ?thesis
    using hec_acknowledges_pending [of ?js "\<lambda>_. ''q''" "[5, 6]" "[5 \<mapsto> 10, 6 \<mapsto> 9]" "''ok''" "\<lambda>_. Ack_Status (ack_response_of [5, 6])" "[?ev, ?ev]" undefined 5 "\<lambda>i. replicate i CHR ''i''" no_counts]
    by (auto simp: umax_def Let_def simp del: hec_serve.simps replicate.simps upt_Suc)
qed

section \<open>Sockets\<close>

record socket_counts =
  connection_accepted :: nat
  message_received :: nat
  sock_bytes_received :: nat

datatype socket_result = Socket_Running | Socket_Stopped | Socket_Io

text \<open>The loops of the datagram sockets (packets count as messages): a datagram of some size or an error of the socket, which ends the server.\<close>

datatype datagram_event = Dg_Packet "nat option" | Dg_Shutdown

fun udp_loop :: "datagram_event list \<Rightarrow> socket_counts \<Rightarrow> socket_result \<times> socket_counts" where
  "udp_loop [] n = (Socket_Running, n)"
| "udp_loop (Dg_Packet None # es) n = (Socket_Io, n)"
| "udp_loop (Dg_Packet (Some k) # es) n =
     udp_loop es (n\<lparr>message_received := message_received n + 1, sock_bytes_received := sock_bytes_received n + k\<rparr>)"
| "udp_loop (Dg_Shutdown # es) n = (Socket_Stopped, n)"

definition no_sockets :: socket_counts where
  "no_sockets = \<lparr>connection_accepted = 0, message_received = 0, sock_bytes_received = 0\<rparr>"

definition udp_run :: "bool \<Rightarrow> datagram_event list \<Rightarrow> socket_result \<times> socket_counts" where
  "udp_run binds es = (if binds then udp_loop es no_sockets else (Socket_Io, no_sockets))"

fun unix_datagram_loop :: "datagram_event list \<Rightarrow> socket_counts \<Rightarrow> socket_result \<times> socket_counts" where
  "unix_datagram_loop [] n = (Socket_Running, n)"
| "unix_datagram_loop (Dg_Packet None # es) n = (Socket_Io, n)"
| "unix_datagram_loop (Dg_Packet (Some k) # es) n = unix_datagram_loop es (n\<lparr>sock_bytes_received := sock_bytes_received n + k\<rparr>)"
| "unix_datagram_loop (Dg_Shutdown # es) n = (Socket_Stopped, n)"

text \<open>
  \<open>bind\<close> of a path fails where a file of that name exists. \<open>tokio::fs::remove_file\<close> makes a future, which removes
  the file when it is polled; the code drops it without polling it, so the disk is as it was.
\<close>

definition removed_when_polled :: "bool \<Rightarrow> string set \<Rightarrow> string \<Rightarrow> string set" where
  "removed_when_polled polled disk path = (if polled then disk - {path} else disk)"

definition unix_datagram_run :: "string set \<Rightarrow> string \<Rightarrow> datagram_event list \<Rightarrow> socket_result \<times> socket_counts" where
  "unix_datagram_run disk path es =
     (let disk = removed_when_polled False disk path
      in if path \<in> disk then (Socket_Io, no_sockets) else unix_datagram_loop es no_sockets)"

text \<open>The stream servers: a connection is accepted, or accepting fails, and the connections' tasks read messages or errors.\<close>

datatype stream_server_event = Ss_Accept bool | Ss_Message "nat option" | Ss_Shutdown

definition handle_message :: "nat option \<Rightarrow> socket_counts \<Rightarrow> socket_counts" where
  "handle_message msg n =
     (let n = n\<lparr>message_received := message_received n + 1\<rparr>
      in case msg of None \<Rightarrow> n | Some k \<Rightarrow> n\<lparr>sock_bytes_received := sock_bytes_received n + k\<rparr>)"

fun stream_loop :: "stream_server_event list \<Rightarrow> socket_counts \<Rightarrow> socket_result \<times> socket_counts" where
  "stream_loop [] n = (Socket_Running, n)"
| "stream_loop (Ss_Accept ok # es) n =
     (if ok then stream_loop es (n\<lparr>connection_accepted := connection_accepted n + 1\<rparr>) else (Socket_Io, n))"
| "stream_loop (Ss_Message msg # es) n = stream_loop es (handle_message msg n)"
| "stream_loop (Ss_Shutdown # es) n = (Socket_Stopped, n)"

definition tcp_hole_run :: "bool \<Rightarrow> stream_server_event list \<Rightarrow> socket_result \<times> socket_counts" where
  "tcp_hole_run binds es = (if binds then stream_loop es no_sockets else (Socket_Io, no_sockets))"

definition unix_stream_hole_run :: "string set \<Rightarrow> string \<Rightarrow> stream_server_event list \<Rightarrow> socket_result \<times> socket_counts" where
  "unix_stream_hole_run disk path es = (if path \<in> disk then (Socket_Io, no_sockets) else stream_loop es no_sockets)"

text \<open>
  A Unix datagram blackhole does not start twice on the same path: the socket file that an earlier
  run left behind is not removed, though the comment says it is, and the server fails before it
  receives anything. On a path that is free it counts the bytes of all datagrams up to the shutdown.
\<close>

theorem unix_datagram_leftover_socket:
  "unix_datagram_run (insert path disk) path es = (Socket_Io, no_sockets) \<and>
   unix_datagram_run (disk - {path}) path (map (Dg_Packet \<circ> Some) ks @ Dg_Shutdown # es) =
     (Socket_Stopped, no_sockets\<lparr>sock_bytes_received := sum_list ks\<rparr>)"
proof -
  have "unix_datagram_loop (map (Dg_Packet \<circ> Some) ks @ Dg_Shutdown # es) n = (Socket_Stopped, n\<lparr>sock_bytes_received := sock_bytes_received n + sum_list ks\<rparr>)" for n
    by (induction ks arbitrary: n) (simp_all add: add.assoc)
  then show ?thesis by (simp add: unix_datagram_run_def removed_when_polled_def no_sockets_def)
qed

section \<open>Dispatch\<close>

datatype hole_inner =
    Hole_Tcp | Hole_Http http_config | Hole_Splunk nat | Hole_Udp | Hole_UnixStream string | Hole_UnixDatagram string | Hole_Sqs nat

datatype hole_server =
    Holed_Http http_hole | Holed_Splunk nat "(string \<times> string) list" | Holed_Sqs nat "(string \<times> string) list" | Holed_Tcp "(string \<times> string) list"
  | Holed_Udp "(string \<times> string) list" | Holed_UnixStream string "(string \<times> string) list" | Holed_UnixDatagram string "(string \<times> string) list"

fun hole_new :: "string option \<Rightarrow> string option \<Rightarrow> hole_inner \<Rightarrow> http_error + hole_server" where
  "hole_new kinesis i Hole_Tcp = Inr (Holed_Tcp (metric_labels ''tcp'' i))"
| "hole_new kinesis i (Hole_Http c) = map_sum id Holed_Http (http_hole_new kinesis i c)"
| "hole_new kinesis i Hole_Udp = Inr (Holed_Udp (metric_labels ''udp'' i))"
| "hole_new kinesis i (Hole_UnixStream path) = Inr (Holed_UnixStream path (metric_labels ''unix_stream'' i))"
| "hole_new kinesis i (Hole_UnixDatagram path) = Inr (Holed_UnixDatagram path (metric_labels ''unix_datagram'' i))"
| "hole_new kinesis i (Hole_Sqs limit) = Inr (Holed_Sqs limit (metric_labels ''sqs'' i))"
| "hole_new kinesis i (Hole_Splunk limit) = Inr (Holed_Splunk limit (metric_labels ''splunk_hec'' i))"

lemma hole_new_fails_iff:
  "(\<exists>e. hole_new (Some j) i c = Inl e) \<longleftrightarrow> (\<exists>h. c = Hole_Http h \<and> \<not> (100 \<le> http_status h \<and> http_status h < 1000))"
  by (cases c) (auto simp: http_hole_new_def Let_def split: BodyVariant.splits)

end
