(* ===== verification/Blackhole_Sqs.thy ===== *)
theory Blackhole_Sqs
  imports Blackhole
begin

text \<open>
  The SQS blackhole (\<^verbatim>\<open>blackhole/sqs.rs\<close>). A body is a list of fields (\<open>serde_qs\<close>); a structure with
  \<open>deny_unknown_fields\<close> is read from it if every field that is not optional is there, none twice, no other
  field, and numbers are numbers.
\<close>

section \<open>Reading the fields\<close>

type_synonym fields = "(string \<times> string) list"

definition only_fields :: "string list \<Rightarrow> string list \<Rightarrow> fields \<Rightarrow> bool" where
  "only_fields required optional fs \<longleftrightarrow>
     distinct (map fst fs) \<and> set required \<subseteq> fst ` set fs \<and> fst ` set fs \<subseteq> set (required @ optional)"

definition action_of :: "fields \<Rightarrow> string option" where
  "action_of fs = (if only_fields [''Action''] [] fs then map_of fs ''Action'' else None)"

text \<open>\<open>ReceiveMessage\<close>: the only field that is used is the number of messages.\<close>

definition receive_message_of :: "fields \<Rightarrow> nat option" where
  "receive_message_of fs =
     (if only_fields [''Version'', ''QueueUrl'', ''MaxNumberOfMessages'', ''WaitTimeSeconds''] [] fs
         \<and> Option.bind (map_of fs ''WaitTimeSeconds'') (parse_unsigned 32) \<noteq> None
      then Option.bind (map_of fs ''MaxNumberOfMessages'') (parse_unsigned 32)
      else None)"

definition entry_field :: "nat \<Rightarrow> string" where
  "entry_field k = ''DeleteMessageBatchRequestEntry.'' @ show_nat k @ ''.Id''"

text \<open>\<open>DeleteMessageBatch\<close>, and \<open>get_entry_ids\<close> in the order of the numbers.\<close>

definition delete_batch_of :: "fields \<Rightarrow> string list option" where
  "delete_batch_of fs =
     (if only_fields [''Version'', ''QueueUrl''] (map entry_field [1..<11]) fs
      then Some (concat (map (\<lambda>k. case map_of fs (entry_field k) of None \<Rightarrow> [] | Some x \<Rightarrow> [x]) [1..<11]))
      else None)"

section \<open>Responses\<close>

definition sqs_response :: "nat \<Rightarrow> string option \<Rightarrow> string \<Rightarrow> response" where
  "sqs_response status content_type body =
     \<lparr>resp_status = status, resp_headers = (case content_type of None \<Rightarrow> [] | Some ct \<Rightarrow> [(''content-type'', ct)]), resp_body = body\<rparr>"

text \<open>A text in which a tilde stands for a double quote.\<close>

definition quoted :: "string \<Rightarrow> string" where
  "quoted s = map (\<lambda>c. if c = CHR ''~'' then CHR 0x22 else c) s"

definition message_body :: string where
  "message_body = quoted ''{~host~:~31.16.132.149~,~user-identifier~:~jesseddy~,~datetime~:~04/Nov/2021:15:31:28~,~method~:~PUT~,~request~:~/controller/setup~,~protocol~:~HTTP/1.1~,~status~:~400~,~bytes~:31776,~referer~:~https://up.de/booper/bopper/mooper/mopper~}''"

text \<open>\<open>random_string\<close> is the process-wide generator's, an argument.\<close>

definition generate_message :: "(nat \<Rightarrow> 'r \<Rightarrow> string \<times> 'r) \<Rightarrow> 'r \<Rightarrow> string \<times> 'r" where
  "generate_message random_string r =
     (let (message_id, r) = random_string 36 r; (receipt_handle, r) = random_string 185 r
      in (''<Message><MessageId>'' @ message_id @ ''</MessageId><ReceiptHandle>'' @ receipt_handle @
          ''</ReceiptHandle><MD5OfBody>8de06d40d5d9a2ec1c6b9a8d80faf135</MD5OfBody><Body>'' @ message_body @
          ''</Body><Attribute><Name>SenderId</Name><Value>AIDAIT2UOQQY3AUEKVGXU</Value></Attribute><Attribute><Name>SentTimestamp</Name><Value>1636054288389</Value></Attribute><Attribute><Name>ApproximateReceiveCount</Name><Value>1</Value></Attribute><Attribute><Name>ApproximateFirstReceiveTimestamp</Name><Value>1636054288391</Value></Attribute></Message>'', r))"

fun generate_messages :: "(nat \<Rightarrow> 'r \<Rightarrow> string \<times> 'r) \<Rightarrow> nat \<Rightarrow> 'r \<Rightarrow> string \<times> 'r" where
  "generate_messages random_string 0 r = ([], r)"
| "generate_messages random_string (Suc n) r =
     (let (m, r) = generate_message random_string r; (ms, r) = generate_messages random_string n r in (m @ ms, r))"

definition receive_message_response :: "(nat \<Rightarrow> 'r \<Rightarrow> string \<times> 'r) \<Rightarrow> nat \<Rightarrow> 'r \<Rightarrow> string \<times> 'r" where
  "receive_message_response random_string n r =
     (let (ms, r) = generate_messages random_string n r
      in (''<ReceiveMessageResponse><ReceiveMessageResult>'' @ ms @
          ''</ReceiveMessageResult><ResponseMetadata><RequestId>XG851KHKN09CRHBGHVD2VHCRE0JR5AKHOPR4GVBCPZT1LYKYY606</RequestId></ResponseMetadata></ReceiveMessageResponse>'', r))"

definition delete_message_response :: "(nat \<Rightarrow> 'r \<Rightarrow> string \<times> 'r) \<Rightarrow> 'r \<Rightarrow> string \<times> 'r" where
  "delete_message_response random_string r =
     (let (request_id, r) = random_string 52 r
      in (''<DeleteMessageResponse><ResponseMetadata><RequestId>'' @ request_id @ ''</RequestId></ResponseMetadata></DeleteMessageResponse>'', r))"

definition delete_batch_response :: "string list \<Rightarrow> string" where
  "delete_batch_response ids =
     ''<DeleteMessageBatchResponse><DeleteMessageBatchResult>'' @
     concat (map (\<lambda>i. ''<DeleteMessageBatchResultEntry><Id>'' @ i @ ''</Id></DeleteMessageBatchResultEntry>'') ids) @
     ''</DeleteMessageBatchResult><ResponseMetadata><RequestId>5EH8IGJZI4VZQTZ2VQ3KQN1AOMNA81OZ3AL1S4RHKII94ZD4FPG8</RequestId></ResponseMetadata></DeleteMessageBatchResponse>''"

text \<open>
  The service. \<open>parse_qs\<close> cuts a body into its fields, \<open>None\<close> where it is not of the format; the text of a
  parse error is an argument too. The counters are those of \<open>receive\<close>, without decoding.
\<close>

definition sqs_answer ::
    "(string \<Rightarrow> fields option) \<Rightarrow> (string \<Rightarrow> string) \<Rightarrow> (nat \<Rightarrow> 'r \<Rightarrow> string \<times> 'r) \<Rightarrow> string \<Rightarrow> 'r \<Rightarrow> response \<times> 'r" where
  "sqs_answer parse_qs parse_error random_string body r =
     (case Option.bind (parse_qs body) action_of of
        None \<Rightarrow> (sqs_response 400 (Some ''text/plain'') (''SQS parse error: '' @ parse_error body), r)
      | Some action \<Rightarrow>
          if action = ''ReceiveMessage'' then
            (case Option.bind (parse_qs body) receive_message_of of
               None \<Rightarrow> (sqs_response 400 (Some ''text/plain'') (''ReceiveMessage parse error: '' @ parse_error body), r)
             | Some n \<Rightarrow> (case receive_message_response random_string n r of (s, r) \<Rightarrow> (sqs_response 200 (Some ''text/html'') s, r)))
          else if action = ''DeleteMessage'' then
            (case delete_message_response random_string r of (s, r) \<Rightarrow> (sqs_response 200 (Some ''text/html'') s, r))
          else if action = ''DeleteMessageBatch'' then
            (case Option.bind (parse_qs body) delete_batch_of of
               None \<Rightarrow> (sqs_response 400 (Some ''text/plain'') (''DeleteMessageBatch parse error: '' @ parse_error body), r)
             | Some ids \<Rightarrow> (sqs_response 200 (Some ''text/html'') (delete_batch_response ids), r))
          else (sqs_response 501 None [], r))"

definition sqs_srv ::
    "(string \<Rightarrow> fields option) \<Rightarrow> (string \<Rightarrow> string) \<Rightarrow> (nat \<Rightarrow> 'r \<Rightarrow> string \<times> 'r) \<Rightarrow> string option \<Rightarrow> 'r \<Rightarrow> counters \<Rightarrow> response option \<times> 'r \<times> counters" where
  "sqs_srv parse_qs parse_error random_string body r n =
     (let n = n\<lparr>requests_received := requests_received n + 1\<rparr>
      in case body of
           None \<Rightarrow> (None, r, n)
         | Some b \<Rightarrow>
             (case sqs_answer parse_qs parse_error random_string b r of
                (resp, r) \<Rightarrow> (Some resp, r, n\<lparr>bytes_received := bytes_received n + length b\<rparr>)))"

section \<open>What is answered\<close>

lemma action_of_Some: "action_of fs = Some a \<Longrightarrow> fs = [(''Action'', a)]"
proof -
  assume "action_of fs = Some a"
  then have f: "distinct (map fst fs)" "fst ` set fs = {''Action''}" "map_of fs ''Action'' = Some a"
    by (auto simp: action_of_def only_fields_def split: if_splits)
  then have "length fs = 1" using distinct_card [OF f(1)] by simp
  then obtain x where "fs = [x]" by (cases fs) auto
  with f(3) show ?thesis by (cases x) (auto split: if_splits)
qed

text \<open>
  C34. The SQS blackhole never delivers a message. The action is read from a structure that has no other
  field, and the requests for messages from structures that have no field for the action: of
  all bodies, only the one field \<open>Action=DeleteMessage\<close> is answered with status 200, and every
  request of a real client, which names a queue, with status 400.
\<close>

theorem sqs_serves_no_messages:
  "resp_status (fst (sqs_answer parse_qs parse_error random_string body r)) =
     (case parse_qs body of
        Some [(k, a)] \<Rightarrow>
          if k \<noteq> ''Action'' then 400
          else if a = ''DeleteMessage'' then 200
          else if a = ''ReceiveMessage'' \<or> a = ''DeleteMessageBatch'' then 400 else 501
      | _ \<Rightarrow> 400)"
proof (cases "Option.bind (parse_qs body) action_of")
  case None
  then have "\<not> (\<exists>a. parse_qs body = Some [(''Action'', a)])" by (auto simp: action_of_def only_fields_def)
  with None show ?thesis by (auto simp: sqs_answer_def sqs_response_def split: option.splits list.splits)
next
  case (Some a)
  then have body: "parse_qs body = Some [(''Action'', a)]" by (cases "parse_qs body") (auto dest: action_of_Some)
  have "receive_message_of [(''Action'', a)] = None" "delete_batch_of [(''Action'', a)] = None"
    by (simp_all add: receive_message_of_def delete_batch_of_def only_fields_def)
  with Some body show ?thesis by (auto simp: sqs_answer_def sqs_response_def split: prod.splits)
qed

text \<open>What the response would hold: one message element for each message asked for.\<close>

lemma generate_messages_count:
  assumes "\<And>n r. length (fst (random_string n r)) = n"
  shows "length (fst (generate_messages random_string n r)) = n * length (fst (generate_message random_string r))"
proof (induction n arbitrary: r)
  case (Suc n)
  have "length (fst (generate_message random_string r)) = length (fst (generate_message random_string r'))" for r r'
    using assms by (simp add: generate_message_def split_beta Let_def)
  with Suc show ?case by (simp add: split_beta Let_def)
qed simp

end
