(* ===== verification/Target.thy ===== *)
theory Target
  imports Text
begin

text \<open>
  The target (\<^verbatim>\<open>target.rs\<close>) and the inspector (\<^verbatim>\<open>inspector.rs\<close>), with the redirection of a sub-process's
  output (\<^verbatim>\<open>common.rs\<close>): tasks that start or follow a process. Each is a machine whose events carry
  what the operating system, Docker and the channel of the target's pid answer. On Linux; the
  gauge \<open>target.running\<close> and log lines are left out.
\<close>

section \<open>Output of a sub-process\<close>

datatype Behavior = Behavior_Quiet | Behavior_Log string

record Output =
  out_stderr :: Behavior
  out_stdout :: Behavior

definition default_behavior :: Behavior where
  "default_behavior = Behavior_Quiet"

fun show_behavior :: "Behavior \<Rightarrow> string" where
  "show_behavior Behavior_Quiet = ''/dev/null''"
| "show_behavior (Behavior_Log path) = path"

definition behavior_from_str :: "string \<Rightarrow> Behavior" where
  "behavior_from_str input = Behavior_Log input"

datatype Stdio = Stdio_Null | Stdio_File string

text \<open>\<open>stdio\<close> panics (\<open>None\<close>) when the file cannot be created.\<close>

fun stdio :: "(string \<Rightarrow> bool) \<Rightarrow> Behavior \<Rightarrow> Stdio option" where
  "stdio creates Behavior_Quiet = Some Stdio_Null"
| "stdio creates (Behavior_Log path) = (if creates path then Some (Stdio_File path) else None)"

record command =
  cmd_program :: string
  cmd_args :: "string list"
  cmd_env :: "string \<rightharpoonup> string"
  cmd_stdout :: Stdio
  cmd_stderr :: Stdio

section \<open>Configuration\<close>

record BinaryConfig =
  bin_command :: string
  bin_arguments :: "string list"
  inherit_environment :: bool
  environment_variables :: "string \<rightharpoonup> string"
  bin_output :: Output

datatype target_config = Target_Docker string | Target_Pid int | Target_Binary BinaryConfig

datatype target_error =
    TargetSpawn | TargetWait | PidConversion | SigTerm | PidNotFound int | TargetExited "int option" | Target_Send | ProcessFinished | Bollard

definition to_i32 :: "int \<Rightarrow> int option" where
  "to_i32 i = (if - (2 ^ 31) \<le> i \<and> i < 2 ^ 31 then Some i else None)"

text \<open>The command of \<open>execute_binary\<close>; \<open>None\<close> where \<open>stdio\<close> panics.\<close>

definition target_command :: "(string \<Rightarrow> bool) \<Rightarrow> (string \<rightharpoonup> string) \<Rightarrow> BinaryConfig \<Rightarrow> command option" where
  "target_command creates parent_env c =
     (case stdio creates (out_stdout (bin_output c)) of
        None \<Rightarrow> None
      | Some o1 \<Rightarrow>
          (case stdio creates (out_stderr (bin_output c)) of
             None \<Rightarrow> None
           | Some o2 \<Rightarrow>
               Some \<lparr>cmd_program = bin_command c, cmd_args = bin_arguments c,
                     cmd_env = (if inherit_environment c then parent_env else Map.empty) ++ environment_variables c,
                     cmd_stdout = o1, cmd_stderr = o2\<rparr>))"

section \<open>The target task\<close>

datatype target_pc = Tg_Start | Tg_Poll | Tg_Watch int | Tg_Wait int | Tg_Done "target_error + unit" | Tg_Panic

text \<open>\<open>tg_sent\<close> is the pid given to the other tasks, \<open>tg_signalled\<close> whether \<open>target_running\<close> has been signalled, \<open>tg_terms\<close> to which processes SIGTERM went.\<close>

record target_task =
  tg_pc :: target_pc
  tg_sent :: "int option"
  tg_signalled :: bool
  tg_terms :: "int list"

definition target_new :: target_task where
  "target_new = \<lparr>tg_pc = Tg_Start, tg_sent = None, tg_signalled = False, tg_terms = []\<rparr>"

text \<open>
  Events: \<open>kill(pid, None)\<close>, the connection to Docker, an answer of \<open>inspect_container\<close> (\<open>None\<close> an error,
  then the pid of the container's state if it has one), the spawning of a child with its id, and
  with each whether the pid can be sent and a \<open>PidFd\<close> made; then the loop's events.
\<close>

datatype target_event =
    Te_Kill0 bool bool bool
  | Te_Connect bool
  | Te_Inspect "int option option" bool bool
  | Te_Spawn bool "nat option" bool
  | Te_Tick
  | Te_Exit "int option"
  | Te_Shutdown bool
  | Te_Waited bool

definition announce :: "int \<Rightarrow> bool \<Rightarrow> bool \<Rightarrow> target_task \<Rightarrow> target_task" where
  "announce pid send_ok pidfd_ok t =
     (if send_ok
      then t\<lparr>tg_sent := Some pid, tg_signalled := True, tg_pc := (if pidfd_ok then Tg_Watch pid else Tg_Done (Inl PidConversion))\<rparr>
      else t\<lparr>tg_pc := Tg_Done (Inl Target_Send)\<rparr>)"

definition watch_start :: "int \<Rightarrow> target_event \<Rightarrow> target_task \<Rightarrow> target_task option" where
  "watch_start pid e t =
     (case e of
        Te_Kill0 alive send_ok pidfd_ok \<Rightarrow>
          Some (if alive then announce pid send_ok pidfd_ok t else t\<lparr>tg_pc := Tg_Done (Inl (PidNotFound pid))\<rparr>)
      | _ \<Rightarrow> None)"

definition container_poll :: "target_event \<Rightarrow> target_task \<Rightarrow> target_task option" where
  "container_poll e t =
     (case e of
        Te_Inspect answer send_ok pidfd_ok \<Rightarrow>
          Some (case answer of
                  Some (Some pid) \<Rightarrow>
                    if pid = 0 then t
                    else (case to_i32 pid of None \<Rightarrow> t\<lparr>tg_pc := Tg_Panic\<rparr> | Some pid \<Rightarrow> announce pid send_ok pidfd_ok t)
                | _ \<Rightarrow> t)
      | _ \<Rightarrow> None)"

definition binary_start :: "(string \<Rightarrow> bool) \<Rightarrow> (string \<rightharpoonup> string) \<Rightarrow> BinaryConfig \<Rightarrow> target_event \<Rightarrow> target_task \<Rightarrow> target_task option" where
  "binary_start creates parent_env c e t =
     (case e of
        Te_Spawn spawned child send_ok \<Rightarrow>
          Some (case target_command creates parent_env c of
                  None \<Rightarrow> t\<lparr>tg_pc := Tg_Panic\<rparr>
                | Some cmd \<Rightarrow>
                    if \<not> spawned then t\<lparr>tg_pc := Tg_Done (Inl TargetSpawn)\<rparr>
                    else
                      (case child of
                         None \<Rightarrow> t\<lparr>tg_pc := Tg_Done (Inl ProcessFinished)\<rparr>
                       | Some i \<Rightarrow> (case to_i32 (int i) of None \<Rightarrow> t\<lparr>tg_pc := Tg_Panic\<rparr> | Some pid \<Rightarrow> announce pid send_ok True t)))
      | _ \<Rightarrow> None)"

text \<open>The loops of \<open>watch\<close> and \<open>watch_container\<close>, and that of \<open>execute_binary\<close>, which terminates its child.\<close>

definition watch_loop :: "target_event \<Rightarrow> target_task \<Rightarrow> target_task option" where
  "watch_loop e t =
     (case e of
        Te_Tick \<Rightarrow> Some t
      | Te_Exit status \<Rightarrow> Some (t\<lparr>tg_pc := Tg_Done (Inl (TargetExited status))\<rparr>)
      | Te_Shutdown _ \<Rightarrow> Some (t\<lparr>tg_pc := Tg_Done (Inr ())\<rparr>)
      | _ \<Rightarrow> None)"

definition binary_loop :: "int \<Rightarrow> target_event \<Rightarrow> target_task \<Rightarrow> target_task option" where
  "binary_loop pid e t =
     (case e of
        Te_Tick \<Rightarrow> Some t
      | Te_Exit status \<Rightarrow> Some (t\<lparr>tg_pc := Tg_Done (Inl (TargetExited status))\<rparr>)
      | Te_Shutdown kills \<Rightarrow>
          Some (if kills then t\<lparr>tg_terms := tg_terms t @ [pid], tg_pc := Tg_Wait pid\<rparr> else t\<lparr>tg_pc := Tg_Done (Inl SigTerm)\<rparr>)
      | _ \<Rightarrow> None)"

definition target_step :: "(string \<Rightarrow> bool) \<Rightarrow> (string \<rightharpoonup> string) \<Rightarrow> target_config \<Rightarrow> target_event \<Rightarrow> target_task \<Rightarrow> target_task option" where
  "target_step creates parent_env c e t =
     (case tg_pc t of
        Tg_Start \<Rightarrow>
          (case c of
             Target_Pid pid \<Rightarrow> watch_start pid e t
           | Target_Docker name \<Rightarrow>
               (case e of
                  Te_Connect ok \<Rightarrow> Some (t\<lparr>tg_pc := (if ok then Tg_Poll else Tg_Done (Inl Bollard))\<rparr>)
                | _ \<Rightarrow> None)
           | Target_Binary b \<Rightarrow> binary_start creates parent_env b e t)
      | Tg_Poll \<Rightarrow> container_poll e t
      | Tg_Watch pid \<Rightarrow> (case c of Target_Binary _ \<Rightarrow> binary_loop pid e t | _ \<Rightarrow> watch_loop e t)
      | Tg_Wait pid \<Rightarrow>
          (case e of
             Te_Waited ok \<Rightarrow> Some (t\<lparr>tg_pc := Tg_Done (if ok then Inr () else Inl TargetWait)\<rparr>)
           | _ \<Rightarrow> None)
      | _ \<Rightarrow> None)"

section \<open>The inspector\<close>

record inspector_config =
  insp_command :: string
  insp_arguments :: "string list"
  insp_environment :: "string \<rightharpoonup> string"
  insp_output :: Output

datatype inspector_error = Inspector_Errno | Inspector_Io | Inspector_ProcessFinished | Inspector_Recv

definition inspector_environment :: "int option \<Rightarrow> inspector_config \<Rightarrow> (string \<rightharpoonup> string)" where
  "inspector_environment target_pid c =
     (case target_pid of
        Some pid \<Rightarrow> (insp_environment c)(''TARGET_PID'' \<mapsto> show_int pid)
      | None \<Rightarrow> (insp_environment c)(''NO_TARGET'' \<mapsto> ''1''))"

definition inspector_command :: "(string \<Rightarrow> bool) \<Rightarrow> int option \<Rightarrow> inspector_config \<Rightarrow> command option" where
  "inspector_command creates target_pid c =
     (case stdio creates (out_stdout (insp_output c)) of
        None \<Rightarrow> None
      | Some o1 \<Rightarrow>
          (case stdio creates (out_stderr (insp_output c)) of
             None \<Rightarrow> None
           | Some o2 \<Rightarrow>
               Some \<lparr>cmd_program = insp_command c, cmd_args = insp_arguments c, cmd_env = inspector_environment target_pid c,
                     cmd_stdout = o1, cmd_stderr = o2\<rparr>))"

datatype inspector_pc = In_Start | In_Running command | In_Stopping | In_Done "inspector_error + int" | In_Panic

text \<open>The pid received (\<open>None\<close> a failed channel) and whether the child starts; its end; the shutdown with the child's id and whether it can be signalled.\<close>

datatype inspector_event = Ie_Recv "int option option" bool | Ie_Exit "int option" | Ie_Shutdown "nat option" bool | Ie_Waited "int option"

fun inspector_step :: "(string \<Rightarrow> bool) \<Rightarrow> inspector_config \<Rightarrow> inspector_event \<Rightarrow> inspector_pc \<Rightarrow> inspector_pc option" where
  "inspector_step creates c (Ie_Recv received spawned) In_Start =
     Some (case received of
             None \<Rightarrow> In_Done (Inl Inspector_Recv)
           | Some target_pid \<Rightarrow>
               (case inspector_command creates target_pid c of
                  None \<Rightarrow> In_Panic
                | Some cmd \<Rightarrow> if spawned then In_Running cmd else In_Done (Inl Inspector_Io)))"
| "inspector_step creates c (Ie_Exit status) (In_Running cmd) =
     Some (In_Done (case status of Some s \<Rightarrow> Inr s | None \<Rightarrow> Inl Inspector_Io))"
| "inspector_step creates c (Ie_Shutdown child kills) (In_Running cmd) =
     Some (case child of
             None \<Rightarrow> In_Done (Inl Inspector_ProcessFinished)
           | Some i \<Rightarrow>
               (case to_i32 (int i) of
                  None \<Rightarrow> In_Panic
                | Some pid \<Rightarrow> if kills then In_Stopping else In_Done (Inl Inspector_Errno)))"
| "inspector_step creates c (Ie_Waited status) In_Stopping =
     Some (In_Done (case status of Some s \<Rightarrow> Inr s | None \<Rightarrow> Inl Inspector_Io))"
| "inspector_step creates c e pc = None"

section \<open>What the target task does\<close>

text \<open>The task with the history of its events, the latest last.\<close>

definition target_act ::
    "(string \<Rightarrow> bool) \<Rightarrow> (string \<rightharpoonup> string) \<Rightarrow> target_config \<Rightarrow> target_event \<Rightarrow> target_event list \<times> target_task \<Rightarrow>
     (unit \<times> target_event list \<times> target_task) option" where
  "target_act creates parent_env c e s = map_option (\<lambda>t. ((), fst s @ [e], t)) (target_step creates parent_env c e (snd s))"

text \<open>
  The process a history is about: the configured one, the first one other than 0 that Docker reported for
  the container, or the child that was spawned.
\<close>

fun container_pid :: "target_event \<Rightarrow> int option" where
  "container_pid (Te_Inspect (Some (Some pid)) _ _) = (if pid = 0 then None else Some pid)"
| "container_pid _ = None"

fun child_pid :: "target_event \<Rightarrow> int option" where
  "child_pid (Te_Spawn True (Some i) _) = Some (int i)"
| "child_pid _ = None"

fun reported :: "target_config \<Rightarrow> target_event list \<Rightarrow> int option" where
  "reported (Target_Pid pid) es = Some pid"
| "reported (Target_Docker name) es = (case List.map_filter container_pid es of [] \<Rightarrow> None | p # _ \<Rightarrow> Some p)"
| "reported (Target_Binary b) es = (case List.map_filter child_pid es of [] \<Rightarrow> None | p # _ \<Rightarrow> Some p)"

lemma map_filter_snoc: "List.map_filter f (xs @ [x]) = List.map_filter f xs @ (case f x of None \<Rightarrow> [] | Some y \<Rightarrow> [y])"
  by (simp add: List.map_filter_def split: option.split)

lemma reported_stays: "reported c es = Some p \<Longrightarrow> reported c (es @ [e]) = Some p"
  by (cases c) (auto simp: map_filter_snoc split: list.splits option.splits)

definition is_binary :: "target_config \<Rightarrow> bool" where
  "is_binary c \<longleftrightarrow> (\<exists>b. c = Target_Binary b)"

definition target_inv :: "target_config \<Rightarrow> target_event list \<times> target_task \<Rightarrow> bool" where
  "target_inv c s \<longleftrightarrow>
     (case s of (es, t) \<Rightarrow>
       (tg_signalled t \<longleftrightarrow> tg_sent t \<noteq> None) \<and> (\<forall>p. tg_sent t = Some p \<longrightarrow> reported c es = Some p) \<and>
       (tg_terms t = [] \<or> is_binary c \<and> (\<exists>p. tg_sent t = Some p \<and> tg_terms t = [p])) \<and>
       (case tg_pc t of
          Tg_Start \<Rightarrow> tg_sent t = None \<and> es = []
        | Tg_Poll \<Rightarrow> tg_sent t = None \<and> (\<exists>name. c = Target_Docker name) \<and> reported c es = None
        | Tg_Watch p \<Rightarrow> tg_sent t = Some p \<and> tg_terms t = []
        | Tg_Wait p \<Rightarrow> is_binary c \<and> tg_sent t = Some p \<and> tg_terms t = [p]
        | Tg_Done (Inr _) \<Rightarrow> tg_sent t \<noteq> None \<and> (is_binary c \<longrightarrow> tg_terms t \<noteq> [])
        | Tg_Done (Inl (TargetExited _)) \<Rightarrow> tg_sent t \<noteq> None \<and> tg_terms t = []
        | _ \<Rightarrow> True))"

lemma announce_inv:
  assumes "target_inv c (es, t)" "tg_sent t = None" "reported c es' = Some pid"
  shows "target_inv c (es', announce pid send_ok pidfd_ok t)"
  using assms by (auto simp: announce_def target_inv_def)

lemma stop_inv:
  assumes "target_inv c (es, t)" "tg_sent t = None"
  shows "(\<And>st. e \<noteq> TargetExited st) \<Longrightarrow> target_inv c (es', t\<lparr>tg_pc := Tg_Done (Inl e)\<rparr>)" "target_inv c (es', t\<lparr>tg_pc := Tg_Panic\<rparr>)"
  using assms by (auto simp: target_inv_def split: target_error.splits)

lemma to_i32_Some: "to_i32 p = Some q \<Longrightarrow> q = p"
  by (auto simp: to_i32_def split: if_splits)

lemma start_inv:
  assumes "target_inv c (es, t)" "tg_pc t = Tg_Start" "target_step creates parent_env c e t = Some t'"
  shows "target_inv c (es @ [e], t')"
proof -
  have sent: "tg_sent t = None" "es = []" using assms(1,2) by (simp_all add: target_inv_def)
  show ?thesis
  proof (cases c)
    case (Target_Pid pid)
    with assms sent show ?thesis
      by (auto simp: target_step_def watch_start_def intro: announce_inv stop_inv split: target_event.splits if_splits)
  next
    case (Target_Docker name)
    with assms sent show ?thesis
      by (auto simp: target_step_def target_inv_def List.map_filter_def split: target_event.splits if_splits)
  next
    case (Target_Binary b)
    with assms sent show ?thesis
      by (auto simp: target_step_def binary_start_def List.map_filter_def intro!: announce_inv [where es = "[]"] stop_inv dest: to_i32_Some
          split: target_event.splits if_splits option.splits)
  qed
qed

lemma poll_inv:
  assumes "target_inv c (es, t)" "tg_pc t = Tg_Poll" "target_step creates parent_env c e t = Some t'"
  shows "target_inv c (es @ [e], t')"
proof -
  obtain name where c: "c = Target_Docker name" "tg_sent t = None" "reported c es = None" using assms(1,2) by (auto simp: target_inv_def)
  obtain answer send_ok pidfd_ok where e: "e = Te_Inspect answer send_ok pidfd_ok"
    using assms(2,3) by (cases e) (auto simp: target_step_def container_poll_def)
  consider "container_pid e = None" | p where "container_pid e = Some p" by fastforce
  then show ?thesis
  proof cases
    case 1
    with assms c e show ?thesis
      by (auto simp: target_step_def container_poll_def target_inv_def map_filter_snoc split: option.splits if_splits list.splits)
  next
    case 2
    then have "answer = Some (Some p)" "p \<noteq> 0" using e by (cases e rule: container_pid.cases; auto split: if_splits)+
    moreover have "reported c (es @ [e]) = Some p" using 2 c by (auto simp: map_filter_snoc split: list.splits)
    ultimately show ?thesis using assms c e
      by (auto simp: target_step_def container_poll_def intro!: announce_inv [where es = es] stop_inv [where es = es] dest: to_i32_Some split: option.splits)
  qed
qed

lemma target_step_inv:
  assumes "target_inv c (es, t)" "target_step creates parent_env c e t = Some t'"
  shows "target_inv c (es @ [e], t')"
proof (cases "tg_pc t")
  case Tg_Start
  from start_inv [OF assms(1) this assms(2)] show ?thesis .
next
  case Tg_Poll
  from poll_inv [OF assms(1) this assms(2)] show ?thesis .
next
  case (Tg_Watch pid)
  show ?thesis
  proof (cases "is_binary c")
    case True
    with assms Tg_Watch show ?thesis
      by (auto simp: target_step_def binary_loop_def target_inv_def is_binary_def reported_stays simp del: reported.simps split: target_event.splits if_splits)
  next
    case False
    with assms Tg_Watch show ?thesis
      by (cases c) (auto simp: target_step_def watch_loop_def target_inv_def is_binary_def reported_stays simp del: reported.simps split: target_event.splits)
  qed
next
  case (Tg_Wait pid)
  with assms show ?thesis
    by (auto simp: target_step_def target_inv_def reported_stays split: target_event.splits if_splits)
qed (use assms in \<open>simp_all add: target_step_def\<close>)

interpretation tgt: invariant_machine "target_act creates parent_env c" "\<lambda>_ _. True" "target_inv c" for creates parent_env c
  by unfold_locales (auto simp: target_act_def intro: target_step_inv)

lemma target_new_inv: "target_inv c ([], target_new)"
  by (simp add: target_inv_def target_new_def)

text \<open>
  C29. What the other tasks learn of the target is right. After any sequence of events, whatever
  Docker and the operating system answered: the running signal is up exactly when a pid has been sent;
  this pid is the configured one, the first other than 0 that Docker reported for the container, or the id of
  the child that was spawned; and no pid is sent while the container is polled because none other than 0
  has been reported. A process is watched only after its pid has been sent; the task succeeds
  only after it has announced a process, and with a binary only after that process and no other
  has been sent one SIGTERM; a process that is only watched is never sent one.
\<close>

theorem target_announces_process:
  assumes "reaches (target_act creates parent_env c) (\<lambda>_ _. True) ([], target_new) (es, t)"
  shows "(tg_signalled t \<longleftrightarrow> tg_sent t \<noteq> None) \<and> (\<forall>p. tg_sent t = Some p \<longrightarrow> reported c es = Some p) \<and>
    (tg_pc t = Tg_Poll \<longrightarrow> reported c es = None) \<and>
    (\<forall>p. tg_pc t = Tg_Watch p \<longrightarrow> tg_sent t = Some p) \<and>
    (tg_pc t = Tg_Done (Inr ()) \<longrightarrow> (\<exists>p. tg_sent t = Some p \<and> tg_terms t = (if is_binary c then [p] else []))) \<and>
    (\<not> is_binary c \<longrightarrow> tg_terms t = [])"
proof -
  have "target_inv c (es, t)" by (rule tgt.reaches_inv [OF assms target_new_inv])
  then show ?thesis by (auto simp: target_inv_def)
qed

theorem target_announces_process_witness:
  "\<exists>es t. reaches (target_act (\<lambda>_. True) Map.empty (Target_Docker ''agent'')) (\<lambda>_ _. True) ([], target_new) (es, t) \<and>
     es = [Te_Connect True, Te_Inspect (Some (Some 0)) True True, Te_Inspect (Some (Some 42)) True True] \<and> tg_sent t = Some 42 \<and> tg_terms t = []"
proof -
  let ?a = "target_act (\<lambda>_. True) Map.empty (Target_Docker ''agent'')"
  let ?p = "target_new\<lparr>tg_pc := Tg_Poll\<rparr>"
  let ?t = "?p\<lparr>tg_sent := Some 42, tg_signalled := True, tg_pc := Tg_Watch 42\<rparr>"
  let ?es = "[Te_Connect True, Te_Inspect (Some (Some 0)) True True]"
  have steps: "?a (Te_Connect True) ([], target_new) = Some ((), [Te_Connect True], ?p)"
    "?a (Te_Inspect (Some (Some 0)) True True) ([Te_Connect True], ?p) = Some ((), ?es, ?p)"
    "?a (Te_Inspect (Some (Some 42)) True True) (?es, ?p) = Some ((), ?es @ [Te_Inspect (Some (Some 42)) True True], ?t)"
    by (simp_all add: target_act_def target_step_def container_poll_def announce_def target_new_def to_i32_def)
  note one = reaches_step [where step = ?a and guard = "\<lambda>_ _. True" and r = "()", OF _ TrueI]
  have r: "reaches ?a (\<lambda>_ _. True) ([], target_new) (?es @ [Te_Inspect (Some (Some 42)) True True], ?t)"
    by (rule one [OF one [OF one [OF reaches_start steps(1)] steps(2)] steps(3)])
  from target_announces_process [OF r] have "reported (Target_Docker ''agent'') (?es @ [Te_Inspect (Some (Some 42)) True True]) = Some 42" "tg_terms ?t = []"
    by (simp_all add: is_binary_def)
  with r show ?thesis by (intro exI [of _ "?es @ [Te_Inspect (Some (Some 42)) True True]"] exI [of _ ?t]) simp
qed

text \<open>
  While Docker does not report a pid, the task only asks again: no event of the loop, a shutdown
  among them, is taken.
\<close>

lemma poll_only_inspects:
  assumes "tg_pc t = Tg_Poll" "target_step creates parent_env c e t = Some t'"
  shows "\<exists>answer send_ok pidfd_ok. e = Te_Inspect answer send_ok pidfd_ok"
  using assms by (cases e) (auto simp: target_step_def container_poll_def)

lemma poll_unanswered:
  assumes "tg_pc t = Tg_Poll" "answer = None \<or> answer = Some None \<or> answer = Some (Some 0)"
  shows "target_step creates parent_env c (Te_Inspect answer send_ok pidfd_ok) t = Some t"
  using assms by (auto simp: target_step_def container_poll_def)

text \<open>
  The default output goes through its own text on the command line and becomes a file, the null device.
\<close>

lemma default_behavior_becomes_file:
  "behavior_from_str (show_behavior default_behavior) = Behavior_Log ''/dev/null''"
  by (simp add: behavior_from_str_def default_behavior_def)

lemma behavior_round_trip: "behavior_from_str (show_behavior (Behavior_Log path)) = Behavior_Log path"
  by (simp add: behavior_from_str_def)

text \<open>The environment of a child: the inspector's never has a variable of the program's own.\<close>

lemma target_environment:
  "target_command creates parent_env c = Some cmd \<Longrightarrow>
   cmd_env cmd k = (case environment_variables c k of Some v \<Rightarrow> Some v | None \<Rightarrow> if inherit_environment c then parent_env k else None)"
  by (auto simp: target_command_def map_add_def split: option.splits)

lemma inspector_environment_pid:
  "inspector_command creates (Some pid) c = Some cmd \<Longrightarrow> cmd_env cmd ''TARGET_PID'' = Some (show_int pid)"
  by (auto simp: inspector_command_def inspector_environment_def split: option.splits)

end
