(* ===== verification/Process_Tree.thy ===== *)
theory Process_Tree
  imports Payload Throttle
begin

text \<open>
  The process tree generator (\<^verbatim>\<open>generator/process_tree.rs\<close>): its configuration, the list of nodes it
  draws, the processes it forks from that list, and the loop that starts it again and again through
  the program's own executable. YAML, the operating system's answers and \<open>Path::to_str\<close> are arguments.
\<close>

section \<open>Configuration\<close>

datatype pt_args = Args_Static "string list" | Args_Generate nat nat

datatype pt_envs = Envs_Static "string list" | Envs_Generate nat nat

record Executable =
  ex_executable :: string
  ex_args :: pt_args
  ex_envs :: pt_envs

record pt_config =
  pt_max_tree_per_second :: "32 word"
  pt_max_depth :: nat
  pt_max_children :: nat
  pt_process_sleep_ns :: nat
  pt_executables :: "Executable list"
  pt_throttle :: throttle_config

text \<open>The values of the fields that a configuration leaves out, with one executable.\<close>

definition pt_default_executable :: "string \<Rightarrow> Executable" where
  "pt_default_executable path = \<lparr>ex_executable = path, ex_args = Args_Generate 10 16, ex_envs = Envs_Generate 16 10\<rparr>"

definition pt_default_config :: "Executable list \<Rightarrow> pt_config" where
  "pt_default_config es =
     \<lparr>pt_max_tree_per_second = 5, pt_max_depth = 10, pt_max_children = 10, pt_process_sleep_ns = 100000000,
      pt_executables = es, pt_throttle = default_config\<rparr>"

datatype pt_error = Pt_NotExecutable string | Pt_Serialization | Pt_Io | Pt_ExecutionError string | Pt_RngEmpty | Pt_ToStr | Pt_Utf8

fun pt_validate :: "(string \<Rightarrow> bool) \<Rightarrow> Executable list \<Rightarrow> pt_error + unit" where
  "pt_validate is_executable [] = Inr ()"
| "pt_validate is_executable (e # es) =
     (if is_executable (ex_executable e) then pt_validate is_executable es else Inl (Pt_NotExecutable (ex_executable e)))"

definition pt_get_config :: "(string \<Rightarrow> pt_config option) \<Rightarrow> (string \<Rightarrow> bool) \<Rightarrow> string \<Rightarrow> pt_error + pt_config" where
  "pt_get_config from_yaml is_executable content =
     (case from_yaml content of
        None \<Rightarrow> Inl Pt_Serialization
      | Some c \<Rightarrow> map_sum id (\<lambda>_. c) (pt_validate is_executable (pt_executables c)))"

section \<open>What a node executes\<close>

definition rnd_str :: "'r rng \<Rightarrow> nat \<Rightarrow> ('r, string) state" where
  "rnd_str R len = sample_many len (State (gen_alphanumeric R))"

definition gen_rnd_args :: "'r rng \<Rightarrow> nat \<Rightarrow> nat \<Rightarrow> ('r, string list) state" where
  "gen_rnd_args R len n = sample_many n (rnd_str R len)"

fun gen_rnd_envs_loop :: "'r rng \<Rightarrow> nat \<Rightarrow> nat \<Rightarrow> nat \<Rightarrow> (string \<rightharpoonup> string) \<Rightarrow> ('r, string \<rightharpoonup> string) state" where
  "gen_rnd_envs_loop R key_size value_size 0 envs = State_Monad.return envs"
| "gen_rnd_envs_loop R key_size value_size (Suc n) envs = do {
     k \<leftarrow> rnd_str R key_size;
     v \<leftarrow> rnd_str R value_size;
     gen_rnd_envs_loop R key_size value_size n (envs(k \<mapsto> v))
   }"

definition gen_rnd_envs :: "'r rng \<Rightarrow> nat \<Rightarrow> nat \<Rightarrow> ('r, string \<rightharpoonup> string) state" where
  "gen_rnd_envs R len n = (let key_size = len div 2 in gen_rnd_envs_loop R key_size (len - key_size) n Map.empty)"

definition to_map :: "string list \<Rightarrow> (string \<rightharpoonup> string)" where
  "to_map values =
     fold (\<lambda>env envs. case split_once (CHR ''='') env of Some (k, v) \<Rightarrow> envs(k \<mapsto> v) | None \<Rightarrow> envs(env \<mapsto> [])) values Map.empty"

record Exec =
  exec_executable :: string
  exec_args :: "string list"
  exec_envs :: "string \<rightharpoonup> string"

definition Exec_new :: "(string \<Rightarrow> string option) \<Rightarrow> 'r rng \<Rightarrow> Executable list \<Rightarrow> 'r \<Rightarrow> (pt_error + Exec) \<times> 'r" where
  "Exec_new to_str R es s =
     (case slice_choose R es s of
        (None, s) \<Rightarrow> (Inl Pt_RngEmpty, s)
      | (Some e, s) \<Rightarrow>
          let (args, s) = (case ex_args e of
                Args_Static values \<Rightarrow> (values, s)
              | Args_Generate len n \<Rightarrow> run_state (gen_rnd_args R len n) s);
              (envs, s) = (case ex_envs e of
                Envs_Static values \<Rightarrow> (to_map values, s)
              | Envs_Generate len n \<Rightarrow> run_state (gen_rnd_envs R len n) s)
          in (case to_str (ex_executable e) of
                None \<Rightarrow> (Inl Pt_ToStr, s)
              | Some path \<Rightarrow> (Inr \<lparr>exec_executable = path, exec_args = args, exec_envs = envs\<rparr>, s)))"

section \<open>The list of nodes\<close>

record tree_process =
  tp_depth :: nat
  tp_exec :: "Exec option"

text \<open>One pass of the loop of \<open>generate_tree\<close>: the stack, with its top first, and the nodes so far.\<close>

definition tree_pass ::
    "(string \<Rightarrow> string option) \<Rightarrow> 'r rng \<Rightarrow> pt_config \<Rightarrow> tree_process list \<times> tree_process list \<times> 'r \<Rightarrow>
     (tree_process list \<times> tree_process list \<times> 'r, (pt_error + tree_process list) \<times> 'r) pass option" where
  "tree_pass to_str R c = (\<lambda>(stack, nodes, s).
     case stack of
       [] \<Rightarrow> Some (Break (Inr nodes, s))
     | process # stack \<Rightarrow>
         let next_depth = wrapping_add 32 (tp_depth process) 1; nodes = nodes @ [process] in
         if pt_max_depth c < next_depth then
           (case Exec_new to_str R (pt_executables c) s of
              (Inl e, s) \<Rightarrow> Some (Break (Inl e, s))
            | (Inr ex, s) \<Rightarrow> Some (Again (stack, nodes @ [\<lparr>tp_depth = next_depth, tp_exec = Some ex\<rparr>], s)))
         else Some (Again (replicate (pt_max_children c) \<lparr>tp_depth = next_depth, tp_exec = None\<rparr> @ stack, nodes, s)))"

definition generate_tree :: "(string \<Rightarrow> string option) \<Rightarrow> 'r rng \<Rightarrow> pt_config \<Rightarrow> 'r \<Rightarrow> ((pt_error + tree_process list) \<times> 'r) option" where
  "generate_tree to_str R c s = loop (tree_pass to_str R c) ([\<lparr>tp_depth = 1, tp_exec = None\<rparr>], [], s)"

section \<open>The processes\<close>

definition goto_next_sibling :: "nat \<Rightarrow> tree_process list \<Rightarrow> tree_process list" where
  "goto_next_sibling d ns = dropWhile (\<lambda>p. tp_depth p \<noteq> d) ns"

text \<open>
  What a process does with the nodes that are left: it forks children, in order, and then executes a
  command or ends. A fork is known by the number of its attempt in the process and the attempts that
  led to the process; where it fails the process goes on with the next node. The child goes on with
  the same iterator as its parent.
\<close>

datatype process_run = Run (forked: "process_run list") (executes: "Exec option")

function spawn_loop :: "(nat list \<Rightarrow> bool) \<Rightarrow> nat list \<Rightarrow> nat \<Rightarrow> tree_process list \<Rightarrow> process_run" where
  "spawn_loop fork w i [] = Run [] None"
| "spawn_loop fork w i (process # ns) =
     (case tp_exec process of
        Some ex \<Rightarrow> Run [] (Some ex)
      | None \<Rightarrow>
          if fork (i # w) then
            let child = spawn_loop fork (i # w) 0 ns;
                rest = spawn_loop fork w (Suc i) (goto_next_sibling (tp_depth process) ns)
            in Run (child # forked rest) (executes rest)
          else spawn_loop fork w (Suc i) ns)"
  by pat_completeness auto
termination
  by (relation "measure (\<lambda>(fork, w, i, ns). length ns)") (simp_all add: goto_next_sibling_def length_dropWhile_le less_Suc_eq_le)

definition spawn_tree :: "(nat list \<Rightarrow> bool) \<Rightarrow> tree_process list \<Rightarrow> process_run" where
  "spawn_tree fork ns = spawn_loop fork [] 0 ns"

text \<open>\<open>try_wait_pid\<close> removes at most one child, the first in the set's order that has ended.\<close>

fun try_wait_pid :: "(int \<Rightarrow> bool) \<Rightarrow> int list \<Rightarrow> int list" where
  "try_wait_pid exited [] = []"
| "try_wait_pid exited (p # ps) = (if exited p then ps else p # try_wait_pid exited ps)"

text \<open>The rounds at the end, until no child is left; \<open>exited t\<close> is what \<open>waitpid\<close> says in round \<open>t\<close>.\<close>

fun wait_rounds :: "(nat \<Rightarrow> int \<Rightarrow> bool) \<Rightarrow> nat \<Rightarrow> nat \<Rightarrow> int list \<Rightarrow> int list" where
  "wait_rounds exited t 0 pids = pids"
| "wait_rounds exited t (Suc n) pids = wait_rounds exited (Suc t) n (try_wait_pid (exited t) pids)"

section \<open>The generator\<close>

record 'c process_tree_gen =
  lading_path :: string
  config_content :: string
  pt_gen_throttle :: "'c Throttle"

definition process_tree_new ::
    "string option \<Rightarrow> (pt_config \<Rightarrow> string option) \<Rightarrow> pt_config \<Rightarrow> 'c \<Rightarrow> pt_error + 'c process_tree_gen" where
  "process_tree_new current_exe to_yaml c clk =
     (case current_exe of
        None \<Rightarrow> Inl Pt_Io
      | Some path \<Rightarrow>
          (case to_yaml c of
             None \<Rightarrow> Inl Pt_Serialization
           | Some serialized \<Rightarrow>
               Inr \<lparr>lading_path = path, config_content = serialized,
                    pt_gen_throttle = new_with_config (pt_throttle c) (pt_max_tree_per_second c) clk\<rparr>))"

text \<open>
  What the loop of \<open>spin\<close> meets, in order: the throttle lets it start a command, which cannot be
  started or ends with a status and what it wrote to its standard error, or the shutdown. The history
  is the command lines started. \<open>None\<close> as the output is text that is not UTF-8.
\<close>

datatype pt_event = Pt_Command "(bool \<times> string option) option" | Pt_Shutdown

datatype pt_result = Pt_Spinning | Pt_Stopped | Pt_Failed pt_error

definition command_line :: "string \<Rightarrow> 'c process_tree_gen \<Rightarrow> string list" where
  "command_line path g = [path, ''--target-pid'', ''1'', ''process-tree-gen'', ''--config-content'', config_content g]"

fun pt_loop :: "'c clock \<Rightarrow> string \<Rightarrow> pt_event list \<Rightarrow> string list list \<Rightarrow> 'c process_tree_gen \<Rightarrow>
    (pt_result \<times> string list list \<times> 'c process_tree_gen) option" where
  "pt_loop clk path [] cmds g = Some (Pt_Spinning, cmds, g)"
| "pt_loop clk path (Pt_Shutdown # es) cmds g = Some (Pt_Stopped, cmds, g)"
| "pt_loop clk path (Pt_Command out # es) cmds g =
     (case throttle_wait clk (pt_gen_throttle g) of
        None \<Rightarrow> None
      | Some (_, t) \<Rightarrow>
          let g = g\<lparr>pt_gen_throttle := t\<rparr>; cmds = cmds @ [command_line path g] in
          (case out of
             None \<Rightarrow> Some (Pt_Failed Pt_Io, cmds, g)
           | Some (True, _) \<Rightarrow> pt_loop clk path es cmds g
           | Some (False, None) \<Rightarrow> Some (Pt_Failed Pt_Utf8, cmds, g)
           | Some (False, Some stderr) \<Rightarrow> Some (Pt_Failed (Pt_ExecutionError stderr), cmds, g)))"

definition pt_spin :: "(string \<Rightarrow> string option) \<Rightarrow> 'c clock \<Rightarrow> pt_event list \<Rightarrow> 'c process_tree_gen \<Rightarrow>
    (pt_result \<times> string list list \<times> 'c process_tree_gen) option" where
  "pt_spin to_str clk es g =
     (case to_str (lading_path g) of
        None \<Rightarrow> Some (Pt_Failed Pt_ToStr, [], g)
      | Some path \<Rightarrow> pt_loop clk path es [] g)"

section \<open>The shape of the tree\<close>

text \<open>
  The complete tree in preorder, \<open>n\<close> levels below depth \<open>d\<close> with \<open>k\<close> children each, and after every
  leaf the command it executes: depth, and whether the node is a command.
\<close>

fun subtree :: "nat \<Rightarrow> nat \<Rightarrow> nat \<Rightarrow> (nat \<times> bool) list" where
  "subtree k d 0 = [(d, False), (Suc d, True)]"
| "subtree k d (Suc n) = (d, False) # concat (replicate k (subtree k (Suc d) n))"

definition shape :: "tree_process \<Rightarrow> nat \<times> bool" where
  "shape p = (tp_depth p, tp_exec p \<noteq> None)"

lemma shape_simps [simp]:
  "shape \<lparr>tp_depth = d, tp_exec = None\<rparr> = (d, False)" "shape \<lparr>tp_depth = d, tp_exec = Some ex\<rparr> = (d, True)"
  by (simp_all add: shape_def)

definition executables_ok :: "(string \<Rightarrow> string option) \<Rightarrow> pt_config \<Rightarrow> bool" where
  "executables_ok to_str c \<longleftrightarrow> pt_executables c \<noteq> [] \<and> (\<forall>e \<in> set (pt_executables c). to_str (ex_executable e) \<noteq> None)"

lemma Exec_new_ok:
  assumes "rng_ok R" "executables_ok to_str c"
  shows "\<exists>ex s'. Exec_new to_str R (pt_executables c) s = (Inr ex, s')"
proof -
  from assms(2) obtain e s1 where e: "slice_choose R (pt_executables c) s = (Some e, s1)"
    using slice_choose_Some by (metis executables_ok_def)
  with assms have "to_str (ex_executable e) \<noteq> None" using slice_choose_in by (fastforce simp: executables_ok_def)
  with e show ?thesis by (auto simp: Exec_new_def split_beta Let_def)
qed

lemma tree_loop_children:
  assumes sub: "\<And>stack nodes s. \<exists>ns s'. loop body (p # stack, nodes, s) = loop body (stack, nodes @ ns, s') \<and> map shape ns = xs"
  shows "\<exists>ns s'. loop body (replicate m p @ stack, nodes, s) = loop body (stack, nodes @ ns, s') \<and> map shape ns = concat (replicate m xs)"
proof (induction m arbitrary: nodes s)
  case 0
  then show ?case by (intro exI [of _ "[]"] exI [of _ s]) simp
next
  case (Suc m)
  from sub obtain ns s1 where 1: "loop body (p # replicate m p @ stack, nodes, s) = loop body (replicate m p @ stack, nodes @ ns, s1)" "map shape ns = xs"
    by blast
  from Suc obtain ns' s2 where "loop body (replicate m p @ stack, nodes @ ns, s1) = loop body (stack, (nodes @ ns) @ ns', s2)" "map shape ns' = concat (replicate m xs)"
    by blast
  with 1 show ?case by (intro exI [of _ "ns @ ns'"] exI [of _ s2]) simp
qed

lemma tree_loop_subtree:
  assumes "rng_ok R" "executables_ok to_str c" "pt_max_depth c < 2 ^ 32 - 1"
  shows "d + n = pt_max_depth c \<Longrightarrow>
    \<exists>ns s'. loop (tree_pass to_str R c) (\<lparr>tp_depth = d, tp_exec = None\<rparr> # stack, nodes, s) =
        loop (tree_pass to_str R c) (stack, nodes @ ns, s') \<and> map shape ns = subtree (pt_max_children c) d n"
proof (induction n arbitrary: d stack nodes s)
  case 0
  let ?p = "\<lparr>tp_depth = d, tp_exec = None\<rparr>"
  from Exec_new_ok [OF assms(1,2)] obtain ex s' where ex: "Exec_new to_str R (pt_executables c) s = (Inr ex, s')" by blast
  have "tree_pass to_str R c (?p # stack, nodes, s) = Some (Again (stack, nodes @ [?p, \<lparr>tp_depth = Suc d, tp_exec = Some ex\<rparr>], s'))"
    using 0 assms(3) ex by (simp add: tree_pass_def wrapping_add_def)
  then show ?case by (intro exI [of _ "[?p, \<lparr>tp_depth = Suc d, tp_exec = Some ex\<rparr>]"] exI [of _ s']) (simp add: loop_Again)
next
  case (Suc n)
  let ?p = "\<lparr>tp_depth = d, tp_exec = None\<rparr>" and ?q = "\<lparr>tp_depth = Suc d, tp_exec = None\<rparr>"
  have first: "loop (tree_pass to_str R c) (?p # stack, nodes, s) =
      loop (tree_pass to_str R c) (replicate (pt_max_children c) ?q @ stack, nodes @ [?p], s)"
    using Suc.prems assms(3) by (intro loop_Again) (simp add: tree_pass_def wrapping_add_def)
  have "Suc d + n = pt_max_depth c" using Suc.prems by simp
  from tree_loop_children [OF Suc.IH [OF this]] obtain ns s' where
    "loop (tree_pass to_str R c) (replicate (pt_max_children c) ?q @ stack, nodes @ [?p], s) = loop (tree_pass to_str R c) (stack, (nodes @ [?p]) @ ns, s')"
    "map shape ns = concat (replicate (pt_max_children c) (subtree (pt_max_children c) (Suc d) n))" by blast
  with first show ?case by (intro exI [of _ "?p # ns"] exI [of _ s']) simp
qed

lemma generate_tree_shape:
  assumes "rng_ok R" "executables_ok to_str c" "1 \<le> pt_max_depth c" "pt_max_depth c < 2 ^ 32 - 1"
  shows "\<exists>nodes s'. generate_tree to_str R c s = Some (Inr nodes, s') \<and> map shape nodes = subtree (pt_max_children c) 1 (pt_max_depth c - 1)"
proof -
  have "1 + (pt_max_depth c - 1) = pt_max_depth c" using assms(3) by simp
  from tree_loop_subtree [OF assms(1,2,4) this, of "[]" "[]" s] obtain nodes s' where
    "generate_tree to_str R c s = loop (tree_pass to_str R c) ([], nodes, s')" "map shape nodes = subtree (pt_max_children c) 1 (pt_max_depth c - 1)"
    by (auto simp: generate_tree_def)
  moreover have "loop (tree_pass to_str R c) ([], nodes, s') = Some (Inr nodes, s')" by (simp add: tree_pass_def)
  ultimately show ?thesis by auto
qed

lemma subtree_depths: "x \<in> set (subtree k d n) \<Longrightarrow> d \<le> fst x \<and> fst x \<le> d + n + 1 \<and> (snd x \<longleftrightarrow> fst x = d + n + 1)"
proof (induction n arbitrary: d x)
  case (Suc n)
  then consider "x = (d, False)" | "x \<in> set (subtree k (Suc d) n)" by (auto split: if_splits)
  then show ?case
  proof cases
    case 2
    from Suc.IH [OF this] show ?thesis by simp
  qed simp
qed auto

lemma length_filter_concat_replicate: "length (filter P (concat (replicate k xs))) = k * length (filter P xs)"
  by (induction k) simp_all

lemma subtree_level: "j \<le> n \<Longrightarrow> length (filter (\<lambda>x. fst x = d + j) (subtree k d n)) = k ^ j"
proof (induction n arbitrary: d j)
  case 0
  then show ?case by simp
next
  case (Suc n)
  show ?case
  proof (cases j)
    case 0
    have "filter (\<lambda>x. fst x = d) (concat (replicate k (subtree k (Suc d) n))) = []"
      by (auto simp: filter_empty_conv dest: subtree_depths)
    with 0 show ?thesis by simp
  next
    case (Suc i)
    with Suc.prems have "length (filter (\<lambda>x. fst x = Suc d + i) (subtree k (Suc d) n)) = k ^ i" by (intro Suc.IH) simp
    with Suc show ?thesis by (simp add: length_filter_concat_replicate)
  qed
qed

lemma length_subtree: "length (subtree k d n) = (\<Sum>i \<le> n. k ^ i) + k ^ n"
proof (induction n arbitrary: d)
  case (Suc n)
  have "(\<Sum>i \<le> Suc n. k ^ i) = 1 + k * (\<Sum>i \<le> n. k ^ i)" by (subst sum.atMost_Suc_shift) (simp add: sum_distrib_left)
  with Suc show ?case by (simp add: length_concat sum_list_replicate algebra_simps)
qed simp

lemma subtree_spine: "1 \<le> k \<Longrightarrow> j \<le> Suc n \<Longrightarrow> take j (map fst (subtree k d n)) = [d..<d + j]"
proof (induction n arbitrary: d j)
  case 0
  then show ?case by (cases j) auto
next
  case (Suc n)
  show ?case
  proof (cases j)
    case (Suc i)
    obtain k' where k: "k = Suc k'" using Suc.prems(1) by (cases k) auto
    have "take i (map fst (subtree k (Suc d) n)) = [Suc d..<Suc d + i]" using Suc Suc.IH Suc.prems by simp
    moreover have "i \<le> length (map fst (subtree k (Suc d) n))" using Suc Suc.prems calculation
      by (metis add_diff_cancel_left' length_take length_upt min.cobounded1 min.absorb_iff2)
    ultimately show ?thesis using Suc k by (simp add: upt_conv_Cons)
  qed simp
qed

section \<open>The processes that are forked\<close>

lemma spawn_level:
  assumes "\<forall>p \<in> set ns. tp_depth p = d \<longrightarrow> tp_exec p = None" "ns = [] \<or> tp_depth (hd ns) = d"
  shows "length (forked (spawn_loop (\<lambda>_. True) w i ns)) = length (filter (\<lambda>p. tp_depth p = d) ns)"
  using assms
proof (induction "length ns" arbitrary: ns i rule: less_induct)
  case less
  show ?case
  proof (cases ns)
    case (Cons p rest)
    let ?next = "goto_next_sibling d rest"
    have p: "tp_depth p = d" "tp_exec p = None" using less.prems Cons by auto
    have "length (forked (spawn_loop (\<lambda>_. True) w (Suc i) ?next)) = length (filter (\<lambda>p. tp_depth p = d) ?next)"
    proof (rule less.hyps)
      show "length ?next < length ns" by (simp add: Cons goto_next_sibling_def length_dropWhile_le less_Suc_eq_le)
      show "\<forall>p \<in> set ?next. tp_depth p = d \<longrightarrow> tp_exec p = None"
        using less.prems(1) Cons by (auto simp: goto_next_sibling_def dest: set_dropWhileD)
      show "?next = [] \<or> tp_depth (hd ?next) = d" unfolding goto_next_sibling_def using hd_dropWhile [of "\<lambda>p. tp_depth p \<noteq> d" rest] by blast
    qed
    moreover have "filter (\<lambda>p. tp_depth p = d) ?next = filter (\<lambda>p. tp_depth p = d) rest"
      unfolding goto_next_sibling_def by (induction rest) simp_all
    ultimately show ?thesis using p by (simp add: Cons Let_def)
  qed simp
qed

text \<open>The process that is reached by taking the first child \<open>d\<close> times.\<close>

fun first_process :: "nat \<Rightarrow> process_run \<Rightarrow> process_run" where
  "first_process 0 r = r"
| "first_process (Suc d) r = first_process d (hd (forked r))"

lemma first_process_spawn:
  assumes "d \<le> length ns" "\<forall>p \<in> set (take d ns). tp_exec p = None"
  shows "\<exists>w'. first_process d (spawn_loop (\<lambda>_. True) w 0 ns) = spawn_loop (\<lambda>_. True) w' 0 (drop d ns)"
  using assms
proof (induction d arbitrary: ns w)
  case (Suc d)
  then obtain p rest where ns: "ns = p # rest" by (cases ns) auto
  with Suc show ?case by (auto simp: Let_def)
qed auto

lemma tree_exec:
  assumes "map shape nodes = subtree k 1 n" "p \<in> set nodes" "tp_depth p \<le> Suc n"
  shows "tp_exec p = None"
proof -
  from assms have "shape p \<in> set (subtree k 1 n)" by (metis image_eqI set_map)
  from subtree_depths [OF this] assms(3) show ?thesis by (auto simp: shape_def)
qed

lemma tree_spine:
  assumes shape: "map shape nodes = subtree k 1 n" and k: "1 \<le> k" and d: "d \<le> n"
  shows "d < length nodes" "p \<in> set (take d nodes) \<Longrightarrow> tp_depth p \<le> d" "tp_depth (nodes ! d) = Suc d"
proof -
  have depths: "map tp_depth nodes = map fst (subtree k 1 n)" using arg_cong [OF shape, of "map fst"] by (simp add: shape_def comp_def)
  have spine: "map tp_depth (take (Suc d) nodes) = [1..<1 + Suc d]"
    unfolding take_map [symmetric] depths using d by (intro subtree_spine [OF k]) simp
  have "length (map tp_depth (take (Suc d) nodes)) = length [1..<1 + Suc d]" by (simp only: spine)
  then show len: "d < length nodes" by (simp del: upt_Suc)
  have early: "map tp_depth (take d nodes) = [1..<Suc d]" using arg_cong [OF spine, of "take d"] by (simp add: take_map min_def)
  show "tp_depth p \<le> d" if "p \<in> set (take d nodes)"
  proof -
    from that have "tp_depth p \<in> set [1..<Suc d]" unfolding early [symmetric] by simp
    then show ?thesis by auto
  qed
  show "tp_depth (nodes ! d) = Suc d"
    using len arg_cong [OF spine, of "\<lambda>xs. xs ! d"] by (simp add: nth_append del: upt_Suc)
qed

lemma spawn_first_process:
  assumes shape: "map shape nodes = subtree k 1 n" and k: "1 \<le> k" and d: "d \<le> n"
  shows "length (forked (first_process d (spawn_tree (\<lambda>_. True) nodes))) = k ^ d"
proof -
  note spine = tree_spine [OF assms] and exec = tree_exec [OF shape]
  have "\<forall>p \<in> set (take d nodes). tp_exec p = None" using spine(2) exec d by (meson in_set_takeD le_SucI order_trans)
  with first_process_spawn [of d nodes "[]"] spine(1) obtain w where
    w: "first_process d (spawn_tree (\<lambda>_. True) nodes) = spawn_loop (\<lambda>_. True) w 0 (drop d nodes)" by (auto simp: spawn_tree_def)
  have "\<forall>p \<in> set (drop d nodes). tp_depth p = Suc d \<longrightarrow> tp_exec p = None" using exec d by (auto dest: in_set_dropD)
  then have forks: "length (forked (spawn_loop (\<lambda>_. True) w 0 (drop d nodes))) = length (filter (\<lambda>p. tp_depth p = Suc d) (drop d nodes))"
    using spine(1,3) by (intro spawn_level) (simp_all add: hd_drop_conv_nth)
  have "filter (\<lambda>p. tp_depth p = Suc d) nodes = filter (\<lambda>p. tp_depth p = Suc d) (take d nodes) @ filter (\<lambda>p. tp_depth p = Suc d) (drop d nodes)"
    by (metis append_take_drop_id filter_append)
  moreover have "filter (\<lambda>p. tp_depth p = Suc d) (take d nodes) = []" using spine(2) by (fastforce simp: filter_empty_conv)
  ultimately have "length (filter (\<lambda>p. tp_depth p = Suc d) (drop d nodes)) = length (filter (\<lambda>x. fst x = Suc d) (map shape nodes))"
    by (simp add: filter_map comp_def shape_def)
  also have "\<dots> = k ^ d" unfolding shape using subtree_level [OF d, of 1 k] by simp
  finally show ?thesis by (simp add: w forks)
qed

lemma length_try_wait_pid: "length (try_wait_pid e ps) = (if \<exists>p \<in> set ps. e p then length ps - 1 else length ps)"
proof (induction ps)
  case (Cons p ps)
  then show ?case by (cases ps) auto
qed simp

lemma set_try_wait_pid: "set (try_wait_pid e ps) \<subseteq> set ps"
  by (induction ps) auto

text \<open>Waiting ends: once every child has ended, as many rounds as there are children are enough.\<close>

theorem wait_rounds_end:
  "\<forall>p \<in> set pids. \<forall>t \<ge> t0. exited t p \<Longrightarrow> length pids \<le> n \<Longrightarrow> wait_rounds exited t0 n pids = []"
proof (induction n arbitrary: t0 pids)
  case (Suc n)
  show ?case
  proof (cases pids)
    case Nil
    with Suc show ?thesis by simp
  next
    case (Cons p ps)
    with Suc.prems have "wait_rounds exited (Suc t0) n ps = []" by (intro Suc.IH) auto
    with Cons Suc.prems show ?thesis by simp
  qed
qed simp

text \<open>
  C36. The nodes are a tree, the processes are not. \<open>generate_tree\<close> returns the complete tree of the
  configured depth and width in preorder, with a command below every leaf, without an error; its
  length grows with the power of the depth. But a process looks for its next child at any later
  node of the right depth, past the end of its own subtree: when all forks succeed, the first
  process at depth \<open>d\<close> forks \<open>max_children ^ d\<close> children, its own and all its cousins'.
\<close>

theorem process_tree_forks_cousins:
  assumes "rng_ok R" "executables_ok to_str c" "1 \<le> pt_max_depth c" "pt_max_depth c < 2 ^ 32 - 1" "1 \<le> pt_max_children c"
  shows "\<exists>nodes s'. generate_tree to_str R c s = Some (Inr nodes, s') \<and>
    map shape nodes = subtree (pt_max_children c) 1 (pt_max_depth c - 1) \<and>
    length nodes = (\<Sum>i < pt_max_depth c. pt_max_children c ^ i) + pt_max_children c ^ (pt_max_depth c - 1) \<and>
    (\<forall>d < pt_max_depth c. length (forked (first_process d (spawn_tree (\<lambda>_. True) nodes))) = pt_max_children c ^ d)"
proof -
  obtain nodes s' where g: "generate_tree to_str R c s = Some (Inr nodes, s')"
      "map shape nodes = subtree (pt_max_children c) 1 (pt_max_depth c - 1)"
    using generate_tree_shape [OF assms(1-4)] by blast
  have "length nodes = length (subtree (pt_max_children c) 1 (pt_max_depth c - 1))" using g(2) by (metis length_map)
  moreover have "{..pt_max_depth c - 1} = {..<pt_max_depth c}" using assms(3) by auto
  ultimately have "length nodes = (\<Sum>i < pt_max_depth c. pt_max_children c ^ i) + pt_max_children c ^ (pt_max_depth c - 1)"
    by (simp add: length_subtree)
  moreover have "\<forall>d < pt_max_depth c. length (forked (first_process d (spawn_tree (\<lambda>_. True) nodes))) = pt_max_children c ^ d"
    using spawn_first_process [OF g(2) assms(5)] by auto
  ultimately show ?thesis using g by blast
qed

theorem process_tree_forks_cousins_witness:
  "\<exists>nodes s'. generate_tree Some counter_rng ((pt_default_config [pt_default_executable ''/bin/true''])\<lparr>pt_max_depth := 3, pt_max_children := 2\<rparr>) 0 =
      Some (Inr nodes, s') \<and> length nodes = 11 \<and> length (forked (first_process 2 (spawn_tree (\<lambda>_. True) nodes))) = 4"
proof -
  let ?c = "(pt_default_config [pt_default_executable ''/bin/true''])\<lparr>pt_max_depth := 3, pt_max_children := 2\<rparr>"
  have "executables_ok Some ?c" by (simp add: executables_ok_def pt_default_config_def)
  moreover have "1 \<le> pt_max_depth ?c" "pt_max_depth ?c < 2 ^ 32 - 1" "1 \<le> pt_max_children ?c" by simp_all
  ultimately obtain nodes s' where n: "generate_tree Some counter_rng ?c 0 = Some (Inr nodes, s')"
      "length nodes = (\<Sum>i < pt_max_depth ?c. pt_max_children ?c ^ i) + pt_max_children ?c ^ (pt_max_depth ?c - 1)"
      "\<forall>d < pt_max_depth ?c. length (forked (first_process d (spawn_tree (\<lambda>_. True) nodes))) = pt_max_children ?c ^ d"
    using process_tree_forks_cousins [OF counter_rng_ok, of Some ?c 0] by blast
  have "length nodes = 11" using n(2) by (simp add: numeral_3_eq_3)
  moreover have "length (forked (first_process 2 (spawn_tree (\<lambda>_. True) nodes))) = 4" using n(3) by simp
  ultimately show ?thesis using n(1) by blast
qed

end
