(* ===== verification/Cli.thy ===== *)
theory Cli
  imports Target Process_Tree
begin

text \<open>
  The command line of \<^verbatim>\<open>bin/lading.rs\<close> and the configuration (\<^verbatim>\<open>config.rs\<close>) it completes: the
  \<open>KEY=VAL,KEY2=VAL\<close> lists, \<open>get_config\<close>, and the sub-command that makes a process tree. The YAML
  parser and the parser of socket addresses are arguments, as are the sub-configurations of
  generators, blackholes and target metrics. Log lines are left out.
\<close>

section \<open>Lists of keys and values\<close>

text \<open>The class \<open>[[:alpha:]_]\<close> of the regular expression.\<close>

definition is_key_char :: "char \<Rightarrow> bool" where
  "is_key_char c \<longleftrightarrow> (let n = of_char c :: nat in 65 \<le> n \<and> n \<le> 90 \<or> 97 \<le> n \<and> n \<le> 122) \<or> c = CHR ''_''"

text \<open>
  The first match of \<open>([[:alpha:]_]+)=\<close>: what is before it, the key, and what is after the equals sign.
  Since the sign is not in the class, a match from some position is the whole run of key characters
  there, and the leftmost match starts where such a run starts.
\<close>

function find_key :: "string \<Rightarrow> (string \<times> string \<times> string) option" where
  "find_key [] = None"
| "find_key (c # cs) =
     (if is_key_char c
      then
        (let key = takeWhile is_key_char (c # cs); rest = dropWhile is_key_char (c # cs)
         in case rest of
              [] \<Rightarrow> None
            | d # ds \<Rightarrow>
                if d = CHR ''='' then Some ([], key, ds)
                else map_option (\<lambda>(before, r). (key @ before, r)) (find_key rest))
      else map_option (\<lambda>(before, r). (c # before, r)) (find_key cs))"
  by pat_completeness auto
termination
  by (relation "measure length") (auto simp: le_imp_less_Suc length_dropWhile_le)

declare find_key.simps(2) [simp del]

lemma find_key_length: "find_key s = Some (before, key, rest) \<Longrightarrow> length rest < length s"
proof (induction s arbitrary: before key rest rule: find_key.induct)
  case (2 c cs)
  show ?case
  proof (cases "is_key_char c")
    case True
    have len: "length (dropWhile is_key_char cs) \<le> length cs" by (rule length_dropWhile_le)
    from 2(3) True obtain d ds where d: "dropWhile is_key_char (c # cs) = d # ds"
      by (auto simp: find_key.simps(2) [of c cs] Let_def split: list.splits)
    show ?thesis
    proof (cases "d = CHR ''=''")
      case True
      with 2(3) \<open>is_key_char c\<close> d len show ?thesis by (auto simp: find_key.simps(2) [of c cs] Let_def)
    next
      case False
      with 2(3) \<open>is_key_char c\<close> d obtain b where b: "find_key (d # ds) = Some (b, key, rest)"
        by (auto simp: find_key.simps(2) [of c cs] Let_def)
      have "length rest < length (dropWhile is_key_char (c # cs))"
        using 2(1) [OF \<open>is_key_char c\<close> refl refl d False, of b key rest] b d by simp
      with \<open>is_key_char c\<close> len show ?thesis by simp
    qed
  next
    case False
    with 2(3) obtain b where "find_key cs = Some (b, key, rest)" by (auto simp: find_key.simps(2) [of c cs])
    from 2(2) [OF False this] show ?thesis by simp
  qed
qed simp

definition trim_end_commas :: "string \<Rightarrow> string" where
  "trim_end_commas s = rev (dropWhile (\<lambda>c. c = CHR '','') (rev s))"

function cli_from_str_loop :: "string \<Rightarrow> (string \<rightharpoonup> string) \<Rightarrow> (string \<rightharpoonup> string)" where
  "cli_from_str_loop s m =
     (case find_key s of
        None \<Rightarrow> m
      | Some (_, key, rest) \<Rightarrow>
          let value = trim_end_commas (case find_key rest of None \<Rightarrow> rest | Some (before, _) \<Rightarrow> before)
          in cli_from_str_loop rest (m(key \<mapsto> value)))"
  by pat_completeness auto
termination
  by (relation "measure (\<lambda>(s, m). length s)") (auto dest: find_key_length)

declare cli_from_str_loop.simps [simp del]

definition cli_from_str :: "string \<Rightarrow> (string \<rightharpoonup> string)" where
  "cli_from_str input = cli_from_str_loop input Map.empty"

text \<open>The entries in the order the hash map gives them.\<close>

definition cli_display :: "(string \<times> string) list \<Rightarrow> string" where
  "cli_display kvs = concat (map (\<lambda>(k, v). k @ ''='' @ v @ '','') kvs)"

section \<open>Options and configuration\<close>

datatype Telemetry =
    Prometheus string "string \<rightharpoonup> string"
  | PrometheusSocket string "string \<rightharpoonup> string"
  | Telemetry_Log string "string \<rightharpoonup> string" nat

definition default_telemetry :: Telemetry where
  "default_telemetry = Prometheus ''0.0.0.0:9000'' Map.empty"

record ('g, 'b, 'm) config =
  telemetry :: Telemetry
  generator :: "'g list"
  target :: "target_config option"
  blackhole :: "'b list option"
  target_metrics :: "'m list option"
  inspector :: "inspector_config option"

record ProcessTreeGen =
  ptg_config_path :: "string option"
  ptg_config_content :: "string option"

record Opts =
  opt_config_path :: string
  opt_global_labels :: "(string \<rightharpoonup> string) option"
  opt_target_pid :: "nat option"
  opt_target_container :: "string option"
  opt_no_target :: bool
  opt_target_path :: "string option"
  opt_target_inherit_environment :: bool
  opt_target_environment_variables :: "(string \<rightharpoonup> string) option"
  opt_target_arguments :: "string list"
  opt_target_stdout_path :: Behavior
  opt_target_stderr_path :: Behavior
  opt_capture_path :: "string option"
  opt_capture_expiriation_seconds :: "nat option"
  opt_prometheus_path :: "string option"
  opt_prometheus_addr :: "string option"
  opt_max_shutdown_delay :: nat
  opt_experiment_duration_seconds :: nat
  opt_experiment_duration_infinite :: bool
  opt_warmup_duration_seconds :: nat
  opt_disable_inspector :: bool
  opt_extracmds :: "ProcessTreeGen option"

text \<open>The groups that the argument parser enforces: one way to name a target, one kind of telemetry.\<close>

definition opts_ok :: "Opts \<Rightarrow> bool" where
  "opts_ok ops \<longleftrightarrow>
     length (filter (\<lambda>b. b) [opt_target_path ops \<noteq> None, opt_target_pid ops \<noteq> None, opt_target_container ops \<noteq> None, opt_no_target ops]) = 1 \<and>
     length (filter (\<lambda>b. b) [opt_capture_path ops \<noteq> None, opt_prometheus_addr ops \<noteq> None, opt_prometheus_path ops \<noteq> None]) = 1"

datatype lading_error =
    Lading_Target target_error | Lading_Io | Lading_Generator | Lading_Blackhole | Lading_Inspector | Lading_Observer
  | Lading_SerdeYaml | Lading_Send | Lading_PrometheusAddr | Lading_CapturePath | Lading_PrometheusPath
  | Lading_ProcessTree pt_error | Lading_Registration

text \<open>
  The surroundings: the variable \<open>LADING_CONFIG\<close>, the files (\<open>None\<close> cannot be opened, \<open>Some None\<close>
  cannot be read), the YAML parser and the parser of addresses. A text is always a valid path.
\<close>

record ('g, 'b, 'm) surroundings =
  env_config :: "string option"
  open_file :: "string \<Rightarrow> string option option"
  from_yaml :: "string \<Rightarrow> ('g, 'b, 'm) config option"
  parse_addr :: "string \<Rightarrow> string option"

definition config_contents :: "('g, 'b, 'm) surroundings \<Rightarrow> string \<Rightarrow> string option \<Rightarrow> (lading_error + string) option" where
  "config_contents h path given =
     (case given of
        Some contents \<Rightarrow> Some (Inr contents)
      | None \<Rightarrow>
          (case env_config h of
             Some contents \<Rightarrow> Some (Inr contents)
           | None \<Rightarrow>
               (case open_file h path of
                  None \<Rightarrow> None
                | Some None \<Rightarrow> Some (Inl Lading_Io)
                | Some (Some contents) \<Rightarrow> Some (Inr contents))))"

definition config_target :: "Opts \<Rightarrow> target_config option option" where
  "config_target ops =
     (if opt_no_target ops then Some None
      else
        case opt_target_pid ops of
          Some pid \<Rightarrow> map_option (\<lambda>pid. Some (Target_Pid pid)) (to_i32 (int pid))
        | None \<Rightarrow>
            (case opt_target_container ops of
               Some name \<Rightarrow> Some (Some (Target_Docker name))
             | None \<Rightarrow>
                 (case opt_target_path ops of
                    Some path \<Rightarrow>
                      Some (Some (Target_Binary
                        \<lparr>bin_command = path, bin_arguments = opt_target_arguments ops,
                         inherit_environment = opt_target_inherit_environment ops,
                         environment_variables = (case opt_target_environment_variables ops of Some m \<Rightarrow> m | None \<Rightarrow> Map.empty),
                         bin_output = \<lparr>out_stderr = opt_target_stderr_path ops, out_stdout = opt_target_stdout_path ops\<rparr>\<rparr>))
                  | None \<Rightarrow> None)))"

fun add_labels :: "(string \<rightharpoonup> string) \<Rightarrow> Telemetry \<Rightarrow> Telemetry" where
  "add_labels m (Prometheus addr ls) = Prometheus addr (ls ++ m)"
| "add_labels m (PrometheusSocket path ls) = PrometheusSocket path (ls ++ m)"
| "add_labels m (Telemetry_Log path ls expiration) = Telemetry_Log path (ls ++ m) expiration"

definition config_telemetry :: "('g, 'b, 'm) surroundings \<Rightarrow> Opts \<Rightarrow> Telemetry \<Rightarrow> lading_error + Telemetry" where
  "config_telemetry h ops t =
     (let ls = (case opt_global_labels ops of Some m \<Rightarrow> m | None \<Rightarrow> Map.empty)
      in case opt_prometheus_addr ops of
           Some addr \<Rightarrow> (case parse_addr h addr of None \<Rightarrow> Inl Lading_PrometheusAddr | Some addr \<Rightarrow> Inr (Prometheus addr ls))
         | None \<Rightarrow>
             (case opt_prometheus_path ops of
                Some path \<Rightarrow> Inr (PrometheusSocket path ls)
              | None \<Rightarrow>
                  (case opt_capture_path ops of
                     Some path \<Rightarrow>
                       Inr (Telemetry_Log path ls (case opt_capture_expiriation_seconds ops of Some n \<Rightarrow> n | None \<Rightarrow> umax 64))
                   | None \<Rightarrow> Inr (add_labels ls t))))"

text \<open>\<open>get_config\<close>; \<open>None\<close> where it panics.\<close>

definition get_config :: "('g, 'b, 'm) surroundings \<Rightarrow> Opts \<Rightarrow> string option \<Rightarrow> (lading_error + ('g, 'b, 'm) config) option" where
  "get_config h ops given =
     (case config_contents h (opt_config_path ops) given of
        None \<Rightarrow> None
      | Some (Inl e) \<Rightarrow> Some (Inl e)
      | Some (Inr contents) \<Rightarrow>
          (case from_yaml h contents of
             None \<Rightarrow> Some (Inl Lading_SerdeYaml)
           | Some c \<Rightarrow>
               (case config_target ops of
                  None \<Rightarrow> None
                | Some tgt \<Rightarrow>
                    (case config_telemetry h ops (telemetry c) of
                       Inl e \<Rightarrow> Some (Inl e)
                     | Inr t \<Rightarrow> Some (Inr (c\<lparr>target := tgt, telemetry := t\<rparr>))))))"

text \<open>The sub-command that the process tree generator starts; \<open>None\<close> where it panics or does not return.\<close>

definition run_process_tree ::
    "(string \<Rightarrow> string option option) \<Rightarrow> (string \<Rightarrow> pt_config option) \<Rightarrow> (string \<Rightarrow> bool) \<Rightarrow> (string \<Rightarrow> string option) \<Rightarrow> 'r rng \<Rightarrow> 'r \<Rightarrow>
     (nat list \<Rightarrow> bool) \<Rightarrow> ProcessTreeGen \<Rightarrow> (lading_error + process_run) option" where
  "run_process_tree opens yaml is_executable to_str R seed fork opts =
     (case (case ptg_config_path opts of
              Some path \<Rightarrow> map_option (\<lambda>r. case r of None \<Rightarrow> Inl Lading_Io | Some s \<Rightarrow> Inr s) (opens path)
            | None \<Rightarrow> map_option Inr (ptg_config_content opts)) of
        None \<Rightarrow> None
      | Some (Inl e) \<Rightarrow> Some (Inl e)
      | Some (Inr contents) \<Rightarrow>
          (case pt_get_config yaml is_executable contents of
             Inl e \<Rightarrow> None
           | Inr c \<Rightarrow> map_option (\<lambda>(r, s). map_sum Lading_ProcessTree (spawn_tree fork) r) (generate_tree to_str R c seed)))"

section \<open>Lists of keys and values are read back\<close>

definition is_key :: "string \<Rightarrow> bool" where
  "is_key k \<longleftrightarrow> k \<noteq> [] \<and> (\<forall>c \<in> set k. is_key_char c)"

definition plain_value :: "string \<Rightarrow> bool" where
  "plain_value v \<longleftrightarrow> CHR ''='' \<notin> set v \<and> (v \<noteq> [] \<longrightarrow> last v \<noteq> CHR '','')"

lemma key_chars [simp]: "\<not> is_key_char (CHR ''='')" "\<not> is_key_char (CHR '','')"
  by (simp_all add: is_key_char_def Let_def)

lemma find_key_key: "is_key k \<Longrightarrow> find_key (k @ CHR ''='' # rest) = Some ([], k, rest)"
proof (cases k)
  case (Cons c cs)
  moreover assume "is_key k"
  ultimately have k: "\<forall>x \<in> set (c # cs). is_key_char x" by (simp add: is_key_def)
  then have "takeWhile is_key_char (c # cs @ CHR ''='' # rest) = c # cs" "dropWhile is_key_char (c # cs @ CHR ''='' # rest) = CHR ''='' # rest"
    using takeWhile_append2 [of "c # cs" is_key_char "CHR ''='' # rest"] dropWhile_append2 [of "c # cs" is_key_char "CHR ''='' # rest"]
    by simp_all
  with Cons k show ?thesis by (simp add: find_key.simps(2) Let_def)
qed (simp add: is_key_def)

lemma find_key_value:
  "CHR ''='' \<notin> set v \<Longrightarrow> find_key (v @ CHR '','' # s) = map_option (\<lambda>(before, r). (v @ CHR '','' # before, r)) (find_key s)"
proof (induction v rule: length_induct)
  case (1 v)
  show ?case
  proof (cases v)
    case (Cons c cs)
    show ?thesis
    proof (cases "is_key_char c")
      case False
      with 1 Cons show ?thesis by (simp add: find_key.simps(2) [of c] option.map_comp comp_def split_beta)
    next
      case True
      define key rest where "key = takeWhile is_key_char v" and "rest = dropWhile is_key_char v"
      have v: "v = key @ rest" by (simp add: key_def rest_def)
      have key: "\<forall>x \<in> set key. is_key_char x" unfolding key_def by (metis set_takeWhileD)
      have ks: "key \<noteq> []" using True Cons by (simp add: key_def)
      then have len: "length rest < length v" unfolding v by simp
      have first: "\<exists>d ds. rest @ CHR '','' # s = d # ds \<and> \<not> is_key_char d \<and> d \<noteq> CHR ''=''"
      proof (cases rest)
        case (Cons d ds)
        then have "\<not> is_key_char d" using hd_dropWhile [of is_key_char v] by (simp add: rest_def)
        moreover have "d \<in> set v" using Cons v by simp
        ultimately show ?thesis using Cons 1(2) by auto
      qed simp
      then obtain d ds where d: "rest @ CHR '','' # s = d # ds" "\<not> is_key_char d" "d \<noteq> CHR ''=''" by blast
      have tw: "takeWhile is_key_char (v @ CHR '','' # s) = key" "dropWhile is_key_char (v @ CHR '','' # s) = d # ds"
        unfolding v append_assoc d(1) using key d(2) by (simp_all add: takeWhile_append2 dropWhile_append2)
      have "find_key (v @ CHR '','' # s) = map_option (\<lambda>(before, r). (key @ before, r)) (find_key (d # ds))"
        using find_key.simps(2) [of c "cs @ CHR '','' # s"] True Cons tw d(3) by (simp add: Let_def)
      also have "find_key (d # ds) = map_option (\<lambda>(before, r). (rest @ CHR '','' # before, r)) (find_key s)"
        using 1(1) [rule_format, OF len] 1(2) v unfolding d(1) [symmetric] by simp
      finally show ?thesis using v by (simp add: option.map_comp comp_def split_beta)
    qed
  qed (simp add: find_key.simps(2))
qed

lemma trim_value:
  assumes "plain_value v"
  shows "trim_end_commas (v @ '','') = v"
proof -
  have "dropWhile (\<lambda>c. c = CHR '','') (rev v) = rev v"
    using assms by (cases "rev v") (auto simp: plain_value_def last_rev [symmetric])
  then show ?thesis by (simp add: trim_end_commas_def)
qed

text \<open>The loop looks at its text through the next match only.\<close>

lemma from_str_match:
  "map_option snd (find_key s) = map_option snd (find_key s') \<Longrightarrow> cli_from_str_loop s m = cli_from_str_loop s' m"
  by (auto simp: cli_from_str_loop.simps [of s] cli_from_str_loop.simps [of s'] split: option.split)

lemma from_str_display:
  assumes "\<forall>(k, v) \<in> set kvs. is_key k \<and> plain_value v"
  shows "cli_from_str_loop (cli_display kvs) m = m ++ map_of (rev kvs)"
  using assms
proof (induction kvs arbitrary: m)
  case Nil
  then show ?case by (simp add: cli_display_def cli_from_str_loop.simps)
next
  case (Cons kv kvs)
  obtain k v where kv: "kv = (k, v)" by force
  with Cons.prems have k: "is_key k" and v: "plain_value v" by auto
  have s: "cli_display (kv # kvs) = k @ CHR ''='' # v @ CHR '','' # cli_display kvs" by (simp add: cli_display_def kv)
  let ?rest = "v @ CHR '','' # cli_display kvs"
  have rest: "find_key ?rest = map_option (\<lambda>(before, r). (v @ CHR '','' # before, r)) (find_key (cli_display kvs))"
    using v find_key_value by (simp add: plain_value_def)
  have "find_key (cli_display kvs) = None \<and> kvs = [] \<or> (\<exists>r. find_key (cli_display kvs) = Some ([], r))"
    using Cons.prems find_key_key by (cases kvs) (auto simp: cli_display_def)
  with rest trim_value [OF v] have "trim_end_commas (case find_key ?rest of None \<Rightarrow> ?rest | Some (before, _) \<Rightarrow> before) = v"
    by (auto simp: cli_display_def)
  then have "cli_from_str_loop (cli_display (kv # kvs)) m = cli_from_str_loop ?rest (m(k \<mapsto> v))"
    unfolding s by (simp add: cli_from_str_loop.simps [of "k @ _"] find_key_key [OF k])
  also have "\<dots> = cli_from_str_loop (cli_display kvs) (m(k \<mapsto> v))"
    by (rule from_str_match) (simp add: rest option.map_comp comp_def split_beta)
  also have "\<dots> = m(k \<mapsto> v) ++ map_of (rev kvs)" by (rule Cons.IH) (use Cons.prems in simp)
  also have "\<dots> = m ++ map_of (rev (kv # kvs))" by (auto simp: kv map_add_def fun_eq_iff split: option.split)
  finally show ?case .
qed

text \<open>
  C39. A list of keys and values is read back from its own text: for keys made of letters and
  underscores, each given once, and values without an equals sign that do not end in a comma, in
  whatever order the map prints its entries; a value may contain commas.
\<close>

theorem cli_values_round_trip:
  assumes "\<forall>(k, v) \<in> set kvs. is_key k \<and> plain_value v" "distinct (map fst kvs)"
  shows "cli_from_str (cli_display kvs) = map_of kvs"
proof -
  have "map_of (rev kvs) = map_of kvs" using assms(2) by (subst map_of_inject_set) (simp_all add: rev_map [symmetric])
  with from_str_display [OF assms(1), of Map.empty] show ?thesis by (simp add: cli_from_str_def)
qed

theorem cli_values_round_trip_witness:
  "cli_from_str (cli_display [(''DD_TAGS'', ''a:b,c:d''), (''first'', ''one'')]) ''DD_TAGS'' = Some ''a:b,c:d''"
  using cli_values_round_trip [of "[(''DD_TAGS'', ''a:b,c:d''), (''first'', ''one'')]"]
  by (simp add: is_key_def plain_value_def is_key_char_def Let_def)

text \<open>
  A key with a digit is cut: the part after the digit is taken for the key, and what is before it is
  lost or becomes part of the previous value.
\<close>

lemma digit_in_key_is_cut: "cli_from_str ''KEY2=VAL'' = Map.empty" "cli_from_str ''a=b,K2V=c'' = [''a'' \<mapsto> ''b,K2'', ''V'' \<mapsto> ''c'']"
  by (simp_all add: cli_from_str_def cli_from_str_loop.simps find_key.simps is_key_char_def Let_def trim_end_commas_def fun_eq_iff)

section \<open>The configuration of a run\<close>

lemma opts_ok_target: "opts_ok ops \<Longrightarrow> opt_no_target ops \<or> opt_target_pid ops \<noteq> None \<or> opt_target_container ops \<noteq> None \<or> opt_target_path ops \<noteq> None"
  by (auto simp: opts_ok_def split: if_splits)

lemma opts_ok_telemetry: "opts_ok ops \<Longrightarrow> opt_capture_path ops \<noteq> None \<or> opt_prometheus_addr ops \<noteq> None \<or> opt_prometheus_path ops \<noteq> None"
  by (auto simp: opts_ok_def split: if_splits)

text \<open>
  With options the argument parser lets through, a configuration that can be read and a pid below
  two to the 31, \<open>get_config\<close> does not panic. Everything of the run but target and telemetry is what the
  file says; target and telemetry are the options' alone, so that a telemetry section of the file
  has no effect at all: any other section gives the same configuration.
\<close>

theorem get_config_from_options:
  assumes "opts_ok ops" "\<forall>pid. opt_target_pid ops = Some pid \<longrightarrow> pid < 2 ^ 31"
    and "config_contents h (opt_config_path ops) given = Some (Inr contents)" "from_yaml h contents = Some c"
    and "\<forall>addr. opt_prometheus_addr ops = Some addr \<longrightarrow> parse_addr h addr \<noteq> None"
  shows "\<exists>tgt t. get_config h ops given = Some (Inr (c\<lparr>target := tgt, telemetry := t\<rparr>)) \<and> (tgt = None \<longleftrightarrow> opt_no_target ops) \<and>
    (\<forall>t'. get_config (h\<lparr>from_yaml := (from_yaml h)(contents \<mapsto> c\<lparr>telemetry := t'\<rparr>)\<rparr>) ops given = get_config h ops given)"
proof -
  have "\<exists>tgt. config_target ops = Some tgt \<and> (tgt = None \<longleftrightarrow> opt_no_target ops)"
  proof (cases "opt_target_pid ops")
    case None
    with opts_ok_target [OF assms(1)] show ?thesis by (auto simp: config_target_def split: option.splits)
  next
    case (Some pid)
    with assms(2) show ?thesis by (simp add: config_target_def to_i32_def)
  qed
  then obtain tgt where tgt: "config_target ops = Some tgt" "tgt = None \<longleftrightarrow> opt_no_target ops" by blast
  have "\<exists>t. \<forall>t0. config_telemetry h ops t0 = Inr t"
    using opts_ok_telemetry [OF assms(1)] assms(5)
    by (cases "opt_prometheus_addr ops"; cases "opt_prometheus_path ops"; cases "opt_capture_path ops") (auto simp: config_telemetry_def Let_def)
  then obtain t where t: "\<And>t0. config_telemetry h ops t0 = Inr t" by blast
  have "config_telemetry (h\<lparr>from_yaml := f\<rparr>) ops t0 = Inr t" for f t0 using t [of t0] by (simp add: config_telemetry_def Let_def cong: option.case_cong)
  moreover have "config_contents (h\<lparr>from_yaml := f\<rparr>) p given = config_contents h p given" for f p
    by (simp add: config_contents_def cong: option.case_cong)
  ultimately show ?thesis using tgt t assms(3,4) by (auto simp: get_config_def)
qed

theorem get_config_from_options_witness:
  "\<exists>ops tgt t. opts_ok ops \<and>
     get_config \<lparr>env_config = Some ''generator: []'', open_file = Map.empty,
       from_yaml = (\<lambda>_. Some \<lparr>telemetry = default_telemetry, generator = [] :: unit list, target = None, blackhole = None :: unit list option,
         target_metrics = None :: unit list option, inspector = None\<rparr>), parse_addr = Some\<rparr> ops None =
     Some (Inr \<lparr>telemetry = t, generator = [], target = tgt, blackhole = None, target_metrics = None, inspector = None\<rparr>) \<and> tgt = None"
proof -
  let ?c = "\<lparr>telemetry = default_telemetry, generator = [] :: unit list, target = None, blackhole = None :: unit list option,
         target_metrics = None :: unit list option, inspector = None\<rparr>"
  let ?h = "\<lparr>env_config = Some ''generator: []'', open_file = Map.empty, from_yaml = (\<lambda>_. Some ?c), parse_addr = Some\<rparr>"
  define ops where "ops = \<lparr>opt_config_path = ''x'', opt_global_labels = None, opt_target_pid = None, opt_target_container = None,
    opt_no_target = True, opt_target_path = None, opt_target_inherit_environment = False, opt_target_environment_variables = None,
    opt_target_arguments = [], opt_target_stdout_path = Behavior_Quiet, opt_target_stderr_path = Behavior_Quiet,
    opt_capture_path = Some ''c'', opt_capture_expiriation_seconds = None, opt_prometheus_path = None, opt_prometheus_addr = None,
    opt_max_shutdown_delay = 30, opt_experiment_duration_seconds = 120, opt_experiment_duration_infinite = False,
    opt_warmup_duration_seconds = 30, opt_disable_inspector = False, opt_extracmds = None\<rparr>"
  have ok: "opts_ok ops" by (simp add: ops_def opts_ok_def)
  have contents: "config_contents ?h (opt_config_path ops) None = Some (Inr ''generator: []'')" by (simp add: config_contents_def)
  obtain tgt t where "get_config ?h ops None = Some (Inr (?c\<lparr>target := tgt, telemetry := t\<rparr>))" "tgt = None"
    using get_config_from_options [OF ok _ contents, of ?c] by (auto simp: ops_def)
  with ok show ?thesis by auto
qed

end
