(* ===== verification/Signal.thy ===== *)
theory Signal
  imports Prelude
begin

text \<open>
  The phase signal of \<^verbatim>\<open>lading_signal/src/lib.rs\<close>: one \<open>Broadcaster\<close>, many \<open>Watcher\<close>s. They
  share an atomic peer count, a broadcast channel on which nothing is ever sent (closing it
  is the signal) and a \<open>Notify\<close>. The model interleaves their atomic steps: each access to
  the peer count, each call on the channel and on the \<open>Notify\<close> is a step of its own, and a
  \<open>compare_exchange_weak\<close> may fail spuriously. \<open>Notify::notify_waiters\<close> wakes the tasks that
  already hold a \<open>notified()\<close> future and leaves no permit behind, as \<open>tokio\<close> documents.
\<close>

section \<open>State\<close>

text \<open>What a watcher does once \<open>decrease_peer_count\<close> returns.\<close>

datatype after = After_Recv | After_TryRecv | After_Drop

datatype wpc = W_Idle | W_Cas nat after | W_Notify after

record Watcher =
  signal_received :: bool
  peer_count_decreased :: bool
  registered :: bool
  wpc :: wpc

datatype bpc = B_Idle | B_Load | B_Loaded | B_Waiting | B_Done

record signal_sys =
  peers :: nat
  sender_open :: bool
  bpc :: bpc
  watchers :: "(nat \<times> Watcher) list"
  next_watcher :: nat

datatype TryRecvError = TryRecv_SignalReceived
datatype RegisterError = Register_SignalReceived

datatype signal_result =
    Res_Unit
  | Res_TryRecv "TryRecvError + bool"
  | Res_Register "RegisterError + nat"

text \<open>\<open>signal()\<close>: a broadcaster and its first watcher, number 0.\<close>

definition signal_init :: signal_sys where
  "signal_init =
     \<lparr>peers = 1, sender_open = True, bpc = B_Idle,
      watchers = [(0, \<lparr>signal_received = False, peer_count_decreased = False, registered = True, wpc = W_Idle\<rparr>)],
      next_watcher = 1\<rparr>"

abbreviation get_watcher :: "signal_sys \<Rightarrow> nat \<Rightarrow> Watcher option" where
  "get_watcher s i \<equiv> map_of (watchers s) i"

definition put_watcher :: "nat \<Rightarrow> Watcher \<Rightarrow> signal_sys \<Rightarrow> signal_sys" where
  "put_watcher i w s = s\<lparr>watchers := AList.update i w (watchers s)\<rparr>"

definition remove_watcher :: "nat \<Rightarrow> signal_sys \<Rightarrow> signal_sys" where
  "remove_watcher i s = s\<lparr>watchers := AList.delete i (watchers s)\<rparr>"

section \<open>Steps\<close>

text \<open>
  After \<open>decrease_peer_count\<close>: \<open>recv\<close> has consumed the watcher, which is then dropped (with
  nothing left to decrease); \<open>try_recv\<close> returns to its caller; a drop is over.
\<close>

fun finish :: "nat \<Rightarrow> Watcher \<Rightarrow> after \<Rightarrow> signal_sys \<Rightarrow> signal_sys" where
  "finish i w After_Recv s = remove_watcher i s"
| "finish i w After_TryRecv s = put_watcher i (w\<lparr>signal_received := True, wpc := W_Idle\<rparr>) s"
| "finish i w After_Drop s = remove_watcher i s"

text \<open>The entry of \<open>decrease_peer_count\<close>, up to the first load of the peer count.\<close>

definition decrease_peer_count :: "nat \<Rightarrow> Watcher \<Rightarrow> after \<Rightarrow> signal_sys \<Rightarrow> signal_sys" where
  "decrease_peer_count i w k s =
     (if \<not> registered w then finish i w k s
      else if peer_count_decreased w then finish i w k s
      else put_watcher i (w\<lparr>wpc := W_Cas (peers s) k\<rparr>) s)"

text \<open>One turn of its loop: the compare and exchange, which may fail though the count is as expected.\<close>

definition decrease_cas :: "bool \<Rightarrow> nat \<Rightarrow> Watcher \<Rightarrow> nat \<Rightarrow> after \<Rightarrow> signal_sys \<Rightarrow> signal_sys" where
  "decrease_cas spurious i w old k s =
     (if old = 0 then finish i (w\<lparr>peer_count_decreased := True\<rparr>) k s
      else if peers s = old \<and> \<not> spurious
      then put_watcher i (w\<lparr>wpc := W_Notify k\<rparr>) (s\<lparr>peers := old - 1\<rparr>)
      else put_watcher i (w\<lparr>wpc := W_Cas (peers s) k\<rparr>) s)"

definition notify_waiters :: "signal_sys \<Rightarrow> signal_sys" where
  "notify_waiters s = (if bpc s = B_Waiting then s\<lparr>bpc := B_Load\<rparr> else s)"

definition watcher_recv :: "nat \<Rightarrow> Watcher \<Rightarrow> signal_sys \<Rightarrow> signal_sys option" where
  "watcher_recv i w s =
     (if signal_received w then Some (decrease_peer_count i w After_Drop s)
      else if sender_open s then None
      else Some (decrease_peer_count i w After_Recv s))"

definition watcher_try_recv :: "nat \<Rightarrow> Watcher \<Rightarrow> signal_sys \<Rightarrow> signal_result \<times> signal_sys" where
  "watcher_try_recv i w s =
     (if signal_received w then (Res_TryRecv (Inl TryRecv_SignalReceived), s)
      else if sender_open s then (Res_TryRecv (Inr False), s)
      else (Res_TryRecv (Inr True), decrease_peer_count i w After_TryRecv s))"

definition watcher_register :: "Watcher \<Rightarrow> signal_sys \<Rightarrow> signal_result \<times> signal_sys" where
  "watcher_register w s =
     (if signal_received w then (Res_Register (Inl Register_SignalReceived), s)
      else
        (Res_Register (Inr (next_watcher s)),
         (put_watcher (next_watcher s)
            \<lparr>signal_received = signal_received w, peer_count_decreased = False, registered = True, wpc = W_Idle\<rparr>
            s)\<lparr>peers := wrapping_add 32 (peers s) 1, next_watcher := next_watcher s + 1\<rparr>))"

definition watcher_clone :: "Watcher \<Rightarrow> signal_sys \<Rightarrow> signal_sys" where
  "watcher_clone w s =
     (put_watcher (next_watcher s)
        \<lparr>signal_received = signal_received w, peer_count_decreased = False, registered = False, wpc = W_Idle\<rparr>
        s)\<lparr>next_watcher := next_watcher s + 1\<rparr>"

datatype action =
    A_Signal | A_SignalAndWait | A_Load | A_Notified
  | A_Recv nat | A_TryRecv nat | A_Register nat | A_Clone nat | A_Drop nat
  | A_Cas nat bool | A_Notify nat

text \<open>A step of the broadcaster or of watcher \<open>i\<close>; \<open>None\<close> where it cannot move.\<close>

definition watcher_act :: "nat \<Rightarrow> (Watcher \<Rightarrow> (signal_result \<times> signal_sys) option) \<Rightarrow> signal_sys \<Rightarrow> (signal_result \<times> signal_sys) option" where
  "watcher_act i f s =
     (case get_watcher s i of Some w \<Rightarrow> (if wpc w = W_Idle then f w else None) | None \<Rightarrow> None)"

fun act :: "action \<Rightarrow> signal_sys \<Rightarrow> (signal_result \<times> signal_sys) option" where
  "act A_Signal s = (if bpc s = B_Idle then Some (Res_Unit, s\<lparr>sender_open := False, bpc := B_Done\<rparr>) else None)"
| "act A_SignalAndWait s = (if bpc s = B_Idle then Some (Res_Unit, s\<lparr>sender_open := False, bpc := B_Load\<rparr>) else None)"
| "act A_Load s =
     (if bpc s = B_Load then Some (Res_Unit, s\<lparr>bpc := (if peers s = 0 then B_Done else B_Loaded)\<rparr>) else None)"
| "act A_Notified s = (if bpc s = B_Loaded then Some (Res_Unit, s\<lparr>bpc := B_Waiting\<rparr>) else None)"
| "act (A_Recv i) s = watcher_act i (\<lambda>w. map_option (\<lambda>s. (Res_Unit, s)) (watcher_recv i w s)) s"
| "act (A_TryRecv i) s = watcher_act i (\<lambda>w. Some (watcher_try_recv i w s)) s"
| "act (A_Register i) s = watcher_act i (\<lambda>w. Some (watcher_register w s)) s"
| "act (A_Clone i) s = watcher_act i (\<lambda>w. Some (Res_Unit, watcher_clone w s)) s"
| "act (A_Drop i) s = watcher_act i (\<lambda>w. Some (Res_Unit, decrease_peer_count i w After_Drop s)) s"
| "act (A_Cas i spurious) s =
     (case get_watcher s i of
        Some w \<Rightarrow> (case wpc w of W_Cas old k \<Rightarrow> Some (Res_Unit, decrease_cas spurious i w old k s) | _ \<Rightarrow> None)
      | None \<Rightarrow> None)"
| "act (A_Notify i) s =
     (case get_watcher s i of
        Some w \<Rightarrow>
          (case wpc w of
             W_Notify k \<Rightarrow> Some (Res_Unit, finish i (w\<lparr>peer_count_decreased := True\<rparr>) k (notify_waiters s))
           | _ \<Rightarrow> None)
      | None \<Rightarrow> None)"

text \<open>The one resource: the peer count, a \<open>u32\<close>, does not overflow on a registration.\<close>

fun act_ok :: "action \<Rightarrow> signal_sys \<Rightarrow> bool" where
  "act_ok (A_Register i) s \<longleftrightarrow> peers s + 1 < 2 ^ 32"
| "act_ok _ s \<longleftrightarrow> True"

section \<open>The peer count\<close>

text \<open>A watcher the count still stands for, and what the count is.\<close>

definition counted :: "Watcher \<Rightarrow> bool" where
  "counted w \<longleftrightarrow> registered w \<and> \<not> peer_count_decreased w \<and> (\<forall>k. wpc w \<noteq> W_Notify k)"

definition count_of :: "(nat \<times> Watcher) list \<Rightarrow> nat" where
  "count_of ws = length (filter (\<lambda>(i, w). counted w) ws)"

definition watcher_ok :: "Watcher \<Rightarrow> bool" where
  "watcher_ok w \<longleftrightarrow>
     (case wpc w of
        W_Idle \<Rightarrow> True
      | W_Cas old k \<Rightarrow> registered w \<and> \<not> peer_count_decreased w \<and> 0 < old
      | W_Notify k \<Rightarrow> registered w \<and> \<not> peer_count_decreased w)"

definition signal_inv :: "signal_sys \<Rightarrow> bool" where
  "signal_inv s \<longleftrightarrow>
     distinct (map fst (watchers s)) \<and> (\<forall>(i, w) \<in> set (watchers s). i < next_watcher s \<and> watcher_ok w) \<and>
     peers s = count_of (watchers s) \<and> (bpc s \<noteq> B_Idle \<longrightarrow> \<not> sender_open s)"

lemma count_of_update:
  "distinct (map fst ws) \<Longrightarrow>
   count_of (AList.update i w ws) + (case map_of ws i of Some w' \<Rightarrow> if counted w' then 1 else 0 | None \<Rightarrow> 0) =
   count_of ws + (if counted w then 1 else 0)"
proof (induction ws)
  case (Cons a ws)
  then show ?case by (cases a) (auto simp: count_of_def map_of_eq_None_iff split: option.splits)
qed (simp add: count_of_def)

lemma count_of_delete:
  "distinct (map fst ws) \<Longrightarrow>
   count_of (AList.delete i ws) + (case map_of ws i of Some w' \<Rightarrow> if counted w' then 1 else 0 | None \<Rightarrow> 0) = count_of ws"
proof (induction ws)
  case (Cons a ws)
  obtain j w where a: "a = (j, w)" by force
  show ?case
  proof (cases "j = i")
    case True
    with Cons.prems a have "i \<notin> fst ` set ws" by auto
    then have "AList.delete i ws = ws" by (simp add: AList.delete_idem)
    with True a show ?thesis by (simp add: count_of_def)
  next
    case False
    with Cons a show ?thesis by (auto simp: count_of_def split: option.splits)
  qed
qed (simp add: count_of_def)

lemma signal_inv_get:
  assumes "signal_inv s" "get_watcher s i = Some w"
  shows "watcher_ok w" and "i < next_watcher s" and "counted w \<Longrightarrow> 0 < peers s"
proof -
  from assms(2) have "(i, w) \<in> set (watchers s)" by (rule map_of_SomeD)
  with assms(1) show "watcher_ok w" "i < next_watcher s" by (auto simp: signal_inv_def)
  from \<open>(i, w) \<in> set (watchers s)\<close> assms(1) show "0 < peers s" if "counted w"
    using that by (auto simp: signal_inv_def count_of_def filter_empty_conv)
qed

lemma signal_inv_bpc:
  "signal_inv s \<Longrightarrow> (b \<noteq> B_Idle \<longrightarrow> \<not> o') \<Longrightarrow> signal_inv (s\<lparr>sender_open := o', bpc := b\<rparr>)"
  "signal_inv s \<Longrightarrow> (b \<noteq> B_Idle \<longrightarrow> bpc s \<noteq> B_Idle) \<Longrightarrow> signal_inv (s\<lparr>bpc := b\<rparr>)"
  by (auto simp: signal_inv_def)

lemma set_AList_update:
  "distinct (map fst xs) \<Longrightarrow> set (AList.update k v xs) \<subseteq> insert (k, v) (set xs)"
  by (induction xs) auto

lemma signal_inv_put:
  assumes "signal_inv s" "watcher_ok w'" "i < n" "next_watcher s \<le> n"
    and "p + (case get_watcher s i of Some w \<Rightarrow> if counted w then 1 else 0 | None \<Rightarrow> 0) = peers s + (if counted w' then 1 else 0)"
  shows "signal_inv ((put_watcher i w' s)\<lparr>peers := p, next_watcher := n\<rparr>)"
proof -
  have d: "distinct (map fst (watchers s))" using assms(1) by (simp add: signal_inv_def)
  have "j < n \<and> watcher_ok u" if "(j, u) \<in> set (AList.update i w' (watchers s))" for j u
    using that set_AList_update [OF d, of i w'] assms(1-4) by (fastforce simp: signal_inv_def)
  moreover have "p = count_of (AList.update i w' (watchers s))"
    using count_of_update [OF d, of i w'] assms(1,5) by (simp add: signal_inv_def split: option.splits)
  ultimately show ?thesis
    using assms(1) d by (auto simp: signal_inv_def put_watcher_def AList.distinct_update)
qed

lemmas signal_inv_register = signal_inv_put [where n = "Suc (next_watcher s)" for s]

lemma signal_inv_replace:
  assumes "signal_inv s" "get_watcher s i = Some w" "watcher_ok w'" "counted w' \<longleftrightarrow> counted w"
  shows "signal_inv (put_watcher i w' s)"
  using signal_inv_put [OF assms(1,3) signal_inv_get(2) [OF assms(1,2)] order_refl, of "peers s"] assms(2,4)
  by (simp add: put_watcher_def)

lemma signal_inv_leave:
  assumes "signal_inv s" "get_watcher s i = Some w" "watcher_ok w'" "\<not> counted w'" "counted w"
  shows "signal_inv (put_watcher i w' (s\<lparr>peers := peers s - 1\<rparr>))"
proof -
  have "put_watcher i w' (s\<lparr>peers := peers s - 1\<rparr>) =
      (put_watcher i w' s)\<lparr>peers := peers s - 1, next_watcher := next_watcher s\<rparr>"
    by (cases s) (simp add: put_watcher_def)
  with signal_inv_put [OF assms(1,3) signal_inv_get(2) [OF assms(1,2)] order_refl, of "peers s - 1"] assms(2,4,5)
    signal_inv_get(3) [OF assms(1,2,5)] show ?thesis by simp
qed

lemma signal_inv_remove:
  assumes "signal_inv s" "get_watcher s i = Some w" "\<not> counted w"
  shows "signal_inv (remove_watcher i s)"
  using assms count_of_delete [of "watchers s" i] AList.distinct_delete [of "watchers s" i]
  by (auto simp: signal_inv_def remove_watcher_def AList.delete_eq)

lemma signal_inv_finish:
  assumes "signal_inv s" "get_watcher s i = Some w" "\<not> counted w" "\<not> counted (w'\<lparr>signal_received := True, wpc := W_Idle\<rparr>)"
  shows "signal_inv (finish i w' k s)"
  using assms by (cases k) (auto intro: signal_inv_remove signal_inv_replace simp: watcher_ok_def)

lemma signal_inv_decrease:
  assumes "signal_inv s" "get_watcher s i = Some w" "wpc w = W_Idle"
  shows "signal_inv (decrease_peer_count i w k s)"
proof (cases "counted w")
  case True
  moreover have "0 < peers s" using signal_inv_get(3) [OF assms(1,2) True] .
  ultimately have "signal_inv (put_watcher i (w\<lparr>wpc := W_Cas (peers s) k\<rparr>) s)"
    by (intro signal_inv_replace [OF assms(1,2)]) (auto simp: watcher_ok_def counted_def)
  with True show ?thesis by (simp add: decrease_peer_count_def counted_def)
next
  case False
  with assms(3) have "\<not> registered w \<or> peer_count_decreased w" by (simp add: counted_def)
  with signal_inv_finish [OF assms(1,2) False, of w k] False show ?thesis
    by (auto simp: decrease_peer_count_def counted_def)
qed

lemma signal_inv_cas:
  assumes "signal_inv s" "get_watcher s i = Some w" "wpc w = W_Cas old k"
  shows "signal_inv (decrease_cas spurious i w old k s)"
proof -
  have w: "registered w" "\<not> peer_count_decreased w" "0 < old" and c: "counted w"
    using signal_inv_get(1) [OF assms(1,2)] assms(3) by (auto simp: watcher_ok_def counted_def)
  have "0 < peers s" using signal_inv_get(3) [OF assms(1,2) c] .
  then have "signal_inv (put_watcher i (w\<lparr>wpc := W_Cas (peers s) k\<rparr>) s)"
    by (intro signal_inv_replace [OF assms(1,2)]) (use w c in \<open>auto simp: watcher_ok_def counted_def\<close>)
  moreover have "signal_inv (put_watcher i (w\<lparr>wpc := W_Notify k\<rparr>) (s\<lparr>peers := peers s - 1\<rparr>))"
    by (rule signal_inv_leave [OF assms(1,2) _ _ c]) (use w in \<open>auto simp: watcher_ok_def counted_def\<close>)
  ultimately show ?thesis using w(3) by (auto simp: decrease_cas_def)
qed

lemma signal_inv_notify: "signal_inv s \<Longrightarrow> signal_inv (notify_waiters s)"
  by (auto simp: notify_waiters_def intro: signal_inv_bpc)

lemma get_watcher_notify [simp]: "watchers (notify_waiters s) = watchers s"
  by (simp add: notify_waiters_def)

lemma signal_inv_fresh:
  assumes "signal_inv s"
  shows "get_watcher s (next_watcher s) = None"
proof -
  have "next_watcher s \<notin> fst ` set (watchers s)" using assms by (force simp: signal_inv_def)
  then show ?thesis by (simp add: map_of_eq_None_iff)
qed

lemma act_inv:
  assumes "signal_inv s" "act_ok a s" "act a s = Some (r, s')"
  shows "signal_inv s'"
proof (cases a)
  case A_Load
  with assms(1,3) show ?thesis by (auto intro: signal_inv_bpc split: if_splits)
next
  case (A_Recv i)
  with assms(1,3) show ?thesis
    by (auto simp: watcher_act_def watcher_recv_def intro: signal_inv_decrease split: option.splits if_splits)
next
  case (A_TryRecv i)
  with assms(1,3) show ?thesis
    by (auto simp: watcher_act_def watcher_try_recv_def intro: signal_inv_decrease split: option.splits if_splits)
next
  case (A_Register i)
  have "signal_inv ((put_watcher (next_watcher s) u s)\<lparr>peers := peers s + 1, next_watcher := next_watcher s + 1\<rparr>)"
    if "watcher_ok u" "counted u" for u
    using signal_inv_put [OF assms(1) that(1), of "next_watcher s" "next_watcher s + 1" "peers s + 1"]
      signal_inv_fresh [OF assms(1)] that(2) by simp
  with A_Register assms show ?thesis
    by (auto simp: watcher_act_def watcher_register_def wrapping_add_def counted_def watcher_ok_def split: option.splits if_splits)
next
  case (A_Clone i)
  have "signal_inv ((put_watcher (next_watcher s) u s)\<lparr>next_watcher := next_watcher s + 1\<rparr>)"
    if "watcher_ok u" "\<not> counted u" for u
    using signal_inv_put [OF assms(1) that(1), of "next_watcher s" "next_watcher s + 1" "peers s"]
      signal_inv_fresh [OF assms(1)] that(2) by (simp add: put_watcher_def)
  with A_Clone assms show ?thesis
    by (auto simp: watcher_act_def watcher_clone_def counted_def watcher_ok_def split: option.splits if_splits)
next
  case (A_Drop i)
  with assms(1,3) show ?thesis by (auto simp: watcher_act_def intro: signal_inv_decrease split: option.splits if_splits)
next
  case (A_Cas i spurious)
  with assms(1,3) show ?thesis by (auto intro: signal_inv_cas split: option.splits wpc.splits)
next
  case (A_Notify i)
  with assms(3) obtain w k where w: "get_watcher s i = Some w" "wpc w = W_Notify k"
    and s': "s' = finish i (w\<lparr>peer_count_decreased := True\<rparr>) k (notify_waiters s)"
    by (auto split: option.splits wpc.splits)
  from w show ?thesis
    unfolding s' by (intro signal_inv_finish [OF signal_inv_notify [OF assms(1)], of i w]) (auto simp: counted_def)
qed (use assms in \<open>auto intro: signal_inv_bpc split: if_splits\<close>)

lemma signal_init_inv: "signal_inv signal_init"
  by (simp add: signal_inv_def signal_init_def watcher_ok_def count_of_def counted_def)

interpretation phase: invariant_machine act act_ok signal_inv
  by unfold_locales (rule act_inv)

lemmas reachable_inv = phase.reaches_inv [OF _ signal_init_inv]

section \<open>The barrier\<close>

text \<open>
  What the pair promises, without the peer count, its compare-and-exchange loop or the
  wake-ups: a set of outstanding peers and a phase. Peers join while it is open or closing;
  a peer leaves once; \<open>signal\<close> releases the broadcaster at once, \<open>signal_and_wait\<close> only when
  nobody is outstanding.
\<close>

datatype phase = Phase_Open | Phase_Closing | Phase_Released

record barrier =
  outstanding :: "nat set"
  phase_of :: phase

inductive barrier_step :: "barrier \<Rightarrow> barrier \<Rightarrow> bool" where
  barrier_join: "i \<notin> outstanding b \<Longrightarrow> barrier_step b (b\<lparr>outstanding := insert i (outstanding b)\<rparr>)"
| barrier_leave: "i \<in> outstanding b \<Longrightarrow> barrier_step b (b\<lparr>outstanding := outstanding b - {i}\<rparr>)"
| barrier_signal: "phase_of b = Phase_Open \<Longrightarrow> barrier_step b (b\<lparr>phase_of := Phase_Released\<rparr>)"
| barrier_close: "phase_of b = Phase_Open \<Longrightarrow> barrier_step b (b\<lparr>phase_of := Phase_Closing\<rparr>)"
| barrier_release:
    "phase_of b = Phase_Closing \<Longrightarrow> outstanding b = {} \<Longrightarrow> barrier_step b (b\<lparr>phase_of := Phase_Released\<rparr>)"

fun phase_abs :: "bpc \<Rightarrow> phase" where
  "phase_abs B_Idle = Phase_Open"
| "phase_abs B_Done = Phase_Released"
| "phase_abs _ = Phase_Closing"

definition barrier_abs :: "signal_sys \<Rightarrow> barrier" where
  "barrier_abs s = \<lparr>outstanding = {i. \<exists>w. get_watcher s i = Some w \<and> counted w}, phase_of = phase_abs (bpc s)\<rparr>"

lemma no_peers_none_outstanding:
  assumes "signal_inv s" "peers s = 0"
  shows "outstanding (barrier_abs s) = {}"
  using signal_inv_get(3) [OF assms(1)] assms(2) by (auto simp: barrier_abs_def)

text \<open>Writing a watcher adds it to, keeps it in or takes it out of the outstanding peers.\<close>

lemma barrier_abs_put:
  "barrier_abs (put_watcher i w s) =
   (barrier_abs s)\<lparr>outstanding := (if counted w then insert i (outstanding (barrier_abs s)) else outstanding (barrier_abs s) - {i})\<rparr>"
  by (auto simp: barrier_abs_def put_watcher_def update_conv')

lemma barrier_abs_remove:
  "barrier_abs (remove_watcher i s) = (barrier_abs s)\<lparr>outstanding := outstanding (barrier_abs s) - {i}\<rparr>"
  by (auto simp: barrier_abs_def remove_watcher_def delete_conv')

lemma barrier_abs_fields [simp]:
  "barrier_abs (s\<lparr>peers := p\<rparr>) = barrier_abs s"
  "barrier_abs (s\<lparr>next_watcher := n\<rparr>) = barrier_abs s"
  "barrier_abs (s\<lparr>sender_open := c\<rparr>) = barrier_abs s"
  "barrier_abs (s\<lparr>bpc := b\<rparr>) = (barrier_abs s)\<lparr>phase_of := phase_abs b\<rparr>"
  by (simp_all add: barrier_abs_def)

lemma barrier_abs_notify [simp]: "barrier_abs (notify_waiters s) = barrier_abs s"
  by (simp add: notify_waiters_def) (simp add: barrier_abs_def)

lemma in_outstanding: "i \<in> outstanding (barrier_abs s) \<longleftrightarrow> (\<exists>w. get_watcher s i = Some w \<and> counted w)"
  by (simp add: barrier_abs_def)

lemma barrier_abs_finish:
  assumes "get_watcher s i = Some w" "\<not> counted w" "\<not> counted (w'\<lparr>signal_received := True, wpc := W_Idle\<rparr>)"
  shows "barrier_abs (finish i w' k s) = barrier_abs s"
proof -
  have "i \<notin> outstanding (barrier_abs s)" using assms by (simp add: in_outstanding)
  then show ?thesis using assms(3) by (cases k) (auto simp: barrier_abs_put barrier_abs_remove)
qed

lemma barrier_abs_decrease:
  assumes "get_watcher s i = Some w" "wpc w = W_Idle"
  shows "barrier_abs (decrease_peer_count i w k s) = barrier_abs s"
proof (cases "counted w")
  case True
  then have "counted (w\<lparr>wpc := W_Cas (peers s) k\<rparr>)" "i \<in> outstanding (barrier_abs s)"
    using assms(1) by (auto simp: counted_def in_outstanding)
  with True show ?thesis by (auto simp: decrease_peer_count_def barrier_abs_put insert_absorb counted_def)
next
  case False
  with assms(2) have "\<not> registered w \<or> peer_count_decreased w" by (simp add: counted_def)
  with barrier_abs_finish [OF assms(1) False, of w k] show ?thesis
    by (auto simp: decrease_peer_count_def counted_def)
qed

lemma barrier_abs_cas:
  assumes "signal_inv s" "get_watcher s i = Some w" "wpc w = W_Cas old k"
  shows "barrier_step (barrier_abs s) (barrier_abs (decrease_cas spurious i w old k s)) \<or>
    barrier_abs (decrease_cas spurious i w old k s) = barrier_abs s"
proof -
  have w: "registered w" "\<not> peer_count_decreased w" "0 < old" and c: "counted w"
    using signal_inv_get(1) [OF assms(1,2)] assms(3) by (auto simp: watcher_ok_def counted_def)
  have i: "i \<in> outstanding (barrier_abs s)" using assms(2) c by (auto simp: in_outstanding)
  have stay: "counted (w\<lparr>wpc := W_Cas (peers s) k\<rparr>)" and gone: "\<not> counted (w\<lparr>wpc := W_Notify k\<rparr>)"
    using w by (auto simp: counted_def)
  show ?thesis
  proof (cases "peers s = old \<and> \<not> spurious")
    case True
    with w(3) gone barrier_leave [OF i] show ?thesis by (auto simp: decrease_cas_def barrier_abs_put)
  next
    case False
    with w(3) stay i show ?thesis by (auto simp: decrease_cas_def barrier_abs_put insert_absorb)
  qed
qed

section \<open>Properties\<close>

text \<open>The steps of a watcher: joining, leaving, or nothing a barrier sees.\<close>

lemma watcher_step_refines:
  assumes inv: "signal_inv s" and step: "act a s = Some (r, s')" and watcher: "a \<notin> {A_Signal, A_SignalAndWait, A_Load, A_Notified}"
  shows "barrier_step (barrier_abs s) (barrier_abs s') \<or> barrier_abs s' = barrier_abs s"
proof -
  have fresh: "next_watcher s \<notin> outstanding (barrier_abs s)"
    using signal_inv_fresh [OF inv] by (simp add: in_outstanding)
  show ?thesis
  proof (cases a)
    case (A_Recv i)
    with step show ?thesis
      by (auto simp: watcher_act_def watcher_recv_def barrier_abs_decrease split: option.splits if_splits)
  next
    case (A_TryRecv i)
    with step show ?thesis
      by (auto simp: watcher_act_def watcher_try_recv_def barrier_abs_decrease split: option.splits if_splits)
  next
    case (A_Register i)
    with step barrier_join [OF fresh] show ?thesis
      by (auto simp: watcher_act_def watcher_register_def barrier_abs_put counted_def split: option.splits if_splits)
  next
    case (A_Clone i)
    with step fresh show ?thesis
      by (auto simp: watcher_act_def watcher_clone_def barrier_abs_put counted_def split: option.splits if_splits)
  next
    case (A_Drop i)
    with step show ?thesis
      by (auto simp: watcher_act_def barrier_abs_decrease split: option.splits if_splits)
  next
    case (A_Cas i spurious)
    with step show ?thesis by (auto split: option.splits wpc.splits dest!: barrier_abs_cas [OF inv])
  next
    case (A_Notify i)
    with step show ?thesis
      by (auto simp: barrier_abs_finish counted_def split: option.splits wpc.splits)
  qed (use watcher in simp_all)
qed

text \<open>
  C7. Refinement: every step of the broadcaster and its watchers, in any interleaving and
  whatever compare-and-exchange fails spuriously, is a step of the barrier or leaves it as it
  is. In particular \<open>signal_and_wait\<close> is released only when no peer is outstanding.
\<close>

theorem signal_refines_barrier:
  assumes "reaches act act_ok signal_init s" "act_ok a s" "act a s = Some (r, s')"
  shows "barrier_step (barrier_abs s) (barrier_abs s') \<or> barrier_abs s' = barrier_abs s"
proof (cases "a \<in> {A_Signal, A_SignalAndWait, A_Load, A_Notified}")
  case True
  have inv: "signal_inv s" using reachable_inv [OF assms(1)] .
  have phase: "phase_of (barrier_abs s) = phase_abs (bpc s)" by (simp add: barrier_abs_def)
  from True consider "a = A_Signal" | "a = A_SignalAndWait" | "a = A_Load" | "a = A_Notified" by blast
  then show ?thesis
  proof cases
    case 1
    with assms(3) barrier_signal [of "barrier_abs s"] phase show ?thesis by (auto split: if_splits)
  next
    case 2
    with assms(3) barrier_close [of "barrier_abs s"] phase show ?thesis by (auto split: if_splits)
  next
    case 3
    with assms(3) barrier_release [of "barrier_abs s"] phase no_peers_none_outstanding [OF inv] show ?thesis
      by (auto simp: barrier_abs_def split: if_splits)
  next
    case 4
    with assms(3) show ?thesis by (auto simp: barrier_abs_def split: if_splits)
  qed
next
  case False
  with watcher_step_refines [OF reachable_inv [OF assms(1)] assms(3)] show ?thesis by blast
qed

text \<open>A run of the machine along a list of actions, and that it stays within what is reachable.\<close>

fun run_acts :: "action list \<Rightarrow> signal_sys \<Rightarrow> signal_sys option" where
  "run_acts [] s = Some s"
| "run_acts (a # as) s =
     (if act_ok a s then (case act a s of Some (r, s') \<Rightarrow> run_acts as s' | None \<Rightarrow> None) else None)"

lemma run_acts_reaches:
  "run_acts as s = Some s' \<Longrightarrow> reaches act act_ok s0 s \<Longrightarrow> reaches act act_ok s0 s'"
  by (induction as arbitrary: s)
    (auto split: if_splits option.splits intro: reaches_step)

lemmas run_acts_reachable = run_acts_reaches [OF _ reaches_start]

lemmas acts_eval = signal_init_def put_watcher_def remove_watcher_def decrease_peer_count_def decrease_cas_def
  notify_waiters_def watcher_recv_def watcher_try_recv_def watcher_register_def watcher_act_def wrapping_add_def

text \<open>
  Two registered watchers race for the count: watcher 1 has taken itself off, watcher 0 failed
  once spuriously and once because the count had changed; the broadcaster is about to load it.
\<close>

definition demo_signalled :: signal_sys where
  "demo_signalled = the (run_acts [A_Register 0, A_SignalAndWait, A_Recv 0, A_TryRecv 1, A_Cas 0 True, A_Cas 1 False, A_Cas 0 False] signal_init)"

lemma demo_signalled_run:
  "run_acts [A_Register 0, A_SignalAndWait, A_Recv 0, A_TryRecv 1, A_Cas 0 True, A_Cas 1 False, A_Cas 0 False] signal_init = Some demo_signalled"
  by (simp add: demo_signalled_def acts_eval)

theorem signal_refines_barrier_witness:
  "act (A_Cas 0 False) demo_signalled \<noteq> None \<and>
   (let s' = snd (the (act (A_Cas 0 False) demo_signalled)) in
      barrier_step (barrier_abs demo_signalled) (barrier_abs s') \<or> barrier_abs s' = barrier_abs demo_signalled)"
proof -
  have some: "act (A_Cas 0 False) demo_signalled \<noteq> None" by (simp add: demo_signalled_def acts_eval)
  then obtain r s' where "act (A_Cas 0 False) demo_signalled = Some (r, s')" by auto
  with some signal_refines_barrier [OF run_acts_reachable [OF demo_signalled_run], of "A_Cas 0 False" r s']
  show ?thesis by simp
qed

text \<open>
  C15. Safety: when \<open>signal_and_wait\<close> returns, having loaded a peer count of zero, every
  registered watcher that still exists has taken itself off the count, after the channel was
  closed or because it is being dropped; nobody the broadcaster knows of is left out.
\<close>

theorem signal_and_wait_waits_for_all:
  assumes "reaches act act_ok signal_init s" "bpc s = B_Load" "act A_Load s = Some (r, s')" "bpc s' = B_Done"
    and "get_watcher s i = Some w" "registered w"
  shows "\<not> sender_open s \<and> (peer_count_decreased w \<or> (\<exists>k. wpc w = W_Notify k))"
proof -
  have inv: "signal_inv s" using reachable_inv [OF assms(1)] .
  from assms(2-4) have "peers s = 0" by (auto split: if_splits)
  with signal_inv_get(3) [OF inv assms(5)] have "\<not> counted w" by auto
  with assms(2,6) inv show ?thesis by (auto simp: counted_def signal_inv_def)
qed

definition demo_acked :: signal_sys where
  "demo_acked = the (run_acts [A_Cas 0 False, A_Notify 1] demo_signalled)"

lemma demo_acked_run: "run_acts [A_Cas 0 False, A_Notify 1] demo_signalled = Some demo_acked"
  by (simp add: demo_acked_def demo_signalled_def acts_eval)

theorem signal_and_wait_waits_for_all_witness:
  "\<exists>w. get_watcher demo_acked 1 = Some w \<and> registered w \<and> \<not> sender_open demo_acked \<and>
       (peer_count_decreased w \<or> (\<exists>k. wpc w = W_Notify k))"
proof -
  have r: "reaches act act_ok signal_init demo_acked"
    by (rule run_acts_reaches [OF demo_acked_run run_acts_reachable [OF demo_signalled_run]])
  have "bpc demo_acked = B_Load" "bpc (snd (the (act A_Load demo_acked))) = B_Done" "act A_Load demo_acked \<noteq> None"
    "get_watcher demo_acked 1 \<noteq> None" "registered (the (get_watcher demo_acked 1))"
    by (simp_all add: demo_acked_def demo_signalled_def acts_eval)
  then obtain x s' w where "bpc demo_acked = B_Load" "act A_Load demo_acked = Some (x, s')" "bpc s' = B_Done"
    "get_watcher demo_acked 1 = Some w" "registered w"
    by (cases "act A_Load demo_acked"; cases "get_watcher demo_acked 1") auto
  with signal_and_wait_waits_for_all [OF r] show ?thesis by blast
qed

text \<open>
  C16. \<open>signal_and_wait\<close> can sleep for ever: the count is loaded before the \<open>notified()\<close>
  future exists, so a last watcher that leaves in between notifies nobody. The run below ends
  with no watcher, a count of zero and the broadcaster waiting; no step at all is possible.
\<close>

theorem signal_and_wait_lost_wakeup:
  "\<exists>s. run_acts [A_SignalAndWait, A_Load, A_Recv 0, A_Cas 0 False, A_Notify 0, A_Notified] signal_init = Some s \<and>
       bpc s = B_Waiting \<and> watchers s = [] \<and> peers s = 0 \<and> (\<forall>a. act a s = None)"
proof -
  let ?as = "[A_SignalAndWait, A_Load, A_Recv 0, A_Cas 0 False, A_Notify 0, A_Notified]"
  define s where "s = the (run_acts ?as signal_init)"
  have run: "run_acts ?as signal_init = Some s" by (simp add: s_def acts_eval)
  have s: "bpc s = B_Waiting" "watchers s = []" "peers s = 0" by (simp_all add: s_def acts_eval)
  have "act a s = None" for a using s by (cases a) (simp_all add: watcher_act_def)
  with run s show ?thesis by blast
qed

end
