(* ===== verification/Captures.thy ===== *)
theory Captures
  imports Floats Signal "HOL-Library.List_Lexorder" "HOL-Library.Char_ord" "HOL-Library.Product_Lexorder"
begin

text \<open>
  Captures: the format of a capture line (\<^verbatim>\<open>lading_capture/src/json.rs\<close>), the manager that writes the
  metrics registry to a file once a second (\<^verbatim>\<open>captures.rs\<close>) and the tool that reads such a file
  (\<^verbatim>\<open>bin/captool.rs\<close>). The JSON encoder, the registry and its expiry, the hash of a context and the
  estimators are arguments. Log lines are left out.
\<close>

section \<open>Lines\<close>

datatype MetricKind = Counter | Gauge

datatype LineValue = Value_Int nat | Value_Float float_num

record Line =
  run_id :: string
  line_time :: nat
  fetch_index :: nat
  metric_name :: string
  metric_kind :: MetricKind
  line_value :: LineValue
  labels :: "string \<rightharpoonup> string"

fun value_as_f64 :: "LineValue \<Rightarrow> float_num" where
  "value_as_f64 (Value_Int n) = as_f64 n"
| "value_as_f64 (Value_Float x) = x"

fun show_value :: "(float_num \<Rightarrow> string) \<Rightarrow> LineValue \<Rightarrow> string" where
  "show_value show_f64 (Value_Int n) = show_nat n"
| "show_value show_f64 (Value_Float x) = show_f64 x"

definition seconds_since_epoch :: "Line \<Rightarrow> nat" where
  "seconds_since_epoch l = (line_time l div 1000) mod 2 ^ 64"

section \<open>The registry\<close>

record metric_key =
  key_name :: string
  key_labels :: "(string \<times> string) list"

text \<open>
  What one pass of the manager sees: the clock (\<open>None\<close> before the epoch), the handles of the registry
  with their generation and value in the order the registry gives them, and whether \<open>Recency\<close> still
  wants a metric stored.
\<close>

record snapshot =
  now_ms :: "nat option"
  counter_handles :: "(metric_key \<times> nat \<times> nat) list"
  gauge_handles :: "(metric_key \<times> nat \<times> float_num) list"
  should_store_counter :: "metric_key \<Rightarrow> nat \<Rightarrow> bool"
  should_store_gauge :: "metric_key \<Rightarrow> nat \<Rightarrow> bool"

datatype capture_error = Capture_SetRecorder | Capture_Io string | Capture_SystemTime | Capture_Json | Capture_Path

text \<open>\<open>capture_out\<close> is what the buffered writer has accepted, in order.\<close>

record CaptureManager =
  capture_index :: nat
  capture_run :: string
  capture_path :: string
  capture_out :: string
  global_labels :: "string \<rightharpoonup> string"

definition capture_new :: "bool \<Rightarrow> string \<Rightarrow> string \<Rightarrow> CaptureManager option" where
  "capture_new creates uuid path =
     (if creates
      then Some \<lparr>capture_index = 0, capture_run = uuid, capture_path = path, capture_out = [], global_labels = Map.empty\<rparr>
      else None)"

definition add_global_label :: "string \<Rightarrow> string \<Rightarrow> CaptureManager \<Rightarrow> CaptureManager" where
  "add_global_label k v m = m\<lparr>global_labels := (global_labels m)(k \<mapsto> v)\<rparr>"

section \<open>Recording\<close>

definition merge_labels :: "CaptureManager \<Rightarrow> metric_key \<Rightarrow> (string \<rightharpoonup> string)" where
  "merge_labels m key = fold (\<lambda>(k, v) ls. ls(k \<mapsto> v)) (key_labels key) (global_labels m)"

definition metric_line :: "CaptureManager \<Rightarrow> nat \<Rightarrow> metric_key \<Rightarrow> MetricKind \<Rightarrow> LineValue \<Rightarrow> Line" where
  "metric_line m now key kind v =
     \<lparr>run_id = capture_run m, line_time = now, fetch_index = capture_index m, metric_name = key_name key,
      metric_kind = kind, line_value = v, labels = merge_labels m key\<rparr>"

definition capture_lines :: "CaptureManager \<Rightarrow> nat \<Rightarrow> snapshot \<Rightarrow> Line list" where
  "capture_lines m now s =
     map (\<lambda>(key, gen, v). metric_line m now key Counter (Value_Int v))
       (filter (\<lambda>(key, gen, v). should_store_counter s key gen) (counter_handles s)) @
     map (\<lambda>(key, gen, v). metric_line m now key Gauge (Value_Float v))
       (filter (\<lambda>(key, gen, v). should_store_gauge s key gen) (gauge_handles s))"

text \<open>
  The three operations on the file for one line. A write that fails may have accepted some bytes; a
  flush that fails leaves them in the buffer.
\<close>

record line_io =
  payload_write :: "nat option"
  newline_write :: "nat option"
  flush_ok :: bool

definition io_works :: line_io where
  "io_works = \<lparr>payload_write = None, newline_write = None, flush_ok = True\<rparr>"

definition write_line :: "line_io \<Rightarrow> string \<Rightarrow> string \<Rightarrow> capture_error option \<times> string" where
  "write_line io pyld out =
     (case payload_write io of
        Some k \<Rightarrow> (Some (Capture_Io ''payload write''), out @ take k pyld)
      | None \<Rightarrow>
          let out = out @ pyld
          in case newline_write io of
               Some k \<Rightarrow> (Some (Capture_Io ''newline write''), out @ take k [newline])
             | None \<Rightarrow> (if flush_ok io then None else Some (Capture_Io ''flush''), out @ [newline]))"

fun write_captures :: "(Line \<Rightarrow> string option) \<Rightarrow> line_io list \<Rightarrow> Line list \<Rightarrow> string \<Rightarrow> capture_error option \<times> string" where
  "write_captures to_json io [] out = (None, out)"
| "write_captures to_json io (l # ls) out =
     (case to_json l of
        None \<Rightarrow> (Some Capture_Json, out)
      | Some pyld \<Rightarrow>
          (case write_line (case io of [] \<Rightarrow> io_works | x # _ \<Rightarrow> x) pyld out of
             (Some e, out) \<Rightarrow> (Some e, out)
           | (None, out) \<Rightarrow> write_captures to_json (drop 1 io) ls out))"

text \<open>
  The name of the file is looked up for a log line only, so it is an error only where that line is
  logged.
\<close>

definition record_captures ::
    "(Line \<Rightarrow> string option) \<Rightarrow> bool \<Rightarrow> snapshot \<times> line_io list \<Rightarrow> CaptureManager \<Rightarrow> capture_error option \<times> CaptureManager" where
  "record_captures to_json debug p m =
     (case p of (s, io) \<Rightarrow>
        case now_ms s of
          None \<Rightarrow> (Some Capture_SystemTime, m)
        | Some now \<Rightarrow>
            if debug \<and> file_name (capture_path m) = None then (Some Capture_Path, m)
            else
              case write_captures to_json io (capture_lines m now s) (capture_out m) of
                (e, out) \<Rightarrow> (e, m\<lparr>capture_out := out\<rparr>))"

text \<open>
  The thread: it polls until the target runs, then records once a second until the shutdown signal.
  An error of a pass is logged and the next pass follows. \<open>expect\<close> panics when the shutdown
  watcher is polled after it has returned true.
\<close>

datatype capture_pc = Cap_Target | Cap_Record | Cap_Done | Cap_Panic

definition target_polled :: "TryRecvError + bool \<Rightarrow> capture_pc" where
  "target_polled r = (if r = Inr False then Cap_Target else Cap_Record)"

fun shutdown_polled :: "TryRecvError + bool \<Rightarrow> capture_pc" where
  "shutdown_polled (Inr True) = Cap_Done"
| "shutdown_polled (Inr False) = Cap_Record"
| "shutdown_polled (Inl e) = Cap_Panic"

definition capture_pass ::
    "(Line \<Rightarrow> string option) \<Rightarrow> bool \<Rightarrow> snapshot \<times> line_io list \<Rightarrow> CaptureManager \<Rightarrow> CaptureManager" where
  "capture_pass to_json debug p m =
     (let m = snd (record_captures to_json debug p m) in m\<lparr>capture_index := wrapping_add 64 (capture_index m) 1\<rparr>)"

fun capture_thread ::
    "(Line \<Rightarrow> string option) \<Rightarrow> bool \<Rightarrow> (TryRecvError + bool) list \<Rightarrow> ((TryRecvError + bool) \<times> snapshot \<times> line_io list) list \<Rightarrow>
     capture_pc \<Rightarrow> CaptureManager \<Rightarrow> capture_pc \<times> CaptureManager" where
  "capture_thread to_json debug (r # rs) ps Cap_Target m = capture_thread to_json debug rs ps (target_polled r) m"
| "capture_thread to_json debug rs ((r, p) # ps) Cap_Record m =
     (case shutdown_polled r of
        Cap_Record \<Rightarrow> capture_thread to_json debug rs ps Cap_Record (capture_pass to_json debug p m)
      | pc \<Rightarrow> (pc, m))"
| "capture_thread to_json debug rs ps pc m = (pc, m)"

text \<open>\<open>start\<close>: it fails if another recorder is installed or the thread cannot be started.\<close>

definition capture_start :: "bool \<Rightarrow> bool \<Rightarrow> capture_error + capture_pc" where
  "capture_start recorder_free spawns =
     (if \<not> recorder_free then Inl Capture_SetRecorder
      else if \<not> spawns then Inl (Capture_Io ''thread building'')
      else Inr Cap_Target)"

section \<open>Reading a capture file\<close>

text \<open>\<open>None\<close> where \<open>captool\<close> panics on a line.\<close>

definition read_capture :: "(string \<Rightarrow> Line option) \<Rightarrow> string \<Rightarrow> Line list option" where
  "read_capture from_json s =
     (let ls = map from_json (text_lines s) in if None \<in> set ls then None else Some (map the ls))"

fun show_kind :: "MetricKind \<Rightarrow> string" where
  "show_kind Counter = ''c''"
| "show_kind Gauge = ''g''"

definition list_metrics :: "Line list \<Rightarrow> (string \<times> string) list" where
  "list_metrics ls = remdups_adj (sort (map (\<lambda>l. (metric_name l, show_kind (metric_kind l))) ls))"

text \<open>
  The contexts of a metric: lines are grouped by the hash of the metric's name and its labels. The
  labels of a line are listed as \<open>key:value\<close> in order, in a \<open>BTreeSet\<close>.
\<close>

definition sorted_labels :: "(string \<times> string) list \<Rightarrow> string list" where
  "sorted_labels kvs = remdups_adj (sort (map (\<lambda>(k, v). k @ '':'' @ v) kvs))"

definition add_point ::
    "(string list \<Rightarrow> nat) \<Rightarrow> (Line \<Rightarrow> (string \<times> string) list) \<Rightarrow> Line \<Rightarrow> (nat \<rightharpoonup> string list \<times> float_num list) \<Rightarrow>
     (nat \<rightharpoonup> string list \<times> float_num list)" where
  "add_point hash entries l cm =
     (let ls = sorted_labels (entries l); key = hash ls; vs = (case cm key of None \<Rightarrow> [] | Some (_, vs) \<Rightarrow> vs)
      in cm(key \<mapsto> (ls, vs @ [value_as_f64 (line_value l)])))"

definition context_map ::
    "(string list \<Rightarrow> nat) \<Rightarrow> (Line \<Rightarrow> (string \<times> string) list) \<Rightarrow> string \<Rightarrow> Line list \<Rightarrow> (nat \<rightharpoonup> string list \<times> float_num list)" where
  "context_map hash entries metric ls = fold (add_point hash entries) (filter (\<lambda>l. metric_name l = metric) ls) Map.empty"

fun is_monotonic :: "float_num list \<Rightarrow> bool" where
  "is_monotonic (x # y # xs) \<longleftrightarrow> float_le x y \<and> is_monotonic (y # xs)"
| "is_monotonic xs \<longleftrightarrow> True"

definition dump_values :: "(float_num \<Rightarrow> string) \<Rightarrow> string \<Rightarrow> Line list \<Rightarrow> string list" where
  "dump_values show_f64 metric ls =
     map (\<lambda>l. show_nat (fetch_index l) @ '': '' @ show_value show_f64 (line_value l)) (filter (\<lambda>l. metric_name l = metric) ls)"

section \<open>What a file holds\<close>

text \<open>A label of a metric overrides the global label of the same name, and of two equal ones the last counts.\<close>

lemma merge_labels_lookup:
  "merge_labels m key k = (case map_of (rev (key_labels key)) k of None \<Rightarrow> global_labels m k | Some v \<Rightarrow> Some v)"
proof -
  have "fold (\<lambda>(k, v) ls. ls(k \<mapsto> v)) kvs g k = (case map_of (rev kvs) k of None \<Rightarrow> g k | Some v \<Rightarrow> Some v)" for kvs and g :: "string \<rightharpoonup> string"
    by (induction kvs rule: rev_induct) auto
  then show ?thesis by (simp add: merge_labels_def)
qed

definition io_all_works :: "line_io list \<Rightarrow> bool" where
  "io_all_works io \<longleftrightarrow> (\<forall>x \<in> set io. x = io_works)"

lemma io_all_works_drop [simp]: "io_all_works io \<Longrightarrow> io_all_works (drop (Suc 0) io)"
  by (auto simp: io_all_works_def dest: in_set_dropD)

lemma io_all_works_first [simp]: "io_all_works io \<Longrightarrow> (case io of [] \<Rightarrow> io_works | x # _ \<Rightarrow> x) = io_works"
  by (auto simp: io_all_works_def split: list.split)

definition line_text :: "string list \<Rightarrow> string" where
  "line_text ws = concat (map (\<lambda>w. w @ [newline]) ws)"

lemma line_text_append: "line_text (vs @ ws) = line_text vs @ line_text ws"
  by (simp add: line_text_def)

lemma write_captures_works:
  "io_all_works io \<Longrightarrow> \<forall>l \<in> set ls. to_json l = Some (enc l) \<Longrightarrow>
   write_captures to_json io ls out = (None, out @ line_text (map enc ls))"
proof (induction ls arbitrary: io out)
  case (Cons l ls)
  then have "write_line (case io of [] \<Rightarrow> io_works | x # _ \<Rightarrow> x) (enc l) out = (None, out @ enc l @ [newline])"
    by (simp add: write_line_def io_works_def)
  with Cons.IH [of "drop 1 io"] Cons.prems show ?case by (simp add: line_text_def)
qed (simp add: line_text_def)

text \<open>
  What the file should hold, said without the manager: for each pass, one line for each counter and then
  one for each gauge that is to be stored, with the time of the pass, its number and the value as it was
  seen. A label has the value of the last label of this name the metric has, else that of the global label.
\<close>

definition expected_labels :: "(string \<rightharpoonup> string) \<Rightarrow> (string \<times> string) list \<Rightarrow> (string \<rightharpoonup> string)" where
  "expected_labels globals own k = (case map_of (rev own) k of Some v \<Rightarrow> Some v | None \<Rightarrow> globals k)"

definition pass_lines :: "string \<Rightarrow> (string \<rightharpoonup> string) \<Rightarrow> nat \<Rightarrow> snapshot \<Rightarrow> Line list" where
  "pass_lines run globals i s =
     [\<lparr>run_id = run, line_time = the (now_ms s), fetch_index = i mod 2 ^ 64, metric_name = key_name key, metric_kind = Counter,
       line_value = Value_Int v, labels = expected_labels globals (key_labels key)\<rparr>.
       (key, gen, v) \<leftarrow> counter_handles s, should_store_counter s key gen] @
     [\<lparr>run_id = run, line_time = the (now_ms s), fetch_index = i mod 2 ^ 64, metric_name = key_name key, metric_kind = Gauge,
       line_value = Value_Float v, labels = expected_labels globals (key_labels key)\<rparr>.
       (key, gen, v) \<leftarrow> gauge_handles s, should_store_gauge s key gen]"

primrec expected_lines :: "string \<Rightarrow> (string \<rightharpoonup> string) \<Rightarrow> nat \<Rightarrow> (snapshot \<times> line_io list) list \<Rightarrow> Line list" where
  "expected_lines run globals i [] = []"
| "expected_lines run globals i (p # ps) = pass_lines run globals i (fst p) @ expected_lines run globals (i + 1) ps"

lemma merge_labels_expected: "merge_labels m key = expected_labels (global_labels m) (key_labels key)"
  by (simp add: fun_eq_iff merge_labels_lookup expected_labels_def split: option.split)

lemma concat_filter: "concat (map (\<lambda>(k, g, v). if P k g then [f k v] else []) xs) = map (\<lambda>(k, g, v). f k v) (filter (\<lambda>(k, g, v). P k g) xs)"
  by (induction xs) auto

lemma capture_lines_expected:
  "capture_index m = i mod 2 ^ 64 \<Longrightarrow> capture_lines m (the (now_ms s)) s = pass_lines (capture_run m) (global_labels m) i s"
  by (simp add: capture_lines_def pass_lines_def metric_line_def merge_labels_expected concat_filter)

text \<open>A manager as \<open>new\<close> makes it, with global labels added to it.\<close>

lemma fold_add_global_label:
  "fold (\<lambda>(k, v). add_global_label k v) gs m = m\<lparr>global_labels := fold (\<lambda>(k, v) g. g(k \<mapsto> v)) gs (global_labels m)\<rparr>"
  by (induction gs arbitrary: m) (auto simp: add_global_label_def)

lemma fold_update_map_of: "fold (\<lambda>(k, v) g. g(k \<mapsto> v)) kvs g = expected_labels g kvs"
  by (induction kvs rule: rev_induct) (auto simp: fun_eq_iff expected_labels_def)

definition pass_works :: "snapshot \<times> line_io list \<Rightarrow> bool" where
  "pass_works p \<longleftrightarrow> now_ms (fst p) \<noteq> None \<and> io_all_works (snd p)"

lemma capture_pass_works:
  assumes "pass_works p" "file_name (capture_path m) \<noteq> None" "capture_index m = i mod 2 ^ 64"
    and "\<forall>l \<in> set (pass_lines (capture_run m) (global_labels m) i (fst p)). to_json l = Some (enc l)"
  shows "capture_pass to_json debug p m =
    m\<lparr>capture_out := capture_out m @ line_text (map enc (pass_lines (capture_run m) (global_labels m) i (fst p))),
      capture_index := (i + 1) mod 2 ^ 64\<rparr>"
proof -
  have "wrapping_add 64 (capture_index m) 1 = (i + 1) mod 2 ^ 64" by (simp add: assms(3) wrapping_add_def mod_simps)
  moreover obtain now where now: "now_ms (fst p) = Some now" "io_all_works (snd p)" using assms(1) by (auto simp: pass_works_def)
  moreover have "capture_lines m now (fst p) = pass_lines (capture_run m) (global_labels m) i (fst p)"
    using capture_lines_expected [OF assms(3), of "fst p"] now by simp
  ultimately show ?thesis using assms(2) write_captures_works [OF now(2) assms(4), of "capture_out m"]
    by (cases p) (auto simp: capture_pass_def record_captures_def)
qed

lemma capture_thread_target: "capture_thread to_json debug (replicate k (Inr False) @ [Inr True]) ps Cap_Target m = capture_thread to_json debug [] ps Cap_Record m"
  by (induction k) (simp_all add: target_polled_def)

lemma capture_thread_records:
  "\<forall>p \<in> set ps. pass_works p \<Longrightarrow> file_name (capture_path m) \<noteq> None \<Longrightarrow> capture_index m = i mod 2 ^ 64 \<Longrightarrow>
   \<forall>l \<in> set (expected_lines (capture_run m) (global_labels m) i ps). to_json l = Some (enc l) \<Longrightarrow>
   \<exists>m'. capture_thread to_json debug rs (map (Pair (Inr False)) ps @ [(Inr True, p)]) Cap_Record m = (Cap_Done, m') \<and>
     capture_out m' = capture_out m @ line_text (map enc (expected_lines (capture_run m) (global_labels m) i ps))"
proof (induction ps arbitrary: m i)
  case (Cons q ps)
  let ?out = "capture_out m @ line_text (map enc (pass_lines (capture_run m) (global_labels m) i (fst q)))"
  have pass: "capture_pass to_json debug q m = m\<lparr>capture_out := ?out, capture_index := (i + 1) mod 2 ^ 64\<rparr>"
    using Cons.prems by (intro capture_pass_works) auto
  with Cons.IH [of "m\<lparr>capture_out := ?out, capture_index := (i + 1) mod 2 ^ 64\<rparr>" "i + 1"] Cons.prems show ?case
    by (auto simp: line_text_append)
qed (simp add: line_text_def)

text \<open>
  C28. A capture file holds exactly what was recorded. Take a manager as it is made, with any global
  labels added. However long the target takes to start, if the clock and the writes work then its
  thread ends with the shutdown signal without panicking, and reading the file it wrote gives back, in
  order, one line for every counter and every gauge of every pass that was to be stored: with the value
  it had, the time and the number of the pass (from 0, modulo 2 to the 64) and the metric's own
  labels over the global ones, the last of two equal names. The JSON library must decode what it encodes
  and put a line on one line; a gauge that is not a finite number is outside of this, since JSON cannot express it.
\<close>

theorem capture_file_round_trip:
  assumes "capture_new True run path = Some m0" "m = fold (\<lambda>(k, v). add_global_label k v) gs m0"
    and "\<forall>p \<in> set ps. pass_works p" "file_name path \<noteq> None"
    and "\<forall>l \<in> set (expected_lines run (map_of (rev gs)) 0 ps). to_json l = Some (enc l) \<and> plain (enc l) \<and> from_json (enc l) = Some l"
  shows "\<exists>m'. capture_thread to_json debug (replicate k (Inr False) @ [Inr True]) (map (Pair (Inr False)) ps @ [(Inr True, p)]) Cap_Target m = (Cap_Done, m') \<and>
    read_capture from_json (capture_out m') = Some (expected_lines run (map_of (rev gs)) 0 ps)"
proof -
  let ?ls = "expected_lines run (map_of (rev gs)) 0 ps"
  have "expected_labels Map.empty gs = map_of (rev gs)" by (auto simp: fun_eq_iff expected_labels_def split: option.split)
  then have m: "capture_run m = run" "global_labels m = map_of (rev gs)" "capture_index m = 0 mod 2 ^ 64" "capture_path m = path" "capture_out m = []"
    using assms(1,2) by (auto simp: capture_new_def fold_add_global_label fold_update_map_of)
  from capture_thread_records [of ps m 0 to_json enc debug "[]" p] assms(3-5) obtain m' where
    m': "capture_thread to_json debug [] (map (Pair (Inr False)) ps @ [(Inr True, p)]) Cap_Record m = (Cap_Done, m')"
      "capture_out m' = line_text (map enc ?ls)" by (auto simp: m)
  have "text_lines (line_text (map enc ?ls)) = map enc ?ls"
    using text_lines_lines [of "map enc ?ls"] assms(5) by (simp add: line_text_def plain_def)
  moreover have "map from_json (map enc ?ls) = map Some ?ls" using assms(5) by simp
  ultimately have "read_capture from_json (capture_out m') = Some ?ls"
    using m'(2) assms(5) by (simp add: read_capture_def Let_def image_iff comp_def map_idI)
  with m'(1) show ?thesis by (auto simp: capture_thread_target)
qed

text \<open>A pass with a counter and a gauge; the gauge's own \<open>id\<close> overrides the global one. The encoding of the example is the metric's name.\<close>

definition demo_snapshot :: snapshot where
  "demo_snapshot = \<lparr>now_ms = Some 7, counter_handles = [(\<lparr>key_name = ''bytes'', key_labels = []\<rparr>, 1, 42)],
     gauge_handles = [(\<lparr>key_name = ''cpu'', key_labels = [(''id'', ''own'')]\<rparr>, 1, Fin 3)],
     should_store_counter = \<lambda>_ _. True, should_store_gauge = \<lambda>_ _. True\<rparr>"

definition demo_from :: "string \<Rightarrow> Line option" where
  "demo_from w = Some (if w = ''bytes''
     then \<lparr>run_id = ''run'', line_time = 7, fetch_index = 0, metric_name = w, metric_kind = Counter, line_value = Value_Int 42, labels = [''id'' \<mapsto> ''global'']\<rparr>
     else \<lparr>run_id = ''run'', line_time = 7, fetch_index = 0, metric_name = w, metric_kind = Gauge, line_value = Value_Float (Fin 3), labels = [''id'' \<mapsto> ''own'']\<rparr>)"

theorem capture_file_round_trip_witness:
  "\<exists>m'. capture_thread (\<lambda>l. Some (metric_name l)) True (replicate 3 (Inr False) @ [Inr True])
      (map (Pair (Inr False)) [(demo_snapshot, [])] @ [(Inr True, undefined)]) Cap_Target
      (add_global_label ''id'' ''global'' (the (capture_new True ''run'' ''/tmp/capture''))) = (Cap_Done, m') \<and>
    map_option (map (\<lambda>l. (line_value l, labels l ''id''))) (read_capture demo_from (capture_out m')) =
      Some [(Value_Int 42, Some ''global''), (Value_Float (Fin 3), Some ''own'')]"
proof -
  let ?start = "the (capture_new True ''run'' ''/tmp/capture'')"
  let ?m = "fold (\<lambda>(k, v). add_global_label k v) [(''id'', ''global'')] ?start"
  have new: "capture_new True ''run'' ''/tmp/capture'' = Some ?start" "file_name ''/tmp/capture'' \<noteq> None" by (simp_all add: capture_new_def file_name_def)
  have lines: "expected_lines ''run'' (map_of (rev [(''id'', ''global'')])) 0 [(demo_snapshot, [])] = [the (demo_from ''bytes''), the (demo_from ''cpu'')]"
    by (auto simp: demo_snapshot_def demo_from_def pass_lines_def expected_labels_def fun_eq_iff)
  have enc: "\<forall>l \<in> set (expected_lines ''run'' (map_of (rev [(''id'', ''global'')])) 0 [(demo_snapshot, [])]).
      Some (metric_name l) = Some (metric_name l) \<and> plain (metric_name l) \<and> demo_from (metric_name l) = Some l"
    unfolding lines by (simp add: demo_from_def plain_def newline_def)
  have works: "\<forall>p \<in> set [(demo_snapshot, [])]. pass_works p" by (simp add: pass_works_def io_all_works_def demo_snapshot_def)
  from capture_file_round_trip [OF new(1) refl works new(2) enc, of True 3 undefined] obtain m' where
    m': "capture_thread (\<lambda>l. Some (metric_name l)) True (replicate 3 (Inr False) @ [Inr True])
      (map (Pair (Inr False)) [(demo_snapshot, [])] @ [(Inr True, undefined)]) Cap_Target ?m = (Cap_Done, m')"
      "read_capture demo_from (capture_out m') = Some (expected_lines ''run'' (map_of (rev [(''id'', ''global'')])) 0 [(demo_snapshot, [])])" by blast
  then show ?thesis unfolding lines by (intro exI [of _ m']) (simp add: demo_from_def)
qed

text \<open>
  What \<open>captool\<close> groups: when no two sets of labels have the same hash, the context of a set of labels
  has the values of exactly the lines with these labels, in the order of the file.
\<close>

lemma fold_add_point:
  assumes "inj_on hash (insert k (sorted_labels ` entries ` set ls))" "cm (hash k) = (if vs = [] then None else Some (k, vs))"
  shows "fold (add_point hash entries) ls cm (hash k) =
    (let ws = vs @ map (\<lambda>l. value_as_f64 (line_value l)) (filter (\<lambda>l. sorted_labels (entries l) = k) ls)
     in if ws = [] then None else Some (k, ws))"
  using assms
proof (induction ls arbitrary: cm vs)
  case (Cons l ls)
  let ?cm = "add_point hash entries l cm"
  have inj: "inj_on hash (insert k (sorted_labels ` entries ` set ls))" using Cons.prems(1) by (rule inj_on_subset) auto
  show ?case
  proof (cases "sorted_labels (entries l) = k")
    case True
    then have "?cm (hash k) = (if vs @ [value_as_f64 (line_value l)] = [] then None else Some (k, vs @ [value_as_f64 (line_value l)]))"
      using Cons.prems(2) by (auto simp: add_point_def Let_def)
    from Cons.IH [OF inj, of ?cm "vs @ [value_as_f64 (line_value l)]"] this True show ?thesis by (simp add: Let_def)
  next
    case False
    then have "hash (sorted_labels (entries l)) \<noteq> hash k" using Cons.prems(1) by (auto simp: inj_on_def)
    then have "?cm (hash k) = (if vs = [] then None else Some (k, vs))" using Cons.prems(2) by (simp add: add_point_def Let_def)
    from Cons.IH [OF inj, of ?cm vs] this False show ?thesis by simp
  qed
qed simp

theorem context_map_groups:
  assumes "inj_on hash (insert k (sorted_labels ` entries ` set ls))"
  shows "context_map hash entries metric ls (hash k) =
    (let vs = map (\<lambda>l. value_as_f64 (line_value l)) (filter (\<lambda>l. metric_name l = metric \<and> sorted_labels (entries l) = k) ls)
     in if vs = [] then None else Some (k, vs))"
proof -
  have "inj_on hash (insert k (sorted_labels ` entries ` set (filter (\<lambda>l. metric_name l = metric) ls)))"
    using assms by (rule inj_on_subset) auto
  from fold_add_point [OF this, of Map.empty "[]"] show ?thesis
    by (simp add: context_map_def filter_filter conj_commute)
qed

lemma sorted_distinct_remdups_adj: "sorted (xs :: 'a :: linorder list) \<Longrightarrow> distinct (remdups_adj xs)"
  by (induction xs rule: remdups_adj.induct) (auto simp: order.antisym)

lemma list_metrics_set:
  "set (list_metrics ls) = (\<lambda>l. (metric_name l, show_kind (metric_kind l))) ` set ls"
  "distinct (list_metrics ls)" "sorted (list_metrics ls)"
  by (simp_all add: list_metrics_def sorted_remdups_adj sorted_distinct_remdups_adj)

end
