(* ===== verification/Lading.thy ===== *)
theory Lading
  imports Cli Captures
begin

text \<open>
  A run of the program (\<open>inner_main\<close> of \<^verbatim>\<open>bin/lading.rs\<close>): the tasks it starts, each with a watcher of the
  shutdown signal, the main loop, and the wait for the tasks at the end. The signals are those of
  \<^verbatim>\<open>Signal\<close>, the target task is that of \<^verbatim>\<open>Target\<close>, the capture thread that of \<^verbatim>\<open>Captures\<close>. Whether a
  generator or a blackhole can be built is an argument; exporters, timers and log lines are left out.
\<close>

section \<open>Starting the tasks\<close>

datatype task = Task_Capture | Task_Generator nat | Task_Inspector | Task_Blackhole nat | Task_Metrics nat | Task_Observer | Task_Target

text \<open>The three signals, and the tasks with the number of their watcher of the shutdown signal.\<close>

record lading_run =
  shutdown :: signal_sys
  experiment_started :: signal_sys
  target_running :: signal_sys
  tasks :: "(task \<times> nat) list"

definition run_init :: lading_run where
  "run_init = \<lparr>shutdown = signal_init, experiment_started = signal_init, target_running = signal_init, tasks = []\<rparr>"

definition signal_do :: "action \<Rightarrow> signal_sys \<Rightarrow> signal_sys" where
  "signal_do a s = (case act a s of Some (_, s') \<Rightarrow> s' | None \<Rightarrow> s)"

text \<open>A task started with \<open>shutdown_watcher.clone()\<close>.\<close>

definition spawn_task :: "task \<Rightarrow> lading_run \<Rightarrow> lading_run" where
  "spawn_task t st = st\<lparr>shutdown := signal_do (A_Clone 0) (shutdown st), tasks := tasks st @ [(t, next_watcher (shutdown st))]\<rparr>"

definition start_telemetry :: "(string \<Rightarrow> bool) \<Rightarrow> Telemetry \<Rightarrow> lading_run \<Rightarrow> lading_error + lading_run" where
  "start_telemetry creates t st =
     (case t of
        Telemetry_Log path ls expiration \<Rightarrow>
          (case act (A_Register 0) (shutdown st) of
             Some (Res_Register (Inr i), s) \<Rightarrow>
               let st = st\<lparr>shutdown := s, experiment_started := signal_do (A_Clone 0) (experiment_started st),
                           target_running := signal_do (A_Clone 0) (target_running st), tasks := tasks st @ [(Task_Capture, i)]\<rparr>
               in if creates path then Inr st else Inl Lading_Io
           | _ \<Rightarrow> Inl Lading_Registration)
      | _ \<Rightarrow> Inr st)"

text \<open>The loops over the generators and the blackholes, whose constructors may fail, and over the target metrics.\<close>

fun start_servers :: "(nat \<Rightarrow> task) \<Rightarrow> ('a \<Rightarrow> bool) \<Rightarrow> lading_error \<Rightarrow> nat \<Rightarrow> 'a list \<Rightarrow> lading_run \<Rightarrow> lading_error + lading_run" where
  "start_servers task new e k [] st = Inr st"
| "start_servers task new e k (cfg # cfgs) st =
     (if new cfg then start_servers task new e (Suc k) cfgs (spawn_task (task k) st) else Inl e)"

fun start_metrics :: "nat \<Rightarrow> 'a list \<Rightarrow> lading_run \<Rightarrow> lading_run" where
  "start_metrics k [] st = st"
| "start_metrics k (cfg # cfgs) st =
     start_metrics (Suc k) cfgs ((spawn_task (Task_Metrics k) st)\<lparr>experiment_started := signal_do (A_Clone 0) (experiment_started st)\<rparr>)"

definition start_target :: "target_config option \<Rightarrow> lading_run \<Rightarrow> lading_run" where
  "start_target tgt st =
     (case tgt of
        Some _ \<Rightarrow> spawn_task Task_Target (spawn_task Task_Observer st)
      | None \<Rightarrow> st\<lparr>target_running := signal_do A_Signal (target_running st)\<rparr>)"

text \<open>\<open>drop\<close> of a watcher, here of the first one of a signal.\<close>

definition drop_first :: "signal_sys \<Rightarrow> signal_sys" where
  "drop_first s = fold signal_do [A_Drop 0, A_Cas 0 False, A_Notify 0] s"

definition inner_start ::
    "(string \<Rightarrow> bool) \<Rightarrow> ('g \<Rightarrow> bool) \<Rightarrow> ('b \<Rightarrow> bool) \<Rightarrow> bool \<Rightarrow> ('g, 'b, 'm) config \<Rightarrow> lading_error + lading_run" where
  "inner_start creates new_generator new_blackhole disable_inspector c =
     (case start_telemetry creates (telemetry c) run_init of
        Inl e \<Rightarrow> Inl e
      | Inr st \<Rightarrow>
          (case start_servers Task_Generator new_generator Lading_Generator 0 (generator c) st of
             Inl e \<Rightarrow> Inl e
           | Inr st \<Rightarrow>
               let st = (if inspector c \<noteq> None \<and> \<not> disable_inspector then spawn_task Task_Inspector st else st)
               in case start_servers Task_Blackhole new_blackhole Lading_Blackhole 0 (case blackhole c of None \<Rightarrow> [] | Some bs \<Rightarrow> bs) st of
                    Inl e \<Rightarrow> Inl e
                  | Inr st \<Rightarrow>
                      let st = start_metrics 0 (case target_metrics c of None \<Rightarrow> [] | Some ms \<Rightarrow> ms) st;
                          st = start_target (target c) st
                      in Inr (st\<lparr>shutdown := drop_first (shutdown st), experiment_started := drop_first (experiment_started st)\<rparr>)))"

section \<open>The run\<close>

datatype main_pc = Main_Loop | Main_Waiting "lading_error + unit" | Main_Done "lading_error + unit" | Main_Panic

text \<open>How a task joined: it panicked, ended, or returned an error.\<close>

datatype joined = Join_Panic | Join_Ok | Join_Err

datatype main_event = Me_Tick | Me_CtrlC | Me_Timer | Me_Observer joined | Me_Generator joined | Me_Target

record lading_sys =
  run :: lading_run
  cap :: "capture_pc option"
  tgt_task :: target_task
  main_pc :: main_pc

definition sys_start :: "('g, 'b, 'm) config \<Rightarrow> lading_run \<Rightarrow> lading_sys" where
  "sys_start c st =
     \<lparr>run = st, cap = (case telemetry c of Telemetry_Log _ _ _ \<Rightarrow> Some Cap_Target | _ \<Rightarrow> None), tgt_task = target_new, main_pc = Main_Loop\<rparr>"

text \<open>
  One turn of the main loop, and \<open>None\<close> where the event cannot happen: the experiment's timer is started
  by the running signal, and the target is joined when its task is over.
\<close>

fun main_next :: "main_event \<Rightarrow> lading_sys \<Rightarrow> main_pc option" where
  "main_next Me_Tick s = Some Main_Loop"
| "main_next Me_CtrlC s = Some (Main_Waiting (Inr ()))"
| "main_next Me_Timer s = (if sender_open (target_running (run s)) then None else Some (Main_Waiting (Inr ())))"
| "main_next (Me_Observer j) s = Some (case j of Join_Err \<Rightarrow> Main_Waiting (Inl Lading_Observer) | _ \<Rightarrow> Main_Loop)"
| "main_next (Me_Generator j) s = Some (case j of Join_Err \<Rightarrow> Main_Waiting (Inl Lading_Generator) | _ \<Rightarrow> Main_Loop)"
| "main_next Me_Target s =
     (case tg_pc (tgt_task s) of
        Tg_Done (Inr _) \<Rightarrow> Some (Main_Waiting (Inr ()))
      | Tg_Done (Inl e) \<Rightarrow> Some (Main_Waiting (Inl (Lading_Target e)))
      | Tg_Panic \<Rightarrow> Some Main_Panic
      | _ \<Rightarrow> None)"

text \<open>
  The steps: of the main task, in its loop and in \<open>signal_and_wait\<close>; of the capture thread, whose
  watchers of both signals have number 1, its two polls and the leaving of the signal; of the target
  task, whose end drops the running broadcaster; and of the other tasks on their shutdown watchers.
\<close>

datatype lading_op =
    Op_Main main_event | Op_Load | Op_Notified
  | Op_Capture_Target | Op_Capture_Shutdown | Op_Capture_Cas bool | Op_Capture_Notify | Op_Capture_Drop
  | Op_Target target_event | Op_Task action

fun task_watcher :: "action \<Rightarrow> nat option" where
  "task_watcher (A_Recv i) = Some i"
| "task_watcher (A_TryRecv i) = Some i"
| "task_watcher (A_Clone i) = Some i"
| "task_watcher (A_Drop i) = Some i"
| "task_watcher (A_Cas i b) = Some i"
| "task_watcher (A_Notify i) = Some i"
| "task_watcher a = None"

definition on_shutdown :: "action \<Rightarrow> lading_sys \<Rightarrow> (signal_result \<times> lading_sys) option" where
  "on_shutdown a s = map_option (\<lambda>(r, sh). (r, s\<lparr>run := (run s)\<lparr>shutdown := sh\<rparr>\<rparr>)) (act a (shutdown (run s)))"

definition target_over :: "target_task \<Rightarrow> bool" where
  "target_over t \<longleftrightarrow> (case tg_pc t of Tg_Done _ \<Rightarrow> True | Tg_Panic \<Rightarrow> True | _ \<Rightarrow> tg_signalled t)"

definition target_turn :: "(string \<Rightarrow> bool) \<Rightarrow> (string \<rightharpoonup> string) \<Rightarrow> target_config \<Rightarrow> target_event \<Rightarrow> lading_sys \<Rightarrow> lading_sys option" where
  "target_turn creates parent_env c e s =
     (case target_step creates parent_env c e (tgt_task s) of
        None \<Rightarrow> None
      | Some t \<Rightarrow>
          Some (s\<lparr>tgt_task := t,
                  run := (if target_over t then (run s)\<lparr>target_running := signal_do A_Signal (target_running (run s))\<rparr> else run s)\<rparr>))"

definition capture_polls_target :: "lading_sys \<Rightarrow> lading_sys option" where
  "capture_polls_target s =
     (case act (A_TryRecv 1) (target_running (run s)) of
        Some (Res_TryRecv r, tr) \<Rightarrow> Some (s\<lparr>cap := Some (target_polled r), run := (run s)\<lparr>target_running := tr\<rparr>\<rparr>)
      | _ \<Rightarrow> None)"

definition capture_polls_shutdown :: "lading_sys \<Rightarrow> lading_sys option" where
  "capture_polls_shutdown s =
     (case on_shutdown (A_TryRecv 1) s of
        Some (Res_TryRecv r, s) \<Rightarrow> Some (s\<lparr>cap := Some (shutdown_polled r)\<rparr>)
      | _ \<Rightarrow> None)"

definition main_waits :: "action \<Rightarrow> lading_sys \<Rightarrow> lading_sys option" where
  "main_waits a s =
     (case main_pc s of
        Main_Waiting r \<Rightarrow>
          map_option (\<lambda>(_, s). if bpc (shutdown (run s)) = B_Done then s\<lparr>main_pc := Main_Done r\<rparr> else s) (on_shutdown a s)
      | _ \<Rightarrow> None)"

definition main_turn :: "main_event \<Rightarrow> lading_sys \<Rightarrow> lading_sys option" where
  "main_turn e s =
     (if main_pc s \<noteq> Main_Loop then None
      else
        case main_next e s of
          None \<Rightarrow> None
        | Some (Main_Waiting r) \<Rightarrow> map_option (\<lambda>(_, s). s\<lparr>main_pc := Main_Waiting r\<rparr>) (on_shutdown A_SignalAndWait s)
        | Some pc \<Rightarrow> Some (s\<lparr>main_pc := pc\<rparr>))"

fun lading_turn :: "(string \<Rightarrow> bool) \<Rightarrow> (string \<rightharpoonup> string) \<Rightarrow> target_config \<Rightarrow> lading_op \<Rightarrow> lading_sys \<Rightarrow> lading_sys option" where
  "lading_turn creates parent_env c (Op_Main e) s = main_turn e s"
| "lading_turn creates parent_env c Op_Load s = main_waits A_Load s"
| "lading_turn creates parent_env c Op_Notified s = main_waits A_Notified s"
| "lading_turn creates parent_env c Op_Capture_Target s = (if cap s = Some Cap_Target then capture_polls_target s else None)"
| "lading_turn creates parent_env c Op_Capture_Shutdown s = (if cap s = Some Cap_Record then capture_polls_shutdown s else None)"
| "lading_turn creates parent_env c (Op_Capture_Cas spurious) s =
     (if cap s = Some Cap_Done then map_option snd (on_shutdown (A_Cas 1 spurious) s) else None)"
| "lading_turn creates parent_env c Op_Capture_Notify s = (if cap s = Some Cap_Done then map_option snd (on_shutdown (A_Notify 1) s) else None)"
| "lading_turn creates parent_env c Op_Capture_Drop s = (if cap s = Some Cap_Done then map_option snd (on_shutdown (A_Drop 1) s) else None)"
| "lading_turn creates parent_env c (Op_Target e) s = target_turn creates parent_env c e s"
| "lading_turn creates parent_env c (Op_Task a) s =
     (case task_watcher a of
        None \<Rightarrow> None
      | Some i \<Rightarrow> if cap s \<noteq> None \<and> i = 1 then None else map_option snd (on_shutdown a s))"

definition lading_act :: "(string \<Rightarrow> bool) \<Rightarrow> (string \<rightharpoonup> string) \<Rightarrow> target_config \<Rightarrow> lading_op \<Rightarrow> lading_sys \<Rightarrow> (unit \<times> lading_sys) option" where
  "lading_act creates parent_env c op s = map_option (Pair ()) (lading_turn creates parent_env c op s)"

section \<open>What the shutdown signal counts\<close>

definition first_watcher :: Watcher where
  "first_watcher = \<lparr>signal_received = False, peer_count_decreased = False, registered = True, wpc = W_Idle\<rparr>"

definition cloned_watcher :: Watcher where
  "cloned_watcher = first_watcher\<lparr>registered := False\<rparr>"

text \<open>The watcher of a task: only the capture manager's is counted.\<close>

definition watcher_of :: "task \<Rightarrow> Watcher" where
  "watcher_of t = (if t = Task_Capture then first_watcher else cloned_watcher)"

definition starting :: "lading_run \<Rightarrow> bool" where
  "starting st \<longleftrightarrow>
     signal_inv (shutdown st) \<and> bpc (shutdown st) = B_Idle \<and> sender_open (shutdown st) \<and>
     get_watcher (shutdown st) 0 = Some first_watcher \<and>
     (\<forall>(t, i) \<in> set (tasks st). i \<noteq> 0 \<and> get_watcher (shutdown st) i = Some (watcher_of t)) \<and>
     peers (shutdown st) = 1 + length (filter (\<lambda>(t, i). t = Task_Capture) (tasks st))"

lemma get_put [simp]: "get_watcher (put_watcher i w s) j = (if j = i then Some w else get_watcher s j)"
  by (simp add: put_watcher_def update_conv')

lemma starting_init: "starting run_init"
  by (simp add: starting_def run_init_def signal_init_def first_watcher_def signal_inv_def watcher_ok_def count_of_def counted_def)

lemma spawn_task_starting:
  assumes "starting st" "t \<noteq> Task_Capture"
  shows "starting (spawn_task t st)"
proof -
  let ?s = "shutdown st"
  have inv: "signal_inv ?s" and w0: "get_watcher ?s 0 = Some first_watcher" using assms(1) by (simp_all add: starting_def)
  have clone: "act (A_Clone 0) ?s = Some (Res_Unit, watcher_clone first_watcher ?s)"
    using w0 by (simp add: watcher_act_def first_watcher_def)
  have fresh: "get_watcher ?s (next_watcher ?s) = None" by (rule signal_inv_fresh [OF inv])
  have inv': "signal_inv (watcher_clone first_watcher ?s)" using act_inv [OF inv _ clone] by simp
  have get: "get_watcher (watcher_clone first_watcher ?s) i = (if i = next_watcher ?s then Some cloned_watcher else get_watcher ?s i)" for i
    by (simp add: watcher_clone_def first_watcher_def cloned_watcher_def update_conv' put_watcher_def)
  have old: "i \<noteq> next_watcher ?s" if "(u, i) \<in> set (tasks st)" for u i
    using assms(1) that fresh by (fastforce simp: starting_def)
  have "next_watcher ?s \<noteq> 0" using signal_inv_get(2) [OF inv w0] by simp
  with assms clone inv' get old w0 show ?thesis
    by (auto simp: starting_def spawn_task_def signal_do_def watcher_of_def watcher_clone_def put_watcher_def)
qed

definition is_log :: "Telemetry \<Rightarrow> bool" where
  "is_log t \<longleftrightarrow> (case t of Telemetry_Log _ _ _ \<Rightarrow> True | _ \<Rightarrow> False)"

definition expected_tasks :: "bool \<Rightarrow> ('g, 'b, 'm) config \<Rightarrow> task list" where
  "expected_tasks disable_inspector c =
     (if is_log (telemetry c) then [Task_Capture] else []) @ map Task_Generator [0..<length (generator c)] @
     (if inspector c \<noteq> None \<and> \<not> disable_inspector then [Task_Inspector] else []) @
     map Task_Blackhole [0..<length (case blackhole c of None \<Rightarrow> [] | Some bs \<Rightarrow> bs)] @
     map Task_Metrics [0..<length (case target_metrics c of None \<Rightarrow> [] | Some ms \<Rightarrow> ms)] @
     (if target c \<noteq> None then [Task_Observer, Task_Target] else [])"

text \<open>
  A stage of the start that adds tasks \<open>ts\<close> and keeps the state of the capture manager's watcher.
\<close>

definition adds :: "task list \<Rightarrow> lading_run \<Rightarrow> lading_run \<Rightarrow> bool" where
  "adds ts st st' \<longleftrightarrow>
     starting st' \<and> map fst (tasks st') = map fst (tasks st) @ ts \<and> (\<exists>xs. tasks st' = tasks st @ xs)"

lemma adds_trans: "adds ts st st1 \<Longrightarrow> adds us st1 st2 \<Longrightarrow> adds (ts @ us) st st2"
  by (auto simp: adds_def)

lemma adds_refl: "starting st \<Longrightarrow> adds [] st st"
  by (simp add: adds_def)

lemma spawn_task_adds: "starting st \<Longrightarrow> t \<noteq> Task_Capture \<Longrightarrow> adds [t] st (spawn_task t st)"
  using spawn_task_starting by (simp add: adds_def spawn_task_def)

lemma starting_other [simp]:
  "starting (st\<lparr>experiment_started := x\<rparr>) = starting st" "starting (st\<lparr>target_running := x\<rparr>) = starting st"
  "adds ts st0 (st\<lparr>experiment_started := x\<rparr>) = adds ts st0 st" "adds ts st0 (st\<lparr>target_running := x\<rparr>) = adds ts st0 st"
  by (simp_all add: starting_def adds_def)

lemma upt_length_Cons: "[k..<Suc (k + n)] = k # [Suc k..<Suc (k + n)]"
  by (simp add: upt_conv_Cons del: upt_Suc)

lemma start_servers_adds:
  assumes "\<And>k. tk k \<noteq> Task_Capture" "starting st" "start_servers tk new e k cfgs st = Inr st'"
  shows "adds (map tk [k..<k + length cfgs]) st st'"
  using assms(2,3)
proof (induction cfgs arbitrary: k st)
  case (Cons cfg cfgs)
  then have new: "start_servers tk new e (Suc k) cfgs (spawn_task (tk k) st) = Inr st'" by (simp split: if_splits)
  have "adds (map tk [Suc k..<Suc k + length cfgs]) (spawn_task (tk k) st) st'"
    by (rule Cons.IH [OF spawn_task_starting [OF Cons.prems(1) assms(1)] new])
  from adds_trans [OF spawn_task_adds [OF Cons.prems(1) assms(1), of k] this] show ?case by (simp add: upt_length_Cons del: upt_Suc)
qed (simp add: adds_refl)

lemma start_metrics_adds:
  "starting st \<Longrightarrow> adds (map Task_Metrics [k..<k + length cfgs]) st (start_metrics k cfgs st)"
proof (induction cfgs arbitrary: k st)
  case (Cons cfg cfgs)
  let ?st = "(spawn_task (Task_Metrics k) st)\<lparr>experiment_started := signal_do (A_Clone 0) (experiment_started st)\<rparr>"
  have one: "adds [Task_Metrics k] st ?st" using spawn_task_adds [OF Cons.prems] by simp
  then have "starting ?st" by (simp only: adds_def)
  from adds_trans [OF one Cons.IH [OF this, of "Suc k"]] show ?case by (simp add: upt_length_Cons del: upt_Suc)
qed (simp add: adds_refl)

lemma start_target_adds: "starting st \<Longrightarrow> adds (if tgt \<noteq> None then [Task_Observer, Task_Target] else []) st (start_target tgt st)"
proof (cases tgt)
  case (Some c)
  moreover assume "starting st"
  ultimately show ?thesis
    using adds_trans [OF spawn_task_adds [of st Task_Observer] spawn_task_adds [of _ Task_Target]] spawn_task_starting [of st Task_Observer]
    by (simp add: start_target_def)
qed (simp add: start_target_def adds_refl)

lemma start_telemetry_adds:
  assumes "start_telemetry creates t run_init = Inr st"
  shows "adds (if is_log t then [Task_Capture] else []) run_init st"
    and "is_log t \<Longrightarrow> tasks st = [(Task_Capture, 1)] \<and> target_running st = signal_do (A_Clone 0) signal_init"
proof -
  let ?s = "snd (the (act (A_Register 0) signal_init))"
  have reg: "act (A_Register 0) signal_init = Some (Res_Register (Inr 1), ?s)"
    by (simp add: acts_eval)
  have inv: "signal_inv ?s" 
  proof (rule act_inv [OF _ _ reg])
    show "signal_inv signal_init" using starting_init by (simp add: starting_def run_init_def)
  qed (simp add: signal_init_def)
  have s: "bpc ?s = B_Idle" "sender_open ?s" "peers ?s = 2" "get_watcher ?s 0 = Some first_watcher" "get_watcher ?s 1 = Some first_watcher"
    by (simp_all add: acts_eval first_watcher_def)
  obtain s1 where s1: "s1 = ?s" by simp
  have st: "st = \<lparr>shutdown = s1, experiment_started = signal_do (A_Clone 0) signal_init, target_running = signal_do (A_Clone 0) signal_init,
      tasks = [(Task_Capture, 1)]\<rparr>" if "is_log t"
    using that assms reg unfolding s1 [symmetric]
    by (auto simp: start_telemetry_def run_init_def is_log_def Let_def simp del: act.simps split: Telemetry.splits if_splits)
  show "adds (if is_log t then [Task_Capture] else []) run_init st"
  proof (cases "is_log t")
    case True
    with st [OF True] inv s show ?thesis unfolding s1 [symmetric] by (simp add: adds_def starting_def watcher_of_def run_init_def)
  next
    case False
    with assms have "st = run_init" by (auto simp: start_telemetry_def is_log_def split: Telemetry.splits)
    with False starting_init show ?thesis by (simp add: adds_refl)
  qed
  show "tasks st = [(Task_Capture, 1)] \<and> target_running st = signal_do (A_Clone 0) signal_init" if "is_log t" using st [OF that] by simp
qed

lemma start_target_running:
  "start_servers tk new e k cfgs st = Inr st' \<Longrightarrow> target_running st' = target_running st"
  "target_running (start_metrics k ms st) = target_running st"
proof -
  show "target_running st' = target_running st" if "start_servers tk new e k cfgs st = Inr st'"
    using that by (induction cfgs arbitrary: k st) (auto simp: spawn_task_def split: if_splits)
  show "target_running (start_metrics k ms st) = target_running st"
    by (induction ms arbitrary: k st) (simp_all add: spawn_task_def)
qed

text \<open>After the start: the first watcher is gone, and the count is that of the capture manager.\<close>

definition started :: "lading_run \<Rightarrow> bool" where
  "started st \<longleftrightarrow>
     signal_inv (shutdown st) \<and> bpc (shutdown st) = B_Idle \<and> sender_open (shutdown st) \<and>
     (\<forall>(t, i) \<in> set (tasks st). get_watcher (shutdown st) i = Some (watcher_of t)) \<and>
     peers (shutdown st) = length (filter (\<lambda>(t, i). t = Task_Capture) (tasks st))"

lemma drop_first_started:
  assumes "starting st"
  shows "started (st\<lparr>shutdown := drop_first (shutdown st)\<rparr>)"
proof -
  let ?s = "shutdown st"
  let ?w = "first_watcher\<lparr>wpc := W_Cas (peers ?s) After_Drop\<rparr>" and ?v = "first_watcher\<lparr>wpc := W_Notify After_Drop\<rparr>"
  let ?s1 = "put_watcher 0 ?w ?s"
  let ?s2 = "put_watcher 0 ?v (?s1\<lparr>peers := peers ?s - 1\<rparr>)"
  let ?s3 = "remove_watcher 0 ?s2"
  have w0: "get_watcher ?s 0 = Some first_watcher" and inv: "signal_inv ?s" and p: "peers ?s \<noteq> 0"
    and idle: "bpc ?s = B_Idle" "sender_open ?s" using assms by (auto simp: starting_def)
  have get2: "get_watcher ?s2 i = (if i = 0 then Some ?v else get_watcher ?s i)" for i by (simp add: put_watcher_def update_conv')
  have a1: "act (A_Drop 0) ?s = Some (Res_Unit, ?s1)"
    using w0 by (simp add: watcher_act_def decrease_peer_count_def) (simp add: first_watcher_def)
  have a2: "act (A_Cas 0 False) ?s1 = Some (Res_Unit, ?s2)"
    using p by (simp add: decrease_cas_def) (simp add: put_watcher_def first_watcher_def)
  have a3: "act (A_Notify 0) ?s2 = Some (Res_Unit, ?s3)"
    using idle get2 [of 0] by (simp add: notify_waiters_def) (simp add: put_watcher_def)
  have drop: "drop_first ?s = ?s3" using a1 a2 a3 by (simp add: drop_first_def signal_do_def del: act.simps)
  have "signal_inv ?s3" using act_inv [OF act_inv [OF act_inv [OF inv _ a1] _ a2] _ a3] by simp
  moreover have "get_watcher ?s3 i = (if i = 0 then None else get_watcher ?s i)" for i
    by (simp add: remove_watcher_def delete_conv' get2)
  ultimately show ?thesis using assms unfolding drop started_def
    by (fastforce simp: starting_def remove_watcher_def put_watcher_def)
qed

lemma inner_start_started:
  assumes "inner_start creates ng nb dis c = Inr st"
  shows "started st" and "map fst (tasks st) = expected_tasks dis c"
    and "is_log (telemetry c) \<Longrightarrow> (Task_Capture, 1) \<in> set (tasks st) \<and>
      (target c \<noteq> None \<longrightarrow> target_running st = signal_do (A_Clone 0) signal_init)"
proof -
  let ?bs = "case blackhole c of None \<Rightarrow> [] | Some bs \<Rightarrow> bs" and ?ms = "case target_metrics c of None \<Rightarrow> [] | Some ms \<Rightarrow> ms"
  obtain st1 where st1: "start_telemetry creates (telemetry c) run_init = Inr st1"
    using assms by (cases "start_telemetry creates (telemetry c) run_init") (auto simp: inner_start_def)
  obtain st2 where st2: "start_servers Task_Generator ng Lading_Generator 0 (generator c) st1 = Inr st2"
    using assms st1 by (cases "start_servers Task_Generator ng Lading_Generator 0 (generator c) st1") (auto simp: inner_start_def)
  define st3 where "st3 = (if inspector c \<noteq> None \<and> \<not> dis then spawn_task Task_Inspector st2 else st2)"
  obtain st4 where st4: "start_servers Task_Blackhole nb Lading_Blackhole 0 ?bs st3 = Inr st4"
    using assms st1 st2 by (cases "start_servers Task_Blackhole nb Lading_Blackhole 0 ?bs st3") (auto simp: inner_start_def st3_def Let_def)
  define st6 where "st6 = start_target (target c) (start_metrics 0 ?ms st4)"
  have st: "st = st6\<lparr>shutdown := drop_first (shutdown st6), experiment_started := drop_first (experiment_started st6)\<rparr>"
    using assms st1 st2 st4 unfolding st3_def st6_def by (simp add: inner_start_def Let_def)
  note a1 = start_telemetry_adds(1) [OF st1]
  have a2: "adds (map Task_Generator [0..<length (generator c)]) st1 st2"
    using start_servers_adds [OF _ _ st2] a1 by (simp add: adds_def)
  have a3: "adds (if inspector c \<noteq> None \<and> \<not> dis then [Task_Inspector] else []) st2 st3"
    using a2 spawn_task_adds [of st2 Task_Inspector] adds_refl [of st2] by (auto simp: st3_def adds_def)
  have a4: "adds (map Task_Blackhole [0..<length ?bs]) st3 st4" using start_servers_adds [OF _ _ st4] a3 by (simp add: adds_def)
  have "adds (map Task_Metrics [0..<length ?ms]) st4 (start_metrics 0 ?ms st4)" using start_metrics_adds [of st4 0 ?ms] a4 by (simp add: adds_def)
  moreover from this have "adds (if target c \<noteq> None then [Task_Observer, Task_Target] else []) (start_metrics 0 ?ms st4) st6"
    unfolding st6_def by (intro start_target_adds) (simp add: adds_def)
  ultimately have rest: "adds (map Task_Generator [0..<length (generator c)] @ (if inspector c \<noteq> None \<and> \<not> dis then [Task_Inspector] else []) @
      map Task_Blackhole [0..<length ?bs] @ map Task_Metrics [0..<length ?ms] @ (if target c \<noteq> None then [Task_Observer, Task_Target] else [])) st1 st6"
    by (intro adds_trans [OF a2] adds_trans [OF a3] adds_trans [OF a4] adds_trans)
  have all: "adds (expected_tasks dis c) run_init st6" unfolding expected_tasks_def by (rule adds_trans [OF a1 rest])
  then have "started (st6\<lparr>shutdown := drop_first (shutdown st6)\<rparr>)" by (intro drop_first_started) (simp add: adds_def)
  then show "started st" unfolding st by (simp add: started_def)
  show "map fst (tasks st) = expected_tasks dis c" using all unfolding st by (simp add: adds_def run_init_def)
  show "(Task_Capture, 1) \<in> set (tasks st) \<and> (target c \<noteq> None \<longrightarrow> target_running st = signal_do (A_Clone 0) signal_init)" if "is_log (telemetry c)"
  proof -
    have "tasks st1 = [(Task_Capture, 1)]" "target_running st1 = signal_do (A_Clone 0) signal_init"
      using start_telemetry_adds(2) [OF st1 that] by simp_all
    moreover have "target_running st6 = target_running st1" if "target c \<noteq> None"
      using that start_target_running(1) [OF st2] start_target_running(1) [OF st4]
      by (auto simp: st6_def st3_def start_target_def start_target_running(2) spawn_task_def)
    moreover obtain xs where "tasks st6 = tasks st1 @ xs" using rest by (auto simp: adds_def)
    ultimately show ?thesis unfolding st by simp
  qed
qed

section \<open>The end of a run\<close>

lemma started_peers:
  assumes "inner_start creates ng nb dis c = Inr st"
  shows "peers (shutdown st) = (if is_log (telemetry c) then 1 else 0)"
proof -
  have "filter (\<lambda>t. t = Task_Capture) (map fst xs) = map fst (filter (\<lambda>(t, i). t = Task_Capture) xs)" for xs :: "(task \<times> nat) list"
    by (induction xs) auto
  then have "length (filter (\<lambda>(t, i). t = Task_Capture) (tasks st)) = length (filter (\<lambda>t. t = Task_Capture) (expected_tasks dis c))"
    using inner_start_started(2) [OF assms] by (metis length_map)
  also have "\<dots> = (if is_log (telemetry c) then 1 else 0)" by (simp add: expected_tasks_def filter_map comp_def)
  finally show ?thesis using inner_start_started(1) [OF assms] by (simp add: started_def)
qed

text \<open>The least that must happen for \<open>signal_and_wait\<close> to return.\<close>

definition shortest_wait :: "Telemetry \<Rightarrow> action list" where
  "shortest_wait t = [A_SignalAndWait] @ (if is_log t then [A_TryRecv 1, A_Cas 1 False, A_Notify 1] else []) @ [A_Load]"

text \<open>
  C2. At the end of a run the program waits for the capture manager and for nothing else. Whatever
  generators, blackholes, observer, inspector and target a configuration starts, their watchers are
  clones, which the shutdown signal does not count: \<open>signal_and_wait\<close> can return with every one of
  them running and none having seen the signal, so that a target, for example, need not have been
  terminated. Without a capture file it returns at once.
\<close>

theorem shutdown_waits_for_capture_only:
  assumes "inner_start creates ng nb dis c = Inr st"
  shows "map fst (tasks st) = expected_tasks dis c \<and>
    (\<exists>s. run_acts (shortest_wait (telemetry c)) (shutdown st) = Some s \<and> bpc s = B_Done \<and>
      (\<forall>(t, i) \<in> set (tasks st). t \<noteq> Task_Capture \<longrightarrow> get_watcher s i = Some cloned_watcher))"
proof -
  let ?s = "shutdown st"
  have st: "bpc ?s = B_Idle" "sender_open ?s" and tasks: "\<And>t i. (t, i) \<in> set (tasks st) \<Longrightarrow> get_watcher ?s i = Some (watcher_of t)"
    using inner_start_started(1) [OF assms] by (auto simp: started_def)
  have servers: "get_watcher ?s i = Some cloned_watcher" if "(t, i) \<in> set (tasks st)" "t \<noteq> Task_Capture" for t i
    using tasks [OF that(1)] that(2) by (simp add: watcher_of_def)
  show ?thesis
  proof (cases "is_log (telemetry c)")
    case False
    then have "peers ?s = 0" using started_peers [OF assms] by simp
    with False st servers inner_start_started(2) [OF assms] show ?thesis by (auto simp: shortest_wait_def)
  next
    case True
    have p: "peers ?s = 1" using started_peers [OF assms] True by simp
    have w: "get_watcher ?s 1 = Some first_watcher" using inner_start_started(3) [OF assms True] tasks by (auto simp: watcher_of_def)
    then have other: "i \<noteq> 1" if "(t, i) \<in> set (tasks st)" "t \<noteq> Task_Capture" for t i
      using servers [OF that] by (auto simp: cloned_watcher_def first_watcher_def)
    let ?s1 = "?s\<lparr>sender_open := False, bpc := B_Load\<rparr>"
    let ?s2 = "put_watcher 1 (first_watcher\<lparr>wpc := W_Cas 1 After_TryRecv\<rparr>) ?s1"
    let ?s3 = "put_watcher 1 (first_watcher\<lparr>wpc := W_Notify After_TryRecv\<rparr>) (?s2\<lparr>peers := 0\<rparr>)"
    let ?s4 = "put_watcher 1 (first_watcher\<lparr>peer_count_decreased := True, signal_received := True\<rparr>) ?s3"
    have "act A_SignalAndWait ?s = Some (Res_Unit, ?s1)" using st by simp
    moreover have "act (A_TryRecv 1) ?s1 = Some (Res_TryRecv (Inr True), ?s2)"
      using w p by (simp add: watcher_act_def watcher_try_recv_def decrease_peer_count_def) (simp add: first_watcher_def)
    moreover have "act (A_Cas 1 False) ?s2 = Some (Res_Unit, ?s3)"
      using p by (simp add: decrease_cas_def) (simp add: put_watcher_def first_watcher_def)
    moreover have "act (A_Notify 1) ?s3 = Some (Res_Unit, ?s4)"
      by (simp add: notify_waiters_def) (simp add: put_watcher_def first_watcher_def)
    moreover have "act A_Load ?s4 = Some (Res_Unit, ?s4\<lparr>bpc := B_Done\<rparr>)" by (simp add: put_watcher_def)
    ultimately have ends: "run_acts (shortest_wait (telemetry c)) ?s = Some (?s4\<lparr>bpc := B_Done\<rparr>)"
      using True by (simp add: shortest_wait_def del: act.simps)
    have "get_watcher (?s4\<lparr>bpc := B_Done\<rparr>) i = Some cloned_watcher" if "(t, i) \<in> set (tasks st)" "t \<noteq> Task_Capture" for t i
      using servers [OF that] other [OF that] by (simp add: put_watcher_def update_conv')
    then have "\<forall>(t, i) \<in> set (tasks st). t \<noteq> Task_Capture \<longrightarrow> get_watcher (?s4\<lparr>bpc := B_Done\<rparr>) i = Some cloned_watcher" by blast
    with ends show ?thesis using inner_start_started(2) [OF assms] by (intro conjI exI [of _ "?s4\<lparr>bpc := B_Done\<rparr>"]) simp_all
  qed
qed

text \<open>A configuration with a capture file, one generator and a container as the target.\<close>

definition demo_config :: "(unit, unit, unit) config" where
  "demo_config = \<lparr>telemetry = Telemetry_Log ''capture'' Map.empty 60, generator = [()], target = Some (Target_Docker ''c''),
     blackhole = None, target_metrics = None, inspector = None\<rparr>"

lemma demo_config_starts: "\<exists>st. inner_start (\<lambda>_. True) (\<lambda>_. True) (\<lambda>_. True) False demo_config = Inr st"
proof -
  have "start_telemetry (\<lambda>_. True) (telemetry demo_config) run_init \<noteq> Inl e" for e
    by (simp add: start_telemetry_def demo_config_def run_init_def acts_eval)
  then show ?thesis by (cases "start_telemetry (\<lambda>_. True) (telemetry demo_config) run_init") (auto simp: inner_start_def demo_config_def Let_def)
qed

theorem shutdown_waits_for_capture_only_witness:
  "\<exists>st s. inner_start (\<lambda>_. True) (\<lambda>_. True) (\<lambda>_. True) False demo_config = Inr st \<and>
     map fst (tasks st) = [Task_Capture, Task_Generator 0, Task_Observer, Task_Target] \<and> run_acts (shortest_wait (telemetry demo_config)) (shutdown st) = Some s \<and>
     bpc s = B_Done"
proof -
  obtain st where st: "inner_start (\<lambda>_. True) (\<lambda>_. True) (\<lambda>_. True) False demo_config = Inr st" using demo_config_starts by blast
  have "expected_tasks False demo_config = [Task_Capture, Task_Generator 0, Task_Observer, Task_Target]"
    by (simp add: expected_tasks_def demo_config_def is_log_def)
  with shutdown_waits_for_capture_only [OF st] st show ?thesis by auto
qed

section \<open>A container that never starts\<close>

text \<open>A step of one watcher leaves the others alone.\<close>

lemma act_other_watcher:
  assumes "signal_inv s" "act a s = Some (r, s')" "task_watcher a = Some i" "i \<noteq> j" "get_watcher s j = Some w"
  shows "get_watcher s' j = Some w"
proof -
  have fresh: "j \<noteq> next_watcher s" using assms(5) signal_inv_fresh [OF assms(1)] by auto
  have finish: "get_watcher (finish i u k t) j = get_watcher t j" for u k t
    using assms(4) by (cases k) (simp_all add: remove_watcher_def delete_conv')
  have decrease: "get_watcher (decrease_peer_count i u k s) j = get_watcher s j" for u k
    using assms(4) finish by (simp add: decrease_peer_count_def)
  have cas: "get_watcher (decrease_cas b i u old k s) j = get_watcher s j" for b u old k
    using assms(4) finish by (simp add: decrease_cas_def put_watcher_def update_conv')
  show ?thesis
  proof (cases a)
    case (A_Clone k)
    with assms fresh show ?thesis by (auto simp: watcher_act_def watcher_clone_def put_watcher_def update_conv' split: option.splits if_splits)
  next
    case (A_Cas k b)
    with assms cas show ?thesis by (auto split: option.splits wpc.splits)
  next
    case (A_Notify k)
    with assms finish show ?thesis by (auto simp: notify_waiters_def split: option.splits wpc.splits if_splits)
  qed (use assms decrease in \<open>auto simp: watcher_act_def watcher_recv_def watcher_try_recv_def split: option.splits if_splits\<close>)
qed

text \<open>Docker can be reached and never reports a usable pid of the container.\<close>

definition no_container :: "lading_op \<Rightarrow> lading_sys \<Rightarrow> bool" where
  "no_container op s \<longleftrightarrow>
     (case op of
        Op_Target (Te_Inspect (Some (Some pid)) _ _) \<Rightarrow> pid = 0
      | Op_Target (Te_Connect ok) \<Rightarrow> ok
      | _ \<Rightarrow> True)"

definition held_up :: "lading_sys \<Rightarrow> bool" where
  "held_up s \<longleftrightarrow>
     signal_inv (shutdown (run s)) \<and> get_watcher (shutdown (run s)) 1 = Some first_watcher \<and> cap s = Some Cap_Target \<and>
     sender_open (target_running (run s)) \<and> get_watcher (target_running (run s)) 1 = Some cloned_watcher \<and>
     tg_pc (tgt_task s) \<in> {Tg_Start, Tg_Poll} \<and> \<not> tg_signalled (tgt_task s) \<and> (\<forall>r. main_pc s \<noteq> Main_Done r)"

lemma held_up_shutdown:
  assumes "held_up s" "on_shutdown a s = Some (r, s')" "task_watcher a = Some i \<and> i \<noteq> 1 \<or> a \<in> {A_SignalAndWait, A_Load, A_Notified}"
  shows "held_up s'" and "a = A_Load \<or> a = A_Notified \<Longrightarrow> bpc (shutdown (run s')) \<noteq> B_Done"
proof -
  let ?s = "shutdown (run s)"
  have inv: "signal_inv ?s" and w: "get_watcher ?s 1 = Some first_watcher" using assms(1) by (simp_all add: held_up_def)
  from assms(2) obtain sh where sh: "act a ?s = Some (r, sh)" "s' = s\<lparr>run := (run s)\<lparr>shutdown := sh\<rparr>\<rparr>" by (auto simp: on_shutdown_def)
  have "act_ok a ?s" using assms(3) by (cases a) auto
  then have "signal_inv sh" using act_inv [OF inv _ sh(1)] by blast
  moreover have "get_watcher sh 1 = Some first_watcher"
  proof (cases "task_watcher a = Some i \<and> i \<noteq> 1")
    case True
    with act_other_watcher [OF inv sh(1) _ _ w] show ?thesis by blast
  next
    case False
    with assms(3) sh(1) w show ?thesis by (auto split: if_splits)
  qed
  ultimately show "held_up s'" using assms(1) sh(2) by (simp add: held_up_def)
  have "0 < peers ?s" using signal_inv_get(3) [OF inv w] by (simp add: counted_def first_watcher_def)
  then show "bpc (shutdown (run s')) \<noteq> B_Done" if "a = A_Load \<or> a = A_Notified" using that sh by (auto split: if_splits)
qed

lemma held_up_target:
  assumes "held_up s" "no_container (Op_Target e) s" "target_turn creates parent_env (Target_Docker name) e s = Some s'"
  shows "held_up s'"
proof -
  obtain t where t: "target_step creates parent_env (Target_Docker name) e (tgt_task s) = Some t" using assms(3) by (auto simp: target_turn_def split: option.splits)
  have "tg_pc t \<in> {Tg_Start, Tg_Poll} \<and> \<not> tg_signalled t"
    using assms(1,2) t by (auto simp: held_up_def no_container_def target_step_def container_poll_def split: target_event.splits option.splits if_splits)
  then have "\<not> target_over t" by (auto simp: target_over_def)
  with assms(1,3) t \<open>tg_pc t \<in> _ \<and> _\<close> show ?thesis by (auto simp: target_turn_def held_up_def)
qed

lemma held_up_capture:
  assumes "held_up s" "capture_polls_target s = Some s'"
  shows "s' = s"
proof -
  have "act (A_TryRecv 1) (target_running (run s)) = Some (Res_TryRecv (Inr False), target_running (run s))"
    using assms(1) by (simp add: held_up_def watcher_act_def watcher_try_recv_def cloned_watcher_def first_watcher_def)
  with assms show ?thesis by (cases s) (auto simp: capture_polls_target_def target_polled_def held_up_def simp del: act.simps)
qed

lemma held_up_main:
  assumes "held_up s" "main_turn e s = Some s'"
  shows "held_up s'"
proof -
  obtain pc where pc: "main_next e s = Some pc" using assms(2) by (auto simp: main_turn_def split: if_splits option.splits)
  show ?thesis
  proof (cases "\<exists>r. pc = Main_Waiting r")
    case True
    with assms(2) pc obtain r x s1 where s1: "on_shutdown A_SignalAndWait s = Some (x, s1)" "s' = s1\<lparr>main_pc := Main_Waiting r\<rparr>"
      by (auto simp: main_turn_def split: if_splits)
    with held_up_shutdown(1) [OF assms(1) s1(1)] show ?thesis by (simp add: held_up_def)
  next
    case False
    with assms(2) pc have "s' = s\<lparr>main_pc := pc\<rparr>" by (cases pc) (auto simp: main_turn_def split: if_splits)
    moreover have "pc \<noteq> Main_Done r" for r
      using pc by (cases e) (auto split: if_splits joined.splits target_pc.splits sum.splits)
    ultimately show ?thesis using assms(1) by (simp add: held_up_def)
  qed
qed

lemma held_up_waits:
  assumes "held_up s" "main_waits a s = Some s'" "a = A_Load \<or> a = A_Notified"
  shows "held_up s'"
proof -
  obtain r x s1 where s1: "on_shutdown a s = Some (x, s1)" "s' = (if bpc (shutdown (run s1)) = B_Done then s1\<lparr>main_pc := Main_Done r\<rparr> else s1)"
    using assms(2) by (auto simp: main_waits_def split: main_pc.splits)
  with held_up_shutdown [OF assms(1) s1(1)] assms(3) show ?thesis by auto
qed

lemma held_up_step:
  assumes "held_up s" "no_container op s" "lading_turn creates parent_env (Target_Docker name) op s = Some s'"
  shows "held_up s'"
proof (cases op)
  case (Op_Task a)
  then obtain i r where "task_watcher a = Some i" "i \<noteq> 1" "on_shutdown a s = Some (r, s')"
    using assms(1,3) by (auto simp: held_up_def split: option.splits if_splits)
  with held_up_shutdown(1) [OF assms(1)] show ?thesis by blast
  next
  case (Op_Target e)
  with assms show ?thesis by (auto intro: held_up_target)
  next
  case Op_Capture_Target
  with assms held_up_capture [OF assms(1)] show ?thesis by (auto split: if_splits)
qed (use assms held_up_waits [OF assms(1)] held_up_main [OF assms(1)] in \<open>auto simp: held_up_def split: if_splits\<close>)

interpretation dk: invariant_machine "lading_act creates parent_env (Target_Docker name)" no_container held_up for creates parent_env name
  by unfold_locales (auto simp: lading_act_def intro: held_up_step)

lemma sys_start_held_up:
  assumes "inner_start creates ng nb dis c = Inr st" "is_log (telemetry c)" "target c \<noteq> None"
  shows "held_up (sys_start c st)"
proof -
  have "started st" "(Task_Capture, 1) \<in> set (tasks st)" "target_running st = signal_do (A_Clone 0) signal_init"
    using inner_start_started [OF assms(1)] assms(2,3) by auto
  moreover have "get_watcher (signal_do (A_Clone 0) signal_init) 1 = Some cloned_watcher" "sender_open (signal_do (A_Clone 0) signal_init)"
    by (simp_all add: signal_do_def acts_eval watcher_clone_def cloned_watcher_def first_watcher_def)
  moreover have "cap (sys_start c st) = Some Cap_Target" using assms(2) by (auto simp: sys_start_def is_log_def split: Telemetry.splits)
  ultimately show ?thesis by (auto simp: held_up_def started_def sys_start_def target_new_def watcher_of_def)
qed

text \<open>
  C3. A run with a capture file and a container as its target cannot be ended while the container
  does not start. The target task asks Docker again and again without looking at the shutdown
  signal, the capture thread waits for the target before it looks at it, and the main task waits
  for the capture thread: under every interleaving of their steps and those of all other tasks, after
  an interrupt or the failure of a generator, \<open>inner_main\<close> never returns.
\<close>

theorem missing_container_blocks_shutdown:
  assumes "inner_start creates ng nb dis c = Inr st" "telemetry c = Telemetry_Log path ls expiration" "target c = Some (Target_Docker name)"
    and "reaches (lading_act creates parent_env (Target_Docker name)) no_container (sys_start c st) s"
  shows "main_pc s \<noteq> Main_Done r \<and> cap s = Some Cap_Target \<and> 0 < peers (shutdown (run s))"
proof -
  have "held_up (sys_start c st)" using sys_start_held_up [OF assms(1)] assms(2,3) by (simp add: is_log_def)
  from dk.reaches_inv [OF assms(4) this] have held: "held_up s" .
  then have "0 < peers (shutdown (run s))"
    using signal_inv_get(3) [of "shutdown (run s)" 1 first_watcher] by (simp add: held_up_def counted_def first_watcher_def)
  with held show ?thesis by (simp add: held_up_def)
qed

theorem missing_container_blocks_shutdown_witness:
  "\<exists>st s. inner_start (\<lambda>_. True) (\<lambda>_. True) (\<lambda>_. True) False demo_config = Inr st \<and>
     reaches (lading_act (\<lambda>_. True) Map.empty (Target_Docker ''c'')) no_container (sys_start demo_config st) s \<and>
     main_pc s = Main_Waiting (Inr ()) \<and> cap s = Some Cap_Target \<and> 0 < peers (shutdown (run s))"
proof -
  let ?act = "lading_act (\<lambda>_. True) Map.empty (Target_Docker ''c'')"
  obtain st where st: "inner_start (\<lambda>_. True) (\<lambda>_. True) (\<lambda>_. True) False demo_config = Inr st" using demo_config_starts by blast
  have sh: "bpc (shutdown st) = B_Idle" using inner_start_started(1) [OF st] by (simp add: started_def)
  let ?s0 = "sys_start demo_config st"
  let ?s1 = "?s0\<lparr>run := (run ?s0)\<lparr>shutdown := (shutdown st)\<lparr>sender_open := False, bpc := B_Load\<rparr>\<rparr>, main_pc := Main_Waiting (Inr ())\<rparr>"
  have "?act (Op_Main Me_CtrlC) ?s0 = Some ((), ?s1)"
    using sh by (simp add: lading_act_def main_turn_def on_shutdown_def sys_start_def)
  then have r: "reaches ?act no_container ?s0 ?s1"
    by (intro reaches_step [OF reaches_start, where op = "Op_Main Me_CtrlC"]) (simp_all add: no_container_def)
  have "telemetry demo_config = Telemetry_Log ''capture'' Map.empty 60" "target demo_config = Some (Target_Docker ''c'')"
    by (simp_all add: demo_config_def)
  from missing_container_blocks_shutdown [OF st this r] have "cap ?s1 = Some Cap_Target \<and> 0 < peers (shutdown (run ?s1))" by blast
  with st r show ?thesis by (intro exI [of _ st] exI [of _ ?s1]) simp
qed

end
