(* ===== verification/Spec2Isabelle.thy ===== *)
theory Spec2Isabelle
  imports Logrotate_Props Payloadtool Generator_Procfs File_Tree Observer Target_Metrics Blackhole_Sqs Lading
begin

text \<open>
  Verification of \<^verbatim>\<open>lading\<close>, a load generator.

  \<^bold>\<open>The program.\<close> A generator asks a payload (\<^verbatim>\<open>lading_payload\<close>) for blocks of bytes of bounded
  size, keeps them in a block cache, waits on a throttle (\<^verbatim>\<open>lading_throttle\<close>) until it may emit
  a block, and writes it out; one generator is a FUSE filesystem of rotating log files. The
  target, a process that is launched or only watched, receives this load and may pass it on to
  blackholes, servers that count and discard it. Meanwhile an observer samples the target's processes,
  the target's own metrics are scraped, an inspector may run beside it, and the capture
  manager writes all metrics to a file. The binary builds these tasks from options and a
  configuration file, and starts and stops them together through a signal (\<^verbatim>\<open>lading_signal\<close>).

  \<^bold>\<open>Shared.\<close> \<^verbatim>\<open>Prelude\<close> holds integers at their width (\<open>saturating_add\<close>, \<open>wrapping_add\<close>,
  \<open>checked_sub\<close>), the random number generator as an argument with its contract (\<open>rng_ok\<close>, with
  \<open>counter_rng\<close> as an instance), and two locales: \<open>invariant_machine\<close>, an invariant
  kept by every step of a machine, and \<open>guarded_machine\<close>, one that also answers. \<^verbatim>\<open>Text\<close> holds what the
  printers and parsers use of Rust's strings, with round trips between printing and parsing
  numbers; \<^verbatim>\<open>Floats\<close> the arithmetic, rounding and parsing of floating point numbers.

  \<^bold>\<open>Throttle\<close> (\<^verbatim>\<open>lading_throttle/src/stable.rs\<close>, \<^verbatim>\<open>lib.rs\<close>): \<open>Valve\<close>, \<open>Stable\<close>, \<open>Throttle\<close> and
  \<open>RealClock\<close> on 64- and 32-bit words. The clock's sleep is an argument. Shown: every branch of
  a request, the capacity granted per interval is at most the maximum, waiting ends.

  \<^bold>\<open>Block\<close> (\<^verbatim>\<open>lading_payload/src/block.rs\<close>): building blocks from a serializer, round robin,
  random access. A serializer maps a budget and a generator state to \<open>None\<close> when it
  panics or does not return, to \<open>Inl\<close> on an error and to \<open>Inr\<close> with the bytes written. The
  construction loop may run for ever, so it is a partial function and not returning
  is \<open>None\<close>. Shown: random access reads the endless repetition of the blocks, blocks come in
  order, and when construction does not return.

  \<^bold>\<open>Logrotate\<close> (\<^verbatim>\<open>generator/file_gen/logrotate_fs.rs\<close> and \<^verbatim>\<open>logrotate_fs/model.rs\<close>):
  \<^verbatim>\<open>Logrotate_File\<close> and \<^verbatim>\<open>Logrotate_State\<close> define files, nodes and the state with rotation;
  \<^verbatim>\<open>Logrotate_Rotate\<close>, \<^verbatim>\<open>Logrotate_Inv\<close>, \<^verbatim>\<open>Logrotate_Time\<close> and \<^verbatim>\<open>Logrotate_Ops\<close> show what one
  rotation, one tick and each operation keep of the invariant; \<^verbatim>\<open>Logrotate_New\<close> builds the
  state; \<^verbatim>\<open>Logrotate_Fs\<close> has the FUSE handlers; \<^verbatim>\<open>Logrotate_Props\<close> has the properties:
  no request panics, what a file holds at a tick, the chain of rotated files, what reads,
  listings and lookups answer, handles.

  \<^bold>\<open>Payloads\<close> (\<^verbatim>\<open>lading_payload/src\<close>): \<^verbatim>\<open>Payload\<close> has the string pool and the loop that fills
  a budget with lines; \<^verbatim>\<open>Payload_Text\<close> the ASCII, JSON, syslog, Apache, Splunk and static
  payloads; \<^verbatim>\<open>Payload_Search\<close> those that search for the number of members that fit (Datadog,
  Fluent, trace agent); \<^verbatim>\<open>Payload_Otel\<close> the OpenTelemetry requests; \<^verbatim>\<open>Dogstatsd\<close>,
  \<^verbatim>\<open>Dogstatsd_Tags\<close>, \<^verbatim>\<open>Dogstatsd_Member\<close> and \<^verbatim>\<open>Dogstatsd_Props\<close> the DogStatsD payload. Encoders of
  other crates (serde, MessagePack, Protocol Buffers) and the printing of floats are
  arguments with what their formats document. The locale \<open>slack_serializer\<close> is what a block
  cache relies on: a payload exceeds its budget by at most some slack. It is interpreted for DogStatsD, with
  the four bytes of a length prefix as slack, and through its instance \<open>bounded_serializer\<close>, without
  slack, for every other payload.

  \<^verbatim>\<open>Payload_Config\<close> has the configuration of \<^verbatim>\<open>lib.rs\<close> that names a payload and \<^verbatim>\<open>Cache::fixed\<close> over
  it, and shows what blocks a cache of any payload holds.

  \<^verbatim>\<open>Procfs\<close> has the fake processes of \<^verbatim>\<open>procfs.rs\<close> and \<^verbatim>\<open>procfs/proc.rs\<close>: every field of their status,
  stat, statm and io files, how it is drawn and how it is printed. Shown: the files of a process
  agree with one another and the status file can be read back; the stat file lacks a space.

  \<^bold>\<open>Generators\<close> (\<^verbatim>\<open>generator.rs\<close>, \<^verbatim>\<open>generator/*.rs\<close>): \<^verbatim>\<open>Pacing\<close> has the receiver of blocks (\<^verbatim>\<open>common.rs\<close>)
  and one turn of the loop all generators share, peek, wait on the throttle, take the block, with two
  locales for machines made of such turns. \<^verbatim>\<open>Generator_Net\<close> has the socket generators, \<^verbatim>\<open>Generator_Http\<close>
  HTTP, Splunk HEC and its acknowledgements, \<^verbatim>\<open>Generator_File\<close> the two writers of files on a
  disk whose operations may fail, each as a machine driven by what its environment answers
  (a connection, a write, a shutdown). \<^verbatim>\<open>Generator\<close> has the constructors and the dispatch and
  shows the rate and the order of blocks of every generator that sends blocks, task by task and in total.
  The requests of HTTP and Splunk are tasks that own a permit of a semaphore (\<open>pool\<close>) from when they are
  spawned until they drop it. \<open>emitted\<close>, \<open>wire\<close>, \<open>past_wires\<close> and the finished \<open>tasks\<close> of a pool are
  histories the code does not keep; they record what it has done for the properties to speak of.
  \<^verbatim>\<open>Payloadtool\<close> (\<^verbatim>\<open>bin/payloadtool.rs\<close>) builds the caches of a configuration to check them. Shown: where it
  agrees with the generators' constructors.

  \<^bold>\<open>Observer\<close> (\<^verbatim>\<open>observer.rs\<close>, \<^verbatim>\<open>observer/linux\<close>): \<^verbatim>\<open>Observer_Memory\<close> reads \<^verbatim>\<open>smaps\<close> and \<^verbatim>\<open>smaps_rollup\<close>,
  \<^verbatim>\<open>Observer_Cpu\<close> reads \<^verbatim>\<open>stat\<close>, \<^verbatim>\<open>uptime\<close> and the control group's files and computes processor usage,
  \<^verbatim>\<open>Observer\<close> walks the processes below the target and has the samplers and the server's loop. Gauges
  are returned as a list. Shown: a memory map is read back region by region, with the first word of its path, and summed by path,
  the stat files that \<^verbatim>\<open>Procfs\<close> prints are read back, the walk ends and reaches every descendant
  once, and which samples have no history.

  \<^bold>\<open>Signal\<close> (\<^verbatim>\<open>lading_signal/src/lib.rs\<close>): the broadcaster and its watchers as interleaved atomic
  steps on the peer counter, the broadcast channel and the notification. Shown: it
  refines a barrier over the set of outstanding peers, waiting ends only after all peers, and a
  wake-up can be lost.

  \<^bold>\<open>Other generators.\<close> \<^verbatim>\<open>Process_Tree\<close> (\<^verbatim>\<open>generator/process_tree.rs\<close>): the drawn tree, the walk in which every
  process forks, and the loop that starts it again; a run of processes is the value \<open>process_run\<close>.
  \<^verbatim>\<open>File_Tree\<close> (\<^verbatim>\<open>generator/file_tree.rs\<close>): the drawn tree and the opens and renames on a disk of files
  and directories, where renaming replaces an empty directory; the history \<open>replaced\<close> has those that were. \<^verbatim>\<open>Generator_Procfs\<close> (\<^verbatim>\<open>generator/procfs.rs\<close>): the files of \<^verbatim>\<open>Procfs\<close> on a disk.
  Shown: both trees are drawn completely and within their limits, what is forked, what the disk
  holds at any moment, and that the observer reads what the procfs generator writes.

  \<^bold>\<open>Blackholes\<close> (\<^verbatim>\<open>blackhole.rs\<close>, \<^verbatim>\<open>blackhole/*.rs\<close>, \<^verbatim>\<open>codec.rs\<close>): \<^verbatim>\<open>Blackhole\<close> has the decoding of bodies, the
  services of HTTP and Splunk HEC, the accept loop with its permits (\<open>httpd_act\<close>) and the socket
  loops, \<^verbatim>\<open>Blackhole_Sqs\<close> the SQS service. Shown: the connection limit, that encodings are undone and others refused,
  that the Splunk blackhole acknowledges what the Splunk generator waits for, and what SQS answers.

  \<^bold>\<open>Target metrics\<close> (\<^verbatim>\<open>target_metrics.rs\<close>, \<^verbatim>\<open>prometheus.rs\<close>, \<^verbatim>\<open>expvar.rs\<close>): \<^verbatim>\<open>Target_Metrics\<close> has the line parser and
  both scrapers. Shown: expositions are read back, and which lines panic.

  \<^bold>\<open>A run.\<close> \<^verbatim>\<open>Captures\<close> (\<^verbatim>\<open>captures.rs\<close>, \<^verbatim>\<open>lading_capture/src/json.rs\<close>, \<^verbatim>\<open>bin/captool.rs\<close>): the capture manager and
  the tool that reads its files, with the round trip between them. \<^verbatim>\<open>Target\<close> (\<^verbatim>\<open>target.rs\<close>, \<^verbatim>\<open>inspector.rs\<close>,
  \<^verbatim>\<open>common.rs\<close>): the target task as steps over the answers of Docker and the operating system, with the
  invariant of what it announces; the events so far are kept beside it. \<^verbatim>\<open>Cli\<close> (\<^verbatim>\<open>bin/lading.rs\<close>, \<^verbatim>\<open>config.rs\<close>): the options, lists of keys and
  values, \<open>get_config\<close>. \<^verbatim>\<open>Lading\<close> (\<open>inner_main\<close> of \<^verbatim>\<open>bin/lading.rs\<close>): the start of all tasks on three
  signals of \<^verbatim>\<open>Signal\<close>, then the main loop, the capture thread and the target task interleaved.
  Shown: whom the shutdown waits for, and a state from which it never ends.

  \<^bold>\<open>Bounds.\<close> No fuel is used: loops are structural, have a measure, or are partial functions such as
  \<open>loop\<close> of \<^verbatim>\<open>Prelude\<close>, where the value \<open>None\<close> means that it does not end; a property that needs a result
  shows \<open>Some\<close>. Loops over an environment take the list of its events.

  \<^bold>\<open>Not modelled.\<close> \<^verbatim>\<open>main\<close> of the binary (logging, the runtime and its shutdown delay), the Prometheus
  exporters and the timers of an experiment, which is ended by an event; mounting the FUSE filesystem; the statistics of \<^verbatim>\<open>captool\<close>, which another crate
  computes; the integration harness, which tests the program; metrics counters of the
  generators, log lines and the serde attributes everywhere.
\<close>

end
